(* ===== verification/Foundations.thy ===== *)
theory Foundations
  imports Main "HOL-Library.Word"
begin

text \<open>
  Shared vocabulary of the development: machine words and bytes, results with an error value,
  big-endian numbers, exact-size chunks, checked 64-bit arithmetic, IEEE single-precision bit
  patterns, and two interfaces: a codec for fixed-width records and a machine that consumes a
  list of events and stops at the first error.
\<close>

unbundle bit_operations_syntax

section \<open>Machine types\<close>

type_synonym u8 = "8 word"
type_synonym u16 = "16 word"
type_synonym u32 = "32 word"
type_synonym i8 = "8 word"
type_synonym i16 = "16 word"
type_synonym f32 = "32 word"
type_synonym bytes = "u8 list"

text \<open>
  An \<open>i8\<close> or \<open>i16\<close> is its two's complement word, read with \<open>sint\<close>; an \<open>f32\<close>
  is its IEEE 754 bit pattern (Rust's \<open>to_bits\<close>).
\<close>

named_theorems result_simps
named_theorems codec_simps

section \<open>Results: an error on the left, a value on the right\<close>

definition bindE :: "'e + 'a \<Rightarrow> ('a \<Rightarrow> 'e + 'b) \<Rightarrow> 'e + 'b" where
  "bindE m f = (case m of Inl e \<Rightarrow> Inl e | Inr x \<Rightarrow> f x)"

lemma bindE_Inl [simp]: "bindE (Inl e) f = Inl e"
  by (simp add: bindE_def)

lemma bindE_Inr [simp]: "bindE (Inr x) f = f x"
  by (simp add: bindE_def)

lemma bindE_eq_Inr [result_simps]: "bindE m f = Inr y \<longleftrightarrow> (\<exists>x. m = Inr x \<and> f x = Inr y)"
  by (cases m) auto

lemma bindE_eq_Inl [result_simps]:
  "bindE m f = Inl e \<longleftrightarrow> m = Inl e \<or> (\<exists>x. m = Inr x \<and> f x = Inl e)"
  by (cases m) auto

lemma bindE_assoc: "bindE (bindE m f) g = bindE m (\<lambda>x. bindE (f x) g)"
  by (cases m) auto

lemma bindE_cong [fundef_cong]:
  "m = m' \<Longrightarrow> (\<And>x. m' = Inr x \<Longrightarrow> f x = f' x) \<Longrightarrow> bindE m f = bindE m' f'"
  by (cases m') auto

definition require :: "bool \<Rightarrow> 'e \<Rightarrow> 'e + unit" where
  "require b e = (if b then Inr () else Inl e)"

lemma require_True [simp]: "require True e = Inr ()"
  by (simp add: require_def)

lemma require_False [simp]: "require False e = Inl e"
  by (simp add: require_def)

lemma require_eq_Inr [result_simps]: "require b e = Inr u \<longleftrightarrow> b"
  by (simp add: require_def)

lemma require_eq_Inl [result_simps]: "require b e = Inl e' \<longleftrightarrow> \<not> b \<and> e' = e"
  by (auto simp: require_def)

text \<open>A loop that maps over a list with \<open>?\<close> stops at the first error.\<close>

fun mapE :: "('a \<Rightarrow> 'e + 'b) \<Rightarrow> 'a list \<Rightarrow> 'e + 'b list" where
  "mapE f [] = Inr []"
| "mapE f (x # xs) = bindE (f x) (\<lambda>y. bindE (mapE f xs) (\<lambda>ys. Inr (y # ys)))"

lemma mapE_length: "mapE f xs = Inr ys \<Longrightarrow> length ys = length xs"
  by (induction xs arbitrary: ys) (auto simp: result_simps)

lemma mapE_append:
  "mapE f (xs @ ys) = bindE (mapE f xs) (\<lambda>as. bindE (mapE f ys) (\<lambda>bs. Inr (as @ bs)))"
  by (induction xs) (simp_all add: bindE_assoc, cases "mapE f ys", simp_all)

lemma mapE_nth: "mapE f xs = Inr ys \<Longrightarrow> i < length xs \<Longrightarrow> f (xs ! i) = Inr (ys ! i)"
proof (induction xs arbitrary: ys i)
  case Nil
  then show ?case by simp
next
  case (Cons x xs)
  then show ?case by (cases i) (auto simp: result_simps)
qed

text \<open>
  A run that can also panic: an \<open>expect\<close> on \<open>None\<close>, an \<open>unreachable!\<close>, a failed assertion
  or an index out of range is \<open>Panicked\<close>, a returned error is \<open>Refused\<close>.
\<close>

datatype 'e stop = Refused 'e | Panicked

text \<open>\<open>iter().position(p)\<close>\<close>

fun position :: "('a \<Rightarrow> bool) \<Rightarrow> 'a list \<Rightarrow> nat option" where
  "position p [] = None"
| "position p (x # xs) = (if p x then Some 0 else map_option Suc (position p xs))"

lemma position_Some:
  "position p xs = Some i \<Longrightarrow> i < length xs \<and> p (xs ! i) \<and> (\<forall>j<i. \<not> p (xs ! j))"
proof (induction xs arbitrary: i)
  case (Cons x xs)
  then show ?case by (cases i) (auto simp: less_Suc_eq_0_disj split: if_split_asm)
qed simp

lemma position_None: "position p xs = None \<longleftrightarrow> (\<forall>x\<in>set xs. \<not> p x)"
  by (induction xs) auto

section \<open>A machine over a list of events\<close>

fun foldE :: "('s \<Rightarrow> 'a \<Rightarrow> 'e + 's) \<Rightarrow> 's \<Rightarrow> 'a list \<Rightarrow> 'e + 's" where
  "foldE step s [] = Inr s"
| "foldE step s (x # xs) = bindE (step s x) (\<lambda>s'. foldE step s' xs)"

lemma foldE_append:
  "foldE step s (xs @ ys) = bindE (foldE step s xs) (\<lambda>s'. foldE step s' ys)"
  by (induction xs arbitrary: s) (simp_all add: bindE_assoc)

text \<open>
  \<open>safe m P\<close>: the run \<open>m\<close> does not panic, and a value it returns satisfies \<open>P\<close>.
\<close>

definition safe :: "'e stop + 'a \<Rightarrow> ('a \<Rightarrow> bool) \<Rightarrow> bool" where
  "safe m P \<longleftrightarrow> m \<noteq> Inl Panicked \<and> (\<forall>x. m = Inr x \<longrightarrow> P x)"

lemma safe_Inr [simp]: "safe (Inr x) P \<longleftrightarrow> P x"
  by (auto simp: safe_def)

lemma safe_Refused [simp]: "safe (Inl (Refused e)) P"
  by (simp add: safe_def)

lemma safe_Panicked [simp]: "\<not> safe (Inl Panicked) P"
  by (simp add: safe_def)

lemma safe_bindE: "safe m Q \<Longrightarrow> (\<And>x. Q x \<Longrightarrow> safe (f x) P) \<Longrightarrow> safe (bindE m f) P"
  by (cases m) (auto simp: safe_def)

lemma safe_mono: "safe m P \<Longrightarrow> (\<And>x. P x \<Longrightarrow> Q x) \<Longrightarrow> safe m Q"
  by (auto simp: safe_def)

lemma safe_conj: "safe m P \<Longrightarrow> safe m Q \<Longrightarrow> safe m (\<lambda>x. P x \<and> Q x)"
  by (auto simp: safe_def)

lemma safeD: "safe m P \<Longrightarrow> m = Inr x \<Longrightarrow> P x"
  by (simp add: safe_def)

text \<open>
  An invariant that every step keeps without panicking is an invariant of every run, which
  does not panic either. \<open>allowed\<close> is what the caller has checked of an event before the step.
\<close>

locale event_machine =
  fixes step :: "'s \<Rightarrow> 'a \<Rightarrow> 'e stop + 's"
    and inv :: "'s \<Rightarrow> bool"
    and allowed :: "'a \<Rightarrow> bool"
  assumes step_safe: "inv s \<Longrightarrow> allowed x \<Longrightarrow> safe (step s x) inv"
begin

lemma run_safe: "inv s \<Longrightarrow> list_all allowed xs \<Longrightarrow> safe (foldE step s xs) inv"
  by (induction xs arbitrary: s) (auto intro: safe_bindE [OF step_safe])

lemma run_inv: "inv s \<Longrightarrow> list_all allowed xs \<Longrightarrow> foldE step s xs = Inr s' \<Longrightarrow> inv s'"
  using run_safe safeD by metis

lemma run_never_panics: "inv s \<Longrightarrow> list_all allowed xs \<Longrightarrow> foldE step s xs \<noteq> Inl Panicked"
  using run_safe by (metis safe_Panicked)

lemma run_prefix_inv:
  assumes "inv s" and "list_all allowed (xs @ ys)" and "foldE step s (xs @ ys) = Inr s'"
  shows "\<exists>t. foldE step s xs = Inr t \<and> inv t"
  using assms run_inv by (fastforce simp: foldE_append result_simps)

end

section \<open>Big-endian numbers\<close>

definition be16 :: "u16 \<Rightarrow> bytes" where
  "be16 w = [ucast (drop_bit 8 w), ucast w]"

definition be32 :: "u32 \<Rightarrow> bytes" where
  "be32 w = [ucast (drop_bit 24 w), ucast (drop_bit 16 w), ucast (drop_bit 8 w), ucast w]"

definition of_be16 :: "u8 \<Rightarrow> u8 \<Rightarrow> u16" where
  "of_be16 a b = push_bit 8 (ucast a) OR ucast b"

definition of_be32 :: "u8 \<Rightarrow> u8 \<Rightarrow> u8 \<Rightarrow> u8 \<Rightarrow> u32" where
  "of_be32 a b c d =
     push_bit 24 (ucast a) OR push_bit 16 (ucast b) OR push_bit 8 (ucast c) OR ucast d"

lemma length_be16 [simp, codec_simps]: "length (be16 w) = 2"
  by (simp add: be16_def)

lemma length_be32 [simp, codec_simps]: "length (be32 w) = 4"
  by (simp add: be32_def)

lemma of_be16_be16: "be16 w = [a, b] \<Longrightarrow> of_be16 a b = w"
  by (rule bit_word_eqI)
    (auto simp: be16_def of_be16_def bit_simps)

lemma be16_of_be16: "be16 (of_be16 a b) = [a, b]"
  unfolding be16_def of_be16_def list.inject
  by (intro conjI bit_word_eqI) (auto simp: bit_simps dest: bit_imp_le_length)

lemma of_be32_be32: "be32 w = [a, b, c, d] \<Longrightarrow> of_be32 a b c d = w"
proof (rule bit_word_eqI)
  fix n
  assume n: "n < LENGTH(32)" and w: "be32 w = [a, b, c, d]"
  consider "n < 8" | "8 \<le> n" "n < 16" | "16 \<le> n" "n < 24" | "24 \<le> n"
    by linarith
  then show "bit (of_be32 a b c d) n = bit w n"
    by cases (use n w in \<open>auto simp: be32_def of_be32_def bit_simps\<close>)
qed

lemma be32_of_be32: "be32 (of_be32 a b c d) = [a, b, c, d]"
  unfolding be32_def of_be32_def list.inject
  by (intro conjI bit_word_eqI) (auto simp: bit_simps dest: bit_imp_le_length)

lemma be16_split [simp]: "of_be16 (ucast (drop_bit 8 w)) (ucast w) = w"
  by (rule of_be16_be16) (simp add: be16_def)

lemma be32_split [simp]:
  "of_be32 (ucast (drop_bit 24 w)) (ucast (drop_bit 16 w)) (ucast (drop_bit 8 w)) (ucast w) = w"
  by (rule of_be32_be32) (simp add: be32_def)

lemmas be_simps = be16_of_be16 be32_of_be32 be16_def be32_def

section \<open>Slices and exact-size chunks\<close>

text \<open>Rust's \<open>xs[i..j]\<close>; every use is preceded by the length check that makes it in range.\<close>

definition slice_of :: "nat \<Rightarrow> nat \<Rightarrow> 'a list \<Rightarrow> 'a list" where
  "slice_of i j xs = take (j - i) (drop i xs)"

lemma length_slice_of: "j \<le> length xs \<Longrightarrow> length (slice_of i j xs) = j - i"
  by (simp add: slice_of_def)

text \<open>\<open>&xs[i..j]\<close> where nothing is checked before: it panics out of range.\<close>

definition cut :: "nat \<Rightarrow> nat \<Rightarrow> 'a list \<Rightarrow> 'e stop + 'a list" where
  "cut i j xs = (if i \<le> j \<and> j \<le> length xs then Inr (slice_of i j xs) else Inl Panicked)"

text \<open>Rust's \<open>chunks_exact\<close>: a remainder shorter than the chunk is dropped.\<close>

fun chunks_exact :: "nat \<Rightarrow> 'a list \<Rightarrow> 'a list list" where
  "chunks_exact n xs =
     (if n = 0 \<or> length xs < n then [] else take n xs # chunks_exact n (drop n xs))"

declare chunks_exact.simps [simp del]

lemma chunks_exact_Nil [simp]: "chunks_exact n [] = []"
  by (subst chunks_exact.simps) auto

lemma chunks_exact_step:
  "0 < n \<Longrightarrow> length c = n \<Longrightarrow> chunks_exact n (c @ xs) = c # chunks_exact n xs"
  by (subst chunks_exact.simps) simp

lemma length_chunks_exact: "0 < n \<Longrightarrow> length (chunks_exact n xs) = length xs div n"
proof (induction n xs rule: chunks_exact.induct)
  case (1 n xs)
  show ?case
  proof (cases "length xs < n")
    case True
    then show ?thesis by (subst chunks_exact.simps) simp
  next
    case False
    with 1 have "length (chunks_exact n xs) = Suc ((length xs - n) div n)"
      by (subst chunks_exact.simps) simp
    with 1 False show ?thesis by (simp add: le_div_geq)
  qed
qed

lemma concat_chunks_exact:
  "0 < n \<Longrightarrow> n dvd length xs \<Longrightarrow> concat (chunks_exact n xs) = xs"
proof (induction n xs rule: chunks_exact.induct)
  case (1 n xs)
  show ?case
  proof (cases "length xs < n")
    case True
    with 1 have "xs = []" using dvd_imp_le by fastforce
    then show ?thesis by simp
  next
    case False
    with 1 have "concat (chunks_exact n (drop n xs)) = drop n xs"
      using dvd_diff_nat by fastforce
    with 1 False show ?thesis by (subst chunks_exact.simps) simp
  qed
qed

lemma chunks_exact_lengths: "c \<in> set (chunks_exact n xs) \<Longrightarrow> length c = n"
proof (induction n xs rule: chunks_exact.induct)
  case (1 n xs)
  then show ?case by (subst (asm) (2) chunks_exact.simps) (auto split: if_splits)
qed

section \<open>Fixed-width record codecs\<close>

text \<open>
  The interface between a record's encoder and its decoder: an encoding has the fixed width, is
  decoded back, and is the only input of that width with its value. What follows is the same
  for a whole run of records.
\<close>

locale record_codec =
  fixes width :: nat
    and enc :: "'a \<Rightarrow> bytes"
    and dec :: "bytes \<Rightarrow> 'e + 'a"
    and ok :: "'a \<Rightarrow> bool"
  assumes width_pos: "0 < width"
    and enc_width: "ok a \<Longrightarrow> length (enc a) = width"
    and dec_enc: "ok a \<Longrightarrow> dec (enc a) = Inr a"
    and dec_sound: "length bs = width \<Longrightarrow> dec bs = Inr a \<Longrightarrow> ok a \<and> enc a = bs"
begin

lemma decode_run:
  "list_all ok as \<Longrightarrow> mapE dec (chunks_exact width (concat (map enc as))) = Inr as"
  by (induction as) (simp_all add: chunks_exact_step width_pos enc_width dec_enc)

lemma chunks_run:
  "list_all ok as \<Longrightarrow> chunks_exact width (concat (map enc as)) = map enc as"
  by (induction as) (simp_all add: chunks_exact_step width_pos enc_width)

lemma run_length: "list_all ok as \<Longrightarrow> length (concat (map enc as)) = width * length as"
  by (induction as) (simp_all add: enc_width)

lemma mapE_sound:
  "\<forall>c\<in>set cs. length c = width \<Longrightarrow> mapE dec cs = Inr as \<Longrightarrow>
     list_all ok as \<and> map enc as = cs"
proof (induction cs arbitrary: as)
  case Nil
  then show ?case by simp
next
  case (Cons c cs)
  then show ?case using dec_sound by (fastforce simp: result_simps)
qed

lemma run_sound:
  assumes "width dvd length bs" and "mapE dec (chunks_exact width bs) = Inr as"
  shows "list_all ok as \<and> concat (map enc as) = bs"
proof -
  have "list_all ok as \<and> map enc as = chunks_exact width bs"
    using mapE_sound [OF _ assms(2)] chunks_exact_lengths by blast
  then show ?thesis using concat_chunks_exact [OF width_pos assms(1)] by simp
qed

lemma dec_inj:
  "length bs = width \<Longrightarrow> length cs = width \<Longrightarrow> dec bs = Inr a \<Longrightarrow> dec cs = Inr a \<Longrightarrow> bs = cs"
  using dec_sound by metis

end

section \<open>IEEE 754 single precision\<close>

text \<open>
  \<open>f32_scaled w\<close> is the exact value of a finite bit pattern times \<open>2 ^ 149\<close>, which is an
  integer for every finite value, so comparisons of finite floats are integer comparisons (both
  zeros have the value 0). \<open>f32_unit\<close> is \<open>value.is_finite() && (0.0..=1.0).contains(&value)\<close>.
\<close>

definition f32_finite :: "f32 \<Rightarrow> bool" where
  "f32_finite w \<longleftrightarrow> w AND 0x7F800000 \<noteq> 0x7F800000"

definition f32_scaled :: "f32 \<Rightarrow> int" where
  "f32_scaled w =
     (let e = unat (drop_bit 23 w AND 0xFF); m = uint (w AND 0x7FFFFF);
          v = (if e = 0 then m else (2 ^ 23 + m) * 2 ^ (e - 1))
      in if bit w 31 then - v else v)"

definition f32_unit :: "f32 \<Rightarrow> bool" where
  "f32_unit w \<longleftrightarrow> f32_finite w \<and> 0 \<le> f32_scaled w \<and> f32_scaled w \<le> 2 ^ 149"

section \<open>Checked 64-bit arithmetic\<close>

text \<open>
  A \<open>u64\<close> or \<open>usize\<close> (64-bit targets) that only takes part in checked arithmetic is a
  natural number; the checked operations refuse a result of \<open>2 ^ 64\<close> or more.
\<close>

definition checked_add64 :: "nat \<Rightarrow> nat \<Rightarrow> nat option" where
  "checked_add64 a b = (if a + b < 2 ^ 64 then Some (a + b) else None)"

definition checked_mul64 :: "nat \<Rightarrow> nat \<Rightarrow> nat option" where
  "checked_mul64 a b = (if a * b < 2 ^ 64 then Some (a * b) else None)"

definition checked_sub :: "nat \<Rightarrow> nat \<Rightarrow> nat option" where
  "checked_sub a b = (if b \<le> a then Some (a - b) else None)"

end
