(* ===== verification/ReplayWire.thy ===== *)
theory ReplayWire
  imports Foundations
begin

unbundle bit_operations_syntax

text \<open>
  \<open>crates/media/src/replay_wire.rs\<close>: the host decoder of the fixed \<open>IBRPLY01\<close> wire. The
  types, the constants and the decoder follow the source; \<open>wire_bytes\<close> is the specification the
  decoder is proved against: the one byte string that stands for a structurally valid replay.
  \<open>mem n\<close> says whether the allocator grants \<open>n\<close> events (\<open>try_reserve_exact\<close>).
\<close>

section \<open>Constants and types\<close>

definition WIRE_VERSION :: u16 where [simp]: "WIRE_VERSION = 1"
definition CANDIDATE_PROFILE :: u16 where [simp]: "CANDIDATE_PROFILE = 1"
definition HEADER_BYTES :: nat where [simp]: "HEADER_BYTES = 64"
definition TOOL_BYTES :: nat where [simp]: "TOOL_BYTES = 24"
definition TOOL_COUNT :: nat where [simp]: "TOOL_COUNT = 8"
definition EVENT_BYTES :: nat where [simp]: "EVENT_BYTES = 16"
definition EVENTS_OFFSET :: nat where [simp]: "EVENTS_OFFSET = HEADER_BYTES + TOOL_COUNT * TOOL_BYTES"
definition MAX_EVENTS :: nat where [simp]: "MAX_EVENTS = 16384"
definition MAX_WIRE_BYTES :: nat where [simp]: "MAX_WIRE_BYTES = EVENTS_OFFSET + MAX_EVENTS * EVENT_BYTES"
definition MAX_CANVAS_SIDE :: u16 where [simp]: "MAX_CANVAS_SIDE = 1024"

definition MAGIC :: bytes where
  "MAGIC = [0x49, 0x42, 0x52, 0x50, 0x4C, 0x59, 0x30, 0x31]"

datatype ReplayWireError =
    InputSize | Header | EventCount | Length | Metadata | Tool | Reserved | EventTag
  | Markers | Boolean | NonFiniteFloat | Allocation

type_synonym rgb = "u8 \<times> u8 \<times> u8"

datatype UntrustedReplayEventKind =
    Prelude
  | DrawStart i16 i16 u16
  | Draw i16 i16 u16
  | DrawCommit
  | Undo
  | Redo
  | SetColor rgb
  | DrawStartNoPressure i16 i16
  | DrawNoPressure i16 i16
  | SetTool u8
  | SetToolSize u8
  | SetToolAlpha f32
  | SetToolSizeDynamics bool
  | SetToolAlphaDynamics bool
  | SetToolTip u8
  | PreserveAlpha bool
  | SetToolFlowDynamics bool
  | SetToolFlow f32
  | AddLayer
  | DeleteLayers
  | MoveLayers u8
  | MergeLayers
  | ToggleLayerVisibility u8
  | SetActiveLayer u8
  | ToggleLayerSelection u8
  | SetSelectedLayersAlpha f32
  | HistoryDummy
  | Conclusion

record UntrustedReplayEvent =
  timestamp_ms :: u32
  kind :: UntrustedReplayEventKind

record UntrustedReplayTool =
  tool_id :: u8
  tool_size :: u8
  alpha :: f32
  tool_step :: f32
  size_dynamics :: bool
  alpha_dynamics :: bool
  use_preserve_alpha :: bool
  tip_id :: i8
  flow :: f32
  flow_dynamics :: bool

record UntrustedReplayMetadata =
  started_at_seconds :: u32
  ended_at_seconds :: u32
  width :: u16
  height :: u16
  background :: rgb
  color :: rgb
  meta_tool_id :: u8

record UntrustedReplay =
  candidate_profile :: u16
  metadata :: UntrustedReplayMetadata
  tools :: "UntrustedReplayTool list"
  events :: "UntrustedReplayEvent list"

section \<open>Field readers\<close>

definition u16_at :: "bytes \<Rightarrow> nat \<Rightarrow> u16" where
  "u16_at bs i = of_be16 (bs ! i) (bs ! (i + 1))"

definition i16_at :: "bytes \<Rightarrow> nat \<Rightarrow> i16" where
  "i16_at bs i = of_be16 (bs ! i) (bs ! (i + 1))"

definition u32_at :: "bytes \<Rightarrow> nat \<Rightarrow> u32" where
  "u32_at bs i = of_be32 (bs ! i) (bs ! (i + 1)) (bs ! (i + 2)) (bs ! (i + 3))"

definition finite_f32 :: "bytes \<Rightarrow> nat \<Rightarrow> ReplayWireError + f32" where
  "finite_f32 bs i =
     (let value = u32_at bs i in if f32_finite value then Inr value else Inl NonFiniteFloat)"

definition boolean :: "u8 \<Rightarrow> ReplayWireError + bool" where
  "boolean value =
     (if value = 0 then Inr False else if value = 1 then Inr True else Inl Boolean)"

definition require_zero :: "bytes \<Rightarrow> ReplayWireError + unit" where
  "require_zero bs = (if \<exists>b\<in>set bs. b \<noteq> 0 then Inl Reserved else Inr ())"

definition wire_len :: "nat \<Rightarrow> ReplayWireError + nat" where
  "wire_len count =
     (if \<not> (2 \<le> count \<and> count \<le> MAX_EVENTS) then Inl EventCount
      else case checked_mul64 count EVENT_BYTES of
             None \<Rightarrow> Inl Length
           | Some n \<Rightarrow>
               (case checked_add64 EVENTS_OFFSET n of
                  None \<Rightarrow> Inl Length
                | Some wire_total \<Rightarrow> if wire_total \<le> MAX_WIRE_BYTES then Inr wire_total else Inl Length))"


section \<open>The decoder\<close>

definition decode_kind :: "u8 \<Rightarrow> bytes \<Rightarrow> ReplayWireError + (UntrustedReplayEventKind \<times> nat)" where
  "decode_kind tag payload =
     (let i16 = i16_at payload; u16 = u16_at payload; b = payload ! 0 in
      (if tag = 0 then Inr (Prelude, 0)
       else if tag = 1 then Inr (DrawStart (i16 0) (i16 2) (u16 4), 6)
       else if tag = 2 then Inr (Draw (i16 0) (i16 2) (u16 4), 6)
       else if tag = 3 then Inr (DrawCommit, 0)
       else if tag = 4 then Inr (Undo, 0)
       else if tag = 5 then Inr (Redo, 0)
       else if tag = 6 then Inr (SetColor (payload ! 0, payload ! 1, payload ! 2), 3)
       else if tag = 7 then Inr (DrawStartNoPressure (i16 0) (i16 2), 4)
       else if tag = 8 then Inr (DrawNoPressure (i16 0) (i16 2), 4)
       else if tag = 10 then (if 1 \<le> b \<and> b \<le> 8 then Inr (SetTool b, 1) else Inl Tool)
       else if tag = 11 then Inr (SetToolSize b, 1)
       else if tag = 12 then bindE (finite_f32 payload 0) (\<lambda>v. Inr (SetToolAlpha v, 4))
       else if tag = 13 then bindE (boolean b) (\<lambda>v. Inr (SetToolSizeDynamics v, 1))
       else if tag = 14 then bindE (boolean b) (\<lambda>v. Inr (SetToolAlphaDynamics v, 1))
       else if tag = 15 then Inr (SetToolTip b, 1)
       else if tag = 16 then bindE (boolean b) (\<lambda>v. Inr (PreserveAlpha v, 1))
       else if tag = 17 then bindE (boolean b) (\<lambda>v. Inr (SetToolFlowDynamics v, 1))
       else if tag = 18 then bindE (finite_f32 payload 0) (\<lambda>v. Inr (SetToolFlow v, 4))
       else if tag = 20 then Inr (AddLayer, 0)
       else if tag = 21 then Inr (DeleteLayers, 0)
       else if tag = 22 then Inr (MoveLayers b, 1)
       else if tag = 23 then Inr (MergeLayers, 0)
       else if tag = 24 then Inr (ToggleLayerVisibility b, 1)
       else if tag = 25 then Inr (SetActiveLayer b, 1)
       else if tag = 26 then Inr (ToggleLayerSelection b, 1)
       else if tag = 27 then bindE (finite_f32 payload 0) (\<lambda>v. Inr (SetSelectedLayersAlpha v, 4))
       else if tag = 254 then Inr (HistoryDummy, 0)
       else if tag = 255 then Inr (Conclusion, 0)
       else Inl EventTag))"

definition decode_event :: "bytes \<Rightarrow> ReplayWireError + UntrustedReplayEvent" where
  "decode_event record =
     bindE (require_zero (slice_of 1 4 record)) (\<lambda>_.
     let payload = drop 8 record in
     bindE (decode_kind (record ! 0) payload) (\<lambda>(kind, used).
     bindE (require_zero (drop used payload)) (\<lambda>_.
     Inr \<lparr>timestamp_ms = u32_at record 4, kind = kind\<rparr>)))"

text \<open>One slot of the tool table; \<open>expected_id\<close> is the slot's number, from 1.\<close>

definition decode_tool :: "u8 \<Rightarrow> bytes \<Rightarrow> ReplayWireError + UntrustedReplayTool" where
  "decode_tool expected_id record =
     (if record ! 0 \<noteq> expected_id \<or> record ! 2 AND 0xF0 \<noteq> 0 then Inl Tool
      else bindE (require_zero (drop 16 record)) (\<lambda>_.
           bindE (finite_f32 record 4) (\<lambda>a.
           bindE (finite_f32 record 8) (\<lambda>s.
           bindE (finite_f32 record 12) (\<lambda>f.
           Inr \<lparr>tool_id = record ! 0, tool_size = record ! 1, alpha = a, tool_step = s,
                size_dynamics = (record ! 2 AND 1 \<noteq> 0),
                alpha_dynamics = (record ! 2 AND 2 \<noteq> 0),
                use_preserve_alpha = (record ! 2 AND 4 \<noteq> 0),
                tip_id = record ! 3, flow = f,
                flow_dynamics = (record ! 2 AND 8 \<noteq> 0)\<rparr>)))))"

fun decode_tools :: "u8 \<Rightarrow> bytes list \<Rightarrow> ReplayWireError + UntrustedReplayTool list" where
  "decode_tools expected_id [] = Inr []"
| "decode_tools expected_id (r # rs) =
     bindE (decode_tool expected_id r) (\<lambda>t.
     bindE (decode_tools (expected_id + 1) rs) (\<lambda>ts. Inr (t # ts)))"

fun decode_events ::
  "nat \<Rightarrow> nat \<Rightarrow> bytes list \<Rightarrow> ReplayWireError + UntrustedReplayEvent list" where
  "decode_events count index [] = Inr []"
| "decode_events count index (r # rs) =
     bindE (decode_event r) (\<lambda>event.
     if (index = 0 \<and> kind event \<noteq> Prelude) \<or> (index = count - 1 \<and> kind event \<noteq> Conclusion)
        \<or> (index \<noteq> 0 \<and> kind event = Prelude) \<or> (index \<noteq> count - 1 \<and> kind event = Conclusion)
     then Inl Markers
     else bindE (decode_events count (index + 1) rs) (\<lambda>es. Inr (event # es)))"

definition decode :: "(nat \<Rightarrow> bool) \<Rightarrow> bytes \<Rightarrow> ReplayWireError + UntrustedReplay" where
  "decode mem input =
     (if \<not> (EVENTS_OFFSET + 2 * EVENT_BYTES \<le> length input \<and> length input \<le> MAX_WIRE_BYTES)
      then Inl InputSize
      else if slice_of 0 8 input \<noteq> MAGIC \<or> u16_at input 8 \<noteq> WIRE_VERSION
        \<or> unat (u16_at input 10) \<noteq> HEADER_BYTES \<or> u16_at input 12 \<noteq> CANDIDATE_PROFILE
        \<or> u16_at input 14 \<noteq> 0 \<or> slice_of 44 48 input \<noteq> [0, 9, 4, 1]
      then Inl Header
      else let count = unat (u32_at input 20) in
        bindE (wire_len count) (\<lambda>expected.
        let declared = unat (u32_at input 16) in
        if declared \<noteq> expected \<or> length input \<noteq> expected then Inl Length
        else bindE (require_zero (slice_of 35 36 input)) (\<lambda>_.
        bindE (require_zero (slice_of 48 HEADER_BYTES input)) (\<lambda>_.
        let m = \<lparr>started_at_seconds = u32_at input 36, ended_at_seconds = u32_at input 40,
                 width = u16_at input 24, height = u16_at input 26,
                 background = (input ! 28, input ! 29, input ! 30),
                 color = (input ! 31, input ! 32, input ! 33),
                 meta_tool_id = input ! 34\<rparr> in
        if \<not> (1 \<le> width m \<and> width m \<le> MAX_CANVAS_SIDE)
           \<or> \<not> (1 \<le> height m \<and> height m \<le> MAX_CANVAS_SIDE)
           \<or> \<not> (1 \<le> meta_tool_id m \<and> meta_tool_id m \<le> 8)
        then Inl Metadata
        else bindE (decode_tools 1 (chunks_exact TOOL_BYTES (slice_of HEADER_BYTES EVENTS_OFFSET input))) (\<lambda>ts.
        if \<not> mem count then Inl Allocation
        else bindE (decode_events count 0 (chunks_exact EVENT_BYTES (drop EVENTS_OFFSET input))) (\<lambda>es.
        Inr \<lparr>candidate_profile = CANDIDATE_PROFILE, metadata = m, tools = ts, events = es\<rparr>))))))"

section \<open>The specification of the wire\<close>

fun kind_tag :: "UntrustedReplayEventKind \<Rightarrow> u8" where
  "kind_tag Prelude = 0"
| "kind_tag (DrawStart _ _ _) = 1"
| "kind_tag (Draw _ _ _) = 2"
| "kind_tag DrawCommit = 3"
| "kind_tag Undo = 4"
| "kind_tag Redo = 5"
| "kind_tag (SetColor _) = 6"
| "kind_tag (DrawStartNoPressure _ _) = 7"
| "kind_tag (DrawNoPressure _ _) = 8"
| "kind_tag (SetTool _) = 10"
| "kind_tag (SetToolSize _) = 11"
| "kind_tag (SetToolAlpha _) = 12"
| "kind_tag (SetToolSizeDynamics _) = 13"
| "kind_tag (SetToolAlphaDynamics _) = 14"
| "kind_tag (SetToolTip _) = 15"
| "kind_tag (PreserveAlpha _) = 16"
| "kind_tag (SetToolFlowDynamics _) = 17"
| "kind_tag (SetToolFlow _) = 18"
| "kind_tag AddLayer = 20"
| "kind_tag DeleteLayers = 21"
| "kind_tag (MoveLayers _) = 22"
| "kind_tag MergeLayers = 23"
| "kind_tag (ToggleLayerVisibility _) = 24"
| "kind_tag (SetActiveLayer _) = 25"
| "kind_tag (ToggleLayerSelection _) = 26"
| "kind_tag (SetSelectedLayersAlpha _) = 27"
| "kind_tag HistoryDummy = 254"
| "kind_tag Conclusion = 255"

definition of_bool8 :: "bool \<Rightarrow> u8" where
  "of_bool8 b = (if b then 1 else 0)"

fun kind_payload :: "UntrustedReplayEventKind \<Rightarrow> bytes" where
  "kind_payload (DrawStart x y p) = be16 x @ be16 y @ be16 p"
| "kind_payload (Draw x y p) = be16 x @ be16 y @ be16 p"
| "kind_payload (SetColor (r, g, b)) = [r, g, b]"
| "kind_payload (DrawStartNoPressure x y) = be16 x @ be16 y"
| "kind_payload (DrawNoPressure x y) = be16 x @ be16 y"
| "kind_payload (SetTool v) = [v]"
| "kind_payload (SetToolSize v) = [v]"
| "kind_payload (SetToolAlpha v) = be32 v"
| "kind_payload (SetToolSizeDynamics v) = [of_bool8 v]"
| "kind_payload (SetToolAlphaDynamics v) = [of_bool8 v]"
| "kind_payload (SetToolTip v) = [v]"
| "kind_payload (PreserveAlpha v) = [of_bool8 v]"
| "kind_payload (SetToolFlowDynamics v) = [of_bool8 v]"
| "kind_payload (SetToolFlow v) = be32 v"
| "kind_payload (MoveLayers v) = [v]"
| "kind_payload (ToggleLayerVisibility v) = [v]"
| "kind_payload (SetActiveLayer v) = [v]"
| "kind_payload (ToggleLayerSelection v) = [v]"
| "kind_payload (SetSelectedLayersAlpha v) = be32 v"
| "kind_payload _ = []"

fun kind_ok :: "UntrustedReplayEventKind \<Rightarrow> bool" where
  "kind_ok (SetTool v) = (1 \<le> v \<and> v \<le> 8)"
| "kind_ok (SetToolAlpha v) = f32_finite v"
| "kind_ok (SetToolFlow v) = f32_finite v"
| "kind_ok (SetSelectedLayersAlpha v) = f32_finite v"
| "kind_ok _ = True"

definition event_ok :: "UntrustedReplayEvent \<Rightarrow> bool" where
  "event_ok e = kind_ok (kind e)"

definition event_bytes :: "UntrustedReplayEvent \<Rightarrow> bytes" where
  "event_bytes e = kind_tag (kind e) # [0, 0, 0] @ be32 (timestamp_ms e) @ kind_payload (kind e)
     @ replicate (8 - length (kind_payload (kind e))) 0"

lemma length_kind_payload: "length (kind_payload k) \<le> 8"
  by (cases k rule: kind_payload.cases) auto

lemma length_event_bytes [simp]: "length (event_bytes e) = 16"
  using length_kind_payload [of "kind e"] by (simp add: event_bytes_def)

lemma decode_event_bytes: "event_ok e \<Longrightarrow> decode_event (event_bytes e) = Inr e"
  apply (cases e)
  subgoal for ts k
    apply (cases k rule: kind_payload.cases)
    apply (auto simp: event_ok_def event_bytes_def decode_event_def decode_kind_def be16_def be32_def
      require_zero_def slice_of_def i16_at_def u16_at_def u32_at_def finite_f32_def boolean_def of_bool8_def)
    done
  done

lemma list16: "length xs = 16 \<Longrightarrow> \<exists>a b c d e f g h i j k l m n p q. xs = [a,b,c,d,e,f,g,h,i,j,k,l,m,n,p,q]"
  by (auto simp: length_Suc_conv numeral_eq_Suc)

lemma decode_kind_sound:
  assumes "decode_kind tag [p0,p1,p2,p3,p4,p5,p6,p7] = Inr (k, used)"
  shows "kind_tag k = tag \<and> kind_ok k \<and> kind_payload k = take used [p0,p1,p2,p3,p4,p5,p6,p7]
    \<and> used = length (kind_payload k)"
  using assms
  unfolding decode_kind_def Let_def
  apply (simp only: split: if_split_asm)
  apply (auto simp: result_simps i16_at_def u16_at_def u32_at_def finite_f32_def boolean_def of_bool8_def be16_of_be16 be32_of_be32 Let_def split: if_split_asm)
  done

lemma require_zero_Inr [result_simps]: "require_zero bs = Inr u \<longleftrightarrow> (\<forall>b\<in>set bs. b = 0)"
  by (auto simp: require_zero_def)

lemma zeros_replicate: "(\<forall>b\<in>set bs. b = 0) \<Longrightarrow> bs = replicate (length bs) 0"
  by (rule replicate_length_same [symmetric])

lemma zero_tail: "\<forall>b\<in>set (drop n xs). b = 0 \<Longrightarrow> take n xs @ replicate (length xs - n) 0 = xs"
  using zeros_replicate [of "drop n xs"] append_take_drop_id [of n xs] by (simp add: replicate_length_same)

lemma decode_event_InrE:
  assumes "decode_event bs = Inr e"
  obtains k used where "\<forall>b\<in>set (slice_of 1 4 bs). b = 0"
    and "decode_kind (bs ! 0) (drop 8 bs) = Inr (k, used)"
    and "\<forall>b\<in>set (drop used (drop 8 bs)). b = 0"
    and "e = \<lparr>timestamp_ms = u32_at bs 4, kind = k\<rparr>"
  using assms unfolding decode_event_def Let_def
  by (simp only: bindE_eq_Inr split_paired_Ex prod.case sum.inject require_zero_Inr) blast

lemma decode_event_sound:
  assumes "length bs = 16" and "decode_event bs = Inr e"
  shows "event_ok e \<and> event_bytes e = bs"
proof -
  obtain a b c d t0 t1 t2 t3 p0 p1 p2 p3 p4 p5 p6 p7
    where bs: "bs = [a,b,c,d,t0,t1,t2,t3,p0,p1,p2,p3,p4,p5,p6,p7]"
    using list16 [OF assms(1)] by metis
  let ?p = "[p0,p1,p2,p3,p4,p5,p6,p7]"
  obtain k used where z: "\<forall>b\<in>set (slice_of 1 4 bs). b = 0"
    and k: "decode_kind (bs ! 0) (drop 8 bs) = Inr (k, used)"
    and u: "\<forall>b\<in>set (drop used (drop 8 bs)). b = 0"
    and e: "e = \<lparr>timestamp_ms = u32_at bs 4, kind = k\<rparr>"
    using assms(2) by (rule decode_event_InrE)
  have len: "length ?p = 8" by simp
  have p: "drop 8 bs = ?p" and a: "bs ! 0 = a" by (simp_all add: bs)
  have k': "decode_kind a ?p = Inr (k, used)" using k unfolding p a .
  have tail: "take used ?p @ replicate (8 - used) 0 = ?p"
    using zero_tail [OF u [unfolded p]] unfolding len .
  have tag: "kind_tag k = a" and ok: "kind_ok k" and pl: "kind_payload k = take used ?p"
    and us: "length (kind_payload k) = used"
    using decode_kind_sound [OF k'] by blast+
  have pad: "kind_payload k @ replicate (8 - length (kind_payload k)) 0 = ?p"
    unfolding us unfolding pl by (rule tail)
  have zs: "[b, c, d] = [0, 0, 0]"
    using z by (simp add: bs slice_of_def)
  have "event_bytes e = a # [0, 0, 0] @ be32 (of_be32 t0 t1 t2 t3) @ ?p"
    unfolding pad [symmetric] by (simp add: e event_bytes_def tag bs u32_at_def)
  also have "\<dots> = bs"
    using zs by (simp add: bs be32_of_be32)
  finally show ?thesis
    using ok by (simp add: event_ok_def e)
qed

definition flag_bits :: "bool \<Rightarrow> bool \<Rightarrow> bool \<Rightarrow> bool \<Rightarrow> u8" where
  "flag_bits s a p f = of_bool8 s OR push_bit 1 (of_bool8 a) OR push_bit 2 (of_bool8 p)
     OR push_bit 3 (of_bool8 f)"

definition tool_flags :: "UntrustedReplayTool \<Rightarrow> u8" where
  "tool_flags t =
     flag_bits (size_dynamics t) (alpha_dynamics t) (use_preserve_alpha t) (flow_dynamics t)"

lemma flag_bits_read [simp]:
  "flag_bits s a p f AND 0xF0 = 0"
  "flag_bits s a p f AND 1 = 0 \<longleftrightarrow> \<not> s"
  "flag_bits s a p f AND 2 = 0 \<longleftrightarrow> \<not> a"
  "flag_bits s a p f AND 4 = 0 \<longleftrightarrow> \<not> p"
  "flag_bits s a p f AND 8 = 0 \<longleftrightarrow> \<not> f"
  by (cases s; cases a; cases p; cases f; simp add: flag_bits_def of_bool8_def)+

definition tool_bytes :: "UntrustedReplayTool \<Rightarrow> bytes" where
  "tool_bytes t = [tool_id t, tool_size t, tool_flags t, tip_id t] @ be32 (alpha t)
     @ be32 (tool_step t) @ be32 (flow t) @ replicate 8 0"

definition tool_ok :: "u8 \<Rightarrow> UntrustedReplayTool \<Rightarrow> bool" where
  "tool_ok i t \<longleftrightarrow> tool_id t = i \<and> f32_finite (alpha t) \<and> f32_finite (tool_step t)
     \<and> f32_finite (flow t)"

lemma length_tool_bytes [simp]: "length (tool_bytes t) = 24"
  by (simp add: tool_bytes_def)

lemma decode_tool_bytes: "tool_ok i t \<Longrightarrow> decode_tool i (tool_bytes t) = Inr t"
  by (cases t) (auto simp: tool_ok_def decode_tool_def tool_bytes_def tool_flags_def
      be32_def require_zero_def finite_f32_def u32_at_def)

lemma list24: "length xs = 24 \<Longrightarrow> \<exists>a b c d e f g h i j k l m n p q ys.
    xs = [a,b,c,d,e,f,g,h,i,j,k,l,m,n,p,q] @ ys \<and> length ys = 8"
  by (auto simp: length_Suc_conv numeral_eq_Suc)

lemma flag_bits_of:
  fixes c :: u8
  assumes "c AND 0xF0 = 0"
  shows "flag_bits (c AND 1 \<noteq> 0) (c AND 2 \<noteq> 0) (c AND 4 \<noteq> 0) (c AND 8 \<noteq> 0) = c"
proof (rule bit_word_eqI)
  fix n
  assume "n < LENGTH(8)"
  then have n: "n = 0 \<or> n = 1 \<or> n = 2 \<or> n = 3 \<or> n = 4 \<or> n = 5 \<or> n = 6 \<or> n = 7"
    by auto
  have high: "\<not> bit c 4" "\<not> bit c 5" "\<not> bit c 6" "\<not> bit c 7"
    using assms [THEN arg_cong, of "\<lambda>w. bit w 4"] assms [THEN arg_cong, of "\<lambda>w. bit w 5"]
      assms [THEN arg_cong, of "\<lambda>w. bit w 6"] assms [THEN arg_cong, of "\<lambda>w. bit w 7"]
    by (simp_all add: bit_simps)
  have low: "c AND 1 \<noteq> 0 \<longleftrightarrow> bit c 0" "c AND 2 \<noteq> 0 \<longleftrightarrow> bit c 1"
    "c AND 4 \<noteq> 0 \<longleftrightarrow> bit c 2" "c AND 8 \<noteq> 0 \<longleftrightarrow> bit c 3"
    using bit_iff_and_push_bit_not_eq_0 [of c 0] bit_iff_and_push_bit_not_eq_0 [of c 1]
      bit_iff_and_push_bit_not_eq_0 [of c 2] bit_iff_and_push_bit_not_eq_0 [of c 3] by simp_all
  show "bit (flag_bits (c AND 1 \<noteq> 0) (c AND 2 \<noteq> 0) (c AND 4 \<noteq> 0) (c AND 8 \<noteq> 0)) n = bit c n"
    unfolding low using n high by (auto simp: flag_bits_def of_bool8_def bit_simps)
qed

lemma decode_tool_sound:
  assumes "length bs = 24" and "decode_tool i bs = Inr t"
  shows "tool_ok i t \<and> tool_bytes t = bs"
proof -
  obtain a b c d e f g h i' j k l m n p q ys
    where bs: "bs = [a,b,c,d,e,f,g,h,i',j,k,l,m,n,p,q] @ ys" and ys: "length ys = 8"
    using list24 [OF assms(1)] by metis
  have "ys = replicate 8 0" if "\<forall>y\<in>set ys. y = 0"
    using ys that by (intro replicate_eqI) simp_all
  then show ?thesis
    using assms(2) ys unfolding bs decode_tool_def
    by (auto simp: result_simps finite_f32_def u32_at_def Let_def tool_ok_def tool_bytes_def
        tool_flags_def flag_bits_of be32_of_be32
        split: if_split_asm)
qed

interpretation wire_event: record_codec 16 event_bytes decode_event event_ok
  by unfold_locales (auto simp: decode_event_bytes dest: decode_event_sound)

interpretation wire_tool: record_codec 24 tool_bytes "decode_tool i" "tool_ok i" for i
  by unfold_locales (auto simp: decode_tool_bytes dest: decode_tool_sound)

text \<open>The tool table: slot \<open>k\<close> holds tool \<open>k + 1\<close>.\<close>

fun tools_ok :: "u8 \<Rightarrow> UntrustedReplayTool list \<Rightarrow> bool" where
  "tools_ok i [] \<longleftrightarrow> True"
| "tools_ok i (t # ts) \<longleftrightarrow> tool_ok i t \<and> tools_ok (i + 1) ts"

lemma decode_tools_iff:
  "\<forall>c\<in>set cs. length c = 24 \<Longrightarrow>
     decode_tools i cs = Inr ts \<longleftrightarrow> tools_ok i ts \<and> map tool_bytes ts = cs"
proof (induction i cs arbitrary: ts rule: decode_tools.induct)
  case (1 i)
  then show ?case by (cases ts) auto
next
  case (2 i r rs)
  then have r: "length r = 24" by simp
  have "decode_tool i r = Inr t \<longleftrightarrow> tool_ok i t \<and> tool_bytes t = r" for t
    using wire_tool.dec_sound [OF _, of r i t] wire_tool.dec_enc [of i t] r by auto
  with 2 show ?case by (cases ts) (auto simp: result_simps)
qed

text \<open>Markers: the prelude opens the list of events, the conclusion closes it.\<close>

fun markers_from :: "nat \<Rightarrow> nat \<Rightarrow> UntrustedReplayEvent list \<Rightarrow> bool" where
  "markers_from count i [] \<longleftrightarrow> True"
| "markers_from count i (e # es) \<longleftrightarrow>
     (kind e = Prelude \<longleftrightarrow> i = 0) \<and> (kind e = Conclusion \<longleftrightarrow> i = count - 1)
     \<and> markers_from count (i + 1) es"

lemma markers_from_nth:
  "markers_from count i es \<longleftrightarrow>
     (\<forall>j<length es. (kind (es ! j) = Prelude \<longleftrightarrow> i + j = 0)
        \<and> (kind (es ! j) = Conclusion \<longleftrightarrow> i + j = count - 1))"
  by (induction es arbitrary: i) (auto simp: less_Suc_eq_0_disj)

lemma decode_events_iff:
  "\<forall>c\<in>set cs. length c = 16 \<Longrightarrow>
     decode_events count i cs = Inr es \<longleftrightarrow>
       list_all event_ok es \<and> markers_from count i es \<and> map event_bytes es = cs"
proof (induction count i cs arbitrary: es rule: decode_events.induct)
  case (1 count i)
  then show ?case by (cases es) auto
next
  case (2 count i r rs)
  then have r: "length r = 16" by simp
  have "decode_event r = Inr e \<longleftrightarrow> event_ok e \<and> event_bytes e = r" for e
    using wire_event.dec_sound [OF _, of r e] wire_event.dec_enc [of e] r by auto
  with 2 show ?case by (cases es) (auto simp: result_simps split: if_split_asm)
qed

definition rgb_bytes :: "rgb \<Rightarrow> bytes" where
  "rgb_bytes c = [fst c, fst (snd c), snd (snd c)]"

definition header_bytes :: "nat \<Rightarrow> UntrustedReplayMetadata \<Rightarrow> bytes" where
  "header_bytes count m =
     MAGIC @ be16 WIRE_VERSION @ be16 64 @ be16 CANDIDATE_PROFILE @ be16 0
     @ be32 (of_nat (256 + 16 * count)) @ be32 (of_nat count)
     @ be16 (width m) @ be16 (height m) @ rgb_bytes (background m) @ rgb_bytes (color m)
     @ [meta_tool_id m, 0] @ be32 (started_at_seconds m) @ be32 (ended_at_seconds m)
     @ [0, 9, 4, 1] @ replicate 16 0"

definition wire_bytes :: "UntrustedReplay \<Rightarrow> bytes" where
  "wire_bytes r = header_bytes (length (events r)) (metadata r)
     @ concat (map tool_bytes (tools r)) @ concat (map event_bytes (events r))"

definition metadata_ok :: "UntrustedReplayMetadata \<Rightarrow> bool" where
  "metadata_ok m \<longleftrightarrow> 1 \<le> width m \<and> width m \<le> 1024 \<and> 1 \<le> height m \<and> height m \<le> 1024
     \<and> 1 \<le> meta_tool_id m \<and> meta_tool_id m \<le> 8"

definition wire_ok :: "UntrustedReplay \<Rightarrow> bool" where
  "wire_ok r \<longleftrightarrow> candidate_profile r = 1 \<and> metadata_ok (metadata r)
     \<and> length (tools r) = 8 \<and> tools_ok 1 (tools r)
     \<and> 2 \<le> length (events r) \<and> length (events r) \<le> 16384
     \<and> list_all event_ok (events r) \<and> markers_from (length (events r)) 0 (events r)"

lemma length_header_bytes [simp]: "length (header_bytes n m) = 64"
  by (simp add: header_bytes_def MAGIC_def rgb_bytes_def)

lemma wire_len_Inr [result_simps]:
  "wire_len n = Inr k \<longleftrightarrow> 2 \<le> n \<and> n \<le> 16384 \<and> k = 256 + 16 * n"
  by (auto simp: wire_len_def checked_mul64_def checked_add64_def)

lemma slice_of_nth: "i \<le> j \<Longrightarrow> j \<le> length xs \<Longrightarrow> slice_of i j xs = map ((!) xs) [i..<j]"
  by (simp add: slice_of_def list_eq_iff_nth_eq)

lemma be16_u16_at: "be16 (u16_at h i) = [h ! i, h ! (i + 1)]"
  by (simp add: u16_at_def be16_of_be16)

lemma be32_u32_at: "be32 (u32_at h i) = [h ! i, h ! (i + 1), h ! (i + 2), h ! (i + 3)]"
  by (simp add: u32_at_def be32_of_be32)

lemma of_be16_0 [simp]: "of_be16 0 b = ucast b"
  by (simp add: of_be16_def)

lemma metadata_fields:
  fixes h :: bytes
  defines "m \<equiv> \<lparr>started_at_seconds = u32_at h 36, ended_at_seconds = u32_at h 40,
                 width = u16_at h 24, height = u16_at h 26,
                 background = (h ! 28, h ! 29, h ! 30),
                 color = (h ! 31, h ! 32, h ! 33), meta_tool_id = h ! 34\<rparr>"
  assumes "slice_of 0 8 h = MAGIC" and "u16_at h 8 = 1" and "u16_at h 10 = 64"
    and "u16_at h 12 = 1" and "u16_at h 14 = 0" and "slice_of 44 48 h = [0, 9, 4, 1]"
    and "u32_at h 16 = of_nat (256 + 16 * n)" and "u32_at h 20 = of_nat n"
    and "\<forall>b\<in>set (slice_of 35 36 h). b = 0" and "\<forall>b\<in>set (slice_of 48 64 h). b = 0"
    and "64 \<le> length h"
  shows "take 64 h = header_bytes n m"
proof -
  have sl: "slice_of a b h = map ((!) h) [a..<b]" if "a \<le> b" "b \<le> 64" for a b
    by (rule slice_of_nth [OF that(1)]) (use that(2) assms(12) in simp)
  have magic: "MAGIC = map ((!) h) [0..<8]" and ver: "[0, 9, 4, 1] = map ((!) h) [44..<48]"
    using sl [of 0 8] sl [of 44 48] assms(2,7) by simp_all
  have z: "map ((!) h) [35..<36] = [0]" "map ((!) h) [48..<64] = replicate 16 0"
    using sl [of 35 36] sl [of 48 64] assms(10,11) by (auto simp: upt_rec_numeral numeral_eq_Suc [of "Num.Bit0 num.One"] eval_nat_numeral)
  have w: "be16 WIRE_VERSION = [h ! 8, h ! 9]" "be16 64 = [h ! 10, h ! 11]"
    "be16 CANDIDATE_PROFILE = [h ! 12, h ! 13]" "be16 0 = [h ! 14, h ! 15]"
    "be32 (of_nat (256 + 16 * n)) = [h ! 16, h ! 17, h ! 18, h ! 19]"
    "be32 (of_nat n) = [h ! 20, h ! 21, h ! 22, h ! 23]"
    using be16_u16_at [of h 8] be16_u16_at [of h 10] be16_u16_at [of h 12] be16_u16_at [of h 14]
      be32_u32_at [of h 16] be32_u32_at [of h 20] assms(3-6,8,9) by simp_all
  have "take 64 h = map ((!) h) [0..<64]"
    using sl [of 0 64] by (simp add: slice_of_def)
  also have "[0..<64::nat] = [0..<8] @ [8,9] @ [10,11] @ [12,13] @ [14,15] @ [16,17,18,19]
     @ [20,21,22,23] @ [24,25] @ [26,27] @ [28,29,30] @ [31,32,33] @ [34] @ [35..<36]
     @ [36,37,38,39] @ [40,41,42,43] @ [44..<48] @ [48..<64]"
    by code_simp
  finally show ?thesis
    using z(1) unfolding header_bytes_def magic ver w z(2) [symmetric]
    by (simp add: m_def rgb_bytes_def be16_u16_at be32_u32_at)
qed

lemma header_fields:
  fixes m rest n
  defines "h \<equiv> header_bytes n m @ rest"
  shows "slice_of 0 8 h = MAGIC" and "u16_at h 8 = 1" and "u16_at h 10 = 64"
    and "u16_at h 12 = 1" and "u16_at h 14 = 0" and "slice_of 44 48 h = [0, 9, 4, 1]"
    and "u32_at h 16 = of_nat (256 + 16 * n)" and "u32_at h 20 = of_nat n"
    and "\<forall>b\<in>set (slice_of 35 36 h). b = 0" and "\<forall>b\<in>set (slice_of 48 64 h). b = 0"
    and "\<lparr>started_at_seconds = u32_at h 36, ended_at_seconds = u32_at h 40,
          width = u16_at h 24, height = u16_at h 26,
          background = (h ! 28, h ! 29, h ! 30),
          color = (h ! 31, h ! 32, h ! 33), meta_tool_id = h ! 34\<rparr> = m"
  unfolding h_def
  by (simp_all add: header_bytes_def MAGIC_def rgb_bytes_def be16_def be32_def slice_of_def u16_at_def u32_at_def)



lemma concat_tool_bytes_length [simp]: "length (concat (map tool_bytes ts)) = 24 * length ts"
  by (induction ts) simp_all

lemma concat_event_bytes_length [simp]: "length (concat (map event_bytes es)) = 16 * length es"
  by (induction es) simp_all

lemma chunks_tool_bytes [simp]: "chunks_exact 24 (concat (map tool_bytes ts)) = map tool_bytes ts"
  by (induction ts) (simp_all add: chunks_exact_step)

lemma chunks_event_bytes [simp]: "chunks_exact 16 (concat (map event_bytes es)) = map event_bytes es"
  by (induction es) (simp_all add: chunks_exact_step)

lemma length_wire_bytes: "length (tools r) = 8 \<Longrightarrow> length (wire_bytes r) = 256 + 16 * length (events r)"
  by (simp add: wire_bytes_def)

lemma unat_count: "n \<le> 16384 \<Longrightarrow> unat (of_nat n :: u32) = n"
  by (simp add: unat_of_nat take_bit_nat_eq_self_iff)

lemma unat_total: "n \<le> 16384 \<Longrightarrow> unat (of_nat (256 + 16 * n) :: u32) = 256 + 16 * n"
  by (simp only: unat_of_nat) (simp add: take_bit_nat_eq_self_iff)

lemma unat_eqD: "unat w = n \<Longrightarrow> w = of_nat n"
  by auto

lemma decode_complete:
  assumes "wire_ok r" and "mem (length (events r))"
  shows "decode mem (wire_bytes r) = Inr r"
proof -
  let ?n = "length (events r)" and ?b = "wire_bytes r"
  let ?rest = "concat (map tool_bytes (tools r)) @ concat (map event_bytes (events r))"
  have ok: "candidate_profile r = 1" "metadata_ok (metadata r)" "length (tools r) = 8"
    "tools_ok 1 (tools r)" "2 \<le> ?n" "?n \<le> 16384" "list_all event_ok (events r)"
    "markers_from ?n 0 (events r)"
    using assms(1) by (simp_all add: wire_ok_def)
  have len: "length ?b = 256 + 16 * ?n" by (rule length_wire_bytes) (rule ok)
  have b: "?b = header_bytes ?n (metadata r) @ ?rest" by (simp add: wire_bytes_def)
  note f = header_fields [of ?n "metadata r" ?rest, folded b]
  have ts: "slice_of 64 256 ?b = concat (map tool_bytes (tools r))"
    and es: "drop 256 ?b = concat (map event_bytes (events r))"
    by (simp_all add: b slice_of_def ok)
  have ts': "decode_tools 1 (map tool_bytes (tools r)) = Inr (tools r)"
    by (subst decode_tools_iff) (simp_all add: ok)
  have es': "decode_events ?n 0 (map event_bytes (events r)) = Inr (events r)"
    by (subst decode_events_iff) (simp_all add: ok)
  have "wire_len ?n = Inr (256 + 16 * ?n)" using ok by (simp add: wire_len_Inr)
  moreover have "require_zero (slice_of 35 36 ?b) = Inr ()"
    "require_zero (slice_of 48 64 ?b) = Inr ()"
    using f(9,10) by (simp_all add: require_zero_Inr)
  moreover have "unat (u32_at ?b 16) = 256 + 16 * ?n" "unat (u32_at ?b 20) = ?n"
    using ok(6) by (simp_all only: f(7,8) unat_count unat_total)
  ultimately show ?thesis
    using ok(2) assms(2)
    by (simp add: decode_def len f(1-6,11) ok ts es ts' es' metadata_ok_def Let_def)
qed

lemma decode_InrE:
  assumes "decode mem bs = Inr r"
  obtains n where "272 + 16 \<le> length bs" and "slice_of 0 8 bs = MAGIC" and "u16_at bs 8 = 1"
    and "unat (u16_at bs 10) = 64" and "u16_at bs 12 = 1" and "u16_at bs 14 = 0"
    and "slice_of 44 48 bs = [0, 9, 4, 1]" and "unat (u32_at bs 20) = n" and "2 \<le> n"
    and "n \<le> 16384" and "unat (u32_at bs 16) = 256 + 16 * n" and "length bs = 256 + 16 * n"
    and "\<forall>b\<in>set (slice_of 35 36 bs). b = 0" and "\<forall>b\<in>set (slice_of 48 64 bs). b = 0"
    and "metadata r = \<lparr>started_at_seconds = u32_at bs 36, ended_at_seconds = u32_at bs 40,
          width = u16_at bs 24, height = u16_at bs 26,
          background = (bs ! 28, bs ! 29, bs ! 30),
          color = (bs ! 31, bs ! 32, bs ! 33), meta_tool_id = bs ! 34\<rparr>"
    and "metadata_ok (metadata r)" and "candidate_profile r = 1" and "mem n"
    and "decode_tools 1 (chunks_exact 24 (slice_of 64 256 bs)) = Inr (tools r)"
    and "decode_events n 0 (chunks_exact 16 (drop 256 bs)) = Inr (events r)"
  using assms
  by (auto simp: decode_def Let_def result_simps metadata_ok_def split: if_split_asm)

lemma decode_sound:
  assumes "decode mem bs = Inr r"
  shows "wire_ok r \<and> wire_bytes r = bs \<and> mem (length (events r))"
proof -
  obtain n where h: "slice_of 0 8 bs = MAGIC" "u16_at bs 8 = 1"
      "unat (u16_at bs 10) = 64" "u16_at bs 12 = 1" "u16_at bs 14 = 0"
      "slice_of 44 48 bs = [0, 9, 4, 1]" "unat (u32_at bs 20) = n" "unat (u32_at bs 16) = 256 + 16 * n"
    and n: "2 \<le> n" "n \<le> 16384" and len: "length bs = 256 + 16 * n"
    and z: "\<forall>b\<in>set (slice_of 35 36 bs). b = 0" "\<forall>b\<in>set (slice_of 48 64 bs). b = 0"
    and m: "metadata r = \<lparr>started_at_seconds = u32_at bs 36, ended_at_seconds = u32_at bs 40,
          width = u16_at bs 24, height = u16_at bs 26,
          background = (bs ! 28, bs ! 29, bs ! 30),
          color = (bs ! 31, bs ! 32, bs ! 33), meta_tool_id = bs ! 34\<rparr>"
    and ok: "metadata_ok (metadata r)" "candidate_profile r = 1" "mem n"
    and t: "decode_tools 1 (chunks_exact 24 (slice_of 64 256 bs)) = Inr (tools r)"
    and e: "decode_events n 0 (chunks_exact 16 (drop 256 bs)) = Inr (events r)"
    using assms by (rule decode_InrE) blast
  have w: "u16_at bs 10 = 64" "u32_at bs 16 = of_nat (256 + 16 * n)" "u32_at bs 20 = of_nat n"
    using unat_eqD [OF h(3)] unat_eqD [OF h(7)] unat_eqD [OF h(8)] by simp_all
  have hd: "take 64 bs = header_bytes n (metadata r)"
    unfolding m using h(1,2) w(1) h(4-6) w(2,3) z len by (intro metadata_fields) simp_all
  have tl: "length (slice_of 64 256 bs) = 192" using len by (simp add: length_slice_of)
  have ts: "tools_ok 1 (tools r)" "map tool_bytes (tools r) = chunks_exact 24 (slice_of 64 256 bs)"
    using t decode_tools_iff [of "chunks_exact 24 (slice_of 64 256 bs)" 1 "tools r"]
      chunks_exact_lengths by blast+
  have es: "list_all event_ok (events r)" "markers_from n 0 (events r)"
    "map event_bytes (events r) = chunks_exact 16 (drop 256 bs)"
    using e decode_events_iff [of "chunks_exact 16 (drop 256 bs)" n 0 "events r"]
      chunks_exact_lengths by blast+
  have lt: "length (tools r) = 8"
    using arg_cong [OF ts(2), of length] tl by (simp add: length_chunks_exact)
  have le: "length (events r) = n"
    using arg_cong [OF es(3), of length] len by (simp add: length_chunks_exact)
  have "concat (map tool_bytes (tools r)) = slice_of 64 256 bs"
    using tl by (simp add: ts concat_chunks_exact)
  moreover have "concat (map event_bytes (events r)) = drop 256 bs"
    using len by (simp add: es concat_chunks_exact)
  moreover have "take 64 bs @ slice_of 64 256 bs @ drop 256 bs = bs"
    using append_take_drop_id [of 192 "drop 64 bs"] by (simp add: slice_of_def)
  ultimately have "wire_bytes r = bs" by (simp add: wire_bytes_def le hd)
  with ok ts es lt le n show ?thesis by (simp add: wire_ok_def)
qed

lemma decode_iff:
  "decode mem bs = Inr r \<longleftrightarrow> wire_ok r \<and> wire_bytes r = bs \<and> mem (length (events r))"
  using decode_sound decode_complete by blast

end
