(* ===== verification/GuestReplay.thy ===== *)
theory GuestReplay
  imports Foundations
begin

unbundle bit_operations_syntax

text \<open>
  \<open>apps/media-guest/src/replay.rs\<close> and \<open>replay_output.rs\<close>: the guest's structural decoder of
  a Tegaki replay upload and its encoder of the fixed-width wire. The types are the guest
  crate's own. Parameters stand for what the source does not define: \<open>inflate\<close> (the raw DEFLATE
  decompressor of flate2), \<open>mem\<close> (whether the allocator grants a request of so many elements)
  and \<open>event_size\<close> (the compiler's \<open>size_of::<Event>()\<close>).
\<close>

section \<open>Types\<close>

datatype ReplayError =
    InputSize | UnsupportedHeader | InflatedSize | Deflate | Truncated | TrailingData | Metadata
  | Tool | EventCount | EventTag | Markers | Boolean | NonFiniteFloat | Allocation

datatype ReplayOutputError =
    OutEventCount | OutSourceHeader | OutSourceLength | OutMetadata | OutTool | OutMarkers
  | OutNonFiniteFloat | OutAllocation

type_synonym rgb = "u8 \<times> u8 \<times> u8"

datatype EventKind =
    Prelude
  | DrawStart i16 i16 u16
  | Draw i16 i16 u16
  | DrawCommit
  | Undo
  | Redo
  | SetColor rgb
  | DrawStartNoPressure i16 i16
  | DrawNoPressure i16 i16
  | SetTool u8
  | SetToolSize u8
  | SetToolAlpha f32
  | SetToolSizeDynamics bool
  | SetToolAlphaDynamics bool
  | SetToolTip u8
  | PreserveAlpha bool
  | SetToolFlowDynamics bool
  | SetToolFlow f32
  | AddLayer
  | DeleteLayers
  | MoveLayers u8
  | MergeLayers
  | ToggleLayerVisibility u8
  | SetActiveLayer u8
  | ToggleLayerSelection u8
  | SetSelectedLayersAlpha f32
  | HistoryDummy
  | Conclusion

record Event =
  timestamp_ms :: u32
  kind :: EventKind

record Tool =
  tool_id :: u8
  tool_size :: u8
  alpha :: f32
  tool_step :: f32
  size_dynamics :: bool
  alpha_dynamics :: bool
  use_preserve_alpha :: bool
  tip_id :: i8
  flow :: f32
  flow_dynamics :: bool

record Metadata =
  started_at_seconds :: u32
  ended_at_seconds :: u32
  width :: u16
  height :: u16
  background :: rgb
  color :: rgb
  meta_tool_id :: u8

record Header =
  inflated_bytes :: u32
  tegaki_version :: rgb
  format_version :: u8

record ReplayCandidate =
  header :: Header
  metadata :: Metadata
  tools :: "Tool list"
  events :: "Event list"

definition MAX_INPUT_BYTES :: nat where [simp]: "MAX_INPUT_BYTES = 8 * 1024 * 1024"
definition MAX_INFLATED_BYTES :: nat where [simp]: "MAX_INFLATED_BYTES = 18 * 1024 * 1024"
definition MAX_EVENTS :: nat where [simp]: "MAX_EVENTS = 131072"
definition MAX_EVENT_BYTES :: nat where [simp]: "MAX_EVENT_BYTES = 4 * 1024 * 1024"
definition MAX_TOOLS :: nat where [simp]: "MAX_TOOLS = 8"
definition MAX_CANVAS_SIDE :: u16 where [simp]: "MAX_CANVAS_SIDE = 1024"
definition MAX_WIRE_EVENTS :: nat where [simp]: "MAX_WIRE_EVENTS = 16384"
definition MAX_WIRE_BYTES :: nat where [simp]: "MAX_WIRE_BYTES = 256 + 16 * MAX_WIRE_EVENTS"

section \<open>The reader\<close>

text \<open>
  A cursor over a byte slice. \<open>pos\<close> never passes the end, so \<open>pos + n\<close> overflows \<open>usize\<close>
  only for a request that is refused anyway (\<open>checked_add\<close>).
\<close>

record Reader =
  rbytes :: bytes
  pos :: nat

definition new_reader :: "bytes \<Rightarrow> Reader" where
  "new_reader bs = \<lparr>rbytes = bs, pos = 0\<rparr>"

definition require_len :: "nat \<Rightarrow> Reader \<Rightarrow> ReplayError + unit" where
  "require_len n r =
     (case checked_add64 (pos r) n of
        Some e \<Rightarrow> if e \<le> length (rbytes r) then Inr () else Inl Truncated
      | None \<Rightarrow> Inl Truncated)"

definition read_array :: "nat \<Rightarrow> Reader \<Rightarrow> ReplayError + (bytes \<times> Reader)" where
  "read_array n r =
     bindE (require_len n r) (\<lambda>_.
     Inr (slice_of (pos r) (pos r + n) (rbytes r), r\<lparr>pos := pos r + n\<rparr>))"

definition read_u8 :: "Reader \<Rightarrow> ReplayError + (u8 \<times> Reader)" where
  "read_u8 r = bindE (read_array 1 r) (\<lambda>(a, r). Inr (a ! 0, r))"

definition read_u16 :: "Reader \<Rightarrow> ReplayError + (u16 \<times> Reader)" where
  "read_u16 r = bindE (read_array 2 r) (\<lambda>(a, r). Inr (of_be16 (a ! 0) (a ! 1), r))"

definition read_i16 :: "Reader \<Rightarrow> ReplayError + (i16 \<times> Reader)" where
  "read_i16 r = bindE (read_array 2 r) (\<lambda>(a, r). Inr (of_be16 (a ! 0) (a ! 1), r))"

definition read_u32 :: "Reader \<Rightarrow> ReplayError + (u32 \<times> Reader)" where
  "read_u32 r =
     bindE (read_array 4 r) (\<lambda>(a, r). Inr (of_be32 (a ! 0) (a ! 1) (a ! 2) (a ! 3), r))"

definition read_rgb :: "Reader \<Rightarrow> ReplayError + (rgb \<times> Reader)" where
  "read_rgb r = bindE (read_array 3 r) (\<lambda>(a, r). Inr ((a ! 0, a ! 1, a ! 2), r))"

definition read_boolean :: "Reader \<Rightarrow> ReplayError + (bool \<times> Reader)" where
  "read_boolean r =
     bindE (read_u8 r) (\<lambda>(v, r).
     if v = 0 then Inr (False, r) else if v = 1 then Inr (True, r) else Inl Boolean)"

definition read_float :: "Reader \<Rightarrow> ReplayError + (f32 \<times> Reader)" where
  "read_float r =
     bindE (read_u32 r) (\<lambda>(v, r). if f32_finite v then Inr (v, r) else Inl NonFiniteFloat)"

section \<open>Decoding the inflated body\<close>

definition read_metadata :: "Reader \<Rightarrow> ReplayError + (Metadata \<times> Reader)" where
  "read_metadata r =
     bindE (read_u32 r) (\<lambda>(started, r).
     bindE (read_u32 r) (\<lambda>(ended, r).
     bindE (read_u16 r) (\<lambda>(w, r).
     bindE (read_u16 r) (\<lambda>(h, r).
     bindE (read_rgb r) (\<lambda>(bg, r).
     bindE (read_rgb r) (\<lambda>(c, r).
     bindE (read_u8 r) (\<lambda>(t, r).
     Inr (\<lparr>started_at_seconds = started, ended_at_seconds = ended, width = w, height = h,
           background = bg, color = c, meta_tool_id = t\<rparr>, r))))))))"

definition read_tool_rest :: "u8 \<Rightarrow> Reader \<Rightarrow> ReplayError + (Tool \<times> Reader)" where
  "read_tool_rest i r =
     bindE (read_u8 r) (\<lambda>(sz, r).
     bindE (read_float r) (\<lambda>(a, r).
     bindE (read_float r) (\<lambda>(s, r).
     bindE (read_boolean r) (\<lambda>(sd, r).
     bindE (read_boolean r) (\<lambda>(ad, r).
     bindE (read_boolean r) (\<lambda>(pa, r).
     bindE (read_u8 r) (\<lambda>(tip, r).
     bindE (read_float r) (\<lambda>(f, r).
     bindE (read_boolean r) (\<lambda>(fd, r).
     Inr (\<lparr>tool_id = i, tool_size = sz, alpha = a, tool_step = s, size_dynamics = sd,
           alpha_dynamics = ad, use_preserve_alpha = pa, tip_id = tip, flow = f,
           flow_dynamics = fd\<rparr>, r))))))))))"

text \<open>The loop over the tool records; \<open>seen\<close> is the source's table of IDs already read.\<close>

fun read_tools :: "nat \<Rightarrow> u8 list \<Rightarrow> Reader \<Rightarrow> ReplayError + (Tool list \<times> Reader)" where
  "read_tools 0 seen r = Inr ([], r)"
| "read_tools (Suc n) seen r =
     bindE (read_u8 r) (\<lambda>(i, r).
     if \<not> (1 \<le> i \<and> i \<le> 8) \<or> i \<in> set seen then Inl Tool
     else bindE (read_tool_rest i r) (\<lambda>(t, r).
          bindE (read_tools n (i # seen) r) (\<lambda>(ts, r). Inr (t # ts, r))))"

definition read_kind :: "u8 \<Rightarrow> Reader \<Rightarrow> ReplayError + (EventKind \<times> Reader)" where
  "read_kind tag r =
     (let stroke = (\<lambda>k. bindE (read_i16 r) (\<lambda>(x, r). bindE (read_i16 r) (\<lambda>(y, r).
                        bindE (read_u16 r) (\<lambda>(p, r). Inr (k x y p, r)))));
          point = (\<lambda>k. bindE (read_i16 r) (\<lambda>(x, r). bindE (read_i16 r) (\<lambda>(y, r).
                        Inr (k x y, r))));
          byte = (\<lambda>k. bindE (read_u8 r) (\<lambda>(v, r). Inr (k v, r)));
          flag = (\<lambda>k. bindE (read_boolean r) (\<lambda>(v, r). Inr (k v, r)));
          real = (\<lambda>k. bindE (read_float r) (\<lambda>(v, r). Inr (k v, r)))
      in if tag = 0 then Inr (Prelude, r)
         else if tag = 1 then stroke DrawStart
         else if tag = 2 then stroke Draw
         else if tag = 3 then Inr (DrawCommit, r)
         else if tag = 4 then Inr (Undo, r)
         else if tag = 5 then Inr (Redo, r)
         else if tag = 6 then bindE (read_rgb r) (\<lambda>(c, r). Inr (SetColor c, r))
         else if tag = 7 then point DrawStartNoPressure
         else if tag = 8 then point DrawNoPressure
         else if tag = 10 then
           bindE (read_u8 r) (\<lambda>(v, r).
             if \<not> (1 \<le> v \<and> v \<le> 8) then Inl Tool else Inr (SetTool v, r))
         else if tag = 11 then byte SetToolSize
         else if tag = 12 then real SetToolAlpha
         else if tag = 13 then flag SetToolSizeDynamics
         else if tag = 14 then flag SetToolAlphaDynamics
         else if tag = 15 then byte SetToolTip
         else if tag = 16 then flag PreserveAlpha
         else if tag = 17 then flag SetToolFlowDynamics
         else if tag = 18 then real SetToolFlow
         else if tag = 20 then Inr (AddLayer, r)
         else if tag = 21 then Inr (DeleteLayers, r)
         else if tag = 22 then byte MoveLayers
         else if tag = 23 then Inr (MergeLayers, r)
         else if tag = 24 then byte ToggleLayerVisibility
         else if tag = 25 then byte SetActiveLayer
         else if tag = 26 then byte ToggleLayerSelection
         else if tag = 27 then real SetSelectedLayersAlpha
         else if tag = 254 then Inr (HistoryDummy, r)
         else if tag = 255 then Inr (Conclusion, r)
         else Inl EventTag)"

fun read_events :: "nat \<Rightarrow> nat \<Rightarrow> nat \<Rightarrow> Reader \<Rightarrow> ReplayError + (Event list \<times> Reader)" where
  "read_events count index 0 r = Inr ([], r)"
| "read_events count index (Suc n) r =
     bindE (read_u8 r) (\<lambda>(tag, r).
     bindE (read_u32 r) (\<lambda>(ts, r).
     bindE (read_kind tag r) (\<lambda>(k, r).
     if (index = 0) \<noteq> (tag = 0) \<or> (index = count - 1) \<noteq> (tag = 255) then Inl Markers
     else bindE (read_events count (index + 1) n r) (\<lambda>(es, r).
          Inr (\<lparr>timestamp_ms = ts, kind = k\<rparr> # es, r)))))"

definition decode_body ::
  "(nat \<Rightarrow> bool) \<Rightarrow> nat \<Rightarrow> Header \<Rightarrow> bytes \<Rightarrow> ReplayError + ReplayCandidate" where
  "decode_body mem event_size hdr body =
     bindE (read_u16 (new_reader body)) (\<lambda>(n, r).
     if n \<noteq> 21 then Inl Metadata else
     bindE (read_metadata r) (\<lambda>(m, r).
     if \<not> (1 \<le> width m \<and> width m \<le> MAX_CANVAS_SIDE)
        \<or> \<not> (1 \<le> height m \<and> height m \<le> MAX_CANVAS_SIDE) then Inl Metadata else
     bindE (read_u8 r) (\<lambda>(tool_count, r).
     if unat tool_count \<noteq> MAX_TOOLS then Inl Tool else
     bindE (read_u8 r) (\<lambda>(record_size, r).
     if record_size \<noteq> 19 then Inl Tool else
     bindE (require_len (unat tool_count * 19) r) (\<lambda>_.
     if \<not> mem (unat tool_count) then Inl Allocation else
     bindE (read_tools (unat tool_count) [] r) (\<lambda>(ts, r).
     if \<not> (1 \<le> meta_tool_id m \<and> meta_tool_id m \<le> 8) then Inl Tool else
     bindE (read_u32 r) (\<lambda>(c, r).
     let count = unat c in
     if \<not> (2 \<le> count \<and> count \<le> MAX_EVENTS)
        \<or> (case checked_mul64 count event_size of None \<Rightarrow> True | Some n \<Rightarrow> \<not> n \<le> MAX_EVENT_BYTES)
     then Inl EventCount else
     bindE (require_len (count * 5) r) (\<lambda>_.
     if \<not> mem count then Inl Allocation else
     bindE (read_events count 0 count r) (\<lambda>(es, r).
     if pos r \<noteq> length body then Inl TrailingData else
     Inr \<lparr>header = hdr, metadata = m, tools = ts, events = es\<rparr>)))))))))"

text \<open>
  \<open>inflate compressed capacity\<close> is flate2's \<open>decompress\<close> into a buffer of \<open>capacity\<close> zero bytes
  with \<open>Finish\<close>: an error, or whether the stream ended, the bytes consumed and the output written.
\<close>

type_synonym inflater = "bytes \<Rightarrow> nat \<Rightarrow> (bool \<times> nat \<times> bytes) option"

definition parse_candidate ::
  "(nat \<Rightarrow> bool) \<Rightarrow> nat \<Rightarrow> inflater \<Rightarrow> bytes \<Rightarrow> ReplayError + ReplayCandidate" where
  "parse_candidate mem event_size inflate input =
     (if \<not> (13 \<le> length input \<and> length input \<le> MAX_INPUT_BYTES) then Inl InputSize else
      bindE (read_array 4 (new_reader input)) (\<lambda>(magic, r).
      if magic \<noteq> [0x54, 0x47, 0x4B, 1] then Inl UnsupportedHeader else
      bindE (read_u32 r) (\<lambda>(inflated, r).
      bindE (read_rgb r) (\<lambda>(version, r).
      bindE (read_u8 r) (\<lambda>(format, r).
      if version \<noteq> (0, 9, 4) \<or> format \<noteq> 1 then Inl UnsupportedHeader else
      let declared = unat inflated in
      if \<not> (1 \<le> declared \<and> declared \<le> MAX_INFLATED_BYTES) then Inl InflatedSize else
      if \<not> mem (declared + 1) then Inl Allocation else
      let compressed = drop (pos r) input in
      (case inflate compressed (declared + 1) of
         None \<Rightarrow> Inl Deflate
       | Some (stream_end, total_in, out) \<Rightarrow>
           if \<not> stream_end \<or> length out \<noteq> declared then Inl InflatedSize
           else if total_in \<noteq> length compressed then Inl TrailingData
           else decode_body mem event_size
                  \<lparr>inflated_bytes = inflated, tegaki_version = version, format_version = format\<rparr>
                  out))))))"

section \<open>Encoding the wire\<close>

definition finite :: "f32 \<Rightarrow> ReplayOutputError + unit" where
  "finite v = (if f32_finite v then Inr () else Inl OutNonFiniteFloat)"

text \<open>The tag, the payload as the source writes it, and the payload's size in the upload.\<close>

definition u8_from :: "bool \<Rightarrow> u8" where
  "u8_from b = (if b then 1 else 0)"

fun slot_parts :: "EventKind \<Rightarrow> ReplayOutputError + (u8 \<times> bytes)" where
  "slot_parts Prelude = Inr (0, [])"
| "slot_parts (DrawStart x y p) = Inr (1, be16 x @ be16 y @ be16 p)"
| "slot_parts (Draw x y p) = Inr (2, be16 x @ be16 y @ be16 p)"
| "slot_parts DrawCommit = Inr (3, [])"
| "slot_parts Undo = Inr (4, [])"
| "slot_parts Redo = Inr (5, [])"
| "slot_parts (SetColor (r, g, b)) = Inr (6, [r, g, b])"
| "slot_parts (DrawStartNoPressure x y) = Inr (7, be16 x @ be16 y)"
| "slot_parts (DrawNoPressure x y) = Inr (8, be16 x @ be16 y)"
| "slot_parts (SetTool v) = (if \<not> (1 \<le> v \<and> v \<le> 8) then Inl OutTool else Inr (10, [v]))"
| "slot_parts (SetToolSize v) = Inr (11, [v])"
| "slot_parts (SetToolTip v) = Inr (15, [v])"
| "slot_parts (MoveLayers v) = Inr (22, [v])"
| "slot_parts (ToggleLayerVisibility v) = Inr (24, [v])"
| "slot_parts (SetActiveLayer v) = Inr (25, [v])"
| "slot_parts (ToggleLayerSelection v) = Inr (26, [v])"
| "slot_parts (SetToolAlpha v) = bindE (finite v) (\<lambda>_. Inr (12, be32 v))"
| "slot_parts (SetToolFlow v) = bindE (finite v) (\<lambda>_. Inr (18, be32 v))"
| "slot_parts (SetSelectedLayersAlpha v) = bindE (finite v) (\<lambda>_. Inr (27, be32 v))"
| "slot_parts (SetToolSizeDynamics v) = Inr (13, [u8_from v])"
| "slot_parts (SetToolAlphaDynamics v) = Inr (14, [u8_from v])"
| "slot_parts (PreserveAlpha v) = Inr (16, [u8_from v])"
| "slot_parts (SetToolFlowDynamics v) = Inr (17, [u8_from v])"
| "slot_parts AddLayer = Inr (20, [])"
| "slot_parts DeleteLayers = Inr (21, [])"
| "slot_parts MergeLayers = Inr (23, [])"
| "slot_parts HistoryDummy = Inr (254, [])"
| "slot_parts Conclusion = Inr (255, [])"

definition event_slot :: "Event \<Rightarrow> ReplayOutputError + (bytes \<times> nat)" where
  "event_slot e =
     bindE (slot_parts (kind e)) (\<lambda>(tag, payload).
     Inr ([tag, 0, 0, 0] @ be32 (timestamp_ms e) @ payload @ replicate (8 - length payload) 0,
          length payload))"

text \<open>The slots sorted by tool ID; a second tool with the same ID is refused.\<close>

fun fill_slots :: "Tool option list \<Rightarrow> Tool list \<Rightarrow> ReplayOutputError + Tool option list" where
  "fill_slots slots [] = Inr slots"
| "fill_slots slots (t # ts) =
     (if \<not> (1 \<le> tool_id t \<and> tool_id t \<le> 8) then Inl OutTool
      else let i = unat (tool_id t - 1) in
        if slots ! i \<noteq> None then Inl OutTool
        else bindE (finite (alpha t)) (\<lambda>_. bindE (finite (tool_step t)) (\<lambda>_.
             bindE (finite (flow t)) (\<lambda>_. fill_slots (slots[i := Some t]) ts))))"

text \<open>The check of every event, and the length of the upload they would have come from (a \<open>u32\<close>).\<close>

fun source_length :: "nat \<Rightarrow> nat \<Rightarrow> nat \<Rightarrow> Event list \<Rightarrow> ReplayOutputError + nat" where
  "source_length count index len [] = Inr len"
| "source_length count index len (e # es) =
     bindE (event_slot e) (\<lambda>(slot, size).
     if (index = 0) \<noteq> (slot ! 0 = 0) \<or> (index = count - 1) \<noteq> (slot ! 0 = 255) then Inl OutMarkers
     else if len + (5 + size) < 2 ^ 32 then source_length count (index + 1) (len + (5 + size)) es
     else Inl OutSourceLength)"

definition tool_slot :: "Tool \<Rightarrow> bytes" where
  "tool_slot t =
     [tool_id t, tool_size t,
      u8_from (size_dynamics t) OR push_bit 1 (u8_from (alpha_dynamics t))
        OR push_bit 2 (u8_from (use_preserve_alpha t)) OR push_bit 3 (u8_from (flow_dynamics t)),
      tip_id t] @ be32 (alpha t) @ be32 (tool_step t) @ be32 (flow t) @ replicate 8 0"

definition wire_header :: "nat \<Rightarrow> nat \<Rightarrow> Metadata \<Rightarrow> bytes" where
  "wire_header wire_total count m =
     [0x49, 0x42, 0x52, 0x50, 0x4C, 0x59, 0x30, 0x31] @ be16 1 @ be16 64 @ be16 1 @ [0, 0]
     @ be32 (of_nat wire_total) @ be32 (of_nat count) @ be16 (width m) @ be16 (height m)
     @ (case background m of (r, g, b) \<Rightarrow> [r, g, b]) @ (case color m of (r, g, b) \<Rightarrow> [r, g, b])
     @ [meta_tool_id m, 0] @ be32 (started_at_seconds m) @ be32 (ended_at_seconds m)
     @ [0, 9, 4, 1] @ replicate 16 0"

definition encode_untrusted_candidate ::
  "(nat \<Rightarrow> bool) \<Rightarrow> ReplayCandidate \<Rightarrow> ReplayOutputError + bytes" where
  "encode_untrusted_candidate mem c =
     (let count = length (events c); m = metadata c in
      if \<not> (2 \<le> count \<and> count \<le> MAX_WIRE_EVENTS) then Inl OutEventCount else
      (case Option.bind (checked_mul64 count 16) (\<lambda>n. checked_add64 n 256) of
         None \<Rightarrow> Inl OutEventCount
       | Some wire_total \<Rightarrow>
      if \<not> wire_total \<le> MAX_WIRE_BYTES then Inl OutEventCount else
      if tegaki_version (header c) \<noteq> (0, 9, 4) \<or> format_version (header c) \<noteq> 1
      then Inl OutSourceHeader else
      if \<not> (1 \<le> width m \<and> width m \<le> 1024) \<or> \<not> (1 \<le> height m \<and> height m \<le> 1024)
      then Inl OutMetadata else
      if \<not> (1 \<le> meta_tool_id m \<and> meta_tool_id m \<le> 8) \<or> length (tools c) \<noteq> 8 then Inl OutTool else
      bindE (fill_slots (replicate 8 None) (tools c)) (\<lambda>slots.
      bindE (source_length count 0 (21 + 2 + 8 * 19 + 4) (events c)) (\<lambda>len.
      if unat (inflated_bytes (header c)) \<noteq> len then Inl OutSourceLength else
      if \<not> mem wire_total then Inl OutAllocation else
      bindE (mapE (\<lambda>s. case s of None \<Rightarrow> Inl OutTool | Some t \<Rightarrow> Inr (tool_slot t)) slots) (\<lambda>ts.
      bindE (mapE event_slot (events c)) (\<lambda>es.
      Inr (wire_header wire_total count m @ concat ts @ concat (map fst es))))))))"

section \<open>What a reader has consumed\<close>

text \<open>\<open>reads r w r'\<close>: going from \<open>r\<close> to \<open>r'\<close> consumes exactly the bytes \<open>w\<close>.\<close>

definition reads :: "Reader \<Rightarrow> bytes \<Rightarrow> Reader \<Rightarrow> bool" where
  "reads r w r' \<longleftrightarrow> r' = r\<lparr>pos := pos r + length w\<rparr> \<and> pos r + length w \<le> length (rbytes r)
     \<and> pos r + length w < 2 ^ 64 \<and> slice_of (pos r) (pos r + length w) (rbytes r) = w"

lemma slice_of_append:
  "slice_of i (i + length u + length v) xs = u @ v \<and> i + length u + length v \<le> length xs \<longleftrightarrow>
   slice_of i (i + length u) xs = u \<and> slice_of (i + length u) (i + length u + length v) xs = v
     \<and> i + length u + length v \<le> length xs"
proof -
  have "slice_of i (i + length u + length v) xs =
      slice_of i (i + length u) xs @ slice_of (i + length u) (i + length u + length v) xs"
    by (simp add: slice_of_def take_add add.commute)
  moreover have "length (slice_of i (i + length u) xs) = length u"
    if "i + length u + length v \<le> length xs"
    using that by (simp add: slice_of_def)
  ultimately show ?thesis by auto
qed

lemma reads_append: "reads r (u @ v) r'' \<longleftrightarrow> (\<exists>r'. reads r u r' \<and> reads r' v r'')"
proof -
  have "reads r (u @ v) r'' \<longleftrightarrow> reads r u (r\<lparr>pos := pos r + length u\<rparr>)
      \<and> reads (r\<lparr>pos := pos r + length u\<rparr>) v r''"
    using slice_of_append [of "pos r" u v "rbytes r"]
    by (auto simp: reads_def add.assoc)
  then show ?thesis by (auto simp: reads_def)
qed

lemma reads_Nil: "reads r [] r' \<longleftrightarrow> r' = r \<and> pos r \<le> length (rbytes r) \<and> pos r < 2 ^ 64"
  by (auto simp: reads_def slice_of_def)

lemma reads_Cons: "v \<noteq> [] \<Longrightarrow> reads r (x # v) r'' \<longleftrightarrow> (\<exists>r'. reads r [x] r' \<and> reads r' v r'')"
  using reads_append [of r "[x]" v r''] by simp

lemma reads_unique: "reads r w r' \<Longrightarrow> reads r w' r'' \<Longrightarrow> length w = length w' \<Longrightarrow> w = w' \<and> r' = r''"
  by (auto simp: reads_def)

lemma reads_pos: "reads r w r' \<Longrightarrow> pos r' = pos r + length w"
  by (simp add: reads_def)

lemma reads_all:
  "reads (new_reader bs) w r \<and> pos r = length bs \<longleftrightarrow>
     w = bs \<and> length bs < 2 ^ 64 \<and> r = \<lparr>rbytes = bs, pos = length bs\<rparr>"
  by (auto simp: reads_def new_reader_def slice_of_def)

text \<open>
  The interface of a field reader: it succeeds exactly when the bytes at the cursor are the
  field's encoding, and then moves past them.
\<close>

locale field_reader =
  fixes read :: "Reader \<Rightarrow> ReplayError + ('a \<times> Reader)"
    and enc :: "'a \<Rightarrow> bytes"
    and ok :: "'a \<Rightarrow> bool"
  assumes read_iff: "read r = Inr (a, r') \<longleftrightarrow> ok a \<and> reads r (enc a) r'"
begin

lemma then_iff:
  "bindE (read r) (\<lambda>(a, r'). f a r') = Inr y \<longleftrightarrow>
     (\<exists>a r'. ok a \<and> reads r (enc a) r' \<and> f a r' = Inr y)"
  by (auto simp: bindE_eq_Inr read_iff split: prod.splits)

lemma read_complete: "ok a \<Longrightarrow> reads r (enc a) r' \<Longrightarrow> read r = Inr (a, r')"
  by (simp add: read_iff)

lemma read_advances: "read r = Inr (a, r') \<Longrightarrow> pos r' = pos r + length (enc a)"
  by (simp add: read_iff reads_pos)

end

lemma require_len_Inr:
  "require_len n r = Inr u \<longleftrightarrow> pos r + n \<le> length (rbytes r) \<and> pos r + n < 2 ^ 64"
  by (auto simp: require_len_def checked_add64_def)

lemma read_array_iff: "read_array n r = Inr (a, r') \<longleftrightarrow> length a = n \<and> reads r a r'"
  by (auto simp: read_array_def bindE_eq_Inr require_len_Inr reads_def slice_of_def)

lemma array_then_iff:
  "bindE (read_array n r) (\<lambda>(a, r'). f a r') = Inr y \<longleftrightarrow>
     (\<exists>a r'. length a = n \<and> reads r a r' \<and> f a r' = Inr y)"
  by (auto simp: bindE_eq_Inr read_array_iff split: prod.splits)

interpretation rd_u8: field_reader read_u8 "\<lambda>v. [v]" "\<lambda>_. True"
  by unfold_locales (auto simp: read_u8_def array_then_iff length_Suc_conv)

lemma length2: "length xs = 2 \<longleftrightarrow> (\<exists>a b. xs = [a, b])"
  by (auto simp: length_Suc_conv numeral_eq_Suc)

lemma length3: "length xs = 3 \<longleftrightarrow> (\<exists>a b c. xs = [a, b, c])"
  by (auto simp: length_Suc_conv numeral_eq_Suc)

lemma length4: "length xs = 4 \<longleftrightarrow> (\<exists>a b c d. xs = [a, b, c, d])"
  by (auto simp: length_Suc_conv numeral_eq_Suc)

lemma array2_then_iff:
  "bindE (read_array 2 r) (\<lambda>(a, r'). f a r') = Inr z \<longleftrightarrow>
     (\<exists>x y r'. reads r [x, y] r' \<and> f [x, y] r' = Inr z)"
  unfolding array_then_iff length2 by blast

lemma array3_then_iff:
  "bindE (read_array 3 r) (\<lambda>(a, r'). f a r') = Inr z \<longleftrightarrow>
     (\<exists>x y u r'. reads r [x, y, u] r' \<and> f [x, y, u] r' = Inr z)"
  unfolding array_then_iff length3 by blast

lemma array4_then_iff:
  "bindE (read_array 4 r) (\<lambda>(a, r'). f a r') = Inr z \<longleftrightarrow>
     (\<exists>x y u v r'. reads r [x, y, u, v] r' \<and> f [x, y, u, v] r' = Inr z)"
  unfolding array_then_iff length4 by blast

interpretation rd_u16: field_reader read_u16 be16 "\<lambda>_. True"
proof
  fix r a r'
  show "read_u16 r = Inr (a, r') \<longleftrightarrow> True \<and> reads r (be16 a) r'"
    by (auto simp: read_u16_def array2_then_iff be16_of_be16)
      (metis be16_def be16_split)
qed

interpretation rd_i16: field_reader read_i16 be16 "\<lambda>_. True"
  using rd_u16.field_reader_axioms by (simp add: read_u16_def [abs_def] read_i16_def [abs_def])

interpretation rd_u32: field_reader read_u32 be32 "\<lambda>_. True"
proof
  fix r a r'
  show "read_u32 r = Inr (a, r') \<longleftrightarrow> True \<and> reads r (be32 a) r'"
    by (auto simp: read_u32_def array4_then_iff be32_of_be32)
      (metis be32_def be32_split)
qed

definition rgb_source :: "rgb \<Rightarrow> bytes" where
  "rgb_source c = [fst c, fst (snd c), snd (snd c)]"

interpretation rd_rgb: field_reader read_rgb rgb_source "\<lambda>_. True"
  by unfold_locales (auto simp: read_rgb_def array3_then_iff rgb_source_def)

interpretation rd_bool: field_reader read_boolean "\<lambda>b. [u8_from b]" "\<lambda>_. True"
proof
  fix r a r'
  have "read_boolean r = Inr (a, r') \<longleftrightarrow>
      (\<exists>v. reads r [v] r' \<and> (v = 0 \<and> \<not> a \<or> v = 1 \<and> a))"
    unfolding read_boolean_def rd_u8.then_iff 
    by (auto split: if_split_asm intro: exI [of _ "0::u8"])
  then show "read_boolean r = Inr (a, r') \<longleftrightarrow> True \<and> reads r [u8_from a] r'"
    by (cases a) (auto simp: u8_from_def)
qed

interpretation rd_float: field_reader read_float be32 f32_finite
  by unfold_locales (auto simp: read_float_def rd_u32.then_iff split: if_split_asm)

lemmas then_iffs = rd_u8.then_iff rd_u16.then_iff rd_i16.then_iff rd_u32.then_iff
  rd_rgb.then_iff rd_bool.then_iff rd_float.then_iff

section \<open>The specification of an upload body\<close>

fun source_tag :: "EventKind \<Rightarrow> u8" where
  "source_tag Prelude = 0"
| "source_tag (DrawStart _ _ _) = 1"
| "source_tag (Draw _ _ _) = 2"
| "source_tag DrawCommit = 3"
| "source_tag Undo = 4"
| "source_tag Redo = 5"
| "source_tag (SetColor _) = 6"
| "source_tag (DrawStartNoPressure _ _) = 7"
| "source_tag (DrawNoPressure _ _) = 8"
| "source_tag (SetTool _) = 10"
| "source_tag (SetToolSize _) = 11"
| "source_tag (SetToolAlpha _) = 12"
| "source_tag (SetToolSizeDynamics _) = 13"
| "source_tag (SetToolAlphaDynamics _) = 14"
| "source_tag (SetToolTip _) = 15"
| "source_tag (PreserveAlpha _) = 16"
| "source_tag (SetToolFlowDynamics _) = 17"
| "source_tag (SetToolFlow _) = 18"
| "source_tag AddLayer = 20"
| "source_tag DeleteLayers = 21"
| "source_tag (MoveLayers _) = 22"
| "source_tag MergeLayers = 23"
| "source_tag (ToggleLayerVisibility _) = 24"
| "source_tag (SetActiveLayer _) = 25"
| "source_tag (ToggleLayerSelection _) = 26"
| "source_tag (SetSelectedLayersAlpha _) = 27"
| "source_tag HistoryDummy = 254"
| "source_tag Conclusion = 255"

fun source_payload :: "EventKind \<Rightarrow> bytes" where
  "source_payload (DrawStart x y p) = be16 x @ be16 y @ be16 p"
| "source_payload (Draw x y p) = be16 x @ be16 y @ be16 p"
| "source_payload (SetColor (r, g, b)) = [r, g, b]"
| "source_payload (DrawStartNoPressure x y) = be16 x @ be16 y"
| "source_payload (DrawNoPressure x y) = be16 x @ be16 y"
| "source_payload (SetTool v) = [v]"
| "source_payload (SetToolSize v) = [v]"
| "source_payload (SetToolAlpha v) = be32 v"
| "source_payload (SetToolSizeDynamics v) = [u8_from v]"
| "source_payload (SetToolAlphaDynamics v) = [u8_from v]"
| "source_payload (SetToolTip v) = [v]"
| "source_payload (PreserveAlpha v) = [u8_from v]"
| "source_payload (SetToolFlowDynamics v) = [u8_from v]"
| "source_payload (SetToolFlow v) = be32 v"
| "source_payload (MoveLayers v) = [v]"
| "source_payload (ToggleLayerVisibility v) = [v]"
| "source_payload (SetActiveLayer v) = [v]"
| "source_payload (ToggleLayerSelection v) = [v]"
| "source_payload (SetSelectedLayersAlpha v) = be32 v"
| "source_payload _ = []"

fun source_kind_ok :: "EventKind \<Rightarrow> bool" where
  "source_kind_ok (SetTool v) = (1 \<le> v \<and> v \<le> 8)"
| "source_kind_ok (SetToolAlpha v) = f32_finite v"
| "source_kind_ok (SetToolFlow v) = f32_finite v"
| "source_kind_ok (SetSelectedLayersAlpha v) = f32_finite v"
| "source_kind_ok _ = True"


definition event_source :: "Event \<Rightarrow> bytes" where
  "event_source e = [source_tag (kind e)] @ be32 (timestamp_ms e) @ source_payload (kind e)"

definition tool_rest_source :: "Tool \<Rightarrow> bytes" where
  "tool_rest_source t = [tool_size t] @ be32 (alpha t) @ be32 (tool_step t)
     @ [u8_from (size_dynamics t)] @ [u8_from (alpha_dynamics t)] @ [u8_from (use_preserve_alpha t)]
     @ [tip_id t] @ be32 (flow t) @ [u8_from (flow_dynamics t)]"

definition tool_source :: "Tool \<Rightarrow> bytes" where
  "tool_source t = [tool_id t] @ tool_rest_source t"

definition tool_finite :: "Tool \<Rightarrow> bool" where
  "tool_finite t \<longleftrightarrow> f32_finite (alpha t) \<and> f32_finite (tool_step t) \<and> f32_finite (flow t)"

definition metadata_source :: "Metadata \<Rightarrow> bytes" where
  "metadata_source m = be32 (started_at_seconds m) @ be32 (ended_at_seconds m) @ be16 (width m)
     @ be16 (height m) @ rgb_source (background m) @ rgb_source (color m) @ [meta_tool_id m]"

definition in_range :: "Reader \<Rightarrow> bool" where
  "in_range r \<longleftrightarrow> pos r \<le> length (rbytes r) \<and> pos r < 2 ^ 64"

lemma reads_in_range: "reads r w r' \<Longrightarrow> in_range r'"
  by (auto simp: reads_def in_range_def)

lemma reads_empty [simp]: "in_range r \<Longrightarrow> reads r [] r' \<longleftrightarrow> r' = r"
  by (auto simp: in_range_def reads_Nil)

lemma read_metadata_iff:
  "read_metadata r = Inr (m, r') \<longleftrightarrow> reads r (metadata_source m) r'"
  unfolding read_metadata_def then_iffs metadata_source_def reads_append
  apply (cases m) apply (auto) apply blast+ done

lemma read_tool_rest_iff:
  "read_tool_rest i r = Inr (t, r') \<longleftrightarrow> tool_id t = i \<and> tool_finite t \<and> reads r (tool_rest_source t) r'"
  unfolding read_tool_rest_def then_iffs tool_rest_source_def tool_finite_def reads_append
  apply (cases t) apply (auto) apply blast+ done

lemma read_kind_sound:
  assumes "in_range r" and "read_kind tag r = Inr (k, r')"
  shows "source_tag k = tag \<and> source_kind_ok k \<and> reads r (source_payload k) r'"
  using assms unfolding read_kind_def Let_def
  apply (simp only: split: if_split_asm)
  apply (auto simp: then_iffs reads_append rgb_source_def split: if_split_asm)
  apply blast+
  done

lemma read_kind_complete:
  assumes "in_range r" and "source_kind_ok k" and "reads r (source_payload k) r'"
  shows "read_kind (source_tag k) r = Inr (k, r')"
  using assms
  by (cases k rule: source_payload.cases) (auto simp: read_kind_def then_iffs reads_append rgb_source_def)

interpretation rd_meta: field_reader read_metadata metadata_source "\<lambda>_. True"
  by unfold_locales (simp add: read_metadata_iff)

lemma tool_rest_then_iff:
  "bindE (read_tool_rest i r) (\<lambda>(t, r'). f t r') = Inr y \<longleftrightarrow>
     (\<exists>t r'. tool_id t = i \<and> tool_finite t \<and> reads r (tool_rest_source t) r' \<and> f t r' = Inr y)"
  by (auto simp: bindE_eq_Inr read_tool_rest_iff split: prod.splits)

lemma bindE_pair: "bindE m (case_prod f) = Inr y \<longleftrightarrow> (\<exists>a b. m = Inr (a, b) \<and> f a b = Inr y)"
  by (auto simp: bindE_eq_Inr split: prod.splits)

lemma reject_if: "(if b then Inl e else m) = Inr y \<longleftrightarrow> \<not> b \<and> m = Inr y"
  by simp

text \<open>What the tool loop accepts: finite floats and fresh IDs in 1..8.\<close>

fun tools_fresh :: "u8 list \<Rightarrow> Tool list \<Rightarrow> bool" where
  "tools_fresh seen [] \<longleftrightarrow> True"
| "tools_fresh seen (t # ts) \<longleftrightarrow> 1 \<le> tool_id t \<and> tool_id t \<le> 8 \<and> tool_id t \<notin> set seen
     \<and> tool_finite t \<and> tools_fresh (tool_id t # seen) ts"

lemma length_tool_source [simp]: "length (tool_source t) = 19"
  by (simp add: tool_source_def tool_rest_source_def)

lemma reads_trans: "reads r u r1 \<Longrightarrow> reads r1 v r2 \<Longrightarrow> reads r (u @ v) r2"
  by (auto simp: reads_append)

lemma read_tools_sound:
  "in_range r \<Longrightarrow> read_tools n seen r = Inr (ts, r') \<Longrightarrow>
     length ts = n \<and> tools_fresh seen ts \<and> reads r (concat (map tool_source ts)) r'"
proof (induction n arbitrary: seen r ts)
  case 0
  then show ?case by auto
next
  case (Suc n)
  then obtain i r1 t r2 us where i: "reads r [i] r1" "1 \<le> i" "i \<le> 8" "i \<notin> set seen"
    and t: "read_tool_rest i r1 = Inr (t, r2)" and us: "read_tools n (i # seen) r2 = Inr (us, r')"
    and ts: "ts = t # us"
    by (auto simp: bindE_pair reject_if rd_u8.read_iff)
  from t have t': "tool_id t = i" "tool_finite t" "reads r1 (tool_rest_source t) r2"
    by (simp_all add: read_tool_rest_iff)
  have "reads r (tool_source t) r2"
    using reads_trans [OF i(1) t'(3)] by (simp add: tool_source_def t')
  with Suc.IH [OF reads_in_range [OF t'(3)] us] show ?case
    using i t' by (auto simp: ts intro: reads_trans)
qed

lemma read_tools_complete:
  "in_range r \<Longrightarrow> tools_fresh seen ts \<Longrightarrow> reads r (concat (map tool_source ts)) r' \<Longrightarrow>
     read_tools (length ts) seen r = Inr (ts, r')"
proof (induction ts arbitrary: seen r)
  case Nil
  then show ?case by auto
next
  case (Cons t ts)
  then obtain r1 r2 where i: "reads r [tool_id t] r1" and t: "reads r1 (tool_rest_source t) r2"
    and ts: "reads r2 (concat (map tool_source ts)) r'"
    unfolding concat.simps list.map reads_append tool_source_def [of t] by blast
  have "read_tool_rest (tool_id t) r1 = Inr (t, r2)"
    using Cons.prems t by (simp add: read_tool_rest_iff)
  with Cons.IH [OF reads_in_range [OF t] _ ts] Cons.prems rd_u8.read_complete [OF TrueI i]
  show ?case by simp
qed

lemma read_tools_iff:
  "in_range r \<Longrightarrow> read_tools n seen r = Inr (ts, r') \<longleftrightarrow>
     length ts = n \<and> tools_fresh seen ts \<and> reads r (concat (map tool_source ts)) r'"
  using read_tools_sound read_tools_complete by blast

definition source_event_ok :: "Event \<Rightarrow> bool" where
  "source_event_ok e = source_kind_ok (kind e)"

fun source_markers :: "nat \<Rightarrow> nat \<Rightarrow> Event list \<Rightarrow> bool" where
  "source_markers count i [] \<longleftrightarrow> True"
| "source_markers count i (e # es) \<longleftrightarrow>
     (kind e = Prelude \<longleftrightarrow> i = 0) \<and> (kind e = Conclusion \<longleftrightarrow> i = count - 1)
     \<and> source_markers count (i + 1) es"

lemma source_tag_marker [simp]:
  "source_tag k = 0 \<longleftrightarrow> k = Prelude" "source_tag k = 255 \<longleftrightarrow> k = Conclusion"
  by (cases k; simp)+

lemma read_kind_iff:
  "in_range r \<Longrightarrow> read_kind tag r = Inr (k, r') \<longleftrightarrow>
     source_tag k = tag \<and> source_kind_ok k \<and> reads r (source_payload k) r'"
  using read_kind_sound read_kind_complete by blast

lemma read_events_sound:
  "in_range r \<Longrightarrow> read_events count i n r = Inr (es, r') \<Longrightarrow>
     length es = n \<and> list_all source_event_ok es \<and> source_markers count i es
       \<and> reads r (concat (map event_source es)) r'"
proof (induction n arbitrary: i r es)
  case 0
  then show ?case by auto
next
  case (Suc n)
  then obtain tag r1 ts r2 k r3 us where h: "reads r [tag] r1" "reads r1 (be32 ts) r2"
    and k: "read_kind tag r2 = Inr (k, r3)" and us: "read_events count (i + 1) n r3 = Inr (us, r')"
    and m: "(i = 0) = (tag = 0)" "(i = count - 1) = (tag = 255)"
    and es: "es = \<lparr>timestamp_ms = ts, kind = k\<rparr> # us"
    unfolding read_events.simps bindE_pair reject_if rd_u8.read_iff rd_u32.read_iff
      sum.inject prod.inject by (elim exE conjE) metis
  have k': "source_tag k = tag" "source_kind_ok k" "reads r2 (source_payload k) r3"
    using k read_kind_iff [OF reads_in_range [OF h(2)]] by auto
  have "reads r (event_source \<lparr>timestamp_ms = ts, kind = k\<rparr>) r3"
    using reads_trans [OF h(1) reads_trans [OF h(2) k'(3)]] by (simp add: event_source_def k')
  moreover have "k = Prelude \<longleftrightarrow> i = 0" "k = Conclusion \<longleftrightarrow> i = count - 1"
    using m source_tag_marker [of k] k'(1) by auto
  ultimately show ?case
    using Suc.IH [OF reads_in_range [OF k'(3)] us] k'
    by (auto simp: es source_event_ok_def intro: reads_trans)
qed

lemma read_events_complete:
  "in_range r \<Longrightarrow> list_all source_event_ok es \<Longrightarrow> source_markers count i es \<Longrightarrow>
     reads r (concat (map event_source es)) r' \<Longrightarrow>
     read_events count i (length es) r = Inr (es, r')"
proof (induction es arbitrary: i r)
  case Nil
  then show ?case by auto
next
  case (Cons e es)
  then obtain r1 r2 r3 where h: "reads r [source_tag (kind e)] r1" "reads r1 (be32 (timestamp_ms e)) r2"
    and k: "reads r2 (source_payload (kind e)) r3"
    and es: "reads r3 (concat (map event_source es)) r'"
    unfolding concat.simps list.map reads_append event_source_def [of e] by blast
  have "read_kind (source_tag (kind e)) r2 = Inr (kind e, r3)"
    using Cons.prems(2) k reads_in_range [OF h(2)] by (simp add: read_kind_iff source_event_ok_def)
  moreover have "(i = 0) = (source_tag (kind e) = 0)" "(i = count - 1) = (source_tag (kind e) = 255)"
    using Cons.prems(3) by auto
  ultimately show ?case
    using Cons.IH [OF reads_in_range [OF k] _ _ es] Cons.prems rd_u8.read_complete [OF TrueI h(1)]
      rd_u32.read_complete [OF TrueI h(2)] by simp
qed

lemma read_events_iff:
  "in_range r \<Longrightarrow> read_events count i n r = Inr (es, r') \<longleftrightarrow>
     length es = n \<and> list_all source_event_ok es \<and> source_markers count i es
       \<and> reads r (concat (map event_source es)) r'"
  using read_events_sound read_events_complete by blast

text \<open>The body a candidate comes from, and when a body is accepted.\<close>

definition body_source :: "ReplayCandidate \<Rightarrow> bytes" where
  "body_source c = be16 21 @ metadata_source (metadata c) @ [8] @ [19]
     @ concat (map tool_source (tools c)) @ be32 (of_nat (length (events c)))
     @ concat (map event_source (events c))"

definition candidate_ok :: "nat \<Rightarrow> ReplayCandidate \<Rightarrow> bool" where
  "candidate_ok event_size c \<longleftrightarrow>
     (let m = metadata c; n = length (events c) in
      1 \<le> width m \<and> width m \<le> 1024 \<and> 1 \<le> height m \<and> height m \<le> 1024
      \<and> 1 \<le> meta_tool_id m \<and> meta_tool_id m \<le> 8
      \<and> length (tools c) = 8 \<and> tools_fresh [] (tools c)
      \<and> 2 \<le> n \<and> n \<le> 131072 \<and> n * event_size \<le> 4194304
      \<and> list_all source_event_ok (events c) \<and> source_markers n 0 (events c))"

lemma concat_tool_source_length [simp]: "length (concat (map tool_source ts)) = 19 * length ts"
  by (induction ts) simp_all

lemma concat_event_source_length: "5 * length es \<le> length (concat (map event_source es))"
  by (induction es) (simp_all add: event_source_def)

lemma in_range_new: "in_range (new_reader bs)"
  by (simp add: in_range_def new_reader_def)

lemma require_len_bind:
  "bindE (require_len n r) (\<lambda>_. m) = Inr y \<longleftrightarrow>
     pos r + n \<le> length (rbytes r) \<and> pos r + n < 2 ^ 64 \<and> m = Inr y"
  by (auto simp: bindE_eq_Inr require_len_Inr)

lemma reads_pos_total:
  "reads r w r' \<Longrightarrow> n \<le> length w \<Longrightarrow> pos r + n \<le> length (rbytes r) \<and> pos r + n < 2 ^ 64"
  by (auto simp: reads_def)

lemma body_source_iff:
  "body_source c = body \<and> length body < 2 ^ 64 \<longleftrightarrow>
     (\<exists>r1 r2 r3 r4 r5 r6 r7. reads (new_reader body) (be16 21) r1
        \<and> reads r1 (metadata_source (metadata c)) r2 \<and> reads r2 [8] r3 \<and> reads r3 [19] r4
        \<and> reads r4 (concat (map tool_source (tools c))) r5
        \<and> reads r5 (be32 (of_nat (length (events c)))) r6
        \<and> reads r6 (concat (map event_source (events c))) r7 \<and> pos r7 = length body)"
proof -
  have "body_source c = body \<and> length body < 2 ^ 64 \<longleftrightarrow>
      (\<exists>r. reads (new_reader body) (body_source c) r \<and> pos r = length body)"
    unfolding reads_all by auto
  then show ?thesis
    unfolding body_source_def reads_append by blast
qed

lemma tool_count_8: "unat (v::u8) = MAX_TOOLS \<longleftrightarrow> v = 8" "unat (8::u8) = 8" "(8::nat) * 19 = 152"
  by (auto simp: word_unat_eq_iff)

lemma event_budget:
  "(case checked_mul64 n k of None \<Rightarrow> True | Some b \<Rightarrow> \<not> b \<le> MAX_EVENT_BYTES) \<longleftrightarrow> \<not> n * k \<le> 4194304"
  by (auto simp: checked_mul64_def)

lemma decode_body_steps:
  "decode_body mem event_size hdr body = Inr c \<longleftrightarrow>
     (\<exists>r1 m r2 r3 r4 ts r5 w r6 es r7. reads (new_reader body) (be16 21) r1
        \<and> reads r1 (metadata_source m) r2
        \<and> (1 \<le> width m \<and> width m \<le> 1024) \<and> (1 \<le> height m \<and> height m \<le> 1024)
        \<and> reads r2 [8] r3 \<and> reads r3 [19] r4
        \<and> pos r4 + 152 \<le> length (rbytes r4) \<and> pos r4 + 152 < 2 ^ 64 \<and> mem 8
        \<and> read_tools 8 [] r4 = Inr (ts, r5) \<and> 1 \<le> meta_tool_id m \<and> meta_tool_id m \<le> 8
        \<and> reads r5 (be32 w) r6 \<and> 2 \<le> unat w \<and> unat w \<le> 131072 \<and> unat w * event_size \<le> 4194304
        \<and> pos r6 + unat w * 5 \<le> length (rbytes r6) \<and> pos r6 + unat w * 5 < 2 ^ 64 \<and> mem (unat w)
        \<and> read_events (unat w) 0 (unat w) r6 = Inr (es, r7) \<and> pos r7 = length body
        \<and> c = \<lparr>header = hdr, metadata = m, tools = ts, events = es\<rparr>)"
  unfolding decode_body_def bindE_pair reject_if require_len_bind rd_u16.read_iff rd_meta.read_iff
    rd_u8.read_iff rd_u32.read_iff Let_def tool_count_8 event_budget de_Morgan_disj not_not
  apply (simp only: simp_thms ex_simps sum.inject prod.inject MAX_CANVAS_SIDE_def MAX_EVENTS_def tool_count_8 conj_assoc)
proof (rule iffI, goal_cases)
  case 1
  then show ?case
    apply (elim exE conjE)
    apply (hypsubst)
    apply (unfold tool_count_8)
    apply (intro exI conjI)
    apply (assumption | rule refl)+
    done
next
  case 2
  then show ?case
    apply (elim exE conjE)
    apply (hypsubst)
    apply (intro exI conjI)
    apply (assumption | rule refl | (simp only: tool_count_8))+
    done
qed

lemma decode_body_iff:
  "decode_body mem event_size hdr body = Inr c \<longleftrightarrow>
     header c = hdr \<and> candidate_ok event_size c \<and> (body_source c = body \<and> length body < 2 ^ 64)
       \<and> mem 8 \<and> mem (length (events c))"
  (is "?L \<longleftrightarrow> ?R")
proof
  assume ?L
  then obtain r1 m r2 r3 r4 ts r5 w r6 es r7 where
    h: "reads (new_reader body) (be16 21) r1" "reads r1 (metadata_source m) r2"
       "reads r2 [8] r3" "reads r3 [19] r4"
    and t: "read_tools 8 [] r4 = Inr (ts, r5)" and w: "reads r5 (be32 w) r6"
    and e: "read_events (unat w) 0 (unat w) r6 = Inr (es, r7)" and p: "pos r7 = length body"
    and m: "1 \<le> width m" "width m \<le> 1024" "1 \<le> height m" "height m \<le> 1024"
       "1 \<le> meta_tool_id m" "meta_tool_id m \<le> 8"
    and n: "2 \<le> unat w" "unat w \<le> 131072" "unat w * event_size \<le> 4194304"
    and a: "mem 8" "mem (unat w)"
    and c: "c = \<lparr>header = hdr, metadata = m, tools = ts, events = es\<rparr>"
    unfolding decode_body_steps by blast
  have t': "length ts = 8" "tools_fresh [] ts" "reads r4 (concat (map tool_source ts)) r5"
    using t read_tools_iff [OF reads_in_range [OF h(4)]] by auto
  have e': "length es = unat w" "list_all source_event_ok es" "source_markers (unat w) 0 es"
      "reads r6 (concat (map event_source es)) r7"
    using e read_events_iff [OF reads_in_range [OF w]] by auto
  have "w = of_nat (length es)"
    using e'(1) by simp
  then have "body_source c = body \<and> length body < 2 ^ 64"
    unfolding body_source_iff using h t'(3) w e'(4) p c by simp blast
  then show ?R
    using m n a t' e' c by (simp add: candidate_ok_def Let_def)
next
  assume R: ?R
  define w :: u32 where "w = of_nat (length (events c))"
  have w: "unat w = length (events c)"
    using R by (simp add: w_def candidate_ok_def Let_def unat_of_nat take_bit_eq_mod)
  from R obtain r1 r2 r3 r4 r5 r6 r7 where h: "reads (new_reader body) (be16 21) r1"
       "reads r1 (metadata_source (metadata c)) r2" "reads r2 [8] r3" "reads r3 [19] r4"
       "reads r4 (concat (map tool_source (tools c))) r5" "reads r5 (be32 w) r6"
       "reads r6 (concat (map event_source (events c))) r7" "pos r7 = length body"
    unfolding body_source_iff w_def by blast
  have l: "length (tools c) = 8"
    using R by (simp add: candidate_ok_def Let_def)
  have "read_tools 8 [] r4 = Inr (tools c, r5)"
    using R h l by (simp add: read_tools_iff [OF reads_in_range [OF h(4)]] candidate_ok_def Let_def
      del: read_tools.simps)
  moreover have "read_events (unat w) 0 (unat w) r6 = Inr (events c, r7)"
    using R h by (simp add: read_events_iff [OF reads_in_range [OF h(6)]] candidate_ok_def Let_def w
      del: read_events.simps)
  moreover have "pos r4 + 152 \<le> length (rbytes r4) \<and> pos r4 + 152 < 2 ^ 64"
    using reads_pos_total [OF h(5), of 152] l by simp
  moreover have "pos r6 + unat w * 5 \<le> length (rbytes r6) \<and> pos r6 + unat w * 5 < 2 ^ 64"
    using reads_pos_total [OF h(7)] concat_event_source_length [of "events c"] w by simp
  moreover have "c = \<lparr>header = hdr, metadata = metadata c, tools = tools c, events = events c\<rparr>"
    using R by simp
  moreover have "1 \<le> width (metadata c) \<and> width (metadata c) \<le> 1024"
      "1 \<le> height (metadata c) \<and> height (metadata c) \<le> 1024"
      "1 \<le> meta_tool_id (metadata c)" "meta_tool_id (metadata c) \<le> 8"
      "2 \<le> unat w" "unat w \<le> 131072" "unat w * event_size \<le> 4194304" "mem 8" "mem (unat w)"
    using R by (simp_all add: candidate_ok_def Let_def w)
  ultimately show ?L
    unfolding decode_body_steps using h by blast
qed

lemma reads_new: "reads (new_reader bs) w r \<longleftrightarrow>
    (\<exists>rest. bs = w @ rest) \<and> length w < 2 ^ 64 \<and> r = \<lparr>rbytes = bs, pos = length w\<rparr>"
proof -
  have "take (length w) bs = w \<and> length w \<le> length bs \<longleftrightarrow> (\<exists>rest. bs = w @ rest)"
    by (metis append_eq_conv_conj append_take_drop_id length_append le_add1)
  then show ?thesis by (auto simp: reads_def new_reader_def slice_of_def)
qed

lemma inflated_iff:
  "(case inflated of None \<Rightarrow> Inl Deflate
    | Some (stream_end, total_in, out) \<Rightarrow>
        if \<not> stream_end \<or> length out \<noteq> declared then Inl InflatedSize
        else if total_in \<noteq> len then Inl TrailingData else f out) = Inr y
   \<longleftrightarrow> (\<exists>out. inflated = Some (True, len, out) \<and> length out = declared \<and> f out = Inr y)"
  by (auto split: option.splits)

definition upload_header :: "u32 \<Rightarrow> bytes" where
  "upload_header n = [0x54, 0x47, 0x4B, 1] @ be32 n @ [0, 9, 4, 1]"

lemma length_upload_header [simp]: "length (upload_header n) = 12"
  by (simp add: upload_header_def)

lemma upload_header_reads:
  "(\<exists>r0 r1 r2. reads r [0x54, 0x47, 0x4B, 1] r0 \<and> reads r0 (be32 n) r1
      \<and> reads r1 (rgb_source (0, 9, 4)) r2 \<and> reads r2 [1] r') \<longleftrightarrow> reads r (upload_header n) r'"
proof -
  have h: "upload_header n = [0x54, 0x47, 0x4B, 1] @ be32 n @ rgb_source (0, 9, 4) @ [1]"
    by (simp add: upload_header_def rgb_source_def)
  show ?thesis unfolding h reads_append by blast
qed

lemma parse_candidate_steps:
  "parse_candidate mem event_size inflate input = Inr c \<longleftrightarrow>
     13 \<le> length input \<and> length input \<le> 8388608
     \<and> (\<exists>n r. reads (new_reader input) (upload_header n) r
        \<and> 1 \<le> unat n \<and> unat n \<le> 18874368 \<and> mem (unat n + 1)
        \<and> (\<exists>out. inflate (drop (pos r) input) (unat n + 1) = Some (True, length (drop (pos r) input), out)
           \<and> length out = unat n
           \<and> decode_body mem event_size
               \<lparr>inflated_bytes = n, tegaki_version = (0, 9, 4), format_version = 1\<rparr> out = Inr c))"
proof -
  have magic: "length [0x54, 0x47, 0x4B, 1::u8] = 4" by simp
  show ?thesis
    unfolding parse_candidate_def reject_if bindE_pair Let_def read_array_iff rd_u32.read_iff
      rd_rgb.read_iff rd_u8.read_iff inflated_iff upload_header_reads [symmetric] MAX_INPUT_BYTES_def
      MAX_INFLATED_BYTES_def
    using magic by (simp add: ex_simps del: ex_simps) metis
qed

lemma parse_candidate_iff:
  "parse_candidate mem event_size inflate input = Inr c \<longleftrightarrow>
     (\<exists>rest. input = upload_header (inflated_bytes (header c)) @ rest
        \<and> 1 \<le> length rest \<and> length input \<le> 8388608
        \<and> inflate rest (length (body_source c) + 1) = Some (True, length rest, body_source c))
     \<and> tegaki_version (header c) = (0, 9, 4) \<and> format_version (header c) = 1
     \<and> unat (inflated_bytes (header c)) = length (body_source c)
     \<and> length (body_source c) \<le> 18874368 \<and> candidate_ok event_size c
     \<and> mem (length (body_source c) + 1) \<and> mem 8 \<and> mem (length (events c))"
  (is "?L \<longleftrightarrow> ?R")
proof
  assume ?L
  then obtain n r out where len: "13 \<le> length input" "length input \<le> 8388608"
    and r: "reads (new_reader input) (upload_header n) r"
    and n: "1 \<le> unat n" "unat n \<le> 18874368" "mem (unat n + 1)"
    and out: "inflate (drop (pos r) input) (unat n + 1) = Some (True, length (drop (pos r) input), out)"
      "length out = unat n"
    and d: "decode_body mem event_size
       \<lparr>inflated_bytes = n, tegaki_version = (0, 9, 4), format_version = 1\<rparr> out = Inr c"
    unfolding parse_candidate_steps by blast
  obtain rest where rest: "input = upload_header n @ rest" "pos r = 12"
    using r by (auto simp: reads_new)
  from d have c: "header c = \<lparr>inflated_bytes = n, tegaki_version = (0, 9, 4), format_version = 1\<rparr>"
    "candidate_ok event_size c" "body_source c = out" "mem 8" "mem (length (events c))"
    unfolding decode_body_iff by blast+
  show ?R
    using len n out rest c by (intro conjI exI [of _ rest]) simp_all
next
  assume R: ?R
  then obtain rest where rest: "input = upload_header (inflated_bytes (header c)) @ rest"
      "1 \<le> length rest" "length input \<le> 8388608"
      "inflate rest (length (body_source c) + 1) = Some (True, length rest, body_source c)"
    by blast
  let ?r = "\<lparr>rbytes = input, pos = 12\<rparr>"
  have "reads (new_reader input) (upload_header (inflated_bytes (header c))) ?r"
    using rest by (auto simp: reads_new)
  moreover have "header c
      = \<lparr>inflated_bytes = inflated_bytes (header c), tegaki_version = (0, 9, 4), format_version = 1\<rparr>"
    using R by simp
  moreover have "1 \<le> length (body_source c)"
    by (simp add: body_source_def)
  ultimately show ?L
    unfolding parse_candidate_steps decode_body_iff using R rest
    by (intro conjI exI [of _ "inflated_bytes (header c)"] exI [of _ ?r] exI [of _ "body_source c"])
      simp_all
qed

end
