(* ===== verification/ReplayTransport.thy ===== *)
theory ReplayTransport
  imports ReplayWire GuestReplay
begin

unbundle bit_operations_syntax

text \<open>
  From the guest to the host: how a guest candidate corresponds to the host's replay, and the
  agreement of the guest's encoder (\<open>apps/media-guest/src/replay_output.rs\<close>) with the host's
  decoder (\<open>crates/media/src/replay_wire.rs\<close>). The maps below are specification: they pair the
  two crates' types constructor by constructor.
\<close>

section \<open>Correspondence of the two crates' types\<close>

fun host_kind :: "EventKind \<Rightarrow> UntrustedReplayEventKind" where
  "host_kind Prelude = ReplayWire.Prelude"
| "host_kind (DrawStart x y p) = ReplayWire.DrawStart x y p"
| "host_kind (Draw x y p) = ReplayWire.Draw x y p"
| "host_kind DrawCommit = ReplayWire.DrawCommit"
| "host_kind Undo = ReplayWire.Undo"
| "host_kind Redo = ReplayWire.Redo"
| "host_kind (SetColor c) = ReplayWire.SetColor c"
| "host_kind (DrawStartNoPressure x y) = ReplayWire.DrawStartNoPressure x y"
| "host_kind (DrawNoPressure x y) = ReplayWire.DrawNoPressure x y"
| "host_kind (SetTool v) = ReplayWire.SetTool v"
| "host_kind (SetToolSize v) = ReplayWire.SetToolSize v"
| "host_kind (SetToolAlpha v) = ReplayWire.SetToolAlpha v"
| "host_kind (SetToolSizeDynamics v) = ReplayWire.SetToolSizeDynamics v"
| "host_kind (SetToolAlphaDynamics v) = ReplayWire.SetToolAlphaDynamics v"
| "host_kind (SetToolTip v) = ReplayWire.SetToolTip v"
| "host_kind (PreserveAlpha v) = ReplayWire.PreserveAlpha v"
| "host_kind (SetToolFlowDynamics v) = ReplayWire.SetToolFlowDynamics v"
| "host_kind (SetToolFlow v) = ReplayWire.SetToolFlow v"
| "host_kind AddLayer = ReplayWire.AddLayer"
| "host_kind DeleteLayers = ReplayWire.DeleteLayers"
| "host_kind (MoveLayers v) = ReplayWire.MoveLayers v"
| "host_kind MergeLayers = ReplayWire.MergeLayers"
| "host_kind (ToggleLayerVisibility v) = ReplayWire.ToggleLayerVisibility v"
| "host_kind (SetActiveLayer v) = ReplayWire.SetActiveLayer v"
| "host_kind (ToggleLayerSelection v) = ReplayWire.ToggleLayerSelection v"
| "host_kind (SetSelectedLayersAlpha v) = ReplayWire.SetSelectedLayersAlpha v"
| "host_kind HistoryDummy = ReplayWire.HistoryDummy"
| "host_kind Conclusion = ReplayWire.Conclusion"

definition host_event :: "Event \<Rightarrow> UntrustedReplayEvent" where
  "host_event e = \<lparr>UntrustedReplayEvent.timestamp_ms = timestamp_ms e, UntrustedReplayEvent.kind = host_kind (kind e)\<rparr>"

definition host_tool :: "Tool \<Rightarrow> UntrustedReplayTool" where
  "host_tool t = \<lparr>UntrustedReplayTool.tool_id = tool_id t, UntrustedReplayTool.tool_size = tool_size t,
     UntrustedReplayTool.alpha = alpha t, UntrustedReplayTool.tool_step = tool_step t,
     UntrustedReplayTool.size_dynamics = size_dynamics t, UntrustedReplayTool.alpha_dynamics = alpha_dynamics t,
     UntrustedReplayTool.use_preserve_alpha = use_preserve_alpha t, UntrustedReplayTool.tip_id = tip_id t,
     UntrustedReplayTool.flow = flow t, UntrustedReplayTool.flow_dynamics = flow_dynamics t\<rparr>"

definition host_meta :: "Metadata \<Rightarrow> UntrustedReplayMetadata" where
  "host_meta m = \<lparr>UntrustedReplayMetadata.started_at_seconds = started_at_seconds m,
     UntrustedReplayMetadata.ended_at_seconds = ended_at_seconds m, UntrustedReplayMetadata.width = width m,
     UntrustedReplayMetadata.height = height m, UntrustedReplayMetadata.background = background m,
     UntrustedReplayMetadata.color = color m, UntrustedReplayMetadata.meta_tool_id = meta_tool_id m\<rparr>"

text \<open>The host sees the tools in the order of their IDs.\<close>

definition host_replay :: "ReplayCandidate \<Rightarrow> UntrustedReplay" where
  "host_replay c = \<lparr>candidate_profile = 1, UntrustedReplay.metadata = host_meta (metadata c),
     UntrustedReplay.tools = map host_tool (sort_key tool_id (tools c)),
     UntrustedReplay.events = map host_event (events c)\<rparr>"

section \<open>Events\<close>

lemma host_kind_tag: "kind_tag (host_kind k) = source_tag k"
  by (cases k) simp_all

lemma host_kind_payload: "kind_payload (host_kind k) = source_payload k"
  by (cases k rule: source_payload.cases) (simp_all add: of_bool8_def u8_from_def)

lemma host_kind_ok: "kind_ok (host_kind k) \<longleftrightarrow> source_kind_ok k"
  by (cases k) simp_all

lemma host_kind_markers [simp]:
  "host_kind k = ReplayWire.Prelude \<longleftrightarrow> k = Prelude"
  "host_kind k = ReplayWire.Conclusion \<longleftrightarrow> k = Conclusion"
  by (cases k; simp)+

lemma length_source_payload: "length (source_payload k) \<le> 8"
  by (cases k rule: source_payload.cases) auto

lemma slot_parts_iff:
  "slot_parts k = Inr q \<longleftrightarrow> source_kind_ok k \<and> q = (source_tag k, source_payload k)"
  by (cases k rule: source_payload.cases) (auto simp: finite_def)

lemma event_slot_iff:
  "event_slot e = Inr q \<longleftrightarrow>
     source_event_ok e \<and> q = (event_bytes (host_event e), length (source_payload (kind e)))"
  by (auto simp: event_slot_def bindE_pair slot_parts_iff source_event_ok_def event_bytes_def
      host_event_def host_kind_tag host_kind_payload)

lemma event_slots_iff:
  "mapE event_slot es = Inr qs \<longleftrightarrow> list_all source_event_ok es
     \<and> qs = map (\<lambda>e. (event_bytes (host_event e), length (source_payload (kind e)))) es"
  by (induction es arbitrary: qs) (auto simp: bindE_eq_Inr event_slot_iff)

lemma host_event_ok: "event_ok (host_event e) \<longleftrightarrow> source_event_ok e"
  by (simp add: event_ok_def host_event_def host_kind_ok source_event_ok_def)

lemma host_events_ok: "list_all event_ok (map host_event es) \<longleftrightarrow> list_all source_event_ok es"
  by (induction es) (simp_all add: host_event_ok)

lemma host_markers: "markers_from count i (map host_event es) \<longleftrightarrow> source_markers count i es"
  by (induction es arbitrary: i) (auto simp: host_event_def)

lemma event_bytes_tag: "event_bytes (host_event e) ! 0 = source_tag (kind e)"
  by (simp add: event_bytes_def host_event_def host_kind_tag)

lemma length_event_source: "length (event_source e) = 5 + length (source_payload (kind e))"
  by (simp add: event_source_def)

lemma source_length_iff:
  "len < 2 ^ 32 \<Longrightarrow> source_length count i len es = Inr n \<longleftrightarrow>
     list_all source_event_ok es \<and> source_markers count i es
       \<and> n = len + length (concat (map event_source es)) \<and> n < 2 ^ 32"
proof (induction es arbitrary: i len)
  case Nil
  then show ?case by auto
next
  case (Cons e es)
  let ?s = "5 + length (source_payload (kind e))"
  show ?case
  proof (cases "len + ?s < 2 ^ 32")
    case True
    from Cons.IH [OF this] show ?thesis
      by (auto simp: bindE_pair event_slot_iff reject_if event_bytes_tag length_event_source)
  next
    case False
    then show ?thesis
      by (auto simp: bindE_pair event_slot_iff reject_if event_bytes_tag length_event_source)
  qed
qed


section \<open>Tools\<close>

lemma host_tool_bytes: "tool_bytes (host_tool t) = tool_slot t"
  by (simp add: tool_bytes_def tool_slot_def host_tool_def tool_flags_def flag_bits_def
      of_bool8_def u8_from_def)

definition place :: "Tool list \<Rightarrow> Tool option list \<Rightarrow> Tool option list" where
  "place ts slots = fold (\<lambda>t s. s[unat (tool_id t - 1) := Some t]) ts slots"

definition slot_id :: "Tool \<Rightarrow> bool" where
  "slot_id t \<longleftrightarrow> 1 \<le> tool_id t \<and> tool_id t \<le> 8"

lemma slot_id_nat: "slot_id t \<longleftrightarrow> 1 \<le> unat (tool_id t) \<and> unat (tool_id t) \<le> 8"
  by (simp add: slot_id_def word_le_nat_alt)

lemma slot_index: "slot_id t \<Longrightarrow> unat (tool_id t - 1) = unat (tool_id t) - 1"
  by (simp add: slot_id_def unat_sub)

lemma same_slot:
  assumes "slot_id t" and "slot_id u"
  shows "unat (tool_id u) - 1 = unat (tool_id t) - 1 \<longleftrightarrow> tool_id u = tool_id t"
proof -
  have "unat (tool_id u) - 1 = unat (tool_id t) - 1 \<longleftrightarrow> unat (tool_id u) = unat (tool_id t)"
    using assms by (auto simp: slot_id_nat)
  then show ?thesis by (simp add: word_unat_eq_iff)
qed

lemma slot_bound: "slot_id t \<Longrightarrow> unat (tool_id t) - 1 < 8"
  by (auto simp: slot_id_nat)

lemma fill_slots_Cons:
  "fill_slots slots (t # ts) = Inr out \<longleftrightarrow>
     slot_id t \<and> tool_finite t \<and> slots ! (unat (tool_id t) - 1) = None
       \<and> fill_slots (slots[unat (tool_id t) - 1 := Some t]) ts = Inr out"
proof (cases "slot_id t")
  case True
  then show ?thesis
    using slot_index [OF True]
    by (simp add: slot_id_def Let_def finite_def tool_finite_def del: One_nat_def)
next
  case False
  then show ?thesis by (auto simp: slot_id_def)
qed

declare fill_slots.simps(2) [simp del]

lemma fill_slots_iff:
  "length slots = 8 \<Longrightarrow> fill_slots slots ts = Inr out \<longleftrightarrow>
     (\<forall>t\<in>set ts. slot_id t \<and> tool_finite t \<and> slots ! (unat (tool_id t) - 1) = None)
       \<and> distinct (map tool_id ts) \<and> out = place ts slots"
proof (induction ts arbitrary: slots)
  case Nil
  then show ?case by (auto simp: place_def)
next
  case (Cons t ts)
  let ?i = "unat (tool_id t) - 1"
  have other: "slot_id t \<Longrightarrow> slot_id u \<Longrightarrow> slots[?i := Some t] ! (unat (tool_id u) - 1) = None \<longleftrightarrow>
      tool_id u \<noteq> tool_id t \<and> slots ! (unat (tool_id u) - 1) = None" for u
    using Cons.prems same_slot [of t u] slot_bound [of t] by (simp add: nth_list_update eq_commute)
  have all: "(\<forall>u\<in>set ts. slot_id u \<and> tool_finite u
        \<and> slots[?i := Some t] ! (unat (tool_id u) - 1) = None)
      \<longleftrightarrow> (\<forall>u\<in>set ts. slot_id u \<and> tool_finite u \<and> slots ! (unat (tool_id u) - 1) = None)
        \<and> tool_id t \<notin> tool_id ` set ts" (is "?L \<longleftrightarrow> ?R") if t: "slot_id t"
  proof -
    have "?L \<longleftrightarrow> (\<forall>u\<in>set ts. slot_id u \<and> tool_finite u
        \<and> tool_id u \<noteq> tool_id t \<and> slots ! (unat (tool_id u) - 1) = None)"
      using other [OF t] by (intro ball_cong refl) (simp cong: conj_cong)
    also have "\<dots> \<longleftrightarrow> ?R"
      by (simp only: image_iff) metis
    finally show ?thesis .
  qed
  have "length (slots[?i := Some t]) = 8"
    using Cons.prems by simp
  note IH = Cons.IH [OF this]
  show ?case
  proof (cases "slot_id t")
    case True
    have p: "place (t # ts) slots = place ts (slots[?i := Some t])"
      using True by (simp add: place_def slot_index)
    show ?thesis
      unfolding fill_slots_Cons IH all [OF True] p by auto
  next
    case False
    then show ?thesis unfolding fill_slots_Cons by auto
  qed
qed

lemma length_place [simp]: "length (place ts slots) = length slots"
  unfolding place_def by (induction ts arbitrary: slots) auto

lemma place_other:
  "\<forall>u\<in>set ts. unat (tool_id u - 1) \<noteq> i \<Longrightarrow> place ts slots ! i = slots ! i"
  unfolding place_def by (induction ts arbitrary: slots) auto

lemma place_mem:
  assumes "distinct (map tool_id ts)" and "t \<in> set ts" and "\<forall>u\<in>set ts. slot_id u"
    and "length slots = 8"
  shows "place ts slots ! (unat (tool_id t) - 1) = Some t"
  using assms
proof (induction ts arbitrary: slots)
  case (Cons u ts)
  have *: "place (u # ts) slots = place ts (slots[unat (tool_id u) - 1 := Some u])"
    using Cons.prems by (simp add: place_def slot_index)
  show ?case
  proof (cases "t = u")
    case True
    have "\<forall>v\<in>set ts. unat (tool_id v - 1) \<noteq> unat (tool_id u) - 1"
      using Cons.prems(1,3) same_slot [of u] by (simp add: slot_index) (metis image_eqI)
    moreover have "unat (tool_id u) - 1 < 8"
      using Cons.prems by (auto simp: slot_id_nat)
    ultimately show ?thesis
      using Cons.prems(4) by (simp add: * True place_other)
  next
    case False
    then show ?thesis
      using Cons by (simp add: *)
  qed
qed simp

lemma all_slots:
  assumes "length ts = 8" and "distinct (map tool_id ts)" and "\<forall>t\<in>set ts. slot_id t"
  shows "\<exists>us. place ts (replicate 8 None) = map Some us \<and> set us = set ts
     \<and> map (unat \<circ> tool_id) us = [1..<9]"
proof -
  let ?p = "place ts (replicate 8 None)"
  let ?ids = "(\<lambda>t. unat (tool_id t)) ` set ts"
  have "card ?ids = 8"
    using assms distinct_card [of "map tool_id ts"] card_image [of unat "tool_id ` set ts"]
    by (simp add: image_image inj_on_def word_unat_eq_iff)
  moreover have "?ids \<subseteq> {1..8}"
    using assms(3) by (auto simp: slot_id_nat)
  ultimately have ids: "?ids = {1..8}"
    by (intro card_subset_eq) auto
  have ex: "the (?p ! i) \<in> set ts \<and> unat (tool_id (the (?p ! i))) = i + 1
      \<and> ?p ! i = Some (the (?p ! i))" if "i < 8" for i
  proof -
    have "i + 1 \<in> ?ids" using ids that by auto
    then obtain t where t: "t \<in> set ts" "unat (tool_id t) = i + 1" by auto
    with place_mem [OF assms(2) t(1) assms(3), of "replicate 8 None"] show ?thesis by auto
  qed
  define us where "us = map (\<lambda>i. the (?p ! i)) [0..<8]"
  have "?p = map Some us"
    by (rule nth_equalityI) (use ex in \<open>force simp: us_def\<close>)+
  moreover have "map (unat \<circ> tool_id) us = map (\<lambda>i. i + 1) [0..<8]"
    unfolding us_def map_map using ex by (intro map_cong) auto
  moreover have "set us = set ts"
  proof
    show "set us \<subseteq> set ts" using ex by (auto simp: us_def)
    show "set ts \<subseteq> set us"
    proof
      fix t assume t: "t \<in> set ts"
      then have "unat (tool_id t) - 1 < 8"
        using assms(3) by (auto simp: slot_id_nat)
      moreover have "?p ! (unat (tool_id t) - 1) = Some t"
        using place_mem [OF assms(2) t assms(3)] by simp
      ultimately show "t \<in> set us"
        by (auto simp: us_def image_iff intro!: bexI [of _ "unat (tool_id t) - 1"])
    qed
  qed
  ultimately show ?thesis
    by (auto simp: map_Suc_upt)
qed

lemma slots_sorted:
  assumes "length ts = 8" and "distinct (map tool_id ts)" and "\<forall>t\<in>set ts. slot_id t"
  shows "place ts (replicate 8 None) = map Some (sort_key tool_id ts)"
    and "map (unat \<circ> tool_id) (sort_key tool_id ts) = [1..<9]"
proof -
  obtain us where us: "place ts (replicate 8 None) = map Some us" "set us = set ts"
      "map (unat \<circ> tool_id) us = [1..<9]"
    using all_slots [OF assms] by blast
  have "map tool_id us = map (of_nat \<circ> (unat \<circ> tool_id)) us"
    by simp
  also have "\<dots> = map of_nat [1..<9]"
    using arg_cong [OF us(3), of "map of_nat"] by simp
  finally have ids: "map tool_id us = map of_nat [1..<9]" .
  have "sort_key tool_id ts = us"
  proof (rule map_sorted_distinct_set_unique)
    show "inj_on tool_id (set (sort_key tool_id ts) \<union> set us)"
      using assms(2) by (simp add: us distinct_map)
    show "sorted (map tool_id us)" "distinct (map tool_id us)"
      unfolding ids by code_simp+
    show "distinct (map tool_id (sort_key tool_id ts))"
      using assms(2) by (simp add: distinct_map)
  qed (simp_all add: us)
  then show "place ts (replicate 8 None) = map Some (sort_key tool_id ts)"
    "map (unat \<circ> tool_id) (sort_key tool_id ts) = [1..<9]"
    using us by simp_all
qed


lemma fill_all:
  assumes "length ts = 8"
  shows "fill_slots (replicate 8 None) ts = Inr out \<longleftrightarrow>
     (\<forall>t\<in>set ts. slot_id t \<and> tool_finite t) \<and> distinct (map tool_id ts)
       \<and> out = map Some (sort_key tool_id ts)"
proof -
  have "replicate 8 None ! (unat (tool_id t) - 1) = (None :: Tool option)" if "slot_id t" for t
    using slot_bound [OF that] by simp
  then have "fill_slots (replicate 8 None) ts = Inr out \<longleftrightarrow>
     (\<forall>t\<in>set ts. slot_id t \<and> tool_finite t) \<and> distinct (map tool_id ts)
       \<and> out = place ts (replicate 8 None)"
    by (subst fill_slots_iff) auto
  then show ?thesis
    using slots_sorted(1) [OF assms] by auto
qed

lemma slots_written:
  "mapE (\<lambda>s. case s of None \<Rightarrow> Inl OutTool | Some t \<Rightarrow> Inr (tool_slot t)) (map Some ts)
     = Inr (map (tool_bytes \<circ> host_tool) ts)"
  by (induction ts) (simp_all add: host_tool_bytes)

lemma tools_ok_ids:
  "(\<forall>t\<in>set ts. tool_finite t) \<Longrightarrow> map (unat \<circ> tool_id) ts = [unat i..<unat i + length ts] \<Longrightarrow>
     unat i + length ts \<le> 255 \<Longrightarrow> tools_ok i (map host_tool ts)"
proof (induction ts arbitrary: i)
  case (Cons t ts)
  have i: "unat (i + 1) = unat i + 1"
    using Cons.prems(3) by (simp add: unat_word_ariths)
  have "[unat i..<unat i + length (t # ts)] = unat i # [unat (i + 1)..<unat (i + 1) + length ts]"
    by (subst upt_conv_Cons) (simp_all add: i)
  with Cons.prems(2) [unfolded list.map comp_apply] have t: "unat (tool_id t) = unat i"
    and ts: "map (unat \<circ> tool_id) ts = [unat (i + 1)..<unat (i + 1) + length ts]"
    by (simp_all del: upt_Suc add: comp_def)
  have "tools_ok (i + 1) (map host_tool ts)"
    using Cons.prems(1,3) i by (intro Cons.IH [OF _ ts]) simp_all
  moreover have "tool_id t = i"
    using t by (simp add: word_unat_eq_iff)
  then have "tool_ok i (host_tool t)"
    using Cons.prems(1) by (simp add: tool_ok_def host_tool_def tool_finite_def)
  ultimately show ?case by simp
qed simp

section \<open>The encoder\<close>

lemma header_written:
  "wire_header (256 + 16 * n) n m = header_bytes n (host_meta m)"
  by (simp add: wire_header_def header_bytes_def host_meta_def MAGIC_def rgb_bytes_def be16_def
      split: prod.splits)

text \<open>What the encoder requires of a candidate.\<close>

definition encodable :: "ReplayCandidate \<Rightarrow> bool" where
  "encodable c \<longleftrightarrow>
     (let m = metadata c; n = length (events c) in
      2 \<le> n \<and> n \<le> 16384
      \<and> tegaki_version (header c) = (0, 9, 4) \<and> format_version (header c) = 1
      \<and> 1 \<le> width m \<and> width m \<le> 1024 \<and> 1 \<le> height m \<and> height m \<le> 1024
      \<and> 1 \<le> meta_tool_id m \<and> meta_tool_id m \<le> 8
      \<and> length (tools c) = 8 \<and> distinct (map tool_id (tools c))
      \<and> (\<forall>t\<in>set (tools c). slot_id t \<and> tool_finite t)
      \<and> list_all source_event_ok (events c) \<and> source_markers n 0 (events c)
      \<and> unat (inflated_bytes (header c)) = length (body_source c))"

lemma length_metadata_source [simp]: "length (metadata_source m) = 19"
  by (simp add: metadata_source_def rgb_source_def)

lemma length_body_source:
  "length (tools c) = 8 \<Longrightarrow>
     length (body_source c) = 179 + length (concat (map event_source (events c)))"
  by (simp add: body_source_def)

lemma concat_event_source_bound: "length (concat (map event_source es)) \<le> 13 * length es"
  using length_source_payload
  by (induction es) (auto simp: length_event_source le_diff_conv intro: add_mono)

lemma host_wire:
  "wire_bytes (host_replay c) = header_bytes (length (events c)) (host_meta (metadata c))
     @ concat (map (tool_bytes \<circ> host_tool) (sort_key tool_id (tools c)))
     @ concat (map (event_bytes \<circ> host_event) (events c))"
  by (simp add: wire_bytes_def host_replay_def)

lemma wire_total: "n \<le> 16384 \<Longrightarrow>
    Option.bind (checked_mul64 n 16) (\<lambda>k. checked_add64 k 256) = Some (256 + 16 * n)"
  by (simp add: checked_mul64_def checked_add64_def)

lemma encode_steps:
  "encode_untrusted_candidate mem c = Inr bs \<longleftrightarrow>
     (let m = metadata c; n = length (events c) in
      2 \<le> n \<and> n \<le> 16384
      \<and> tegaki_version (header c) = (0, 9, 4) \<and> format_version (header c) = 1
      \<and> 1 \<le> width m \<and> width m \<le> 1024 \<and> 1 \<le> height m \<and> height m \<le> 1024
      \<and> 1 \<le> meta_tool_id m \<and> meta_tool_id m \<le> 8 \<and> length (tools c) = 8
      \<and> (\<exists>slots len ts es. fill_slots (replicate 8 None) (tools c) = Inr slots
         \<and> source_length n 0 179 (events c) = Inr len \<and> unat (inflated_bytes (header c)) = len
         \<and> mem (256 + 16 * n)
         \<and> mapE (\<lambda>s. case s of None \<Rightarrow> Inl OutTool | Some t \<Rightarrow> Inr (tool_slot t)) slots = Inr ts
         \<and> mapE event_slot (events c) = Inr es
         \<and> bs = wire_header (256 + 16 * n) n m @ concat ts @ concat (map fst es)))"
proof (cases "2 \<le> length (events c) \<and> length (events c) \<le> 16384")
  case True
  then show ?thesis
    unfolding encode_untrusted_candidate_def Let_def reject_if bindE_eq_Inr
      wire_total [OF conjunct2 [OF True]] option.case
    by (auto simp: True)
next
  case False
  then show ?thesis
    by (auto simp: encode_untrusted_candidate_def)
qed

lemma encode_iff:
  "encode_untrusted_candidate mem c = Inr bs \<longleftrightarrow>
     encodable c \<and> mem (256 + 16 * length (events c)) \<and> bs = wire_bytes (host_replay c)"
proof (cases "length (tools c) = 8")
  case True
  have bound: "unat (inflated_bytes (header c)) < 2 ^ 32"
    using unsigned_less [of "inflated_bytes (header c)", where ?'a = nat] by simp
  have "(179::nat) < 2 ^ 32" by simp
  note len = source_length_iff [OF this]
  show ?thesis
    unfolding encode_steps Let_def fill_all [OF True] len encodable_def length_body_source [OF True]
    using bound by (auto simp: slots_written event_slots_iff host_wire header_written comp_def)
next
  case False
  then show ?thesis by (simp add: encode_steps encodable_def Let_def)
qed

lemma wire_ok_host: "encodable c \<Longrightarrow> wire_ok (host_replay c)"
proof -
  assume c: "encodable c"
  then have t: "length (tools c) = 8" "distinct (map tool_id (tools c))"
      "\<forall>t\<in>set (tools c). slot_id t \<and> tool_finite t"
    by (simp_all add: encodable_def Let_def)
  have "map (unat \<circ> tool_id) (sort_key tool_id (tools c)) = [1..<9]"
    using slots_sorted(2) [OF t(1,2)] t(3) by blast
  then have "tools_ok 1 (map host_tool (sort_key tool_id (tools c)))"
    using t by (intro tools_ok_ids) simp_all
  then show ?thesis
    using c by (simp add: wire_ok_def host_replay_def encodable_def Let_def metadata_ok_def
        host_meta_def host_events_ok host_markers)
qed

section \<open>The parser feeds the encoder\<close>

lemma tools_fresh_iff:
  "tools_fresh seen ts \<longleftrightarrow> (\<forall>t\<in>set ts. slot_id t \<and> tool_finite t \<and> tool_id t \<notin> set seen)
     \<and> distinct (map tool_id ts)"
  by (induction ts arbitrary: seen) (auto simp: slot_id_def image_iff)

lemma parsed_encodable:
  assumes "parse_candidate mem event_size inflate input = Inr c"
    and "length (events c) \<le> 16384"
  shows "encodable c"
  using assms unfolding parse_candidate_iff
  by (auto simp: candidate_ok_def encodable_def Let_def tools_fresh_iff)

text \<open>A smallest candidate: the eight default tools and only the two markers.\<close>

definition sample_tool :: "u8 \<Rightarrow> Tool" where
  "sample_tool i = \<lparr>tool_id = i, tool_size = 4, alpha = 0x3F800000, tool_step = 0x3C23D70A,
     size_dynamics = False, alpha_dynamics = False, use_preserve_alpha = True, tip_id = 0,
     flow = 0x3F800000, flow_dynamics = False\<rparr>"

definition sample_candidate :: ReplayCandidate where
  "sample_candidate = \<lparr>header = \<lparr>inflated_bytes = 189, tegaki_version = (0, 9, 4), format_version = 1\<rparr>,
     metadata = \<lparr>started_at_seconds = 1, ended_at_seconds = 2, width = 64, height = 48,
       background = (255, 255, 255), color = (0, 0, 0), meta_tool_id = 1\<rparr>,
     tools = map sample_tool [8, 1, 2, 3, 4, 5, 6, 7],
     events = [\<lparr>timestamp_ms = 10, kind = Prelude\<rparr>, \<lparr>timestamp_ms = 20, kind = Conclusion\<rparr>]\<rparr>"

lemma sample_tool_ok: "slot_id (sample_tool i) \<longleftrightarrow> 1 \<le> i \<and> i \<le> 8" "tool_finite (sample_tool i)"
  by (simp_all add: slot_id_def tool_finite_def sample_tool_def f32_finite_def)

lemma sample_encodable: "encodable sample_candidate"
  by (simp add: encodable_def length_body_source sample_candidate_def sample_tool_ok event_source_def
      source_event_ok_def) (simp add: sample_tool_def)

lemma sample_candidate_ok: "candidate_ok 16 sample_candidate"
  by (simp add: candidate_ok_def sample_candidate_def tools_fresh_iff sample_tool_ok event_source_def
      source_event_ok_def) (simp add: sample_tool_def)

text \<open>An upload of it, for a decompressor that finds the body stored after the header.\<close>

definition stored_inflate :: inflater where
  "stored_inflate compressed capacity = Some (True, length compressed, compressed)"

definition sample_upload :: bytes where
  "sample_upload = upload_header 189 @ body_source sample_candidate"

lemma sample_parsed:
  "parse_candidate (\<lambda>_. True) 16 stored_inflate sample_upload = Inr sample_candidate"
proof -
  have len: "length (body_source sample_candidate) = 189"
    by (simp add: length_body_source sample_candidate_def event_source_def)
  have hdr: "inflated_bytes (header sample_candidate) = 189"
    "tegaki_version (header sample_candidate) = (0, 9, 4)" "format_version (header sample_candidate) = 1"
    by (simp_all add: sample_candidate_def)
  show ?thesis
    unfolding parse_candidate_iff len hdr
    by (simp add: sample_upload_def stored_inflate_def sample_candidate_ok len)
qed

end
