(* ===== verification/ReplayEnvelope.thy ===== *)
theory ReplayEnvelope
  imports ReplayWire
begin

unbundle bit_operations_syntax

text \<open>
  \<open>crates/media/src/replay_envelope.rs\<close>: the numeric envelope of a decoded replay. The loops over
  the tools and the events are recursive functions with the source's running variables
  (\<open>index\<close>, \<open>previous\<close>, \<open>selected\<close>) as arguments; \<open>SOURCE_STEPS\<close> holds the bit patterns of the
  source's literals. The specification says what a checked replay satisfies.
\<close>

section \<open>The check\<close>

definition MAX_DURATION_MS :: u32 where [simp]: "MAX_DURATION_MS = 24 * 60 * 60 * 1000"

text \<open>0.01, 0.05, 0.1, 100.0, 0.01, 100.0, 0.25, 0.1\<close>

definition SOURCE_STEPS :: "f32 list" where
  "SOURCE_STEPS = [0x3C23D70A, 0x3D4CCCCD, 0x3DCCCCCD, 0x42C80000, 0x3C23D70A, 0x42C80000,
     0x3E800000, 0x3DCCCCCD]"

datatype ReplayEnvelopeError = ReplayEnvelopeError

definition tool_rejected :: "nat \<Rightarrow> UntrustedReplayTool \<Rightarrow> bool" where
  "tool_rejected index tool \<longleftrightarrow>
     unat (tool_id tool) \<noteq> index + 1
     \<or> \<not> (1 \<le> tool_size tool \<and> tool_size tool \<le> 64)
     \<or> \<not> f32_unit (alpha tool)
     \<or> \<not> f32_unit (flow tool)
     \<or> tool_step tool \<noteq> SOURCE_STEPS ! index
     \<or> use_preserve_alpha tool \<noteq> (tool_id tool = 1 \<or> tool_id tool = 2 \<or> tool_id tool = 3 \<or> tool_id tool = 5)
     \<or> (tool_id tool = 8 \<and> \<not> (0 \<le> sint (tip_id tool) \<and> sint (tip_id tool) \<le> 2))
     \<or> (tool_id tool \<noteq> 8 \<and> tip_id tool \<noteq> 0)"

fun check_tools :: "nat \<Rightarrow> UntrustedReplayTool list \<Rightarrow> ReplayEnvelopeError + unit" where
  "check_tools index [] = Inr ()"
| "check_tools index (tool # ts) =
     (if tool_rejected index tool then Inl ReplayEnvelopeError else check_tools (index + 1) ts)"

text \<open>
  Pointer coordinates: one full canvas on either side. The arithmetic is the source's \<open>i32\<close>;
  \<open>2 * w\<close> of a \<open>u16\<close> does not overflow.
\<close>

definition point_rejected :: "UntrustedReplayMetadata \<Rightarrow> i16 \<Rightarrow> i16 \<Rightarrow> bool" where
  "point_rejected m x y \<longleftrightarrow>
     (let w = uint (width m); h = uint (height m) in
      \<not> (- w \<le> sint x \<and> sint x \<le> 2 * w) \<or> \<not> (- h \<le> sint y \<and> sint y \<le> 2 * h))"

text \<open>One event: the newly selected tool.\<close>

fun check_kind ::
  "UntrustedReplayMetadata \<Rightarrow> u8 \<Rightarrow> UntrustedReplayEventKind \<Rightarrow> ReplayEnvelopeError + u8" where
  "check_kind m selected (SetTool i) =
     (if \<not> (1 \<le> i \<and> i \<le> 8) then Inl ReplayEnvelopeError else Inr i)"
| "check_kind m selected (SetToolSize v) =
     (if \<not> (1 \<le> v \<and> v \<le> 64) then Inl ReplayEnvelopeError else Inr selected)"
| "check_kind m selected (SetToolAlpha v) =
     (if \<not> f32_unit v then Inl ReplayEnvelopeError else Inr selected)"
| "check_kind m selected (SetToolFlow v) =
     (if \<not> f32_unit v then Inl ReplayEnvelopeError else Inr selected)"
| "check_kind m selected (SetSelectedLayersAlpha v) =
     (if \<not> f32_unit v then Inl ReplayEnvelopeError else Inr selected)"
| "check_kind m selected (SetToolTip tip) =
     (if (selected = 8 \<and> tip > 2) \<or> (selected \<noteq> 8 \<and> tip \<noteq> 0) then Inl ReplayEnvelopeError
      else Inr selected)"
| "check_kind m selected (DrawStart x y _) =
     (if point_rejected m x y then Inl ReplayEnvelopeError else Inr selected)"
| "check_kind m selected (Draw x y _) =
     (if point_rejected m x y then Inl ReplayEnvelopeError else Inr selected)"
| "check_kind m selected (DrawStartNoPressure x y) =
     (if point_rejected m x y then Inl ReplayEnvelopeError else Inr selected)"
| "check_kind m selected (DrawNoPressure x y) =
     (if point_rejected m x y then Inl ReplayEnvelopeError else Inr selected)"
| "check_kind m selected _ = Inr selected"

fun check_events ::
  "UntrustedReplayMetadata \<Rightarrow> nat \<Rightarrow> nat \<Rightarrow> u32 \<Rightarrow> u8 \<Rightarrow> UntrustedReplayEvent list
     \<Rightarrow> ReplayEnvelopeError + unit" where
  "check_events m len index previous selected [] = Inr ()"
| "check_events m len index previous selected (e # es) =
     (if timestamp_ms e < previous
         \<or> (index = 0) \<noteq> (kind e = Prelude)
         \<or> (index + 1 = len) \<noteq> (kind e = Conclusion)
      then Inl ReplayEnvelopeError
      else bindE (check_kind m selected (kind e)) (\<lambda>sel.
           check_events m len (index + 1) (timestamp_ms e) sel es))"

definition check :: "UntrustedReplay \<Rightarrow> ReplayEnvelopeError + UntrustedReplay" where
  "check replay =
     (let m = metadata replay; n = length (events replay) in
      if candidate_profile replay \<noteq> CANDIDATE_PROFILE
         \<or> \<not> (1 \<le> width m \<and> width m \<le> MAX_CANVAS_SIDE)
         \<or> \<not> (1 \<le> height m \<and> height m \<le> MAX_CANVAS_SIDE)
         \<or> \<not> (1 \<le> meta_tool_id m \<and> meta_tool_id m \<le> 8)
         \<or> \<not> (2 \<le> n \<and> n \<le> MAX_EVENTS)
         \<or> (case checked_sub (unat (ended_at_seconds m)) (unat (started_at_seconds m)) of
              None \<Rightarrow> True | Some seconds \<Rightarrow> seconds > unat (MAX_DURATION_MS div 1000))
      then Inl ReplayEnvelopeError
      else bindE (check_tools 0 (tools replay)) (\<lambda>_.
        let first = timestamp_ms (events replay ! 0); last = timestamp_ms (events replay ! (n - 1)) in
        if (case checked_sub (unat last) (unat first) of
              None \<Rightarrow> True | Some span \<Rightarrow> span > unat MAX_DURATION_MS)
        then Inl ReplayEnvelopeError
        else bindE (check_events m n 0 first (meta_tool_id m) (events replay)) (\<lambda>_. Inr replay)))"

section \<open>What a checked replay satisfies\<close>

definition tool_in_envelope :: "u8 \<Rightarrow> UntrustedReplayTool \<Rightarrow> bool" where
  "tool_in_envelope i t \<longleftrightarrow> tool_id t = i \<and> 1 \<le> tool_size t \<and> tool_size t \<le> 64
     \<and> f32_unit (alpha t) \<and> f32_unit (flow t) \<and> tool_step t = SOURCE_STEPS ! (unat i - 1)
     \<and> (use_preserve_alpha t \<longleftrightarrow> i \<in> {1, 2, 3, 5})
     \<and> (if i = 8 then tip_id t \<in> {0, 1, 2} else tip_id t = 0)"

text \<open>The tool an event list leaves selected.\<close>

fun selects :: "u8 \<Rightarrow> UntrustedReplayEventKind \<Rightarrow> u8" where
  "selects s (SetTool i) = i"
| "selects s _ = s"

definition selected_after :: "u8 \<Rightarrow> UntrustedReplayEvent list \<Rightarrow> u8" where
  "selected_after s es = fold (\<lambda>e s. selects s (kind e)) es s"

definition near_canvas :: "UntrustedReplayMetadata \<Rightarrow> i16 \<Rightarrow> i16 \<Rightarrow> bool" where
  "near_canvas m x y \<longleftrightarrow> - uint (width m) \<le> sint x \<and> sint x \<le> 2 * uint (width m)
     \<and> - uint (height m) \<le> sint y \<and> sint y \<le> 2 * uint (height m)"

fun kind_in_envelope :: "UntrustedReplayMetadata \<Rightarrow> u8 \<Rightarrow> UntrustedReplayEventKind \<Rightarrow> bool" where
  "kind_in_envelope m s (SetTool i) \<longleftrightarrow> 1 \<le> i \<and> i \<le> 8"
| "kind_in_envelope m s (SetToolSize v) \<longleftrightarrow> 1 \<le> v \<and> v \<le> 64"
| "kind_in_envelope m s (SetToolAlpha v) \<longleftrightarrow> f32_unit v"
| "kind_in_envelope m s (SetToolFlow v) \<longleftrightarrow> f32_unit v"
| "kind_in_envelope m s (SetSelectedLayersAlpha v) \<longleftrightarrow> f32_unit v"
| "kind_in_envelope m s (SetToolTip t) \<longleftrightarrow> (if s = 8 then t \<le> 2 else t = 0)"
| "kind_in_envelope m s (DrawStart x y p) \<longleftrightarrow> near_canvas m x y"
| "kind_in_envelope m s (Draw x y p) \<longleftrightarrow> near_canvas m x y"
| "kind_in_envelope m s (DrawStartNoPressure x y) \<longleftrightarrow> near_canvas m x y"
| "kind_in_envelope m s (DrawNoPressure x y) \<longleftrightarrow> near_canvas m x y"
| "kind_in_envelope m s _ \<longleftrightarrow> True"

definition in_envelope :: "UntrustedReplay \<Rightarrow> bool" where
  "in_envelope r \<longleftrightarrow>
     (let m = metadata r; es = events r; n = length es in
      candidate_profile r = 1 \<and> metadata_ok m \<and> 2 \<le> n \<and> n \<le> 16384
      \<and> started_at_seconds m \<le> ended_at_seconds m
      \<and> unat (ended_at_seconds m) - unat (started_at_seconds m) \<le> 86400
      \<and> (\<forall>i<length (tools r). tool_in_envelope (of_nat i + 1) (tools r ! i))
      \<and> sorted (map timestamp_ms es)
      \<and> unat (timestamp_ms (last es)) - unat (timestamp_ms (hd es)) \<le> 86400000
      \<and> markers_from n 0 es
      \<and> (\<forall>i<n. kind_in_envelope m (selected_after (meta_tool_id m) (take i es)) (kind (es ! i))))"


lemma near_canvas_iff: "point_rejected m x y \<longleftrightarrow> \<not> near_canvas m x y"
  by (auto simp: point_rejected_def near_canvas_def Let_def)

lemma check_kind_iff:
  "check_kind m s k = Inr s' \<longleftrightarrow> kind_in_envelope m s k \<and> s' = selects s k"
  by (cases k) (auto simp: near_canvas_iff not_less)

lemma small_tip: "0 \<le> sint (t::i8) \<and> sint t \<le> 2 \<longleftrightarrow> t \<in> {0, 1, 2}"
proof
  assume t: "0 \<le> sint t \<and> sint t \<le> 2"
  then have "sint t = 0 \<or> sint t = 1 \<or> sint t = 2" by auto
  then have "sint t = sint (0::i8) \<or> sint t = sint (1::i8) \<or> sint t = sint (2::i8)" by simp
  then show "t \<in> {0, 1, 2}" by (simp only: signed_word_eqI insert_iff) (metis signed_word_eqI)
qed auto

lemma tool_rejected_iff:
  assumes "i < 8"
  shows "\<not> tool_rejected i t \<longleftrightarrow> tool_in_envelope (of_nat i + 1) t"
proof -
  have i: "unat (of_nat i + 1 :: u8) = i + 1"
    using assms by (simp add: unat_word_ariths unat_of_nat take_bit_nat_eq_self_iff)
  then have id: "unat (tool_id t) = i + 1 \<longleftrightarrow> tool_id t = of_nat i + 1"
    by (simp add: word_unat_eq_iff)
  show ?thesis
  proof (cases "tool_id t = of_nat i + 1")
    case True
    then have j: "unat (of_nat i + 1 :: u8) - 1 = i" using i by simp
    show ?thesis
      unfolding tool_rejected_def tool_in_envelope_def id small_tip j True [symmetric]
      using True j by auto
  next
    case False
    then show ?thesis unfolding tool_rejected_def tool_in_envelope_def id by simp
  qed
qed

lemma check_tools_iff:
  "i + length ts \<le> 8 \<Longrightarrow> check_tools i ts = Inr u \<longleftrightarrow>
     (\<forall>j<length ts. tool_in_envelope (of_nat (i + j) + 1) (ts ! j))"
proof (induction i ts rule: check_tools.induct)
  case (2 i t ts)
  have "tool_rejected i t \<longleftrightarrow> \<not> tool_in_envelope (of_nat i + 1) t"
    using tool_rejected_iff [of i t] 2(2) by auto
  with 2 show ?case by (auto simp: All_less_Suc2 simp del: of_nat_add)
qed simp

lemma selected_after_Cons: "selected_after s (e # es) = selected_after (selects s (kind e)) es"
  by (simp add: selected_after_def)

lemma check_events_iff:
  "i + length es = n \<Longrightarrow> check_events m n i p s es = Inr u \<longleftrightarrow>
     sorted (p # map timestamp_ms es) \<and> markers_from n i es
       \<and> (\<forall>j<length es. kind_in_envelope m (selected_after s (take j es)) (kind (es ! j)))"
proof (induction es arbitrary: i p s)
  case Nil
  then show ?case by simp
next
  case (Cons e es)
  have IH: "check_events m n (i + 1) (timestamp_ms e) (selects s (kind e)) es = Inr u \<longleftrightarrow>
     sorted (timestamp_ms e # map timestamp_ms es) \<and> markers_from n (i + 1) es
       \<and> (\<forall>j<length es. kind_in_envelope m (selected_after (selects s (kind e)) (take j es)) (kind (es ! j)))"
    using Cons.prems by (intro Cons.IH) simp
  have k: "(\<forall>j<length (e # es). kind_in_envelope m (selected_after s (take j (e # es))) (kind ((e # es) ! j)))
      \<longleftrightarrow> kind_in_envelope m s (kind e) \<and> (\<forall>j<length es.
        kind_in_envelope m (selected_after (selects s (kind e)) (take j es)) (kind (es ! j)))"
    by (simp add: All_less_Suc2 selected_after_Cons) (simp add: selected_after_def)
  have "check_events m n i p s (e # es) = Inr u \<longleftrightarrow>
      p \<le> timestamp_ms e \<and> (i = 0 \<longleftrightarrow> kind e = Prelude) \<and> (i + 1 = n \<longleftrightarrow> kind e = Conclusion)
      \<and> kind_in_envelope m s (kind e)
      \<and> check_events m n (i + 1) (timestamp_ms e) (selects s (kind e)) es = Inr u"
    by (auto simp: bindE_eq_Inr check_kind_iff)
  also have "\<dots> \<longleftrightarrow> sorted (p # map timestamp_ms (e # es)) \<and> markers_from n i (e # es)
      \<and> kind_in_envelope m s (kind e) \<and> (\<forall>j<length es.
        kind_in_envelope m (selected_after (selects s (kind e)) (take j es)) (kind (es ! j)))"
    unfolding IH using Cons.prems by auto
  finally show ?case unfolding k .
qed


lemma duration_iff:
  "(case checked_sub b a of None \<Rightarrow> True | Some d \<Rightarrow> d > k) \<longleftrightarrow> \<not> (a \<le> b \<and> b - a \<le> k)"
  by (auto simp: checked_sub_def)

lemma day: "unat (MAX_DURATION_MS div 1000) = 86400" "unat MAX_DURATION_MS = 86400000"
  by simp_all

lemma check_iff:
  assumes "length (tools r) = 8"
  shows "check r = Inr r' \<longleftrightarrow> r' = r \<and> in_envelope r"
proof (cases "2 \<le> length (events r)")
  case False
  then show ?thesis by (auto simp: check_def in_envelope_def Let_def)
next
  case True
  let ?es = "events r" and ?n = "length (events r)" and ?m = "metadata r"
  have ends: "?es ! 0 = hd ?es" "?es ! (?n - 1) = last ?es"
    using True by (cases ?es; simp add: last_conv_nth)+
  have sorted_ends: "unat (timestamp_ms (hd ?es)) \<le> unat (timestamp_ms (last ?es))"
    if "sorted (map timestamp_ms ?es)"
    using that True by (cases ?es) (auto simp: word_le_nat_alt)
  have start: "sorted (timestamp_ms (hd ?es) # map timestamp_ms ?es) \<longleftrightarrow> sorted (map timestamp_ms ?es)"
    using True by (cases ?es) auto
  have tools: "check_tools 0 (tools r) = Inr u \<longleftrightarrow>
      (\<forall>i<8. tool_in_envelope (of_nat i + 1) (tools r ! i))" for u
    using check_tools_iff [of 0 "tools r" u] assms by simp
  have events: "check_events ?m ?n 0 (timestamp_ms (hd ?es)) (meta_tool_id ?m) ?es = Inr u \<longleftrightarrow>
      sorted (map timestamp_ms ?es) \<and> markers_from ?n 0 ?es
      \<and> (\<forall>i<?n. kind_in_envelope ?m (selected_after (meta_tool_id ?m) (take i ?es)) (kind (?es ! i)))" for u
    using start by (simp only: check_events_iff [of 0 ?es ?n ?m, OF add_0]) 
  show ?thesis
    unfolding check_def Let_def duration_iff day ends
    using sorted_ends True
    by (auto simp: bindE_eq_Inr tools events in_envelope_def Let_def metadata_ok_def assms
        word_le_nat_alt simp del: check_tools.simps)
qed

lemma unit_finite: "f32_unit v \<Longrightarrow> f32_finite v"
  by (simp add: f32_unit_def)

lemma kind_in_envelope_ok: "kind_in_envelope m s k \<Longrightarrow> kind_ok k"
  by (cases k) (auto intro: unit_finite)

lemma steps_all_finite: "list_all f32_finite SOURCE_STEPS"
  by (simp add: SOURCE_STEPS_def f32_finite_def)

lemma steps_finite: "i < 8 \<Longrightarrow> f32_finite (SOURCE_STEPS ! i)"
  using steps_all_finite by (simp add: list_all_length SOURCE_STEPS_def)

lemma tool_in_envelope_ok:
  "i < 8 \<Longrightarrow> tool_in_envelope (of_nat i + 1) t \<Longrightarrow> tool_ok (of_nat i + 1) t"
proof -
  assume i: "i < 8" and t: "tool_in_envelope (of_nat i + 1) t"
  have "unat (of_nat i + 1 :: u8) = i + 1"
    using i by (simp add: unat_word_ariths unat_of_nat take_bit_nat_eq_self_iff)
  then show ?thesis
    using t steps_finite [OF i] by (simp add: tool_in_envelope_def tool_ok_def unit_finite)
qed

lemma tools_ok_nth:
  "tools_ok k ts \<longleftrightarrow> (\<forall>i<length ts. tool_ok (k + of_nat i) (ts ! i))"
  by (induction k ts rule: tools_ok.induct) (auto simp: All_less_Suc2 algebra_simps)

lemma in_envelope_wire_ok:
  assumes "in_envelope r" and "length (tools r) = 8"
  shows "wire_ok r"
proof -
  have "tools_ok 1 (tools r)"
    using assms tool_in_envelope_ok
    by (simp add: tools_ok_nth in_envelope_def Let_def add.commute)
  moreover have "list_all event_ok (events r)"
    using assms kind_in_envelope_ok
    by (auto simp: in_envelope_def Let_def list_all_length event_ok_def)
  ultimately show ?thesis
    using assms by (simp add: wire_ok_def in_envelope_def Let_def)
qed

end
