(* ===== verification/ReplayState.thy ===== *)
theory ReplayState
  imports ReplayWire
begin

unbundle bit_operations_syntax

text \<open>
  \<open>crates/media/src/replay_state.rs\<close>: the logical state check of the core-v1 replay subset. The
  history's shared \<open>Rc<HistoryAction>\<close> values live in an explicit store: \<open>actions\<close> is the list of
  all actions ever created, an \<open>Rc\<close> is an index into it, \<open>undo\<close> and \<open>redo\<close> are stacks of indices
  (top last, as \<open>Vec::push\<close> leaves them) and \<open>Rc::get_mut\<close> succeeds when exactly one of the two
  stacks and \<open>pending\<close> holds the index. Every \<open>expect\<close>, \<open>unreachable!\<close>, index and
  \<open>debug_assert\<close> of the source is a \<open>Panicked\<close> branch, so that their absence is a theorem.
\<close>

section \<open>Types\<close>

definition MAX_LAYERS :: nat where [simp]: "MAX_LAYERS = 8"
definition MAX_HISTORY :: nat where [simp]: "MAX_HISTORY = 50"
definition MAX_DURATION_MS :: u32 where [simp]: "MAX_DURATION_MS = 24 * 60 * 60 * 1000"

datatype ReplayStateErrorKind =
    Candidate | Markers | Chronology | ToolMap | UnsupportedTool | Dynamics | ToolSetting
  | NestedStroke | NoStroke | DuringStroke | Coordinate | HiddenLayer | MissingLayer | LayerAlpha
  | LayerLimit | UnsupportedLayerAction | EmptyHistory | AddHistoryBoundary

record ReplayStateError =
  event_index :: "nat option"
  error_kind :: ReplayStateErrorKind

datatype FlowEasing = Identity | Pen | Airbrush

record AppliedToolState =
  applied_alpha :: f32
  applied_flow :: f32
  applied_easing :: FlowEasing
  applied_color :: rgb
  applied_size :: u8
  applied_tip_id :: i8

record ToolState =
  tool_map :: UntrustedReplayTool
  preserve_alpha :: bool
  applied :: "AppliedToolState option"
  last_position :: "(i16 \<times> i16) option"

datatype PressureInput = Encoded u16 | NoPressure

record PressureState =
  previous_pressure :: PressureInput
  current_pressure :: PressureInput

type_synonym ContentMarker = nat

record LayerState =
  layer_id :: u8
  visible :: bool
  layer_alpha :: f32
  content :: ContentMarker

record SnapshotSite =
  site_event :: nat
  site_content :: ContentMarker

datatype HistoryActionKind =
    DrawAction u8 SnapshotSite "SnapshotSite option"
  | AlphaAction "(u8 \<times> f32) list" f32
  | AddLayerAction u8
  | DummyAction

record HistoryAction =
  action_event :: nat
  action_kind :: HistoryActionKind

record OpenStroke =
  stroke_layer :: u8
  stroke_tool :: u8

record ReplayState =
  tool_states :: "ToolState list"
  tool :: u8
  state_color :: rgb
  layers :: "LayerState list"
  layer_counter :: u8
  active_layer :: u8
  selected_layers :: "u8 list"
  undo :: "nat list"
  redo :: "nat list"
  pending :: "nat option"
  stroke :: "OpenStroke option"
  pressure :: PressureState
  actions :: "HistoryAction list"

type_synonym 'a checked = "ReplayStateErrorKind stop + 'a"

section \<open>Operations\<close>

text \<open>The bit pattern of \<open>1.0\<close>.\<close>

definition ONE :: f32 where "ONE = 0x3F800000"

definition SOURCE_STEPS :: "f32 list" where
  "SOURCE_STEPS = [0x3C23D70A, 0x3D4CCCCD, 0x3DCCCCCD, 0x42C80000, 0x3C23D70A, 0x42C80000,
     0x3E800000, 0x3DCCCCCD]"

definition supported_tool :: "u8 \<Rightarrow> bool" where
  "supported_tool i \<longleftrightarrow> i = 1 \<or> i = 2 \<or> i = 3 \<or> i = 5 \<or> i = 7 \<or> i = 8"

definition flow_easing :: "u8 \<Rightarrow> FlowEasing" where
  "flow_easing i = (if i = 2 then Pen else if i = 3 then Airbrush else Identity)"

definition coordinates :: "UntrustedReplay \<Rightarrow> i16 \<Rightarrow> i16 \<Rightarrow> unit checked" where
  "coordinates replay x y =
     (if sint x < 0 \<or> sint y < 0 \<or> width (metadata replay) \<le> x \<or> height (metadata replay) \<le> y
      then Inl (Refused Coordinate) else Inr ())"

text \<open>\<open>self.tool_mut()\<close>: an update of the selected tool; the subtraction and the index can panic.\<close>

definition tool_mut :: "(ToolState \<Rightarrow> 'e stop + ToolState) \<Rightarrow> ReplayState \<Rightarrow> 'e stop + ReplayState" where
  "tool_mut f s =
     (if tool s = 0 then Inl Panicked
      else let i = unat (tool s - 1) in
        if i < length (tool_states s)
        then bindE (f (tool_states s ! i)) (\<lambda>t. Inr (s\<lparr>tool_states := (tool_states s)[i := t]\<rparr>))
        else Inl Panicked)"

definition select_tool :: "u8 \<Rightarrow> ReplayState \<Rightarrow> 'e stop + ReplayState" where
  "select_tool i s =
     tool_mut (\<lambda>t. let m = tool_map t in
       Inr (t\<lparr>applied := Some \<lparr>applied_alpha = alpha m, applied_flow = flow m,
         applied_easing = flow_easing i, applied_color = state_color s,
         applied_size = tool_size m, applied_tip_id = tip_id m\<rparr>\<rparr>)) (s\<lparr>tool := i\<rparr>)"

definition new_state :: "UntrustedReplay \<Rightarrow> 'e stop + ReplayState" where
  "new_state replay =
     select_tool (meta_tool_id (metadata replay))
      \<lparr>tool_states = map (\<lambda>m. \<lparr>tool_map = m, preserve_alpha = False, applied = None,
                               last_position = None\<rparr>) (tools replay),
       tool = meta_tool_id (metadata replay),
       state_color = color (metadata replay),
       layers = [\<lparr>layer_id = 1, visible = True, layer_alpha = ONE, content = 0\<rparr>],
       layer_counter = 1, active_layer = 1, selected_layers = [1],
       undo = [], redo = [], pending = None, stroke = None,
       pressure = \<lparr>previous_pressure = Encoded 0, current_pressure = Encoded 0\<rparr>,
       actions = []\<rparr>"

definition layer_index :: "u8 \<Rightarrow> LayerState list \<Rightarrow> nat checked" where
  "layer_index i ls =
     (case position (\<lambda>l. layer_id l = i) ls of None \<Rightarrow> Inl (Refused MissingLayer) | Some k \<Rightarrow> Inr k)"

definition activate :: "u8 \<Rightarrow> ReplayState \<Rightarrow> ReplayState checked" where
  "activate i s =
     (if i = 0 \<and> layers s = [] then Inl Panicked
      else let i = (if i = 0 then layer_id (layers s ! (length (layers s) - 1)) else i) in
        bindE (layer_index i (layers s)) (\<lambda>_.
        Inr (s\<lparr>active_layer := i, selected_layers := [i]\<rparr>)))"

text \<open>\<open>Rc::new\<close>: the new action's index is the length of the store.\<close>

definition new_action :: "HistoryAction \<Rightarrow> ReplayState \<Rightarrow> ReplayState" where
  "new_action a s = s\<lparr>actions := actions s @ [a]\<rparr>"

definition push :: "nat \<Rightarrow> ReplayState \<Rightarrow> ReplayState" where
  "push a s =
     (let u = undo s @ [a]; u = (if length u > MAX_HISTORY then tl u else u) in
      s\<lparr>undo := u, redo := []\<rparr>)"

text \<open>The strong count of an action; \<open>Rc::get_mut\<close> returns the contents when it is 1.\<close>

definition owners :: "ReplayState \<Rightarrow> nat \<Rightarrow> nat" where
  "owners s a = count_list (undo s) a + count_list (redo s) a + (if pending s = Some a then 1 else 0)"

definition start :: "nat \<Rightarrow> i16 \<Rightarrow> i16 \<Rightarrow> PressureInput \<Rightarrow> ReplayState \<Rightarrow> ReplayState checked" where
  "start index x y p s =
     (if stroke s \<noteq> None then Inl (Refused NestedStroke)
      else bindE (layer_index (active_layer s) (layers s)) (\<lambda>k.
        let layer = layers s ! k in
        if \<not> visible layer then Inl (Refused HiddenLayer)
        else
          let s = new_action \<lparr>action_event = index, action_kind = DrawAction (layer_id layer)
                    \<lparr>site_event = index, site_content = content layer\<rparr> None\<rparr> s;
              s = s\<lparr>pending := Some (length (actions s) - 1),
                    stroke := Some \<lparr>stroke_layer = layer_id layer, stroke_tool = tool s\<rparr>,
                    pressure := \<lparr>previous_pressure = p, current_pressure = p\<rparr>\<rparr>
          in tool_mut (\<lambda>t. Inr (t\<lparr>last_position := Some (x, y)\<rparr>)) s))"

definition draw :: "i16 \<Rightarrow> i16 \<Rightarrow> PressureInput \<Rightarrow> ReplayState \<Rightarrow> ReplayState checked" where
  "draw x y p s =
     (case stroke s of
        None \<Rightarrow> Inl (Refused NoStroke)
      | Some st \<Rightarrow>
          if stroke_layer st \<noteq> active_layer s \<or> stroke_tool st \<noteq> tool s then Inl Panicked
          else tool_mut (\<lambda>t. Inr (t\<lparr>last_position := Some (x, y)\<rparr>))
                 (s\<lparr>pressure := \<lparr>previous_pressure = current_pressure (pressure s),
                                 current_pressure = p\<rparr>\<rparr>))"

definition commit :: "nat \<Rightarrow> ReplayState \<Rightarrow> ReplayState checked" where
  "commit index s =
     (case stroke s of
        None \<Rightarrow> Inl (Refused NoStroke)
      | Some st \<Rightarrow>
          let s = s\<lparr>stroke := None\<rparr>; c = index + 1 in
          bindE (layer_index (stroke_layer st) (layers s)) (\<lambda>k.
          let s = s\<lparr>layers := (layers s)[k := (layers s ! k)\<lparr>content := c\<rparr>]\<rparr> in
          (case pending s of
             None \<Rightarrow> Inl Panicked
           | Some a \<Rightarrow>
               if owners s a \<noteq> 1 then Inl Panicked
               else (case action_kind (actions s ! a) of
                       DrawAction l before after \<Rightarrow>
                         Inr (push a (s\<lparr>actions := (actions s)[a := (actions s ! a)
                           \<lparr>action_kind := DrawAction l before
                              (Some \<lparr>site_event = index, site_content = c\<rparr>)\<rparr>]\<rparr>))
                     | _ \<Rightarrow> Inl Panicked))))"

fun set_alphas :: "f32 \<Rightarrow> u8 list \<Rightarrow> LayerState list \<Rightarrow> ((u8 \<times> f32) list \<times> LayerState list) checked" where
  "set_alphas a [] ls = Inr ([], ls)"
| "set_alphas a (i # is) ls =
     bindE (layer_index i ls) (\<lambda>k.
     bindE (set_alphas a is (ls[k := (ls ! k)\<lparr>layer_alpha := a\<rparr>])) (\<lambda>(before, ls').
     Inr ((i, layer_alpha (ls ! k)) # before, ls')))"

text \<open>
  The new opacities go into the history: merged into the top action when that is an opacity change
  of the same layers in the same order (the redo stack then survives), as a new action otherwise.
\<close>

definition record_alpha :: "nat \<Rightarrow> f32 \<Rightarrow> (u8 \<times> f32) list \<Rightarrow> ReplayState \<Rightarrow> ReplayState checked" where
  "record_alpha index a before s =
     (let pushed = Inr (push (length (actions s))
            (new_action \<lparr>action_event = index, action_kind = AlphaAction before a\<rparr> s))
      in if undo s = [] then pushed
         else let l = last (undo s) in
           (case action_kind (actions s ! l) of
              AlphaAction previous _ \<Rightarrow>
                if map fst previous = map fst before then
                  if owners s l \<noteq> 1 then Inl Panicked
                  else Inr (s\<lparr>actions := (actions s)[l := (actions s ! l)
                               \<lparr>action_kind := AlphaAction previous a\<rparr>]\<rparr>)
                else pushed
            | _ \<Rightarrow> pushed))"

definition alpha_event :: "nat \<Rightarrow> f32 \<Rightarrow> ReplayState \<Rightarrow> ReplayState checked" where
  "alpha_event index a s =
     (if \<not> f32_unit a \<or> selected_layers s = [] then Inl (Refused LayerAlpha)
      else bindE (set_alphas a (selected_layers s) (layers s)) (\<lambda>(before, ls).
           record_alpha index a before (s\<lparr>layers := ls\<rparr>)))"

fun restore_alphas :: "bool \<Rightarrow> f32 \<Rightarrow> (u8 \<times> f32) list \<Rightarrow> LayerState list \<Rightarrow> LayerState list checked" where
  "restore_alphas is_redo a [] ls = Inr ls"
| "restore_alphas is_redo a ((i, old) # rest) ls =
     bindE (layer_index i ls) (\<lambda>k.
     restore_alphas is_redo a rest
       (ls[k := (ls ! k)\<lparr>layer_alpha := (if is_redo then a else old)\<rparr>]))"

definition history :: "bool \<Rightarrow> ReplayState \<Rightarrow> ReplayState checked" where
  "history is_redo s =
     (let stack = (if is_redo then redo s else undo s) in
      if stack = [] then Inl (Refused EmptyHistory)
      else let a = last stack in
        bindE (case action_kind (actions s ! a) of
            AddLayerAction _ \<Rightarrow> Inl (Refused AddHistoryBoundary)
          | DrawAction l before after \<Rightarrow>
              (case (if is_redo then after else Some before) of
                 None \<Rightarrow> Inl Panicked
               | Some snapshot \<Rightarrow>
                   bindE (layer_index l (layers s)) (\<lambda>k.
                   activate l (s\<lparr>layers := (layers s)
                     [k := (layers s ! k)\<lparr>content := site_content snapshot\<rparr>]\<rparr>)))
          | AlphaAction before new_alpha \<Rightarrow>
              bindE (restore_alphas is_redo new_alpha before (layers s)) (\<lambda>ls. Inr (s\<lparr>layers := ls\<rparr>))
          | DummyAction \<Rightarrow> Inr s) (\<lambda>s.
        Inr (if is_redo then s\<lparr>redo := butlast (redo s), undo := undo s @ [a]\<rparr>
             else s\<lparr>undo := butlast (undo s), redo := redo s @ [a]\<rparr>)))"

text \<open>A setter of the selected tool's applied state; the source expects one.\<close>

definition applied_mut :: "(AppliedToolState \<Rightarrow> AppliedToolState) \<Rightarrow> ToolState \<Rightarrow> 'e stop + ToolState" where
  "applied_mut f t =
     (case applied t of None \<Rightarrow> Inl Panicked | Some a \<Rightarrow> Inr (t\<lparr>applied := Some (f a)\<rparr>))"

fun stroke_event :: "UntrustedReplayEventKind \<Rightarrow> bool" where
  "stroke_event (DrawStart _ _ _) \<longleftrightarrow> True"
| "stroke_event (DrawStartNoPressure _ _) \<longleftrightarrow> True"
| "stroke_event (Draw _ _ _) \<longleftrightarrow> True"
| "stroke_event (DrawNoPressure _ _) \<longleftrightarrow> True"
| "stroke_event DrawCommit \<longleftrightarrow> True"
| "stroke_event _ \<longleftrightarrow> False"

definition add_layer :: "nat \<Rightarrow> ReplayState \<Rightarrow> ReplayState checked" where
  "add_layer index s =
     (if MAX_LAYERS \<le> length (layers s) then Inl (Refused LayerLimit)
      else bindE (layer_index (active_layer s) (layers s)) (\<lambda>k.
        if layer_counter s = 255 then Inl Panicked
        else let i = layer_counter s + 1;
                 l = \<lparr>layer_id = i, visible = True, layer_alpha = ONE, content = 0\<rparr>;
                 s = s\<lparr>layer_counter := i, layers := take (k + 1) (layers s) @ l # drop (k + 1) (layers s)\<rparr>;
                 a = length (actions s);
                 s = new_action \<lparr>action_event = index, action_kind = AddLayerAction i\<rparr> s
             in activate i (push a s)))"

definition toggle_visibility :: "u8 \<Rightarrow> ReplayState \<Rightarrow> ReplayState checked" where
  "toggle_visibility i s =
     bindE (layer_index i (layers s)) (\<lambda>k.
     Inr (s\<lparr>layers := (layers s)[k := (layers s ! k)\<lparr>visible := \<not> visible (layers s ! k)\<rparr>]\<rparr>))"

definition toggle_selection :: "u8 \<Rightarrow> ReplayState \<Rightarrow> ReplayState checked" where
  "toggle_selection i s =
     bindE (layer_index i (layers s)) (\<lambda>_.
     Inr (s\<lparr>selected_layers :=
       (case position (\<lambda>j. j = i) (selected_layers s) of
          Some p \<Rightarrow> take p (selected_layers s) @ drop (p + 1) (selected_layers s)
        | None \<Rightarrow> selected_layers s @ [i])\<rparr>))"

fun tool_event :: "UntrustedReplayEventKind \<Rightarrow> ReplayState \<Rightarrow> ReplayState checked" where
  "tool_event (SetTool i) s =
     (if \<not> supported_tool i then Inl (Refused UnsupportedTool) else select_tool i s)"
| "tool_event (SetColor c) s =
     tool_mut (applied_mut (\<lambda>a. a\<lparr>applied_color := c\<rparr>)) (s\<lparr>state_color := c\<rparr>)"
| "tool_event (SetToolSize v) s =
     (if \<not> (1 \<le> v \<and> v \<le> 64) then Inl (Refused ToolSetting)
      else tool_mut (\<lambda>t. applied_mut (\<lambda>a. a\<lparr>applied_size := v\<rparr>)
             (t\<lparr>tool_map := (tool_map t)\<lparr>tool_size := v\<rparr>\<rparr>)) s)"
| "tool_event (SetToolAlpha v) s =
     (if \<not> f32_unit v then Inl (Refused ToolSetting)
      else tool_mut (\<lambda>t. applied_mut (\<lambda>a. a\<lparr>applied_alpha := v\<rparr>)
             (t\<lparr>tool_map := (tool_map t)\<lparr>alpha := v\<rparr>\<rparr>)) s)"
| "tool_event (SetToolFlow v) s =
     (if \<not> f32_unit v then Inl (Refused ToolSetting)
      else tool_mut (\<lambda>t. applied_mut (\<lambda>a. a\<lparr>applied_flow := v\<rparr>)
             (t\<lparr>tool_map := (tool_map t)\<lparr>flow := v\<rparr>\<rparr>)) s)"
| "tool_event (SetToolTip v) s =
     (if tool s \<noteq> 8 \<or> v > 2 then Inl (Refused ToolSetting)
      else tool_mut (\<lambda>t. applied_mut (\<lambda>a. a\<lparr>applied_tip_id := v\<rparr>)
             (t\<lparr>tool_map := (tool_map t)\<lparr>tip_id := v\<rparr>\<rparr>)) s)"
| "tool_event (PreserveAlpha b) s =
     tool_mut (\<lambda>t. if \<not> use_preserve_alpha (tool_map t) then Inl (Refused ToolSetting)
                    else Inr (t\<lparr>preserve_alpha := b\<rparr>)) s"
| "tool_event _ s = Inl (Refused Dynamics)"

definition event :: "UntrustedReplay \<Rightarrow> nat \<Rightarrow> UntrustedReplayEventKind \<Rightarrow> ReplayState \<Rightarrow> ReplayState checked" where
  "event replay index e s =
     (if stroke s \<noteq> None \<and> \<not> stroke_event e then Inl (Refused DuringStroke)
      else case e of
        Prelude \<Rightarrow> Inr s
      | Conclusion \<Rightarrow> Inr s
      | DrawStart x y p \<Rightarrow> bindE (coordinates replay x y) (\<lambda>_. start index x y (Encoded p) s)
      | DrawStartNoPressure x y \<Rightarrow> bindE (coordinates replay x y) (\<lambda>_. start index x y NoPressure s)
      | Draw x y p \<Rightarrow> bindE (coordinates replay x y) (\<lambda>_. draw x y (Encoded p) s)
      | DrawNoPressure x y \<Rightarrow> bindE (coordinates replay x y) (\<lambda>_. draw x y NoPressure s)
      | DrawCommit \<Rightarrow> commit index s
      | Undo \<Rightarrow> history False s
      | Redo \<Rightarrow> history True s
      | AddLayer \<Rightarrow> add_layer index s
      | DeleteLayers \<Rightarrow> Inl (Refused UnsupportedLayerAction)
      | MoveLayers _ \<Rightarrow> Inl (Refused UnsupportedLayerAction)
      | MergeLayers \<Rightarrow> Inl (Refused UnsupportedLayerAction)
      | ToggleLayerVisibility i \<Rightarrow> toggle_visibility i s
      | SetActiveLayer i \<Rightarrow> activate i s
      | ToggleLayerSelection i \<Rightarrow> toggle_selection i s
      | SetSelectedLayersAlpha a \<Rightarrow> alpha_event index a s
      | HistoryDummy \<Rightarrow>
          Inr (push (length (actions s))
            (new_action \<lparr>action_event = index, action_kind = DummyAction\<rparr> s))
      | _ \<Rightarrow> tool_event e s)"

section \<open>The check\<close>

definition fail_at :: "nat option \<Rightarrow> ReplayStateErrorKind stop + 'a \<Rightarrow> ReplayStateError stop + 'a" where
  "fail_at i m =
     (case m of Inr x \<Rightarrow> Inr x | Inl Panicked \<Rightarrow> Inl Panicked
      | Inl (Refused k) \<Rightarrow> Inl (Refused \<lparr>event_index = i, error_kind = k\<rparr>))"

definition tool_check :: "nat \<Rightarrow> UntrustedReplayTool \<Rightarrow> unit checked" where
  "tool_check offset t =
     (if size_dynamics t \<or> alpha_dynamics t \<or> flow_dynamics t then Inl (Refused Dynamics)
      else if length SOURCE_STEPS \<le> offset then Inl Panicked
      else if unat (tool_id t) \<noteq> offset + 1
        \<or> \<not> (1 \<le> tool_size t \<and> tool_size t \<le> 64)
        \<or> \<not> f32_unit (alpha t)
        \<or> \<not> f32_unit (flow t)
        \<or> tool_step t \<noteq> SOURCE_STEPS ! offset
        \<or> use_preserve_alpha t \<noteq> (tool_id t = 1 \<or> tool_id t = 2 \<or> tool_id t = 3 \<or> tool_id t = 5)
        \<or> (tool_id t = 8 \<and> \<not> (0 \<le> sint (tip_id t) \<and> sint (tip_id t) \<le> 2))
        \<or> (tool_id t \<noteq> 8 \<and> tip_id t \<noteq> 0)
      then Inl (Refused ToolMap) else Inr ())"

fun tool_checks :: "nat \<Rightarrow> UntrustedReplayTool list \<Rightarrow> unit checked" where
  "tool_checks offset [] = Inr ()"
| "tool_checks offset (t # ts) = bindE (tool_check offset t) (\<lambda>_. tool_checks (offset + 1) ts)"

text \<open>One turn of the loop over the events; the running state is the time and the logical state.\<close>

definition event_step ::
  "UntrustedReplay \<Rightarrow> u32 \<times> ReplayState \<Rightarrow> nat \<times> UntrustedReplayEvent
     \<Rightarrow> ReplayStateError stop + (u32 \<times> ReplayState)" where
  "event_step replay ps ie =
     (let (previous_time, s) = ps; (index, e) = ie in
      if (index = 0) \<noteq> (kind e = Prelude)
         \<or> (index = length (events replay) - 1) \<noteq> (kind e = Conclusion)
      then Inl (Refused \<lparr>event_index = Some index, error_kind = Markers\<rparr>)
      else if timestamp_ms e < previous_time
      then Inl (Refused \<lparr>event_index = Some index, error_kind = Chronology\<rparr>)
      else bindE (fail_at (Some index) (event replay index (kind e) s)) (\<lambda>s.
           Inr (timestamp_ms e, s)))"

definition check_core_v1 :: "UntrustedReplay \<Rightarrow> ReplayStateError stop + ReplayState" where
  "check_core_v1 replay =
     (let m = metadata replay; n = length (events replay);
          failed = (\<lambda>k. Inl (Refused \<lparr>event_index = None, error_kind = k\<rparr>)) in
      if candidate_profile replay \<noteq> CANDIDATE_PROFILE
         \<or> \<not> (1 \<le> width m \<and> width m \<le> MAX_CANVAS_SIDE)
         \<or> \<not> (1 \<le> height m \<and> height m \<le> MAX_CANVAS_SIDE)
         \<or> \<not> (2 \<le> n \<and> n \<le> MAX_EVENTS)
      then failed Candidate
      else if \<not> supported_tool (meta_tool_id m) then failed UnsupportedTool
      else if (case checked_sub (unat (ended_at_seconds m)) (unat (started_at_seconds m)) of
                 None \<Rightarrow> True | Some d \<Rightarrow> d > unat (MAX_DURATION_MS div 1000))
      then failed Chronology
      else bindE (fail_at None (tool_checks 0 (tools replay))) (\<lambda>_.
        if \<not> (case checked_sub (unat (timestamp_ms (last (events replay))))
                    (unat (timestamp_ms (events replay ! 0))) of
                None \<Rightarrow> False | Some d \<Rightarrow> 1 \<le> d \<and> d \<le> unat MAX_DURATION_MS)
        then failed Chronology
        else bindE (new_state replay) (\<lambda>s.
             bindE (foldE (event_step replay) (timestamp_ms (events replay ! 0), s)
                     (enumerate 0 (events replay))) (\<lambda>(_, s). Inr s))))"

end
