(* ===== verification/ReplayStateInv.thy ===== *)
theory ReplayStateInv
  imports ReplayState
begin

unbundle bit_operations_syntax

text \<open>
  The invariant of the logical replay state of \<open>crates/media/src/replay_state.rs\<close>, that every
  operation keeps it without a panic, and what follows for the undo and redo stacks and for a
  whole checked replay.
\<close>

section \<open>Layers\<close>

definition layer_ids :: "LayerState list \<Rightarrow> u8 set" where
  "layer_ids ls = layer_id ` set ls"

text \<open>The content of a layer; a layer that does not exist yet is blank.\<close>

definition content_of :: "LayerState list \<Rightarrow> u8 \<Rightarrow> ContentMarker" where
  "content_of ls i = (case map_of (map (\<lambda>l. (layer_id l, content l)) ls) i of None \<Rightarrow> 0 | Some c \<Rightarrow> c)"

lemma layer_index_Inr:
  "layer_index i ls = Inr k \<Longrightarrow> k < length ls \<and> layer_id (ls ! k) = i"
  by (auto simp: layer_index_def split: option.splits dest: position_Some)

lemma safe_layer_index:
  "(\<And>k. k < length ls \<Longrightarrow> layer_id (ls ! k) = i \<Longrightarrow> P k) \<Longrightarrow> safe (layer_index i ls) P"
  by (auto simp: layer_index_def split: option.splits dest: position_Some)

lemma layer_index_ex: "i \<in> layer_ids ls \<longleftrightarrow> (\<exists>k. layer_index i ls = Inr k)"
proof -
  have "(\<exists>k. layer_index i ls = Inr k) \<longleftrightarrow> position (\<lambda>l. layer_id l = i) ls \<noteq> None"
    by (auto simp: layer_index_def split: option.splits)
  then show ?thesis by (auto simp: position_None layer_ids_def)
qed

lemma safe_layer_index_bind:
  "(\<And>k. k < length ls \<Longrightarrow> layer_id (ls ! k) = i \<Longrightarrow> safe (f k) P) \<Longrightarrow> safe (bindE (layer_index i ls) f) P"
  by (rule safe_bindE [OF safe_layer_index]) auto

lemma map_update_same: "f x = f (ls ! k) \<Longrightarrow> map f (ls[k := x]) = map f ls"
  by (cases "k < length ls") (simp_all add: map_update list_update_same_conv list_update_beyond)

lemma layer_ids_map: "map layer_id ls' = map layer_id ls \<Longrightarrow> layer_ids ls' = layer_ids ls"
  unfolding layer_ids_def by (metis list.set_map)

lemma content_of_map:
  "map (\<lambda>l. (layer_id l, content l)) ls' = map (\<lambda>l. (layer_id l, content l)) ls \<Longrightarrow> content_of ls' = content_of ls"
  by (simp add: content_of_def fun_eq_iff)

lemma content_of_none: "i \<notin> layer_ids ls \<Longrightarrow> content_of ls i = 0"
  by (auto simp: content_of_def layer_ids_def image_iff dest!: map_of_SomeD split: option.splits)

lemma content_of_nth:
  "distinct (map layer_id ls) \<Longrightarrow> k < length ls \<Longrightarrow> content_of ls (layer_id (ls ! k)) = content (ls ! k)"
  by (subst content_of_def, subst map_of_is_SomeI [of _ _ "content (ls ! k)"]) (auto simp: comp_def)

lemma content_of_update:
  "distinct (map layer_id ls) \<Longrightarrow> k < length ls \<Longrightarrow>
     content_of (ls[k := (ls ! k)\<lparr>content := c\<rparr>]) = (content_of ls)(layer_id (ls ! k) := c)"
proof
  fix i
  assume d: "distinct (map layer_id ls)" and k: "k < length ls"
  let ?ls = "ls[k := (ls ! k)\<lparr>content := c\<rparr>]"
  have ids: "map layer_id ?ls = map layer_id ls"
    by (rule map_update_same) simp
  show "content_of ?ls i = ((content_of ls)(layer_id (ls ! k) := c)) i"
  proof (cases "\<exists>j<length ls. layer_id (ls ! j) = i")
    case True
    then obtain j where j: "j < length ls" "layer_id (ls ! j) = i" by blast
    have "layer_id (?ls ! j) = i"
      using j by (cases "j = k") auto
    then have "content_of ?ls i = content (?ls ! j)"
      using content_of_nth [of ?ls j] d j ids by simp
    moreover have "content_of ls i = content (ls ! j)"
      using content_of_nth [OF d j(1)] j(2) by simp
    moreover have "i = layer_id (ls ! k) \<longleftrightarrow> j = k"
      using d j k by (auto simp: distinct_conv_nth)
    ultimately show ?thesis
      using k by (simp add: nth_list_update)
  next
    case False
    then have "i \<notin> layer_ids ls"
      by (auto simp: layer_ids_def in_set_conv_nth)
    then have "content_of ls i = 0" and "content_of ?ls i = 0"
      using layer_ids_map [OF ids] by (simp_all add: content_of_none)
    then show ?thesis
      using False k by auto
  qed
qed

lemma content_of_insert:
  assumes "layer_id x \<notin> layer_ids (xs @ ys)" and "content x = 0"
  shows "content_of (xs @ x # ys) = content_of (xs @ ys)"
proof
  fix i
  show "content_of (xs @ x # ys) i = content_of (xs @ ys) i"
    using assms by (auto simp: content_of_def map_add_def layer_ids_def image_iff
        dest!: map_of_SomeD split: option.splits)
qed

section \<open>The invariant\<close>

definition layers_inv :: "ReplayState \<Rightarrow> bool" where
  "layers_inv s \<longleftrightarrow> distinct (map layer_id (layers s))
     \<and> (\<forall>i\<in>layer_ids (layers s). 1 \<le> i \<and> i \<le> layer_counter s)
     \<and> unat (layer_counter s) = length (layers s) \<and> length (layers s) \<le> 8
     \<and> active_layer s \<in> layer_ids (layers s)
     \<and> set (selected_layers s) \<subseteq> layer_ids (layers s) \<and> distinct (selected_layers s)"

definition tools_inv :: "ReplayState \<Rightarrow> bool" where
  "tools_inv s \<longleftrightarrow> length (tool_states s) = 8 \<and> supported_tool (tool s)
     \<and> applied (tool_states s ! unat (tool s - 1)) \<noteq> None"

text \<open>What an action on a stack refers to: layers that exist; a drawing is committed.\<close>

fun action_ok :: "u8 set \<Rightarrow> HistoryActionKind \<Rightarrow> bool" where
  "action_ok I (DrawAction l b (Some _)) \<longleftrightarrow> l \<in> I"
| "action_ok I (DrawAction l b None) \<longleftrightarrow> False"
| "action_ok I (AlphaAction bs _) \<longleftrightarrow> fst ` set bs \<subseteq> I"
| "action_ok I (AddLayerAction l) \<longleftrightarrow> l \<in> I"
| "action_ok I DummyAction \<longleftrightarrow> True"

fun is_add :: "HistoryActionKind \<Rightarrow> bool" where
  "is_add (AddLayerAction _) \<longleftrightarrow> True"
| "is_add _ \<longleftrightarrow> False"

text \<open>
  The contents the history remembers agree with the layers: undoing the stack from the top
  meets the content each drawing left, redoing it meets the content each drawing started from.
\<close>

fun chain_undo :: "HistoryAction list \<Rightarrow> (u8 \<Rightarrow> nat) \<Rightarrow> nat list \<Rightarrow> bool" where
  "chain_undo h c [] \<longleftrightarrow> True"
| "chain_undo h c (a # as) \<longleftrightarrow>
     (case action_kind (h ! a) of
        DrawAction l b (Some af) \<Rightarrow> site_content af = c l \<and> chain_undo h (c(l := site_content b)) as
      | _ \<Rightarrow> chain_undo h c as)"

fun chain_redo :: "HistoryAction list \<Rightarrow> (u8 \<Rightarrow> nat) \<Rightarrow> nat list \<Rightarrow> bool" where
  "chain_redo h c [] \<longleftrightarrow> True"
| "chain_redo h c (a # as) \<longleftrightarrow>
     (case action_kind (h ! a) of
        DrawAction l b (Some af) \<Rightarrow> site_content b = c l \<and> chain_redo h (c(l := site_content af)) as
      | _ \<Rightarrow> chain_redo h c as)"

definition stacks_ok :: "u8 set \<Rightarrow> HistoryAction list \<Rightarrow> nat list \<Rightarrow> nat list \<Rightarrow> bool" where
  "stacks_ok I h u r \<longleftrightarrow> distinct (u @ r)
     \<and> (\<forall>a\<in>set u \<union> set r. a < length h \<and> action_ok I (action_kind (h ! a)))
     \<and> length u + length r \<le> 50 \<and> (\<forall>a\<in>set r. \<not> is_add (action_kind (h ! a)))"

definition chains_ok :: "HistoryAction list \<Rightarrow> (u8 \<Rightarrow> nat) \<Rightarrow> nat list \<Rightarrow> nat list \<Rightarrow> bool" where
  "chains_ok h c u r \<longleftrightarrow> chain_undo h c (rev u) \<and> chain_redo h c (rev r)"

definition history_inv :: "ReplayState \<Rightarrow> bool" where
  "history_inv s \<longleftrightarrow> stacks_ok (layer_ids (layers s)) (actions s) (undo s) (redo s)
     \<and> chains_ok (actions s) (content_of (layers s)) (undo s) (redo s)"

text \<open>An open stroke owns the pending, uncommitted drawing of the active layer.\<close>

definition pending_inv :: "ReplayState \<Rightarrow> bool" where
  "pending_inv s \<longleftrightarrow>
     (case pending s of
        None \<Rightarrow> stroke s = None
      | Some a \<Rightarrow> a < length (actions s) \<and>
          (case action_kind (actions s ! a) of
             DrawAction l b af \<Rightarrow>
               (case stroke s of None \<Rightarrow> True
                | Some st \<Rightarrow> a \<notin> set (undo s) \<union> set (redo s) \<and> af = None
                    \<and> l = active_layer s \<and> stroke_layer st = active_layer s \<and> stroke_tool st = tool s
                    \<and> site_content b = content_of (layers s) (active_layer s))
           | _ \<Rightarrow> False))"

definition state_inv :: "ReplayState \<Rightarrow> bool" where
  "state_inv s \<longleftrightarrow> layers_inv s \<and> tools_inv s \<and> history_inv s \<and> pending_inv s"

lemma stacks_okI:
  "distinct (u @ r) \<Longrightarrow> (\<And>a. a \<in> set u \<union> set r \<Longrightarrow> a < length h \<and> action_ok I (action_kind (h ! a))) \<Longrightarrow>
     length u + length r \<le> 50 \<Longrightarrow> (\<And>a. a \<in> set r \<Longrightarrow> \<not> is_add (action_kind (h ! a))) \<Longrightarrow> stacks_ok I h u r"
  by (simp add: stacks_ok_def)

section \<open>The history store\<close>

lemma action_ok_mono: "action_ok I k \<Longrightarrow> I \<subseteq> J \<Longrightarrow> action_ok J k"
  by (induction I k rule: action_ok.induct) auto

fun draw_part :: "HistoryActionKind \<Rightarrow> (u8 \<times> SnapshotSite \<times> SnapshotSite option) option" where
  "draw_part (DrawAction l b a) = Some (l, b, a)"
| "draw_part _ = None"

lemma chain_undo_cong:
  "(\<And>a. a \<in> set as \<Longrightarrow> draw_part (action_kind (h ! a)) = draw_part (action_kind (h' ! a))) \<Longrightarrow>
     chain_undo h c as = chain_undo h' c as"
proof (induction as arbitrary: c)
  case (Cons a as)
  have "draw_part (action_kind (h ! a)) = draw_part (action_kind (h' ! a))"
    using Cons.prems by simp
  with Cons show ?case
    by (cases "action_kind (h ! a)"; cases "action_kind (h' ! a)") (auto split: option.splits)
qed simp

lemma chain_redo_cong:
  "(\<And>a. a \<in> set as \<Longrightarrow> draw_part (action_kind (h ! a)) = draw_part (action_kind (h' ! a))) \<Longrightarrow>
     chain_redo h c as = chain_redo h' c as"
proof (induction as arbitrary: c)
  case (Cons a as)
  have "draw_part (action_kind (h ! a)) = draw_part (action_kind (h' ! a))"
    using Cons.prems by simp
  with Cons show ?case
    by (cases "action_kind (h ! a)"; cases "action_kind (h' ! a)") (auto split: option.splits)
qed simp

lemma chain_undo_butlast: "chain_undo h c as \<Longrightarrow> chain_undo h c (butlast as)"
proof (induction as arbitrary: c)
  case (Cons a as)
  then show ?case by (cases "action_kind (h ! a)") (auto split: option.splits)
qed simp

lemma chains_ok_cong:
  assumes "\<And>a. a \<in> set u \<union> set r \<Longrightarrow> draw_part (action_kind (h ! a)) = draw_part (action_kind (h' ! a))"
  shows "chains_ok h c u r = chains_ok h' c u r"
  using chain_undo_cong [of "rev u" h h' c] chain_redo_cong [of "rev r" h h' c] assms
  by (simp add: chains_ok_def)


definition kept :: "nat list \<Rightarrow> nat list" where
  "kept u = (if length u > 50 then tl u else u)"

lemma push_eq: "push a s = s\<lparr>undo := kept (undo s @ [a]), redo := []\<rparr>"
  by (simp add: push_def kept_def Let_def)

lemma kept_props:
  "length u \<le> 51 \<Longrightarrow> length (kept u) \<le> 50" "set (kept u) \<subseteq> set u" "distinct u \<Longrightarrow> distinct (kept u)"
  "chain_undo h c (rev u) \<Longrightarrow> chain_undo h c (rev (kept u))"
  by (auto simp: kept_def distinct_tl dest: list.set_sel(2) split: if_splits)
    (metis list.set_sel(2) list.sel(2), metis butlast_rev chain_undo_butlast)

lemma stacks_push:
  assumes "stacks_ok I h u r" and "a \<notin> set u" and "a < length h" and "action_ok I (action_kind (h ! a))"
  shows "stacks_ok I h (kept (u @ [a])) []"
proof (rule stacks_okI)
  show "length (kept (u @ [a])) + length [] \<le> 50"
    using assms(1) kept_props(1) [of "u @ [a]"] by (simp add: stacks_ok_def)
  show "distinct (kept (u @ [a]) @ [])"
    using assms(1,2) kept_props(3) [of "u @ [a]"] by (simp add: stacks_ok_def)
qed (use assms kept_props(2) [of "u @ [a]"] in \<open>auto simp: stacks_ok_def\<close>)

lemma chains_push: "chain_undo h c (a # rev u) \<Longrightarrow> chains_ok h c (kept (u @ [a])) []"
  using kept_props(4) [of h c "u @ [a]"] by (simp add: chains_ok_def)

lemma stacks_ok_store:
  assumes "stacks_ok I h u r" and "length h \<le> length h'"
    and "\<And>a. a \<in> set u \<union> set r \<Longrightarrow> h' ! a = h ! a"
  shows "stacks_ok I h' u r"
proof (rule stacks_okI)
  fix a
  assume a: "a \<in> set u \<union> set r"
  show "a < length h' \<and> action_ok I (action_kind (h' ! a))"
    using assms(1) a assms(3) [OF a] order_less_le_trans [OF _ assms(2), of a]
    unfolding stacks_ok_def by (metis (no_types, lifting))
next
  fix a
  assume a: "a \<in> set r"
  then show "\<not> is_add (action_kind (h' ! a))"
    using assms(1) assms(3) [of a] by (simp add: stacks_ok_def)
qed (use assms(1) in \<open>simp_all add: stacks_ok_def\<close>)

lemma stacks_ok_ids: "stacks_ok I h u r \<Longrightarrow> I \<subseteq> J \<Longrightarrow> stacks_ok J h u r"
  by (auto simp: stacks_ok_def intro: action_ok_mono)

lemma stacks_less: "stacks_ok I h u r \<Longrightarrow> a \<in> set u \<union> set r \<Longrightarrow> a < length h"
  by (auto simp: stacks_ok_def)

lemma history_push_new:
  assumes "stacks_ok I h u r" and "chains_ok h c u r"
    and "action_ok I (action_kind x)" and "draw_part (action_kind x) = None"
  shows "stacks_ok I (h @ [x]) (kept (u @ [length h])) [] \<and> chains_ok (h @ [x]) c (kept (u @ [length h])) []"
proof
  have old: "(h @ [x]) ! a = h ! a" if "a \<in> set u \<union> set r" for a
    using stacks_less [OF assms(1) that] by (simp add: nth_append)
  have fresh: "length h \<notin> set u"
    using stacks_less [OF assms(1)] by blast
  show "stacks_ok I (h @ [x]) (kept (u @ [length h])) []"
    using stacks_push [OF stacks_ok_store [OF assms(1) _ old] fresh] assms(3) by simp
  have "chains_ok (h @ [x]) c u r"
    using assms(2) chains_ok_cong [of u r h "h @ [x]" c] old by simp
  then have "chain_undo (h @ [x]) c (length h # rev u)"
    using assms(4) by (cases "action_kind x") (simp_all add: chains_ok_def)
  then show "chains_ok (h @ [x]) c (kept (u @ [length h])) []"
    by (rule chains_push)
qed

lemma chains_undo_draw:
  "action_kind (h ! a) = DrawAction l b (Some af) \<Longrightarrow> chains_ok h c (u @ [a]) r \<Longrightarrow>
     site_content af = c l \<and> chains_ok h (c(l := site_content b)) u (r @ [a])"
  by (simp add: chains_ok_def)

lemma chains_redo_draw:
  "action_kind (h ! a) = DrawAction l b (Some af) \<Longrightarrow> chains_ok h c u (r @ [a]) \<Longrightarrow>
     site_content b = c l \<and> chains_ok h (c(l := site_content af)) (u @ [a]) r"
  by (simp add: chains_ok_def)

lemma chains_move:
  "draw_part (action_kind (h ! a)) = None \<Longrightarrow> chains_ok h c (u @ [a]) r \<longleftrightarrow> chains_ok h c u (r @ [a])"
  by (cases "action_kind (h ! a)") (auto simp: chains_ok_def)

lemma stacks_move:
  "\<not> is_add (action_kind (h ! a)) \<Longrightarrow> stacks_ok I h (u @ [a]) r \<longleftrightarrow> stacks_ok I h u (r @ [a])"
  by (auto simp: stacks_ok_def)

section \<open>Every operation keeps the invariant and never panics\<close>

lemma state_invD:
  assumes "state_inv s"
  shows "layers_inv s" "tools_inv s" "history_inv s" "pending_inv s"
  using assms by (simp_all add: state_inv_def)

definition same_layers :: "LayerState list \<Rightarrow> LayerState list \<Rightarrow> bool" where
  "same_layers ls ls' \<longleftrightarrow> map (\<lambda>l. (layer_id l, content l)) ls' = map (\<lambda>l. (layer_id l, content l)) ls"

lemma same_layers_ids: "same_layers ls ls' \<Longrightarrow> map layer_id ls' = map layer_id ls"
  unfolding same_layers_def by (drule arg_cong [of _ _ "map fst"]) (simp add: comp_def)

lemma same_layers_update:
  "layer_id x = layer_id (ls ! k) \<Longrightarrow> content x = content (ls ! k) \<Longrightarrow> same_layers ls (ls[k := x])"
  unfolding same_layers_def by (rule map_update_same) simp

lemma same_layers_trans: "same_layers a b \<Longrightarrow> same_layers b c \<Longrightarrow> same_layers a c"
  by (simp add: same_layers_def)

lemma inv_same_layers:
  assumes "state_inv s" and "same_layers (layers s) ls"
  shows "state_inv (s\<lparr>layers := ls\<rparr>)"
proof -
  have ids: "map layer_id ls = map layer_id (layers s)"
    using assms(2) by (rule same_layers_ids)
  then have "length ls = length (layers s)" and "layer_ids ls = layer_ids (layers s)"
    by (metis length_map, rule layer_ids_map)
  moreover have "content_of ls = content_of (layers s)"
    using assms(2) by (intro content_of_map) (simp add: same_layers_def)
  ultimately show ?thesis
    using state_invD [OF assms(1)] ids
    by (auto simp: state_inv_def layers_inv_def tools_inv_def history_inv_def pending_inv_def
        split: option.splits HistoryActionKind.splits)
qed

lemma inv_activate:
  assumes "state_inv s" and "stroke s = None" and "j \<in> layer_ids (layers s)"
  shows "state_inv (s\<lparr>active_layer := j, selected_layers := [j]\<rparr>)"
  using state_invD [OF assms(1)] assms(2,3)
  by (auto simp: state_inv_def layers_inv_def tools_inv_def history_inv_def pending_inv_def
      split: option.splits HistoryActionKind.splits)

lemma activate_cases:
  assumes "layers s \<noteq> []"
  shows "safe (activate i s)
    (\<lambda>s'. \<exists>j\<in>layer_ids (layers s). s' = s\<lparr>active_layer := j, selected_layers := [j]\<rparr>)"
proof -
  let ?i = "if i = 0 then layer_id (layers s ! (length (layers s) - 1)) else i"
  have "safe (bindE (layer_index ?i (layers s)) (\<lambda>_. Inr (s\<lparr>active_layer := ?i, selected_layers := [?i]\<rparr>)))
      (\<lambda>s'. \<exists>j\<in>layer_ids (layers s). s' = s\<lparr>active_layer := j, selected_layers := [j]\<rparr>)"
    by (rule safe_layer_index_bind) (force simp: layer_ids_def)
  then show ?thesis
    using assms by (simp add: activate_def Let_def)
qed

lemma activate_existing:
  assumes "i \<in> layer_ids (layers s)" and "i \<noteq> 0"
  shows "activate i s = Inr (s\<lparr>active_layer := i, selected_layers := [i]\<rparr>)"
  using assms layer_index_ex [of i "layers s"] by (auto simp: activate_def Let_def)

lemma layers_nonempty: "state_inv s \<Longrightarrow> layers s \<noteq> []"
  by (auto simp: state_inv_def layers_inv_def layer_ids_def)

lemma safe_activate:
  assumes "state_inv s" and "stroke s = None"
  shows "safe (activate i s) state_inv"
  by (rule safe_mono [OF activate_cases [OF layers_nonempty [OF assms(1)]]])
    (auto intro: inv_activate [OF assms])

lemma inv_push_new:
  assumes "state_inv s" and "stroke s = None"
    and "action_ok (layer_ids (layers s)) (action_kind x)" and "draw_part (action_kind x) = None"
  shows "state_inv (push (length (actions s)) (new_action x s))"
proof -
  note inv = state_invD [OF assms(1)]
  have "history_inv (push (length (actions s)) (new_action x s))"
    using inv(3) history_push_new [of "layer_ids (layers s)" "actions s" "undo s" "redo s" "content_of (layers s)" x] assms(3,4)
    by (simp add: history_inv_def push_eq new_action_def)
  moreover have "pending_inv (push (length (actions s)) (new_action x s))"
    using inv(4) assms(2) by (auto simp: pending_inv_def push_eq new_action_def nth_append
        split: option.splits HistoryActionKind.splits)
  ultimately show ?thesis
    using inv(1,2) by (simp add: state_inv_def layers_inv_def tools_inv_def push_eq new_action_def)
qed

lemma safe_toggle_visibility:
  "state_inv s \<Longrightarrow> safe (toggle_visibility i s) state_inv"
  unfolding toggle_visibility_def
  by (auto intro!: safe_layer_index_bind inv_same_layers same_layers_update)

lemma safe_toggle_selection:
  assumes "state_inv s"
  shows "safe (toggle_selection i s) state_inv"
  unfolding toggle_selection_def
proof (rule safe_layer_index_bind)
  fix k
  assume k: "k < length (layers s)" "layer_id (layers s ! k) = i"
  let ?sel = "case position (\<lambda>j. j = i) (selected_layers s) of
      Some p \<Rightarrow> take p (selected_layers s) @ drop (p + 1) (selected_layers s)
    | None \<Rightarrow> selected_layers s @ [i]"
  note inv = state_invD [OF assms]
  have i: "i \<in> layer_ids (layers s)"
    using k by (auto simp: layer_ids_def)
  have "set ?sel \<subseteq> set (selected_layers s) \<union> {i}"
    by (auto split: option.splits dest: in_set_takeD in_set_dropD)
  moreover have "distinct ?sel"
  proof (cases "position (\<lambda>j. j = i) (selected_layers s)")
    case None
    then have "i \<notin> set (selected_layers s)"
      by (auto simp: position_None)
    then show ?thesis
      using inv(1) by (simp add: layers_inv_def None)
  next
    case (Some p)
    have "distinct (selected_layers s)"
      using inv(1) by (simp add: layers_inv_def)
    then have "distinct (take p (selected_layers s) @ drop (p + 1) (selected_layers s))"
      using set_take_disj_set_drop_if_distinct [of "selected_layers s" p "p + 1"] by simp
    then show ?thesis by (simp add: Some)
  qed
  ultimately have "layers_inv (s\<lparr>selected_layers := ?sel\<rparr>)"
    using inv(1) i by (auto simp: layers_inv_def)
  then show "safe (Inr (s\<lparr>selected_layers := ?sel\<rparr>)) state_inv"
    using inv(2-4) by (auto simp: state_inv_def tools_inv_def history_inv_def pending_inv_def
        split: option.splits HistoryActionKind.splits)
qed

lemma tool_mut_eq:
  assumes "tools_inv s"
  shows "tool_mut f s = bindE (f (tool_states s ! unat (tool s - 1)))
      (\<lambda>t. Inr (s\<lparr>tool_states := (tool_states s)[unat (tool s - 1) := t]\<rparr>))"
    and "unat (tool s - 1) < 8"
proof -
  have t: "tool s \<noteq> 0" and "unat (tool s - 1) < 8"
    using assms by (auto simp: tools_inv_def supported_tool_def)
  then show "tool_mut f s = bindE (f (tool_states s ! unat (tool s - 1)))
      (\<lambda>t. Inr (s\<lparr>tool_states := (tool_states s)[unat (tool s - 1) := t]\<rparr>))"
    and "unat (tool s - 1) < 8"
    using assms by (simp_all add: tool_mut_def tools_inv_def Let_def)
qed

text \<open>Operations that touch only the tools.\<close>

definition tools_only :: "ReplayState \<Rightarrow> ReplayState \<Rightarrow> bool" where
  "tools_only s s' \<longleftrightarrow> tools_inv s'
     \<and> s' = s\<lparr>tool_states := tool_states s', tool := tool s', state_color := state_color s'\<rparr>"

lemma inv_tools_only:
  assumes "state_inv s" and "tools_only s s'" and "stroke s = None \<or> tool s' = tool s"
  shows "state_inv s'"
proof -
  obtain ts t c where s': "s' = s\<lparr>tool_states := ts, tool := t, state_color := c\<rparr>"
    using assms(2) unfolding tools_only_def by blast
  show ?thesis
    using state_invD [OF assms(1)] assms(2,3)
    by (auto simp: s' tools_only_def state_inv_def layers_inv_def history_inv_def pending_inv_def
        split: option.splits HistoryActionKind.splits)
qed

lemma tool_mut_only:
  assumes "tools_inv s"
    and "safe (f (tool_states s ! unat (tool s - 1))) (\<lambda>t. applied t \<noteq> None)"
  shows "safe (tool_mut f s) (\<lambda>s'. tools_only s s' \<and> tool s' = tool s)"
  unfolding tool_mut_eq(1) [OF assms(1)]
  using assms tool_mut_eq(2) [OF assms(1)]
  by (auto intro!: safe_bindE [OF assms(2)] simp: tools_only_def tools_inv_def)

lemma tools_inv_color: "tools_inv (s\<lparr>state_color := c\<rparr>) = tools_inv s"
  by (simp add: tools_inv_def)

lemma safe_applied: "applied t \<noteq> None \<Longrightarrow> safe (applied_mut f t) (\<lambda>t. applied t \<noteq> None)"
  by (auto simp: applied_mut_def)

lemma select_tool_only:
  assumes "length (tool_states s) = 8" and "supported_tool i"
  shows "safe (select_tool i s) (tools_only s)"
proof -
  have "i \<noteq> 0" and "unat (i - 1) < 8"
    using assms(2) by (auto simp: supported_tool_def)
  then show ?thesis
    using assms by (simp add: select_tool_def tool_mut_def Let_def tools_only_def tools_inv_def)
qed

lemma safe_tool_event:
  assumes "tools_inv s"
  shows "safe (tool_event e s) (tools_only s)"
proof -
  have app: "applied (tool_states s ! unat (tool s - 1)) \<noteq> None"
    and len: "length (tool_states s) = 8"
    using assms by (simp_all add: tools_inv_def)
  have setter: "safe (tool_mut (\<lambda>t. applied_mut g (h t)) s) (tools_only s)"
    if "\<And>t. applied (h t) = applied t" for g h
  proof (rule safe_mono [OF tool_mut_only [OF assms]])
    show "safe (applied_mut g (h (tool_states s ! unat (tool s - 1)))) (\<lambda>t. applied t \<noteq> None)"
      using app by (intro safe_applied) (simp only: that not_False_eq_True)
  qed auto
  have color: "safe (tool_mut (applied_mut g) (s\<lparr>state_color := c\<rparr>)) (tools_only s)" for g c
  proof (rule safe_mono [OF tool_mut_only])
    show "tools_inv (s\<lparr>state_color := c\<rparr>)"
      using assms by (simp only: tools_inv_color)
    show "safe (applied_mut g (tool_states (s\<lparr>state_color := c\<rparr>)
        ! unat (tool (s\<lparr>state_color := c\<rparr>) - 1))) (\<lambda>t. applied t \<noteq> None)"
      using app by (intro safe_applied) simp
  qed (auto simp: tools_only_def)
  have pres: "safe (tool_mut (\<lambda>t. if \<not> use_preserve_alpha (tool_map t) then Inl (Refused ToolSetting)
      else Inr (t\<lparr>preserve_alpha := b\<rparr>)) s) (tools_only s)" for b
    by (rule safe_mono [OF tool_mut_only [OF assms]]) (use app in auto)
  show ?thesis
    by (cases e) (auto intro!: setter color pres select_tool_only len)
qed

lemma safe_tools:
  assumes "state_inv s" and "stroke s = None"
  shows "safe (tool_event e s) state_inv"
  by (rule safe_mono [OF safe_tool_event [OF state_invD(2) [OF assms(1)]]])
    (auto intro: inv_tools_only [OF assms(1)] simp: assms(2))

lemma distinct_insert:
  "distinct (map f (xs @ ys)) \<Longrightarrow> f x \<notin> f ` set (xs @ ys) \<Longrightarrow> distinct (map f (xs @ x # ys))"
  by auto

lemma safe_add_layer:
  assumes "state_inv s" and "stroke s = None"
  shows "safe (add_layer index s) state_inv"
proof (cases "8 \<le> length (layers s)")
  case True
  then show ?thesis by (simp add: add_layer_def)
next
  case False
  note inv = state_invD [OF assms(1)]
  show ?thesis
    unfolding add_layer_def
  proof (simp only: MAX_LAYERS_def False if_False, rule safe_layer_index_bind)
    fix k
    assume k: "k < length (layers s)" "layer_id (layers s ! k) = active_layer s"
    let ?i = "layer_counter s + 1"
    let ?l = "\<lparr>layer_id = ?i, visible = True, layer_alpha = ONE, content = 0\<rparr>"
    define ls where "ls = take (k + 1) (layers s) @ ?l # drop (k + 1) (layers s)"
    let ?s1 = "s\<lparr>layer_counter := ?i, layers := ls\<rparr>"
    let ?x = "\<lparr>action_event = index, action_kind = AddLayerAction ?i\<rparr>"
    have c: "unat (layer_counter s) = length (layers s)" "unat (layer_counter s) < 8"
      using inv(1) False by (simp_all add: layers_inv_def)
    have i: "unat ?i = unat (layer_counter s) + 1"
      using c(2) by (simp add: unat_word_ariths)
    then have pos: "1 \<le> ?i" "layer_counter s < ?i" "?i \<noteq> 0"
      by (simp_all add: word_le_nat_alt word_less_nat_alt word_unat_eq_iff)
    have split: "take (k + 1) (layers s) @ drop (k + 1) (layers s) = layers s" by simp
    have ids: "layer_ids ls = insert ?i (layer_ids (layers s))"
    proof -
      have "set ls = insert ?l (set (take (k + 1) (layers s) @ drop (k + 1) (layers s)))"
        by (simp only: ls_def set_append list.set Un_insert_right)
      then show ?thesis unfolding split layer_ids_def by simp
    qed
    have fresh: "?i \<notin> layer_ids (layers s)"
      using inv(1) pos(2) by (auto simp: layers_inv_def)
    have dist: "distinct (map layer_id ls)"
      unfolding ls_def by (rule distinct_insert)
        (use inv(1) fresh in \<open>simp_all only: split layers_inv_def layer_ids_def LayerState.simps not_False_eq_True\<close>)
    have same: "content_of ls = content_of (layers s)"
      using content_of_insert [of ?l "take (k + 1) (layers s)" "drop (k + 1) (layers s)"] fresh
      unfolding split ls_def by simp
    have len: "length ls = length (layers s) + 1"
      using k(1) by (simp add: ls_def)
    have bound: "1 \<le> j \<and> j \<le> ?i" if "j \<in> layer_ids ls" for j
      using that inv(1) pos unfolding ids layers_inv_def
      by (metis insertE order.strict_implies_order order.trans order_refl)
    have "layers_inv ?s1"
      using inv(1) bound dist len i c by (auto simp: layers_inv_def ids)
    moreover have "history_inv ?s1"
      using inv(3) same ids by (auto simp: history_inv_def intro: stacks_ok_ids)
    moreover have "tools_inv ?s1" and "pending_inv ?s1"
      using inv(2,4) assms(2) by (auto simp: tools_inv_def pending_inv_def split: option.splits HistoryActionKind.splits)
    ultimately have s1: "state_inv ?s1"
      by (simp add: state_inv_def)
    let ?s2 = "push (length (actions s)) (new_action ?x ?s1)"
    have s2: "state_inv ?s2"
      using inv_push_new [OF s1, of ?x] assms(2) ids by simp
    have act: "activate ?i ?s2 = Inr (?s2\<lparr>active_layer := ?i, selected_layers := [?i]\<rparr>)"
      by (rule activate_existing) (use ids pos(3) in \<open>simp_all add: push_eq new_action_def\<close>)
    have "state_inv (?s2\<lparr>active_layer := ?i, selected_layers := [?i]\<rparr>)"
      by (rule inv_activate [OF s2]) (use ids assms(2) in \<open>simp_all add: push_eq new_action_def\<close>)
    then have "safe (activate ?i ?s2) state_inv"
      unfolding act by simp
    moreover have "layer_counter s \<noteq> 255"
      using c(2) by auto
    ultimately show "safe (if layer_counter s = 255 then Inl Panicked
        else let i = layer_counter s + 1;
                 l = \<lparr>layer_id = i, visible = True, layer_alpha = ONE, content = 0\<rparr>;
                 s = s\<lparr>layer_counter := i, layers := take (k + 1) (layers s) @ l # drop (k + 1) (layers s)\<rparr>;
                 a = length (actions s);
                 s = new_action \<lparr>action_event = index, action_kind = AddLayerAction i\<rparr> s
             in activate i (push a s)) state_inv"
      by (simp add: Let_def ls_def)
  qed
qed


section \<open>Strokes\<close>

lemma safe_start:
  assumes "state_inv s"
  shows "safe (start index x y p s) state_inv"
proof (cases "stroke s")
  case (Some st)
  then show ?thesis by (simp add: start_def)
next
  case None
  note inv = state_invD [OF assms]
  show ?thesis
    unfolding start_def None
  proof (simp only: simp_thms if_False, rule safe_layer_index_bind)
    fix k
    assume k: "k < length (layers s)" "layer_id (layers s ! k) = active_layer s"
    let ?x = "\<lparr>action_event = index, action_kind = DrawAction (layer_id (layers s ! k))
        \<lparr>site_event = index, site_content = content (layers s ! k)\<rparr> None\<rparr>"
    let ?s = "(new_action ?x s)\<lparr>pending := Some (length (actions s)),
        stroke := Some \<lparr>stroke_layer = layer_id (layers s ! k), stroke_tool = tool s\<rparr>,
        pressure := \<lparr>previous_pressure = p, current_pressure = p\<rparr>\<rparr>"
    have c: "content_of (layers s) (active_layer s) = content (layers s ! k)"
      using content_of_nth [of "layers s" k] inv(1) k by (simp add: layers_inv_def)
    have less: "a < length (actions s)" if "a \<in> set (undo s) \<union> set (redo s)" for a
      using stacks_less inv(3) that unfolding history_inv_def by blast
    then have fresh: "length (actions s) \<notin> set (undo s) \<union> set (redo s)"
      by blast
    have old: "(actions s @ [?x]) ! a = actions s ! a" if "a \<in> set (undo s) \<union> set (redo s)" for a
      using less [OF that] by (simp add: nth_append)
    have "history_inv ?s"
      using inv(3) stacks_ok_store [of _ "actions s" "undo s" "redo s" "actions s @ [?x]", OF _ _ old]
        chains_ok_cong [of "undo s" "redo s" "actions s @ [?x]" "actions s"] old
      by (simp add: history_inv_def new_action_def)
    moreover have "pending_inv ?s"
      using fresh c k(2) by (simp add: pending_inv_def new_action_def)
    ultimately have s1: "state_inv ?s"
      using inv(1,2) by (simp add: state_inv_def layers_inv_def tools_inv_def new_action_def)
    have "safe (tool_mut (\<lambda>t. Inr (t\<lparr>last_position := Some (x, y)\<rparr>)) ?s :: ReplayState checked) state_inv"
    proof (rule safe_mono [OF tool_mut_only [OF state_invD(2) [OF s1]]])
      show "safe (Inr ((tool_states ?s ! unat (tool ?s - 1))\<lparr>last_position := Some (x, y)\<rparr>))
          (\<lambda>t. applied t \<noteq> None)"
        using inv(2) by (simp add: tools_inv_def new_action_def)
    qed (use inv_tools_only [OF s1] in blast)
    then show "safe (let layer = layers s ! k in
        if \<not> visible layer then Inl (Refused HiddenLayer)
        else
          let s = new_action \<lparr>action_event = index, action_kind = DrawAction (layer_id layer)
                    \<lparr>site_event = index, site_content = content layer\<rparr> None\<rparr> s;
              s = s\<lparr>pending := Some (length (actions s) - 1),
                    stroke := Some \<lparr>stroke_layer = layer_id layer, stroke_tool = tool s\<rparr>,
                    pressure := \<lparr>previous_pressure = p, current_pressure = p\<rparr>\<rparr>
          in tool_mut (\<lambda>t. Inr (t\<lparr>last_position := Some (x, y)\<rparr>)) s) state_inv"
      by (simp add: Let_def new_action_def)
  qed
qed

lemma pending_open:
  assumes "state_inv s" and "stroke s = Some st"
  obtains a l b where "pending s = Some a" and "a < length (actions s)"
    and "action_kind (actions s ! a) = DrawAction l b None"
    and "a \<notin> set (undo s)" and "a \<notin> set (redo s)"
    and "l = active_layer s" and "stroke_layer st = active_layer s" and "stroke_tool st = tool s"
    and "site_content b = content_of (layers s) (active_layer s)"
  using state_invD(4) [OF assms(1)] assms(2)
  by (auto simp: pending_inv_def split: option.splits HistoryActionKind.splits)

lemma safe_draw:
  assumes "state_inv s"
  shows "safe (draw x y p s) state_inv"
proof (cases "stroke s")
  case None
  then show ?thesis by (simp add: draw_def)
next
  case (Some st)
  let ?s = "s\<lparr>pressure := \<lparr>previous_pressure = current_pressure (pressure s), current_pressure = p\<rparr>\<rparr>"
  have s1: "state_inv ?s"
    using assms by (auto simp: state_inv_def layers_inv_def tools_inv_def history_inv_def
        pending_inv_def split: option.splits HistoryActionKind.splits)
  have "safe (tool_mut (\<lambda>t. Inr (t\<lparr>last_position := Some (x, y)\<rparr>)) ?s :: ReplayState checked) state_inv"
  proof (rule safe_mono [OF tool_mut_only [OF state_invD(2) [OF s1]]])
    show "safe (Inr ((tool_states ?s ! unat (tool ?s - 1))\<lparr>last_position := Some (x, y)\<rparr>))
        (\<lambda>t. applied t \<noteq> None)"
      using state_invD(2) [OF s1] by (simp add: tools_inv_def)
  qed (use inv_tools_only [OF s1] in blast)
  moreover have "stroke_layer st = active_layer s" "stroke_tool st = tool s"
    by (rule pending_open [OF assms Some], simp)+
  ultimately show ?thesis
    by (simp add: draw_def Some)
qed

lemma owners_one:
  assumes "a \<notin> set (undo s)" and "a \<notin> set (redo s)" and "pending s = Some a"
  shows "owners s a = 1"
  using assms by (simp add: owners_def)

lemma safe_commit:
  assumes "state_inv s"
  shows "safe (commit index s) (\<lambda>s'. state_inv s' \<and> stroke s' = None)"
proof (cases "stroke s")
  case None
  then show ?thesis by (simp add: commit_def)
next
  case (Some st)
  note inv = state_invD [OF assms]
  obtain a l b where p: "pending s = Some a" "a < length (actions s)"
    and kind: "action_kind (actions s ! a) = DrawAction l b None"
    and fresh: "a \<notin> set (undo s)" "a \<notin> set (redo s)"
    and l: "l = active_layer s" "stroke_layer st = active_layer s"
    and b: "site_content b = content_of (layers s) (active_layer s)"
    using pending_open [OF assms Some] by metis
  show ?thesis
    unfolding commit_def Some Let_def option.case
  proof (rule safe_layer_index_bind, goal_cases)
    case (1 k)
    then have k: "k < length (layers s)" "layer_id (layers s ! k) = l"
      using l by simp_all
    let ?c = "index + 1"
    define ls where "ls = (layers s)[k := (layers s ! k)\<lparr>content := ?c\<rparr>]"
    let ?x = "(actions s ! a)\<lparr>action_kind := DrawAction l b (Some \<lparr>site_event = index, site_content = ?c\<rparr>)\<rparr>"
    define h where "h = (actions s)[a := ?x]"
    let ?s = "s\<lparr>stroke := None, layers := ls, actions := h, undo := kept (undo s @ [a]), redo := []\<rparr>"
    have map_ids: "map layer_id ls = map layer_id (layers s)"
      unfolding ls_def by (rule map_update_same) simp
    have ids: "layer_ids ls = layer_ids (layers s)"
      using map_ids by (rule layer_ids_map)
    have cont: "content_of ls = (content_of (layers s))(l := ?c)"
      using content_of_update [of "layers s" k ?c] inv(1) k by (simp add: layers_inv_def ls_def)
    have lmem: "l \<in> layer_ids (layers s)"
      using k by (auto simp: layer_ids_def)
    have old: "h ! x = actions s ! x" if "x \<in> set (undo s) \<union> set (redo s)" for x
      using that fresh by (cases "x = a") (auto simp: h_def)
    have st: "stacks_ok (layer_ids (layers s)) h (undo s) (redo s)"
      by (rule stacks_ok_store [OF _ _ old]) (use inv(3) in \<open>simp_all add: history_inv_def h_def\<close>)
    have ch: "chains_ok h (content_of (layers s)) (undo s) (redo s)"
      using inv(3) chains_ok_cong [of "undo s" "redo s" h "actions s"] old by (simp add: history_inv_def)
    have ha: "length h = length (actions s)"
        "action_kind (h ! a) = DrawAction l b (Some \<lparr>site_event = index, site_content = ?c\<rparr>)"
      using p(2) by (simp_all add: h_def)
    have "chain_undo h (content_of ls) (a # rev (undo s))"
      unfolding cont using ch ha b l(1) by (simp add: chains_ok_def)
    then have "history_inv ?s"
      using stacks_push [OF st fresh(1), unfolded ha, OF p(2)] lmem
      by (simp add: history_inv_def ids chains_push)
    moreover have "layers_inv ?s" and "tools_inv ?s"
      using inv(1,2) ids map_ids by (auto simp: layers_inv_def tools_inv_def ls_def)
    moreover have "pending_inv ?s"
      using p ha by (simp add: pending_inv_def)
    ultimately have "state_inv ?s" by (simp add: state_inv_def)
    then show ?case
      using p fresh kind k(1) by (simp add: owners_def push_eq ls_def h_def)
  qed
qed

section \<open>Layer opacity and the history\<close>

lemma set_alphas_safe:
  "set is \<subseteq> layer_ids ls \<Longrightarrow>
     safe (set_alphas a is ls) (\<lambda>(before, ls'). map fst before = is \<and> same_layers ls ls')"
proof (induction "is" arbitrary: ls)
  case Nil
  then show ?case by (simp add: same_layers_def)
next
  case (Cons i "is")
  show ?case
    unfolding set_alphas.simps
  proof (rule safe_layer_index_bind)
    fix k
    assume k: "k < length ls"
    let ?ls = "ls[k := (ls ! k)\<lparr>layer_alpha := a\<rparr>]"
    have same: "same_layers ls ?ls"
      by (rule same_layers_update) simp_all
    have "set is \<subseteq> layer_ids ?ls"
      using Cons.prems layer_ids_map [OF same_layers_ids [OF same]] by simp
    from Cons.IH [OF this]
    show "safe (bindE (set_alphas a is ?ls) (\<lambda>(before, ls'). Inr ((i, layer_alpha (ls ! k)) # before, ls')))
        (\<lambda>(before, ls'). map fst before = i # is \<and> same_layers ls ls')"
      by (rule safe_bindE) (auto intro: same_layers_trans [OF same])
  qed
qed

lemma restore_alphas_safe:
  "safe (restore_alphas r a bs ls) (same_layers ls)"
proof (induction r a bs ls rule: restore_alphas.induct)
  case (1 r a ls)
  then show ?case by (simp add: same_layers_def)
next
  case (2 r a i old rest ls)
  show ?case
    unfolding restore_alphas.simps
  proof (rule safe_bindE [of _ "\<lambda>k. layer_index i ls = Inr k"])
    show "safe (layer_index i ls) (\<lambda>k. layer_index i ls = Inr k)"
      by (auto simp: layer_index_def split: option.splits)
    fix k
    assume k: "layer_index i ls = Inr k"
    let ?ls = "ls[k := (ls ! k)\<lparr>layer_alpha := (if r then a else old)\<rparr>]"
    have "same_layers ls ?ls"
      by (rule same_layers_update) simp_all
    then show "safe (restore_alphas r a rest ?ls) (same_layers ls)"
      by (intro safe_mono [OF 2 [OF k]]) (rule same_layers_trans)
  qed
qed

lemma safe_record_alpha:
  assumes "state_inv s" and "stroke s = None" and "fst ` set before \<subseteq> layer_ids (layers s)"
  shows "safe (record_alpha index a before s) state_inv"
proof -
  note inv = state_invD [OF assms(1)]
  have pushed: "state_inv (push (length (actions s))
      (new_action \<lparr>action_event = index, action_kind = AlphaAction before a\<rparr> s))"
    using inv_push_new [OF assms(1,2), of "\<lparr>action_event = index, action_kind = AlphaAction before a\<rparr>"]
      assms(3) by simp
  have coalesced: "owners s l = 1 \<and> state_inv (s\<lparr>actions := (actions s)[l := (actions s ! l)
        \<lparr>action_kind := AlphaAction previous a\<rparr>]\<rparr>)"
    if u: "undo s \<noteq> []" and l: "l = last (undo s)" and kind: "action_kind (actions s ! l) = AlphaAction previous old"
    for l previous old
  proof
    note h = inv(3) [unfolded history_inv_def]
    have mem: "l \<in> set (undo s)" using u l by simp
    have dist: "distinct (undo s @ redo s)" using h by (simp add: stacks_ok_def)
    then have "count_list (undo s) l = 1" "count_list (redo s) l = 0"
      using mem by (auto simp: count_list_0_iff count_list_eq_length_filter distinct_length_filter)
    moreover have "pending s \<noteq> Some l"
      using inv(4) kind by (auto simp: pending_inv_def split: option.splits)
    ultimately show "owners s l = 1" by (simp add: owners_def)
    let ?h = "(actions s)[l := (actions s ! l)\<lparr>action_kind := AlphaAction previous a\<rparr>]"
    have len: "l < length (actions s)"
      using h mem stacks_less by blast
    have hk: "action_kind (?h ! x) = (if x = l then AlphaAction previous a else action_kind (actions s ! x))" for x
      using len by (cases "x = l") auto
    have "stacks_ok (layer_ids (layers s)) ?h (undo s) (redo s)"
    proof (rule stacks_okI)
      have ok: "action_ok (layer_ids (layers s)) (AlphaAction previous old)"
        using h mem kind by (metis UnCI stacks_ok_def)
      show "x < length ?h \<and> action_ok (layer_ids (layers s)) (action_kind (?h ! x))"
        if "x \<in> set (undo s) \<union> set (redo s)" for x
        using h that ok unfolding hk by (auto simp: stacks_ok_def)
      show "\<not> is_add (action_kind (?h ! x))" if "x \<in> set (redo s)" for x
        using h that unfolding hk by (auto simp: stacks_ok_def)
    qed (use h in \<open>simp_all add: stacks_ok_def\<close>)
    moreover have "chains_ok ?h (content_of (layers s)) (undo s) (redo s)"
      using h chains_ok_cong [of "undo s" "redo s" ?h "actions s" "content_of (layers s)"] kind
      by (simp add: hk)
    moreover have "pending_inv (s\<lparr>actions := ?h\<rparr>)"
      using inv(4) kind assms(2)
      by (auto simp: pending_inv_def hk split: option.splits HistoryActionKind.splits)
    ultimately show "state_inv (s\<lparr>actions := ?h\<rparr>)"
      using inv(1,2) by (simp add: state_inv_def layers_inv_def tools_inv_def history_inv_def)
  qed
  show ?thesis
    unfolding record_alpha_def Let_def using pushed coalesced [OF _ refl]
    by (auto split: HistoryActionKind.split)
qed

lemma safe_alpha_event:
  assumes "state_inv s" and "stroke s = None"
  shows "safe (alpha_event index a s) state_inv"
proof (cases "\<not> f32_unit a \<or> selected_layers s = []")
  case True
  then show ?thesis by (auto simp: alpha_event_def)
next
  case False
  have sel: "set (selected_layers s) \<subseteq> layer_ids (layers s)"
    using assms(1) by (simp add: state_inv_def layers_inv_def)
  have recorded: "safe (record_alpha index a before (s\<lparr>layers := ls\<rparr>)) state_inv"
    if "map fst before = selected_layers s" and same: "same_layers (layers s) ls" for before ls
  proof (rule safe_record_alpha)
    show "state_inv (s\<lparr>layers := ls\<rparr>)"
      by (rule inv_same_layers [OF assms(1) same])
    show "fst ` set before \<subseteq> layer_ids (layers (s\<lparr>layers := ls\<rparr>))"
      using sel layer_ids_map [OF same_layers_ids [OF same]] arg_cong [OF that(1), of set] by simp
  qed (simp add: assms(2))
  show ?thesis
    unfolding alpha_event_def if_not_P [OF False]
    by (rule safe_bindE [OF set_alphas_safe [OF sel]]) (use recorded in auto)
qed

text \<open>What a step of the history does: the top action moves over and its drawing is set back.\<close>

definition stack_of :: "bool \<Rightarrow> ReplayState \<Rightarrow> nat list" where
  "stack_of r s = (if r then redo s else undo s)"

fun replayed :: "bool \<Rightarrow> HistoryActionKind \<Rightarrow> (u8 \<Rightarrow> nat) \<Rightarrow> (u8 \<Rightarrow> nat)" where
  "replayed r (DrawAction l b (Some af)) c = c(l := site_content (if r then af else b))"
| "replayed r k c = c"

definition history_result :: "bool \<Rightarrow> ReplayState \<Rightarrow> ReplayState \<Rightarrow> bool" where
  "history_result r s s' \<longleftrightarrow>
     (\<exists>ls act sel. s' = s\<lparr>layers := ls, active_layer := act, selected_layers := sel,
          undo := (if r then undo s @ [last (redo s)] else butlast (undo s)),
          redo := (if r then butlast (redo s) else redo s @ [last (undo s)])\<rparr>
        \<and> map layer_id ls = map layer_id (layers s)
        \<and> content_of ls = replayed r (action_kind (actions s ! last (stack_of r s))) (content_of (layers s))
        \<and> act \<in> layer_ids (layers s) \<and> set sel \<subseteq> layer_ids (layers s) \<and> distinct sel)"

lemma restore_alphas_progress:
  "fst ` set bs \<subseteq> layer_ids ls \<Longrightarrow> \<exists>ls'. restore_alphas r a bs ls = Inr ls'"
proof (induction r a bs ls rule: restore_alphas.induct)
  case (2 r a i old rest ls)
  then obtain k where k: "layer_index i ls = Inr k"
    using layer_index_ex [of i ls] by auto
  let ?ls = "ls[k := (ls ! k)\<lparr>layer_alpha := (if r then a else old)\<rparr>]"
  have "layer_ids ?ls = layer_ids ls"
    by (rule layer_ids_map [OF same_layers_ids [OF same_layers_update]]) simp_all
  then show ?case
    using 2 k by (simp only: restore_alphas.simps bindE_Inr) simp
qed simp

lemma top_action:
  assumes "state_inv s" and "stack_of r s \<noteq> []"
  shows "action_ok (layer_ids (layers s)) (action_kind (actions s ! last (stack_of r s)))"
proof -
  have "last (stack_of r s) \<in> set (undo s) \<union> set (redo s)"
    using last_in_set [OF assms(2)] by (auto simp: stack_of_def split: if_splits)
  then show ?thesis
    using state_invD(3) [OF assms(1)] unfolding history_inv_def stacks_ok_def by blast
qed

lemma history_unfold:
  "stack_of r s \<noteq> [] \<Longrightarrow> history r s =
     bindE (case action_kind (actions s ! last (stack_of r s)) of
            AddLayerAction _ \<Rightarrow> Inl (Refused AddHistoryBoundary)
          | DrawAction l before after \<Rightarrow>
              (case (if r then after else Some before) of
                 None \<Rightarrow> Inl Panicked
               | Some snapshot \<Rightarrow>
                   bindE (layer_index l (layers s)) (\<lambda>k.
                   activate l (s\<lparr>layers := (layers s)
                     [k := (layers s ! k)\<lparr>content := site_content snapshot\<rparr>]\<rparr>)))
          | AlphaAction before new_alpha \<Rightarrow>
              bindE (restore_alphas r new_alpha before (layers s)) (\<lambda>ls. Inr (s\<lparr>layers := ls\<rparr>))
          | DummyAction \<Rightarrow> Inr s) (\<lambda>s'.
        Inr (if r then s'\<lparr>redo := butlast (redo s'), undo := undo s' @ [last (stack_of r s)]\<rparr>
             else s'\<lparr>undo := butlast (undo s'), redo := redo s' @ [last (stack_of r s)]\<rparr>))"
  unfolding history_def Let_def stack_of_def by (cases r) (simp_all only: if_True if_False)

lemma history_progress:
  assumes "state_inv s" and "stack_of r s \<noteq> []"
    and "\<not> is_add (action_kind (actions s ! last (stack_of r s)))"
  shows "\<exists>s'. history r s = Inr s' \<and> history_result r s s'"
proof -
  let ?a = "last (stack_of r s)"
  note inv = state_invD [OF assms(1)]
  note ok = top_action [OF assms(1,2)]
  have a: "?a = (if r then last (redo s) else last (undo s))"
    by (simp add: stack_of_def)
  have same: "active_layer s \<in> layer_ids (layers s)" "set (selected_layers s) \<subseteq> layer_ids (layers s)"
      "distinct (selected_layers s)"
    using inv(1) by (simp_all add: layers_inv_def)
  show ?thesis
  proof (cases "action_kind (actions s ! ?a)")
    case (DrawAction l b after)
    then obtain af where af: "after = Some af" and l: "l \<in> layer_ids (layers s)"
      using ok by (cases after) auto
    then obtain k where k: "layer_index l (layers s) = Inr k"
      using layer_index_ex by blast
    let ?c = "site_content (if r then af else b)"
    let ?ls = "(layers s)[k := (layers s ! k)\<lparr>content := ?c\<rparr>]"
    have ids: "map layer_id ?ls = map layer_id (layers s)"
      by (rule map_update_same) simp
    have cont: "content_of ?ls = (content_of (layers s))(l := ?c)"
      using content_of_update [of "layers s" k ?c] inv(1) layer_index_Inr [OF k] by (simp add: layers_inv_def)
    have "l \<noteq> 0" using inv(1) l by (auto simp: layers_inv_def)
    then have act: "activate l (s\<lparr>layers := ?ls\<rparr>) = Inr (s\<lparr>layers := ?ls, active_layer := l, selected_layers := [l]\<rparr>)"
      using activate_existing [of l "s\<lparr>layers := ?ls\<rparr>"] layer_ids_map [OF ids] l by simp
    show ?thesis
      unfolding history_unfold [OF assms(2)] DrawAction af
      using k act ids cont l a DrawAction af
      by (cases r) (auto simp: history_result_def intro!: exI [of _ ?ls] exI [of _ l] exI [of _ "[l]"])
  next
    case (AlphaAction before new_alpha)
    then obtain ls where ls: "restore_alphas r new_alpha before (layers s) = Inr ls"
      using restore_alphas_progress ok by fastforce
    then have sl: "same_layers (layers s) ls"
      using restore_alphas_safe safeD by metis
    then have cont: "content_of ls = content_of (layers s)"
      by (intro content_of_map) (simp add: same_layers_def)
    show ?thesis
      unfolding history_unfold [OF assms(2)] AlphaAction
      using ls same same_layers_ids [OF sl] cont a AlphaAction
      by (cases r) (auto simp: history_result_def intro!: exI [of _ ls] exI [of _ "active_layer s"]
          exI [of _ "selected_layers s"])
  next
    case (AddLayerAction l)
    then show ?thesis using assms(3) by simp
  next
    case DummyAction
    then show ?thesis
      unfolding history_unfold [OF assms(2)] using same a
      by (cases r) (auto simp: history_result_def intro!: exI [of _ "layers s"] exI [of _ "active_layer s"]
          exI [of _ "selected_layers s"])
  qed
qed

lemma history_cases:
  assumes "state_inv s"
  shows "history r s = Inl (Refused EmptyHistory) \<and> stack_of r s = []
    \<or> history r s = Inl (Refused AddHistoryBoundary) \<and> stack_of r s \<noteq> []
        \<and> is_add (action_kind (actions s ! last (stack_of r s)))
    \<or> (\<exists>s'. history r s = Inr s' \<and> stack_of r s \<noteq> []
        \<and> \<not> is_add (action_kind (actions s ! last (stack_of r s))) \<and> history_result r s s')"
proof (cases "stack_of r s = []")
  case True
  then show ?thesis by (auto simp: history_def stack_of_def Let_def split: if_splits)
next
  case False
  show ?thesis
  proof (cases "is_add (action_kind (actions s ! last (stack_of r s)))")
    case True
    then show ?thesis
      using False history_unfold [OF False]
      by (cases "action_kind (actions s ! last (stack_of r s))") simp_all
  next
    case noadd: False
    then show ?thesis
      using history_progress [OF assms False] False by blast
  qed
qed


lemma chains_replayed:
  assumes "action_ok I (action_kind (h ! a))"
  shows "chains_ok h c (u @ [a]) r \<Longrightarrow> chains_ok h (replayed False (action_kind (h ! a)) c) u (r @ [a])"
    and "chains_ok h c u (r @ [a]) \<Longrightarrow> chains_ok h (replayed True (action_kind (h ! a)) c) (u @ [a]) r"
  using assms by (cases "action_kind (h ! a)" rule: draw_part.cases; auto simp: chains_ok_def split: option.splits)+

lemma inv_history_result:
  assumes "state_inv s" and "stroke s = None" and "history_result r s s'"
    and "stack_of r s \<noteq> []" and "\<not> is_add (action_kind (actions s ! last (stack_of r s)))"
  shows "state_inv s'"
proof -
  note inv = state_invD [OF assms(1)]
  let ?a = "last (stack_of r s)" and ?h = "actions s"
  obtain ls act sel where s': "s' = s\<lparr>layers := ls, active_layer := act, selected_layers := sel,
          undo := (if r then undo s @ [last (redo s)] else butlast (undo s)),
          redo := (if r then butlast (redo s) else redo s @ [last (undo s)])\<rparr>"
    and ids: "map layer_id ls = map layer_id (layers s)"
    and cont: "content_of ls = replayed r (action_kind (?h ! ?a)) (content_of (layers s))"
    and act: "act \<in> layer_ids (layers s)" "set sel \<subseteq> layer_ids (layers s)" "distinct sel"
    using assms(3) unfolding history_result_def by blast
  have I: "layer_ids ls = layer_ids (layers s)"
    using ids by (rule layer_ids_map)
  have len: "length ls = length (layers s)"
    using ids by (metis length_map)
  have "stacks_ok (layer_ids ls) ?h (undo s') (redo s') \<and> chains_ok ?h (content_of ls) (undo s') (redo s')"
  proof (cases r)
    case True
    then have st: "redo s = butlast (redo s) @ [?a]" "?a = last (redo s)"
      using assms(4) by (simp_all add: stack_of_def)
    have "chains_ok ?h (content_of (layers s)) (undo s) (butlast (redo s) @ [?a])"
      "stacks_ok (layer_ids ls) ?h (undo s) (butlast (redo s) @ [?a])"
      using inv(3) unfolding st(1) [symmetric] I by (simp_all add: history_inv_def)
    then show ?thesis
      using chains_replayed(2) [OF top_action [OF assms(1,4)]] stacks_move [OF assms(5)] True st(2) cont s'
      by simp
  next
    case False
    then have st: "undo s = butlast (undo s) @ [?a]" "?a = last (undo s)"
      using assms(4) by (simp_all add: stack_of_def)
    have "chains_ok ?h (content_of (layers s)) (butlast (undo s) @ [?a]) (redo s)"
      "stacks_ok (layer_ids ls) ?h (butlast (undo s) @ [?a]) (redo s)"
      using inv(3) unfolding st(1) [symmetric] I by (simp_all add: history_inv_def)
    then show ?thesis
      using chains_replayed(1) [OF top_action [OF assms(1,4)]] stacks_move [OF assms(5)] False st(2) cont s'
      by simp
  qed
  then have "history_inv s'"
    by (simp add: history_inv_def s')
  moreover have "layers_inv s'" and "tools_inv s'"
    using inv(1,2) act ids I len by (simp_all add: s' layers_inv_def tools_inv_def)
  moreover have "pending_inv s'"
    using inv(4) assms(2) by (auto simp: s' pending_inv_def split: option.splits HistoryActionKind.splits)
  ultimately show ?thesis
    by (simp add: state_inv_def)
qed

lemma safe_history:
  assumes "state_inv s" and "stroke s = None"
  shows "safe (history r s) state_inv"
  using history_cases [OF assms(1), of r] inv_history_result [OF assms] by auto

text \<open>Undo and redo are inverse on the contents of the layers and on both stacks.\<close>

lemma replayed_inverse:
  assumes "action_ok I (action_kind (h ! a))"
  shows "chains_ok h c (u @ [a]) r \<Longrightarrow>
      replayed True (action_kind (h ! a)) (replayed False (action_kind (h ! a)) c) = c"
    and "chains_ok h c u (r @ [a]) \<Longrightarrow>
      replayed False (action_kind (h ! a)) (replayed True (action_kind (h ! a)) c) = c"
  using assms by (cases "action_kind (h ! a)" rule: draw_part.cases; auto simp: chains_ok_def split: option.splits)+

lemma history_inverse:
  assumes "state_inv s" and "stroke s = None" and "history r s = Inr s'"
  shows "\<exists>s''. history (\<not> r) s' = Inr s'' \<and> undo s'' = undo s \<and> redo s'' = redo s
    \<and> actions s'' = actions s \<and> map layer_id (layers s'') = map layer_id (layers s)
    \<and> content_of (layers s'') = content_of (layers s)"
proof -
  let ?a = "last (stack_of r s)"
  have st: "stack_of r s \<noteq> []" "\<not> is_add (action_kind (actions s ! ?a))" "history_result r s s'"
    using history_cases [OF assms(1), of r] assms(3) by auto
  have inv': "state_inv s'"
    by (rule inv_history_result [OF assms(1,2) st(3,1,2)])
  have s': "undo s' = (if r then undo s @ [?a] else butlast (undo s))"
      "redo s' = (if r then butlast (redo s) else redo s @ [?a])" "actions s' = actions s"
      "map layer_id (layers s') = map layer_id (layers s)"
      "content_of (layers s') = replayed r (action_kind (actions s ! ?a)) (content_of (layers s))"
    using st(3) by (auto simp: history_result_def stack_of_def)
  have top: "stack_of (\<not> r) s' \<noteq> []" "last (stack_of (\<not> r) s') = ?a"
    using s' by (auto simp: stack_of_def)
  obtain s'' where h: "history (\<not> r) s' = Inr s''" "history_result (\<not> r) s' s''"
    using history_progress [OF inv' top(1)] st(2) s'(3) top(2) by auto
  have s'': "undo s'' = undo s" "redo s'' = redo s" "actions s'' = actions s"
      "map layer_id (layers s'') = map layer_id (layers s)"
    using h(2) s' st(1) by (auto simp: history_result_def stack_of_def split: if_splits)
  have "content_of (layers s'') = replayed (\<not> r) (action_kind (actions s ! ?a))
      (replayed r (action_kind (actions s ! ?a)) (content_of (layers s)))"
    using h(2) s' top(2) by (auto simp: history_result_def)
  also have "\<dots> = content_of (layers s)"
  proof (cases r)
    case True
    then have "redo s = butlast (redo s) @ [?a]"
      using st(1) by (simp add: stack_of_def)
    then have "chains_ok (actions s) (content_of (layers s)) (undo s) (butlast (redo s) @ [?a])"
      using state_invD(3) [OF assms(1)] by (simp add: history_inv_def)
    then show ?thesis
      using replayed_inverse(2) [OF top_action [OF assms(1) st(1)]] True by simp
  next
    case False
    then have "undo s = butlast (undo s) @ [?a]"
      using st(1) by (simp add: stack_of_def)
    then have "chains_ok (actions s) (content_of (layers s)) (butlast (undo s) @ [?a]) (redo s)"
      using state_invD(3) [OF assms(1)] by (simp add: history_inv_def)
    then show ?thesis
      using replayed_inverse(1) [OF top_action [OF assms(1) st(1)]] False by simp
  qed
  finally show ?thesis
    using h(1) s'' by blast
qed

section \<open>Events and runs\<close>

lemma safe_coordinates: "safe (coordinates r x y) (\<lambda>_. True)"
  by (simp add: coordinates_def)

lemma safe_event:
  assumes "state_inv s"
  shows "safe (event r index e s) state_inv"
proof (cases "stroke s")
  case None
  have add: "state_inv (push (length (actions s)) (new_action \<lparr>action_event = index, action_kind = DummyAction\<rparr> s))"
    using inv_push_new [OF assms None, of "\<lparr>action_event = index, action_kind = DummyAction\<rparr>"] by simp
  show ?thesis
    unfolding event_def None
    by (cases e) (simp_all add: add assms safe_toggle_visibility safe_toggle_selection
        safe_bindE [OF safe_coordinates] safe_start safe_draw safe_history [OF assms None]
        safe_add_layer [OF assms None] safe_activate [OF assms None] safe_tools [OF assms None]
        safe_alpha_event [OF assms None] safe_mono [OF safe_commit [OF assms]]
        del: tool_event.simps)
next
  case (Some st)
  show ?thesis
    unfolding event_def Some
    by (cases e) (simp_all add: assms safe_bindE [OF safe_coordinates] safe_start safe_draw
        safe_mono [OF safe_commit [OF assms]])
qed

lemma fail_at_Inr [simp]: "fail_at i m = Inr x \<longleftrightarrow> m = Inr x"
  by (auto simp: fail_at_def split: sum.splits stop.splits)

lemma safe_fail_at: "safe m P \<Longrightarrow> safe (fail_at i m) P"
  by (auto simp: safe_def fail_at_def split: sum.splits stop.splits)

definition run_inv :: "u32 \<times> ReplayState \<Rightarrow> bool" where
  "run_inv ps \<longleftrightarrow> state_inv (snd ps)"

interpretation core: event_machine "event_step r" run_inv "\<lambda>_. True" for r
proof
  fix ps ie
  assume "run_inv ps"
  then show "safe (event_step r ps ie) run_inv"
    by (cases ps; cases ie)
      (auto simp: event_step_def Let_def run_inv_def intro!: safe_bindE [OF safe_fail_at [OF safe_event]])
qed

lemma inv_new_state:
  assumes "length (tools r) = 8" and "supported_tool (meta_tool_id (metadata r))"
  shows "safe (new_state r :: 'e stop + ReplayState) (\<lambda>s. state_inv s \<and> stroke s = None \<and> length (layers s) = 1
     \<and> content_of (layers s) = (\<lambda>_. 0))"
proof -
  let ?s = "\<lparr>tool_states = map (\<lambda>m. \<lparr>tool_map = m, preserve_alpha = False, applied = None,
                               last_position = None\<rparr>) (tools r),
       tool = meta_tool_id (metadata r),
       state_color = color (metadata r),
       layers = [\<lparr>layer_id = 1, visible = True, layer_alpha = ONE, content = 0\<rparr>],
       layer_counter = 1, active_layer = 1, selected_layers = [1],
       undo = [], redo = [], pending = None, stroke = None,
       pressure = \<lparr>previous_pressure = Encoded 0, current_pressure = Encoded 0\<rparr>,
       actions = []\<rparr>"
  have "safe (select_tool (meta_tool_id (metadata r)) ?s) (tools_only ?s)"
    using assms by (intro select_tool_only) simp_all
  moreover have "state_inv s \<and> stroke s = None \<and> length (layers s) = 1 \<and> content_of (layers s) = (\<lambda>_. 0)"
    if only: "tools_only ?s s" for s
  proof -
    obtain ts t c where s: "s = ?s\<lparr>tool_states := ts, tool := t, state_color := c\<rparr>"
      using only unfolding tools_only_def by blast
    have "tools_inv s" using only by (simp add: tools_only_def)
    then show ?thesis
      by (auto simp: s state_inv_def layers_inv_def history_inv_def pending_inv_def layer_ids_def
          stacks_ok_def chains_ok_def content_of_def)
  qed
  ultimately show ?thesis
    unfolding new_state_def by (rule safe_mono)
qed

lemma length_source_steps: "length SOURCE_STEPS = 8"
  by (simp add: SOURCE_STEPS_def)

lemma safe_tool_checks: "i + length ts \<le> 8 \<Longrightarrow> safe (tool_checks i ts) (\<lambda>_. True)"
  by (induction i ts rule: tool_checks.induct)
    (auto simp: tool_check_def length_source_steps intro!: safe_bindE [of _ "\<lambda>_. True"])

text \<open>The check as one run.\<close>

lemma refuse_if: "(if b then Inl e else m) = Inr y \<longleftrightarrow> \<not> b \<and> m = Inr y"
  by simp

lemma bindE_snd: "bindE m (\<lambda>(_, s). Inr s) = Inr y \<longleftrightarrow> (\<exists>t. m = Inr (t, y))"
  by (cases m) auto

lemma bindE_unit: "bindE m (\<lambda>_::unit. k) = Inr y \<longleftrightarrow> m = Inr () \<and> k = Inr y"
  by (cases m) auto

lemma supported_range: "supported_tool i \<Longrightarrow> 1 \<le> i \<and> i \<le> 8"
  by (auto simp: supported_tool_def)

lemma check_core_v1_Inr:
  assumes "check_core_v1 r = Inr s" and "length (tools r) = 8"
  obtains s0 t where "supported_tool (meta_tool_id (metadata r))" and "2 \<le> length (events r)"
    and "length (events r) \<le> 16384" and "metadata_ok (metadata r)" and "candidate_profile r = 1"
    and "tool_checks 0 (tools r) = Inr ()"
    and "started_at_seconds (metadata r) \<le> ended_at_seconds (metadata r)"
    and "unat (ended_at_seconds (metadata r)) - unat (started_at_seconds (metadata r)) \<le> 86400"
    and "timestamp_ms (events r ! 0) < timestamp_ms (last (events r))"
    and "unat (timestamp_ms (last (events r))) - unat (timestamp_ms (events r ! 0)) \<le> 86400000"
    and "(new_state r :: ReplayStateError stop + ReplayState) = Inr s0" and "state_inv s0" and "stroke s0 = None"
    and "length (layers s0) = 1" and "content_of (layers s0) = (\<lambda>_. 0)"
    and "foldE (event_step r) (timestamp_ms (events r ! 0), s0) (enumerate 0 (events r)) = Inr (t, s)"
proof -
  have sec: "(case checked_sub b a of None \<Rightarrow> True | Some d \<Rightarrow> d > k) \<longleftrightarrow> \<not> (a \<le> b \<and> b - a \<le> k)"
    for a b k :: nat
    by (auto simp: checked_sub_def)
  have ms: "(case checked_sub b a of None \<Rightarrow> False | Some d \<Rightarrow> 1 \<le> d \<and> d \<le> k) \<longleftrightarrow> (a < b \<and> b - a \<le> k)"
    for a b k :: nat
    by (auto simp: checked_sub_def)
  have day: "unat (MAX_DURATION_MS div 1000) = 86400" "unat MAX_DURATION_MS = 86400000"
    by simp_all
  obtain s0 t where *: "candidate_profile r = 1" "1 \<le> width (metadata r)" "width (metadata r) \<le> 1024"
      "1 \<le> height (metadata r)" "height (metadata r) \<le> 1024"
      "2 \<le> length (events r)" "length (events r) \<le> 16384"
      "supported_tool (meta_tool_id (metadata r))"
      "unat (started_at_seconds (metadata r)) \<le> unat (ended_at_seconds (metadata r))"
      "unat (ended_at_seconds (metadata r)) - unat (started_at_seconds (metadata r)) \<le> 86400"
      "unat (timestamp_ms (events r ! 0)) < unat (timestamp_ms (last (events r)))"
      "unat (timestamp_ms (last (events r))) - unat (timestamp_ms (events r ! 0)) \<le> 86400000"
      "tool_checks 0 (tools r) = Inr ()" "(new_state r :: ReplayStateError stop + ReplayState) = Inr s0"
      "foldE (event_step r) (timestamp_ms (events r ! 0), s0) (enumerate 0 (events r)) = Inr (t, s)"
    using assms(1) unfolding check_core_v1_def Let_def refuse_if sec ms day bindE_snd
      bindE_unit bindE_eq_Inr [of "new_state r"] fail_at_Inr
      CANDIDATE_PROFILE_def MAX_CANVAS_SIDE_def MAX_EVENTS_def de_Morgan_disj not_not
    by (elim exE conjE) (rule that; assumption)
  moreover have "state_inv s0 \<and> stroke s0 = None \<and> length (layers s0) = 1 \<and> content_of (layers s0) = (\<lambda>_. 0)"
    by (rule safeD [OF inv_new_state [OF assms(2) *(8)] *(14)])
  moreover have "metadata_ok (metadata r)"
    using * supported_range by (simp add: metadata_ok_def)
  ultimately show thesis
    by (intro that [of s0 t]) (simp_all add: word_le_nat_alt word_less_nat_alt)
qed

lemma list_all_True: "list_all (\<lambda>_. True) xs"
  by (simp add: list_all_length)

lemma check_core_v1_never_panics:
  assumes "length (tools r) = 8"
  shows "check_core_v1 r \<noteq> Inl Panicked"
proof -
  let ?t = "timestamp_ms (events r ! 0)"
  have run: "safe (bindE (new_state r) (\<lambda>s. bindE (foldE (event_step r) (?t, s) (enumerate 0 (events r)))
      (\<lambda>(_, s). Inr s))) state_inv" if "supported_tool (meta_tool_id (metadata r))"
  proof (rule safe_bindE [OF inv_new_state [OF assms that]])
    fix s
    assume "state_inv s \<and> stroke s = None \<and> length (layers s) = 1 \<and> content_of (layers s) = (\<lambda>_. 0)"
    then have "safe (foldE (event_step r) (?t, s) (enumerate 0 (events r))) run_inv"
      by (intro core.run_safe list_all_True) (simp add: run_inv_def)
    then show "safe (bindE (foldE (event_step r) (?t, s) (enumerate 0 (events r))) (\<lambda>(_, s). Inr s)) state_inv"
      by (rule safe_bindE) (auto simp: run_inv_def)
  qed
  have "safe (tool_checks 0 (tools r)) (\<lambda>_. True)"
    using assms by (intro safe_tool_checks) simp
  then have "safe (check_core_v1 r) (\<lambda>_. True)"
    unfolding check_core_v1_def Let_def
    by (auto intro!: safe_bindE [OF safe_fail_at] safe_mono [OF run])
  then show ?thesis by (auto simp: safe_def)
qed

text \<open>The last event is the conclusion, which an open stroke refuses: the run ends between strokes.\<close>

lemma event_step_Inr:
  "event_step r (t, s) (i, e) = Inr (t', s') \<longleftrightarrow>
     (i = 0 \<longleftrightarrow> kind e = Prelude) \<and> (i = length (events r) - 1 \<longleftrightarrow> kind e = Conclusion)
       \<and> t \<le> timestamp_ms e \<and> t' = timestamp_ms e \<and> event r i (kind e) s = Inr s'"
  by (auto simp: event_step_def Let_def bindE_eq_Inr split: if_split_asm)

lemma run_step_iff:
  "foldE (event_step r) (t, s) (enumerate i (e # es)) = Inr ps \<longleftrightarrow>
     (i = 0 \<longleftrightarrow> kind e = Prelude) \<and> (i = length (events r) - 1 \<longleftrightarrow> kind e = Conclusion)
       \<and> t \<le> timestamp_ms e \<and> (\<exists>s'. event r i (kind e) s = Inr s'
         \<and> foldE (event_step r) (timestamp_ms e, s') (enumerate (Suc i) es) = Inr ps)"
  by (auto simp: bindE_eq_Inr event_step_Inr)

lemma conclusion_closed: "event r i Conclusion s = Inr s' \<Longrightarrow> s' = s \<and> stroke s = None"
  by (auto simp: event_def split: if_split_asm)

lemma run_closed:
  "foldE (event_step r) (t, s) (enumerate i es) = Inr (t', s') \<Longrightarrow> es \<noteq> [] \<Longrightarrow>
     i + length es = length (events r) \<Longrightarrow> stroke s' = None"
proof (induction es arbitrary: i t s)
  case (Cons e es)
  show ?case
  proof (cases "es = []")
    case True
    then have "kind e = Conclusion" and "event r i (kind e) s = Inr s'"
      using Cons.prems unfolding run_step_iff by auto
    then show ?thesis using conclusion_closed by auto
  next
    case False
    then show ?thesis
      using Cons.IH [of _ _ "Suc i"] Cons.prems unfolding run_step_iff by auto
  qed
qed simp

lemma check_core_v1_inv:
  assumes "check_core_v1 r = Inr s" and "length (tools r) = 8"
  shows "state_inv s \<and> stroke s = None"
proof (rule check_core_v1_Inr [OF assms], goal_cases)
  case (1 s0 t)
  have "run_inv (t, s)"
    by (rule core.run_inv [OF _ list_all_True 1(16)]) (simp add: run_inv_def 1(12))
  moreover have "events r \<noteq> []" using 1(2) by auto
  ultimately show ?case
    using run_closed [OF 1(16)] by (simp add: run_inv_def)
qed

end
