(* ===== verification/ReplayHistory.thy ===== *)
theory ReplayHistory
  imports ReplayStateInv
begin

text \<open>
  What a step of the history does to the whole state, and that the opposite step takes it back: the
  undo and redo of \<open>crates/media/src/replay_state.rs\<close> as equations on the state.
\<close>

text \<open>The opacities an action recorded: those after it (\<open>True\<close>) or before it, the last entry of a layer counting.\<close>

definition recorded_alpha :: "bool \<Rightarrow> HistoryActionKind \<Rightarrow> LayerState \<Rightarrow> LayerState" where
  "recorded_alpha b k l =
     (case k of
        AlphaAction before new \<Rightarrow>
          (case map_of (rev before) (layer_id l) of
             None \<Rightarrow> l
           | Some old \<Rightarrow> l\<lparr>layer_alpha := (if b then new else old)\<rparr>)
      | _ \<Rightarrow> l)"

text \<open>The content a drawing left (\<open>True\<close>) or found on its layer.\<close>

definition recorded_content :: "bool \<Rightarrow> HistoryActionKind \<Rightarrow> LayerState \<Rightarrow> LayerState" where
  "recorded_content b k l =
     (case k of
        DrawAction i before after \<Rightarrow>
          if layer_id l = i then l\<lparr>content := site_content (if b then the after else before)\<rparr> else l
      | _ \<Rightarrow> l)"

definition focused :: "HistoryActionKind \<Rightarrow> ReplayState \<Rightarrow> ReplayState" where
  "focused k s = (case k of DrawAction i _ _ \<Rightarrow> s\<lparr>active_layer := i, selected_layers := [i]\<rparr> | _ \<Rightarrow> s)"

definition moved :: "bool \<Rightarrow> ReplayState \<Rightarrow> ReplayState" where
  "moved b s =
     (if b then s\<lparr>redo := butlast (redo s), undo := undo s @ [last (redo s)]\<rparr>
      else s\<lparr>undo := butlast (undo s), redo := redo s @ [last (undo s)]\<rparr>)"

lemma update_by_id:
  assumes "distinct (map layer_id ls)" "layer_index i ls = Inr k"
  shows "ls[k := f (ls ! k)] = map (\<lambda>l. if layer_id l = i then f l else l) ls"
proof (rule nth_equalityI)
  fix j
  assume j: "j < length (ls[k := f (ls ! k)])"
  have k: "k < length ls" "layer_id (ls ! k) = i"
    using layer_index_Inr [OF assms(2)] by simp_all
  have "layer_id (ls ! j) = i \<longleftrightarrow> j = k"
    using assms(1) k j nth_eq_iff_index_eq [of "map layer_id ls" j k] by auto
  then show "ls[k := f (ls ! k)] ! j = map (\<lambda>l. if layer_id l = i then f l else l) ls ! j"
    using j k by (cases "j = k") auto
qed simp

lemma recorded_alpha_id [simp]: "layer_id (recorded_alpha b k l) = layer_id l"
  by (simp add: recorded_alpha_def split: HistoryActionKind.split option.split)

lemma restore_alphas_exact:
  "distinct (map layer_id ls) \<Longrightarrow> restore_alphas b a before ls = Inr ls' \<Longrightarrow>
     ls' = map (recorded_alpha b (AlphaAction before a)) ls"
proof (induction b a before ls rule: restore_alphas.induct)
  case (1 b a ls)
  then show ?case by (simp add: recorded_alpha_def)
next
  case (2 b a i old rest ls)
  then obtain k where k: "layer_index i ls = Inr k"
    by (auto simp: result_simps)
  define f where "f l = l\<lparr>layer_alpha := (if b then a else old)\<rparr>" for l :: LayerState
  have step: "ls[k := f (ls ! k)] = map (\<lambda>l. if layer_id l = i then f l else l) ls"
    by (rule update_by_id [OF 2(2) k])
  have ids: "map layer_id (ls[k := f (ls ! k)]) = map layer_id ls"
    unfolding step by (simp add: f_def)
  have "ls' = map (recorded_alpha b (AlphaAction rest a)) (ls[k := f (ls ! k)])"
    using 2(1) [OF k] 2(2,3) k ids by (simp add: f_def)
  then show ?case
    unfolding step by (auto simp: recorded_alpha_def f_def map_add_def split: option.split)
qed

lemma history_exact:
  assumes "state_inv s" "history b s = Inr s'"
  shows "s' = moved b (focused (action_kind (actions s ! last (stack_of b s)))
    (s\<lparr>layers := map (recorded_content b (action_kind (actions s ! last (stack_of b s)))
       \<circ> recorded_alpha b (action_kind (actions s ! last (stack_of b s)))) (layers s)\<rparr>))"
proof -
  let ?k = "action_kind (actions s ! last (stack_of b s))"
  have ne: "stack_of b s \<noteq> []" and noadd: "\<not> is_add ?k"
    using history_cases [OF assms(1), of b] assms(2) by auto
  have d: "distinct (map layer_id (layers s))" and zero: "0 \<notin> layer_ids (layers s)"
    using state_invD(1) [OF assms(1)] by (auto simp: layers_inv_def)
  note ok = top_action [OF assms(1) ne]
  note h = assms(2) [unfolded history_unfold [OF ne]]
  have m: "t = moved b t'" if "Inr (if b then t'\<lparr>redo := butlast (redo t'), undo := undo t' @ [last (stack_of b s)]\<rparr>
             else t'\<lparr>undo := butlast (undo t'), redo := redo t' @ [last (stack_of b s)]\<rparr>) = (Inr t :: _ checked)"
      "undo t' = undo s" "redo t' = redo s" for t t'
    using that by (auto simp: moved_def stack_of_def split: if_splits)
  show ?thesis
  proof (cases ?k)
    case (DrawAction i before after)
    then obtain af where af: "after = Some af" and i: "i \<in> layer_ids (layers s)"
      using ok by (cases after) auto
    define f where "f l = l\<lparr>content := site_content (if b then af else before)\<rparr>" for l :: LayerState
    obtain k where k: "layer_index i (layers s) = Inr k"
      using layer_index_ex i by blast
    note step = update_by_id [OF d k, of f]
    have ids: "map layer_id (map (\<lambda>l. if layer_id l = i then f l else l) (layers s)) = map layer_id (layers s)"
      by (simp add: f_def)
    have "i \<noteq> 0" using zero i by auto
    then have act: "activate i (s\<lparr>layers := map (\<lambda>l. if layer_id l = i then f l else l) (layers s)\<rparr>)
        = Inr (s\<lparr>layers := map (\<lambda>l. if layer_id l = i then f l else l) (layers s), active_layer := i, selected_layers := [i]\<rparr>)"
      using activate_existing [of i "s\<lparr>layers := map (\<lambda>l. if layer_id l = i then f l else l) (layers s)\<rparr>"] layer_ids_map [OF ids] i
      by simp
    have c: "recorded_content b ?k \<circ> recorded_alpha b ?k = (\<lambda>l. if layer_id l = i then f l else l)"
      by (auto simp: DrawAction af recorded_content_def recorded_alpha_def f_def fun_eq_iff)
    have upd: "(layers s)[k := (layers s ! k)\<lparr>content := site_content (if b then af else before)\<rparr>]
        = map (\<lambda>l. if layer_id l = i then f l else l) (layers s)"
      using step unfolding f_def .
    have sn: "(if b then Some af else Some before) = Some (if b then af else before)"
      by simp
    note r = h [unfolded DrawAction af HistoryActionKind.case sn option.case k bindE_Inr upd act]
    have foc: "focused (DrawAction i before (Some af)) t = t\<lparr>active_layer := i, selected_layers := [i]\<rparr>" for t
      by (simp add: focused_def)
    show ?thesis
      unfolding c by (unfold DrawAction af foc, rule m [OF r]) simp_all
  next
    case (AlphaAction before a)
    then obtain ls where ls: "restore_alphas b a before (layers s) = Inr ls"
      using h by (auto simp: result_simps)
    have c: "map (recorded_content b ?k \<circ> recorded_alpha b ?k) (layers s) = ls"
      using restore_alphas_exact [OF d ls] by (simp add: AlphaAction recorded_content_def fun_eq_iff comp_def)
    note r = h [unfolded AlphaAction HistoryActionKind.case ls bindE_Inr]
    have foc: "focused (AlphaAction before a) t = t" for t
      by (simp add: focused_def)
    show ?thesis
      unfolding c by (unfold AlphaAction foc, rule m [OF r]) simp_all
  next
    case (AddLayerAction i)
    then show ?thesis using noadd by simp
  next
    case DummyAction
    have c: "map (recorded_content b ?k \<circ> recorded_alpha b ?k) (layers s) = layers s"
      by (simp add: DummyAction recorded_content_def recorded_alpha_def comp_def)
    note r = h [unfolded DummyAction HistoryActionKind.case bindE_Inr]
    have foc: "focused DummyAction t = t" for t
      by (simp add: focused_def)
    show ?thesis
      unfolding c using m [OF r] by (simp add: foc DummyAction)
  qed
qed

text \<open>Back again: everything is as before, but for the opacities and the focus, which are the recorded ones.\<close>

lemma contents_back:
  assumes "distinct (map layer_id ls)" "map layer_id ls' = map layer_id ls" "content_of ls' = content_of ls"
  shows "map content ls' = map content ls"
proof (rule nth_equalityI)
  show len: "length (map content ls') = length (map content ls)"
    using assms(2) by (metis length_map)
  fix i
  assume "i < length (map content ls')"
  then have i: "i < length ls'" "i < length ls"
    using len by simp_all
  then have "layer_id (ls' ! i) = layer_id (ls ! i)"
    using assms(2) by (metis nth_map)
  then show "map content ls' ! i = map content ls ! i"
    using content_of_nth [OF assms(1) i(2)] content_of_nth [of ls' i] assms i by simp
qed

lemma recorded_both:
  fixes b c k l
  defines "l' \<equiv> recorded_content c k (recorded_alpha c k (recorded_content b k (recorded_alpha b k l)))"
  shows "l' = (recorded_alpha c k l)\<lparr>content := content l'\<rparr>"
  unfolding l'_def by (cases k) (auto simp: recorded_content_def recorded_alpha_def split: option.split)

lemma recorded_alpha_content: "content (recorded_alpha b k l) = content l"
  by (simp add: recorded_alpha_def split: HistoryActionKind.split option.split)

lemma map_content_eq:
  fixes g h :: "LayerState \<Rightarrow> LayerState"
  assumes "map content (map h ls) = map content ls" "\<And>l. h l = (g l)\<lparr>content := content (h l)\<rparr>" "\<And>l. content (g l) = content l"
  shows "map h ls = map g ls"
proof (rule map_cong [OF refl])
  fix l :: LayerState
  assume "l \<in> set ls"
  then have "content (h l) = content l"
    using assms(1) by (simp add: list_eq_iff_nth_eq in_set_conv_nth) metis
  then have "h l = (g l)\<lparr>content := content (g l)\<rparr>"
    using assms(2) [of l] assms(3) [of l] by simp
  then show "h l = g l" by simp
qed

lemma history_back:
  assumes "state_inv s" and "stroke s = None" and "history b s = Inr s'"
  shows "\<exists>s''. history (\<not> b) s' = Inr s'' \<and> s'' = focused (action_kind (actions s ! last (stack_of b s)))
    (s\<lparr>layers := map (recorded_alpha (\<not> b) (action_kind (actions s ! last (stack_of b s)))) (layers s)\<rparr>)"
proof -
  let ?a = "last (stack_of b s)" and ?k = "action_kind (actions s ! last (stack_of b s))"
  have ne: "stack_of b s \<noteq> []" and res: "\<not> is_add ?k" "history_result b s s'"
    using history_cases [OF assms(1), of b] assms(3) by auto
  have inv': "state_inv s'"
    by (rule inv_history_result [OF assms(1,2) res(2) ne res(1)])
  obtain s'' where s'': "history (\<not> b) s' = Inr s''" "undo s'' = undo s" "redo s'' = redo s" "actions s'' = actions s"
      "map layer_id (layers s'') = map layer_id (layers s)" "content_of (layers s'') = content_of (layers s)"
    using history_inverse [OF assms] by blast
  define one where "one = map (recorded_content b ?k \<circ> recorded_alpha b ?k) (layers s)"
  have e1: "s' = moved b (focused ?k (s\<lparr>layers := one\<rparr>))"
    using history_exact [OF assms(1,3)] by (simp only: one_def)
  have foc: "layers (focused k t) = layers t" "undo (focused k t) = undo t" "redo (focused k t) = redo t"
      "actions (focused k t) = actions t" "focused k (focused k t) = focused k t"
      "focused k (t\<lparr>layers := ls\<rparr>) = (focused k t)\<lparr>layers := ls\<rparr>"
      "focused k (t\<lparr>undo := u, redo := v\<rparr>) = (focused k t)\<lparr>undo := u, redo := v\<rparr>" for k t ls u v
    by (simp_all add: focused_def split: HistoryActionKind.split)
  have mv: "layers (moved c t) = layers t" "actions (moved c t) = actions t" for c t
    by (simp_all add: moved_def)
  have top: "last (stack_of (\<not> b) s') = ?a"
    by (simp add: e1 moved_def stack_of_def foc)
  have k': "action_kind (actions s' ! last (stack_of (\<not> b) s')) = ?k"
    unfolding top by (simp add: e1 mv foc)
  define two where "two = map (recorded_content (\<not> b) ?k \<circ> recorded_alpha (\<not> b) ?k) one"
  have e2: "s'' = moved (\<not> b) (focused ?k (s'\<lparr>layers := two\<rparr>))"
    using history_exact [OF inv' s''(1)] unfolding k' by (simp add: two_def e1 mv foc)
  have l2: "layers s'' = two"
    by (simp add: e2 mv foc)
  have "map content two = map content (layers s)"
    using contents_back [of "layers s" two] state_invD(1) [OF assms(1)] s''(5,6) by (simp add: l2 layers_inv_def)
  define both where "both l = recorded_content (\<not> b) ?k (recorded_alpha (\<not> b) ?k (recorded_content b ?k (recorded_alpha b ?k l)))" for l
  have "two = map both (layers s)"
    by (simp add: two_def one_def both_def)
  then have t: "two = map (recorded_alpha (\<not> b) ?k) (layers s)"
    using \<open>map content two = map content (layers s)\<close> map_content_eq [of both "layers s" "recorded_alpha (\<not> b) ?k"]
      recorded_both [of "\<not> b" ?k b] recorded_alpha_content by (simp add: both_def)
  have mv': "moved c t = t\<lparr>undo := undo (moved c t), redo := redo (moved c t)\<rparr>" for c t
    by (simp add: moved_def)
  obtain u v where "s' = (focused ?k (s\<lparr>layers := one\<rparr>))\<lparr>undo := u, redo := v\<rparr>"
    using mv' [of b "focused ?k (s\<lparr>layers := one\<rparr>)"] e1 by blast
  moreover have "s'' = (focused ?k (s'\<lparr>layers := two\<rparr>))\<lparr>undo := undo s, redo := redo s\<rparr>"
    using mv' [of "\<not> b" "focused ?k (s'\<lparr>layers := two\<rparr>)"] e2 s''(2,3) by simp
  ultimately have "s'' = focused ?k (s\<lparr>layers := two\<rparr>)"
    by (cases s; cases ?k) (simp_all add: focused_def)
  then show ?thesis
    using s''(1) t by blast
qed

end
