(* ===== verification/ReplayPolicy.thy ===== *)
theory ReplayPolicy
  imports ReplayEnvelope ReplayStateInv
begin

unbundle bit_operations_syntax

text \<open>
  What an accepted event does to the selected tool and to the number of layers, and the relation
  of the two replay checks: \<open>check_core_v1\<close> (\<open>replay_state.rs\<close>) accepts nothing outside the
  envelope of \<open>replay_envelope.rs\<close>.
\<close>

section \<open>Frames\<close>

lemma activate_frame:
  "activate i s = Inr s' \<Longrightarrow> tool s' = tool s \<and> layers s' = layers s"
  by (auto simp: activate_def Let_def bindE_eq_Inr split: if_split_asm)

lemma set_alphas_length: "set_alphas a is ls = Inr (b, ls') \<Longrightarrow> length ls' = length ls"
  by (induction a "is" ls arbitrary: b ls' rule: set_alphas.induct) (auto simp: bindE_eq_Inr)

lemma record_alpha_frame:
  "record_alpha i a b s = Inr s' \<Longrightarrow> tool s' = tool s \<and> layers s' = layers s"
  by (auto simp: record_alpha_def Let_def push_eq new_action_def
      split: if_split_asm HistoryActionKind.split_asm)

lemma alpha_event_frame:
  "alpha_event i a s = Inr s' \<Longrightarrow> f32_unit a \<and> tool s' = tool s \<and> length (layers s') = length (layers s)"
  by (auto simp: alpha_event_def bindE_eq_Inr split: if_split_asm dest!: record_alpha_frame set_alphas_length)

lemma history_frame:
  "state_inv s \<Longrightarrow> history r s = Inr s' \<Longrightarrow> tool s' = tool s \<and> length (layers s') = length (layers s)"
  using history_cases [of s r] by (auto simp: history_result_def) (metis length_map)

lemma start_frame:
  "start i x y p s = Inr s' \<Longrightarrow> tool s' = tool s \<and> layers s' = layers s"
  by (auto simp: start_def tool_mut_def Let_def bindE_eq_Inr new_action_def split: if_split_asm)

lemma draw_frame: "draw x y p s = Inr s' \<Longrightarrow> tool s' = tool s \<and> layers s' = layers s"
  by (auto simp: draw_def tool_mut_def Let_def bindE_eq_Inr split: if_split_asm option.split_asm)

lemma commit_frame: "commit i s = Inr s' \<Longrightarrow> tool s' = tool s \<and> length (layers s') = length (layers s)"
  by (cases "stroke s"; cases "pending s")
    (auto simp: commit_def Let_def bindE_eq_Inr push_eq split: if_split_asm HistoryActionKind.split_asm)

lemma add_layer_frame:
  "add_layer i s = Inr s' \<Longrightarrow> tool s' = tool s \<and> length (layers s') = length (layers s) + 1"
  by (auto simp: add_layer_def Let_def bindE_eq_Inr push_eq new_action_def split: if_split_asm
      dest!: activate_frame layer_index_Inr)

lemma toggle_frame:
  "toggle_visibility i s = Inr s' \<Longrightarrow> tool s' = tool s \<and> length (layers s') = length (layers s)"
  "toggle_selection i s = Inr s' \<Longrightarrow> tool s' = tool s \<and> layers s' = layers s"
  by (auto simp: toggle_visibility_def toggle_selection_def bindE_eq_Inr)

lemma tool_mut_frame:
  "tool_mut f s = Inr s' \<Longrightarrow> tool s' = tool s \<and> layers s' = layers s"
  by (auto simp: tool_mut_def Let_def bindE_eq_Inr split: if_split_asm)

lemma select_frame: "select_tool i s = Inr s' \<Longrightarrow> tool s' = i \<and> layers s' = layers s"
  by (auto simp: select_tool_def dest!: tool_mut_frame)

lemma coordinates_near:
  assumes "coordinates r x y = Inr u"
  shows "near_canvas (metadata r) x y"
proof -
  have c: "0 \<le> sint x" "0 \<le> sint y" "x < width (metadata r)" "y < height (metadata r)"
    using assms by (auto simp: coordinates_def not_le split: if_split_asm)
  have "sint z = uint z" if "0 \<le> sint z" for z :: i16
    using that sint_less [of z] by (simp add: uint_sint take_bit_int_eq_self)
  then have "sint x = uint x" "sint y = uint y"
    using c by simp_all
  moreover have "uint x < uint (width (metadata r))" "uint y < uint (height (metadata r))"
    using c by (simp_all add: word_less_def)
  ultimately show ?thesis
    using uint_ge_0 [of x] uint_ge_0 [of y] unfolding near_canvas_def by linarith
qed

lemma event_frame:
  assumes "state_inv s" and "event r i k s = Inr s'"
  shows "tool s' = selects (tool s) k \<and> kind_in_envelope (metadata r) (tool s) k
     \<and> length (layers s') = length (layers s) + (if k = AddLayer then 1 else 0)"
proof -
  have tip: "v \<le> 2" if "\<not> 2 < v" for v :: i8
    using that by simp
  show ?thesis
    using assms unfolding event_def
    by (cases k) (auto simp: bindE_eq_Inr not_less push_eq new_action_def split: if_split_asm
      dest: start_frame draw_frame commit_frame
      add_layer_frame toggle_frame tool_mut_frame select_frame alpha_event_frame activate_frame
      history_frame [OF assms(1)] coordinates_near supported_range)
qed


section \<open>Runs\<close>

lemma run_frame:
  assumes "foldE (event_step r) (t, s) (enumerate i es) = Inr (t', s')" and "state_inv s"
    and "i + length es = length (events r)"
  shows "sorted (t # map timestamp_ms es) \<and> markers_from (length (events r)) i es
    \<and> (\<forall>j<length es. kind_in_envelope (metadata r) (selected_after (tool s) (take j es)) (kind (es ! j)))
    \<and> length (layers s') = length (layers s) + length (filter (\<lambda>e. kind e = AddLayer) es)"
  using assms
proof (induction es arbitrary: i t s)
  case Nil
  then show ?case by simp
next
  case (Cons e es)
  obtain s1 where m: "(i = 0) = (kind e = Prelude)" "(i = length (events r) - 1) = (kind e = Conclusion)"
      "t \<le> timestamp_ms e" and e: "event r i (kind e) s = Inr s1"
    and rest: "foldE (event_step r) (timestamp_ms e, s1) (enumerate (Suc i) es) = Inr (t', s')"
    using Cons.prems(1) unfolding run_step_iff by (elim conjE exE) (rule that; assumption)
  have inv: "state_inv s1"
    by (rule safeD [OF safe_event [OF Cons.prems(2)] e])
  have f: "tool s1 = selects (tool s) (kind e)" "kind_in_envelope (metadata r) (tool s) (kind e)"
      "length (layers s1) = length (layers s) + (if kind e = AddLayer then 1 else 0)"
    using event_frame [OF Cons.prems(2) e] by auto
  have IH: "sorted (timestamp_ms e # map timestamp_ms es)"
      "markers_from (length (events r)) (Suc i) es"
      "\<forall>j<length es. kind_in_envelope (metadata r) (selected_after (tool s1) (take j es)) (kind (es ! j))"
      "length (layers s') = length (layers s1) + length (filter (\<lambda>e. kind e = AddLayer) es)"
    using Cons.IH [OF rest inv] Cons.prems(3) by auto
  have "\<forall>j<length (e # es). kind_in_envelope (metadata r)
      (selected_after (tool s) (take j (e # es))) (kind ((e # es) ! j))"
    using IH(3) f by (simp add: All_less_Suc2 selected_after_Cons) (simp add: selected_after_def)
  moreover have "sorted (t # map timestamp_ms (e # es))"
    using IH(1) m(3) by auto
  ultimately show ?case
    using IH(2,4) f(3) m by simp
qed

lemma tool_check_envelope: "i < 8 \<Longrightarrow> tool_check i t = Inr u \<Longrightarrow> \<not> tool_rejected i t"
  by (auto simp: tool_check_def tool_rejected_def ReplayState.SOURCE_STEPS_def ReplayEnvelope.SOURCE_STEPS_def
      split: if_split_asm)

lemma tool_checks_envelope:
  "i + length ts \<le> 8 \<Longrightarrow> tool_checks i ts = Inr u \<Longrightarrow> check_tools i ts = Inr ()"
proof (induction i ts rule: tool_checks.induct)
  case (2 i t ts)
  then show ?case
    using tool_check_envelope [of i t] by (auto simp: bindE_eq_Inr)
qed simp

lemma new_state_tool:
  "new_state r = Inr s \<Longrightarrow> tool s = meta_tool_id (metadata r)"
  by (auto simp: new_state_def dest: select_frame)

lemma core_run_facts:
  assumes "check_core_v1 r = Inr s" and "length (tools r) = 8"
  shows "in_envelope r"
    and "length (layers s) = 1 + length (filter (\<lambda>e. kind e = AddLayer) (events r))"
proof -
  show "in_envelope r"
  proof (rule check_core_v1_Inr [OF assms], goal_cases)
    case (1 s0 t)
    have "check_tools 0 (tools r) = Inr ()"
      using tool_checks_envelope [of 0 "tools r"] assms(2) 1(6) by simp
    then have tools: "\<forall>i<8. tool_in_envelope (of_nat i + 1) (tools r ! i)"
      using check_tools_iff [of 0 "tools r"] assms(2) by simp
    have ends: "events r ! 0 = hd (events r)"
      using 1(2) by (cases "events r") auto
    show ?case
      using run_frame [OF 1(16) 1(12)] new_state_tool [OF 1(11)] 1(1-10) tools assms(2) ends
      by (simp add: in_envelope_def Let_def)
  qed
  show "length (layers s) = 1 + length (filter (\<lambda>e. kind e = AddLayer) (events r))"
  proof (rule check_core_v1_Inr [OF assms], goal_cases)
    case (1 s0 t)
    show ?case
      using run_frame [OF 1(16) 1(12)] 1(14) by simp
  qed
qed

text \<open>A short checked replay: a stroke, a second layer, an opacity, an undo and a redo.\<close>

definition core_tool :: "u8 \<Rightarrow> f32 \<Rightarrow> bool \<Rightarrow> UntrustedReplayTool" where
  "core_tool i step pa = \<lparr>tool_id = i, tool_size = 4, alpha = 0x3F800000, tool_step = step,
     size_dynamics = False, alpha_dynamics = False, use_preserve_alpha = pa, tip_id = 0,
     flow = 0x3F800000, flow_dynamics = False\<rparr>"

definition core_replay :: "UntrustedReplayEventKind list \<Rightarrow> UntrustedReplay" where
  "core_replay ks = \<lparr>candidate_profile = 1,
     metadata = \<lparr>started_at_seconds = 1, ended_at_seconds = 2, width = 64, height = 48,
       background = (255, 255, 255), color = (0, 0, 0), meta_tool_id = 1\<rparr>,
     tools = [core_tool 1 0x3C23D70A True, core_tool 2 0x3D4CCCCD True, core_tool 3 0x3DCCCCCD True,
       core_tool 4 0x42C80000 False, core_tool 5 0x3C23D70A True, core_tool 6 0x42C80000 False,
       core_tool 7 0x3E800000 False, core_tool 8 0x3DCCCCCD False],
     events = map (\<lambda>(i, k). \<lparr>timestamp_ms = of_nat i, kind = k\<rparr>) (enumerate 0 ks)\<rparr>"

definition sample_events :: "UntrustedReplayEventKind list" where
  "sample_events = [Prelude, DrawStart 3 4 100, Draw 10 12 200, DrawCommit, AddLayer,
     SetSelectedLayersAlpha 0x3F800000, Undo, Redo, Conclusion]"

lemma core_replay_fields:
  "candidate_profile (core_replay ks) = 1" "length (tools (core_replay ks)) = 8"
  by (simp_all add: core_replay_def)

lemma units: "f32_unit 0x3F800000" "f32_unit 0"
  by (simp_all add: f32_unit_def f32_finite_def f32_scaled_def Let_def)

lemmas state_evaluation =
  check_core_v1_def core_replay_def Let_def supported_tool_def checked_sub_def core_tool_def
  tool_check_def ReplayState.SOURCE_STEPS_def units fail_at_def new_state_def select_tool_def
  tool_mut_def event_step_def event_def coordinates_def start_def draw_def commit_def
  layer_index_def new_action_def owners_def push_def add_layer_def activate_def alpha_event_def
  record_alpha_def history_def

lemma sample_checked: "\<exists>s. check_core_v1 (core_replay sample_events) = Inr s \<and> length (layers s) = 2
    \<and> length (undo s) = 3"
  by (simp add: state_evaluation sample_events_def)

end
