(* ===== verification/ReplayCost.thy ===== *)
theory ReplayCost
  imports ReplayPolicy
begin

unbundle bit_operations_syntax

text \<open>
  \<open>crates/media/src/replay_cost.rs\<close>: the resource model of a state-checked replay. A counter set
  is a function from the metrics (the source's macro makes a struct with one \<open>u64\<close> field per
  metric); every sum and product is the source's checked one, which names its metric when it
  overflows. The index \<open>tools[selected]\<close> can panic.
\<close>

section \<open>Counters\<close>

datatype CostMetric =
    Events | ShapeRegenerations | ShapeLoopUnits | ShapeFloodScalarPushes | BrushLeafUnits
  | BrushLoopUnits | ToneMapCells | ToneLoopUnits | TypedBackingBytes | TypedCopyBytes
  | TypedClearBytes | CanvasSurfacePixels | PreviewSurfacePixels | CanvasGetCalls
  | CanvasGetPixels | CanvasFillCalls | CanvasFillPixels | CanvasPutCalls | CanvasPutInputPixels
  | CanvasPutDirtyPixels | PreviewDrawCalls | PreviewSourcePixels | PreviewDestinationPixels
  | PreviewClearCalls | PreviewClearPixels | FlattenDrawCalls | FlattenSourcePixels
  | FlattenDestinationPixels | HistoryRestoreEnvelopes | CommittedStrokes

definition ALL_METRICS :: "CostMetric list" where
  "ALL_METRICS = [Events, ShapeRegenerations, ShapeLoopUnits, ShapeFloodScalarPushes, BrushLeafUnits,
     BrushLoopUnits, ToneMapCells, ToneLoopUnits, TypedBackingBytes, TypedCopyBytes,
     TypedClearBytes, CanvasSurfacePixels, PreviewSurfacePixels, CanvasGetCalls,
     CanvasGetPixels, CanvasFillCalls, CanvasFillPixels, CanvasPutCalls,
     CanvasPutInputPixels, CanvasPutDirtyPixels, PreviewDrawCalls, PreviewSourcePixels,
     PreviewDestinationPixels, PreviewClearCalls, PreviewClearPixels, FlattenDrawCalls,
     FlattenSourcePixels, FlattenDestinationPixels, HistoryRestoreEnvelopes, CommittedStrokes]"

type_synonym CostCounters = "CostMetric \<Rightarrow> nat"

definition no_cost :: CostCounters where "no_cost = (\<lambda>_. 0)"

datatype ReplayCostError = Overflow CostMetric | UnsupportedStateEvent nat

type_synonym 'a costed = "ReplayCostError stop + 'a"

definition add :: "CostMetric \<Rightarrow> nat \<Rightarrow> nat \<Rightarrow> nat costed" where
  "add metric a b =
     (case checked_add64 a b of Some c \<Rightarrow> Inr c | None \<Rightarrow> Inl (Refused (Overflow metric)))"

definition mul :: "CostMetric \<Rightarrow> nat \<Rightarrow> nat \<Rightarrow> nat costed" where
  "mul metric a b =
     (case checked_mul64 a b of Some c \<Rightarrow> Inr c | None \<Rightarrow> Inl (Refused (Overflow metric)))"

fun sum_from :: "CostMetric \<Rightarrow> nat \<Rightarrow> nat list \<Rightarrow> nat costed" where
  "sum_from metric t [] = Inr t"
| "sum_from metric t (v # vs) = bindE (add metric t v) (\<lambda>t. sum_from metric t vs)"

definition sum_all :: "CostMetric \<Rightarrow> nat list \<Rightarrow> nat costed" where
  "sum_all metric vs = sum_from metric 0 vs"

definition checked_accumulate :: "CostCounters \<Rightarrow> CostCounters \<Rightarrow> CostCounters costed" where
  "checked_accumulate self other =
     bindE (mapE (\<lambda>m. add m (self m) (other m)) ALL_METRICS) (\<lambda>_. Inr (\<lambda>m. self m + other m))"

definition component_max :: "CostCounters \<Rightarrow> CostCounters \<Rightarrow> CostCounters" where
  "component_max self other = (\<lambda>m. max (self m) (other m))"

datatype CostScope = Total | PeakEvent | Initialization | FinalFlatten

record ReplayCost =
  total_cost :: CostCounters
  peak_event :: CostCounters
  initialization :: CostCounters
  final_flatten :: CostCounters

definition counters :: "CostScope \<Rightarrow> ReplayCost \<Rightarrow> CostCounters" where
  "counters scope c =
     (case scope of Total \<Rightarrow> total_cost c | PeakEvent \<Rightarrow> peak_event c
      | Initialization \<Rightarrow> initialization c | FinalFlatten \<Rightarrow> final_flatten c)"

record CostLimit =
  limit_scope :: CostScope
  limit_metric :: CostMetric
  maximum :: nat

record CostLimitExceeded =
  exceeded_scope :: CostScope
  exceeded_metric :: CostMetric
  exceeded_value :: nat
  exceeded_maximum :: nat

fun check_limits :: "ReplayCost \<Rightarrow> CostLimit list \<Rightarrow> CostLimitExceeded + unit" where
  "check_limits c [] = Inr ()"
| "check_limits c (l # ls) =
     (let value = counters (limit_scope l) c (limit_metric l) in
      if value > maximum l
      then Inl \<lparr>exceeded_scope = limit_scope l, exceeded_metric = limit_metric l,
                exceeded_value = value, exceeded_maximum = maximum l\<rparr>
      else check_limits c ls)"

section \<open>The model of one event\<close>

definition PREVIEW_AREA :: nat where [simp]: "PREVIEW_AREA = 24 * 24"

record Model =
  area :: nat
  model_height :: nat
  model_tools :: "UntrustedReplayTool list"
  model_selected :: nat
  tone_maps_built :: bool
  model_position :: "i16 \<times> i16"

definition selected_tool :: "Model \<Rightarrow> UntrustedReplayTool costed" where
  "selected_tool m =
     (if model_selected m < length (model_tools m) then Inr (model_tools m ! model_selected m)
      else Inl Panicked)"

definition shape :: "Model \<Rightarrow> CostCounters \<Rightarrow> CostCounters costed" where
  "shape m c =
     bindE (selected_tool m) (\<lambda>t.
     bindE (add ShapeLoopUnits (unat (tool_size t)) 2) (\<lambda>s.
     bindE (mul ShapeLoopUnits 4 s) (\<lambda>h.
     bindE (mul ShapeLoopUnits h h) (\<lambda>square.
     bindE (mul ShapeLoopUnits 64 square) (\<lambda>loops.
     bindE (mul ShapeFloodScalarPushes 4 square) (\<lambda>f.
     bindE (add ShapeFloodScalarPushes f 2) (\<lambda>pushes.
     bindE (mul TypedBackingBytes 12 square) (\<lambda>backing.
     checked_accumulate c (no_cost(ShapeRegenerations := 1, ShapeLoopUnits := loops,
       ShapeFloodScalarPushes := pushes, TypedBackingBytes := backing))))))))))"

definition tone_maps :: "Model \<Rightarrow> CostCounters \<Rightarrow> (Model \<times> CostCounters) costed" where
  "tone_maps m c =
     bindE (selected_tool m) (\<lambda>t.
     if tool_id t = 5 \<and> \<not> tone_maps_built m then
       bindE (mul TypedBackingBytes 16 (area m)) (\<lambda>backing.
       bindE (mul ToneMapCells 16 (area m)) (\<lambda>cells.
       bindE (mul ToneLoopUnits 32 (area m)) (\<lambda>x.
       bindE (mul ToneLoopUnits 48 (model_height m)) (\<lambda>y.
       bindE (sum_all ToneLoopUnits [x, y, 49]) (\<lambda>loops.
       bindE (checked_accumulate c (no_cost(TypedBackingBytes := backing, ToneMapCells := cells,
         ToneLoopUnits := loops))) (\<lambda>c.
       Inr (m\<lparr>tone_maps_built := True\<rparr>, c)))))))
     else Inr (m, c))"

definition snapshot :: "Model \<Rightarrow> CostCounters \<Rightarrow> CostCounters costed" where
  "snapshot m c =
     bindE (mul TypedBackingBytes 4 (area m)) (\<lambda>backing.
     bindE (mul TypedCopyBytes 4 (area m)) (\<lambda>copied.
     checked_accumulate c (no_cost(TypedBackingBytes := backing, TypedCopyBytes := copied))))"

definition preview :: "Model \<Rightarrow> CostCounters \<Rightarrow> CostCounters" where
  "preview m c = c(PreviewDrawCalls := 1, PreviewSourcePixels := area m,
     PreviewDestinationPixels := PREVIEW_AREA, PreviewClearCalls := 1,
     PreviewClearPixels := PREVIEW_AREA)"

definition put :: "Model \<Rightarrow> CostCounters \<Rightarrow> nat \<Rightarrow> CostCounters" where
  "put m c dirty_area = c(CanvasPutCalls := 1, CanvasPutInputPixels := area m,
     CanvasPutDirtyPixels := dirty_area)"

definition brush :: "UntrustedReplayTool \<Rightarrow> nat costed" where
  "brush t =
     (let s = unat (tool_size t) in
      if tool_id t = 2 \<or> tool_id t = 8 \<and> tip_id t = 1 then add BrushLoopUnits s 2
      else if tool_id t = 3 \<or> tool_id t = 8 \<and> tip_id t = 2 then mul BrushLoopUnits 2 s
      else Inr s)"

definition paint :: "Model \<Rightarrow> CostCounters \<Rightarrow> nat \<Rightarrow> nat \<Rightarrow> bool \<Rightarrow> CostCounters costed" where
  "paint m c dx dy is_start =
     bindE (selected_tool m) (\<lambda>t.
     bindE (brush t) (\<lambda>b.
     bindE (mul BrushLoopUnits b b) (\<lambda>square.
     bindE (if is_start then Inr 1 else add BrushLoopUnits (max dx dy) 1) (\<lambda>i.
     bindE (add BrushLoopUnits dx b) (\<lambda>q.
     bindE (add BrushLoopUnits dy b) (\<lambda>r.
     bindE (mul CanvasPutDirtyPixels q r) (\<lambda>rectangle.
     let traversal = (if is_start then 0 else i); blur = (tool_id t = 7) in
     bindE (mul BrushLeafUnits (if blur then 10 else 1) i) (\<lambda>x.
     bindE (mul BrushLeafUnits x square) (\<lambda>y.
     bindE (if blur then mul BrushLeafUnits 2 rectangle else Inr 0) (\<lambda>z.
     bindE (sum_all BrushLeafUnits [traversal, y, z]) (\<lambda>leaf.
     bindE (mul BrushLoopUnits (if blur then 30 else 2) square) (\<lambda>u.
     bindE (mul BrushLoopUnits 3 b) (\<lambda>v.
     bindE (sum_all BrushLoopUnits [u, v, 1]) (\<lambda>stamp.
     bindE (if blur then
              bindE (mul BrushLoopUnits 4 rectangle) (\<lambda>p.
              bindE (mul BrushLoopUnits 6 q) (\<lambda>k. sum_all BrushLoopUnits [p, k, 2]))
            else Inr 0) (\<lambda>copies.
     bindE (mul BrushLoopUnits i stamp) (\<lambda>w.
     bindE (sum_all BrushLoopUnits [traversal, w, copies]) (\<lambda>loops.
     Inr (put m (c(BrushLeafUnits := leaf, BrushLoopUnits := loops)) rectangle))))))))))))))))))"

definition one_event :: CostCounters where "one_event = no_cost(Events := 1)"

definition abs_diff :: "i16 \<Rightarrow> i16 \<Rightarrow> nat" where
  "abs_diff a b = nat \<bar>sint a - sint b\<bar>"

text \<open>The match on one event: the new model and the event's cost.\<close>

definition event_cost ::
  "nat \<Rightarrow> UntrustedReplayEventKind \<Rightarrow> Model \<Rightarrow> (Model \<times> CostCounters) costed" where
  "event_cost index e m =
     (let d = one_event;
          start = (\<lambda>x y. bindE (snapshot m d) (\<lambda>d. bindE (tone_maps m d) (\<lambda>(m, d).
            bindE (paint m d 0 0 True) (\<lambda>d. Inr (m\<lparr>model_position := (x, y)\<rparr>, d)))));
          move = (\<lambda>x y.
            bindE (paint m d (abs_diff (fst (model_position m)) x) (abs_diff (snd (model_position m)) y) False)
              (\<lambda>d. Inr (m\<lparr>model_position := (x, y)\<rparr>, d)));
          history = bindE (snapshot m d) (\<lambda>d.
            Inr (m, (preview m (put m d (area m)))(HistoryRestoreEnvelopes := 1)));
          unsupported = Inl (Refused (UnsupportedStateEvent index));
          setting = (\<lambda>f. if model_selected m < length (model_tools m)
            then let m = m\<lparr>model_tools := (model_tools m)[model_selected m := f (model_tools m ! model_selected m)]\<rparr>
                 in bindE (shape m d) (\<lambda>d. Inr (m, d))
            else Inl Panicked)
      in case e of
        DrawStart x y _ \<Rightarrow> start x y
      | DrawStartNoPressure x y \<Rightarrow> start x y
      | Draw x y _ \<Rightarrow> move x y
      | DrawNoPressure x y \<Rightarrow> move x y
      | DrawCommit \<Rightarrow>
          bindE (snapshot m d) (\<lambda>d. bindE (mul TypedClearBytes 8 (area m)) (\<lambda>b.
          Inr (m, preview m (d(TypedClearBytes := b, CommittedStrokes := 1)))))
      | Undo \<Rightarrow> history
      | Redo \<Rightarrow> history
      | AddLayer \<Rightarrow>
          bindE (mul TypedBackingBytes 4 (area m)) (\<lambda>b.
          Inr (m, d(TypedBackingBytes := b, CanvasSurfacePixels := area m,
            PreviewSurfacePixels := PREVIEW_AREA, CanvasGetCalls := 1, CanvasGetPixels := area m)))
      | SetTool i \<Rightarrow>
          if i = 0 then Inl Panicked
          else let m = m\<lparr>model_selected := unat (i - 1)\<rparr> in
            bindE (tone_maps m d) (\<lambda>(m, d). bindE (shape m d) (\<lambda>d. Inr (m, d)))
      | SetToolSize v \<Rightarrow> setting (\<lambda>t. t\<lparr>tool_size := v\<rparr>)
      | SetToolTip v \<Rightarrow> setting (\<lambda>t. t\<lparr>tip_id := v\<rparr>)
      | SetToolAlpha _ \<Rightarrow> tone_maps m d
      | SetToolSizeDynamics _ \<Rightarrow> unsupported
      | SetToolAlphaDynamics _ \<Rightarrow> unsupported
      | SetToolFlowDynamics _ \<Rightarrow> unsupported
      | DeleteLayers \<Rightarrow> unsupported
      | MoveLayers _ \<Rightarrow> unsupported
      | MergeLayers \<Rightarrow> unsupported
      | _ \<Rightarrow> Inr (m, d))"

fun event_costs ::
  "nat \<Rightarrow> UntrustedReplayEventKind list \<Rightarrow> Model \<Rightarrow> CostCounters \<Rightarrow> CostCounters
     \<Rightarrow> (CostCounters \<times> CostCounters) costed" where
  "event_costs i [] m tot peak = Inr (tot, peak)"
| "event_costs i (e # es) m tot peak =
     bindE (event_cost i e m) (\<lambda>(m, d).
     bindE (checked_accumulate tot d) (\<lambda>tot.
     event_costs (i + 1) es m tot (component_max peak d)))"

section \<open>The estimate\<close>

fun flatten_calls :: "nat \<Rightarrow> LayerState list \<Rightarrow> nat costed" where
  "flatten_calls calls [] = Inr calls"
| "flatten_calls calls (l # ls) =
     bindE (if visible l then add FlattenDrawCalls calls 1 else Inr calls) (\<lambda>calls.
     flatten_calls calls ls)"

definition initial_cost :: "nat \<Rightarrow> Model \<Rightarrow> (Model \<times> CostCounters) costed" where
  "initial_cost a m =
     bindE (mul TypedBackingBytes 12 a) (\<lambda>backing.
     bindE (mul CanvasSurfacePixels 2 a) (\<lambda>surface.
     let c = no_cost(TypedBackingBytes := backing, CanvasSurfacePixels := surface,
       PreviewSurfacePixels := PREVIEW_AREA, CanvasGetCalls := 1, CanvasGetPixels := a,
       CanvasFillCalls := 1, CanvasFillPixels := a) in
     bindE (tone_maps m c) (\<lambda>(m, c).
     bindE (shape m c) (\<lambda>c. Inr (m, c)))))"

text \<open>\<open>candidate\<close> is the replay and its final logical state.\<close>

definition estimate :: "UntrustedReplay \<times> ReplayState \<Rightarrow> bool \<Rightarrow> ReplayCost costed" where
  "estimate candidate include_final_flatten =
     (let (replay, final_state) = candidate; md = metadata replay in
      bindE (mul CanvasSurfacePixels (unat (width md)) (unat (height md))) (\<lambda>a.
      if meta_tool_id md = 0 then Inl Panicked
      else
        let m = \<lparr>area = a, model_height = unat (height md), model_tools = tools replay,
                 model_selected = unat (meta_tool_id md - 1), tone_maps_built = False,
                 model_position = (0, 0)\<rparr> in
        bindE (initial_cost a m) (\<lambda>(m, initialization).
        bindE (event_costs 0 (map kind (events replay)) m initialization no_cost) (\<lambda>(tot, peak).
        if include_final_flatten then
          bindE (flatten_calls 1 (layers final_state)) (\<lambda>calls.
          bindE (mul FlattenSourcePixels calls a) (\<lambda>src.
          bindE (mul FlattenDestinationPixels calls a) (\<lambda>dst.
          let flat = no_cost(CanvasSurfacePixels := a, FlattenDrawCalls := calls,
            FlattenSourcePixels := src, FlattenDestinationPixels := dst) in
          bindE (checked_accumulate tot flat) (\<lambda>tot.
          Inr \<lparr>total_cost = tot, peak_event = peak, initialization = initialization,
               final_flatten = flat\<rparr>))))
        else Inr \<lparr>total_cost = tot, peak_event = peak, initialization = initialization,
                  final_flatten = no_cost\<rparr>))))"


section \<open>The same costs in unbounded arithmetic\<close>

definition plus_cost :: "CostCounters \<Rightarrow> CostCounters \<Rightarrow> CostCounters" where
  "plus_cost c d = (\<lambda>k. c k + d k)"

definition shape_cost :: "nat \<Rightarrow> CostCounters" where
  "shape_cost sz =
     (let h = 4 * (sz + 2) in
      no_cost(ShapeRegenerations := 1, ShapeLoopUnits := 64 * (h * h),
        ShapeFloodScalarPushes := 4 * (h * h) + 2, TypedBackingBytes := 12 * (h * h)))"

definition tone_cost :: "nat \<Rightarrow> nat \<Rightarrow> CostCounters" where
  "tone_cost a h = no_cost(TypedBackingBytes := 16 * a, ToneMapCells := 16 * a,
     ToneLoopUnits := 32 * a + 48 * h + 49)"

definition snapshot_cost :: "nat \<Rightarrow> CostCounters" where
  "snapshot_cost a = no_cost(TypedBackingBytes := 4 * a, TypedCopyBytes := 4 * a)"

definition brush_size :: "UntrustedReplayTool \<Rightarrow> nat" where
  "brush_size t =
     (let s = unat (tool_size t) in
      if tool_id t = 2 \<or> tool_id t = 8 \<and> tip_id t = 1 then s + 2
      else if tool_id t = 3 \<or> tool_id t = 8 \<and> tip_id t = 2 then 2 * s
      else s)"

definition stamps :: "nat \<Rightarrow> nat \<Rightarrow> bool \<Rightarrow> nat" where
  "stamps dx dy is_start = (if is_start then 1 else max dx dy + 1)"

definition leaf_units :: "UntrustedReplayTool \<Rightarrow> nat \<Rightarrow> nat \<Rightarrow> bool \<Rightarrow> nat" where
  "leaf_units t dx dy is_start =
     (let b = brush_size t; i = stamps dx dy is_start; blur = (tool_id t = 7) in
      (if is_start then 0 else i) + (if blur then 10 else 1) * i * (b * b)
        + (if blur then 2 * ((dx + b) * (dy + b)) else 0))"

definition loop_units :: "UntrustedReplayTool \<Rightarrow> nat \<Rightarrow> nat \<Rightarrow> bool \<Rightarrow> nat" where
  "loop_units t dx dy is_start =
     (let b = brush_size t; i = stamps dx dy is_start; blur = (tool_id t = 7) in
      (if is_start then 0 else i) + i * ((if blur then 30 else 2) * (b * b) + 3 * b + 1)
        + (if blur then 4 * ((dx + b) * (dy + b)) + 6 * (dx + b) + 2 else 0))"

definition painted :: "Model \<Rightarrow> CostCounters \<Rightarrow> nat \<Rightarrow> nat \<Rightarrow> bool \<Rightarrow> CostCounters" where
  "painted m c dx dy is_start =
     (let t = model_tools m ! model_selected m; b = brush_size t in
      put m (c(BrushLeafUnits := leaf_units t dx dy is_start,
               BrushLoopUnits := loop_units t dx dy is_start)) ((dx + b) * (dy + b)))"

definition model_ok :: "Model \<Rightarrow> bool" where
  "model_ok m \<longleftrightarrow> area m \<le> 1048576 \<and> model_height m \<le> 1024 \<and> length (model_tools m) = 8
     \<and> model_selected m < 8 \<and> (\<forall>t\<in>set (model_tools m). unat (tool_size t) \<le> 64)
     \<and> 0 \<le> sint (fst (model_position m)) \<and> sint (fst (model_position m)) < 1024
     \<and> 0 \<le> sint (snd (model_position m)) \<and> sint (snd (model_position m)) < 1024"

definition below :: "nat \<Rightarrow> CostCounters \<Rightarrow> bool" where
  "below B c \<longleftrightarrow> (\<forall>k. c k \<le> B)"

lemma belowD: "below B c \<Longrightarrow> c k \<le> B"
  by (simp add: below_def)

lemma below_no_cost [simp]: "below B no_cost"
  by (simp add: below_def no_cost_def)

lemma below_upd: "below B c \<Longrightarrow> v \<le> B \<Longrightarrow> below B (c(k := v))"
  by (simp add: below_def)

lemma below_plus: "below A c \<Longrightarrow> below B d \<Longrightarrow> below (A + B) (plus_cost c d)"
  by (simp add: below_def plus_cost_def add_mono)

lemma below_mono: "below A c \<Longrightarrow> A \<le> B \<Longrightarrow> below B c"
  by (auto simp: below_def intro: order_trans)

text \<open>The checked operations when nothing overflows.\<close>

lemma add_ok: "a + b < 2 ^ 64 \<Longrightarrow> add k a b = Inr (a + b)"
  by (simp add: add_def checked_add64_def)

lemma mul_ok: "a * b < 2 ^ 64 \<Longrightarrow> mul k a b = Inr (a * b)"
  by (simp add: mul_def checked_mul64_def)

lemma sum_from_ok: "t + sum_list vs < 2 ^ 64 \<Longrightarrow> sum_from k t vs = Inr (t + sum_list vs)"
  by (induction vs arbitrary: t) (simp_all add: add_ok add.assoc)

lemma sum_all_ok: "sum_list vs < 2 ^ 64 \<Longrightarrow> sum_all k vs = Inr (sum_list vs)"
  using sum_from_ok [of 0 vs k] by (simp add: sum_all_def)

lemma mapE_ok: "(\<And>x. x \<in> set xs \<Longrightarrow> f x = Inr (g x)) \<Longrightarrow> mapE f xs = Inr (map g xs)"
  by (induction xs) simp_all

lemma accumulate_ok:
  assumes "below A c" and "below B d" and "A + B < 2 ^ 64"
  shows "checked_accumulate c d = Inr (plus_cost c d)"
proof -
  have "add k (c k) (d k) = Inr (c k + d k)" for k
    using belowD [OF assms(1), of k] belowD [OF assms(2), of k] assms(3) by (intro add_ok) simp
  then show ?thesis
    by (simp add: checked_accumulate_def plus_cost_def mapE_ok [of _ _ "\<lambda>k. c k + d k"])
qed

lemma le_mult: "a \<le> A \<Longrightarrow> b \<le> B \<Longrightarrow> a * b \<le> A * (B::nat)"
  by (rule mult_le_mono)

lemma selected_ok: "model_ok m \<Longrightarrow> selected_tool m = Inr (model_tools m ! model_selected m)"
  by (simp add: selected_tool_def model_ok_def)

lemma selected_size: "model_ok m \<Longrightarrow> unat (tool_size (model_tools m ! model_selected m)) \<le> 64"
  by (simp add: model_ok_def)

lemma shape_cost_below: "sz \<le> 64 \<Longrightarrow> below 4460544 (shape_cost sz)"
proof -
  assume "sz \<le> 64"
  then have "4 * (sz + 2) \<le> 264" by simp
  from le_mult [OF this this] have "4 * (sz + 2) * (4 * (sz + 2)) \<le> 69696" by simp
  then show ?thesis
    by (auto simp: shape_cost_def Let_def intro!: below_upd)
qed

lemma shape_ok:
  assumes "model_ok m" and "below B c" and "B \<le> 2 ^ 32"
  shows "shape m c = Inr (plus_cost c (shape_cost (unat (tool_size (model_tools m ! model_selected m)))))"
proof -
  let ?s = "unat (tool_size (model_tools m ! model_selected m))"
  define h where "h = 4 * (?s + 2)"
  have "h \<le> 264" using selected_size [OF assms(1)] by (simp add: h_def)
  then have sq: "h * h \<le> 69696" using le_mult [of h 264 h 264] by simp
  have "checked_accumulate c (shape_cost ?s) = Inr (plus_cost c (shape_cost ?s))"
    by (rule accumulate_ok [OF assms(2) shape_cost_below [OF selected_size [OF assms(1)]]])
      (use assms(3) in simp)
  moreover have "add ShapeLoopUnits ?s 2 = Inr (?s + 2)" "mul ShapeLoopUnits 4 (?s + 2) = Inr h"
      "mul ShapeLoopUnits h h = Inr (h * h)" "mul ShapeLoopUnits 64 (h * h) = Inr (64 * (h * h))"
      "mul ShapeFloodScalarPushes 4 (h * h) = Inr (4 * (h * h))"
      "add ShapeFloodScalarPushes (4 * (h * h)) 2 = Inr (4 * (h * h) + 2)"
      "mul TypedBackingBytes 12 (h * h) = Inr (12 * (h * h))"
    using sq \<open>h \<le> 264\<close> selected_size [OF assms(1)] by (simp_all add: add_ok mul_ok h_def)
  ultimately show ?thesis
    unfolding shape_def selected_ok [OF assms(1)] shape_cost_def Let_def h_def [symmetric]
    by (simp only: bindE_Inr)
qed

lemma tone_cost_below: "a \<le> 1048576 \<Longrightarrow> h \<le> 1024 \<Longrightarrow> below 33603633 (tone_cost a h)"
  by (auto simp: tone_cost_def intro!: below_upd)

definition tones :: "Model \<Rightarrow> CostCounters \<Rightarrow> Model \<times> CostCounters" where
  "tones m c =
     (if tool_id (model_tools m ! model_selected m) = 5 \<and> \<not> tone_maps_built m
      then (m\<lparr>tone_maps_built := True\<rparr>, plus_cost c (tone_cost (area m) (model_height m)))
      else (m, c))"

lemma tone_maps_ok:
  assumes "model_ok m" and "below B c" and "B \<le> 2 ^ 32"
  shows "tone_maps m c = Inr (tones m c)"
proof (cases "tool_id (model_tools m ! model_selected m) = 5 \<and> \<not> tone_maps_built m")
  case False
  then show ?thesis
    unfolding tone_maps_def tones_def selected_ok [OF assms(1)] bindE_Inr by (simp only: if_False)
next
  case True
  have a: "area m \<le> 1048576" "model_height m \<le> 1024"
    using assms(1) by (simp_all add: model_ok_def)
  have "checked_accumulate c (tone_cost (area m) (model_height m))
      = Inr (plus_cost c (tone_cost (area m) (model_height m)))"
    by (rule accumulate_ok [OF assms(2) tone_cost_below [OF a]]) (use assms(3) in simp)
  moreover have "mul TypedBackingBytes 16 (area m) = Inr (16 * area m)"
      "mul ToneMapCells 16 (area m) = Inr (16 * area m)" "mul ToneLoopUnits 32 (area m) = Inr (32 * area m)"
      "mul ToneLoopUnits 48 (model_height m) = Inr (48 * model_height m)"
      "sum_all ToneLoopUnits [32 * area m, 48 * model_height m, 49] = Inr (32 * area m + 48 * model_height m + 49)"
    using a by (simp_all add: mul_ok sum_all_ok)
  ultimately show ?thesis
    unfolding tone_maps_def selected_ok [OF assms(1)] tones_def tone_cost_def
    by (simp only: bindE_Inr True simp_thms if_True)
qed

lemma snapshot_cost_below: "a \<le> 1048576 \<Longrightarrow> below 4194304 (snapshot_cost a)"
  by (auto simp: snapshot_cost_def intro!: below_upd)

lemma snapshot_ok:
  assumes "model_ok m" and "below B c" and "B \<le> 2 ^ 32"
  shows "snapshot m c = Inr (plus_cost c (snapshot_cost (area m)))"
proof -
  have a: "area m \<le> 1048576"
    using assms(1) by (simp add: model_ok_def)
  have "checked_accumulate c (snapshot_cost (area m)) = Inr (plus_cost c (snapshot_cost (area m)))"
    by (rule accumulate_ok [OF assms(2) snapshot_cost_below [OF a]]) (use assms(3) in simp)
  moreover have "mul TypedBackingBytes 4 (area m) = Inr (4 * area m)" "mul TypedCopyBytes 4 (area m) = Inr (4 * area m)"
    using a by (simp_all add: mul_ok)
  ultimately show ?thesis
    unfolding snapshot_def snapshot_cost_def by (simp only: bindE_Inr)
qed

lemma brush_size_le: "unat (tool_size t) \<le> 64 \<Longrightarrow> brush_size t \<le> 128"
  by (auto simp: brush_size_def Let_def)

lemma brush_ok: "unat (tool_size t) \<le> 64 \<Longrightarrow> brush t = Inr (brush_size t)"
  by (auto simp: brush_def brush_size_def Let_def add_ok mul_ok)

text \<open>The sizes that bound one brush movement inside the canvas.\<close>

lemma paint_bounds:
  fixes b dx dy i :: nat
  assumes "b \<le> 128" and "dx < 1024" and "dy < 1024"
  shows "b * b \<le> 16384" "(dx + b) * (dy + b) \<le> 1324801"
    "i \<le> 1024 \<Longrightarrow> 10 * i * (b * b) \<le> 167772160"
    "i \<le> 1024 \<Longrightarrow> i * (30 * (b * b) + 3 * b + 1) \<le> 503710720"
proof -
  show sq: "b * b \<le> 16384"
    using le_mult [OF assms(1) assms(1)] by simp
  show "(dx + b) * (dy + b) \<le> 1324801"
    using le_mult [of "dx + b" 1151 "dy + b" 1151] assms by simp
  assume i: "i \<le> 1024"
  show "10 * i * (b * b) \<le> 167772160"
    using le_mult [of "10 * i" 10240 "b * b" 16384] i sq by simp
  show "i * (30 * (b * b) + 3 * b + 1) \<le> 503710720"
    using le_mult [of i 1024 "30 * (b * b) + 3 * b + 1" 491905] i sq assms(1) by simp
qed

lemma paint_ok:
  assumes m: "model_ok m" and dx: "dx < 1024" and dy: "dy < 1024"
  shows "paint m c dx dy is_start = Inr (painted m c dx dy is_start)"
proof -
  let ?t = "model_tools m ! model_selected m"
  define b where "b = brush_size ?t"
  define i where "i = stamps dx dy is_start"
  define rect where "rect = (dx + b) * (dy + b)"
  define tr where "tr = (if is_start then 0 else i)"
  define blur where "blur = (tool_id ?t = 7)"
  define st where "st = (if blur then 30 else 2) * (b * b) + 3 * b + 1"
  define cp where "cp = (if blur then 4 * rect + 6 * (dx + b) + 2 else 0)"
  have b: "b \<le> 128" "brush ?t = Inr b"
    using brush_size_le [OF selected_size [OF m]] brush_ok [OF selected_size [OF m]] by (simp_all add: b_def)
  have i: "i \<le> 1024" "(if is_start then Inr 1 else add BrushLoopUnits (max dx dy) 1) = Inr i"
    using dx dy by (auto simp: i_def stamps_def add_ok)
  note pb = paint_bounds [OF b(1) dx dy] and pbi = paint_bounds(3,4) [OF b(1) dx dy i(1)]
  have sq: "b * b \<le> 16384" and re: "rect \<le> 1324801"
    using pb(1,2) by (simp_all add: rect_def)
  have le1: "(if blur then 10 else 1) * i * (b * b) \<le> 167772160"
    using pbi(1) le_mult [OF i(1) sq] by (cases blur) simp_all
  have le2: "i * st \<le> 503710720"
  proof -
    have "st \<le> 30 * (b * b) + 3 * b + 1" by (simp add: st_def)
    then have "i * st \<le> i * (30 * (b * b) + 3 * b + 1)" by (rule mult_le_mono2)
    with pbi(2) show ?thesis by (rule le_trans [rotated])
  qed
  have x: "mul BrushLeafUnits (if blur then 10 else 1) i = Inr ((if blur then 10 else 1) * i)"
      "mul BrushLeafUnits ((if blur then 10 else 1) * i) (b * b) = Inr ((if blur then 10 else 1) * i * (b * b))"
      "(if blur then mul BrushLeafUnits 2 rect else Inr 0) = Inr (if blur then 2 * rect else 0)"
    using i(1) le1 re by (cases blur; simp add: mul_ok)+
  have y: "sum_all BrushLeafUnits [tr, (if blur then 10 else 1) * i * (b * b), if blur then 2 * rect else 0]
      = Inr (leaf_units ?t dx dy is_start)"
  proof -
    define lf where "lf = (if blur then 10 else 1) * i * (b * b)"
    have "tr + (lf + (if blur then 2 * rect else 0)) < 2 ^ 64"
      using i(1) le1 re by (auto simp: tr_def lf_def [symmetric])
    then show ?thesis
      unfolding leaf_units_def Let_def b_def [symmetric] i_def [symmetric] rect_def [symmetric]
        blur_def [symmetric] tr_def [symmetric] lf_def [symmetric]
      by (simp add: sum_all_ok add.assoc)
  qed
  have u: "mul BrushLoopUnits (if blur then 30 else 2) (b * b) = Inr ((if blur then 30 else 2) * (b * b))"
      "mul BrushLoopUnits 3 b = Inr (3 * b)"
      "sum_all BrushLoopUnits [(if blur then 30 else 2) * (b * b), 3 * b, 1] = Inr st"
    using sq b(1) by (auto simp: mul_ok sum_all_ok st_def)
  have v: "(if blur then bindE (mul BrushLoopUnits 4 rect) (\<lambda>p.
              bindE (mul BrushLoopUnits 6 (dx + b)) (\<lambda>k. sum_all BrushLoopUnits [p, k, 2]))
            else Inr 0) = Inr cp"
    using re b(1) dx by (auto simp: cp_def mul_ok sum_all_ok)
  have w: "mul BrushLoopUnits i st = Inr (i * st)"
      "sum_all BrushLoopUnits [tr, i * st, cp] = Inr (loop_units ?t dx dy is_start)"
  proof -
    show "mul BrushLoopUnits i st = Inr (i * st)"
      using le2 by (simp add: mul_ok)
    have "cp \<le> 5306112"
      using re b(1) dx by (simp add: cp_def)
    then have "tr + (i * st + cp) < 2 ^ 64"
      using le2 i(1) by (auto simp: tr_def)
    then show "sum_all BrushLoopUnits [tr, i * st, cp] = Inr (loop_units ?t dx dy is_start)"
      unfolding loop_units_def Let_def b_def [symmetric] i_def [symmetric]
        rect_def [symmetric] blur_def [symmetric] tr_def [symmetric] st_def [symmetric] cp_def [symmetric]
      by (simp add: sum_all_ok add.assoc)
  qed
  have r: "mul BrushLoopUnits b b = Inr (b * b)" "add BrushLoopUnits dx b = Inr (dx + b)"
      "add BrushLoopUnits dy b = Inr (dy + b)" "mul CanvasPutDirtyPixels (dx + b) (dy + b) = Inr rect"
    using sq re b(1) dx dy by (simp_all add: mul_ok add_ok rect_def)
  show ?thesis
    unfolding paint_def selected_ok [OF m] bindE_Inr b i r Let_def tr_def [symmetric] blur_def [symmetric]
      x y u v w painted_def b_def [symmetric] rect_def [symmetric] ..
qed


lemma painted_below:
  assumes m: "model_ok m" and dx: "dx < 1024" and dy: "dy < 1024" and c: "below 600000000 c"
  shows "below 600000000 (painted m c dx dy is_start)"
proof -
  let ?t = "model_tools m ! model_selected m"
  define b where "b = brush_size ?t"
  define i where "i = stamps dx dy is_start"
  have b: "b \<le> 128"
    using brush_size_le [OF selected_size [OF m]] by (simp add: b_def)
  have i: "i \<le> 1024"
    using dx dy by (auto simp: i_def stamps_def)
  note pb = paint_bounds [OF b dx dy] and pbi = paint_bounds(3,4) [OF b dx dy i]
  define blur where "blur = (tool_id ?t = 7)"
  define lf where "lf = (if blur then 10 else 1) * i * (b * b)"
  define lp where "lp = i * ((if blur then 30 else 2) * (b * b) + 3 * b + 1)"
  have "lf \<le> 167772160"
    using pbi(1) le_mult [OF i pb(1)] by (cases blur) (simp_all add: lf_def)
  then have "leaf_units ?t dx dy is_start \<le> 600000000"
    using pb(2) i unfolding leaf_units_def Let_def b_def [symmetric] i_def [symmetric]
      blur_def [symmetric] lf_def [symmetric] by auto
  moreover have "lp \<le> i * (30 * (b * b) + 3 * b + 1)"
    unfolding lp_def by (rule mult_le_mono2) simp
  then have "loop_units ?t dx dy is_start \<le> 600000000"
    using pb(2) pbi(2) i dx b unfolding loop_units_def Let_def b_def [symmetric] i_def [symmetric]
      blur_def [symmetric] lp_def [symmetric] by auto
  moreover have "area m \<le> 600000000"
    using m by (simp add: model_ok_def)
  ultimately show ?thesis
    using c pb(2) unfolding painted_def Let_def put_def b_def [symmetric]
    by (intro below_upd) simp_all
qed

section \<open>Events\<close>

text \<open>The model after an event and the event's cost, without overflow checks.\<close>

definition event_spec :: "UntrustedReplayEventKind \<Rightarrow> Model \<Rightarrow> Model \<times> CostCounters" where
  "event_spec e m =
     (let d = one_event;
          start = (\<lambda>x y. let (m, d) = tones m (plus_cost d (snapshot_cost (area m)))
                         in (m\<lparr>model_position := (x, y)\<rparr>, painted m d 0 0 True));
          move = (\<lambda>x y. (m\<lparr>model_position := (x, y)\<rparr>,
            painted m d (abs_diff (fst (model_position m)) x) (abs_diff (snd (model_position m)) y) False));
          history = (m, (preview m (put m (plus_cost d (snapshot_cost (area m))) (area m)))
            (HistoryRestoreEnvelopes := 1));
          shaped = (\<lambda>m d. (m, plus_cost d (shape_cost (unat (tool_size (model_tools m ! model_selected m))))));
          setting = (\<lambda>f. shaped (m\<lparr>model_tools := (model_tools m)
            [model_selected m := f (model_tools m ! model_selected m)]\<rparr>) d)
      in case e of
        DrawStart x y _ \<Rightarrow> start x y
      | DrawStartNoPressure x y \<Rightarrow> start x y
      | Draw x y _ \<Rightarrow> move x y
      | DrawNoPressure x y \<Rightarrow> move x y
      | DrawCommit \<Rightarrow> (m, preview m ((plus_cost d (snapshot_cost (area m)))
          (TypedClearBytes := 8 * area m, CommittedStrokes := 1)))
      | Undo \<Rightarrow> history
      | Redo \<Rightarrow> history
      | AddLayer \<Rightarrow> (m, d(TypedBackingBytes := 4 * area m, CanvasSurfacePixels := area m,
            PreviewSurfacePixels := PREVIEW_AREA, CanvasGetCalls := 1, CanvasGetPixels := area m))
      | SetTool i \<Rightarrow> (let (m, d) = tones (m\<lparr>model_selected := unat (i - 1)\<rparr>) d in shaped m d)
      | SetToolSize v \<Rightarrow> setting (\<lambda>t. t\<lparr>tool_size := v\<rparr>)
      | SetToolTip v \<Rightarrow> setting (\<lambda>t. t\<lparr>tip_id := v\<rparr>)
      | SetToolAlpha _ \<Rightarrow> tones m d
      | _ \<Rightarrow> (m, d))"

text \<open>The events the state check lets through, as far as the cost model needs to know.\<close>

definition inside :: "i16 \<Rightarrow> i16 \<Rightarrow> bool" where
  "inside x y \<longleftrightarrow> 0 \<le> sint x \<and> sint x < 1024 \<and> 0 \<le> sint y \<and> sint y < 1024"

fun cost_allowed :: "UntrustedReplayEventKind \<Rightarrow> bool" where
  "cost_allowed (DrawStart x y _) \<longleftrightarrow> inside x y"
| "cost_allowed (Draw x y _) \<longleftrightarrow> inside x y"
| "cost_allowed (DrawStartNoPressure x y) \<longleftrightarrow> inside x y"
| "cost_allowed (DrawNoPressure x y) \<longleftrightarrow> inside x y"
| "cost_allowed (SetTool i) \<longleftrightarrow> 1 \<le> i \<and> i \<le> 8"
| "cost_allowed (SetToolSize v) \<longleftrightarrow> v \<le> 64"
| "cost_allowed (SetToolSizeDynamics _) \<longleftrightarrow> False"
| "cost_allowed (SetToolAlphaDynamics _) \<longleftrightarrow> False"
| "cost_allowed (SetToolFlowDynamics _) \<longleftrightarrow> False"
| "cost_allowed DeleteLayers \<longleftrightarrow> False"
| "cost_allowed (MoveLayers _) \<longleftrightarrow> False"
| "cost_allowed MergeLayers \<longleftrightarrow> False"
| "cost_allowed _ \<longleftrightarrow> True"

lemma abs_diff_less: "inside x y \<Longrightarrow> inside x' y' \<Longrightarrow> abs_diff x x' < 1024 \<and> abs_diff y y' < 1024"
  by (auto simp: inside_def abs_diff_def)

lemma model_position_inside: "model_ok m \<Longrightarrow> inside (fst (model_position m)) (snd (model_position m))"
  by (simp add: model_ok_def inside_def)

lemma tones_ok: "model_ok m \<Longrightarrow> tones m c = (m', c') \<Longrightarrow> model_ok m' \<and> area m' = area m
    \<and> model_tools m' = model_tools m \<and> model_selected m' = model_selected m"
  by (auto simp: tones_def model_ok_def split: if_split_asm)

lemma tones_below:
  assumes "model_ok m" and "below B c" and "tones m c = (m', c')"
  shows "below (B + 33603633) c'"
proof -
  have "below 33603633 (tone_cost (area m) (model_height m))"
    using assms(1) by (intro tone_cost_below) (simp_all add: model_ok_def)
  then show ?thesis
    using assms below_plus [OF assms(2)] below_mono [OF assms(2), of "B + 33603633"]
    by (auto simp: tones_def split: if_split_asm)
qed

definition event_fine :: "nat \<Rightarrow> UntrustedReplayEventKind \<Rightarrow> Model \<Rightarrow> bool" where
  "event_fine i e m \<longleftrightarrow> event_cost i e m = Inr (event_spec e m)
     \<and> model_ok (fst (event_spec e m)) \<and> below 1000000000 (snd (event_spec e m))"

lemma below_one: "below 1 (one_event)"
  by (simp add: below_def one_event_def no_cost_def)

lemma below_event: "below 1000000000 one_event"
  by (rule below_mono [OF below_one]) simp

lemma below_snapshot:
  "model_ok m \<Longrightarrow> below 4194305 (plus_cost (one_event) (snapshot_cost (area m)))"
  using below_plus [OF below_one snapshot_cost_below [of "area m"]] by (simp add: model_ok_def)

lemma start_fine:
  assumes m: "model_ok m" and xy: "inside x y" and e: "e = DrawStart x y p \<or> e = DrawStartNoPressure x y"
  shows "event_fine i e m"
proof -
  let ?d = "one_event"
  let ?s = "plus_cost ?d (snapshot_cost (area m))"
  obtain m' c' where t: "tones m ?s = (m', c')" by fastforce
  have snap: "snapshot m ?d = Inr ?s"
    by (rule snapshot_ok [OF m below_one]) simp
  have tone: "tone_maps m ?s = Inr (m', c')"
    unfolding t [symmetric] by (rule tone_maps_ok [OF m below_snapshot [OF m]]) simp
  have m': "model_ok m'" using tones_ok [OF m t] by blast
  have c': "below 600000000 c'"
    using tones_below [OF m below_snapshot [OF m] t] by (rule below_mono) simp
  have paint: "paint m' c' 0 0 True = Inr (painted m' c' 0 0 True)"
    by (rule paint_ok [OF m']) simp_all
  have "below 1000000000 (painted m' c' 0 0 True)"
    using painted_below [OF m' _ _ c', of 0 0 True] by (auto intro: below_mono)
  moreover have "model_ok (m'\<lparr>model_position := (x, y)\<rparr>)"
    using m' xy by (simp add: model_ok_def inside_def)
  ultimately show ?thesis
    using e by (auto simp: event_fine_def event_cost_def event_spec_def Let_def snap tone paint t)
qed

lemma move_fine:
  assumes m: "model_ok m" and xy: "inside x y" and e: "e = Draw x y p \<or> e = DrawNoPressure x y"
  shows "event_fine i e m"
proof -
  let ?d = "one_event" and ?dx = "abs_diff (fst (model_position m)) x"
    and ?dy = "abs_diff (snd (model_position m)) y"
  have d: "?dx < 1024" "?dy < 1024"
    using abs_diff_less [OF model_position_inside [OF m] xy] by simp_all
  have paint: "paint m ?d ?dx ?dy False = Inr (painted m ?d ?dx ?dy False)"
    by (rule paint_ok [OF m d])
  have "below 1000000000 (painted m ?d ?dx ?dy False)"
    by (rule below_mono [OF painted_below [OF m d below_mono [OF below_one]]]) simp_all
  moreover have "model_ok (m\<lparr>model_position := (x, y)\<rparr>)"
    using m xy by (simp add: model_ok_def inside_def)
  ultimately show ?thesis
    using e paint by (auto simp: event_fine_def event_cost_def event_spec_def Let_def)
qed

lemma history_fine:
  assumes m: "model_ok m" and e: "e = Undo \<or> e = Redo \<or> e = DrawCommit"
  shows "event_fine i e m"
proof -
  let ?d = "one_event"
  let ?s = "plus_cost ?d (snapshot_cost (area m))"
  have a: "area m \<le> 1048576" using m by (simp add: model_ok_def)
  have snap: "snapshot m ?d = Inr ?s"
    by (rule snapshot_ok [OF m below_one]) simp
  have clear: "mul TypedClearBytes 8 (area m) = Inr (8 * area m)"
    using a by (simp add: mul_ok)
  have s: "below 1000000000 ?s"
    by (rule below_mono [OF below_snapshot [OF m]]) simp
  show ?thesis
    using e a s m by (auto simp: event_fine_def event_cost_def event_spec_def Let_def snap clear
        preview_def put_def intro!: below_upd)
qed

lemma set_tool_fine:
  assumes m: "model_ok m" and k: "1 \<le> k" "k \<le> 8"
  shows "event_fine i (SetTool k) m"
proof -
  let ?d = "one_event" and ?m = "m\<lparr>model_selected := unat (k - 1)\<rparr>"
  have "k \<noteq> 0" using k by auto
  have "unat (k - 1) < 8"
    using k by (simp add: unat_sub word_le_nat_alt)
  then have m1: "model_ok ?m" using m by (simp add: model_ok_def)
  obtain m' c' where t: "tones ?m ?d = (m', c')" by fastforce
  have tone: "tone_maps ?m ?d = Inr (m', c')"
    unfolding t [symmetric] by (rule tone_maps_ok [OF m1 below_one]) simp
  have m': "model_ok m'" using tones_ok [OF m1 t] by blast
  have c': "below 33603634 c'"
    using tones_below [OF m1 below_one t] by simp
  let ?sc = "shape_cost (unat (tool_size (model_tools m' ! model_selected m')))"
  have shape: "shape m' c' = Inr (plus_cost c' ?sc)"
    by (rule shape_ok [OF m' c']) simp
  have "below 1000000000 (plus_cost c' ?sc)"
    by (rule below_mono [OF below_plus [OF c' shape_cost_below [OF selected_size [OF m']]]]) simp
  then show ?thesis
    using m' \<open>k \<noteq> 0\<close> by (simp add: event_fine_def event_cost_def event_spec_def Let_def tone shape t)
qed

lemma setting_fine:
  assumes m: "model_ok m" and e: "e = SetToolSize v \<and> v \<le> 64 \<or> e = SetToolTip v"
  shows "event_fine i e m"
proof -
  let ?d = "one_event"
  have ok: "\<exists>m'. m' = m\<lparr>model_tools := (model_tools m)[model_selected m := t]\<rparr> \<and> model_ok m'
      \<and> shape m' ?d = Inr (plus_cost ?d (shape_cost (unat (tool_size (model_tools m' ! model_selected m')))))
      \<and> below 1000000000 (plus_cost ?d (shape_cost (unat (tool_size (model_tools m' ! model_selected m')))))"
    if "unat (tool_size t) \<le> 64" for t
  proof (intro exI conjI)
    let ?m = "m\<lparr>model_tools := (model_tools m)[model_selected m := t]\<rparr>"
    show "?m = ?m" ..
    show m1: "model_ok ?m"
      using m that set_update_subset_insert [of "model_tools m" "model_selected m" t]
      by (auto simp: model_ok_def)
    show "shape ?m ?d = Inr (plus_cost ?d (shape_cost (unat (tool_size (model_tools ?m ! model_selected ?m)))))"
      by (rule shape_ok [OF m1 below_one]) simp
    show "below 1000000000 (plus_cost ?d (shape_cost (unat (tool_size (model_tools ?m ! model_selected ?m)))))"
      by (rule below_mono [OF below_plus [OF below_one shape_cost_below [OF selected_size [OF m1]]]]) simp
  qed
  have sel: "model_selected m < length (model_tools m)"
    using m by (simp add: model_ok_def)
  let ?t = "model_tools m ! model_selected m"
  show ?thesis
  proof (cases "e = SetToolSize v \<and> v \<le> 64")
    case True
    then have "unat (tool_size (?t\<lparr>tool_size := v\<rparr>)) \<le> 64"
      by (simp add: word_le_nat_alt)
    from ok [OF this] True sel show ?thesis
      by (auto simp: event_fine_def event_cost_def event_spec_def Let_def simp del: nth_list_update_eq)
  next
    case False
    then have e: "e = SetToolTip v" using e by blast
    have "unat (tool_size (?t\<lparr>tip_id := v\<rparr>)) \<le> 64"
      using selected_size [OF m] by simp
    from ok [OF this] e sel show ?thesis
      by (auto simp: event_fine_def event_cost_def event_spec_def Let_def simp del: nth_list_update_eq)
  qed
qed

lemma plain_fine:
  assumes m: "model_ok m" and "e = SetToolAlpha v \<or> e = AddLayer"
  shows "event_fine i e m"
proof -
  let ?d = "one_event"
  obtain m' c' where t: "tones m ?d = (m', c')" by fastforce
  have tone: "tone_maps m ?d = Inr (m', c')"
    unfolding t [symmetric] by (rule tone_maps_ok [OF m below_one]) simp
  have m': "model_ok m'" using tones_ok [OF m t] by blast
  have c': "below 1000000000 c'"
    using tones_below [OF m below_one t] by (rule below_mono) simp
  have a: "area m \<le> 1048576" using m by (simp add: model_ok_def)
  have "mul TypedBackingBytes 4 (area m) = Inr (4 * area m)"
    using a by (simp add: mul_ok)
  then show ?thesis
    using assms a m' c' by (auto simp: event_fine_def event_cost_def event_spec_def Let_def tone t
        intro!: below_upd below_event)
qed

lemma event_fine:
  assumes "model_ok m" and "cost_allowed e"
  shows "event_fine i e m"
proof -
  have e1: "event_fine i e' m"
    if "event_cost i e' m = Inr (m, one_event)" "event_spec e' m = (m, one_event)" for e'
    using that assms(1) below_event by (simp add: event_fine_def)
  show ?thesis
    using assms(2)
    by (cases e) (auto intro: start_fine [OF assms(1)] move_fine [OF assms(1)] history_fine [OF assms(1)]
      set_tool_fine [OF assms(1)] setting_fine [OF assms(1)] plain_fine [OF assms(1)] e1
      simp: event_cost_def event_spec_def)
qed


section \<open>The whole estimate\<close>

text \<open>The events' costs one after the other.\<close>

fun costs_of :: "UntrustedReplayEventKind list \<Rightarrow> Model \<Rightarrow> CostCounters list" where
  "costs_of [] m = []"
| "costs_of (e # es) m = (let (m', d) = event_spec e m in d # costs_of es m')"

lemma length_costs_of [simp]: "length (costs_of es m) = length es"
  by (induction es arbitrary: m) (simp_all split: prod.split)

definition sum_costs :: "CostCounters \<Rightarrow> CostCounters list \<Rightarrow> CostCounters" where
  "sum_costs c ds = foldl plus_cost c ds"

definition max_costs :: "CostCounters \<Rightarrow> CostCounters list \<Rightarrow> CostCounters" where
  "max_costs c ds = foldl component_max c ds"

lemma sum_costs_eq: "sum_costs c ds k = c k + sum_list (map (\<lambda>d. d k) ds)"
  by (induction ds arbitrary: c) (simp_all add: sum_costs_def plus_cost_def)

lemma max_costs_le_sum: "max_costs p ds k \<le> p k + sum_list (map (\<lambda>d. d k) ds)"
proof (induction ds arbitrary: p)
  case (Cons d ds)
  have "max_costs (component_max p d) ds k \<le> component_max p d k + sum_list (map (\<lambda>d. d k) ds)"
    by (rule Cons.IH)
  then show ?case by (simp add: max_costs_def component_max_def)
qed (simp add: max_costs_def)

lemma event_costs_ok:
  assumes "model_ok m" and "list_all cost_allowed es" and "below B tot"
    and "B + length es * 1000000000 < 2 ^ 64"
  shows "event_costs i es m tot peak = Inr (sum_costs tot (costs_of es m), max_costs peak (costs_of es m))
     \<and> below (B + length es * 1000000000) (sum_costs tot (costs_of es m))"
  using assms
proof (induction es arbitrary: i m tot peak B)
  case Nil
  then show ?case by (simp add: sum_costs_def max_costs_def)
next
  case (Cons e es)
  obtain m' d where spec: "event_spec e m = (m', d)" by fastforce
  have fine: "event_cost i e m = Inr (m', d)" "model_ok m'" "below 1000000000 d"
    using event_fine [OF Cons.prems(1), of e i] Cons.prems(2) by (simp_all add: event_fine_def spec)
  have acc: "checked_accumulate tot d = Inr (plus_cost tot d)"
    using Cons.prems(4) by (intro accumulate_ok [OF Cons.prems(3) fine(3)]) simp
  have "below (B + 1000000000) (plus_cost tot d)"
    by (rule below_plus [OF Cons.prems(3) fine(3)])
  from Cons.IH [OF fine(2) _ this, of "i + 1" "component_max peak d"] Cons.prems(2,4) show ?case
    by (simp add: fine(1) acc spec sum_costs_def max_costs_def add.assoc)
qed

definition start_model :: "UntrustedReplay \<Rightarrow> Model" where
  "start_model r = \<lparr>area = unat (width (metadata r)) * unat (height (metadata r)),
     model_height = unat (height (metadata r)), model_tools = tools r,
     model_selected = unat (meta_tool_id (metadata r) - 1), tone_maps_built = False,
     model_position = (0, 0)\<rparr>"

definition setup_spec :: "UntrustedReplay \<Rightarrow> Model \<times> CostCounters" where
  "setup_spec r =
     (let m = start_model r;
          (m, c) = tones m (no_cost(TypedBackingBytes := 12 * area m, CanvasSurfacePixels := 2 * area m,
            PreviewSurfacePixels := 576, CanvasGetCalls := 1, CanvasGetPixels := area m,
            CanvasFillCalls := 1, CanvasFillPixels := area m))
      in (m, plus_cost c (shape_cost (unat (tool_size (model_tools m ! model_selected m))))))"

definition flatten_spec :: "UntrustedReplay \<Rightarrow> ReplayState \<Rightarrow> CostCounters" where
  "flatten_spec r s =
     (let a = area (start_model r); calls = 1 + length (filter visible (layers s)) in
      no_cost(CanvasSurfacePixels := a, FlattenDrawCalls := calls,
        FlattenSourcePixels := calls * a, FlattenDestinationPixels := calls * a))"

definition replay_fine :: "UntrustedReplay \<Rightarrow> ReplayState \<Rightarrow> bool" where
  "replay_fine r s \<longleftrightarrow> metadata_ok (metadata r) \<and> length (tools r) = 8
     \<and> (\<forall>t\<in>set (tools r). tool_size t \<le> 64) \<and> length (events r) \<le> 16384
     \<and> list_all cost_allowed (map kind (events r)) \<and> length (layers s) \<le> 8"

lemma start_model_ok:
  assumes "replay_fine r s"
  shows "model_ok (start_model r)"
proof -
  have w: "unat (width (metadata r)) \<le> 1024" "unat (height (metadata r)) \<le> 1024"
    using assms by (simp_all add: replay_fine_def metadata_ok_def word_le_nat_alt)
  have "unat (meta_tool_id (metadata r) - 1) < 8"
    using assms by (auto simp: replay_fine_def metadata_ok_def unat_sub word_le_nat_alt)
  then show ?thesis
    using assms w le_mult [OF w] by (simp add: model_ok_def start_model_def replay_fine_def word_le_nat_alt)
qed

lemma flatten_calls_ok:
  "n + length ls < 2 ^ 64 \<Longrightarrow> flatten_calls n ls = Inr (n + length (filter visible ls))"
  by (induction ls arbitrary: n) (simp_all add: add_ok)

lemma initial_cost_ok:
  assumes "replay_fine r s"
  shows "initial_cost (area (start_model r)) (start_model r) = Inr (setup_spec r)
     \<and> model_ok (fst (setup_spec r)) \<and> below 1000000000 (snd (setup_spec r))"
proof -
  note m = start_model_ok [OF assms]
  define a where "a = area (start_model r)"
  have a: "a \<le> 1048576" using m by (simp add: model_ok_def a_def)
  define c where "c = no_cost(TypedBackingBytes := 12 * a, CanvasSurfacePixels := 2 * a,
            PreviewSurfacePixels := 576, CanvasGetCalls := 1, CanvasGetPixels := a,
            CanvasFillCalls := 1, CanvasFillPixels := a)"
  have c: "below 12582912 c"
    using a by (auto simp: c_def intro!: below_upd)
  obtain m' c' where t: "tones (start_model r) c = (m', c')" by fastforce
  have tone: "tone_maps (start_model r) c = Inr (m', c')"
    unfolding t [symmetric] by (rule tone_maps_ok [OF m c]) simp
  have m': "model_ok m'" using tones_ok [OF m t] by blast
  have c': "below 46186545 c'"
    using tones_below [OF m c t] by simp
  let ?sc = "shape_cost (unat (tool_size (model_tools m' ! model_selected m')))"
  have shape: "shape m' c' = Inr (plus_cost c' ?sc)"
    by (rule shape_ok [OF m' c']) simp
  have below: "below 1000000000 (plus_cost c' ?sc)"
    by (rule below_mono [OF below_plus [OF c' shape_cost_below [OF selected_size [OF m']]]]) simp
  have spec: "setup_spec r = (m', plus_cost c' ?sc)"
    unfolding setup_spec_def Let_def a_def [symmetric] c_def [symmetric] t by simp
  have "mul TypedBackingBytes 12 a = Inr (12 * a)" "mul CanvasSurfacePixels 2 a = Inr (2 * a)"
    using a by (simp_all add: mul_ok)
  then have "initial_cost a (start_model r) = Inr (m', plus_cost c' ?sc)"
    unfolding initial_cost_def Let_def PREVIEW_AREA_def
    using tone shape by (simp add: c_def del: fun_upd_apply)
  then show ?thesis
    using m' below by (simp add: spec a_def)
qed


definition cost_spec :: "UntrustedReplay \<Rightarrow> ReplayState \<Rightarrow> bool \<Rightarrow> ReplayCost" where
  "cost_spec r s fl =
     (let (m, init_cost) = setup_spec r; ds = costs_of (map kind (events r)) m;
          flat = (if fl then flatten_spec r s else no_cost)
      in \<lparr>total_cost = plus_cost (sum_costs init_cost ds) flat, peak_event = max_costs no_cost ds,
          initialization = init_cost, final_flatten = flat\<rparr>)"

lemma plus_no_cost [simp]: "plus_cost c no_cost = c"
  by (simp add: plus_cost_def no_cost_def)

lemma flatten_ok:
  assumes "replay_fine r s" and "below B c" and "B < 2 ^ 63"
  shows "bindE (flatten_calls 1 (layers s)) (\<lambda>calls.
      bindE (mul FlattenSourcePixels calls (area (start_model r))) (\<lambda>src.
      bindE (mul FlattenDestinationPixels calls (area (start_model r))) (\<lambda>dst.
      let flat = no_cost(CanvasSurfacePixels := area (start_model r), FlattenDrawCalls := calls,
            FlattenSourcePixels := src, FlattenDestinationPixels := dst) in
      bindE (checked_accumulate c flat) (\<lambda>tot. Inr (f tot flat)))))
    = Inr (f (plus_cost c (flatten_spec r s)) (flatten_spec r s))"
proof -
  let ?a = "area (start_model r)"
  define n where "n = 1 + length (filter visible (layers s))"
  have a: "?a \<le> 1048576"
    using start_model_ok [OF assms(1)] by (simp add: model_ok_def)
  have len: "length (layers s) \<le> 8" using assms(1) by (simp add: replay_fine_def)
  then have n: "n \<le> 9"
    using le_trans [OF length_filter_le [of visible "layers s"]] by (simp add: n_def)
  have calls: "flatten_calls 1 (layers s) = Inr n"
    using flatten_calls_ok [of 1 "layers s"] len by (simp add: n_def)
  have na: "n * ?a \<le> 9437184" using le_mult [OF n a] by simp
  have spec: "flatten_spec r s = no_cost(CanvasSurfacePixels := ?a, FlattenDrawCalls := n,
      FlattenSourcePixels := n * ?a, FlattenDestinationPixels := n * ?a)"
    by (simp add: flatten_spec_def Let_def n_def)
  have "below 9437184 (flatten_spec r s)"
    unfolding spec using a n na by (intro below_upd) simp_all
  then have acc: "checked_accumulate c (flatten_spec r s) = Inr (plus_cost c (flatten_spec r s))"
  proof (intro accumulate_ok [OF assms(2)])
    have "B + 9437184 < 2 ^ 63 + 2 ^ 63" using assms(3) by (intro add_strict_mono) simp_all
    then show "B + 9437184 < 2 ^ 64" by simp
  qed
  have mulk: "mul k n ?a = Inr (n * ?a)" for k
    using na by (simp add: mul_ok)
  show ?thesis
    unfolding calls bindE_Inr mulk Let_def spec [symmetric] acc ..
qed

lemma estimate_ok:
  assumes fine: "replay_fine r s"
  shows "estimate (r, s) fl = Inr (cost_spec r s fl)"
proof -
  let ?a = "area (start_model r)" and ?es = "map kind (events r)"
  note m = start_model_ok [OF fine]
  have a: "mul CanvasSurfacePixels (unat (width (metadata r))) (unat (height (metadata r))) = Inr ?a"
    using m by (simp add: mul_ok model_ok_def start_model_def)
  have tool: "meta_tool_id (metadata r) \<noteq> 0"
    using fine by (auto simp: replay_fine_def metadata_ok_def)
  obtain m0 init_cost where spec: "setup_spec r = (m0, init_cost)" by fastforce
  note init = initial_cost_ok [OF fine, unfolded spec, simplified]
  have len: "length ?es \<le> 16384" using fine by (simp add: replay_fine_def)
  have bound: "(1000000000::nat) + length ?es * 1000000000 < 2 ^ 64"
    using len by simp
  have costs: "event_costs 0 ?es m0 init_cost no_cost
        = Inr (sum_costs init_cost (costs_of ?es m0), max_costs no_cost (costs_of ?es m0))"
      "below (1000000000 + length ?es * 1000000000) (sum_costs init_cost (costs_of ?es m0))"
    using event_costs_ok [OF _ _ _ bound, of m0 init_cost 0 no_cost] init fine
    by (simp_all add: replay_fine_def)
  have b63: "1000000000 + length ?es * 1000000000 < 2 ^ 63" using len by simp
  note fl = flatten_ok [OF fine costs(2) b63, of "\<lambda>tot flat. \<lparr>total_cost = tot,
    peak_event = max_costs no_cost (costs_of ?es m0), initialization = init_cost, final_flatten = flat\<rparr>"]
  have sm: "\<lparr>area = ?a, model_height = unat (height (metadata r)), model_tools = tools r,
       model_selected = unat (meta_tool_id (metadata r) - 1), tone_maps_built = False,
       model_position = (0, 0)\<rparr> = start_model r"
    by (simp add: start_model_def)
  show ?thesis
  proof (cases fl)
    case True
    then show ?thesis
      unfolding estimate_def Let_def prod.case a bindE_Inr if_not_P [OF tool] sm conjunct1 [OF init]
        costs(1) cost_spec_def spec using fl by (simp add: Let_def)
  next
    case False
    then show ?thesis
      unfolding estimate_def Let_def prod.case a bindE_Inr if_not_P [OF tool] sm conjunct1 [OF init]
        costs(1) cost_spec_def spec by simp
  qed
qed

section \<open>A state-checked replay is within the model\<close>

lemma below_1024:
  assumes "coordinates r x y = Inr u" and "metadata_ok (metadata r)"
  shows "inside x y"
proof -
  have c: "0 \<le> sint x" "0 \<le> sint y" "x < width (metadata r)" "y < height (metadata r)"
    using assms(1) by (auto simp: coordinates_def not_le split: if_split_asm)
  have s: "sint z = uint z" if "0 \<le> sint z" for z :: "16 word"
    using that sint_less [of z] by (simp add: uint_sint take_bit_int_eq_self)
  have "uint x < 1024" "uint y < 1024"
    using c(3,4) assms(2) unfolding metadata_ok_def by (simp_all add: word_less_def word_le_def)
  then show ?thesis
    using c s [of x] s [of y] by (simp add: inside_def)
qed

lemma event_cost_allowed:
  assumes "event r i k s = Inr s'" and "metadata_ok (metadata r)"
  shows "cost_allowed k"
  using assms unfolding event_def
  by (cases k) (auto simp: bindE_eq_Inr not_less split: if_split_asm dest: below_1024 supported_range)

lemma run_cost_allowed:
  "foldE (event_step r) (t, s) (enumerate i es) = Inr ps \<Longrightarrow> metadata_ok (metadata r) \<Longrightarrow>
     list_all cost_allowed (map kind es)"
proof (induction es arbitrary: i t s)
  case (Cons e es)
  then show ?case
    unfolding run_step_iff by (auto dest: event_cost_allowed)
qed simp

lemma checked_fine:
  assumes "check_core_v1 r = Inr s" and "length (tools r) = 8"
  shows "replay_fine r s"
proof (rule check_core_v1_Inr [OF assms], goal_cases)
  case (1 s0 t)
  have "list_all cost_allowed (map kind (events r))"
    by (rule run_cost_allowed [OF 1(16) 1(4)])
  moreover have "length (layers s) \<le> 8"
    using check_core_v1_inv [OF assms] by (simp add: state_inv_def layers_inv_def)
  moreover have "tool_size t \<le> 64" if "t \<in> set (tools r)" for t
    using core_run_facts(1) [OF assms] that assms(2)
    by (auto simp: in_envelope_def Let_def tool_in_envelope_def in_set_conv_nth)
  ultimately show ?case
    using 1 assms(2) by (simp add: replay_fine_def)
qed

end
