(* ===== verification/Streams.thy ===== *)
theory Streams
  imports Foundations
begin

unbundle bit_operations_syntax

text \<open>
  Byte streams, as the programs use \<open>std::io::Read\<close>, \<open>tokio::io::AsyncRead\<close> and
  \<open>AsyncWrite\<close>. A reader is the list of the bytes still to come and whether the stream then fails
  instead of ending; \<open>read_exact\<close> takes what it needs or fails. A sink is what has been sent, how
  much the peer still takes, and whether closing succeeds. The lemmas give each reading loop as
  one equation on the bytes, so that protocol proofs never look at the chunks.
\<close>

section \<open>Eight-byte numbers and big-endian fields at an offset\<close>

type_synonym u64 = "64 word"

definition be64 :: "u64 \<Rightarrow> bytes" where
  "be64 w = be32 (ucast (drop_bit 32 w)) @ be32 (ucast w)"

definition at16 :: "bytes \<Rightarrow> nat \<Rightarrow> u16" where
  "at16 bs i = of_be16 (bs ! i) (bs ! (i + 1))"

definition at32 :: "bytes \<Rightarrow> nat \<Rightarrow> u32" where
  "at32 bs i = of_be32 (bs ! i) (bs ! (i + 1)) (bs ! (i + 2)) (bs ! (i + 3))"

definition at64 :: "bytes \<Rightarrow> nat \<Rightarrow> u64" where
  "at64 bs i = push_bit 32 (ucast (at32 bs i)) OR ucast (at32 bs (i + 4))"

lemma length_be64 [simp, codec_simps]: "length (be64 w) = 8"
  by (simp add: be64_def)

lemma join_words [simp]:
  "push_bit 32 (ucast (ucast (drop_bit 32 w) :: u32)) OR ucast (ucast w :: u32) = (w :: u64)"
proof (rule bit_word_eqI)
  fix n
  assume n: "n < LENGTH(64)"
  then show "bit (push_bit 32 (ucast (ucast (drop_bit 32 w) :: u32)) OR ucast (ucast w :: u32) :: u64) n = bit w n"
    by (cases "n < 32") (auto simp: bit_simps)
qed

lemma split_words:
  "ucast (drop_bit 32 (push_bit 32 (ucast a) OR ucast b :: u64)) = (a :: u32)"
  "ucast (push_bit 32 (ucast a) OR ucast b :: u64) = (b :: u32)"
  by (rule bit_word_eqI, auto simp: bit_simps dest: bit_imp_le_length)+

lemma nth_append_right': "i = length xs + j \<Longrightarrow> (xs @ ys) ! i = ys ! j"
  by simp

lemma be16_nth [simp]: "of_be16 (be16 w ! 0) (be16 w ! Suc 0) = w"
  by (simp add: be16_def)

lemma be32_nth [simp]:
  "of_be32 (be32 w ! 0) (be32 w ! Suc 0) (be32 w ! 2) (be32 w ! 3) = w"
  by (simp add: be32_def)

lemma at16_field: "length xs = i \<Longrightarrow> at16 (xs @ be16 w @ ys) i = w"
  by (simp add: at16_def nth_append)

lemma at32_field: "length xs = i \<Longrightarrow> at32 (xs @ be32 w @ ys) i = w"
  by (simp add: at32_def nth_append)

lemma at64_field: "length xs = i \<Longrightarrow> at64 (xs @ be64 w @ ys) i = w"
  using at32_field [of xs i "ucast (drop_bit 32 w)" "be32 (ucast w) @ ys"]
    at32_field [of "xs @ be32 (ucast (drop_bit 32 w))" "i + 4" "ucast w" ys]
  by (simp add: at64_def be64_def)

lemma be16_at16: "length bs = 2 \<Longrightarrow> be16 (at16 bs 0) = bs"
  by (auto simp: at16_def be16_of_be16 eval_nat_numeral length_Suc_conv)

lemma be32_at32: "length bs = 4 \<Longrightarrow> be32 (at32 bs 0) = bs"
  by (auto simp: at32_def be32_of_be32 eval_nat_numeral length_Suc_conv)

lemma at32_split: "length bs = 8 \<Longrightarrow> at32 bs 0 = at32 (take 4 bs) 0 \<and> at32 bs 4 = at32 (drop 4 bs) 0"
  by (simp add: at32_def)

lemma be64_at64: "length bs = 8 \<Longrightarrow> be64 (at64 bs 0) = bs"
  using be32_at32 [of "take 4 bs"] be32_at32 [of "drop 4 bs"] at32_split [of bs]
  by (simp only: at64_def be64_def split_words add_0) simp

lemma at16_drop: "i + 2 \<le> length bs \<Longrightarrow> at16 bs i = at16 (take 2 (drop i bs)) 0"
  by (simp add: at16_def)

lemma at32_drop: "i + 4 \<le> length bs \<Longrightarrow> at32 bs i = at32 (take 4 (drop i bs)) 0"
  by (simp add: at32_def)

lemma at64_drop: "i + 8 \<le> length bs \<Longrightarrow> at64 bs i = at64 (take 8 (drop i bs)) 0"
  by (simp add: at64_def at32_def add.commute)

lemma field16: "i + 2 \<le> length bs \<Longrightarrow> take 2 (drop i bs) = be16 (at16 bs i)"
  by (subst at16_drop) (simp_all add: be16_at16)

lemma field32: "i + 4 \<le> length bs \<Longrightarrow> take 4 (drop i bs) = be32 (at32 bs i)"
  by (subst at32_drop) (simp_all add: be32_at32)

lemma field64: "i + 8 \<le> length bs \<Longrightarrow> take 8 (drop i bs) = be64 (at64 bs i)"
  by (subst at64_drop) (simp_all add: be64_at64)

lemma unat_of_length: "length bs < 2 ^ 64 \<Longrightarrow> unat (of_nat (length bs) :: u64) = length bs"
  by (simp add: unsigned_of_nat take_bit_eq_mod)

lemma length_word: "unat (len :: u64) = length bs \<longleftrightarrow> len = of_nat (length bs) \<and> length bs < 2 ^ 64"
proof
  assume "unat len = length bs"
  moreover have "unat len < 2 ^ LENGTH(64)"
    by (rule unsigned_less)
  ultimately show "len = of_nat (length bs) \<and> length bs < 2 ^ 64"
    by (simp add: word_unat_eq_iff unsigned_of_nat take_bit_eq_mod)
next
  assume "len = of_nat (length bs) \<and> length bs < 2 ^ 64"
  then show "unat len = length bs" by (simp add: unat_of_length)
qed

section \<open>Byte string literals\<close>

definition ascii :: "string \<Rightarrow> bytes" where
  "ascii s = map of_char s"

lemma length_ascii [simp]: "length (ascii s) = length s"
  by (simp add: ascii_def)

lemma unat_of_char: "unat (of_char c :: u8) = of_char c"
proof -
  have "unat (of_nat (of_char c) :: u8) = of_char c mod 256"
    by (simp add: unsigned_of_nat take_bit_eq_mod)
  then show ?thesis
    using nat_of_char_less_256 [of c] by (simp only: of_nat_of_char mod_less)
qed

lemma of_char_byte_eq [simp]: "(of_char c :: u8) = of_char d \<longleftrightarrow> c = d"
  by (metis unat_of_char of_char_eq_iff)

lemma ascii_eq [simp]: "ascii s = ascii t \<longleftrightarrow> s = t"
  unfolding ascii_def by (rule inj_map_eq_map) (simp add: inj_def)

section \<open>Readers\<close>

datatype io_error = UnexpectedEof | Fault

text \<open>The bytes still to come, and whether the stream then fails instead of ending.\<close>

type_synonym reader = "bytes \<times> bool"

definition read_exact :: "nat \<Rightarrow> reader \<Rightarrow> io_error + (bytes \<times> reader)" where
  "read_exact n r =
     (if n \<le> length (fst r) then Inr (take n (fst r), (drop n (fst r), snd r))
      else Inl (if snd r then Fault else UnexpectedEof))"

text \<open>\<open>read\<close> into a one-byte buffer: whether a byte came.\<close>

definition read_one :: "reader \<Rightarrow> io_error + bool" where
  "read_one r = (if fst r \<noteq> [] then Inr True else if snd r then Inl Fault else Inr False)"

definition map_err :: "('d \<Rightarrow> 'e) \<Rightarrow> 'd + 'a \<Rightarrow> 'e + 'a" where
  "map_err h m = (case m of Inl d \<Rightarrow> Inl (h d) | Inr x \<Rightarrow> Inr x)"

lemma map_err_simps [simp]: "map_err h (Inl d) = Inl (h d)" "map_err h (Inr x) = Inr x"
  by (simp_all add: map_err_def)

lemma map_err_Inr [result_simps]: "map_err h m = Inr x \<longleftrightarrow> m = Inr x"
  by (cases m) auto

lemma map_err_Inl [result_simps]: "map_err h m = Inl e \<longleftrightarrow> (\<exists>d. m = Inl d \<and> e = h d)"
  by (cases m) auto

lemma read_exact_iff [result_simps]:
  "read_exact n r = Inr (x, r') \<longleftrightarrow> fst r = x @ fst r' \<and> length x = n \<and> snd r' = snd r"
  by (cases r') (auto simp: read_exact_def)

lemma read_exact_append: "length x = n \<Longrightarrow> read_exact n (x @ bs, f) = Inr (x, (bs, f))"
  by (simp add: read_exact_def)

lemma read_exact_short: "length (fst r) < n \<Longrightarrow> \<exists>e. read_exact n r = Inl e"
  by (simp add: read_exact_def)

lemma read_one_end [result_simps]: "read_one r = Inr False \<longleftrightarrow> r = ([], False)"
  by (cases r) (simp add: read_one_def)

text \<open>
  A loop that reads a known number of bytes through a scratch buffer of \<open>chunk\<close> bytes. It is
  \<open>read_exact\<close> of the whole.
\<close>

function read_chunks :: "nat \<Rightarrow> nat \<Rightarrow> bytes \<Rightarrow> reader \<Rightarrow> io_error + (bytes \<times> reader)" where
  "read_chunks chunk n done_bytes r =
     (if length done_bytes < n \<and> 0 < chunk
      then bindE (read_exact (min chunk (n - length done_bytes)) r) (\<lambda>(x, r).
           read_chunks chunk n (done_bytes @ x) r)
      else Inr (done_bytes, r))"
  by pat_completeness auto

termination
  by (relation "measure (\<lambda>(chunk, n, d, r). n - length d)") (auto simp: result_simps)

declare read_chunks.simps [simp del]

lemma read_chunks_exact:
  assumes "0 < chunk" and "length d \<le> n"
  shows "read_chunks chunk n d r = Inr (y, r') \<longleftrightarrow>
     (\<exists>x. y = d @ x \<and> read_exact (n - length d) r = Inr (x, r'))"
  using assms
proof (induction chunk n d r arbitrary: y r' rule: read_chunks.induct)
  case (1 chunk n d r)
  show ?case
  proof (cases "length d < n")
    case False
    with 1 show ?thesis by (cases r') (auto simp: read_chunks.simps [of _ _ d] result_simps)
  next
    case True
    define k where "k = min chunk (n - length d)"
    have k: "0 < k" "k \<le> n - length d"
      using True 1(2) by (simp_all add: k_def)
    have unfolded: "read_chunks chunk n d r
        = bindE (read_exact k r) (\<lambda>(x, r). read_chunks chunk n (d @ x) r)"
      using True 1(2) by (subst read_chunks.simps) (simp add: k_def)
    show ?thesis
    proof (cases "length (fst r) < k")
      case True
      then show ?thesis
        using k by (auto simp: unfolded read_exact_def)
    next
      case False
      define x where "x = take k (fst r)"
      define s where "s = (drop k (fst r), snd r)"
      have r: "read_exact k r = Inr (x, s)" "length x = k" "fst r = x @ fst s" "snd s = snd r"
        using False by (simp_all add: read_exact_def x_def s_def)
      have l: "length (d @ x) \<le> n" using r(2) k by simp
      have IH: "read_chunks chunk n (d @ x) s = Inr (y, r') \<longleftrightarrow>
          (\<exists>z. y = (d @ x) @ z \<and> read_exact (n - length (d @ x)) s = Inr (z, r'))" for y r'
        using "1.IH" [OF conjI [OF True 1(2)] r(1) [unfolded k_def] refl 1(2) l] .
      show ?thesis
      proof
        assume "read_chunks chunk n d r = Inr (y, r')"
        then obtain z where "y = (d @ x) @ z" "read_exact (n - length (d @ x)) s = Inr (z, r')"
          using IH by (auto simp: unfolded r(1))
        then show "\<exists>x. y = d @ x \<and> read_exact (n - length d) r = Inr (x, r')"
          using r k by (intro exI [of _ "x @ z"]) (auto simp: read_exact_iff)
      next
        assume "\<exists>x. y = d @ x \<and> read_exact (n - length d) r = Inr (x, r')"
        then obtain w where w: "y = d @ w" "length w = n - length d" "fst r = w @ fst r'" "snd r' = snd r"
          by (auto simp: read_exact_iff)
        have "w = x @ drop k w" "fst s = drop k w @ fst r'"
          using w k False by (auto simp: x_def s_def)
        then show "read_chunks chunk n d r = Inr (y, r')"
          using w r k IH [of y r'] unfolding unfolded r(1) bindE_Inr by (simp add: read_exact_iff)
      qed
    qed
  qed
qed

text \<open>
  A loop that requires \<open>n\<close> zero bytes through a scratch buffer, with the caller's error for a
  nonzero byte and its conversion of a read error.
\<close>

function zero_padding :: "'e \<Rightarrow> (io_error \<Rightarrow> 'e) \<Rightarrow> nat \<Rightarrow> nat \<Rightarrow> reader \<Rightarrow> 'e + reader" where
  "zero_padding invalid io chunk remaining r =
     (if remaining \<noteq> 0 \<and> 0 < chunk
      then bindE (map_err io (read_exact (min remaining chunk) r)) (\<lambda>(x, r).
           if \<exists>b\<in>set x. b \<noteq> 0 then Inl invalid
           else zero_padding invalid io chunk (remaining - min remaining chunk) r)
      else Inr r)"
  by pat_completeness auto

termination
  by (relation "measure (\<lambda>(invalid, io, chunk, n, r). n)") auto

declare zero_padding.simps [simp del]

lemma zeros_append: "m \<le> n \<Longrightarrow> replicate n (0::u8) = replicate m 0 @ replicate (n - m) 0"
  by (simp add: replicate_add [symmetric])

lemma all_zero: "(\<forall>b\<in>set x. b = (0::u8)) \<longleftrightarrow> x = replicate (length x) 0"
  using replicate_length_same [of x 0] by (metis in_set_replicate)

lemma zero_padding_iff:
  assumes "0 < chunk"
  shows "zero_padding invalid io chunk n r = Inr r' \<longleftrightarrow>
     fst r = replicate n 0 @ fst r' \<and> snd r' = snd r"
  using assms
proof (induction invalid io chunk n r arbitrary: r' rule: zero_padding.induct)
  case (1 invalid io chunk n r)
  show ?case
  proof (cases "n = 0")
    case True
    then show ?thesis by (subst zero_padding.simps) (cases r', cases r, auto)
  next
    case False
    define k where "k = min n chunk"
    have k: "k \<le> n" "n \<noteq> 0 \<and> 0 < chunk"
      using False 1(2) by (simp_all add: k_def)
    have IH: "zero_padding invalid io chunk (n - k) s = Inr r' \<longleftrightarrow>
        fst s = replicate (n - k) 0 @ fst r' \<and> snd r' = snd s"
      if "fst r = replicate k 0 @ fst s" "snd s = snd r" for s
      using "1.IH" [OF k(2), of "(replicate k 0, s)" "replicate k 0" s] that k 1(2)
      by (auto simp: k_def [symmetric] result_simps)
    have "zero_padding invalid io chunk n r = Inr r' \<longleftrightarrow>
        (\<exists>x s. fst r = x @ fst s \<and> length x = k \<and> snd s = snd r
           \<and> (\<forall>b\<in>set x. b = 0) \<and> zero_padding invalid io chunk (n - k) s = Inr r')"
      using k by (subst zero_padding.simps) (auto simp: k_def [symmetric] result_simps split: if_splits)
    also have "\<dots> \<longleftrightarrow> (\<exists>s. fst r = replicate k 0 @ fst s \<and> snd s = snd r
           \<and> zero_padding invalid io chunk (n - k) s = Inr r')"
      unfolding all_zero by (metis length_replicate)
    also have "\<dots> \<longleftrightarrow> fst r = replicate n 0 @ fst r' \<and> snd r' = snd r"
      using IH zeros_append [OF k(1)]
      by (auto intro!: exI [of _ "(replicate (n - k) 0 @ fst r', snd r)"])
    finally show ?thesis .
  qed
qed

section \<open>Sinks\<close>

text \<open>
  What was sent, how many bytes the peer still takes, whether flushing and shutting down succeed,
  and whether that has happened.
\<close>

record sink =
  sent :: bytes
  room :: nat
  closes :: bool
  closed :: bool

definition write_all :: "bytes \<Rightarrow> sink \<Rightarrow> io_error + sink" where
  "write_all x w =
     (if length x \<le> room w then Inr (w\<lparr>sent := sent w @ x, room := room w - length x\<rparr>) else Inl Fault)"

definition finish :: "sink \<Rightarrow> io_error + sink" where
  "finish w = (if closes w then Inr (w\<lparr>closed := True\<rparr>) else Inl Fault)"

definition took :: "bytes \<Rightarrow> sink \<Rightarrow> sink" where
  "took x w = w\<lparr>sent := sent w @ x, room := room w - length x\<rparr>"

lemma write_all_iff [result_simps]: "write_all x w = Inr w' \<longleftrightarrow> length x \<le> room w \<and> w' = took x w"
  by (auto simp: write_all_def took_def)

lemma finish_iff [result_simps]: "finish w = Inr w' \<longleftrightarrow> closes w \<and> w' = w\<lparr>closed := True\<rparr>"
  by (auto simp: finish_def)

lemma took_simps [simp]:
  "sent (took x w) = sent w @ x" "room (took x w) = room w - length x"
  "closes (took x w) = closes w" "closed (took x w) = closed w"
  "took y (took x w) = took (x @ y) w" "took [] w = w"
  by (simp_all add: took_def)

text \<open>A fresh connection that takes everything.\<close>

definition wide :: "nat \<Rightarrow> sink" where
  "wide n = \<lparr>sent = [], room = n, closes = True, closed = False\<rparr>"

text \<open>A loop that copies \<open>remaining\<close> bytes through a scratch buffer.\<close>

function copy_chunks ::
  "'e \<Rightarrow> 'e \<Rightarrow> nat \<Rightarrow> nat \<Rightarrow> reader \<Rightarrow> sink \<Rightarrow> 'e + (reader \<times> sink)" where
  "copy_chunks on_read on_write chunk remaining r w =
     (if remaining \<noteq> 0 \<and> 0 < chunk
      then bindE (map_err (\<lambda>_. on_read) (read_exact (min remaining chunk) r)) (\<lambda>(x, r).
           bindE (map_err (\<lambda>_. on_write) (write_all x w)) (\<lambda>w.
           copy_chunks on_read on_write chunk (remaining - min remaining chunk) r w))
      else Inr (r, w))"
  by pat_completeness auto

termination
  by (relation "measure (\<lambda>(a, b, chunk, n, r, w). n)") auto

declare copy_chunks.simps [simp del]

lemma copy_chunks_iff:
  assumes "0 < chunk"
  shows "copy_chunks on_read on_write chunk n r w = Inr (r', w') \<longleftrightarrow>
     (\<exists>x. fst r = x @ fst r' \<and> snd r' = snd r \<and> length x = n \<and> n \<le> room w \<and> w' = took x w)"
  using assms
proof (induction on_read on_write chunk n r w arbitrary: r' w' rule: copy_chunks.induct)
  case (1 a b chunk n r w)
  show ?case
  proof (cases "n = 0")
    case True
    then show ?thesis by (subst copy_chunks.simps) (cases r', cases r, auto)
  next
    case False
    define k where "k = min n chunk"
    have k: "k \<le> n" "n \<noteq> 0 \<and> 0 < chunk"
      using False 1(2) by (simp_all add: k_def)
    have IH: "copy_chunks a b chunk (n - k) s (took x w) = Inr (r', w') \<longleftrightarrow>
        (\<exists>y. fst s = y @ fst r' \<and> snd r' = snd s \<and> length y = n - k \<and> n - k \<le> room w - k
           \<and> w' = took (x @ y) w)"
      if "fst r = x @ fst s" "snd s = snd r" "length x = k" "k \<le> room w" for s x
      using "1.IH" [OF k(2), of "(x, s)" x s "took x w"] that k 1(2)
      by (auto simp: k_def [symmetric] result_simps)
    have "copy_chunks a b chunk n r w = Inr (r', w') \<longleftrightarrow>
        (\<exists>x s. fst r = x @ fst s \<and> snd s = snd r \<and> length x = k \<and> k \<le> room w
           \<and> copy_chunks a b chunk (n - k) s (took x w) = Inr (r', w'))"
      using k by (subst copy_chunks.simps) (auto simp: k_def [symmetric] result_simps)
    also have "\<dots> \<longleftrightarrow> (\<exists>z. fst r = z @ fst r' \<and> snd r' = snd r \<and> length z = n \<and> n \<le> room w
         \<and> w' = took z w)" (is "?l \<longleftrightarrow> ?r")
    proof
      assume ?l
      then obtain x s where x: "fst r = x @ fst s" "snd s = snd r" "length x = k" "k \<le> room w"
          "copy_chunks a b chunk (n - k) s (took x w) = Inr (r', w')"
        by blast
      then obtain y where "fst s = y @ fst r'" "snd r' = snd s" "length y = n - k" "n - k \<le> room w - k"
          "w' = took (x @ y) w"
        using IH by blast
      then show ?r
        using k x by (intro exI [of _ "x @ y"]) simp
    next
      assume ?r
      then obtain z where z: "fst r = z @ fst r'" "snd r' = snd r" "length z = n" "n \<le> room w" "w' = took z w"
        by blast
      let ?x = "take k z" and ?s = "(drop k z @ fst r', snd r)"
      have x: "fst r = ?x @ fst ?s" "snd ?s = snd r" "length ?x = k" "k \<le> room w"
        using z k by (simp_all add: append.assoc [symmetric])
      have "copy_chunks a b chunk (n - k) ?s (took ?x w) = Inr (r', w')"
        unfolding IH [OF x] using z k by (intro exI [of _ "drop k z"]) simp
      with x show ?l by blast
    qed
    finally show ?thesis .
  qed
qed

lemma map_option_append: "map_option (append a) (map_option (append b) x) = map_option (append (a @ b)) x"
  by (cases x) simp_all

text \<open>\<open>Vec::resize(n, 0)\<close>\<close>

definition resize :: "nat \<Rightarrow> bytes \<Rightarrow> bytes" where
  "resize n xs = take n xs @ replicate (n - length xs) 0"

section \<open>Self-delimiting formats\<close>

text \<open>
  The interface between a format's encoding and its stream reader: reading consumes exactly the
  encoding of a valid value. What follows holds of every such format: encodings are prefix-free,
  a reader that then requires the end of the stream accepts exactly the encodings, and a reader of
  a block device accepts exactly the encodings padded with zeros.
\<close>

locale stream_format =
  fixes encode :: "'a \<Rightarrow> bytes"
    and ok :: "'a \<Rightarrow> bool"
    and read :: "reader \<Rightarrow> 'e + ('a \<times> reader)"
  assumes read_iff:
    "read r = Inr (a, r') \<longleftrightarrow> ok a \<and> fst r = encode a @ fst r' \<and> snd r' = snd r"
begin

lemma read_encoded: "ok a \<Longrightarrow> read (encode a @ bs, f) = Inr (a, (bs, f))"
  by (simp add: read_iff)

lemma prefix_free:
  assumes "ok a" and "ok b" and "encode a @ xs = encode b @ ys"
  shows "a = b \<and> xs = ys"
proof -
  have "read (encode b @ ys, False) = Inr (a, (xs, False))"
    using read_encoded [OF assms(1), of xs False] unfolding assms(3) .
  then show ?thesis
    unfolding read_encoded [OF assms(2)] by simp
qed

lemma encode_inj: "ok a \<Longrightarrow> ok b \<Longrightarrow> encode a = encode b \<Longrightarrow> a = b"
  using prefix_free [of a b "[]" "[]"] by simp

lemma read_to_end:
  "bindE (read r) (\<lambda>(a, s). bindE (map_err io (read_one s)) (\<lambda>more.
     if more then Inl invalid else Inr a)) = Inr a
   \<longleftrightarrow> ok a \<and> r = (encode a, False)"
proof (cases "read r")
  case (Inl e)
  then show ?thesis using read_iff [of r a "([], False)"] by (cases r) auto
next
  case (Inr y)
  obtain b s where y: "y = (b, s)" by (cases y)
  have "read r = Inr (a, ([], False)) \<longleftrightarrow> ok a \<and> r = (encode a, False)"
    by (cases r) (auto simp: read_iff)
  then show ?thesis
    unfolding Inr y by (auto simp: result_simps split: if_splits)
qed

lemma read_padded:
  assumes "0 < chunk"
  shows "bindE (read r) (\<lambda>(a, s). bindE (zero_padding invalid io chunk (n a) s) (\<lambda>s.
     bindE (map_err io (read_one s)) (\<lambda>more. if more then Inl invalid else Inr a))) = Inr a
   \<longleftrightarrow> ok a \<and> r = (encode a @ replicate (n a) 0, False)"
proof (cases "read r")
  case (Inl e)
  then show ?thesis using read_iff [of r a "(replicate (n a) 0, False)"] by (cases r) auto
next
  case (Inr y)
  obtain b s where y: "y = (b, s)" by (cases y)
  have "read r = Inr (a, (replicate (n a) 0, False)) \<longleftrightarrow> ok a \<and> r = (encode a @ replicate (n a) 0, False)"
    by (cases r) (auto simp: read_iff)
  then show ?thesis
    unfolding Inr y by (cases s) (auto simp: result_simps zero_padding_iff [OF assms] split: if_splits)
qed

end

end
