(* ===== verification/DispatchFrames.thy ===== *)
theory DispatchFrames
  imports Streams
begin

unbundle bit_operations_syntax

text \<open>
  \<open>crates/media-dispatch/src/protocol.rs\<close>: the frames between the application, the dispatch
  gateway and the broker, one per connection. Every reader and writer of the file is here; the
  lemmas give each as one equation on the bytes of the connection.
\<close>

section \<open>Constants and requests\<close>

datatype DispatchError = Frame | Transport | Deadline | Configuration | Authentication | Busy

type_synonym 'a dispatch = "DispatchError + 'a"

definition MAX_INPUT :: u64 where [simp]: "MAX_INPUT = 8388608"
definition OUTPUT_LENGTH :: u64 where [simp]: "OUTPUT_LENGTH = 4194816"
definition MIN_PAIRED_INPUT :: u64 where [simp]: "MIN_PAIRED_INPUT = 57"
definition MAX_PAIRED_INPUT :: u64 where [simp]: "MAX_PAIRED_INPUT = 16777272"
definition PAIRED_OUTPUT_LENGTH :: u64 where [simp]: "PAIRED_OUTPUT_LENGTH = 4456960"
definition GIF_OUTPUT_LENGTH :: u64 where [simp]: "GIF_OUTPUT_LENGTH = 17825792"
definition PDF_OUTPUT_LENGTH :: u64 where [simp]: "PDF_OUTPUT_LENGTH = OUTPUT_LENGTH"
definition VIDEO_OUTPUT_LENGTH :: u64 where [simp]: "VIDEO_OUTPUT_LENGTH = 9 * 1024 * 1024"
definition MAX_STILL_INPUT :: u64 where [simp]: "MAX_STILL_INPUT = 10 * 1024 * 1024 + 16"
definition STILL_OUTPUT_LENGTH :: u64 where [simp]: "STILL_OUTPUT_LENGTH = 16 * 1024 * 1024"
definition MAX_GIF_SOURCE_INPUT :: u64 where [simp]: "MAX_GIF_SOURCE_INPUT = MAX_INPUT + 16"
definition SCRATCH :: nat where [simp]: "SCRATCH = 16384"

datatype Request =
    ImageV1 bytes | GifV3 bytes | PdfV4 bytes | VideoV5 bytes | StillV6 bytes | GifV7 bytes
  | PairedV2 bytes bytes

section \<open>Reading\<close>

definition read_header :: "reader \<Rightarrow> ((bytes \<times> u64) \<times> reader) dispatch" where
  "read_header r =
     bindE (map_err (\<lambda>_. Frame) (read_exact 16 r)) (\<lambda>(header, r).
     Inr ((take 8 header, at64 header 8), r))"

definition require_eof :: "reader \<Rightarrow> unit dispatch" where
  "require_eof r =
     bindE (map_err (\<lambda>_. Frame) (read_one r)) (\<lambda>more. if more then Inl Frame else Inr ())"

definition read_body :: "reader \<Rightarrow> u64 \<Rightarrow> bytes dispatch" where
  "read_body r len =
     bindE (map_err (\<lambda>_. Frame) (read_chunks SCRATCH (unat len) [] r)) (\<lambda>(body, r).
     bindE (require_eof r) (\<lambda>_. Inr body))"

definition read_frame :: "reader \<Rightarrow> bytes \<Rightarrow> u64 \<Rightarrow> u64 \<Rightarrow> bytes dispatch" where
  "read_frame r magic lo hi =
     bindE (read_header r) (\<lambda>((actual_magic, len), r).
     if actual_magic \<noteq> magic \<or> \<not> (lo \<le> len \<and> len \<le> hi) then Inl Frame
     else read_body r len)"

definition read_paired_body :: "reader \<Rightarrow> u64 \<Rightarrow> (bytes \<times> bytes) dispatch" where
  "read_paired_body r len =
     bindE (map_err (\<lambda>_. Frame) (read_exact 32 r)) (\<lambda>(binding, r).
     bindE (read_body r len) (\<lambda>body. Inr (binding, body)))"

definition read_paired_request :: "reader \<Rightarrow> (bytes \<times> bytes) dispatch" where
  "read_paired_request r =
     bindE (read_header r) (\<lambda>((magic, len), r).
     if magic \<noteq> ascii ''IBJOB002'' \<or> \<not> (MIN_PAIRED_INPUT \<le> len \<and> len \<le> MAX_PAIRED_INPUT)
     then Inl Frame else read_paired_body r len)"

definition read_request :: "reader \<Rightarrow> bytes dispatch" where
  "read_request r = read_frame r (ascii ''IBJOB001'') 1 MAX_INPUT"

definition read_response :: "reader \<Rightarrow> bytes dispatch" where
  "read_response r = read_frame r (ascii ''IBOUT001'') OUTPUT_LENGTH OUTPUT_LENGTH"

definition read_paired_response :: "reader \<Rightarrow> bytes dispatch" where
  "read_paired_response r =
     read_frame r (ascii ''IBOUT002'') PAIRED_OUTPUT_LENGTH PAIRED_OUTPUT_LENGTH"

definition read_gif_response :: "reader \<Rightarrow> bytes dispatch" where
  "read_gif_response r = read_frame r (ascii ''IBOUT003'') GIF_OUTPUT_LENGTH GIF_OUTPUT_LENGTH"

definition read_pdf_response :: "reader \<Rightarrow> bytes dispatch" where
  "read_pdf_response r = read_frame r (ascii ''IBOUT004'') PDF_OUTPUT_LENGTH PDF_OUTPUT_LENGTH"

definition read_video_response :: "reader \<Rightarrow> bytes dispatch" where
  "read_video_response r = read_frame r (ascii ''IBOUT005'') VIDEO_OUTPUT_LENGTH VIDEO_OUTPUT_LENGTH"

definition read_still_response :: "reader \<Rightarrow> bytes dispatch" where
  "read_still_response r = read_frame r (ascii ''IBOUT006'') STILL_OUTPUT_LENGTH STILL_OUTPUT_LENGTH"

definition read_source_gif_response :: "reader \<Rightarrow> bytes dispatch" where
  "read_source_gif_response r =
     read_frame r (ascii ''IBOUT007'') STILL_OUTPUT_LENGTH STILL_OUTPUT_LENGTH"

text \<open>The fixed policy headers; the length test comes first, so no index is out of range.\<close>

definition validate_still_request :: "bytes \<Rightarrow> unit dispatch" where
  "validate_still_request bs =
     (if \<not> (17 \<le> length bs \<and> length bs \<le> unat MAX_STILL_INPUT)
         \<or> take 8 bs \<noteq> ascii ''IBSTIL06''
         \<or> bs ! 8 AND NOT 15 \<noteq> 0
         \<or> \<not> (bs ! 9 = 1 \<or> bs ! 9 = 2)
         \<or> bs ! 15 \<noteq> 0
         \<or> bs ! 14 > 2
         \<or> (bs ! 14 \<noteq> 0 \<and> bs ! 9 \<noteq> 2)
         \<or> \<not> (1 \<le> at16 bs 10 \<and> at16 bs 10 \<le> 250)
         \<or> \<not> (1 \<le> at16 bs 12 \<and> at16 bs 12 \<le> 250)
      then Inl Frame else Inr ())"

definition validate_source_gif_request :: "bytes \<Rightarrow> unit dispatch" where
  "validate_source_gif_request bs =
     (if \<not> (17 \<le> length bs \<and> length bs \<le> unat MAX_GIF_SOURCE_INPUT)
         \<or> take 8 bs \<noteq> ascii ''IBGIF007''
         \<or> bs ! 8 AND NOT 12 \<noteq> 0
         \<or> bs ! 9 \<noteq> 3
         \<or> take 2 (drop 14 bs) \<noteq> [0, 0]
         \<or> \<not> (1 \<le> at16 bs 10 \<and> at16 bs 10 \<le> 250)
         \<or> \<not> (1 \<le> at16 bs 12 \<and> at16 bs 12 \<le> 250)
      then Inl Frame else Inr ())"

text \<open>The kind comes from the outer magic alone, never from the payload.\<close>

definition read_versioned_request :: "reader \<Rightarrow> Request dispatch" where
  "read_versioned_request r =
     bindE (read_header r) (\<lambda>((magic, len), r).
     if magic = ascii ''IBJOB001'' \<and> 1 \<le> len \<and> len \<le> MAX_INPUT then
       bindE (read_body r len) (\<lambda>body. Inr (ImageV1 body))
     else if magic = ascii ''IBJOB003'' \<and> 1 \<le> len \<and> len \<le> MAX_INPUT then
       bindE (read_body r len) (\<lambda>body. Inr (GifV3 body))
     else if magic = ascii ''IBJOB004'' \<and> 1 \<le> len \<and> len \<le> MAX_INPUT then
       bindE (read_body r len) (\<lambda>body. Inr (PdfV4 body))
     else if magic = ascii ''IBJOB005'' \<and> 2 \<le> len \<and> len \<le> MAX_INPUT + 1 then
       bindE (read_body r len) (\<lambda>body.
       if \<not> (body ! 0 = 1 \<or> body ! 0 = 2) then Inl Frame else Inr (VideoV5 body))
     else if magic = ascii ''IBJOB006'' \<and> 17 \<le> len \<and> len \<le> MAX_STILL_INPUT then
       bindE (read_body r len) (\<lambda>body.
       bindE (validate_still_request body) (\<lambda>_. Inr (StillV6 body)))
     else if magic = ascii ''IBJOB007'' \<and> 17 \<le> len \<and> len \<le> MAX_GIF_SOURCE_INPUT then
       bindE (read_body r len) (\<lambda>body.
       bindE (validate_source_gif_request body) (\<lambda>_. Inr (GifV7 body)))
     else if magic = ascii ''IBJOB002'' \<and> MIN_PAIRED_INPUT \<le> len \<and> len \<le> MAX_PAIRED_INPUT then
       bindE (read_paired_body r len) (\<lambda>(binding, input). Inr (PairedV2 binding input))
     else Inl Frame)"

section \<open>Writing\<close>

definition write_header :: "sink \<Rightarrow> bytes \<Rightarrow> u64 \<Rightarrow> sink dispatch" where
  "write_header w magic len =
     bindE (map_err (\<lambda>_. Transport) (write_all magic w)) (\<lambda>w.
     map_err (\<lambda>_. Transport) (write_all (be64 len) w))"

definition write_body :: "reader \<Rightarrow> u64 \<Rightarrow> sink \<Rightarrow> sink dispatch" where
  "write_body r len w =
     bindE (copy_chunks Frame Transport SCRATCH (unat len) r w) (\<lambda>(r, w).
     bindE (require_eof r) (\<lambda>_.
     map_err (\<lambda>_. Transport) (finish w)))"

definition write_frame :: "reader \<Rightarrow> u64 \<Rightarrow> sink \<Rightarrow> bytes \<Rightarrow> sink dispatch" where
  "write_frame r len w magic = bindE (write_header w magic len) (write_body r len)"

definition write_request :: "reader \<Rightarrow> u64 \<Rightarrow> sink \<Rightarrow> sink dispatch" where
  "write_request r len w =
     (if \<not> (1 \<le> len \<and> len \<le> MAX_INPUT) then Inl Frame
      else write_frame r len w (ascii ''IBJOB001''))"

definition write_gif_request :: "reader \<Rightarrow> u64 \<Rightarrow> sink \<Rightarrow> sink dispatch" where
  "write_gif_request r len w =
     (if \<not> (1 \<le> len \<and> len \<le> MAX_INPUT) then Inl Frame
      else write_frame r len w (ascii ''IBJOB003''))"

definition write_pdf_request :: "reader \<Rightarrow> u64 \<Rightarrow> sink \<Rightarrow> sink dispatch" where
  "write_pdf_request r len w =
     (if \<not> (1 \<le> len \<and> len \<le> MAX_INPUT) then Inl Frame
      else write_frame r len w (ascii ''IBJOB004''))"

text \<open>Writers whose input is a slice read it as a stream that ends.\<close>

definition write_video_request :: "bytes \<Rightarrow> sink \<Rightarrow> sink dispatch" where
  "write_video_request bs w =
     (if \<not> (2 \<le> length bs \<and> length bs \<le> unat MAX_INPUT + 1) \<or> \<not> (bs ! 0 = 1 \<or> bs ! 0 = 2)
      then Inl Frame
      else write_frame (bs, False) (of_nat (length bs)) w (ascii ''IBJOB005''))"

definition write_still_request :: "bytes \<Rightarrow> sink \<Rightarrow> sink dispatch" where
  "write_still_request bs w =
     bindE (validate_still_request bs) (\<lambda>_.
     write_frame (bs, False) (of_nat (length bs)) w (ascii ''IBJOB006''))"

definition write_source_gif_request :: "bytes \<Rightarrow> sink \<Rightarrow> sink dispatch" where
  "write_source_gif_request bs w =
     bindE (validate_source_gif_request bs) (\<lambda>_.
     write_frame (bs, False) (of_nat (length bs)) w (ascii ''IBJOB007''))"

definition write_paired_request :: "reader \<Rightarrow> u64 \<Rightarrow> bytes \<Rightarrow> sink \<Rightarrow> sink dispatch" where
  "write_paired_request r len binding w =
     (if \<not> (MIN_PAIRED_INPUT \<le> len \<and> len \<le> MAX_PAIRED_INPUT) then Inl Frame
      else bindE (write_header w (ascii ''IBJOB002'') len) (\<lambda>w.
           bindE (map_err (\<lambda>_. Transport) (write_all binding w)) (write_body r len)))"

definition write_response :: "bytes \<Rightarrow> sink \<Rightarrow> sink dispatch" where
  "write_response bs w =
     (if length bs \<noteq> unat OUTPUT_LENGTH then Inl Frame
      else write_frame (bs, False) OUTPUT_LENGTH w (ascii ''IBOUT001''))"

definition write_paired_response :: "bytes \<Rightarrow> sink \<Rightarrow> sink dispatch" where
  "write_paired_response bs w =
     (if length bs \<noteq> unat PAIRED_OUTPUT_LENGTH then Inl Frame
      else write_frame (bs, False) PAIRED_OUTPUT_LENGTH w (ascii ''IBOUT002''))"

definition write_gif_response :: "bytes \<Rightarrow> sink \<Rightarrow> sink dispatch" where
  "write_gif_response bs w =
     (if length bs \<noteq> unat GIF_OUTPUT_LENGTH then Inl Frame
      else write_frame (bs, False) GIF_OUTPUT_LENGTH w (ascii ''IBOUT003''))"

definition write_pdf_response :: "bytes \<Rightarrow> sink \<Rightarrow> sink dispatch" where
  "write_pdf_response bs w =
     (if length bs \<noteq> unat PDF_OUTPUT_LENGTH then Inl Frame
      else write_frame (bs, False) PDF_OUTPUT_LENGTH w (ascii ''IBOUT004''))"

definition write_video_response :: "bytes \<Rightarrow> sink \<Rightarrow> sink dispatch" where
  "write_video_response bs w =
     (if length bs \<noteq> unat VIDEO_OUTPUT_LENGTH then Inl Frame
      else write_frame (bs, False) VIDEO_OUTPUT_LENGTH w (ascii ''IBOUT005''))"

definition write_still_response :: "bytes \<Rightarrow> sink \<Rightarrow> sink dispatch" where
  "write_still_response bs w =
     (if length bs \<noteq> unat STILL_OUTPUT_LENGTH then Inl Frame
      else write_frame (bs, False) STILL_OUTPUT_LENGTH w (ascii ''IBOUT006''))"

definition write_source_gif_response :: "bytes \<Rightarrow> sink \<Rightarrow> sink dispatch" where
  "write_source_gif_response bs w =
     (if length bs \<noteq> unat STILL_OUTPUT_LENGTH then Inl Frame
      else write_frame (bs, False) STILL_OUTPUT_LENGTH w (ascii ''IBOUT007''))"

section \<open>What is on the wire\<close>

definition frame_bytes :: "bytes \<Rightarrow> bytes \<Rightarrow> bytes" where
  "frame_bytes magic body = magic @ be64 (of_nat (length body)) @ body"

fun request_bytes :: "Request \<Rightarrow> bytes" where
  "request_bytes (ImageV1 body) = frame_bytes (ascii ''IBJOB001'') body"
| "request_bytes (GifV3 body) = frame_bytes (ascii ''IBJOB003'') body"
| "request_bytes (PdfV4 body) = frame_bytes (ascii ''IBJOB004'') body"
| "request_bytes (VideoV5 body) = frame_bytes (ascii ''IBJOB005'') body"
| "request_bytes (StillV6 body) = frame_bytes (ascii ''IBJOB006'') body"
| "request_bytes (GifV7 body) = frame_bytes (ascii ''IBJOB007'') body"
| "request_bytes (PairedV2 binding body) =
     ascii ''IBJOB002'' @ be64 (of_nat (length body)) @ binding @ body"

definition bounded :: "nat \<Rightarrow> nat \<Rightarrow> bytes \<Rightarrow> bool" where
  "bounded lo hi body \<longleftrightarrow> lo \<le> length body \<and> length body \<le> hi"

fun request_ok :: "Request \<Rightarrow> bool" where
  "request_ok (ImageV1 body) \<longleftrightarrow> bounded 1 8388608 body"
| "request_ok (GifV3 body) \<longleftrightarrow> bounded 1 8388608 body"
| "request_ok (PdfV4 body) \<longleftrightarrow> bounded 1 8388608 body"
| "request_ok (VideoV5 body) \<longleftrightarrow> bounded 2 8388609 body \<and> (body ! 0 = 1 \<or> body ! 0 = 2)"
| "request_ok (StillV6 body) \<longleftrightarrow> validate_still_request body = Inr ()"
| "request_ok (GifV7 body) \<longleftrightarrow> validate_source_gif_request body = Inr ()"
| "request_ok (PairedV2 binding body) \<longleftrightarrow> length binding = 32 \<and> bounded 57 16777272 body"

lemma validated_bounds:
  "validate_still_request body = Inr u \<Longrightarrow> bounded 17 10485776 body"
  "validate_source_gif_request body = Inr u \<Longrightarrow> bounded 17 8388624 body"
  by (auto simp: validate_still_request_def validate_source_gif_request_def bounded_def
      split: if_splits)

lemma read_header_iff [result_simps]:
  "read_header r = Inr ((magic, len), s) \<longleftrightarrow>
     fst r = magic @ be64 len @ fst s \<and> length magic = 8 \<and> snd s = snd r"
proof
  assume "read_header r = Inr ((magic, len), s)"
  then obtain h where h: "fst r = h @ fst s" "length h = 16" "magic = take 8 h" "len = at64 h 8" "snd s = snd r"
    by (auto simp: read_header_def result_simps)
  moreover have "h = take 8 h @ take 8 (drop 8 h)"
    using h(2) by (metis append_take_drop_id length_drop diff_add_inverse numeral_Bit0 order_refl take_all)
  ultimately show "fst r = magic @ be64 len @ fst s \<and> length magic = 8 \<and> snd s = snd r"
    using field64 [of 8 h] by (metis add_diff_cancel_right' append.assoc length_take min_absorb2
        numeral_Bit0 order_refl le_add1)
next
  assume r: "fst r = magic @ be64 len @ fst s \<and> length magic = 8 \<and> snd s = snd r"
  have "read_exact 16 r = Inr (magic @ be64 len, s)"
    using r by (simp add: read_exact_iff)
  moreover have "at64 (magic @ be64 len) 8 = len"
    using at64_field [of magic 8 len "[]"] r by simp
  ultimately show "read_header r = Inr ((magic, len), s)"
    using r by (simp add: read_header_def)
qed

lemma require_eof_iff [result_simps]: "require_eof r = Inr u \<longleftrightarrow> r = ([], False)"
  by (auto simp: require_eof_def result_simps split: if_splits)

lemma read_body_iff [result_simps]:
  "read_body r len = Inr body \<longleftrightarrow> r = (body, False) \<and> length body = unat len"
  by (cases r) (auto simp: read_body_def result_simps read_chunks_exact)

lemma read_frame_iff:
  assumes "length magic = 8"
  shows "read_frame r magic lo hi = Inr body \<longleftrightarrow>
     r = (frame_bytes magic body, False) \<and> bounded (unat lo) (unat hi) body"
proof -
  have hi: "unat hi < 2 ^ LENGTH(64)"
    by (rule unsigned_less)
  show ?thesis
  proof
    assume "read_frame r magic lo hi = Inr body"
    then obtain len where len: "lo \<le> len" "len \<le> hi" "r = (magic @ be64 len @ body, False)" "length body = unat len"
      by (cases r) (auto simp: read_frame_def result_simps split: if_splits)
    then show "r = (frame_bytes magic body, False) \<and> bounded (unat lo) (unat hi) body"
      by (auto simp: frame_bytes_def bounded_def word_le_nat_alt)
  next
    assume r: "r = (frame_bytes magic body, False) \<and> bounded (unat lo) (unat hi) body"
    define len :: u64 where "len = of_nat (length body)"
    have len: "unat len = length body" "lo \<le> len" "len \<le> hi"
      using r hi
      by (auto simp: len_def bounded_def word_le_nat_alt unat_of_length)
    have "read_header r = Inr ((magic, len), (body, False))"
      using r assms by (simp add: read_header_iff frame_bytes_def len_def)
    moreover have "read_body (body, False) len = Inr body"
      by (simp add: read_body_iff len)
    ultimately show "read_frame r magic lo hi = Inr body"
      using len by (simp add: read_frame_def)
  qed
qed

lemma read_paired_body_iff [result_simps]:
  "read_paired_body r len = Inr (binding, body) \<longleftrightarrow>
     r = (binding @ body, False) \<and> length binding = 32 \<and> unat len = length body"
  by (cases r) (auto simp: read_paired_body_def result_simps)

text \<open>A sender that has sent \<open>x\<close> and closed.\<close>

definition sends :: "bytes \<Rightarrow> sink \<Rightarrow> sink \<Rightarrow> bool" where
  "sends x w w' \<longleftrightarrow> length x \<le> room w \<and> closes w \<and> w' = (took x w)\<lparr>closed := True\<rparr>"

lemma write_body_iff [result_simps]:
  "write_body r len w = Inr w' \<longleftrightarrow>
     (\<exists>body. r = (body, False) \<and> unat len = length body \<and> sends body w w')"
  by (cases r) (auto simp: write_body_def result_simps copy_chunks_iff sends_def)

lemma write_header_iff [result_simps]:
  "write_header w magic len = Inr w' \<longleftrightarrow>
     length magic + 8 \<le> room w \<and> w' = took (magic @ be64 len) w"
  by (auto simp: write_header_def result_simps)

lemma write_frame_iff:
  "write_frame r len w magic = Inr w' \<longleftrightarrow>
     (\<exists>body. r = (body, False) \<and> unat len = length body \<and> sends (frame_bytes magic body) w w')"
proof -
  have "write_frame r len w magic = Inr w' \<longleftrightarrow>
      (\<exists>body. r = (body, False) \<and> unat len = length body \<and> sends (magic @ be64 len @ body) w w')"
    by (auto simp: write_frame_def result_simps sends_def)
  then show ?thesis
    by (auto simp: frame_bytes_def length_word)
qed

lemma write_slice_frame_iff:
  "length bs < 2 ^ 64 \<Longrightarrow> write_frame (bs, False) (of_nat (length bs)) w magic = Inr w' \<longleftrightarrow>
     sends (frame_bytes magic bs) w w'"
  by (auto simp: write_frame_iff unat_of_length)

section \<open>A message and its two ends\<close>

text \<open>
  The interface of a connection that carries one message: the reader accepts exactly the wire form
  of an allowed message and then the end of the stream; the writer sends the wire form of an
  allowed message and closes, or fails.
\<close>

locale channel =
  fixes wire :: "'a \<Rightarrow> bytes"
    and ok :: "'a \<Rightarrow> bool"
    and read :: "reader \<Rightarrow> 'e + 'a"
    and send :: "'a \<Rightarrow> sink \<Rightarrow> 'e + sink"
  assumes read_iff: "read r = Inr a \<longleftrightarrow> ok a \<and> r = (wire a, False)"
    and send_iff: "send a w = Inr w' \<longleftrightarrow> ok a \<and> sends (wire a) w w'"
begin

lemma delivered: "send a (wide n) = Inr w \<Longrightarrow> read (sent w, False) = Inr a"
  by (auto simp: send_iff sends_def wide_def read_iff)

lemma received_was_sendable: "read (bs, f) = Inr a \<Longrightarrow> length bs \<le> n \<Longrightarrow> \<exists>w. send a (wide n) = Inr w \<and> sent w = bs"
  by (auto simp: send_iff sends_def wide_def read_iff)

lemma wire_inj: "ok a \<Longrightarrow> ok b \<Longrightarrow> wire a = wire b \<Longrightarrow> a = b"
  using read_iff [of "(wire b, False)" a] read_iff [of "(wire b, False)" b] by simp

lemma cut_or_extended: "read (bs, f) = Inr a \<Longrightarrow> f \<or> bs \<noteq> wire a \<Longrightarrow> False"
  by (simp add: read_iff)

end

lemma fixed_frame:
  assumes "length magic = 8" and "unat len = n"
  shows "channel (frame_bytes magic) (\<lambda>body. length body = n) (\<lambda>r. read_frame r magic len len)
    (\<lambda>bs w. if length bs \<noteq> unat len then Inl Frame else write_frame (bs, False) len w magic)"
  using assms by unfold_locales (auto simp: read_frame_iff bounded_def write_frame_iff)

interpretation image_response: channel "frame_bytes (ascii ''IBOUT001'')"
    "\<lambda>body. length body = 4194816" read_response write_response
  unfolding read_response_def [abs_def] write_response_def [abs_def] by (rule fixed_frame) simp_all

interpretation paired_response: channel "frame_bytes (ascii ''IBOUT002'')"
    "\<lambda>body. length body = 4456960" read_paired_response write_paired_response
  unfolding read_paired_response_def [abs_def] write_paired_response_def [abs_def]
  by (rule fixed_frame) simp_all

interpretation gif_response: channel "frame_bytes (ascii ''IBOUT003'')"
    "\<lambda>body. length body = 17825792" read_gif_response write_gif_response
  unfolding read_gif_response_def [abs_def] write_gif_response_def [abs_def]
  by (rule fixed_frame) simp_all

interpretation pdf_response: channel "frame_bytes (ascii ''IBOUT004'')"
    "\<lambda>body. length body = 4194816" read_pdf_response write_pdf_response
  unfolding read_pdf_response_def [abs_def] write_pdf_response_def [abs_def]
  by (rule fixed_frame) simp_all

interpretation video_response: channel "frame_bytes (ascii ''IBOUT005'')"
    "\<lambda>body. length body = 9437184" read_video_response write_video_response
  unfolding read_video_response_def [abs_def] write_video_response_def [abs_def]
  by (rule fixed_frame) simp_all

interpretation still_response: channel "frame_bytes (ascii ''IBOUT006'')"
    "\<lambda>body. length body = 16777216" read_still_response write_still_response
  unfolding read_still_response_def [abs_def] write_still_response_def [abs_def]
  by (rule fixed_frame) simp_all

interpretation source_gif_response: channel "frame_bytes (ascii ''IBOUT007'')"
    "\<lambda>body. length body = 16777216" read_source_gif_response write_source_gif_response
  unfolding read_source_gif_response_def [abs_def] write_source_gif_response_def [abs_def]
  by (rule fixed_frame) simp_all

end
