(* ===== verification/DispatchGateway.thy ===== *)
theory DispatchGateway
  imports DispatchFrames
begin

unbundle bit_operations_syntax

text \<open>
  \<open>crates/media-dispatch/src/gateway.rs\<close> (one connection of the gateway) and the client calls of
  \<open>tls.rs\<close>. What the operating system, the TLS library and the broker decide is an argument: the
  outcome of the handshake, of each read of the authorization file and of each deadline, and the
  broker as a function from the bytes it received to the bytes it answers.
\<close>

section \<open>Versioned requests\<close>

lemma read_header_then:
  "bindE (read_header r) f = Inr y \<longleftrightarrow>
     (\<exists>magic len s. length magic = 8 \<and> r = (magic @ be64 len @ fst s, snd s) \<and> f ((magic, len), s) = Inr y)"
  by (cases r) (fastforce simp: result_simps)

lemma frame_word [simp]: "length bs < 2 ^ 64 \<Longrightarrow> unat (of_nat (length bs) :: u64) = length bs"
  by (simp add: unat_of_length)

lemma validate_unit: "validate_still_request b = Inr u \<longleftrightarrow> validate_still_request b = Inr ()"
  "validate_source_gif_request b = Inr u \<longleftrightarrow> validate_source_gif_request b = Inr ()"
  by simp_all

lemma versioned_sound:
  assumes "read_versioned_request r = Inr q"
  shows "request_ok q \<and> r = (request_bytes q, False)"
proof -
  obtain magic len s where hd: "read_header r = Inr ((magic, len), s)"
    using assms by (cases "read_header r") (auto simp: read_versioned_request_def)
  then have r: "length magic = 8" "r = (magic @ be64 len @ fst s, snd s)"
    by (cases r; simp add: read_header_iff)+
  show ?thesis
    using assms unfolding read_versioned_request_def hd bindE_Inr prod.case r(2)
    by (auto simp: result_simps frame_bytes_def bounded_def length_word word_le_nat_alt unat_of_length
        split: if_split_asm)
qed

lemma versioned_complete:
  assumes "request_ok q"
  shows "read_versioned_request (request_bytes q, False) = Inr q"
proof -
  have hd: "read_header (magic @ be64 len @ bs, f) = Inr ((magic, len), (bs, f))" if "length magic = 8" for magic len bs f
    using that by (simp add: read_header_iff)
  have bd: "read_body (body, False) (of_nat (length body)) = Inr body" if "length body < 2 ^ 64" for body
    using that by (simp add: read_body_iff)
  have pd: "read_paired_body (b @ body, False) (of_nat (length body)) = Inr (b, body)"
    if "length body < 2 ^ 64" "length b = 32" for b body
    using that by (simp add: read_paired_body_iff)
  note eval = read_versioned_request_def hd frame_bytes_def bounded_def word_le_nat_alt
  show ?thesis
  proof (cases q)
    case (StillV6 b)
    with assms have "bounded 17 10485776 b" by (auto dest: validated_bounds)
    with StillV6 assms show ?thesis by (simp add: eval bd)
  next
    case (GifV7 b)
    with assms have "bounded 17 8388624 b" by (auto dest: validated_bounds)
    with GifV7 assms show ?thesis by (simp add: eval bd)
  qed (use assms in \<open>simp_all add: eval bd pd\<close>)
qed

lemma versioned_iff: "read_versioned_request r = Inr q \<longleftrightarrow> request_ok q \<and> r = (request_bytes q, False)"
  using versioned_sound versioned_complete by blast

lemma read_paired_request_iff:
  "read_paired_request r = Inr (binding, body) \<longleftrightarrow>
     request_ok (PairedV2 binding body) \<and> r = (request_bytes (PairedV2 binding body), False)"
proof
  assume a: "read_paired_request r = Inr (binding, body)"
  then obtain magic len s where hd: "read_header r = Inr ((magic, len), s)"
    by (cases "read_header r") (auto simp: read_paired_request_def)
  then have r: "length magic = 8" "r = (magic @ be64 len @ fst s, snd s)"
    by (cases r; simp add: read_header_iff)+
  show "request_ok (PairedV2 binding body) \<and> r = (request_bytes (PairedV2 binding body), False)"
    using a unfolding read_paired_request_def hd bindE_Inr prod.case r(2)
    by (auto simp: result_simps bounded_def length_word word_le_nat_alt unat_of_length split: if_split_asm)
next
  assume a: "request_ok (PairedV2 binding body) \<and> r = (request_bytes (PairedV2 binding body), False)"
  then have "read_header r = Inr ((ascii ''IBJOB002'', of_nat (length body)), (binding @ body, False))"
    by (simp add: read_header_iff)
  moreover have "read_paired_body (binding @ body, False) (of_nat (length body)) = Inr (binding, body)"
    using a by (simp add: read_paired_body_iff bounded_def)
  ultimately show "read_paired_request r = Inr (binding, body)"
    using a by (simp add: read_paired_request_def bounded_def word_le_nat_alt)
qed

section \<open>The gateway\<close>

text \<open>The three calls of the connection's \<open>match\<close>, per kind of request.\<close>

fun forward :: "Request \<Rightarrow> sink \<Rightarrow> sink dispatch" where
  "forward (ImageV1 input) w = write_request (input, False) (of_nat (length input)) w"
| "forward (PairedV2 binding input) w =
     write_paired_request (input, False) (of_nat (length input)) binding w"
| "forward (GifV3 input) w = write_gif_request (input, False) (of_nat (length input)) w"
| "forward (PdfV4 input) w = write_pdf_request (input, False) (of_nat (length input)) w"
| "forward (StillV6 input) w = write_still_request input w"
| "forward (GifV7 input) w = write_source_gif_request input w"
| "forward (VideoV5 input) w = write_video_request input w"

fun receive :: "Request \<Rightarrow> reader \<Rightarrow> bytes dispatch" where
  "receive (ImageV1 _) r = read_response r"
| "receive (PairedV2 _ _) r = read_paired_response r"
| "receive (GifV3 _) r = read_gif_response r"
| "receive (PdfV4 _) r = read_pdf_response r"
| "receive (StillV6 _) r = read_still_response r"
| "receive (GifV7 _) r = read_source_gif_response r"
| "receive (VideoV5 _) r = read_video_response r"

fun respond :: "Request \<Rightarrow> bytes \<Rightarrow> sink \<Rightarrow> sink dispatch" where
  "respond (ImageV1 _) disk w = write_response disk w"
| "respond (PairedV2 _ _) disk w = write_paired_response disk w"
| "respond (GifV3 _) disk w = write_gif_response disk w"
| "respond (PdfV4 _) disk w = write_pdf_response disk w"
| "respond (StillV6 _) disk w = write_still_response disk w"
| "respond (GifV7 _) disk w = write_source_gif_response disk w"
| "respond (VideoV5 _) disk w = write_video_response disk w"

text \<open>
  What the connection depends on: the handshake's outcome (the peer's leaf certificate, if any),
  the free work permit, the result of the \<open>i\<close>-th read of the authorization file, whether the two
  deadlines hold, the connection to the broker with the peer's user ID, how much the broker
  takes, and its answer. The digest is a parameter.
\<close>

record gateway_world =
  handshake :: "bytes option dispatch"
  permit :: bool
  authorizations_at :: "nat \<Rightarrow> bytes list dispatch"
  intake_in_time :: bool
  processing_in_time :: bool
  broker_uid :: "nat dispatch"
  broker_room :: nat
  broker_answer :: "bytes \<Rightarrow> reader"

definition authorize :: "gateway_world \<Rightarrow> nat \<Rightarrow> bytes \<Rightarrow> unit dispatch" where
  "authorize g i fingerprint =
     bindE (authorizations_at g i) (\<lambda>fs. if fingerprint \<notin> set fs then Inl Authentication else Inr ())"

definition connection :: "(bytes \<Rightarrow> bytes) \<Rightarrow> gateway_world \<Rightarrow> reader \<Rightarrow> sink \<Rightarrow> sink dispatch" where
  "connection sha256 g input stream =
     bindE (handshake g) (\<lambda>leaf.
     case leaf of None \<Rightarrow> Inl Authentication
     | Some cert \<Rightarrow> let fingerprint = sha256 cert in
       bindE (authorize g 0 fingerprint) (\<lambda>_.
       if \<not> permit g then Inl Busy
       else bindE (if intake_in_time g then read_versioned_request input else Inl Deadline) (\<lambda>q.
       bindE (authorize g 1 fingerprint) (\<lambda>_.
       if \<not> processing_in_time g then Inl Deadline
       else bindE (broker_uid g) (\<lambda>uid.
         if uid \<noteq> 0 then Inl Authentication
         else bindE (forward q (wide (broker_room g))) (\<lambda>broker.
              bindE (receive q (broker_answer g (sent broker))) (\<lambda>disk.
              bindE (authorize g 2 fingerprint) (\<lambda>_.
              respond q disk stream))))))))"

section \<open>What a connection does\<close>

fun response_length :: "Request \<Rightarrow> nat" where
  "response_length (ImageV1 _) = 4194816"
| "response_length (PairedV2 _ _) = 4456960"
| "response_length (GifV3 _) = 17825792"
| "response_length (PdfV4 _) = 4194816"
| "response_length (StillV6 _) = 16777216"
| "response_length (GifV7 _) = 16777216"
| "response_length (VideoV5 _) = 9437184"

fun response_magic :: "Request \<Rightarrow> bytes" where
  "response_magic (ImageV1 _) = ascii ''IBOUT001''"
| "response_magic (PairedV2 _ _) = ascii ''IBOUT002''"
| "response_magic (GifV3 _) = ascii ''IBOUT003''"
| "response_magic (PdfV4 _) = ascii ''IBOUT004''"
| "response_magic (VideoV5 _) = ascii ''IBOUT005''"
| "response_magic (StillV6 _) = ascii ''IBOUT006''"
| "response_magic (GifV7 _) = ascii ''IBOUT007''"

lemma write_paired_iff:
  "write_paired_request r len binding w = Inr w' \<longleftrightarrow>
     (\<exists>body. r = (body, False) \<and> unat len = length body \<and> bounded 57 16777272 body
        \<and> sends (ascii ''IBJOB002'' @ be64 len @ binding @ body) w w')"
  by (auto simp: write_paired_request_def result_simps sends_def bounded_def word_le_nat_alt)

lemma forward_iff:
  assumes "request_ok q"
  shows "forward q w = Inr w' \<longleftrightarrow> sends (request_bytes q) w w'"
  using assms
  by (cases q)
    (auto simp: write_request_def write_gif_request_def write_pdf_request_def write_video_request_def
      write_still_request_def write_source_gif_request_def write_paired_iff write_slice_frame_iff
      bounded_def word_le_nat_alt dest: validated_bounds)

lemma receive_iff:
  "receive q r = Inr disk \<longleftrightarrow> length disk = response_length q \<and> r = (frame_bytes (response_magic q) disk, False)"
  by (cases q)
    (simp_all add: image_response.read_iff paired_response.read_iff gif_response.read_iff
      pdf_response.read_iff video_response.read_iff still_response.read_iff source_gif_response.read_iff)

lemma respond_iff:
  "respond q disk w = Inr w' \<longleftrightarrow>
     length disk = response_length q \<and> sends (frame_bytes (response_magic q) disk) w w'"
  by (cases q)
    (simp_all add: image_response.send_iff paired_response.send_iff gif_response.send_iff
      pdf_response.send_iff video_response.send_iff still_response.send_iff source_gif_response.send_iff)

text \<open>The requests as a channel: what the gateway forwards is what a versioned reader accepts.\<close>

definition send_request :: "Request \<Rightarrow> sink \<Rightarrow> sink dispatch" where
  "send_request q w = (if request_ok q then forward q w else Inl Frame)"

interpretation requests: channel request_bytes request_ok read_versioned_request send_request
  by unfold_locales (auto simp: versioned_iff send_request_def forward_iff)

interpretation responses: channel "frame_bytes (response_magic q)" "\<lambda>disk. length disk = response_length q"
    "receive q" "respond q" for q
  by unfold_locales (auto simp: receive_iff respond_iff)

definition authorized :: "gateway_world \<Rightarrow> bytes \<Rightarrow> nat \<Rightarrow> bool" where
  "authorized g fingerprint i \<longleftrightarrow> (\<exists>fs. authorizations_at g i = Inr fs \<and> fingerprint \<in> set fs)"

lemma authorize_iff: "authorize g i fp = Inr u \<longleftrightarrow> authorized g fp i"
  by (auto simp: authorize_def authorized_def result_simps split: if_splits)

lemma sends_wide: "sends x (wide n) w \<longleftrightarrow> length x \<le> n \<and> w = \<lparr>sent = x, room = n - length x, closes = True, closed = True\<rparr>"
  by (auto simp: sends_def wide_def took_def)

lemma connection_iff:
  "connection sha256 g input stream = Inr stream' \<longleftrightarrow>
     (\<exists>cert q disk. handshake g = Inr (Some cert) \<and> permit g \<and> intake_in_time g \<and> processing_in_time g
        \<and> (\<forall>i<3. authorized g (sha256 cert) i)
        \<and> request_ok q \<and> input = (request_bytes q, False)
        \<and> broker_uid g = Inr 0 \<and> length (request_bytes q) \<le> broker_room g
        \<and> length disk = response_length q
        \<and> broker_answer g (request_bytes q) = (frame_bytes (response_magic q) disk, False)
        \<and> sends (frame_bytes (response_magic q) disk) stream stream')"
proof -
  have three: "(\<forall>i<3. P i) \<longleftrightarrow> P 0 \<and> P 1 \<and> P (2::nat)" for P
    by (auto simp: less_Suc_eq eval_nat_numeral)
  show ?thesis
  proof
    assume "connection sha256 g input stream = Inr stream'"
    then show "\<exists>cert q disk. handshake g = Inr (Some cert) \<and> permit g \<and> intake_in_time g \<and> processing_in_time g
        \<and> (\<forall>i<3. authorized g (sha256 cert) i)
        \<and> request_ok q \<and> input = (request_bytes q, False)
        \<and> broker_uid g = Inr 0 \<and> length (request_bytes q) \<le> broker_room g
        \<and> length disk = response_length q
        \<and> broker_answer g (request_bytes q) = (frame_bytes (response_magic q) disk, False)
        \<and> sends (frame_bytes (response_magic q) disk) stream stream'"
    proof (cases "handshake g")
      case (Inr leaf)
      then obtain cert where c: "handshake g = Inr (Some cert)"
        using \<open>connection sha256 g input stream = Inr stream'\<close>
        by (cases leaf) (simp_all add: connection_def)
      then obtain q broker disk where
        "authorized g (sha256 cert) 0" "authorized g (sha256 cert) 1" "authorized g (sha256 cert) 2"
        "permit g" "intake_in_time g" "processing_in_time g"
        "request_ok q" "input = (request_bytes q, False)" "broker_uid g = Inr 0"
        "forward q (wide (broker_room g)) = Inr broker" "receive q (broker_answer g (sent broker)) = Inr disk"
        "respond q disk stream = Inr stream'"
        using \<open>connection sha256 g input stream = Inr stream'\<close>
        by (auto simp: connection_def Let_def result_simps authorize_iff versioned_iff split: if_split_asm)
      then show ?thesis
        unfolding three using c by (auto simp: forward_iff sends_wide receive_iff respond_iff)
    qed (simp add: connection_def)
  next
    assume "\<exists>cert q disk. handshake g = Inr (Some cert) \<and> permit g \<and> intake_in_time g \<and> processing_in_time g
        \<and> (\<forall>i<3. authorized g (sha256 cert) i)
        \<and> request_ok q \<and> input = (request_bytes q, False)
        \<and> broker_uid g = Inr 0 \<and> length (request_bytes q) \<le> broker_room g
        \<and> length disk = response_length q
        \<and> broker_answer g (request_bytes q) = (frame_bytes (response_magic q) disk, False)
        \<and> sends (frame_bytes (response_magic q) disk) stream stream'"
    then obtain cert q disk where h: "handshake g = Inr (Some cert)" "permit g" "intake_in_time g" "processing_in_time g"
      "authorized g (sha256 cert) 0" "authorized g (sha256 cert) 1" "authorized g (sha256 cert) 2"
      "request_ok q" "input = (request_bytes q, False)"
      "broker_uid g = Inr 0" "length (request_bytes q) \<le> broker_room g"
      "length disk = response_length q"
      "broker_answer g (request_bytes q) = (frame_bytes (response_magic q) disk, False)"
      "sends (frame_bytes (response_magic q) disk) stream stream'"
      unfolding three by blast
    have "authorize g i (sha256 cert) = Inr ()" if "i \<in> {0, 1, 2}" for i
      using that h(5-7) by (auto simp: authorize_iff)
    moreover have "read_versioned_request input = Inr q"
      using h by (simp add: versioned_iff)
    moreover have "forward q (wide (broker_room g)) = Inr \<lparr>sent = request_bytes q,
        room = broker_room g - length (request_bytes q), closes = True, closed = True\<rparr>"
      using h by (simp add: forward_iff sends_wide)
    moreover have "receive q (frame_bytes (response_magic q) disk, False) = Inr disk"
      using h by (simp add: receive_iff)
    moreover have "respond q disk stream = Inr stream'"
      using h by (simp add: respond_iff)
    ultimately show "connection sha256 g input stream = Inr stream'"
      using h by (simp add: connection_def)
  qed
qed

section \<open>The client\<close>

text \<open>
  What a call of the client depends on: the connection with its TLS handshake (or the error it
  ended with), the two deadlines, and the peer's answer to what was sent.
\<close>

record network =
  connect :: "sink dispatch"
  sent_in_time :: bool
  answered_in_time :: bool
  peer :: "bytes \<Rightarrow> reader"

definition call ::
  "network \<Rightarrow> (sink \<Rightarrow> sink dispatch) \<Rightarrow> (reader \<Rightarrow> bytes dispatch) \<Rightarrow> bytes dispatch" where
  "call net write read =
     bindE (connect net) (\<lambda>stream.
     bindE (if sent_in_time net then write stream else Inl Deadline) (\<lambda>stream.
     if answered_in_time net then read (peer net (sent stream)) else Inl Deadline))"

definition process :: "network \<Rightarrow> reader \<Rightarrow> u64 \<Rightarrow> bytes dispatch" where
  "process net input len =
     (if \<not> (1 \<le> len \<and> len \<le> MAX_INPUT) then Inl Frame
      else call net (write_request input len) read_response)"

definition process_paired :: "network \<Rightarrow> reader \<Rightarrow> u64 \<Rightarrow> bytes \<Rightarrow> bytes dispatch" where
  "process_paired net input len binding =
     (if \<not> (MIN_PAIRED_INPUT \<le> len \<and> len \<le> MAX_PAIRED_INPUT) then Inl Frame
      else call net (write_paired_request input len binding) read_paired_response)"

definition process_still :: "network \<Rightarrow> bytes \<Rightarrow> bytes \<Rightarrow> bytes dispatch" where
  "process_still net input policy =
     (if input = [] \<or> length input > unat MAX_STILL_INPUT - 16 then Inl Frame
      else bindE (validate_still_request (policy @ input)) (\<lambda>_.
           call net (write_still_request (policy @ input)) read_still_response))"

definition process_source_gif :: "network \<Rightarrow> bytes \<Rightarrow> bytes \<Rightarrow> bytes dispatch" where
  "process_source_gif net input policy =
     (if input = [] \<or> length input > unat MAX_GIF_SOURCE_INPUT - 16 then Inl Frame
      else bindE (validate_source_gif_request (policy @ input)) (\<lambda>_.
           call net (write_source_gif_request (policy @ input)) read_source_gif_response))"

definition process_video :: "network \<Rightarrow> bytes \<Rightarrow> u8 \<Rightarrow> bytes dispatch" where
  "process_video net input container =
     (if input = [] \<or> length input > unat MAX_INPUT \<or> \<not> (container = 1 \<or> container = 2)
      then Inl Frame
      else call net (write_video_request (container # input)) read_video_response)"

definition process_pdf :: "network \<Rightarrow> reader \<Rightarrow> u64 \<Rightarrow> bytes dispatch" where
  "process_pdf net input len =
     (if \<not> (1 \<le> len \<and> len \<le> MAX_INPUT) then Inl Frame
      else call net (write_pdf_request input len) read_pdf_response)"

definition process_gif :: "network \<Rightarrow> reader \<Rightarrow> u64 \<Rightarrow> bytes dispatch" where
  "process_gif net input len =
     (if \<not> (1 \<le> len \<and> len \<le> MAX_INPUT) then Inl Frame
      else call net (write_gif_request input len) read_gif_response)"

text \<open>The client call for each kind of request, and a network whose peer is the gateway.\<close>

fun submit :: "network \<Rightarrow> Request \<Rightarrow> bytes dispatch" where
  "submit net (ImageV1 b) = process net (b, False) (of_nat (length b))"
| "submit net (GifV3 b) = process_gif net (b, False) (of_nat (length b))"
| "submit net (PdfV4 b) = process_pdf net (b, False) (of_nat (length b))"
| "submit net (VideoV5 b) = process_video net (tl b) (hd b)"
| "submit net (StillV6 b) = process_still net (drop 16 b) (take 16 b)"
| "submit net (GifV7 b) = process_source_gif net (drop 16 b) (take 16 b)"
| "submit net (PairedV2 binding b) = process_paired net (b, False) (of_nat (length b)) binding"

definition through_gateway :: "(bytes \<Rightarrow> bytes) \<Rightarrow> gateway_world \<Rightarrow> nat \<Rightarrow> bytes \<Rightarrow> reader" where
  "through_gateway sha256 g limit bs =
     (case connection sha256 g (bs, False) (wide limit) of Inr w \<Rightarrow> (sent w, False) | Inl _ \<Rightarrow> ([], True))"

lemma per_kind:
  "forward (VideoV5 b) = write_video_request b" "receive (VideoV5 b) = read_video_response"
  "forward (StillV6 b) = write_still_request b" "receive (StillV6 b) = read_still_response"
  "forward (GifV7 b) = write_source_gif_request b" "receive (GifV7 b) = read_source_gif_response"
  "forward (ImageV1 b) = write_request (b, False) (of_nat (length b))" "receive (ImageV1 b) = read_response"
  "forward (GifV3 b) = write_gif_request (b, False) (of_nat (length b))" "receive (GifV3 b) = read_gif_response"
  "forward (PdfV4 b) = write_pdf_request (b, False) (of_nat (length b))" "receive (PdfV4 b) = read_pdf_response"
  "forward (PairedV2 a b) = write_paired_request (b, False) (of_nat (length b)) a"
  "receive (PairedV2 a b) = read_paired_response"
  by (simp_all add: fun_eq_iff)

lemma submit_call:
  assumes "request_ok q"
  shows "submit net q = call net (forward q) (receive q)"
proof (cases q)
  case (VideoV5 b)
  with assms show ?thesis
    by (cases b) (auto simp: process_video_def bounded_def per_kind)
next
  case (StillV6 b)
  with assms have "bounded 17 10485776 b" by (auto dest: validated_bounds)
  with StillV6 assms show ?thesis
    by (auto simp: process_still_def bounded_def per_kind)
next
  case (GifV7 b)
  with assms have "bounded 17 8388624 b" by (auto dest: validated_bounds)
  with GifV7 assms show ?thesis
    by (auto simp: process_source_gif_def bounded_def per_kind)
qed (use assms in \<open>auto simp: process_def process_gif_def process_pdf_def process_paired_def
    bounded_def word_le_nat_alt per_kind\<close>)

lemma submit_iff:
  assumes "request_ok q"
  shows "submit net q = Inr disk \<longleftrightarrow>
     (\<exists>stream. connect net = Inr stream \<and> sent_in_time net \<and> answered_in_time net
        \<and> length (request_bytes q) \<le> room stream \<and> closes stream
        \<and> length disk = response_length q
        \<and> peer net (sent stream @ request_bytes q) = (frame_bytes (response_magic q) disk, False))"
  unfolding submit_call [OF assms]
  by (auto simp: call_def result_simps forward_iff [OF assms] sends_def receive_iff split: if_split_asm)

end
