(* ===== verification/PairedFrames.thy ===== *)
theory PairedFrames
  imports Streams ReplayWire
begin

unbundle bit_operations_syntax

text \<open>
  \<open>crates/media/src/paired.rs\<close>: the frames that carry an image with an optional replay upload to
  the guest, and the fixed-size results that come back. Slices and indexes that would be out of
  range are \<open>Panicked\<close>; \<open>mem\<close> stands for \<open>try_reserve_exact\<close>, \<open>sha256\<close> for the digest.
\<close>

section \<open>Types\<close>

definition VERSION :: u16 where [simp]: "VERSION = 2"
definition MAX_PNG_INPUT_BYTES :: u64 where [simp]: "MAX_PNG_INPUT_BYTES = 8 * 1024 * 1024"
definition MAX_REPLAY_INPUT_BYTES :: u64 where [simp]: "MAX_REPLAY_INPUT_BYTES = 8 * 1024 * 1024"
definition MAX_PAIR_INPUT_BYTES :: u64 where [simp]: "MAX_PAIR_INPUT_BYTES = 16777272"
definition INPUT_COMPLETION :: bytes where "INPUT_COMPLETION = ascii ''IBDONE02''"
definition INPUT_HEADER_BYTES :: nat where [simp]: "INPUT_HEADER_BYTES = 48"
definition INPUT_TRAILER_BYTES :: nat where [simp]: "INPUT_TRAILER_BYTES = 8"
definition RESULT_HEADER_BYTES :: nat where [simp]: "RESULT_HEADER_BYTES = 64"
definition RESULT_BYTES :: nat where [simp]: "RESULT_BYTES = 4456960"
definition PIXEL_HEADER_BYTES :: nat where [simp]: "PIXEL_HEADER_BYTES = 16"
definition HAS_REPLAY :: u32 where [simp]: "HAS_REPLAY = 1"
definition MAX_DIMENSION :: u32 where [simp]: "MAX_DIMENSION = 1024"

datatype InputKind = ImageV1 | PairedV2

datatype ReplayPresence = Absent | Present

datatype PairedError =
    Kind | InputSize | ResultSize | Header | Flags | EmptyImage | ReplayPresenceMismatch | Length
  | JobId | Binding | Pixels | Padding | Allocation | Replay ReplayWireError

type_synonym 'a paired = "PairedError stop + 'a"

record InputHeader =
  header_frame :: bytes
  header_image :: u64
  header_replay :: u64

record PairedInputCandidate =
  job_id :: bytes
  image :: bytes
  replay_upload :: "bytes option"
  frame_sha256 :: bytes
  image_sha256 :: bytes
  replay_sha256 :: "bytes option"

record PairedResultCandidate =
  binding :: bytes
  dimensions :: "u32 \<times> u32"
  rgba :: bytes
  replay_wire :: "bytes option"
  replay :: "UntrustedReplay option"

section \<open>Helpers\<close>

definition require_kind :: "InputKind \<Rightarrow> unit paired" where
  "require_kind selection = (if selection = PairedV2 then Inr () else Inl (Refused Kind))"

definition presence :: "bool \<Rightarrow> ReplayPresence" where
  "presence has_replay = (if has_replay then Present else Absent)"

definition input_length :: "u64 \<Rightarrow> u64 \<Rightarrow> bool \<Rightarrow> nat paired" where
  "input_length img rep has_replay =
     (if img = 0 then Inl (Refused EmptyImage)
      else if has_replay \<noteq> (rep \<noteq> 0) then Inl (Refused ReplayPresenceMismatch)
      else (case Option.bind (checked_add64 (unat img) (unat rep))
                  (\<lambda>n. checked_add64 n (INPUT_HEADER_BYTES + INPUT_TRAILER_BYTES)) of
              None \<Rightarrow> Inl (Refused Length)
            | Some n \<Rightarrow>
                if img > MAX_PNG_INPUT_BYTES \<or> rep > MAX_REPLAY_INPUT_BYTES
                   \<or> n > unat MAX_PAIR_INPUT_BYTES
                then Inl (Refused InputSize) else Inr n))"

text \<open>The callers have checked that the whole header is there.\<close>

definition require_header :: "bytes \<Rightarrow> bytes \<Rightarrow> nat \<Rightarrow> unit paired" where
  "require_header input magic len =
     (if length input < 12 then Inl Panicked
      else if take 8 input \<noteq> magic \<or> at16 input 8 \<noteq> VERSION \<or> unat (at16 input 10) \<noteq> len
      then Inl (Refused Header) else Inr ())"

definition replay_flag :: "bytes \<Rightarrow> bool paired" where
  "replay_flag input =
     (if length input < 16 then Inl Panicked
      else let flags = at32 input 12 in
        if flags AND NOT HAS_REPLAY \<noteq> 0 then Inl (Refused Flags) else Inr (flags = HAS_REPLAY))"

definition compact_pixels :: "bytes \<Rightarrow> ((u32 \<times> u32) \<times> bytes) paired" where
  "compact_pixels input =
     (if length input < PIXEL_HEADER_BYTES \<or> take 8 input \<noteq> ascii ''IBRGBA01''
      then Inl (Refused Pixels)
      else let width = at32 input 8; height = at32 input 12 in
        if \<not> (1 \<le> width \<and> width \<le> MAX_DIMENSION) \<or> \<not> (1 \<le> height \<and> height \<le> MAX_DIMENSION)
        then Inl (Refused Pixels)
        else (case Option.bind (Option.bind (checked_mul64 (unat width) (unat height))
                     (\<lambda>n. checked_mul64 n 4)) (\<lambda>n. checked_add64 n PIXEL_HEADER_BYTES) of
                None \<Rightarrow> Inl (Refused Pixels)
              | Some expected \<Rightarrow>
                  if length input \<noteq> expected then Inl (Refused Pixels)
                  else Inr ((width, height), drop PIXEL_HEADER_BYTES input)))"

section \<open>Input headers\<close>

definition flag_word :: "bool \<Rightarrow> u32" where
  "flag_word b = (if b then 1 else 0)"

definition new_header :: "bytes \<Rightarrow> u64 \<Rightarrow> u64 option \<Rightarrow> InputHeader paired" where
  "new_header job img rep =
     bindE (input_length img (case rep of None \<Rightarrow> 0 | Some n \<Rightarrow> n) (rep \<noteq> None)) (\<lambda>_.
     Inr \<lparr>header_frame = ascii ''IBPAIR02'' @ be16 VERSION @ be16 48 @ be32 (flag_word (rep \<noteq> None))
            @ be64 img @ be64 (case rep of None \<Rightarrow> 0 | Some n \<Rightarrow> n) @ job,
          header_image = img, header_replay = (case rep of None \<Rightarrow> 0 | Some n \<Rightarrow> n)\<rparr>)"

definition parse_header :: "bytes \<Rightarrow> bytes \<Rightarrow> InputHeader paired" where
  "parse_header bs expected_job =
     bindE (require_header bs (ascii ''IBPAIR02'') INPUT_HEADER_BYTES) (\<lambda>_.
     bindE (replay_flag bs) (\<lambda>present.
     let img = at64 bs 16; rep = at64 bs 24 in
     bindE (input_length img rep present) (\<lambda>_.
     if drop 32 bs \<noteq> expected_job then Inl (Refused JobId)
     else Inr \<lparr>header_frame = bs, header_image = img, header_replay = rep\<rparr>)))"

definition replay_bytes :: "InputHeader \<Rightarrow> u64 option" where
  "replay_bytes h = (if header_replay h \<noteq> 0 then Some (header_replay h) else None)"

definition total_bytes :: "InputHeader \<Rightarrow> u64" where
  "total_bytes h = 56 + header_image h + header_replay h"

section \<open>Input frames\<close>

definition encode_input ::
  "(nat \<Rightarrow> bool) \<Rightarrow> InputKind \<Rightarrow> bytes \<Rightarrow> bytes \<Rightarrow> bytes option \<Rightarrow> bytes paired" where
  "encode_input mem selection job img rep =
     bindE (require_kind selection) (\<lambda>_.
     if length img \<ge> 2 ^ 64 then Inl (Refused InputSize)
     else if (case rep of None \<Rightarrow> 0 | Some x \<Rightarrow> length x) \<ge> 2 ^ 64 then Inl (Refused InputSize)
     else let image_len = of_nat (length img);
              replay_len = of_nat (case rep of None \<Rightarrow> 0 | Some x \<Rightarrow> length x);
              has_replay = rep \<noteq> None in
       bindE (input_length image_len replay_len has_replay) (\<lambda>len.
       if \<not> mem len then Inl (Refused Allocation)
       else Inr (ascii ''IBPAIR02'' @ be16 VERSION @ be16 (of_nat INPUT_HEADER_BYTES)
              @ be32 (flag_word has_replay) @ be64 image_len @ be64 replay_len @ job @ img
              @ (case rep of None \<Rightarrow> [] | Some x \<Rightarrow> x) @ ascii ''IBDONE02'')))"

text \<open>The slices at the end of \<open>decode_input\<close>.\<close>

definition input_parts ::
  "(bytes \<Rightarrow> bytes) \<Rightarrow> bytes \<Rightarrow> bytes \<Rightarrow> bool \<Rightarrow> nat \<Rightarrow> nat \<Rightarrow> PairedInputCandidate paired" where
  "input_parts sha256 input expected_job has_replay image_end replay_end =
     bindE (cut replay_end (length input) input) (\<lambda>trailer.
     if trailer \<noteq> ascii ''IBDONE02'' then Inl (Refused Header)
     else bindE (cut INPUT_HEADER_BYTES image_end input) (\<lambda>img.
     bindE (cut image_end replay_end input) (\<lambda>upload.
     let rep = if has_replay then Some upload else None in
     Inr \<lparr>job_id = expected_job, image = img, replay_upload = rep,
       frame_sha256 = sha256 input, image_sha256 = sha256 img,
       replay_sha256 = map_option sha256 rep\<rparr>)))"

definition decode_input ::
  "(bytes \<Rightarrow> bytes) \<Rightarrow> InputKind \<Rightarrow> bytes \<Rightarrow> bytes \<Rightarrow> PairedInputCandidate paired" where
  "decode_input sha256 selection input expected_job =
     bindE (require_kind selection) (\<lambda>_.
     if length input < INPUT_HEADER_BYTES + INPUT_TRAILER_BYTES
        \<or> length input \<ge> 2 ^ 64 \<or> length input > unat MAX_PAIR_INPUT_BYTES
     then Inl (Refused InputSize)
     else bindE (require_header input (ascii ''IBPAIR02'') INPUT_HEADER_BYTES) (\<lambda>_.
     bindE (replay_flag input) (\<lambda>has_replay.
     let image_len = at64 input 16; replay_len = at64 input 24 in
     bindE (input_length image_len replay_len has_replay) (\<lambda>n.
     if n \<noteq> length input then Inl (Refused Length)
     else if slice_of 32 48 input \<noteq> expected_job then Inl (Refused JobId)
     else (case checked_add64 INPUT_HEADER_BYTES (unat image_len) of
         None \<Rightarrow> Inl (Refused Length)
       | Some image_end \<Rightarrow> (case checked_add64 image_end (unat replay_len) of
           None \<Rightarrow> Inl (Refused Length)
         | Some replay_end \<Rightarrow>
             input_parts sha256 input expected_job has_replay image_end replay_end))))))"

section \<open>Results\<close>

text \<open>The slices at the end of \<open>decode_result\<close>.\<close>

definition result_parts ::
  "(nat \<Rightarrow> bool) \<Rightarrow> bytes \<Rightarrow> bytes \<Rightarrow> bool \<Rightarrow> nat \<Rightarrow> nat \<Rightarrow> PairedResultCandidate paired" where
  "result_parts mem input expected_binding has_replay pixel_end replay_end =
     bindE (cut RESULT_HEADER_BYTES pixel_end input) (\<lambda>pixels.
     bindE (compact_pixels pixels) (\<lambda>(dims, px).
     bindE (cut replay_end (length input) input) (\<lambda>rest.
     if \<exists>b\<in>set rest. b \<noteq> 0 then Inl (Refused Padding)
     else bindE (cut pixel_end replay_end input) (\<lambda>present.
     let wire = if has_replay then Some present else None in
     bindE (case wire of None \<Rightarrow> Inr None
            | Some w \<Rightarrow> (case ReplayWire.decode mem w of
                Inl e \<Rightarrow> Inl (Refused (Replay e)) | Inr r \<Rightarrow> Inr (Some r))) (\<lambda>rep.
     Inr \<lparr>binding = expected_binding, dimensions = dims, rgba = px,
          replay_wire = wire, replay = rep\<rparr>)))))"

definition decode_result ::
  "(nat \<Rightarrow> bool) \<Rightarrow> InputKind \<Rightarrow> bytes \<Rightarrow> bytes \<Rightarrow> ReplayPresence \<Rightarrow> PairedResultCandidate paired" where
  "decode_result mem selection input expected_binding expected_replay =
     bindE (require_kind selection) (\<lambda>_.
     if length input \<noteq> RESULT_BYTES then Inl (Refused ResultSize)
     else bindE (require_header input (ascii ''IBRES002'') RESULT_HEADER_BYTES) (\<lambda>_.
     bindE (replay_flag input) (\<lambda>has_replay.
     if presence has_replay \<noteq> expected_replay then Inl (Refused ReplayPresenceMismatch)
     else if slice_of 16 48 input \<noteq> expected_binding then Inl (Refused Binding)
     else let pixel_len = unat (at64 input 48); replay_len = unat (at64 input 56) in
       if has_replay \<noteq> (replay_len \<noteq> 0) then Inl (Refused ReplayPresenceMismatch)
       else if replay_len > MAX_WIRE_BYTES then Inl (Refused Length)
       else (case checked_add64 RESULT_HEADER_BYTES pixel_len of
           None \<Rightarrow> Inl (Refused Length)
         | Some pixel_end \<Rightarrow>
             (case Option.bind (checked_add64 pixel_end replay_len)
                     (\<lambda>e. if e \<le> RESULT_BYTES then Some e else None) of
                None \<Rightarrow> Inl (Refused Length)
              | Some replay_end \<Rightarrow>
                  result_parts mem input expected_binding has_replay pixel_end replay_end)))))"

section \<open>The shared frame head\<close>

definition frame_head :: "bytes \<Rightarrow> u16 \<Rightarrow> bool \<Rightarrow> bytes" where
  "frame_head magic len has_replay = magic @ be16 2 @ be16 len @ be32 (flag_word has_replay)"

lemma length_frame_head [simp]: "length (frame_head magic len b) = length magic + 8"
  by (simp add: frame_head_def)

lemma clear_low_bit: "(x :: u32) AND NOT 1 = 0 \<longleftrightarrow> x = 0 \<or> x = 1"
proof
  assume a: "x AND NOT 1 = 0"
  have "x = (x AND 1) OR (x AND NOT 1)"
    by (simp flip: bit.conj_disj_distrib)
  with a have "x = x AND 1" by simp
  also have "\<dots> = of_bool (odd x)" by (simp add: and_one_eq mod_2_eq_odd)
  finally show "x = 0 \<or> x = 1" by (cases "odd x") simp_all
next
  assume "x = 0 \<or> x = 1"
  then show "x AND NOT 1 = 0" by auto
qed

lemmas clear_low_bits = clear_low_bit clear_low_bit [simplified]

lemma replay_flag_iff:
  "16 \<le> length bs \<Longrightarrow> replay_flag bs = Inr b \<longleftrightarrow> at32 bs 12 = flag_word b"
  by (auto simp: replay_flag_def Let_def clear_low_bits flag_word_def)

lemma require_header_iff:
  "12 \<le> length bs \<Longrightarrow> require_header bs magic len = Inr u \<longleftrightarrow>
     take 8 bs = magic \<and> at16 bs 8 = 2 \<and> unat (at16 bs 10) = len"
  by (auto simp: require_header_def)

lemma drop_split: "drop i bs = take n (drop i bs) @ drop (i + n) bs"
  by (metis add.commute append_take_drop_id drop_drop)

lemma head_split:
  assumes "16 \<le> length bs"
  shows "bs = take 8 bs @ be16 (at16 bs 8) @ be16 (at16 bs 10) @ be32 (at32 bs 12) @ drop 16 bs"
proof -
  have "bs = take 8 bs @ take 2 (drop 8 bs) @ take 2 (drop 10 bs) @ take 4 (drop 12 bs) @ drop 16 bs"
    using drop_split [of 8 bs 2] drop_split [of 10 bs 2] drop_split [of 12 bs 4]
    by (simp flip: append.assoc)
  then show ?thesis
    using assms by (simp only: field16 field32)
qed

lemma head_fields:
  assumes "length magic = 8"
  shows "take 8 (frame_head magic len b @ xs) = magic" "at16 (frame_head magic len b @ xs) 8 = 2"
    "at16 (frame_head magic len b @ xs) 10 = len" "at32 (frame_head magic len b @ xs) 12 = flag_word b"
  using assms at16_field [of magic 8 2 "be16 len @ be32 (flag_word b) @ xs"]
    at16_field [of "magic @ be16 2" 10 len "be32 (flag_word b) @ xs"]
    at32_field [of "magic @ be16 2 @ be16 len" 12 "flag_word b" xs]
  by (simp_all add: frame_head_def)

lemma head_magic: "length magic = 8 \<Longrightarrow> take 8 (frame_head magic len b) = magic"
  by (simp add: frame_head_def)

lemma head_iff:
  assumes "16 \<le> length bs" and "length magic = 8"
  shows "require_header bs magic (unat len) = Inr () \<and> replay_flag bs = Inr b \<longleftrightarrow>
     bs = frame_head magic len b @ drop 16 bs"
proof
  assume "require_header bs magic (unat len) = Inr () \<and> replay_flag bs = Inr b"
  then have "take 8 bs = magic" "at16 bs 8 = 2" "at16 bs 10 = len" "at32 bs 12 = flag_word b"
    using assms by (auto simp: require_header_iff replay_flag_iff word_unat_eq_iff)
  with head_split [OF assms(1)] show "bs = frame_head magic len b @ drop 16 bs"
    by (simp only: frame_head_def append.assoc)
next
  assume r: "bs = frame_head magic len b @ drop 16 bs"
  define rest where "rest = drop 16 bs"
  have bs: "bs = frame_head magic len b @ rest"
    using r by (simp add: rest_def)
  show "require_header bs magic (unat len) = Inr () \<and> replay_flag bs = Inr b"
    using assms unfolding bs
    by (simp add: require_header_iff replay_flag_iff head_fields head_magic)
qed

lemma input_length_iff:
  "input_length img rep b = Inr n \<longleftrightarrow>
     img \<noteq> 0 \<and> (b \<longleftrightarrow> rep \<noteq> 0) \<and> unat img \<le> 8388608 \<and> unat rep \<le> 8388608
     \<and> n = unat img + unat rep + 56"
  by (auto simp: input_length_def checked_add64_def word_le_nat_alt not_less word_less_nat_alt)

section \<open>Input frames\<close>

definition replay_part :: "bytes option \<Rightarrow> bytes" where
  "replay_part rep = (case rep of None \<Rightarrow> [] | Some x \<Rightarrow> x)"

definition pair_bytes :: "bytes \<Rightarrow> bytes \<Rightarrow> bytes option \<Rightarrow> bytes" where
  "pair_bytes job img rep =
     frame_head (ascii ''IBPAIR02'') 48 (rep \<noteq> None) @ be64 (of_nat (length img))
       @ be64 (of_nat (length (replay_part rep))) @ job @ img @ replay_part rep @ ascii ''IBDONE02''"

definition pair_ok :: "bytes \<Rightarrow> bytes option \<Rightarrow> bool" where
  "pair_ok img rep \<longleftrightarrow> 1 \<le> length img \<and> length img \<le> 8388608
     \<and> (rep = None \<or> (\<exists>x. rep = Some x \<and> 1 \<le> length x \<and> length x \<le> 8388608))"

lemma pair_ok_length: "pair_ok img rep \<Longrightarrow> length (replay_part rep) \<le> 8388608 \<and> length img \<le> 8388608"
  by (auto simp: pair_ok_def replay_part_def)

lemma of_nat_zero: "length xs < 2 ^ 64 \<Longrightarrow> (of_nat (length xs) :: u64) = 0 \<longleftrightarrow> xs = []"
  by (metis length_0_conv length_word of_nat_0 unat_0 zero_neq_one)

lemma pair_length_iff:
  assumes "length img < 2 ^ 64" and "length (replay_part rep) < 2 ^ 64"
  shows "input_length (of_nat (length img)) (of_nat (length (replay_part rep))) (rep \<noteq> None) = Inr n \<longleftrightarrow>
     pair_ok img rep \<and> n = length img + length (replay_part rep) + 56"
  using assms
  by (cases rep) (auto simp: input_length_iff pair_ok_def of_nat_zero replay_part_def length_word Suc_le_eq
      unsigned_of_nat take_bit_eq_mod)

lemma encode_input_iff:
  "encode_input mem selection job img rep = Inr bs \<longleftrightarrow>
     selection = PairedV2 \<and> pair_ok img rep \<and> mem (length img + length (replay_part rep) + 56)
     \<and> bs = pair_bytes job img rep"
proof (cases "length img < 2 ^ 64 \<and> length (replay_part rep) < 2 ^ 64")
  case True
  have r: "(case rep of None \<Rightarrow> 0 | Some x \<Rightarrow> length x) = length (replay_part rep)"
      "(case rep of None \<Rightarrow> [] | Some x \<Rightarrow> x) = replay_part rep"
    by (cases rep; simp add: replay_part_def)+
  show ?thesis
    unfolding encode_input_def require_kind_def r
    using True
    by (auto simp: pair_length_iff [of img rep, simplified] bindE_eq_Inr Let_def pair_bytes_def frame_head_def)
next
  case False
  then have "\<not> pair_ok img rep" using pair_ok_length by fastforce
  with False show ?thesis
    by (cases rep) (auto simp: encode_input_def require_kind_def replay_part_def)
qed

text \<open>The frame's fields after the head: two lengths, the job, and the rest.\<close>

lemma pair_split:
  assumes "48 \<le> length bs"
  shows "drop 16 bs = be64 (at64 bs 16) @ be64 (at64 bs 24) @ slice_of 32 48 bs @ drop 48 bs"
proof -
  have "drop 16 bs = take 8 (drop 16 bs) @ take 8 (drop 24 bs) @ take 16 (drop 32 bs) @ drop 48 bs"
    using drop_split [of 16 bs 8] drop_split [of 24 bs 8] drop_split [of 32 bs 16]
    by (simp flip: append.assoc)
  then show ?thesis
    using assms by (simp only: field64 slice_of_def) simp
qed

lemma pair_fields:
  assumes "length magic = 8" and "length job = 16"
  shows "at64 (frame_head magic len b @ be64 x @ be64 y @ job @ zs) 16 = x"
    "at64 (frame_head magic len b @ be64 x @ be64 y @ job @ zs) 24 = y"
    "slice_of 32 48 (frame_head magic len b @ be64 x @ be64 y @ job @ zs) = job"
    "drop 32 (frame_head magic len b @ be64 x @ be64 y @ job @ zs) = job @ zs"
  using assms at64_field [of "frame_head magic len b" 16 x "be64 y @ job @ zs"]
    at64_field [of "frame_head magic len b @ be64 x" 24 y "job @ zs"]
  by (simp_all add: slice_of_def)

lemma length_pair_bytes:
  "length job = 16 \<Longrightarrow> length (pair_bytes job img rep) = 56 + length img + length (replay_part rep)"
  by (simp add: pair_bytes_def)

definition pair_candidate :: "(bytes \<Rightarrow> bytes) \<Rightarrow> bytes \<Rightarrow> bytes \<Rightarrow> bytes option \<Rightarrow> PairedInputCandidate" where
  "pair_candidate sha256 job img rep =
     \<lparr>job_id = job, image = img, replay_upload = rep, frame_sha256 = sha256 (pair_bytes job img rep),
      image_sha256 = sha256 img, replay_sha256 = map_option sha256 rep\<rparr>"

lemma cut_part:
  "cut (length xs) (length xs + length ys) (xs @ ys @ zs) = Inr ys"
  by (simp add: cut_def slice_of_def)

lemma decode_input_complete:
  assumes job: "length job = 16" and ok: "pair_ok img rep"
  shows "decode_input sha256 PairedV2 (pair_bytes job img rep) job = Inr (pair_candidate sha256 job img rep)"
proof -
  define bs where "bs = pair_bytes job img rep"
  define rp where "rp = replay_part rep"
  define has where "has \<longleftrightarrow> rep \<noteq> None"
  have len: "length img < 2 ^ 64" "length rp < 2 ^ 64" "length img \<le> 8388608" "length rp \<le> 8388608"
    using pair_ok_length [OF ok] by (auto simp: rp_def)
  have form: "bs = frame_head (ascii ''IBPAIR02'') 48 has @ be64 (of_nat (length img))
       @ be64 (of_nat (length rp)) @ job @ img @ rp @ ascii ''IBDONE02''"
    by (simp add: bs_def pair_bytes_def rp_def has_def)
  then have lbs: "length bs = 56 + length img + length rp"
    using job by simp
  have "require_header bs (ascii ''IBPAIR02'') (unat (48 :: u16)) = Inr () \<and> replay_flag bs = Inr has"
    by (subst head_iff) (simp_all add: form)
  then have head: "require_header bs (ascii ''IBPAIR02'') 48 = Inr ()" "replay_flag bs = Inr has"
    by simp_all
  have fields: "at64 bs 16 = of_nat (length img)" "at64 bs 24 = of_nat (length rp)"
      "slice_of 32 48 bs = job" "drop 48 bs = img @ rp @ ascii ''IBDONE02''"
    using job pair_fields [of "ascii ''IBPAIR02''" job 48 has]
    by (simp_all add: form)
  have n: "input_length (of_nat (length img)) (of_nat (length rp)) has = Inr (length bs)"
    using ok len lbs pair_length_iff [of img rep "length bs"] by (simp add: rp_def has_def)
  have bs: "bs = take 48 bs @ img @ rp @ ascii ''IBDONE02''" and "length (take 48 bs) = 48"
    using fields(4) lbs append_take_drop_id [of 48 bs] by simp_all
  then have cuts: "cut (48 + length img + length rp) (length bs) bs = Inr (ascii ''IBDONE02'')"
      "cut 48 (48 + length img) bs = Inr img"
      "cut (48 + length img) (48 + length img + length rp) bs = Inr rp"
    using cut_part [of "take 48 bs @ img @ rp" "ascii ''IBDONE02''" "[]"]
      cut_part [of "take 48 bs" img "rp @ ascii ''IBDONE02''"]
      cut_part [of "take 48 bs @ img" rp "ascii ''IBDONE02''"] lbs
    by (simp_all add: add.assoc)
  have ends: "checked_add64 48 (length img) = Some (48 + length img)"
      "checked_add64 (48 + length img) (length rp) = Some (48 + length img + length rp)"
    using len by (simp_all add: checked_add64_def)
  have "decode_input sha256 PairedV2 bs job
      = Inr \<lparr>job_id = job, image = img, replay_upload = (if has then Some rp else None), frame_sha256 = sha256 bs,
               image_sha256 = sha256 img, replay_sha256 = map_option sha256 (if has then Some rp else None)\<rparr>"
    using len by (simp add: decode_input_def require_kind_def head n fields ends unat_of_length Let_def lbs
        input_parts_def cuts [unfolded lbs])
  then show ?thesis
    by (cases rep) (simp_all add: bs_def rp_def has_def pair_candidate_def replay_part_def)
qed

lemma input_length_cases: "input_length img rp b \<noteq> Inl Panicked"
  by (auto simp: input_length_def split: option.splits)

lemma decode_input_sound:
  assumes job: "length job = 16" and d: "decode_input sha256 selection bs job = Inr c"
  shows "selection = PairedV2 \<and> (\<exists>img rep. pair_ok img rep \<and> bs = pair_bytes job img rep)"
proof -
  have sel: "selection = PairedV2" and l: "56 \<le> length bs" "length bs \<le> 16777272"
    using d by (auto simp: decode_input_def require_kind_def split: if_split_asm)
  obtain has where head: "require_header bs (ascii ''IBPAIR02'') 48 = Inr ()" "replay_flag bs = Inr has"
    using d sel l by (auto simp: decode_input_def require_kind_def result_simps)
  then have h: "bs = frame_head (ascii ''IBPAIR02'') 48 has @ drop 16 bs"
    using head_iff [of bs "ascii ''IBPAIR02''" 48 has] l by simp
  define image_len where "image_len = unat (at64 bs 16)"
  define replay_len where "replay_len = unat (at64 bs 24)"
  have n: "input_length (at64 bs 16) (at64 bs 24) has = Inr (length bs)" and j: "slice_of 32 48 bs = job"
    using d sel l by (auto simp: decode_input_def require_kind_def result_simps head Let_def split: if_split_asm)
  from n have lens: "0 < image_len" "has \<longleftrightarrow> replay_len \<noteq> 0" "image_len \<le> 8388608" "replay_len \<le> 8388608"
      "length bs = image_len + replay_len + 56"
    by (auto simp: input_length_iff image_len_def replay_len_def unat_gt_0 unat_eq_zero)
  have ends: "checked_add64 48 image_len = Some (48 + image_len)"
      "checked_add64 (48 + image_len) replay_len = Some (48 + image_len + replay_len)"
    using lens by (simp_all add: checked_add64_def)
  have "input_parts sha256 bs job has (48 + image_len) (48 + image_len + replay_len) = Inr c"
    using d sel l n ends by (simp add: decode_input_def require_kind_def head Let_def j
        image_len_def replay_len_def)
  then have t: "slice_of (48 + image_len + replay_len) (length bs) bs = ascii ''IBDONE02''"
    by (auto simp: input_parts_def cut_def result_simps split: if_split_asm)
  define img where "img = take image_len (drop 48 bs)"
  define rp where "rp = take replay_len (drop (48 + image_len) bs)"
  have parts: "drop 48 bs = img @ rp @ ascii ''IBDONE02''"
    using t lens(5) drop_split [of 48 bs image_len] drop_split [of "48 + image_len" bs replay_len]
    by (simp add: img_def rp_def slice_of_def)
  have plen: "length img = image_len" "length rp = replay_len"
    using lens(5) by (simp_all add: img_def rp_def)
  have words: "at64 bs 16 = of_nat (length img)" "at64 bs 24 = of_nat (length rp)"
    using plen length_word [of "at64 bs 16" img] length_word [of "at64 bs 24" rp]
    by (simp_all add: image_len_def replay_len_def)
  define rep where "rep = (if has then Some rp else None)"
  have rp: "replay_part rep = rp" "rep \<noteq> None \<longleftrightarrow> has"
    using lens(2) plen by (auto simp: rep_def replay_part_def)
  have "48 \<le> length bs" using l by simp
  from pair_split [OF this] have "drop 16 bs = be64 (of_nat (length img)) @ be64 (of_nat (length rp)) @ job @ img @ rp @ ascii ''IBDONE02''"
    unfolding words j parts .
  then have "pair_bytes job img rep = frame_head (ascii ''IBPAIR02'') 48 has @ drop 16 bs"
    by (simp add: pair_bytes_def rp del: not_None_eq)
  then have "bs = pair_bytes job img rep"
    by (rule trans [OF h sym])
  moreover have "pair_ok img rep"
    using lens plen by (auto simp: pair_ok_def rep_def Suc_le_eq)
  ultimately show ?thesis using sel by blast
qed

lemma decode_input_iff:
  assumes "length job = 16"
  shows "decode_input sha256 selection bs job = Inr c \<longleftrightarrow>
     selection = PairedV2 \<and> (\<exists>img rep. pair_ok img rep \<and> bs = pair_bytes job img rep
       \<and> c = pair_candidate sha256 job img rep)"
  (is "?l \<longleftrightarrow> ?r")
proof
  assume l: ?l
  from decode_input_sound [OF assms l] obtain img rep
    where p: "selection = PairedV2" "pair_ok img rep" "bs = pair_bytes job img rep"
    by blast
  from l show ?r
    unfolding p(1,3) decode_input_complete [OF assms p(2)] using p(2) by auto
next
  assume ?r
  then show ?l
    using decode_input_complete [OF assms] by auto
qed

section \<open>Headers on their own\<close>

text \<open>The validated declarations, as they open the frame of a pair.\<close>

definition pair_header :: "bytes \<Rightarrow> u64 \<Rightarrow> u64 \<Rightarrow> bytes" where
  "pair_header job img rep =
     frame_head (ascii ''IBPAIR02'') 48 (rep \<noteq> 0) @ be64 img @ be64 rep @ job"

definition lengths_ok :: "u64 \<Rightarrow> u64 \<Rightarrow> bool" where
  "lengths_ok img rep \<longleftrightarrow> img \<noteq> 0 \<and> unat img \<le> 8388608 \<and> unat rep \<le> 8388608"

lemma new_header_iff:
  "new_header job img rep = Inr h \<longleftrightarrow>
     rep \<noteq> Some 0 \<and> lengths_ok img (case rep of None \<Rightarrow> 0 | Some n \<Rightarrow> n)
     \<and> h = \<lparr>header_frame = pair_header job img (case rep of None \<Rightarrow> 0 | Some n \<Rightarrow> n),
            header_image = img, header_replay = (case rep of None \<Rightarrow> 0 | Some n \<Rightarrow> n)\<rparr>"
  by (cases rep)
    (auto simp: new_header_def result_simps input_length_iff lengths_ok_def pair_header_def frame_head_def)

lemma parse_header_iff:
  assumes "length bs = 48" and "length job = 16"
  shows "parse_header bs job = Inr h \<longleftrightarrow>
     (\<exists>img rep. lengths_ok img rep \<and> bs = pair_header job img rep
        \<and> h = \<lparr>header_frame = bs, header_image = img, header_replay = rep\<rparr>)" (is "?l \<longleftrightarrow> ?r")
proof
  assume ?l
  then obtain has where head: "require_header bs (ascii ''IBPAIR02'') 48 = Inr ()" "replay_flag bs = Inr has"
    and rest: "lengths_ok (at64 bs 16) (at64 bs 24)" "has \<longleftrightarrow> at64 bs 24 \<noteq> 0" "drop 32 bs = job"
      "h = \<lparr>header_frame = bs, header_image = at64 bs 16, header_replay = at64 bs 24\<rparr>"
    by (auto simp: parse_header_def result_simps Let_def input_length_iff lengths_ok_def split: if_split_asm)
  have "bs = frame_head (ascii ''IBPAIR02'') 48 has @ drop 16 bs"
    using head_iff [of bs "ascii ''IBPAIR02''" 48 has] head assms by simp
  moreover have "drop 16 bs = be64 (at64 bs 16) @ be64 (at64 bs 24) @ job"
    using pair_split [of bs] assms rest(3) by (simp add: slice_of_def)
  ultimately have "bs = pair_header job (at64 bs 16) (at64 bs 24)"
    unfolding pair_header_def rest(2) [symmetric] by (metis (no_types))
  with rest show ?r by blast
next
  assume ?r
  then obtain img rep where r: "lengths_ok img rep" "bs = pair_header job img rep"
      "h = \<lparr>header_frame = bs, header_image = img, header_replay = rep\<rparr>"
    by blast
  have "require_header bs (ascii ''IBPAIR02'') (unat (48 :: u16)) = Inr () \<and> replay_flag bs = Inr (rep \<noteq> 0)"
    using assms by (subst head_iff) (simp_all add: r(2) pair_header_def)
  moreover have "at64 bs 16 = img" "at64 bs 24 = rep" "drop 32 bs = job"
    using assms(2) pair_fields [of "ascii ''IBPAIR02''" job 48 "rep \<noteq> 0" img rep "[]"]
    by (simp_all add: r(2) pair_header_def)
  ultimately show ?l
    using r(1,3) by (simp add: parse_header_def Let_def bindE_eq_Inr input_length_iff lengths_ok_def)
qed

end
