(* ===== verification/PairedResults.thy ===== *)
theory PairedResults
  imports PairedFrames
begin

unbundle bit_operations_syntax

text \<open>
  What \<open>decode_result\<close> of \<open>crates/media/src/paired.rs\<close> accepts: the fixed-size results with a
  compact pixel block, an optional replay wire and zero padding; and that neither decoder of the
  file ever slices out of range.
\<close>

section \<open>The pixel block\<close>

definition pixel_block :: "u32 \<times> u32 \<Rightarrow> bytes \<Rightarrow> bytes" where
  "pixel_block d px = ascii ''IBRGBA01'' @ be32 (fst d) @ be32 (snd d) @ px"

definition pixels_ok :: "u32 \<times> u32 \<Rightarrow> bytes \<Rightarrow> bool" where
  "pixels_ok d px \<longleftrightarrow> 1 \<le> fst d \<and> fst d \<le> 1024 \<and> 1 \<le> snd d \<and> snd d \<le> 1024
     \<and> length px = unat (fst d) * unat (snd d) * 4"

lemma pixel_bound:
  assumes "d \<le> (1024 :: u32)" "e \<le> (1024 :: u32)"
  shows "unat d * unat e * 4 \<le> 4194304"
proof -
  have "unat d * unat e \<le> 1024 * 1024"
    using assms by (intro mult_le_mono) (simp_all add: word_le_nat_alt)
  then show ?thesis by simp
qed

lemma pixels_ok_length: "pixels_ok d px \<Longrightarrow> length px \<le> 4194304"
  using pixel_bound by (simp add: pixels_ok_def)

lemma length_pixel_block [simp]: "length (pixel_block d px) = 16 + length px"
  by (simp add: pixel_block_def)

lemma pixel_split:
  assumes "16 \<le> length bs"
  shows "bs = take 8 bs @ be32 (at32 bs 8) @ be32 (at32 bs 12) @ drop 16 bs"
proof -
  have "bs = take 8 bs @ take 4 (drop 8 bs) @ take 4 (drop 12 bs) @ drop 16 bs"
    using drop_split [of 8 bs 4] drop_split [of 12 bs 4] by (simp flip: append.assoc)
  then show ?thesis
    using assms by (simp only: field32)
qed

lemma compact_pixels_iff:
  "compact_pixels bs = Inr (d, px) \<longleftrightarrow> bs = pixel_block d px \<and> pixels_ok d px" (is "?l \<longleftrightarrow> ?r")
proof
  assume ?l
  then have l: "16 \<le> length bs" "take 8 bs = ascii ''IBRGBA01''" "d = (at32 bs 8, at32 bs 12)" "px = drop 16 bs"
      "1 \<le> fst d" "fst d \<le> 1024" "1 \<le> snd d" "snd d \<le> 1024"
    by (auto simp: compact_pixels_def Let_def split: if_split_asm option.split_asm)
  then have b: "unat (fst d) * unat (snd d) * 4 \<le> 4194304"
    by (intro pixel_bound)
  have "length bs = unat (fst d) * unat (snd d) * 4 + 16"
    using \<open>?l\<close> l b
    by (auto simp: compact_pixels_def Let_def checked_mul64_def checked_add64_def split: if_split_asm)
  then have "length px = unat (fst d) * unat (snd d) * 4"
    using l(4) by simp
  moreover have "bs = pixel_block d px"
    using pixel_split [OF l(1)] unfolding pixel_block_def l(2) l(3) fst_conv snd_conv l(4) .
  ultimately show ?r
    unfolding pixels_ok_def using l(5-8) by blast
next
  assume r: ?r
  then have b: "unat (fst d) * unat (snd d) * 4 \<le> 4194304"
    by (intro pixel_bound) (simp_all add: pixels_ok_def)
  have f: "at32 bs 8 = fst d" "at32 bs 12 = snd d" "take 8 bs = ascii ''IBRGBA01''" "drop 16 bs = px"
    using r at32_field [of "ascii ''IBRGBA01''" 8 "fst d" "be32 (snd d) @ px"]
      at32_field [of "ascii ''IBRGBA01'' @ be32 (fst d)" 12 "snd d" px]
    by (simp_all add: pixel_block_def)
  have len: "length bs = unat (fst d) * unat (snd d) * 4 + 16"
    using r by (simp add: pixels_ok_def)
  from r have "pixels_ok d px" ..
  then show ?l
    using b by (simp add: compact_pixels_def f len Let_def checked_mul64_def checked_add64_def pixels_ok_def)
qed

section \<open>Results\<close>

definition wire_part :: "UntrustedReplay option \<Rightarrow> bytes" where
  "wire_part rep = (case rep of None \<Rightarrow> [] | Some r \<Rightarrow> wire_bytes r)"

definition result_bytes :: "bytes \<Rightarrow> u32 \<times> u32 \<Rightarrow> bytes \<Rightarrow> UntrustedReplay option \<Rightarrow> bytes" where
  "result_bytes bind d px rep =
     frame_head (ascii ''IBRES002'') 64 (rep \<noteq> None) @ bind @ be64 (of_nat (16 + length px))
       @ be64 (of_nat (length (wire_part rep))) @ pixel_block d px @ wire_part rep
       @ replicate (4456960 - 80 - length px - length (wire_part rep)) 0"

definition result_ok :: "(nat \<Rightarrow> bool) \<Rightarrow> u32 \<times> u32 \<Rightarrow> bytes \<Rightarrow> UntrustedReplay option \<Rightarrow> bool" where
  "result_ok mem d px rep \<longleftrightarrow> pixels_ok d px
     \<and> (case rep of None \<Rightarrow> True | Some r \<Rightarrow> wire_ok r \<and> mem (length (events r)))"

lemma wire_length: "wire_ok r \<Longrightarrow> 0 < length (wire_bytes r) \<and> length (wire_bytes r) \<le> 262400"
  by (auto simp: wire_ok_def length_wire_bytes)

lemma wire_part_length: "result_ok mem d px rep \<Longrightarrow> length (wire_part rep) \<le> 262400 \<and> length px \<le> 4194304"
  using pixels_ok_length [of d px] wire_length by (auto simp: result_ok_def wire_part_def split: option.splits)

definition result_candidate :: "bytes \<Rightarrow> u32 \<times> u32 \<Rightarrow> bytes \<Rightarrow> UntrustedReplay option \<Rightarrow> PairedResultCandidate" where
  "result_candidate bind d px rep =
     \<lparr>binding = bind, dimensions = d, rgba = px, replay_wire = map_option wire_bytes rep, replay = rep\<rparr>"

lemma result_split:
  assumes "64 \<le> length bs"
  shows "drop 16 bs = slice_of 16 48 bs @ be64 (at64 bs 48) @ be64 (at64 bs 56) @ drop 64 bs"
proof -
  have "drop 16 bs = take 32 (drop 16 bs) @ take 8 (drop 48 bs) @ take 8 (drop 56 bs) @ drop 64 bs"
    using drop_split [of 16 bs 32] drop_split [of 48 bs 8] drop_split [of 56 bs 8]
    by (simp flip: append.assoc)
  then show ?thesis
    using assms by (simp only: field64 slice_of_def) simp
qed

lemma result_fields:
  assumes "length magic = 8" and "length bind = 32"
  shows "slice_of 16 48 (frame_head magic len b @ bind @ be64 x @ be64 y @ zs) = bind"
    "at64 (frame_head magic len b @ bind @ be64 x @ be64 y @ zs) 48 = x"
    "at64 (frame_head magic len b @ bind @ be64 x @ be64 y @ zs) 56 = y"
    "drop 64 (frame_head magic len b @ bind @ be64 x @ be64 y @ zs) = zs"
  using assms at64_field [of "frame_head magic len b @ bind" 48 x "be64 y @ zs"]
    at64_field [of "frame_head magic len b @ bind @ be64 x" 56 y zs]
  by (simp_all add: slice_of_def)

lemma result_parts_iff:
  assumes "64 \<le> pixel_end" "pixel_end \<le> replay_end" "replay_end \<le> length bs"
  shows "result_parts mem bs bind has pixel_end replay_end = Inr c \<longleftrightarrow>
     (\<exists>d px rep. result_ok mem d px rep \<and> (has \<longleftrightarrow> rep \<noteq> None)
        \<and> slice_of 64 pixel_end bs = pixel_block d px
        \<and> (has \<longrightarrow> slice_of pixel_end replay_end bs = wire_part rep)
        \<and> (\<forall>b\<in>set (slice_of replay_end (length bs) bs). b = 0)
        \<and> c = result_candidate bind d px rep)"
proof -
  have dec: "ReplayWire.decode mem w = Inr r \<longleftrightarrow> wire_ok r \<and> w = wire_bytes r \<and> mem (length (events r))" for w r
    by (auto simp: ReplayWire.decode_iff)
  have dec': "ReplayWire.decode mem (wire_bytes r) = Inr r" if "wire_ok r" "mem (length (events r))" for r
    using that by (simp add: dec)
  show ?thesis
  proof (cases has)
    case True
    then show ?thesis
      using assms
      by (auto simp: result_parts_def cut_def bindE_eq_Inr compact_pixels_iff dec result_ok_def result_candidate_def
          wire_part_def split: sum.split_asm option.splits)
        (auto simp: dec' intro!: exI)
  next
    case False
    then show ?thesis
      using assms
      by (auto simp: result_parts_def cut_def bindE_eq_Inr compact_pixels_iff result_ok_def result_candidate_def
          split: option.splits)
  qed
qed

lemma slice_part: "slice_of (length xs) (length xs + length ys) (xs @ ys @ zs) = ys"
  by (simp add: slice_of_def)

lemma length_result:
  assumes "result_ok mem d px rep" and "length bind = 32"
  shows "length (result_bytes bind d px rep) = 4456960"
  using wire_part_length [OF assms(1)] assms(2) by (simp add: result_bytes_def)

lemma decode_result_complete:
  assumes ok: "result_ok mem d px rep" and b: "length bind = 32"
  shows "decode_result mem PairedV2 (result_bytes bind d px rep) bind (presence (rep \<noteq> None))
     = Inr (result_candidate bind d px rep)"
proof -
  define bs where "bs = result_bytes bind d px rep"
  define has where "has \<longleftrightarrow> rep \<noteq> None"
  define wp where "wp = wire_part rep"
  define n where "n = 16 + length px"
  have len: "length px \<le> 4194304" "length wp \<le> 262400"
    using wire_part_length [OF ok] by (simp_all add: wp_def)
  have form: "bs = frame_head (ascii ''IBRES002'') 64 has @ bind @ be64 (of_nat n)
       @ be64 (of_nat (length wp)) @ pixel_block d px @ wp @ replicate (4456880 - length px - length wp) 0"
    by (simp add: bs_def result_bytes_def has_def wp_def n_def)
  have lbs: "length bs = 4456960"
    using length_result [OF ok b] by (simp add: bs_def)
  have "require_header bs (ascii ''IBRES002'') (unat (64 :: u16)) = Inr () \<and> replay_flag bs = Inr has"
    by (subst head_iff) (simp_all add: form)
  then have head: "require_header bs (ascii ''IBRES002'') 64 = Inr ()" "replay_flag bs = Inr has"
    by simp_all
  have fields: "slice_of 16 48 bs = bind" "at64 bs 48 = of_nat n" "at64 bs 56 = of_nat (length wp)"
      "drop 64 bs = pixel_block d px @ wp @ replicate (4456880 - length px - length wp) 0"
    using b result_fields [of "ascii ''IBRES002''" bind 64 has] by (simp_all add: form)
  have n_small: "n < 2 ^ 64"
    using len by (simp add: n_def)
  have words: "unat (of_nat n :: u64) = n" "unat (of_nat (length wp) :: u64) = length wp"
    using len n_small by (simp_all add: unsigned_of_nat take_bit_eq_mod)
  have nonempty: "has \<longleftrightarrow> length wp \<noteq> 0"
    using ok wire_length by (cases rep) (auto simp: has_def wp_def wire_part_def result_ok_def)
  have ends: "checked_add64 64 n = Some (64 + n)" "checked_add64 (64 + n) (length wp) = Some (64 + n + length wp)"
      "64 + n + length wp \<le> 4456960"
    using len by (simp_all add: checked_add64_def n_def)
  define pad where "pad = replicate (4456880 - length px - length wp) (0::u8)"
  obtain hd where hd: "bs = hd @ pixel_block d px @ wp @ pad" "length hd = 64"
    using fields(4) lbs append_take_drop_id [of 64 bs] by (simp add: pad_def that [of "take 64 bs"])
  have slices: "slice_of 64 (64 + n) bs = pixel_block d px" "slice_of (64 + n) (64 + n + length wp) bs = wp"
      "slice_of (64 + n + length wp) (length bs) bs = pad"
    unfolding hd(1) using hd(2) by (simp_all add: slice_of_def n_def)
  have zeros: "\<forall>b\<in>set (slice_of (64 + n + length wp) (length bs) bs). b = 0"
    by (simp add: slices(3) pad_def)
  have "64 \<le> 64 + n" "64 + n \<le> 64 + n + length wp" "64 + n + length wp \<le> length bs"
    using ends(3) lbs by simp_all
  from result_parts_iff [OF this, of mem bind has "result_candidate bind d px rep"]
  have "result_parts mem bs bind has (64 + n) (64 + n + length wp) = Inr (result_candidate bind d px rep)"
    using ok slices(1,2) zeros unfolding has_def wp_def by blast
  then show ?thesis
    using len lbs nonempty
    unfolding bs_def [symmetric] has_def [symmetric]
    by (simp add: decode_result_def require_kind_def head fields words ends Let_def)
qed

lemma decode_result_sound:
  assumes b: "length bind = 32" and d: "decode_result mem selection bs bind expected = Inr c"
  shows "selection = PairedV2 \<and> (\<exists>d px rep. result_ok mem d px rep \<and> expected = presence (rep \<noteq> None)
     \<and> bs = result_bytes bind d px rep \<and> c = result_candidate bind d px rep)"
proof -
  have sel: "selection = PairedV2" and l: "length bs = 4456960"
    using d by (auto simp: decode_result_def require_kind_def split: if_split_asm)
  obtain has where head: "require_header bs (ascii ''IBRES002'') 64 = Inr ()" "replay_flag bs = Inr has"
    using d sel l by (auto simp: decode_result_def require_kind_def result_simps)
  then have h: "bs = frame_head (ascii ''IBRES002'') 64 has @ drop 16 bs"
    using head_iff [of bs "ascii ''IBRES002''" 64 has] l by simp
  define n where "n = unat (at64 bs 48)"
  define m where "m = unat (at64 bs 56)"
  have d': "presence has = expected" "slice_of 16 48 bs = bind" "has \<longleftrightarrow> m \<noteq> 0" "m \<le> 262400"
      "checked_add64 64 n = Some (64 + n)" "checked_add64 (64 + n) m = Some (64 + n + m)" "64 + n + m \<le> 4456960"
      "result_parts mem bs bind has (64 + n) (64 + n + m) = Inr c"
    using d sel l
    by (auto simp: decode_result_def require_kind_def head Let_def n_def m_def checked_add64_def
        split: if_split_asm)
  have "64 \<le> 64 + n" "64 + n \<le> 64 + n + m" "64 + n + m \<le> length bs"
    using d'(7) l by simp_all
  from result_parts_iff [OF this, of mem bind has c] d'(8)
  obtain d px rep where r: "result_ok mem d px rep" "has \<longleftrightarrow> rep \<noteq> None"
      "slice_of 64 (64 + n) bs = pixel_block d px" "has \<longrightarrow> slice_of (64 + n) (64 + n + m) bs = wire_part rep"
      "\<forall>b\<in>set (slice_of (64 + n + m) (length bs) bs). b = 0" "c = result_candidate bind d px rep"
    by blast
  have w: "slice_of (64 + n) (64 + n + m) bs = wire_part rep"
    using r(2,4) d'(3) by (cases has) (auto simp: wire_part_def slice_of_def)
  have z: "slice_of (64 + n + m) (length bs) bs = replicate (length bs - (64 + n + m)) 0"
    using r(5) unfolding all_zero by (simp add: slice_of_def)
  have slens: "length (slice_of 64 (64 + n) bs) = n" "length (slice_of (64 + n) (64 + n + m) bs) = m"
    using d'(7) l by (simp_all add: slice_of_def)
  have lens: "n = 16 + length px" "m = length (wire_part rep)"
    using slens unfolding r(3) w by simp_all
  have small: "length px \<le> 4194304" "length (wire_part rep) \<le> 262400"
    using wire_part_length [OF r(1)] by simp_all
  have words: "at64 bs 48 = of_nat (16 + length px)" "at64 bs 56 = of_nat (length (wire_part rep))"
    using lens by (metis n_def of_nat_unat ucast_id, metis m_def of_nat_unat ucast_id)
  have "drop 64 bs = take n (drop 64 bs) @ take m (drop (64 + n) bs) @ drop (64 + n + m) bs"
    using drop_split [of 64 bs n] drop_split [of "64 + n" bs m] by simp
  then have parts: "drop 64 bs = pixel_block d px @ wire_part rep @ replicate (4456960 - 80 - length px - length (wire_part rep)) 0"
    using r(3) w z l lens by (simp add: slice_of_def)
  have "64 \<le> length bs" using l by simp
  from result_split [OF this] have "drop 16 bs = bind @ be64 (of_nat (16 + length px)) @ be64 (of_nat (length (wire_part rep)))
      @ pixel_block d px @ wire_part rep @ replicate (4456960 - 80 - length px - length (wire_part rep)) 0"
    unfolding words d'(2) parts .
  then have "result_bytes bind d px rep = frame_head (ascii ''IBRES002'') 64 has @ drop 16 bs"
    unfolding result_bytes_def r(2) by simp
  then have "bs = result_bytes bind d px rep"
    by (rule trans [OF h sym])
  with sel r d'(1) show ?thesis by blast
qed

lemma decode_result_iff:
  assumes "length bind = 32"
  shows "decode_result mem selection bs bind expected = Inr c \<longleftrightarrow>
     selection = PairedV2 \<and> (\<exists>d px rep. result_ok mem d px rep \<and> expected = presence (rep \<noteq> None)
       \<and> bs = result_bytes bind d px rep \<and> c = result_candidate bind d px rep)"
  using decode_result_sound [OF assms] decode_result_complete [OF _ assms] by blast

section \<open>No slice out of range\<close>

definition fine :: "'e stop + 'a \<Rightarrow> bool" where
  "fine m \<longleftrightarrow> m \<noteq> Inl Panicked"

lemma fine_simps [simp]: "fine (Inr x)" "fine (Inl (Refused e))"
  by (simp_all add: fine_def)

lemma fine_bindE: "fine m \<Longrightarrow> (\<And>x. m = Inr x \<Longrightarrow> fine (f x)) \<Longrightarrow> fine (bindE m f)"
  by (cases m) (auto simp: fine_def)

lemma helpers_fine:
  "fine (require_kind selection)" "fine (input_length a b has)" "fine (compact_pixels xs)"
  "12 \<le> length bs \<Longrightarrow> fine (require_header bs magic k)"
  "16 \<le> length bs \<Longrightarrow> fine (replay_flag bs)"
  "i \<le> j \<Longrightarrow> j \<le> length ys \<Longrightarrow> fine (cut i j ys)"
  "i \<le> j \<Longrightarrow> j \<le> length ys \<Longrightarrow> fine (map_sum id Some (cut i j ys))"
  by (auto simp: fine_def require_kind_def input_length_def compact_pixels_def require_header_def
      replay_flag_def cut_def Let_def split: option.splits)

lemma input_parts_fine:
  "48 \<le> i \<Longrightarrow> i \<le> j \<Longrightarrow> j \<le> length bs \<Longrightarrow> fine (input_parts sha256 bs job has i j)"
  unfolding input_parts_def by (auto intro!: fine_bindE helpers_fine)

lemma decode_input_never_panics: "fine (decode_input sha256 selection bs job)"
proof -
  have "fine (case checked_add64 INPUT_HEADER_BYTES (unat a) of
        None \<Rightarrow> Inl (Refused Length)
      | Some i \<Rightarrow> (case checked_add64 i (unat b) of
          None \<Rightarrow> Inl (Refused Length) | Some j \<Rightarrow> input_parts sha256 bs job has i j))"
    if "input_length a b has = Inr (length bs)" for a b has
    using that by (auto simp: input_length_iff checked_add64_def intro!: input_parts_fine)
  then show ?thesis
    unfolding decode_input_def Let_def by (auto intro!: fine_bindE helpers_fine)
qed

lemma result_parts_fine:
  "64 \<le> i \<Longrightarrow> i \<le> j \<Longrightarrow> j \<le> length bs \<Longrightarrow> fine (result_parts mem bs bind has i j)"
  unfolding result_parts_def by (auto intro!: fine_bindE helpers_fine split: option.splits sum.splits)

lemma decode_result_never_panics: "fine (decode_result mem selection bs bind expected)"
proof -
  have "fine (case checked_add64 RESULT_HEADER_BYTES n of
        None \<Rightarrow> Inl (Refused Length)
      | Some i \<Rightarrow> (case Option.bind (checked_add64 i m) (\<lambda>e. if e \<le> RESULT_BYTES then Some e else None) of
          None \<Rightarrow> Inl (Refused Length) | Some j \<Rightarrow> result_parts mem bs bind has i j))"
    if "length bs = RESULT_BYTES" for n m has
    using that by (auto simp: checked_add64_def intro!: result_parts_fine)
  then show ?thesis
    unfolding decode_result_def Let_def by (auto intro!: fine_bindE helpers_fine)
qed

end
