(* ===== verification/GuestPaired.thy ===== *)
theory GuestPaired
  imports ReplayTransport PairedResults
begin

unbundle bit_operations_syntax

text \<open>
  \<open>apps/media-guest/src/paired.rs\<close> and \<open>decode_png\<close> of \<open>lib.rs\<close>: the guest's side of a paired job.
  The PNG library is a parameter, described by the values the code asks it for; the replay parser
  and encoder are the ones of \<open>GuestReplay\<close>. Every error the file makes with
  \<open>io::Error::other("...")\<close> is \<open>Rejected\<close>.
\<close>

section \<open>Images\<close>

datatype GuestError =
    Rejected | ReadFailed io_error | ImageRejected | ReplayRejected ReplayError
  | ReplayOutputRejected ReplayOutputError

datatype ColorType = Grayscale | GrayscaleAlpha | Rgb | Rgba | Indexed

fun samples :: "ColorType \<Rightarrow> nat" where
  "samples Grayscale = 1"
| "samples GrayscaleAlpha = 2"
| "samples Rgb = 3"
| "samples Rgba = 4"
| "samples Indexed = 1"

text \<open>
  What \<open>decode_png\<close> sees of the library: the header's size and whether it is animated, the buffer
  size, the frame (or an error) with its size, its color type and its bytes, and whether the rest
  of the stream is accepted.
\<close>

record png_frame =
  frame_width :: u32
  frame_height :: u32
  color_type :: ColorType
  frame_data :: bytes

record png_image =
  info_width :: u32
  info_height :: u32
  animated :: bool
  output_size :: "nat option"
  next_frame :: "png_frame option"
  finishes :: bool

definition rgba_pixel :: "ColorType \<Rightarrow> bytes \<Rightarrow> GuestError + bytes" where
  "rgba_pixel c p =
     (case c of
        Grayscale \<Rightarrow> Inr [p ! 0, p ! 0, p ! 0, 255]
      | GrayscaleAlpha \<Rightarrow> Inr [p ! 0, p ! 0, p ! 0, p ! 1]
      | Rgb \<Rightarrow> Inr [p ! 0, p ! 1, p ! 2, 255]
      | Rgba \<Rightarrow> Inr [p ! 0, p ! 1, p ! 2, p ! 3]
      | Indexed \<Rightarrow> Inl Rejected)"

definition decode_png :: "(bytes \<Rightarrow> png_image option) \<Rightarrow> bytes \<Rightarrow> GuestError + bytes" where
  "decode_png png input =
     (if input = [] \<or> length input > 8 * 1024 * 1024 then Inl Rejected
      else case png input of
        None \<Rightarrow> Inl ImageRejected
      | Some info \<Rightarrow>
          if \<not> (1 \<le> info_width info \<and> info_width info \<le> 1024)
             \<or> \<not> (1 \<le> info_height info \<and> info_height info \<le> 1024) \<or> animated info
          then Inl Rejected
          else (case output_size info of
              None \<Rightarrow> Inl Rejected
            | Some n \<Rightarrow>
                if n > 4 * 1024 * 1024 then Inl Rejected
                else (case next_frame info of
                    None \<Rightarrow> Inl ImageRejected
                  | Some frame \<Rightarrow>
                      bindE (mapE (rgba_pixel (color_type frame))
                        (chunks_exact (samples (color_type frame)) (frame_data frame))) (\<lambda>pixels.
                      if \<not> finishes info then Inl ImageRejected
                      else Inr (ascii ''IBRGBA01'' @ be32 (frame_width frame) @ be32 (frame_height frame)
                             @ concat pixels)))))"

text \<open>
  What the library documents: a frame has the size the header announced and as many bytes as its
  pixels have samples.
\<close>

definition png_documented :: "png_image \<Rightarrow> bool" where
  "png_documented info \<longleftrightarrow> (case next_frame info of None \<Rightarrow> True | Some f \<Rightarrow>
     frame_width f = info_width info \<and> frame_height f = info_height info
     \<and> length (frame_data f) = unat (frame_width f) * unat (frame_height f) * samples (color_type f))"

lemma rgba_pixel_length: "rgba_pixel c p = Inr q \<Longrightarrow> length q = 4"
  by (cases c) (auto simp: rgba_pixel_def)

lemma rgba_run: "mapE (rgba_pixel c) ps = Inr qs \<Longrightarrow> length (concat qs) = 4 * length ps"
  by (induction ps arbitrary: qs) (auto simp: result_simps dest: rgba_pixel_length)

lemma decode_png_block:
  assumes "decode_png png input = Inr out" and "\<And>info. png input = Some info \<Longrightarrow> png_documented info"
  shows "\<exists>d px. out = pixel_block d px \<and> pixels_ok d px"
proof -
  obtain info frame ps where i: "png input = Some info" "next_frame info = Some frame"
      "1 \<le> info_width info" "info_width info \<le> 1024" "1 \<le> info_height info" "info_height info \<le> 1024"
    and p: "mapE (rgba_pixel (color_type frame)) (chunks_exact (samples (color_type frame)) (frame_data frame)) = Inr ps"
    and out: "out = ascii ''IBRGBA01'' @ be32 (frame_width frame) @ be32 (frame_height frame) @ concat ps"
    using assms(1)
    by (auto simp: decode_png_def result_simps split: if_split_asm option.split_asm)
  have f: "frame_width frame = info_width info" "frame_height frame = info_height info"
      "length (frame_data frame) = unat (frame_width frame) * unat (frame_height frame) * samples (color_type frame)"
    using assms(2) [OF i(1)] i(2) by (simp_all add: png_documented_def)
  have "0 < samples (color_type frame)"
    by (cases "color_type frame") simp_all
  then have "length (concat ps) = unat (frame_width frame) * unat (frame_height frame) * 4"
    using rgba_run [OF p] f(3) by (simp add: length_chunks_exact)
  then have "out = pixel_block (frame_width frame, frame_height frame) (concat ps)"
      "pixels_ok (frame_width frame, frame_height frame) (concat ps)"
    using i f(1,2) out by (simp_all add: pixel_block_def pixels_ok_def)
  then show ?thesis by blast
qed

section \<open>Frames in the guest\<close>

definition GUEST_RESULT_BYTES :: nat where [simp]: "GUEST_RESULT_BYTES = 4456960"
definition MAX_FRAME_BYTES :: u64 where [simp]: "MAX_FRAME_BYTES = 16777272"
definition COMPONENT_LIMIT :: u64 where [simp]: "COMPONENT_LIMIT = 8 * 1024 * 1024"

text \<open>The libraries and the allocator of the guest.\<close>

record guest =
  png_library :: "bytes \<Rightarrow> png_image option"
  inflate_library :: inflater
  event_bytes_each :: nat
  grants :: "nat \<Rightarrow> bool"

definition guest_wire :: "guest \<Rightarrow> bytes \<Rightarrow> GuestError + bytes" where
  "guest_wire g upload =
     bindE (map_err ReplayRejected
       (parse_candidate (grants g) (event_bytes_each g) (inflate_library g) upload)) (\<lambda>c.
     map_err ReplayOutputRejected (encode_untrusted_candidate (grants g) c))"

definition decode_frame :: "guest \<Rightarrow> bytes \<Rightarrow> bytes \<Rightarrow> GuestError + bytes" where
  "decode_frame g frame bind =
     (if length frame < 57 \<or> take 8 frame \<noteq> ascii ''IBPAIR02''
         \<or> slice_of 8 10 frame \<noteq> be16 2 \<or> slice_of 10 12 frame \<noteq> be16 48
      then Inl Rejected
      else let flags = at32 frame 12; image_length = at64 frame 16; replay_length = at64 frame 24 in
        if flags > 1 \<or> \<not> (1 \<le> image_length \<and> image_length \<le> COMPONENT_LIMIT)
           \<or> replay_length > COMPONENT_LIMIT \<or> (flags = 1) \<noteq> (replay_length \<noteq> 0)
           \<or> Option.bind (checked_add64 (unat image_length) (unat replay_length))
               (\<lambda>n. checked_add64 n 56) \<noteq> Some (length frame)
        then Inl Rejected
        else let image_end = 48 + unat image_length; replay_end = image_end + unat replay_length in
          if drop replay_end frame \<noteq> ascii ''IBDONE02'' then Inl Rejected
          else bindE (decode_png (png_library g) (slice_of 48 image_end frame)) (\<lambda>pixels.
               bindE (if flags = 1 then guest_wire g (slice_of image_end replay_end frame) else Inr []) (\<lambda>wire.
               case Option.bind (Option.bind (checked_add64 64 (length pixels))
                       (\<lambda>n. checked_add64 n (length wire)))
                       (\<lambda>n. if n \<le> GUEST_RESULT_BYTES then Some n else None) of
                 None \<Rightarrow> Inl Rejected
               | Some used \<Rightarrow>
                   if \<not> grants g GUEST_RESULT_BYTES then Inl Rejected
                   else Inr (resize GUEST_RESULT_BYTES
                     (ascii ''IBRES002'' @ be16 2 @ be16 64 @ be32 flags @ bind
                      @ be64 (of_nat (length pixels)) @ be64 (of_nat (length wire)) @ pixels @ wire)))))"

definition decode_disk :: "guest \<Rightarrow> reader \<Rightarrow> GuestError + bytes" where
  "decode_disk g input =
     bindE (map_err ReadFailed (read_exact 48 input)) (\<lambda>(header, input).
     if take 8 header \<noteq> ascii ''IBJOB002'' then Inl Rejected
     else let len = at64 header 8 in
       if \<not> (57 \<le> len \<and> len \<le> MAX_FRAME_BYTES) then Inl Rejected
       else if \<not> grants g (unat len) then Inl Rejected
       else bindE (map_err ReadFailed (read_exact (unat len) input)) (\<lambda>(frame, input).
            bindE (map_err ReadFailed
              (read_exact ((512 - (48 + unat len) mod 512) mod 512) input)) (\<lambda>(padding, input).
            if \<exists>b\<in>set padding. b \<noteq> 0 then Inl Rejected
            else bindE (map_err ReadFailed (read_one input)) (\<lambda>extra.
                 if extra then Inl Rejected
                 else decode_frame g frame (slice_of 16 48 header)))))"

section \<open>Input kinds\<close>

datatype GuestInputKind = ImageV1 | PairedV2 | GifV3 | PdfV4 | VideoV5 | StillV6 | GifV7

definition parse_kind :: "string \<Rightarrow> GuestError + GuestInputKind" where
  "parse_kind value =
     (if value = ''image-v1'' then Inr ImageV1
      else if value = ''paired-v2'' then Inr PairedV2
      else if value = ''gif-v3'' then Inr GifV3
      else if value = ''pdf-v4'' then Inr PdfV4
      else if value = ''video-v5'' then Inr VideoV5
      else if value = ''still-v6'' then Inr StillV6
      else if value = ''gif-v7'' then Inr GifV7
      else Inl Rejected)"

fun kind_argument :: "GuestInputKind \<Rightarrow> string" where
  "kind_argument ImageV1 = ''image-v1''"
| "kind_argument PairedV2 = ''paired-v2''"
| "kind_argument GifV3 = ''gif-v3''"
| "kind_argument PdfV4 = ''pdf-v4''"
| "kind_argument VideoV5 = ''video-v5''"
| "kind_argument StillV6 = ''still-v6''"
| "kind_argument GifV7 = ''gif-v7''"

fun output_bytes :: "GuestInputKind \<Rightarrow> nat" where
  "output_bytes ImageV1 = 4194816"
| "output_bytes PairedV2 = GUEST_RESULT_BYTES"
| "output_bytes GifV3 = 17825792"
| "output_bytes PdfV4 = 4194816"
| "output_bytes VideoV5 = 9 * 1024 * 1024"
| "output_bytes StillV6 = 16 * 1024 * 1024"
| "output_bytes GifV7 = 16 * 1024 * 1024"

text \<open>\<open>split_ascii_whitespace\<close>: the maximal runs of other characters.\<close>

definition ascii_space :: "char \<Rightarrow> bool" where
  "ascii_space c \<longleftrightarrow> c \<in> set [CHR 0x20, CHR 0x09, CHR 0x0A, CHR 0x0C, CHR 0x0D]"

fun split_spaces :: "string \<Rightarrow> string \<Rightarrow> string list" where
  "split_spaces acc [] = (if acc = [] then [] else [acc])"
| "split_spaces acc (c # cs) =
     (if ascii_space c then (if acc = [] then split_spaces [] cs else acc # split_spaces [] cs)
      else split_spaces (acc @ [c]) cs)"

definition strip_prefix :: "string \<Rightarrow> string \<Rightarrow> string option" where
  "strip_prefix p s = (if take (length p) s = p then Some (drop (length p) s) else None)"

fun kind_arguments :: "GuestInputKind option \<Rightarrow> string list \<Rightarrow> GuestError + GuestInputKind option" where
  "kind_arguments selected [] = Inr selected"
| "kind_arguments selected (argument # rest) =
     (if argument = ''board_media_input_kind'' then Inl Rejected
      else case strip_prefix ''board_media_input_kind='' argument of
        Some value \<Rightarrow>
          if selected \<noteq> None then Inl Rejected
          else bindE (parse_kind value) (\<lambda>k. kind_arguments (Some k) rest)
      | None \<Rightarrow> kind_arguments selected rest)"

definition kernel_input_kind :: "string \<Rightarrow> GuestError + GuestInputKind" where
  "kernel_input_kind command_line =
     bindE (kind_arguments None (split_spaces [] command_line)) (\<lambda>selected.
     Inr (case selected of None \<Rightarrow> ImageV1 | Some k \<Rightarrow> k))"

lemma parse_kind_iff: "parse_kind v = Inr k \<longleftrightarrow> v = kind_argument k"
  by (cases k) (auto simp: parse_kind_def)

text \<open>The values that the arguments of a command line give to the option.\<close>

definition option_values :: "string list \<Rightarrow> string list" where
  "option_values args = List.map_filter (strip_prefix ''board_media_input_kind='') args"

lemma kind_arguments_iff:
  "kind_arguments selected args = Inr out \<longleftrightarrow>
     ''board_media_input_kind'' \<notin> set args
     \<and> (case option_values args of
          [] \<Rightarrow> out = selected
        | [v] \<Rightarrow> selected = None \<and> (\<exists>k. out = Some k \<and> v = kind_argument k)
        | _ \<Rightarrow> False)"
proof (induction args arbitrary: selected)
  case Nil
  then show ?case by (auto simp: option_values_def map_filter_simps)
next
  case (Cons a args)
  have bare: "strip_prefix ''board_media_input_kind='' ''board_media_input_kind'' = None"
    by (simp add: strip_prefix_def)
  show ?case
    using Cons.IH
    by (auto simp: option_values_def map_filter_simps bindE_eq_Inr parse_kind_iff bare
        split: option.splits list.splits)
qed

section \<open>The guest and the host agree on frames\<close>

lemma be16_inj: "be16 a = be16 b \<longleftrightarrow> a = b"
  by (metis be16_nth)

lemma pair_slices:
  assumes job: "length job = 16" and ok: "pair_ok img rep" and bs: "bs = pair_bytes job img rep"
  shows "at32 bs 12 = flag_word (rep \<noteq> None)" "unat (at64 bs 16) = length img"
    "unat (at64 bs 24) = length (replay_part rep)" "take 8 bs = ascii ''IBPAIR02''"
    "at16 bs 8 = 2" "at16 bs 10 = 48" "slice_of 32 48 bs = job"
    "slice_of 48 (48 + length img) bs = img"
    "slice_of (48 + length img) (48 + length img + length (replay_part rep)) bs = replay_part rep"
    "drop (48 + length img + length (replay_part rep)) bs = ascii ''IBDONE02''"
    "length bs = 56 + length img + length (replay_part rep)"
proof -
  have len: "length img \<le> 8388608" "length (replay_part rep) \<le> 8388608"
    using pair_ok_length [OF ok] by simp_all
  let ?tail = "be64 (of_nat (length img)) @ be64 (of_nat (length (replay_part rep))) @ job @ img
     @ replay_part rep @ ascii ''IBDONE02''"
  have form: "bs = frame_head (ascii ''IBPAIR02'') 48 (rep \<noteq> None) @ ?tail"
    by (simp add: bs pair_bytes_def)
  show "at32 bs 12 = flag_word (rep \<noteq> None)" "take 8 bs = ascii ''IBPAIR02''" "at16 bs 8 = 2" "at16 bs 10 = 48"
    unfolding form by (rule head_fields; simp)+
  show "unat (at64 bs 16) = length img" "unat (at64 bs 24) = length (replay_part rep)" "slice_of 32 48 bs = job"
    unfolding form using job len pair_fields [of "ascii ''IBPAIR02''" job 48 "rep \<noteq> None"]
    by (simp_all add: unat_of_length)
  show "length bs = 56 + length img + length (replay_part rep)"
    using job by (simp add: bs length_pair_bytes)
  define hd where "hd = frame_head (ascii ''IBPAIR02'') 48 (rep \<noteq> None) @ be64 (of_nat (length img))
     @ be64 (of_nat (length (replay_part rep))) @ job"
  have hd: "bs = hd @ img @ replay_part rep @ ascii ''IBDONE02''" "length hd = 48"
    using job by (simp_all add: form hd_def)
  show "slice_of 48 (48 + length img) bs = img"
    "slice_of (48 + length img) (48 + length img + length (replay_part rep)) bs = replay_part rep"
    "drop (48 + length img + length (replay_part rep)) bs = ascii ''IBDONE02''"
    unfolding hd(1) using hd(2) by (simp_all add: slice_of_def)
qed

text \<open>The guest's framing test, and the host's decoder of the same bytes.\<close>

definition guest_framing :: "bytes \<Rightarrow> bool" where
  "guest_framing frame \<longleftrightarrow>
     57 \<le> length frame \<and> take 8 frame = ascii ''IBPAIR02'' \<and> at16 frame 8 = 2 \<and> at16 frame 10 = 48
     \<and> at32 frame 12 \<le> 1 \<and> 1 \<le> unat (at64 frame 16) \<and> unat (at64 frame 16) \<le> 8388608
     \<and> unat (at64 frame 24) \<le> 8388608 \<and> (at32 frame 12 = 1 \<longleftrightarrow> at64 frame 24 \<noteq> 0)
     \<and> length frame = unat (at64 frame 16) + unat (at64 frame 24) + 56
     \<and> drop (48 + unat (at64 frame 16) + unat (at64 frame 24)) frame = ascii ''IBDONE02''"

lemma framing_iff:
  "guest_framing frame \<longleftrightarrow>
     (\<exists>job img rep. length job = 16 \<and> pair_ok img rep \<and> frame = pair_bytes job img rep)" (is "_ \<longleftrightarrow> ?r")
proof
  assume g: "guest_framing frame"
  define job where "job = slice_of 32 48 frame"
  have job: "length job = 16"
    using g by (simp add: guest_framing_def job_def slice_of_def)
  define has where "has \<longleftrightarrow> at32 frame 12 = 1"
  have "at32 frame 12 = 0 \<or> at32 frame 12 = 1"
    using g by (auto simp: guest_framing_def word_le_nat_alt word_unat_eq_iff)
  then have flag: "at32 frame 12 = flag_word has"
    by (auto simp: has_def flag_word_def)
  have n: "input_length (at64 frame 16) (at64 frame 24) has = Inr (length frame)"
    using g by (auto simp: guest_framing_def input_length_iff has_def)
  have "require_header frame (ascii ''IBPAIR02'') 48 = Inr ()" "replay_flag frame = Inr has"
    using g flag by (simp_all add: guest_framing_def require_header_iff replay_flag_iff)
  moreover have "\<exists>c. input_parts (\<lambda>_. []) frame job has (48 + unat (at64 frame 16))
      (48 + unat (at64 frame 16) + unat (at64 frame 24)) = Inr c"
    using g by (auto simp: input_parts_def cut_def guest_framing_def slice_of_def)
  ultimately have "\<exists>c. decode_input (\<lambda>_. []) PairedFrames.PairedV2 frame job = Inr c"
    using g n by (auto simp: decode_input_def require_kind_def guest_framing_def job_def checked_add64_def Let_def)
  with decode_input_sound [OF job] show ?r
    using job by blast
next
  assume ?r
  then obtain job img rep where p: "length job = 16" "pair_ok img rep" "frame = pair_bytes job img rep"
    by blast
  note f = pair_slices [OF p]
  have "at64 frame 24 \<noteq> 0 \<longleftrightarrow> rep \<noteq> None"
    using f(3) p(2) by (cases rep) (auto simp: pair_ok_def replay_part_def unat_eq_zero)
  then show "guest_framing frame"
    using p(2) pair_ok_length [OF p(2)] f
    by (auto simp: guest_framing_def flag_word_def pair_ok_def)
qed

lemma decode_frame_iff:
  assumes b: "length bind = 32"
  shows "decode_frame g frame bind = Inr out \<longleftrightarrow>
     (\<exists>job img rep pixels wire. length job = 16 \<and> pair_ok img rep \<and> frame = pair_bytes job img rep
        \<and> decode_png (png_library g) img = Inr pixels
        \<and> (case rep of None \<Rightarrow> wire = [] | Some u \<Rightarrow> guest_wire g u = Inr wire)
        \<and> 64 + length pixels + length wire \<le> 4456960 \<and> grants g 4456960
        \<and> out = frame_head (ascii ''IBRES002'') 64 (rep \<noteq> None) @ bind @ be64 (of_nat (length pixels))
             @ be64 (of_nat (length wire)) @ pixels @ wire
             @ replicate (4456960 - 64 - length pixels - length wire) 0)" (is "?l \<longleftrightarrow> ?r")
proof -
  have framing: "\<not> (length frame < 57 \<or> take 8 frame \<noteq> ascii ''IBPAIR02''
         \<or> slice_of 8 10 frame \<noteq> be16 2 \<or> slice_of 10 12 frame \<noteq> be16 48)
      \<and> \<not> (at32 frame 12 > 1 \<or> \<not> (1 \<le> at64 frame 16 \<and> at64 frame 16 \<le> COMPONENT_LIMIT)
           \<or> at64 frame 24 > COMPONENT_LIMIT \<or> (at32 frame 12 = 1) \<noteq> (at64 frame 24 \<noteq> 0)
           \<or> Option.bind (checked_add64 (unat (at64 frame 16)) (unat (at64 frame 24)))
               (\<lambda>n. checked_add64 n 56) \<noteq> Some (length frame))
      \<and> drop (48 + unat (at64 frame 16) + unat (at64 frame 24)) frame = ascii ''IBDONE02''
      \<longleftrightarrow> guest_framing frame" (is "\<not> ?c1 \<and> \<not> ?c2 \<and> ?c3 \<longleftrightarrow> _")
  proof (cases "57 \<le> length frame")
    case True
    then have "slice_of 8 10 frame = be16 (at16 frame 8)" "slice_of 10 12 frame = be16 (at16 frame 10)"
      by (simp_all add: slice_of_def field16)
    then show ?thesis
      using True
      by (auto simp: guest_framing_def be16_inj word_le_nat_alt word_less_nat_alt checked_add64_def not_less Suc_le_eq)
  qed (simp add: guest_framing_def)
  show ?thesis
  proof (cases "guest_framing frame")
    case False
    then have "?c1 \<or> ?c2 \<or> \<not> ?c3"
      using framing by blast
    then have "\<not> ?l"
      unfolding decode_frame_def Let_def by (elim disjE) simp_all
    moreover have "\<not> ?r"
      using False framing_iff by blast
    ultimately show ?thesis by blast
  next
    case True
    then have c: "\<not> ?c1" "\<not> ?c2" ?c3
      using framing by blast+
    from True obtain job img rep where p: "length job = 16" "pair_ok img rep" "frame = pair_bytes job img rep"
      unfolding framing_iff by blast
    note f = pair_slices [OF p]
    have unique: "img' = img \<and> rep' = rep" if "length job' = 16" "pair_ok img' rep'" "frame = pair_bytes job' img' rep'" for job' img' rep'
    proof -
      note f' = pair_slices [OF that]
      have len: "length img' = length img" "length (replay_part rep') = length (replay_part rep)"
        using f(2,3) f'(2,3) by simp_all
      have "img' = img" "replay_part rep' = replay_part rep"
        using f'(8,9) unfolding len f(8,9) by (simp_all only:)
      then show ?thesis
        using p(2) that(2) by (auto simp: pair_ok_def replay_part_def split: option.splits)
    qed
    have flag: "at32 frame 12 = 1 \<longleftrightarrow> rep \<noteq> None"
      using f(1) by (simp add: flag_word_def)
    let ?made = "\<lambda>img rep. \<exists>pixels wire. decode_png (png_library g) img = Inr pixels
        \<and> (case rep of None \<Rightarrow> wire = [] | Some u \<Rightarrow> guest_wire g u = Inr wire)
        \<and> 64 + length pixels + length wire \<le> 4456960 \<and> grants g 4456960
        \<and> out = frame_head (ascii ''IBRES002'') 64 (rep \<noteq> None) @ bind @ be64 (of_nat (length pixels))
             @ be64 (of_nat (length wire)) @ pixels @ wire
             @ replicate (4456960 - 64 - length pixels - length wire) 0"
    have "?l \<longleftrightarrow> ?made img rep"
      unfolding decode_frame_def Let_def if_not_P [OF c(1)] if_not_P [OF c(2)]
      unfolding f(2,3) flag f(8,9,10)
      using b
      by (cases "decode_png (png_library g) img"; cases rep; cases "guest_wire g (replay_part rep)")
        (auto simp: checked_add64_def resize_def frame_head_def f(1) replay_part_def split: if_split_asm option.splits)
    also have "?made img rep \<longleftrightarrow> ?r"
      using p unique by blast
    finally show ?thesis .
  qed
qed

section \<open>From the frame to the host's result\<close>

lemma guest_wire_iff:
  "guest_wire g upload = Inr w \<longleftrightarrow>
     (\<exists>c. parse_candidate (grants g) (event_bytes_each g) (inflate_library g) upload = Inr c
        \<and> encode_untrusted_candidate (grants g) c = Inr w)"
  by (auto simp: guest_wire_def result_simps)

lemma guest_wire_host:
  assumes "guest_wire g upload = Inr w"
  shows "\<exists>c. parse_candidate (grants g) (event_bytes_each g) (inflate_library g) upload = Inr c
     \<and> wire_ok (host_replay c) \<and> w = wire_bytes (host_replay c)"
  using assms wire_ok_host by (auto simp: guest_wire_iff encode_iff)

text \<open>What a successful guest run was given and made.\<close>

definition guest_made :: "guest \<Rightarrow> bytes \<Rightarrow> bytes option \<Rightarrow> u32 \<times> u32 \<Rightarrow> bytes \<Rightarrow> ReplayCandidate option \<Rightarrow> bool" where
  "guest_made g img upload d px c \<longleftrightarrow>
     decode_png (png_library g) img = Inr (pixel_block d px) \<and> pixels_ok d px
     \<and> (case upload of None \<Rightarrow> c = None
        | Some u \<Rightarrow> \<exists>x. c = Some x \<and> parse_candidate (grants g) (event_bytes_each g) (inflate_library g) u = Inr x
            \<and> wire_ok (host_replay x))"

lemma guest_result:
  assumes b: "length bind = 32" and r: "decode_frame g frame bind = Inr out"
    and png: "\<And>bs info. png_library g bs = Some info \<Longrightarrow> png_documented info"
  shows "\<exists>job img upload d px c. length job = 16 \<and> pair_ok img upload \<and> frame = pair_bytes job img upload
     \<and> guest_made g img upload d px c \<and> (c \<noteq> None \<longleftrightarrow> upload \<noteq> None)
     \<and> out = result_bytes bind d px (map_option host_replay c)"
proof -
  obtain job img upload pixels wire where p: "length job = 16" "pair_ok img upload" "frame = pair_bytes job img upload"
    and px: "decode_png (png_library g) img = Inr pixels"
    and w: "case upload of None \<Rightarrow> wire = [] | Some u \<Rightarrow> guest_wire g u = Inr wire"
    and out: "out = frame_head (ascii ''IBRES002'') 64 (upload \<noteq> None) @ bind @ be64 (of_nat (length pixels))
             @ be64 (of_nat (length wire)) @ pixels @ wire
             @ replicate (4456960 - 64 - length pixels - length wire) 0"
    using r unfolding decode_frame_iff [OF b] by blast
  obtain d x where d: "pixels = pixel_block d x" "pixels_ok d x"
    using decode_png_block [OF px] png by blast
  obtain c where c: "guest_made g img upload d x c" "wire = wire_part (map_option host_replay c)" "c \<noteq> None \<longleftrightarrow> upload \<noteq> None"
  proof (cases upload)
    case None
    with w px d show ?thesis
      by (intro that [of None]) (simp_all add: guest_made_def wire_part_def)
  next
    case (Some u)
    with w guest_wire_host [of g u wire] obtain y
      where "parse_candidate (grants g) (event_bytes_each g) (inflate_library g) u = Inr y"
        "wire_ok (host_replay y)" "wire = wire_bytes (host_replay y)"
      by auto
    with Some px d show ?thesis
      by (intro that [of "Some y"]) (simp_all add: guest_made_def wire_part_def)
  qed
  have "out = result_bytes bind d x (map_option host_replay c)"
    using c(3) unfolding out result_bytes_def c(2) d(1) by simp
  with p c show ?thesis by blast
qed

section \<open>The guest's disk\<close>

definition disk_image :: "bytes \<Rightarrow> bytes \<Rightarrow> bytes" where
  "disk_image bind frame =
     ascii ''IBJOB002'' @ be64 (of_nat (length frame)) @ bind @ frame
       @ replicate ((512 - (48 + length frame) mod 512) mod 512) 0"

lemma job_header:
  assumes "length h = 48"
  shows "h = take 8 h @ be64 (at64 h 8) @ slice_of 16 48 h"
proof -
  have "h = take 8 h @ take 8 (drop 8 h) @ drop 16 h"
    using drop_split [of 8 h 8] by (simp flip: append.assoc)
  then show ?thesis
    using assms by (simp add: field64 slice_of_def)
qed

lemma job_fields:
  assumes "length magic = 8" and "length bind = 32"
  shows "take 8 (magic @ be64 n @ bind) = magic" "at64 (magic @ be64 n @ bind) 8 = n"
    "slice_of 16 48 (magic @ be64 n @ bind) = bind"
  using assms at64_field [of magic 8 n bind] by (simp_all add: slice_of_def)

lemma decode_disk_iff:
  "decode_disk g r = Inr out \<longleftrightarrow>
     (\<exists>bind frame. length bind = 32 \<and> 57 \<le> length frame \<and> length frame \<le> 16777272
        \<and> grants g (length frame) \<and> r = (disk_image bind frame, False)
        \<and> decode_frame g frame bind = Inr out)" (is "?l \<longleftrightarrow> ?r")
proof
  assume ?l
  then obtain h frame pad where h: "length h = 48" "take 8 h = ascii ''IBJOB002''"
      "57 \<le> at64 h 8" "at64 h 8 \<le> 16777272" "grants g (unat (at64 h 8))"
      "length frame = unat (at64 h 8)" "length pad = (512 - (48 + unat (at64 h 8)) mod 512) mod 512"
      "\<forall>b\<in>set pad. b = 0" "r = (h @ frame @ pad, False)" "decode_frame g frame (slice_of 16 48 h) = Inr out"
    by (cases r) (auto simp: decode_disk_def Let_def result_simps split: if_split_asm)
  have n: "at64 h 8 = of_nat (length frame)"
    using h(6) length_word by metis
  have "pad = replicate ((512 - (48 + length frame) mod 512) mod 512) 0"
    using h(6-8) unfolding all_zero by simp
  moreover have "h = ascii ''IBJOB002'' @ be64 (of_nat (length frame)) @ slice_of 16 48 h"
    using job_header [OF h(1)] unfolding h(2) n .
  ultimately have "h @ frame @ pad = disk_image (slice_of 16 48 h) frame"
    unfolding disk_image_def by (metis append.assoc)
  moreover have "length (slice_of 16 48 h) = 32"
    using h(1) by (simp add: slice_of_def)
  ultimately show ?r
    using h by (intro exI [of _ "slice_of 16 48 h"] exI [of _ frame]) (simp add: word_le_nat_alt)
next
  assume ?r
  then obtain bind frame where f: "length bind = 32" "57 \<le> length frame" "length frame \<le> 16777272"
      "grants g (length frame)" "r = (disk_image bind frame, False)" "decode_frame g frame bind = Inr out"
    by blast
  define h where "h = ascii ''IBJOB002'' @ be64 (of_nat (length frame)) @ bind"
  define n where "n = (512 - (48 + length frame) mod 512) mod 512"
  have n: "unat (of_nat (length frame) :: u64) = length frame"
    using f(3) by (simp add: unat_of_length)
  have h: "length h = 48" "take 8 h = ascii ''IBJOB002''" "at64 h 8 = of_nat (length frame)" "slice_of 16 48 h = bind"
    using f(1) job_fields [of "ascii ''IBJOB002''" bind] by (simp_all add: h_def)
  have "r = (h @ frame @ replicate n 0, False)"
    using f(5) by (simp add: disk_image_def h_def n_def)
  then have "read_exact 48 r = Inr (h, (frame @ replicate n 0, False))"
    using h(1) by (simp add: read_exact_iff)
  moreover have "read_exact (length frame) (frame @ replicate n 0, False) = Inr (frame, (replicate n 0, False))"
    by (simp add: read_exact_iff)
  moreover have "read_exact n (replicate n 0, False) = Inr (replicate n 0, ([], False))"
    by (simp add: read_exact_iff)
  ultimately show ?l
    using f h n by (simp add: decode_disk_def n_def [symmetric] read_one_def word_le_nat_alt)
qed

end
