(* ===== verification/MediaFiles.thy ===== *)
theory MediaFiles
  imports PairedResults ReplayEnvelope
begin

unbundle bit_operations_syntax

text \<open>
  The errors and limits of \<open>crates/media/src/lib.rs\<close>, shared by the file formats of the crate, and
  object identifiers (\<open>id.rs\<close>): parsing, display and generation.
\<close>

section \<open>Errors and limits\<close>

datatype MediaError =
    Paired PairedError | InvalidId | Random | Empty | InputTooLarge | InputLengthMismatch
  | AlreadyExists | InvalidOutput | OverlappingRoots | Conflict | Busy | InvalidStorage
  | Io io_error | Encoding

type_synonym 'a media = "MediaError + 'a"

definition MAX_INPUT_BYTES :: u64 where [simp]: "MAX_INPUT_BYTES = 8 * 1024 * 1024"
definition MAX_PNG_BYTES :: nat where [simp]: "MAX_PNG_BYTES = 5 * 1024 * 1024"
definition INPUT_DISK_HEADER_BYTES :: nat where [simp]: "INPUT_DISK_HEADER_BYTES = 8"
definition SECTOR_BYTES :: nat where [simp]: "SECTOR_BYTES = 512"
definition OUTPUT_DISK_BYTES :: nat where [simp]: "OUTPUT_DISK_BYTES = 4194816"
definition PROTOCOL_HEADER_BYTES :: nat where [simp]: "PROTOCOL_HEADER_BYTES = 16"

section \<open>Object identifiers\<close>

definition hex_byte :: "u8 \<Rightarrow> bool" where
  "hex_byte b \<longleftrightarrow> (48 \<le> b \<and> b \<le> 57) \<or> (97 \<le> b \<and> b \<le> 102)"

definition digit :: "u8 \<Rightarrow> u8" where
  "digit b = (if 48 \<le> b \<and> b \<le> 57 then b - 48 else b - 97 + 10)"

definition parse_id :: "bytes \<Rightarrow> bytes media" where
  "parse_id value =
     (if length value \<noteq> 32 \<or> \<not> (\<forall>b\<in>set value. hex_byte b) then Inl InvalidId
      else Inr (map (\<lambda>pair. digit (pair ! 0) * 16 + digit (pair ! 1)) (chunks_exact 2 value)))"

text \<open>\<open>{byte:02x}\<close>\<close>

definition hex_digit :: "nat \<Rightarrow> u8" where
  "hex_digit n = of_nat (if n < 10 then 48 + n else 87 + n)"

definition hex2 :: "u8 \<Rightarrow> bytes" where
  "hex2 b = [hex_digit (unat b div 16), hex_digit (unat b mod 16)]"

definition display_id :: "bytes \<Rightarrow> bytes" where
  "display_id i = concat (map hex2 i)"

definition generate_id :: "bytes option \<Rightarrow> bytes media" where
  "generate_id random = (case random of None \<Rightarrow> Inl Random | Some bs \<Rightarrow> Inr bs)"

lemma unat_hex_digit: "n < 16 \<Longrightarrow> unat (hex_digit n) = (if n < 10 then 48 + n else 87 + n)"
  unfolding hex_digit_def by (simp only: unsigned_of_nat take_bit_eq_mod) simp

lemma digit_hex_digit:
  assumes "n < 16"
  shows "hex_byte (hex_digit n) \<and> digit (hex_digit n) = of_nat n"
proof
  show "hex_byte (hex_digit n)"
    using unat_hex_digit [OF assms] assms by (auto simp: hex_byte_def word_le_nat_alt)
  have r: "48 \<le> hex_digit n \<and> hex_digit n \<le> 57 \<longleftrightarrow> n < 10"
    using unat_hex_digit [OF assms] by (auto simp: word_le_nat_alt)
  show "digit (hex_digit n) = of_nat n"
    unfolding digit_def r by (simp add: hex_digit_def)
qed

lemma hex_byte_digit:
  assumes "hex_byte b"
  shows "\<exists>n < 16. b = hex_digit n"
proof -
  consider "48 \<le> unat b" "unat b \<le> 57" | "97 \<le> unat b" "unat b \<le> 102"
    using assms by (auto simp: hex_byte_def word_le_nat_alt)
  then show ?thesis
  proof cases
    case 1
    then have n: "unat b - 48 < 16" by simp
    have "unat (hex_digit (unat b - 48)) = unat b"
      using 1 by (auto simp: unat_hex_digit [OF n])
    with n show ?thesis by (auto simp: word_unat_eq_iff)
  next
    case 2
    then have n: "unat b - 87 < 16" by simp
    have "unat (hex_digit (unat b - 87)) = unat b"
      using 2 by (auto simp: unat_hex_digit [OF n])
    with n show ?thesis by (auto simp: word_unat_eq_iff)
  qed
qed

definition id_byte :: "bytes \<Rightarrow> u8" where
  "id_byte pair = digit (pair ! 0) * 16 + digit (pair ! 1)"

lemma id_byte_hex2: "id_byte (hex2 b) = b"
proof -
  have "unat b < 2 ^ LENGTH(8)" by (rule unsigned_less)
  then have d: "unat b div 16 < 16" "unat b mod 16 < 16" by auto
  have "of_nat (unat b div 16) * 16 + of_nat (unat b mod 16) = (of_nat (unat b div 16 * 16 + unat b mod 16) :: u8)"
    by (simp only: of_nat_add of_nat_mult of_nat_numeral)
  also have "\<dots> = b" by simp
  finally show ?thesis
    using digit_hex_digit [OF d(1)] digit_hex_digit [OF d(2)] by (simp add: hex2_def id_byte_def)
qed

lemma hex2_id_byte:
  assumes "length p = 2" and "\<forall>b\<in>set p. hex_byte b"
  shows "hex2 (id_byte p) = p"
proof -
  obtain a c where p: "p = [a, c]"
    using assms(1) by (auto simp: eval_nat_numeral length_Suc_conv)
  obtain m n where mn: "m < 16" "n < 16" "a = hex_digit m" "c = hex_digit n"
    using assms(2) hex_byte_digit [of a] hex_byte_digit [of c] unfolding p by auto
  then have "id_byte p = of_nat (m * 16 + n)"
    using digit_hex_digit by (simp add: p id_byte_def)
  moreover have "unat (of_nat (m * 16 + n) :: u8) = m * 16 + n"
    using mn by (simp only: unsigned_of_nat take_bit_eq_mod) simp
  ultimately show ?thesis
    using mn by (simp add: hex2_def p)
qed

lemma hex2_hex: "b \<in> set (hex2 x) \<Longrightarrow> hex_byte b"
proof -
  have "unat x < 2 ^ LENGTH(8)" by (rule unsigned_less)
  then have "unat x div 16 < 16" "unat x mod 16 < 16" by auto
  then show "b \<in> set (hex2 x) \<Longrightarrow> hex_byte b"
    using digit_hex_digit by (auto simp: hex2_def)
qed

lemma length_hex2: "length (hex2 b) = 2"
  by (simp add: hex2_def)

interpretation hex: record_codec 2 hex2 "\<lambda>p. if \<forall>b\<in>set p. hex_byte b then Inr (id_byte p) else Inl ()" "\<lambda>_. True"
  by unfold_locales (auto simp: length_hex2 id_byte_hex2 hex2_hex hex2_id_byte split: if_splits)

lemma map_id_bytes:
  "\<forall>b\<in>set v. hex_byte b \<Longrightarrow>
     mapE (\<lambda>p. if \<forall>b\<in>set p. hex_byte b then Inr (id_byte p) else Inl ()) (chunks_exact 2 v)
       = Inr (map id_byte (chunks_exact 2 v))"
proof -
  assume v: "\<forall>b\<in>set v. hex_byte b"
  have "\<forall>c\<in>set cs. \<forall>b\<in>set c. hex_byte b \<Longrightarrow>
      mapE (\<lambda>p. if \<forall>b\<in>set p. hex_byte b then Inr (id_byte p) else Inl ()) cs = Inr (map id_byte cs)" for cs
    by (induction cs) simp_all
  moreover have "\<forall>c\<in>set (chunks_exact 2 v). set c \<subseteq> set v"
    by (induction "2::nat" v rule: chunks_exact.induct)
      (subst chunks_exact.simps, auto dest: in_set_takeD in_set_dropD)
  ultimately show ?thesis
    using v by blast
qed

lemma parse_id_iff: "parse_id v = Inr i \<longleftrightarrow> length i = 16 \<and> v = display_id i"
proof
  assume "parse_id v = Inr i"
  then have v: "length v = 32" "\<forall>b\<in>set v. hex_byte b" "i = map id_byte (chunks_exact 2 v)"
    by (auto simp: parse_id_def id_byte_def [abs_def] split: if_split_asm)
  have "concat (map hex2 i) = v"
    using hex.run_sound [OF _ map_id_bytes [OF v(2)]] v by simp
  then show "length i = 16 \<and> v = display_id i"
    using v by (simp add: display_id_def length_chunks_exact)
next
  assume i: "length i = 16 \<and> v = display_id i"
  then have v: "length v = 32" "\<forall>b\<in>set v. hex_byte b"
    using hex.run_length [of i] hex2_hex by (auto simp: display_id_def list_all_iff)
  have "mapE (\<lambda>p. if \<forall>b\<in>set p. hex_byte b then Inr (id_byte p) else Inl ()) (chunks_exact 2 v) = Inr i"
    using hex.decode_run [of i] i by (simp add: display_id_def list_all_iff)
  then show "parse_id v = Inr i"
    using v map_id_bytes [OF v(2)] by (simp add: parse_id_def id_byte_def [abs_def])
qed

end
