(* ===== verification/SourceDigest.thy ===== *)
theory SourceDigest
  imports Streams
begin

unbundle bit_operations_syntax

text \<open>
  What is kept of an uploaded PNG file, on both sides: the host hashes the retained chunks
  (\<open>crates/media/src/source_digest.rs\<close>), the guest writes them (\<open>retained\<close> of
  \<open>apps/media-guest/src/still/png.rs\<close>). MD5 is a parameter; its updates are one list of bytes.
\<close>

section \<open>The host's digest (source_digest.rs)\<close>

definition PNG_SIGNATURE :: bytes where
  "PNG_SIGNATURE = [0x89, 0x50, 0x4e, 0x47, 0x0d, 0x0a, 0x1a, 0x0a]"

datatype SourceDigestError = DigestLimits | SourceTooLarge | ProcessedTooLarge | ChunkTooLarge | JpegUnavailable
  | GifUnavailable | InvalidSignature | TruncatedLength | TruncatedType | TruncatedChunk | MissingIend | ApngUnsupported

record PngSourceDigestLimits =
  max_source_bytes :: nat
  max_processed_bytes :: nat
  max_chunk_bytes :: nat

definition digest_limits :: "nat \<Rightarrow> nat \<Rightarrow> nat \<Rightarrow> SourceDigestError + PngSourceDigestLimits" where
  "digest_limits source processed chunk =
     (if \<exists>limit\<in>set [source, processed, chunk]. limit > 8 * 1024 * 1024 then Inl DigestLimits
      else Inr \<lparr>max_source_bytes = source, max_processed_bytes = processed, max_chunk_bytes = chunk\<rparr>)"

datatype SourceDigestProfile = PngV1

record PngSourceProcessedDigest =
  digest_md5 :: bytes
  digest_processed_bytes :: nat
  digest_profile :: SourceDigestProfile

definition ascii_lower :: "u8 \<Rightarrow> u8" where
  "ascii_lower b = (if 65 \<le> b \<and> b \<le> 90 then b + 32 else b)"

definition same_letters :: "bytes \<Rightarrow> bytes \<Rightarrow> bool" where
  "same_letters a b \<longleftrightarrow> map ascii_lower a = map ascii_lower b"

definition kept_kinds :: "bytes list" where
  "kept_kinds = map ascii
     [''IHDR'', ''PLTE'', ''IDAT'', ''IEND'', ''tRNS'', ''gAMA'', ''sBIT'', ''pHYs'', ''sRGB'',
      ''bKGD'', ''tIME'', ''cHRM'', ''iCCP'']"

definition keeps :: "bytes \<Rightarrow> bool" where
  "keeps kind \<longleftrightarrow> list_ex (same_letters kind) kept_kinds"

text \<open>The loop over the chunks: the bytes counted and hashed so far.\<close>

function digest_loop :: "PngSourceDigestLimits \<Rightarrow> bytes \<Rightarrow> nat \<Rightarrow> nat \<Rightarrow> bytes
    \<Rightarrow> SourceDigestError stop + nat \<times> bytes" where
  "digest_loop limits source offset processed hashed =
     (if length source < offset then Inl Panicked
      else
        let remaining = drop offset source in
        if remaining = [] then Inl (Refused MissingIend)
        else if length remaining < 4 then Inl (Refused TruncatedLength)
        else
          let chunk_bytes = unat (at32 remaining 0) in
          if max_chunk_bytes limits < chunk_bytes then Inl (Refused ChunkTooLarge)
          else if length remaining < 8 then Inl (Refused TruncatedType)
          else
            let kind = slice_of 4 8 remaining in
            if same_letters kind (ascii ''acTL'') then Inl (Refused ApngUnsupported)
            else case checked_add64 chunk_bytes 12 of
              None \<Rightarrow> Inl (Refused ChunkTooLarge)
            | Some framed \<Rightarrow>
                if length remaining < framed then Inl (Refused TruncatedChunk)
                else
                  let chunk = take framed remaining in
                  if keeps kind then
                    (case checked_add64 processed framed of
                       None \<Rightarrow> Inl (Refused ProcessedTooLarge)
                     | Some grown \<Rightarrow>
                         if max_processed_bytes limits < grown then Inl (Refused ProcessedTooLarge)
                         else if same_letters kind (ascii ''IEND'') then Inr (grown, hashed @ chunk)
                         else digest_loop limits source (offset + framed) grown (hashed @ chunk))
                  else digest_loop limits source (offset + framed) processed hashed)"
  by pat_completeness auto

termination digest_loop
  by (relation "measure (\<lambda>(_, source, offset, _, _). length source - offset)")
    (auto simp: checked_add64_def split: if_splits)

declare digest_loop.simps [simp del]

definition png_source_processed_digest :: "(bytes \<Rightarrow> bytes) \<Rightarrow> bytes \<Rightarrow> PngSourceDigestLimits
    \<Rightarrow> SourceDigestError stop + PngSourceProcessedDigest" where
  "png_source_processed_digest md5 source limits =
     (if max_source_bytes limits < length source then Inl (Refused SourceTooLarge)
      else if take 2 source = [0xff, 0xd8] then Inl (Refused JpegUnavailable)
      else if take 6 source = ascii ''GIF87a'' \<or> take 6 source = ascii ''GIF89a'' then Inl (Refused GifUnavailable)
      else if take 8 source \<noteq> PNG_SIGNATURE then Inl (Refused InvalidSignature)
      else if max_processed_bytes limits < length PNG_SIGNATURE then Inl (Refused ProcessedTooLarge)
      else bindE (digest_loop limits source (length PNG_SIGNATURE) (length PNG_SIGNATURE) PNG_SIGNATURE) (\<lambda>(total_bytes, hashed).
        Inr \<lparr>digest_md5 = md5 hashed, digest_processed_bytes = total_bytes, digest_profile = PngV1\<rparr>))"

section \<open>The guest's cleanup (still/png.rs)\<close>

datatype StillError = StillRejected | PngCleanupInput | PngTruncated | PngChunkTooLarge | PngOverflow | PngAnimated
  | PngUnfinished | StillGeometry | StillPixels | StillCoverage | StillRead io_error | StillLibrary

definition STILL_MAX_INPUT_BYTES :: nat where "STILL_MAX_INPUT_BYTES = 10 * 1024 * 1024"

definition kept_lower :: "bytes list" where
  "kept_lower = map ascii
     [''ihdr'', ''plte'', ''idat'', ''iend'', ''trns'', ''gama'', ''sbit'', ''phys'', ''srgb'',
      ''bkgd'', ''time'', ''chrm'', ''iccp'']"

function retained_loop :: "bytes \<Rightarrow> nat \<Rightarrow> bytes \<Rightarrow> StillError + bytes" where
  "retained_loop input offset sofar =
     (if offset < length input then
        (if length input < offset + 8 then Inl PngTruncated
         else
           let header = slice_of offset (offset + 8) input; len = unat (at32 header 0) in
           if STILL_MAX_INPUT_BYTES < len then Inl PngChunkTooLarge
           else case Option.bind (checked_add64 offset 12) (\<lambda>n. checked_add64 n len) of
             None \<Rightarrow> Inl PngOverflow
           | Some stop_at \<Rightarrow>
               if length input < stop_at then Inl PngTruncated
               else
                 let chunk = slice_of offset stop_at input; kind = map ascii_lower (slice_of 4 8 header) in
                 if kind = ascii ''actl'' then Inl PngAnimated
                 else
                   let sofar = (if kind \<in> set kept_lower then sofar @ chunk else sofar) in
                   if kind = ascii ''iend'' then Inr sofar
                   else retained_loop input stop_at sofar)
      else Inl PngUnfinished)"
  by pat_completeness auto

termination retained_loop
  by (relation "measure (\<lambda>(input, offset, _). length input - offset)")
    (auto simp: checked_add64_def split: bind_splits if_splits)

declare retained_loop.simps [simp del]

definition png_retained :: "bytes \<Rightarrow> StillError + bytes" where
  "png_retained input =
     (if STILL_MAX_INPUT_BYTES < length input \<or> take 8 input \<noteq> PNG_SIGNATURE then Inl PngCleanupInput
      else retained_loop input 8 (take 8 input))"

section \<open>The chunks of a file\<close>

text \<open>Kind, data and checksum of a chunk; a file is read up to its first end chunk.\<close>

type_synonym png_chunk = "bytes \<times> bytes \<times> bytes"

definition chunk_frame :: "png_chunk \<Rightarrow> bytes" where
  "chunk_frame c = (case c of (kind, data, crc) \<Rightarrow> be32 (of_nat (length data)) @ kind @ data @ crc)"

definition chunk_ok :: "png_chunk \<Rightarrow> bool" where
  "chunk_ok c = (case c of (kind, data, crc) \<Rightarrow>
     length kind = 4 \<and> length crc = 4 \<and> length data < 2 ^ 32 \<and> \<not> same_letters kind (ascii ''acTL''))"

definition last_chunk :: "png_chunk \<Rightarrow> bool" where
  "last_chunk c \<longleftrightarrow> same_letters (fst c) (ascii ''IEND'')"

definition chunk_sequence :: "png_chunk list \<Rightarrow> bool" where
  "chunk_sequence cs \<longleftrightarrow> cs \<noteq> [] \<and> list_all chunk_ok cs \<and> last_chunk (last cs) \<and> list_all (\<lambda>c. \<not> last_chunk c) (butlast cs)"

definition kept_bytes :: "png_chunk list \<Rightarrow> bytes" where
  "kept_bytes cs = concat (map chunk_frame (filter (\<lambda>c. keeps (fst c)) cs))"

fun first_chunk :: "bytes \<Rightarrow> (png_chunk \<times> bytes) option" where
  "first_chunk bs =
     (let n = unat (at32 bs 0) in
      if length bs < 8 \<or> length bs < n + 12 \<or> same_letters (slice_of 4 8 bs) (ascii ''acTL'') then None
      else Some ((slice_of 4 8 bs, slice_of 8 (8 + n) bs, slice_of (8 + n) (n + 12) bs), drop (n + 12) bs))"

declare first_chunk.simps [simp del]

lemma word_bound: "unat (w :: u32) < 2 ^ 32"
proof -
  have "unat w < 2 ^ LENGTH(32)"
    by (rule unsigned_less)
  then show ?thesis by simp
qed

lemma first_chunk_iff: "first_chunk bs = Some (c, rest) \<longleftrightarrow> chunk_ok c \<and> bs = chunk_frame c @ rest"
proof
  assume "first_chunk bs = Some (c, rest)"
  moreover define n where "n = unat (at32 bs 0)"
  ultimately have n: "\<not> length bs < n + 12" "8 \<le> length bs" "\<not> same_letters (slice_of 4 8 bs) (ascii ''acTL'')"
      "c = (slice_of 4 8 bs, slice_of 8 (8 + n) bs, slice_of (8 + n) (n + 12) bs)" "rest = drop (n + 12) bs"
    unfolding first_chunk.simps Let_def n_def [symmetric] by (auto split: if_splits)
  have lim: "n < 2 ^ 32"
    using word_bound [of "at32 bs 0"] by (simp add: n_def)
  have "of_nat n = at32 bs 0"
    by (simp add: n_def)
  then have "be32 (of_nat n) = take 4 bs"
    using field32 [of 0 bs] n(2) by simp
  moreover have "bs = take 4 bs @ slice_of 4 8 bs @ slice_of 8 (8 + n) bs @ slice_of (8 + n) (n + 12) bs @ drop (n + 12) bs"
  proof -
    have "drop i bs = slice_of i j bs @ drop j bs" if "i \<le> j" for i j
      using append_take_drop_id [of "j - i" "drop i bs"] that by (simp add: slice_of_def)
    note d = this
    have "bs = take 4 bs @ drop 4 bs"
      by simp
    also have "drop 4 bs = slice_of 4 8 bs @ drop 8 bs"
      by (rule d) simp
    also have "drop 8 bs = slice_of 8 (8 + n) bs @ drop (8 + n) bs"
      by (rule d) simp
    also have "drop (8 + n) bs = slice_of (8 + n) (n + 12) bs @ drop (n + 12) bs"
      by (rule d) simp
    finally show ?thesis .
  qed
  ultimately show "chunk_ok c \<and> bs = chunk_frame c @ rest"
    using n lim by (simp add: chunk_ok_def chunk_frame_def length_slice_of)
next
  assume a: "chunk_ok c \<and> bs = chunk_frame c @ rest"
  obtain kind data crc where c: "c = (kind, data, crc)"
    by (cases c)
  have l: "length kind = 4" "length crc = 4" "length data < 2 ^ 32" "\<not> same_letters kind (ascii ''acTL'')"
    "bs = be32 (of_nat (length data)) @ kind @ data @ crc @ rest"
    using a by (simp_all add: c chunk_ok_def chunk_frame_def)
  then have "unat (at32 bs 0) = length data"
    using at32_field [of "[]" 0 "of_nat (length data)" "kind @ data @ crc @ rest"]
    by (simp add: unsigned_of_nat take_bit_eq_mod)
  then show "first_chunk bs = Some (c, rest)"
    using l by (simp add: first_chunk.simps Let_def slice_of_def c)
qed

lemma chunk_frame_length: "chunk_ok c \<Longrightarrow> length (chunk_frame c) = length (fst (snd c)) + 12"
  by (cases c) (simp add: chunk_ok_def chunk_frame_def)

lemma chunk_sequence_Cons: "chunk_sequence (c # cs) \<longleftrightarrow> chunk_ok c \<and> (if last_chunk c then cs = [] else chunk_sequence cs)"
  by (cases cs) (auto simp: chunk_sequence_def)

lemma sequence_unfold:
  "(\<exists>cs rest. bs = concat (map chunk_frame cs) @ rest \<and> chunk_sequence cs \<and> P cs) \<longleftrightarrow>
     (\<exists>c rest. first_chunk bs = Some (c, rest) \<and>
        (if last_chunk c then P [c]
         else \<exists>cs rest'. rest = concat (map chunk_frame cs) @ rest' \<and> chunk_sequence cs \<and> P (c # cs)))" (is "?l \<longleftrightarrow> ?r")
proof
  assume ?l
  then obtain cs rest where h: "bs = concat (map chunk_frame cs) @ rest" "chunk_sequence cs" "P cs"
    by blast
  then obtain c cs' where cs: "cs = c # cs'"
    by (cases cs) (auto simp: chunk_sequence_def)
  have "first_chunk bs = Some (c, concat (map chunk_frame cs') @ rest)"
    using h unfolding first_chunk_iff by (simp add: cs chunk_sequence_Cons)
  then show ?r
    using h by (auto simp: cs chunk_sequence_Cons split: if_splits)
next
  assume ?r
  then obtain c rest where c: "first_chunk bs = Some (c, rest)"
      "if last_chunk c then P [c] else \<exists>cs rest'. rest = concat (map chunk_frame cs) @ rest' \<and> chunk_sequence cs \<and> P (c # cs)"
    by blast
  then have b: "chunk_ok c" "bs = chunk_frame c @ rest"
    by (simp_all add: first_chunk_iff)
  show ?l
  proof (cases "last_chunk c")
    case True
    then show ?thesis
      using b c(2) by (intro exI [of _ "[c]"] exI [of _ rest]) (simp add: chunk_sequence_def)
  next
    case False
    then obtain cs rest' where "rest = concat (map chunk_frame cs) @ rest'" "chunk_sequence cs" "P (c # cs)"
      using c(2) by auto
    then show ?thesis
      using b False by (intro exI [of _ "c # cs"] exI [of _ rest']) (simp add: chunk_sequence_Cons)
  qed
qed

lemma kept_bytes_simps [simp]:
  "kept_bytes [] = []" "kept_bytes (c # cs) = (if keeps (fst c) then chunk_frame c else []) @ kept_bytes cs"
  by (simp_all add: kept_bytes_def)

lemma last_kept: "last_chunk c \<Longrightarrow> keeps (fst c)"
  by (simp add: last_chunk_def keeps_def kept_kinds_def)

text \<open>The cursor after a chunk.\<close>

lemma chunk_step:
  assumes "first_chunk (drop offset bs) = Some (c, rest)" "offset \<le> length bs"
  shows "0 < length (chunk_frame c)" "offset + length (chunk_frame c) \<le> length bs"
    "drop (offset + length (chunk_frame c)) bs = rest"
proof -
  have b: "chunk_ok c" "drop offset bs = chunk_frame c @ rest"
    using assms(1) by (simp_all add: first_chunk_iff)
  show "0 < length (chunk_frame c)"
    using chunk_frame_length [OF b(1)] by simp
  have "length bs - offset = length (chunk_frame c) + length rest"
    unfolding length_drop [symmetric] b(2) by simp
  then show "offset + length (chunk_frame c) \<le> length bs"
    using assms(2) by linarith
  have "drop (offset + length (chunk_frame c)) bs = drop (length (chunk_frame c)) (drop offset bs)"
    by (simp add: add.commute)
  then show "drop (offset + length (chunk_frame c)) bs = rest"
    unfolding b(2) by simp
qed

section \<open>The host's loop\<close>

definition limits_ok :: "PngSourceDigestLimits \<Rightarrow> bool" where
  "limits_ok l \<longleftrightarrow> max_source_bytes l \<le> 8388608 \<and> max_processed_bytes l \<le> 8388608 \<and> max_chunk_bytes l \<le> 8388608"

lemma digest_limits_iff: "digest_limits a b c = Inr l \<longleftrightarrow> limits_ok l \<and>
    l = \<lparr>max_source_bytes = a, max_processed_bytes = b, max_chunk_bytes = c\<rparr>"
  by (auto simp: digest_limits_def limits_ok_def)

lemma digest_step:
  assumes "limits_ok l" "offset \<le> length source" "first_chunk (drop offset source) = Some (c, rest)"
  shows "digest_loop l source offset processed hashed =
     (if max_chunk_bytes l < length (fst (snd c)) then Inl (Refused ChunkTooLarge)
      else if keeps (fst c) then
        (if max_processed_bytes l < processed + length (chunk_frame c) then Inl (Refused ProcessedTooLarge)
         else if last_chunk c then Inr (processed + length (chunk_frame c), hashed @ chunk_frame c)
         else digest_loop l source (offset + length (chunk_frame c)) (processed + length (chunk_frame c)) (hashed @ chunk_frame c))
      else digest_loop l source (offset + length (chunk_frame c)) processed hashed)"
proof -
  obtain kind data crc where c: "c = (kind, data, crc)"
    by (cases c)
  have b: "chunk_ok c" "drop offset source = chunk_frame c @ rest"
    using assms(3) by (simp_all add: first_chunk_iff)
  then have len: "length kind = 4" "length crc = 4" "length data < 2 ^ 32" "\<not> same_letters kind (ascii ''acTL'')"
    and n: "length (chunk_frame c) = length data + 12" "chunk_frame c \<noteq> []"
    using chunk_frame_length [of c] by (auto simp: c chunk_ok_def)
  have word: "unat (at32 (chunk_frame c @ rest) 0) = length data"
    using len(3) at32_field [of "[]" 0 "of_nat (length data)" "kind @ data @ crc @ rest"]
    by (simp add: c chunk_frame_def unsigned_of_nat take_bit_eq_mod)
  have kind: "slice_of 4 8 (chunk_frame c @ rest) = kind"
    using len(1) by (simp add: slice_of_def c chunk_frame_def)
  have add: "checked_add64 (length data) 12 = Some (length data + 12)"
    using len(3) by (simp add: checked_add64_def)
  have proc: "(case checked_add64 processed (length data + 12) of None \<Rightarrow> Inl (Refused ProcessedTooLarge)
      | Some grown \<Rightarrow> if max_processed_bytes l < grown then Inl (Refused ProcessedTooLarge) else f grown)
      = (if max_processed_bytes l < processed + (length data + 12) then Inl (Refused ProcessedTooLarge)
         else f (processed + (length data + 12)))" for f :: "nat \<Rightarrow> SourceDigestError stop + nat \<times> bytes"
    using assms(1) by (auto simp: checked_add64_def limits_ok_def)
  show ?thesis
    using assms(2) len n
    by (subst digest_loop.simps)
      (simp add: b(2) word kind add proc Let_def last_chunk_def c [symmetric] fst_conv [of kind "(data, crc)", folded c]
        snd_conv [of kind "(data, crc)", folded c])
qed

lemma digest_stops:
  assumes "offset \<le> length source" "first_chunk (drop offset source) = None"
  shows "\<exists>e. digest_loop l source offset processed hashed = Inl (Refused e)"
proof -
  define bs where "bs = drop offset source"
  define n where "n = unat (at32 bs 0)"
  have "n < 2 ^ 32"
    using word_bound [of "at32 bs 0"] by (simp add: n_def)
  then have n: "checked_add64 n 12 = Some (n + 12)"
    by (simp add: checked_add64_def)
  have "length bs < 8 \<or> same_letters (slice_of 4 8 bs) (ascii ''acTL'') \<or> length bs < n + 12"
    using assms(2) unfolding first_chunk.simps Let_def bs_def [symmetric] n_def [symmetric] by (auto split: if_splits)
  then show ?thesis
    using assms(1) by (subst digest_loop.simps, fold bs_def, unfold Let_def, fold n_def) (auto simp: n)
qed

lemma digest_loop_iff:
  assumes "limits_ok l"
  shows "offset \<le> length source \<Longrightarrow> processed \<le> max_processed_bytes l \<Longrightarrow>
    digest_loop l source offset processed hashed = Inr (total_bytes, out) \<longleftrightarrow>
      (\<exists>cs rest. drop offset source = concat (map chunk_frame cs) @ rest \<and> chunk_sequence cs
         \<and> (list_all (\<lambda>c. length (fst (snd c)) \<le> max_chunk_bytes l) cs
            \<and> processed + length (kept_bytes cs) \<le> max_processed_bytes l
            \<and> total_bytes = processed + length (kept_bytes cs) \<and> out = hashed @ kept_bytes cs))"
proof (induction "length source - offset" arbitrary: offset processed hashed rule: less_induct)
  case less
  show ?case
  proof (cases "first_chunk (drop offset source)")
    case None
    then show ?thesis
      using digest_stops [OF less.prems(1) None, of l processed hashed] by (subst sequence_unfold) (auto simp: None)
  next
    case (Some p)
    then obtain c rest where f: "first_chunk (drop offset source) = Some (c, rest)"
      by (cases p) simp
    then have b: "chunk_ok c" "drop offset source = chunk_frame c @ rest"
      by (simp_all add: first_chunk_iff)
    define k where "k = length (chunk_frame c)"
    have k: "0 < k" "offset + k \<le> length source" "drop (offset + k) source = rest"
      using chunk_step [OF f less.prems(1)] by (simp_all add: k_def)
    have IH: "digest_loop l source (offset + k) p h = Inr (total_bytes, out) \<longleftrightarrow>
        (\<exists>cs rest'. rest = concat (map chunk_frame cs) @ rest' \<and> chunk_sequence cs
         \<and> (list_all (\<lambda>c. length (fst (snd c)) \<le> max_chunk_bytes l) cs
            \<and> p + length (kept_bytes cs) \<le> max_processed_bytes l
            \<and> total_bytes = p + length (kept_bytes cs) \<and> out = h @ kept_bytes cs))"
      if "p \<le> max_processed_bytes l" for p h
      using less.hyps [of "offset + k" p h] k less.prems(1) that by simp
    show ?thesis
      using last_kept [of c]
      by (subst sequence_unfold) (auto simp: f digest_step [OF assms less.prems(1) f] IH add.assoc less.prems(2) simp flip: k_def)
  qed
qed

definition kept_digest :: "(bytes \<Rightarrow> bytes) \<Rightarrow> bytes \<Rightarrow> PngSourceProcessedDigest" where
  "kept_digest md5 out = \<lparr>digest_md5 = md5 out, digest_processed_bytes = length out, digest_profile = PngV1\<rparr>"

lemma signature_first:
  "take 8 bs = PNG_SIGNATURE \<Longrightarrow> take 2 bs \<noteq> [0xff, 0xd8] \<and> take 6 bs \<noteq> ascii ''GIF87a'' \<and> take 6 bs \<noteq> ascii ''GIF89a''"
proof -
  assume a: "take 8 bs = PNG_SIGNATURE"
  have "take 2 bs = take 2 PNG_SIGNATURE" "take 6 bs = take 6 PNG_SIGNATURE"
    unfolding a [symmetric] by simp_all
  then show ?thesis
    by (simp add: PNG_SIGNATURE_def ascii_def)
qed

lemma signature_length: "length PNG_SIGNATURE = 8"
  by (simp add: PNG_SIGNATURE_def)

lemma signature_split:
  "bs = PNG_SIGNATURE @ r \<longleftrightarrow> take 8 bs = PNG_SIGNATURE \<and> 8 \<le> length bs \<and> drop 8 bs = r"
  by (metis append_eq_conv_conj append_take_drop_id length_append le_add1 signature_length)

theorem digest_exact:
  assumes "limits_ok l"
  shows "png_source_processed_digest md5 source l = Inr d \<longleftrightarrow>
    length source \<le> max_source_bytes l
    \<and> (\<exists>cs rest. source = PNG_SIGNATURE @ concat (map chunk_frame cs) @ rest \<and> chunk_sequence cs
       \<and> list_all (\<lambda>c. length (fst (snd c)) \<le> max_chunk_bytes l) cs
       \<and> length (PNG_SIGNATURE @ kept_bytes cs) \<le> max_processed_bytes l
       \<and> d = kept_digest md5 (PNG_SIGNATURE @ kept_bytes cs))"
proof -
  note len = signature_length and split = signature_split
  show ?thesis
  proof (cases "max_source_bytes l < length source \<or> take 8 source \<noteq> PNG_SIGNATURE \<or> max_processed_bytes l < 8")
    case True
    then show ?thesis
      by (auto simp: png_source_processed_digest_def split len)
  next
    case False
    then have sig: "take 8 source = PNG_SIGNATURE"
      by simp
    then have long: "8 \<le> length source"
      using len by (metis length_take min.absorb_iff2 min.commute)
    have "png_source_processed_digest md5 source l = Inr d \<longleftrightarrow>
        (\<exists>n out. digest_loop l source 8 8 PNG_SIGNATURE = Inr (n, out)
           \<and> d = \<lparr>digest_md5 = md5 out, digest_processed_bytes = n, digest_profile = PngV1\<rparr>)"
      using False signature_first [OF sig] by (auto simp: png_source_processed_digest_def len sig result_simps)
    also have "\<dots> \<longleftrightarrow> (\<exists>cs rest. drop 8 source = concat (map chunk_frame cs) @ rest \<and> chunk_sequence cs
        \<and> list_all (\<lambda>c. length (fst (snd c)) \<le> max_chunk_bytes l) cs \<and> 8 + length (kept_bytes cs) \<le> max_processed_bytes l
        \<and> d = kept_digest md5 (PNG_SIGNATURE @ kept_bytes cs))"
      using digest_loop_iff [OF assms long, of 8] False len by (auto simp: kept_digest_def)
    finally show ?thesis
      using False long sig by (simp add: split len)
  qed
qed

lemma digest_loop_no_panic:
  assumes "limits_ok l"
  shows "offset \<le> length source \<Longrightarrow> digest_loop l source offset processed hashed \<noteq> Inl Panicked"
proof (induction "length source - offset" arbitrary: offset processed hashed rule: less_induct)
  case less
  show ?case
  proof (cases "first_chunk (drop offset source)")
    case None
    then show ?thesis
      using digest_stops [OF less.prems None, of l processed hashed] by auto
  next
    case (Some p)
    then obtain c rest where f: "first_chunk (drop offset source) = Some (c, rest)"
      by (cases p) simp
    note k = chunk_step [OF f less.prems]
    have "length source - (offset + length (chunk_frame c)) < length source - offset"
      using k(1,2) by linarith
    note IH = less.hyps [OF this k(2)]
    show ?thesis
      unfolding digest_step [OF assms less.prems f] using IH by simp
  qed
qed

lemma digest_no_panic: "limits_ok l \<Longrightarrow> png_source_processed_digest md5 source l \<noteq> Inl Panicked"
proof -
  assume l: "limits_ok l"
  have "take 8 source = PNG_SIGNATURE \<Longrightarrow> length PNG_SIGNATURE \<le> length source"
    by (metis length_take min.cobounded1)
  then show ?thesis
    using digest_loop_no_panic [OF l] by (auto simp: png_source_processed_digest_def bindE_eq_Inl)
qed

section \<open>The guest's loop\<close>

lemma kept_lower: "map ascii_lower kind \<in> set kept_lower \<longleftrightarrow> keeps kind"
proof -
  have "kept_lower = map (map ascii_lower) kept_kinds"
    by (simp add: kept_lower_def kept_kinds_def ascii_def ascii_lower_def)
  then have "set kept_lower = map ascii_lower ` set kept_kinds"
    by (metis list.set_map)
  then show ?thesis
    unfolding keeps_def same_letters_def list_ex_iff by auto
qed

lemma lower_letters:
  "map ascii_lower kind = ascii ''actl'' \<longleftrightarrow> same_letters kind (ascii ''acTL'')"
  "map ascii_lower kind = ascii ''iend'' \<longleftrightarrow> same_letters kind (ascii ''IEND'')"
  by (simp_all add: same_letters_def ascii_def ascii_lower_def)

lemma retained_step:
  assumes "length input \<le> STILL_MAX_INPUT_BYTES" "offset \<le> length input" "first_chunk (drop offset input) = Some (c, rest)"
  shows "retained_loop input offset sofar =
     (let sofar = (if keeps (fst c) then sofar @ chunk_frame c else sofar) in
      if last_chunk c then Inr sofar else retained_loop input (offset + length (chunk_frame c)) sofar)"
proof -
  obtain kind data crc where c: "c = (kind, data, crc)"
    by (cases c)
  have b: "chunk_ok c" "drop offset input = chunk_frame c @ rest"
    using assms(3) by (simp_all add: first_chunk_iff)
  then have len: "length kind = 4" "length crc = 4" "length data < 2 ^ 32" "\<not> same_letters kind (ascii ''acTL'')"
    and n: "length (chunk_frame c) = length data + 12"
    using chunk_frame_length [of c] by (simp_all add: c chunk_ok_def)
  note k = chunk_step [OF assms(3,2)]
  define header where "header = slice_of offset (offset + 8) input"
  have h: "header = be32 (of_nat (length data)) @ kind"
    using len(1) by (simp add: header_def slice_of_def b(2) c chunk_frame_def)
  have word: "unat (at32 header 0) = length data"
    using len(3) at32_field [of "[]" 0 "of_nat (length data)" kind]
    by (simp add: h unsigned_of_nat take_bit_eq_mod)
  have kind: "slice_of 4 8 header = kind"
    using len(1) by (simp add: slice_of_def h)
  have bound: "length data \<le> STILL_MAX_INPUT_BYTES" "offset + 12 + length data \<le> length input"
    using k(2) assms(1) unfolding n by linarith+
  have add: "Option.bind (checked_add64 offset 12) (\<lambda>n. checked_add64 n (length data)) = Some (offset + length (chunk_frame c))"
    using bound assms(1) unfolding n by (simp add: checked_add64_def STILL_MAX_INPUT_BYTES_def)
  have chunk: "slice_of offset (offset + length (chunk_frame c)) input = chunk_frame c"
    by (simp add: slice_of_def b(2))
  note chunk = chunk [unfolded n]
  have "fst c = kind"
    by (simp add: c)
  then show ?thesis
    using bound len(4) k(1,2) n
    by (subst retained_loop.simps, fold header_def)
      (auto simp: Let_def word kind add chunk kept_lower lower_letters last_chunk_def)
qed

lemma retained_stops:
  assumes "length input \<le> STILL_MAX_INPUT_BYTES" "offset \<le> length input" "first_chunk (drop offset input) = None"
  shows "\<exists>e. retained_loop input offset sofar = Inl e"
proof (cases "offset + 8 \<le> length input")
  case False
  then show ?thesis
    by (subst retained_loop.simps) auto
next
  case True
  define header where "header = slice_of offset (offset + 8) input"
  define n where "n = unat (at32 header 0)"
  have h: "at32 header 0 = at32 (drop offset input) 0" "slice_of 4 8 header = slice_of 4 8 (drop offset input)"
    by (simp_all add: header_def slice_of_def at32_def drop_take add.commute)
  have "same_letters (slice_of 4 8 header) (ascii ''acTL'') \<or> length input - offset < n + 12"
    using assms(3) True unfolding first_chunk.simps Let_def n_def h by (auto split: if_splits)
  moreover have "checked_add64 offset 12 = Some (offset + 12)"
    using assms(1,2) by (simp add: checked_add64_def STILL_MAX_INPUT_BYTES_def)
  moreover have "checked_add64 (offset + 12) n = Some (offset + 12 + n)" if "n \<le> STILL_MAX_INPUT_BYTES"
    using assms(1,2) that by (simp add: checked_add64_def STILL_MAX_INPUT_BYTES_def)
  ultimately show ?thesis
    using True by (subst retained_loop.simps, fold header_def, unfold Let_def, fold n_def)
      (auto simp: lower_letters)
qed

lemma retained_loop_iff:
  assumes "length input \<le> STILL_MAX_INPUT_BYTES"
  shows "offset \<le> length input \<Longrightarrow> retained_loop input offset sofar = Inr out \<longleftrightarrow>
      (\<exists>cs rest. drop offset input = concat (map chunk_frame cs) @ rest \<and> chunk_sequence cs \<and> out = sofar @ kept_bytes cs)"
proof (induction "length input - offset" arbitrary: offset sofar rule: less_induct)
  case less
  show ?case
  proof (cases "first_chunk (drop offset input)")
    case None
    then show ?thesis
      using retained_stops [OF assms less.prems None, of sofar] by (subst sequence_unfold) (auto simp: None)
  next
    case (Some p)
    then obtain c rest where f: "first_chunk (drop offset input) = Some (c, rest)"
      by (cases p) simp
    note k = chunk_step [OF f less.prems]
    have IH: "retained_loop input (offset + length (chunk_frame c)) h = Inr out \<longleftrightarrow>
        (\<exists>cs rest'. rest = concat (map chunk_frame cs) @ rest' \<and> chunk_sequence cs \<and> out = h @ kept_bytes cs)" for h
    proof -
      have "length input - (offset + length (chunk_frame c)) < length input - offset"
        using k(1,2) by linarith
      note less.hyps [OF this k(2)]
      then show ?thesis
        unfolding k(3) .
    qed
    show ?thesis
      by (subst sequence_unfold) (auto simp: f retained_step [OF assms less.prems f] Let_def IH)
  qed
qed

lemma png_retained_iff:
  "png_retained input = Inr out \<longleftrightarrow> length input \<le> STILL_MAX_INPUT_BYTES
    \<and> (\<exists>cs rest. input = PNG_SIGNATURE @ concat (map chunk_frame cs) @ rest \<and> chunk_sequence cs
       \<and> out = PNG_SIGNATURE @ kept_bytes cs)"
proof (cases "STILL_MAX_INPUT_BYTES < length input \<or> take 8 input \<noteq> PNG_SIGNATURE")
  case True
  then show ?thesis
    by (auto simp: png_retained_def signature_split)
next
  case False
  then have sig: "take 8 input = PNG_SIGNATURE" "length input \<le> STILL_MAX_INPUT_BYTES"
    by simp_all
  then have "8 \<le> length input"
    by (metis length_take min.absorb_iff2 min.commute signature_length)
  then show ?thesis
    using sig by (simp add: png_retained_def signature_split retained_loop_iff)
qed

lemma sequence_lengths: "c \<in> set cs \<Longrightarrow> length (chunk_frame c) \<le> length (concat (map chunk_frame cs))"
  by (induction cs) auto

lemma kept_length: "length (kept_bytes cs) \<le> length (concat (map chunk_frame cs))"
  by (induction cs) auto

theorem digest_is_retained:
  assumes "digest_limits cap cap cap = Inr l"
  shows "png_source_processed_digest md5 source l = Inr d \<longleftrightarrow>
    length source \<le> cap \<and> (\<exists>out. png_retained source = Inr out \<and> d = kept_digest md5 out)"
proof -
  have l: "limits_ok l" "cap \<le> 8388608" "max_source_bytes l = cap" "max_processed_bytes l = cap" "max_chunk_bytes l = cap"
    using assms by (auto simp: digest_limits_iff limits_ok_def)
  have bounds: "list_all (\<lambda>c. length (fst (snd c)) \<le> cap) cs \<and> length (PNG_SIGNATURE @ kept_bytes cs) \<le> cap"
    if s: "source = PNG_SIGNATURE @ concat (map chunk_frame cs) @ rest" "chunk_sequence cs" "length source \<le> cap" for cs rest
  proof -
    have all: "length PNG_SIGNATURE + length (concat (map chunk_frame cs)) \<le> cap"
      using s(3) unfolding s(1) length_append by linarith
    have "length (fst (snd c)) \<le> cap" if c: "c \<in> set cs" for c
    proof -
      have "chunk_ok c"
        using s(2) c by (simp add: chunk_sequence_def list_all_iff)
      then show ?thesis
        using all chunk_frame_length [of c] sequence_lengths [OF c] by linarith
    qed
    then show ?thesis
      using all kept_length [of cs] unfolding length_append list_all_iff by auto
  qed
  show ?thesis
  proof (cases "length source \<le> cap")
    case True
    then have small: "length source \<le> STILL_MAX_INPUT_BYTES"
      using l(2) by (simp add: STILL_MAX_INPUT_BYTES_def)
    show ?thesis
      unfolding digest_exact [OF l(1)] png_retained_iff l(3-5)
      using True small bounds by blast
  next
    case False
    then show ?thesis
      unfolding digest_exact [OF l(1)] l(3) by blast
  qed
qed

end
