(* ===== verification/BlockDisk.thy ===== *)
theory BlockDisk
  imports MediaFiles
begin

unbundle bit_operations_syntax

text \<open>
  \<open>crates/media/src/block.rs\<close>: the input block disk of a guest. The source is any \<open>Read\<close>, so a
  reader here is a script of what its calls to \<open>read\<close> return: a chunk (cut when the buffer is
  smaller), an interruption, or a failure; an empty chunk or the end of the script is the end of
  the input. The copy loop ends on every script.
\<close>

datatype read_event = Chunk bytes | Interrupted | Failed

datatype read_result = Got bytes | Again | Error

text \<open>One \<open>read\<close> into a buffer of \<open>limit\<close> bytes, and the script left.\<close>

fun read_some :: "nat \<Rightarrow> read_event list \<Rightarrow> read_result \<times> read_event list" where
  "read_some limit [] = (Got [], [])"
| "read_some limit (Chunk c # es) =
     (if length c \<le> limit then (Got c, es) else (Got (take limit c), Chunk (drop limit c) # es))"
| "read_some limit (Interrupted # es) = (Again, es)"
| "read_some limit (Failed # es) = (Error, es)"

fun event_weight :: "read_event \<Rightarrow> nat" where
  "event_weight (Chunk c) = Suc (length c)"
| "event_weight _ = 1"

definition script_size :: "read_event list \<Rightarrow> nat" where
  "script_size es = sum_list (map event_weight es)"

lemma script_size_Cons [simp]: "script_size (e # es) = event_weight e + script_size es"
  "script_size [] = 0"
  by (simp_all add: script_size_def)

lemma read_some_smaller:
  "read_some limit es = (x, es') \<Longrightarrow> 0 < limit \<Longrightarrow> x \<noteq> Got [] \<Longrightarrow> script_size es' < script_size es"
  by (cases "(limit, es)" rule: read_some.cases) (auto split: if_split_asm)

text \<open>The copy loop, with its 8192-byte buffer, and the look-ahead for more input.\<close>

function copy_input :: "nat \<Rightarrow> read_event list \<Rightarrow> sink \<Rightarrow> (read_event list \<times> sink) media" where
  "copy_input remaining es w =
     (if remaining = 0 then Inr (es, w)
      else case read_some (min remaining 8192) es of
        (Got [], _) \<Rightarrow> Inl InputLengthMismatch
      | (Got (b # bs), es) \<Rightarrow>
          bindE (map_err Io (write_all (b # bs) w)) (\<lambda>w.
          copy_input (remaining - length (b # bs)) es w)
      | (Again, es) \<Rightarrow> copy_input remaining es w
      | (Error, _) \<Rightarrow> Inl (Io Fault))"
  by pat_completeness auto

termination
  by (relation "measure (\<lambda>(n, es, w). script_size es)")
    (auto dest!: read_some_smaller [OF sym])

fun expect_end :: "read_event list \<Rightarrow> unit media" where
  "expect_end [] = Inr ()"
| "expect_end (Chunk c # es) = (if c = [] then Inr () else Inl InputLengthMismatch)"
| "expect_end (Interrupted # es) = expect_end es"
| "expect_end (Failed # es) = Inl (Io Fault)"

definition write_input_disk :: "read_event list \<Rightarrow> u64 \<Rightarrow> sink \<Rightarrow> sink media" where
  "write_input_disk reader bytes writer =
     (if bytes = 0 then Inl Empty
      else if bytes > MAX_INPUT_BYTES then Inl InputTooLarge
      else bindE (map_err Io (write_all (be64 bytes) writer)) (\<lambda>writer.
           bindE (copy_input (unat bytes) reader writer) (\<lambda>(reader, writer).
           bindE (expect_end reader) (\<lambda>_.
           let framed_bytes = INPUT_DISK_HEADER_BYTES + unat bytes;
               padding = (SECTOR_BYTES - framed_bytes mod SECTOR_BYTES) mod SECTOR_BYTES in
           map_err Io (write_all (replicate padding 0) writer)))))"

declare copy_input.simps [simp del]

section \<open>What is on the disk\<close>

text \<open>The bytes a script delivers before its end; a failure before the end delivers nothing.\<close>

fun delivered :: "read_event list \<Rightarrow> bytes option" where
  "delivered [] = Some []"
| "delivered (Chunk c # es) = (if c = [] then Some [] else map_option (append c) (delivered es))"
| "delivered (Interrupted # es) = delivered es"
| "delivered (Failed # es) = None"

definition input_disk :: "bytes \<Rightarrow> bytes" where
  "input_disk data =
     be64 (of_nat (length data)) @ data @ replicate ((512 - (8 + length data) mod 512) mod 512) 0"

lemma expect_end_iff: "expect_end es = Inr u \<longleftrightarrow> delivered es = Some []"
  by (induction es rule: expect_end.induct) auto

lemma read_some_delivered:
  assumes "read_some limit es = (x, es')" "0 < limit"
  shows "delivered es = (case x of Got [] \<Rightarrow> Some [] | Got c \<Rightarrow> map_option (append c) (delivered es')
       | Again \<Rightarrow> delivered es' | Error \<Rightarrow> None)"
proof (cases "(limit, es)" rule: read_some.cases)
  case (2 l c rest)
  show ?thesis
  proof (cases "length c \<le> limit")
    case True
    then show ?thesis using 2 assms by (cases c) auto
  next
    case False
    then have "take limit c \<noteq> []" and c: "c \<noteq> []"
      using assms(2) by auto
    then obtain b bs where "take limit c = b # bs"
      by (cases "take limit c") auto
    note c = this c
    have "x = Got (take limit c)" "es' = Chunk (drop limit c) # rest"
      using 2 assms False by auto
    moreover have "delivered es = map_option (append c) (delivered rest)"
      using 2 c by simp
    moreover have "map_option (append (take limit c)) (delivered (Chunk (drop limit c) # rest))
        = map_option (append c) (delivered rest)"
      using False by (simp add: map_option_append)
    ultimately show ?thesis
      using \<open>take limit c = b # bs\<close> by simp
  qed
qed (use assms in auto)

lemma read_some_length: "read_some limit es = (Got c, es') \<Longrightarrow> length c \<le> limit"
  by (cases "(limit, es)" rule: read_some.cases) (auto split: if_split_asm)

lemma copy_input_iff:
  "(\<exists>es' w'. copy_input n es w = Inr (es', w') \<and> delivered es' = Some [] \<and> P w') \<longleftrightarrow>
     (\<exists>data. delivered es = Some data \<and> length data = n \<and> n \<le> room w \<and> P (took data w))"
proof (induction n es w rule: copy_input.induct)
  case (1 n es w)
  show ?case
  proof (cases "n = 0")
    case True
    then show ?thesis by (auto simp: copy_input.simps)
  next
    case False
    obtain x es1 where x: "read_some (min n 8192) es = (x, es1)"
      by (cases "read_some (min n 8192) es")
    have pos: "0 < min n 8192" using False by simp
    note d = read_some_delivered [OF x pos]
    show ?thesis
    proof (cases x)
      case (Got c)
      show ?thesis
      proof (cases c)
        case Nil
        then show ?thesis
          using False x Got d by (auto simp: copy_input.simps [of n es])
      next
        case (Cons b bs)
        have l: "length c \<le> n"
          using read_some_length [of "min n 8192" es c es1] x Got by simp
        show ?thesis
        proof (cases "length c \<le> room w")
          case True
          have IH: "(\<exists>es' w'. copy_input (n - length c) es1 (took c w) = Inr (es', w') \<and> delivered es' = Some [] \<and> P w') \<longleftrightarrow>
              (\<exists>data. delivered es1 = Some data \<and> length data = n - length c \<and> n - length c \<le> room w - length c
                 \<and> P (took (c @ data) w))"
            using "1.IH"(1) [OF False x [symmetric] Got Cons, of "took c w"] True Cons
            by (simp add: write_all_def took_def)
          have "copy_input n es w = copy_input (n - length c) es1 (took c w)"
            using False x Got Cons True by (subst copy_input.simps) (simp add: write_all_def took_def)
          then show ?thesis
            using IH d l True unfolding Got Cons
            by (auto simp: Cons)
        next
          case False
          then have "copy_input n es w = Inl (Io Fault)"
            using \<open>n \<noteq> 0\<close> x Got Cons by (subst copy_input.simps) (simp add: write_all_def)
          then show ?thesis
            using False d l unfolding Got Cons by auto
        qed
      qed
    next
      case Again
      have "copy_input n es w = copy_input n es1 w"
        using False x Again by (subst copy_input.simps) simp
      then show ?thesis
        using "1.IH"(2) [OF False x [symmetric] Again] d Again by simp
    next
      case Error
      then show ?thesis
        using False x d by (auto simp: copy_input.simps [of n es])
    qed
  qed
qed

lemma write_input_disk_iff:
  "write_input_disk es n w = Inr w' \<longleftrightarrow>
     (\<exists>data. delivered es = Some data \<and> unat n = length data \<and> 1 \<le> length data \<and> length data \<le> 8388608
        \<and> length (input_disk data) \<le> room w \<and> w' = took (input_disk data) w)"
proof (cases "1 \<le> unat n \<and> unat n \<le> 8388608")
  case False
  then show ?thesis
    by (auto simp: write_input_disk_def word_less_nat_alt unat_eq_zero Suc_le_eq not_le)
next
  case True
  define pad where "pad = (512 - (8 + unat n) mod 512) mod 512"
  have "write_input_disk es n w = Inr w' \<longleftrightarrow> 8 \<le> room w \<and>
      (\<exists>es1 w1. copy_input (unat n) es (took (be64 n) w) = Inr (es1, w1) \<and> delivered es1 = Some []
         \<and> pad \<le> room w1 \<and> w' = took (replicate pad 0) w1)"
    using True
    by (auto simp: write_input_disk_def word_less_nat_alt Let_def result_simps expect_end_iff pad_def not_le)
  also have "\<dots> \<longleftrightarrow> 8 \<le> room w \<and> (\<exists>data. delivered es = Some data \<and> length data = unat n \<and> unat n \<le> room w - 8
       \<and> pad \<le> room w - 8 - length data \<and> w' = took (be64 n @ data @ replicate pad 0) w)"
    using copy_input_iff [of "unat n" es "took (be64 n) w" "\<lambda>w1. pad \<le> room w1 \<and> w' = took (replicate pad 0) w1"]
    by simp
  also have "\<dots> \<longleftrightarrow> (\<exists>data. delivered es = Some data \<and> unat n = length data \<and> 1 \<le> length data \<and> length data \<le> 8388608
        \<and> length (input_disk data) \<le> room w \<and> w' = took (input_disk data) w)"
  proof -
    have disk: "input_disk data = be64 n @ data @ replicate pad 0" if "length data = unat n" for data
      using that by (simp add: input_disk_def pad_def)
    show ?thesis
      using True by (auto simp: disk)
  qed
  finally show ?thesis .
qed

end
