(* ===== verification/OutputFiles.thy ===== *)
theory OutputFiles
  imports BlockDisk
begin

unbundle bit_operations_syntax

text \<open>
  \<open>crates/media/src/output.rs\<close> (the neutral pixel protocol, the output block disk, the thumbnail
  and the bounded PNG buffer) and \<open>canonical_replay.rs\<close>. The PNG encoder is a parameter: the list
  of the writes it makes for an image, in order; it stops at the first write that fails, as the
  encoder's own errors are passed on. The digests are parameters too.
\<close>

section \<open>Validated pixels\<close>

record ValidatedOutput =
  width :: u32
  height :: u32
  pixels :: bytes

definition dimensions :: "ValidatedOutput \<Rightarrow> u32 \<times> u32" where
  "dimensions p = (width p, height p)"

definition in_dimension :: "u32 \<Rightarrow> bool" where
  "in_dimension d \<longleftrightarrow> 1 \<le> d \<and> d \<le> MAX_DIMENSION"

definition from_validated_pixels :: "u32 \<times> u32 \<Rightarrow> bytes \<Rightarrow> ValidatedOutput media" where
  "from_validated_pixels d px =
     (let w = fst d; h = snd d in
      if \<not> in_dimension w \<or> \<not> in_dimension h \<or> length px \<noteq> unat w * unat h * 4
      then Inl InvalidOutput
      else Inr \<lparr>width = w, height = h, pixels = px\<rparr>)"

definition read_protocol :: "reader \<Rightarrow> (ValidatedOutput \<times> reader) media" where
  "read_protocol r =
     bindE (map_err Io (read_exact 16 r)) (\<lambda>(header, r).
     let w = at32 header 8; h = at32 header 12 in
     if take 8 header \<noteq> ascii ''IBRGBA01'' \<or> \<not> in_dimension w \<or> \<not> in_dimension h
     then Inl InvalidOutput
     else case Option.bind (checked_mul64 (unat w) (unat h)) (\<lambda>n. checked_mul64 n 4) of
       None \<Rightarrow> Inl InvalidOutput
     | Some bytes \<Rightarrow>
         bindE (map_err Io (read_chunks 8192 bytes [] r)) (\<lambda>(px, r).
         Inr (\<lparr>width = w, height = h, pixels = px\<rparr>, r)))"

definition read_output :: "reader \<Rightarrow> ValidatedOutput media" where
  "read_output r =
     bindE (read_protocol r) (\<lambda>(out, r).
     bindE (map_err Io (read_one r)) (\<lambda>more. if more then Inl InvalidOutput else Inr out))"

definition read_disk :: "reader \<Rightarrow> ValidatedOutput media" where
  "read_disk r =
     bindE (read_protocol r) (\<lambda>(out, r).
     case checked_sub OUTPUT_DISK_BYTES (PROTOCOL_HEADER_BYTES + length (pixels out)) of
       None \<Rightarrow> Inl InvalidOutput
     | Some remaining \<Rightarrow>
         bindE (zero_padding InvalidOutput Io 8192 remaining r) (\<lambda>r.
         bindE (map_err Io (read_one r)) (\<lambda>more. if more then Inl InvalidOutput else Inr out)))"

section \<open>Encoding\<close>

definition png_write :: "bytes \<Rightarrow> bytes \<Rightarrow> bytes media" where
  "png_write buffer bs =
     (case checked_add64 (length buffer) (length bs) of
       None \<Rightarrow> Inl Encoding
     | Some n \<Rightarrow> if n \<le> MAX_PNG_BYTES then Inr (buffer @ bs) else Inl Encoding)"

record EncodedOutput =
  png_bytes :: bytes
  png_sha256 :: bytes
  png_md5 :: bytes
  png_dimensions :: "u32 \<times> u32"

record encoder =
  png_writes :: "u32 \<times> u32 \<Rightarrow> bytes \<Rightarrow> bytes list"
  sha256 :: "bytes \<Rightarrow> bytes"
  md5 :: "bytes \<Rightarrow> bytes"

definition encode_png :: "encoder \<Rightarrow> ValidatedOutput \<Rightarrow> bytes media" where
  "encode_png enc p = foldE png_write [] (png_writes enc (dimensions p) (pixels p))"

definition encode :: "encoder \<Rightarrow> ValidatedOutput \<Rightarrow> EncodedOutput media" where
  "encode enc p =
     bindE (encode_png enc p) (\<lambda>bs.
     Inr \<lparr>png_bytes = bs, png_sha256 = concat (map hex2 (sha256 enc bs)),
          png_md5 = concat (map hex2 (md5 enc bs)), png_dimensions = dimensions p\<rparr>)"

section \<open>The thumbnail\<close>

text \<open>\<open>a..b\<close> over \<open>u32\<close>.\<close>

definition range32 :: "u32 \<Rightarrow> u32 \<Rightarrow> u32 list" where
  "range32 a b = map of_nat [unat a ..< unat b]"

type_synonym sums = "u64 \<times> u64 \<times> u64 \<times> u64"

definition add_sample :: "ValidatedOutput \<Rightarrow> u32 \<Rightarrow> sums \<Rightarrow> u32 \<Rightarrow> MediaError stop + sums" where
  "add_sample p sy acc sx =
     (let offset = unat ((sy * width p + sx) * 4); (r, g, b, a) = acc in
      if length (pixels p) \<le> offset + 3 then Inl Panicked
      else let alpha = ucast (pixels p ! (offset + 3)) :: u64 in
        Inr (r + ucast (pixels p ! offset) * alpha, g + ucast (pixels p ! (offset + 1)) * alpha,
             b + ucast (pixels p ! (offset + 2)) * alpha, a + alpha))"

definition area_sums :: "ValidatedOutput \<Rightarrow> u32 \<Rightarrow> u32 \<Rightarrow> u32 \<Rightarrow> u32 \<Rightarrow> MediaError stop + sums" where
  "area_sums p top_row bottom left right =
     foldE (\<lambda>acc sy. foldE (add_sample p sy) acc (range32 left right)) (0, 0, 0, 0) (range32 top_row bottom)"

definition mean_pixel :: "sums \<Rightarrow> u32 \<Rightarrow> MediaError stop + bytes" where
  "mean_pixel acc area =
     (let (r, g, b, a) = acc;
          channel = (\<lambda>value. if a = 0 then 0 else ucast (value div a)) in
      if (ucast area :: u64) = 0 then Inl Panicked
      else Inr [channel r, channel g, channel b, ucast (a div ucast area)])"

definition thumbnail_pixel :: "ValidatedOutput \<Rightarrow> u32 \<Rightarrow> u32 \<Rightarrow> u32 \<Rightarrow> u32 \<Rightarrow> MediaError stop + bytes" where
  "thumbnail_pixel p w top_row bottom x =
     (let left = x * width p div w; right = max ((x + 1) * width p div w) (left + 1) in
      bindE (area_sums p top_row bottom left right) (\<lambda>acc.
      mean_pixel acc ((right - left) * (bottom - top_row))))"

definition thumbnail_row :: "ValidatedOutput \<Rightarrow> u32 \<Rightarrow> u32 \<Rightarrow> u32 \<Rightarrow> MediaError stop + bytes" where
  "thumbnail_row p w h y =
     (let top_row = y * height p div h; bottom = max ((y + 1) * height p div h) (top_row + 1) in
      bindE (mapE (thumbnail_pixel p w top_row bottom) (range32 0 w)) (\<lambda>row. Inr (concat row)))"

definition thumbnail_pixels :: "ValidatedOutput \<Rightarrow> MediaError stop + ValidatedOutput" where
  "thumbnail_pixels p =
     (let longest = max (width p) (height p);
          w = max (width p * 250 div longest) 1; h = max (height p * 250 div longest) 1 in
      bindE (mapE (thumbnail_row p w h) (range32 0 h)) (\<lambda>rows.
      Inr \<lparr>width = w, height = h, pixels = concat rows\<rparr>))"

definition thumbnail :: "encoder \<Rightarrow> ValidatedOutput \<Rightarrow> MediaError stop + EncodedOutput" where
  "thumbnail enc p =
     (if max (width p) (height p) \<le> 250 then map_err Refused (encode enc p)
      else bindE (thumbnail_pixels p) (\<lambda>t. map_err Refused (encode enc t)))"

section \<open>Canonical replays\<close>

record CanonicalReplay =
  replay_wire_bytes :: bytes
  replay_sha256 :: bytes
  replay_dimensions :: "u16 \<times> u16"

definition check_canonical :: "(nat \<Rightarrow> bool) \<Rightarrow> (bytes \<Rightarrow> bytes) \<Rightarrow> bytes \<Rightarrow> CanonicalReplay media" where
  "check_canonical mem digest bs =
     bindE (map_err (\<lambda>_. InvalidOutput) (ReplayWire.decode mem bs)) (\<lambda>replay.
     bindE (map_err (\<lambda>_. InvalidOutput) (ReplayEnvelope.check replay)) (\<lambda>_.
     Inr \<lparr>replay_wire_bytes = bs, replay_sha256 = concat (map hex2 (digest bs)),
          replay_dimensions = (UntrustedReplayMetadata.width (UntrustedReplay.metadata replay),
                               UntrustedReplayMetadata.height (UntrustedReplay.metadata replay))\<rparr>))"

section \<open>The pixel protocol\<close>

definition valid_output :: "ValidatedOutput \<Rightarrow> bool" where
  "valid_output p \<longleftrightarrow> pixels_ok (dimensions p) (pixels p)"

definition output_bytes :: "ValidatedOutput \<Rightarrow> bytes" where
  "output_bytes p = pixel_block (dimensions p) (pixels p)"

lemma from_validated_pixels_iff:
  "from_validated_pixels d px = Inr p \<longleftrightarrow> pixels_ok d px \<and> p = \<lparr>width = fst d, height = snd d, pixels = px\<rparr>"
  by (auto simp: from_validated_pixels_def Let_def in_dimension_def pixels_ok_def)

lemma pixel_length_fits:
  assumes "in_dimension w" "in_dimension h"
  shows "Option.bind (checked_mul64 (unat w) (unat h)) (\<lambda>n. checked_mul64 n 4) = Some (unat w * unat h * 4)"
proof -
  have "unat w * unat h * 4 \<le> 4194304"
    using pixel_bound [of w h] assms by (simp add: in_dimension_def)
  moreover have "n * 4 \<le> 4194304 \<Longrightarrow> n < 2 ^ 64 \<and> n * 4 < 2 ^ 64" for n :: nat
    by simp
  ultimately have "unat w * unat h < 2 ^ 64" "unat w * unat h * 4 < 2 ^ 64"
    by blast+
  then show ?thesis
    by (simp only: checked_mul64_def if_True bind.simps)
qed

lemma pixel_header:
  assumes "length hdr = 16"
  shows "hdr = take 8 hdr @ be32 (at32 hdr 8) @ be32 (at32 hdr 12)"
  using pixel_split [of hdr] assms by simp

lemma read_protocol_iff:
  "read_protocol r = Inr (p, r') \<longleftrightarrow> valid_output p \<and> fst r = output_bytes p @ fst r' \<and> snd r' = snd r"
proof
  assume "read_protocol r = Inr (p, r')"
  then obtain hdr s where h: "fst r = hdr @ fst s" "length hdr = 16" "snd s = snd r"
      "take 8 hdr = ascii ''IBRGBA01''" "in_dimension (at32 hdr 8)" "in_dimension (at32 hdr 12)"
      "width p = at32 hdr 8" "height p = at32 hdr 12"
      "fst s = pixels p @ fst r'" "length (pixels p) = unat (width p) * unat (height p) * 4" "snd r' = snd s"
    by (auto simp: read_protocol_def result_simps Let_def pixel_length_fits read_chunks_exact split: if_split_asm)
  have "hdr = ascii ''IBRGBA01'' @ be32 (width p) @ be32 (height p)"
    using pixel_header [OF h(2)] unfolding h(4,7,8) .
  then have "fst r = output_bytes p @ fst r'"
    using h(1,9) by (simp add: output_bytes_def pixel_block_def dimensions_def)
  with h show "valid_output p \<and> fst r = output_bytes p @ fst r' \<and> snd r' = snd r"
    by (simp add: valid_output_def pixels_ok_def dimensions_def in_dimension_def)
next
  assume a: "valid_output p \<and> fst r = output_bytes p @ fst r' \<and> snd r' = snd r"
  define hdr where "hdr = ascii ''IBRGBA01'' @ be32 (width p) @ be32 (height p)"
  define s where "s = (pixels p @ fst r', snd r)"
  have "read_exact 16 r = Inr (hdr, s)"
    using a by (simp add: read_exact_iff hdr_def s_def output_bytes_def pixel_block_def dimensions_def)
  moreover have "take 8 hdr = ascii ''IBRGBA01''" "at32 hdr 8 = width p" "at32 hdr 12 = height p"
    using at32_field [of "ascii ''IBRGBA01''" 8 "width p" "be32 (height p)"]
      at32_field [of "ascii ''IBRGBA01'' @ be32 (width p)" 12 "height p" "[]"]
    by (simp_all add: hdr_def)
  moreover have d: "in_dimension (width p)" "in_dimension (height p)"
      "length (pixels p) = unat (width p) * unat (height p) * 4"
    using a by (auto simp: valid_output_def pixels_ok_def dimensions_def in_dimension_def)
  moreover have "read_chunks 8192 (unat (width p) * unat (height p) * 4) [] s = Inr (pixels p, r')"
    using a d(3) by (cases r') (auto simp: read_chunks_exact result_simps s_def)
  ultimately show "read_protocol r = Inr (p, r')"
    by (simp add: read_protocol_def pixel_length_fits)
qed

interpretation pixel_protocol: stream_format output_bytes valid_output read_protocol
  by unfold_locales (rule read_protocol_iff)

lemma length_output: "valid_output p \<Longrightarrow> 16 + length (pixels p) \<le> 4194816 - 496"
  using pixels_ok_length by (fastforce simp: valid_output_def)

lemma read_output_iff: "read_output r = Inr p \<longleftrightarrow> valid_output p \<and> r = (output_bytes p, False)"
  unfolding read_output_def by (rule pixel_protocol.read_to_end)

definition output_disk :: "ValidatedOutput \<Rightarrow> bytes" where
  "output_disk p = output_bytes p @ replicate (4194816 - (16 + length (pixels p))) 0"

lemma read_disk_iff: "read_disk r = Inr p \<longleftrightarrow> valid_output p \<and> r = (output_disk p, False)"
proof -
  have "read_disk r = bindE (read_protocol r) (\<lambda>(a, s).
      bindE (zero_padding InvalidOutput Io 8192 (4194816 - (16 + length (pixels a))) s) (\<lambda>s.
      bindE (map_err Io (read_one s)) (\<lambda>more. if more then Inl InvalidOutput else Inr a)))"
  proof (cases "read_protocol r")
    case (Inr y)
    obtain a s where y: "y = (a, s)" by (cases y)
    with Inr have "valid_output a" by (simp add: read_protocol_iff)
    then show ?thesis
      using length_output [of a] unfolding read_disk_def Inr y by (simp add: checked_sub_def)
  qed (simp add: read_disk_def)
  also have "\<dots> = Inr p \<longleftrightarrow> valid_output p \<and> r = (output_disk p, False)"
    unfolding output_disk_def by (rule pixel_protocol.read_padded) simp
  finally show ?thesis .
qed

section \<open>The bounded buffer\<close>

lemma png_write_bound: "png_write buf bs = Inr buf' \<Longrightarrow> length buf' \<le> 5242880 \<and> buf' = buf @ bs"
  by (auto simp: png_write_def split: option.split_asm if_split_asm simp: checked_add64_def)

lemma png_writes_bound:
  "foldE png_write buf ws = Inr buf' \<Longrightarrow> length buf \<le> 5242880 \<Longrightarrow> length buf' \<le> 5242880 \<and> buf' = buf @ concat ws"
proof (induction ws arbitrary: buf)
  case (Cons w ws)
  then obtain mid where mid: "png_write buf w = Inr mid" "foldE png_write mid ws = Inr buf'"
    by (auto simp: result_simps)
  then show ?case
    using png_write_bound [OF mid(1)] Cons.IH [OF mid(2)] by (simp only: append_assoc concat.simps) blast
qed simp

lemma encode_bound:
  "encode enc p = Inr e \<Longrightarrow> length (png_bytes e) \<le> 5242880 \<and> png_dimensions e = dimensions p
     \<and> png_bytes e = concat (png_writes enc (dimensions p) (pixels p))"
  by (auto simp: encode_def encode_png_def result_simps dest!: png_writes_bound)

section \<open>Canonical replays\<close>

lemma check_canonical_iff:
  "check_canonical mem digest bs = Inr c \<longleftrightarrow>
     (\<exists>r. in_envelope r \<and> length (UntrustedReplay.tools r) = 8 \<and> bs = wire_bytes r
        \<and> mem (length (UntrustedReplay.events r))
        \<and> c = \<lparr>replay_wire_bytes = bs, replay_sha256 = concat (map hex2 (digest bs)),
            replay_dimensions = (UntrustedReplayMetadata.width (UntrustedReplay.metadata r),
                                 UntrustedReplayMetadata.height (UntrustedReplay.metadata r))\<rparr>)"
proof -
  have both: "wire_ok r \<and> ReplayEnvelope.check r = Inr r' \<longleftrightarrow>
      r' = r \<and> in_envelope r \<and> length (UntrustedReplay.tools r) = 8" for r r'
  proof
    assume "wire_ok r \<and> ReplayEnvelope.check r = Inr r'"
    moreover from this have "length (UntrustedReplay.tools r) = 8"
      by (simp add: wire_ok_def)
    ultimately show "r' = r \<and> in_envelope r \<and> length (UntrustedReplay.tools r) = 8"
      using ReplayEnvelope.check_iff by blast
  qed (use in_envelope_wire_ok ReplayEnvelope.check_iff in blast)
  have "check_canonical mem digest bs = Inr c \<longleftrightarrow>
      (\<exists>r r'. (wire_ok r \<and> ReplayEnvelope.check r = Inr r') \<and> wire_bytes r = bs
        \<and> mem (length (UntrustedReplay.events r))
        \<and> c = \<lparr>replay_wire_bytes = bs, replay_sha256 = concat (map hex2 (digest bs)),
            replay_dimensions = (UntrustedReplayMetadata.width (UntrustedReplay.metadata r),
                                 UntrustedReplayMetadata.height (UntrustedReplay.metadata r))\<rparr>)"
    by (auto simp: check_canonical_def result_simps ReplayWire.decode_iff)
  then show ?thesis
    unfolding both by blast
qed

end
