(* ===== verification/Thumbnail.thy ===== *)
theory Thumbnail
  imports OutputFiles
begin

text \<open>
  The thumbnail of \<open>crates/media/src/output.rs\<close> against its specification in unbounded
  arithmetic: the image is cut into a grid of cells, one per thumbnail pixel, that partitions the
  source; each pixel is the alpha-weighted mean of its cell. No index is out of range, no division
  is by zero, nothing wraps in \<open>u32\<close> or \<open>u64\<close> and no cast to \<open>u8\<close> truncates.
\<close>

section \<open>Specification\<close>

definition sample :: "ValidatedOutput \<Rightarrow> nat \<Rightarrow> nat \<Rightarrow> nat \<Rightarrow> nat" where
  "sample p x y c = unat (pixels p ! ((y * unat (width p) + x) * 4 + c))"

definition weighted :: "ValidatedOutput \<Rightarrow> nat list \<Rightarrow> nat list \<Rightarrow> nat \<Rightarrow> nat" where
  "weighted p xs ys c = (\<Sum>y\<leftarrow>ys. \<Sum>x\<leftarrow>xs. sample p x y c * sample p x y 3)"

definition opacity :: "ValidatedOutput \<Rightarrow> nat list \<Rightarrow> nat list \<Rightarrow> nat" where
  "opacity p xs ys = (\<Sum>y\<leftarrow>ys. \<Sum>x\<leftarrow>xs. sample p x y 3)"

text \<open>The \<open>i\<close>-th of \<open>k\<close> cells of \<open>[0..<n]\<close>.\<close>

definition cell :: "nat \<Rightarrow> nat \<Rightarrow> nat \<Rightarrow> nat list" where
  "cell n k i = [i * n div k ..< (i + 1) * n div k]"

definition mean_spec :: "ValidatedOutput \<Rightarrow> nat list \<Rightarrow> nat list \<Rightarrow> nat list" where
  "mean_spec p xs ys =
     (let a = opacity p xs ys; c = (\<lambda>i. if a = 0 then 0 else weighted p xs ys i div a) in
      [c 0, c 1, c 2, a div (length xs * length ys)])"

definition scaled :: "nat \<Rightarrow> nat \<Rightarrow> nat" where
  "scaled n longest = max 1 (n * 250 div longest)"

definition thumbnail_spec :: "ValidatedOutput \<Rightarrow> nat list" where
  "thumbnail_spec p =
     (let m = unat (width p); n = unat (height p); w = scaled m (max m n); h = scaled n (max m n) in
      concat (map (\<lambda>y. concat (map (\<lambda>x. mean_spec p (cell m w x) (cell n h y)) [0..<w])) [0..<h]))"

section \<open>The cells partition the image\<close>

lemma cell_step:
  fixes n k i :: nat
  assumes "1 \<le> k" and "k \<le> n"
  shows "i * n div k + 1 \<le> (i + 1) * n div k"
proof -
  have "i * n div k + 1 = (i * n + k) div k"
    using assms div_add_self2 [of k "i * n"] by simp
  also have "\<dots> \<le> (i + 1) * n div k"
    using assms by (intro div_le_mono) simp
  finally show ?thesis .
qed

lemma cell_end:
  fixes n k i :: nat
  assumes "i < k"
  shows "(i + 1) * n div k \<le> n"
proof -
  have "(i + 1) * n div k \<le> k * n div k"
    using assms by (intro div_le_mono mult_le_mono1) simp
  then show ?thesis using assms by simp
qed

lemma cells_partition:
  assumes "1 \<le> k"
  shows "concat (map (cell n k) [0..<k]) = [0..<n]"
proof -
  have "concat (map (cell n k) [0..<j]) = [0..<j * n div k]" for j
  proof (induction j)
    case (Suc j)
    have "j * n div k \<le> Suc j * n div k"
      by (intro div_le_mono) simp
    then show ?case
      using Suc upt_add_eq_append [of 0 "j * n div k" "Suc j * n div k - j * n div k"]
      by (simp add: cell_def)
  qed simp
  then show ?thesis
    using assms by simp
qed

lemma cell_facts:
  assumes "1 \<le> k" "k \<le> n" "i < k"
  shows "cell n k i \<noteq> []" "x \<in> set (cell n k i) \<Longrightarrow> x < n" "length (cell n k i) \<le> n"
  using cell_step [OF assms(1,2), of i] cell_end [OF assms(3), of n]
  by (auto simp: cell_def)

lemma scaled_facts:
  assumes "1 \<le> n" "n \<le> longest" "250 < longest"
  shows "1 \<le> scaled n longest" "scaled n longest \<le> 250" "scaled n longest \<le> n"
proof -
  have "n * 250 div longest \<le> longest * 250 div longest"
    using assms by (intro div_le_mono) simp
  then have a: "n * 250 div longest \<le> 250" using assms by simp
  have "n * 250 div longest \<le> n * longest div longest"
    using assms by (intro div_le_mono) simp
  then have b: "n * 250 div longest \<le> n" using assms by simp
  show "1 \<le> scaled n longest" "scaled n longest \<le> 250" "scaled n longest \<le> n"
    using a b assms by (auto simp: scaled_def)
qed

section \<open>Sums\<close>

lemma byte_bound: "unat (b :: u8) \<le> 255"
proof -
  have "unat b < 2 ^ LENGTH(8)" by (rule unsigned_less)
  then show ?thesis by simp
qed

lemma weighted_bound: "weighted p xs ys c \<le> 255 * opacity p xs ys"
proof -
  have s: "sample p x y c \<le> 255" for x y
    unfolding sample_def by (rule byte_bound)
  have "(\<Sum>x\<leftarrow>xs. sample p x y c * sample p x y 3) \<le> 255 * (\<Sum>x\<leftarrow>xs. sample p x y 3)" for y
    using s by (induction xs) (auto intro!: add_mono simp: distrib_left)
  then show ?thesis
    unfolding weighted_def opacity_def by (induction ys) (auto intro!: add_mono simp: distrib_left)
qed

lemma opacity_bound: "opacity p xs ys \<le> 255 * (length xs * length ys)"
proof -
  have s: "sample p x y 3 \<le> 255" for x y
    unfolding sample_def by (rule byte_bound)
  have "(\<Sum>x\<leftarrow>xs. sample p x y 3) \<le> 255 * length xs" for y
    using s by (induction xs) (auto intro!: add_mono)
  then show ?thesis
    unfolding opacity_def by (induction ys) (auto intro!: add_mono simp: distrib_left)
qed

section \<open>The code's loops\<close>

lemma mapE_map_Inr: "(\<And>i. i \<in> set xs \<Longrightarrow> f (h i) = Inr (g i)) \<Longrightarrow> mapE f (map h xs) = Inr (map g xs)"
  by (induction xs) simp_all

lemma unat32: "n < 4294967296 \<Longrightarrow> unat (of_nat n :: u32) = n"
  by (simp add: unsigned_of_nat take_bit_eq_mod)

lemma unat64: "n < 18446744073709551616 \<Longrightarrow> unat (of_nat n :: u64) = n"
  by (simp add: unsigned_of_nat take_bit_eq_mod)

lemma div32: "a < 4294967296 \<Longrightarrow> b < 4294967296 \<Longrightarrow> (of_nat a :: u32) div of_nat b = of_nat (a div b)"
  by (simp add: word_arith_nat_div unat32)

lemma max32:
  assumes "a < 4294967296" "b < 4294967296"
  shows "max (of_nat a :: u32) (of_nat b) = of_nat (max a b)"
  using assms by (simp add: max_def word_le_nat_alt unat32)

lemma range32_upt: "a < 4294967296 \<Longrightarrow> b < 4294967296 \<Longrightarrow> range32 (of_nat a) (of_nat b) = map of_nat [a..<b]"
  by (simp add: range32_def unat32)

definition sums_of :: "nat \<Rightarrow> nat \<Rightarrow> nat \<Rightarrow> nat \<Rightarrow> sums" where
  "sums_of r g b a = (of_nat r, of_nat g, of_nat b, of_nat a)"

lemma valid_size:
  assumes "valid_output p"
  shows "1 \<le> unat (width p)" "unat (width p) \<le> 1024" "1 \<le> unat (height p)" "unat (height p) \<le> 1024"
    "length (pixels p) = unat (width p) * unat (height p) * 4"
  using assms by (simp_all add: valid_output_def pixels_ok_def dimensions_def word_le_nat_alt)

lemma index_in: "q + 1 \<le> n \<Longrightarrow> q * 4 + 3 < n * (4 :: nat)"
  by simp

lemma index_small: "q + 1 \<le> n \<Longrightarrow> n \<le> 1024 * 1024 \<Longrightarrow> q * 4 < (4294967296 :: nat)"
  by simp

lemma pixel_offset:
  assumes "valid_output p" "x < unat (width p)" "y < unat (height p)"
  shows "(y * unat (width p) + x) * 4 + 3 < length (pixels p)"
    "unat ((of_nat y * width p + of_nat x) * 4) = (y * unat (width p) + x) * 4"
proof -
  have "y * unat (width p) + x + 1 \<le> (y + 1) * unat (width p)"
    using assms by simp
  also have "\<dots> \<le> unat (height p) * unat (width p)"
    using assms by (intro mult_le_mono1) simp
  finally have le: "y * unat (width p) + x + 1 \<le> unat (width p) * unat (height p)"
    by (simp add: mult.commute)
  then show "(y * unat (width p) + x) * 4 + 3 < length (pixels p)"
    unfolding valid_size(5) [OF assms(1)] by (rule index_in)
  have "unat (width p) * unat (height p) \<le> 1024 * 1024"
    using valid_size [OF assms(1)] by (intro mult_le_mono)
  then have "(y * unat (width p) + x) * 4 < 4294967296"
    by (rule index_small [OF le])
  moreover have "(of_nat y * width p + of_nat x) * 4 = (of_nat ((y * unat (width p) + x) * 4) :: u32)"
    by simp
  ultimately show "unat ((of_nat y * width p + of_nat x) * 4) = (y * unat (width p) + x) * 4"
    by (simp only: unat32)
qed

lemma byte64: "(ucast (b :: u8) :: u64) = of_nat (unat b)"
  by simp

lemma add_sample_sum:
  assumes "valid_output p" "x < unat (width p)" "y < unat (height p)"
  shows "add_sample p (of_nat y) (sums_of r g b a) (of_nat x) =
    Inr (sums_of (r + sample p x y 0 * sample p x y 3) (g + sample p x y 1 * sample p x y 3)
      (b + sample p x y 2 * sample p x y 3) (a + sample p x y 3))"
proof -
  define i where "i = (y * unat (width p) + x) * 4"
  have i: "unat ((of_nat y * width p + of_nat x) * 4) = i" "\<not> length (pixels p) \<le> i + 3"
    using pixel_offset [OF assms] unfolding i_def by simp_all
  have s: "sample p x y c = unat (pixels p ! (i + c))" for c
    by (simp add: sample_def i_def)
  show ?thesis
    unfolding add_sample_def sums_of_def Let_def prod.case i(1) s
    by (simp only: i(2) if_False byte64 of_nat_add of_nat_mult add_0_right)
qed

lemma row_sums:
  assumes "valid_output p" "\<forall>x\<in>set xs. x < unat (width p)" "y < unat (height p)"
  shows "foldE (add_sample p (of_nat y)) (sums_of r g b a) (map of_nat xs) =
    Inr (sums_of (r + (\<Sum>x\<leftarrow>xs. sample p x y 0 * sample p x y 3)) (g + (\<Sum>x\<leftarrow>xs. sample p x y 1 * sample p x y 3))
      (b + (\<Sum>x\<leftarrow>xs. sample p x y 2 * sample p x y 3)) (a + (\<Sum>x\<leftarrow>xs. sample p x y 3)))"
  using assms(2)
  by (induction xs arbitrary: r g b a) (simp_all add: add_sample_sum [OF assms(1) _ assms(3)] add.assoc)

lemma cell_sums:
  assumes "valid_output p" "\<forall>x\<in>set xs. x < unat (width p)" "\<forall>y\<in>set ys. y < unat (height p)"
  shows "foldE (\<lambda>acc sy. foldE (add_sample p sy) acc (map of_nat xs)) (sums_of r g b a) (map of_nat ys) =
    Inr (sums_of (r + weighted p xs ys 0) (g + weighted p xs ys 1) (b + weighted p xs ys 2) (a + opacity p xs ys))"
  using assms(3)
  by (induction ys arbitrary: r g b a)
    (simp_all add: row_sums [OF assms(1,2)] weighted_def opacity_def add.assoc)

lemma byte_of_quotient:
  assumes "r \<le> 255 * a" "a < 2 ^ 32" "0 < a"
  shows "unat (ucast ((of_nat r :: u64) div of_nat a) :: u8) = r div a"
proof -
  have q: "r div a \<le> 255"
    using assms div_le_mono [of r "255 * a" a] by simp
  have "unat ((of_nat r :: u64) div of_nat a) = r div a"
    using assms by (simp add: unat_div unat64)
  then show ?thesis
    using q by (simp add: unsigned_ucast_eq take_bit_eq_mod)
qed

lemma mean_pixel_spec:
  assumes "xs \<noteq> []" "ys \<noteq> []" "length xs \<le> 1024" "length ys \<le> 1024"
  shows "\<exists>q. mean_pixel (sums_of (weighted p xs ys 0) (weighted p xs ys 1) (weighted p xs ys 2) (opacity p xs ys))
      (of_nat (length xs * length ys)) = Inr q \<and> map unat q = mean_spec p xs ys"
proof -
  define n where "n = length xs * length ys"
  define a where "a = opacity p xs ys"
  have "n \<le> 1024 * 1024"
    unfolding n_def using assms by (intro mult_le_mono)
  moreover have "0 < n"
    using assms by (simp add: n_def)
  ultimately have n: "n \<le> 1048576" "0 < n" by simp_all
  have a: "a \<le> 255 * n"
    unfolding a_def n_def by (rule opacity_bound)
  then have small: "a < 2 ^ 32" using n by simp
  have zero: "(of_nat a :: u64) = 0 \<longleftrightarrow> a = 0"
    using small unat64 [of a] by (auto simp: word_unat_eq_iff)
  have n64: "(ucast (of_nat n :: u32) :: u64) = of_nat n" "(of_nat n :: u64) \<noteq> 0"
    using n unat32 [of n] unat64 [of n] by (auto simp: word_unat_eq_iff unsigned_ucast_eq take_bit_eq_mod)
  have c: "unat (if (of_nat a :: u64) = 0 then 0 else ucast ((of_nat (weighted p xs ys i) :: u64) div of_nat a) :: u8)
      = (if a = 0 then 0 else weighted p xs ys i div a)" for i
    using byte_of_quotient [of "weighted p xs ys i" a] weighted_bound [of p xs ys i] small
    unfolding zero a_def [symmetric] by simp
  have "unat (ucast ((of_nat a :: u64) div of_nat n) :: u8) = a div n"
    using a n by (intro byte_of_quotient) simp_all
  then show ?thesis
    unfolding a_def [symmetric] n_def [symmetric] mean_pixel_def sums_of_def mean_spec_def Let_def prod.case
    using c n64 by simp
qed

text \<open>The code's bounds of a cell, in \<open>u32\<close>.\<close>

lemma cell_edges:
  assumes "1 \<le> k" "k \<le> n" "n \<le> 1024" "i < k"
  shows "(of_nat i * of_nat n :: u32) div of_nat k = of_nat (i * n div k)"
    "max ((of_nat i + 1) * of_nat n div of_nat k) (of_nat (i * n div k) + 1) = (of_nat ((i + 1) * n div k) :: u32)"
proof -
  have b: "(i + 1) * n \<le> 1024 * 1024" "i * n \<le> 1024 * 1024"
    using assms by (intro mult_le_mono; simp)+
  then have small: "(i + 1) * n < 4294967296" "i * n < 4294967296" "k < 4294967296"
    using assms by simp_all
  show "(of_nat i * of_nat n :: u32) div of_nat k = of_nat (i * n div k)"
    using div32 [OF small(2,3)] by (simp only: of_nat_mult)
  have e: "(of_nat i + 1) * of_nat n div of_nat k = (of_nat ((i + 1) * n div k) :: u32)"
    using div32 [OF small(1,3)] by (simp only: of_nat_mult of_nat_add of_nat_1)
  have q: "i * n div k + 1 \<le> (i + 1) * n div k"
    using assms by (intro cell_step)
  have l: "(i + 1) * n div k \<le> n"
    using assms by (intro cell_end)
  have "max (of_nat ((i + 1) * n div k) :: u32) (of_nat (i * n div k + 1)) = of_nat (max ((i + 1) * n div k) (i * n div k + 1))"
    using q l assms by (intro max32) simp_all
  also have "\<dots> = of_nat ((i + 1) * n div k)"
    using q by (simp only: max_absorb1)
  finally show "max ((of_nat i + 1) * of_nat n div of_nat k) (of_nat (i * n div k) + 1) = (of_nat ((i + 1) * n div k) :: u32)"
    unfolding e by (simp only: of_nat_add of_nat_1)
qed

lemma area_word:
  assumes "a \<le> b" "c \<le> d"
  shows "(of_nat b - of_nat a) * (of_nat d - of_nat c) = (of_nat ((b - a) * (d - c)) :: u32)"
  using assms by (simp only: of_nat_mult of_nat_diff)

lemma thumbnail_pixel_spec:
  assumes p: "valid_output p" and m: "m = unat (width p)" and n: "n = unat (height p)"
    and w: "1 \<le> w" "w \<le> m" "x < w" and h: "1 \<le> h" "h \<le> n" "y < h"
  shows "\<exists>q. thumbnail_pixel p (of_nat w) (of_nat (y * n div h)) (of_nat ((y + 1) * n div h)) (of_nat x) = Inr q
     \<and> map unat q = mean_spec p (cell m w x) (cell n h y)"
proof -
  have sizes: "m \<le> 1024" "n \<le> 1024" and wd: "width p = of_nat m"
    using valid_size [OF p] by (simp_all add: m n)
  note ex = cell_edges [OF w(1,2) sizes(1) w(3)] 
  have bounds: "x * m div w \<le> (x + 1) * m div w" "(x + 1) * m div w \<le> m"
      "y * n div h \<le> (y + 1) * n div h" "(y + 1) * n div h \<le> n"
    using cell_step [OF w(1,2), of x] cell_step [OF h(1,2), of y] cell_end [OF w(3), of m] cell_end [OF h(3), of n]
    by simp_all
  have ranges: "range32 (of_nat (x * m div w)) (of_nat ((x + 1) * m div w)) = map of_nat (cell m w x)"
      "range32 (of_nat (y * n div h)) (of_nat ((y + 1) * n div h)) = map of_nat (cell n h y)"
    using bounds sizes unfolding cell_def by (intro range32_upt; linarith)+
  have cx: "\<forall>i\<in>set (cell m w x). i < unat (width p)" and cy: "\<forall>i\<in>set (cell n h y). i < unat (height p)"
    using cell_facts(2) [OF w] cell_facts(2) [OF h] unfolding m n by blast+
  have zero: "(0, 0, 0, 0) = sums_of 0 0 0 0"
    by (simp add: sums_of_def)
  have sums: "area_sums p (of_nat (y * n div h)) (of_nat ((y + 1) * n div h)) (of_nat (x * m div w)) (of_nat ((x + 1) * m div w))
      = Inr (sums_of (weighted p (cell m w x) (cell n h y) 0) (weighted p (cell m w x) (cell n h y) 1)
          (weighted p (cell m w x) (cell n h y) 2) (opacity p (cell m w x) (cell n h y)))"
    unfolding area_sums_def ranges zero using cell_sums [OF p cx cy, of 0 0 0 0] by simp
  have area: "(of_nat ((x + 1) * m div w) - of_nat (x * m div w)) * (of_nat ((y + 1) * n div h) - of_nat (y * n div h))
      = (of_nat (length (cell m w x) * length (cell n h y)) :: u32)"
    unfolding area_word [OF bounds(1,3)] cell_def length_upt ..
  have ne: "cell m w x \<noteq> []" "cell n h y \<noteq> []" "length (cell m w x) \<le> 1024" "length (cell n h y) \<le> 1024"
    using cell_facts(1,3) [OF w] cell_facts(1,3) [OF h] sizes by auto
  show ?thesis
    unfolding thumbnail_pixel_def wd ex Let_def sums bindE_Inr area by (rule mean_pixel_spec [OF ne])
qed

lemma mapE_exists:
  assumes "\<And>i. i \<in> set xs \<Longrightarrow> \<exists>q. f (h i) = Inr q \<and> P i q"
  shows "\<exists>qs. mapE f (map h xs) = Inr qs \<and> list_all2 P xs qs"
  using assms
proof (induction xs)
  case (Cons i xs)
  then obtain q qs where "f (h i) = Inr q" "P i q" "mapE f (map h xs) = Inr qs" "list_all2 P xs qs"
    by (metis list.set_intros)
  then show ?case by simp
qed simp

lemma concat_rel:
  "list_all2 (\<lambda>i q. map unat q = g i) xs qs \<Longrightarrow> map unat (concat qs) = concat (map g xs)"
  by (induction rule: list_all2_induct) simp_all

lemma thumbnail_row_spec:
  assumes p: "valid_output p" and m: "m = unat (width p)" and n: "n = unat (height p)"
    and w: "1 \<le> w" "w \<le> m" and h: "1 \<le> h" "h \<le> n" "y < h"
  shows "\<exists>q. thumbnail_row p (of_nat w) (of_nat h) (of_nat y) = Inr q
     \<and> map unat q = concat (map (\<lambda>x. mean_spec p (cell m w x) (cell n h y)) [0..<w])"
proof -
  have sizes: "m \<le> 1024" "n \<le> 1024" and ht: "height p = of_nat n"
    using valid_size [OF p] by (simp_all add: m n)
  note ey = cell_edges [OF h(1,2) sizes(2) h(3)]
  have "range32 0 (of_nat w) = map of_nat [0..<w]"
    using range32_upt [of 0 w] w sizes by simp
  moreover obtain qs where
      "mapE (thumbnail_pixel p (of_nat w) (of_nat (y * n div h)) (of_nat ((y + 1) * n div h))) (map of_nat [0..<w]) = Inr qs"
      "list_all2 (\<lambda>x q. map unat q = mean_spec p (cell m w x) (cell n h y)) [0..<w] qs"
    using mapE_exists [of "[0..<w]" "thumbnail_pixel p (of_nat w) (of_nat (y * n div h)) (of_nat ((y + 1) * n div h))"
        of_nat "\<lambda>x q. map unat q = mean_spec p (cell m w x) (cell n h y)"]
      thumbnail_pixel_spec [OF p m n w _ h] by auto
  ultimately show ?thesis
    unfolding thumbnail_row_def ht ey Let_def by (simp add: concat_rel)
qed

theorem thumbnail_pixels_spec:
  assumes p: "valid_output p" and big: "\<not> max (width p) (height p) \<le> 250"
  shows "\<exists>t. thumbnail_pixels p = Inr t \<and> valid_output t
     \<and> unat (width t) = scaled (unat (width p)) (max (unat (width p)) (unat (height p)))
     \<and> unat (height t) = scaled (unat (height p)) (max (unat (width p)) (unat (height p)))
     \<and> unat (width t) \<le> 250 \<and> unat (height t) \<le> 250
     \<and> map unat (pixels t) = thumbnail_spec p"
proof -
  define m n l where "m = unat (width p)" and "n = unat (height p)" and "l = max m n"
  define w h where "w = scaled m l" and "h = scaled n l"
  have wd: "width p = of_nat m" "height p = of_nat n"
    by (simp_all add: m_def n_def)
  have sz: "1 \<le> m" "m \<le> 1024" "1 \<le> n" "n \<le> 1024"
    using valid_size [OF p] by (simp_all add: m_def n_def)
  have longest: "max (width p) (height p) = of_nat l"
    unfolding wd l_def using sz by (intro max32) simp_all
  have l: "250 < l" "m \<le> l" "n \<le> l" "l \<le> 1024"
    using big sz unat32 [of l] unfolding longest by (auto simp: l_def word_le_nat_alt)
  note w = scaled_facts [OF sz(1) l(2,1), folded w_def] and h = scaled_facts [OF sz(3) l(3,1), folded h_def]
  have size: "max (of_nat i * 250 div of_nat l) 1 = (of_nat (scaled i l) :: u32)" if "i \<le> 1024" for i
  proof -
    have q: "(of_nat i * 250 div of_nat l) = (of_nat (i * 250 div l) :: u32)"
      using div32 [of "i * 250" l] that l by simp
    have "i * 250 div l \<le> i * 250" by (rule div_le_dividend)
    then have "i * 250 div l < 4294967296"
      using that by linarith
    then have "max (of_nat (i * 250 div l)) (of_nat 1) = (of_nat (max (i * 250 div l) 1) :: u32)"
      using that by (intro max32) simp_all
    then show ?thesis
      unfolding q scaled_def max.commute [of 1] by simp
  qed
  have "range32 0 (of_nat h) = map of_nat [0..<h]"
    using range32_upt [of 0 h] h by simp
  moreover obtain rows where
      "mapE (thumbnail_row p (of_nat w) (of_nat h)) (map of_nat [0..<h]) = Inr rows"
      "list_all2 (\<lambda>y q. map unat q = concat (map (\<lambda>x. mean_spec p (cell m w x) (cell n h y)) [0..<w])) [0..<h] rows"
    using mapE_exists [of "[0..<h]" "thumbnail_row p (of_nat w) (of_nat h)" of_nat
        "\<lambda>y q. map unat q = concat (map (\<lambda>x. mean_spec p (cell m w x) (cell n h y)) [0..<w])"]
      thumbnail_row_spec [OF p m_def n_def w(1,3) h(1,3)] by auto
  moreover have words: "max (width p * 250 div of_nat l) 1 = of_nat w" "max (height p * 250 div of_nat l) 1 = of_nat h"
    unfolding wd w_def h_def using size sz by blast+
  ultimately have t: "thumbnail_pixels p = Inr \<lparr>width = of_nat w, height = of_nat h, pixels = concat rows\<rparr>"
    unfolding thumbnail_pixels_def Let_def longest words by simp
  have spec: "map unat (concat rows) = thumbnail_spec p"
    unfolding thumbnail_spec_def Let_def m_def [symmetric] n_def [symmetric] l_def [symmetric]
      w_def [symmetric] h_def [symmetric] by (rule concat_rel) fact
  have "length (mean_spec p xs ys) = 4" for xs ys
    by (simp add: mean_spec_def Let_def)
  then have "length (thumbnail_spec p) = w * h * 4"
    by (simp add: thumbnail_spec_def Let_def length_concat o_def sum_list_triv m_def n_def w_def h_def l_def)
  then have len: "length (concat rows) = w * h * 4"
    using arg_cong [OF spec, of length] by simp
  have un: "unat (of_nat w :: u32) = w" "unat (of_nat h :: u32) = h"
    using w h by (simp_all add: unat32)
  have "valid_output \<lparr>width = of_nat w, height = of_nat h, pixels = concat rows\<rparr>"
    using w h len by (simp add: valid_output_def pixels_ok_def dimensions_def word_le_nat_alt un)
  then show ?thesis
    using t spec un w h by (simp add: w_def h_def l_def m_def n_def)
qed

end
