(* ===== verification/GifEncoding.thy ===== *)
theory GifEncoding
  imports Streams
begin

unbundle bit_operations_syntax

text \<open>
  \<open>encode_literals\<close> of \<open>crates/media/src/animation.rs\<close>: a GIF's image data written without
  compression, as nine-bit literals with a clear code before every 254 of them, packed from the
  low bit and cut into sub-blocks. Its specification is a decoder of the GIF89a variable-width LZW,
  with its dictionary and growing code width: it reads the pixels back.
\<close>

section \<open>The encoder\<close>

function chunks :: "nat \<Rightarrow> 'a list \<Rightarrow> 'a list list" where
  "chunks n xs = (if n = 0 \<or> xs = [] then [] else take n xs # chunks n (drop n xs))"
  by pat_completeness auto

termination
  by (relation "measure (length \<circ> snd)") auto

declare chunks.simps [simp del]

record packer =
  accumulator :: u32
  pending_bits :: nat
  packed :: bytes

function drain :: "packer \<Rightarrow> packer" where
  "drain s =
     (if pending_bits s \<ge> 8
      then drain \<lparr>accumulator = drop_bit 8 (accumulator s), pending_bits = pending_bits s - 8,
                  packed = packed s @ [ucast (accumulator s)]\<rparr>
      else s)"
  by pat_completeness auto

termination
  by (relation "measure pending_bits") auto

declare drain.simps [simp del]

definition push_code :: "packer \<Rightarrow> u16 \<Rightarrow> packer" where
  "push_code s code =
     drain (s\<lparr>accumulator := accumulator s OR push_bit (pending_bits s) (ucast code),
              pending_bits := pending_bits s + 9\<rparr>)"

definition push_chunk :: "packer \<Rightarrow> bytes \<Rightarrow> packer" where
  "push_chunk s chunk = foldl (\<lambda>s pixel. push_code s (ucast pixel)) (push_code s 256) chunk"

definition encode_literals :: "bytes \<Rightarrow> bytes \<Rightarrow> bytes" where
  "encode_literals pixels out =
     (let s = foldl push_chunk \<lparr>accumulator = 0, pending_bits = 0, packed = []\<rparr> (chunks 254 pixels);
          s = push_code s 257;
          bs = (if pending_bits s \<noteq> 0 then packed s @ [ucast (accumulator s)] else packed s) in
      foldl (\<lambda>out block. out @ [of_nat (length block)] @ block) out (chunks 255 bs) @ [0])"

section \<open>The specification: a GIF89a image data decoder\<close>

text \<open>Sub-blocks: a length byte and that many bytes, up to a zero length.\<close>

function sub_blocks :: "bytes \<Rightarrow> (bytes \<times> bytes) option" where
  "sub_blocks [] = None"
| "sub_blocks (n # bs) =
     (if n = 0 then Some ([], bs)
      else if length bs < unat n then None
      else map_option (\<lambda>(data, rest). (take (unat n) bs @ data, rest)) (sub_blocks (drop (unat n) bs)))"
  by pat_completeness auto

termination
  by (relation "measure length") auto

text \<open>The bits of the data, low bit first.\<close>

definition bits_of :: "nat \<Rightarrow> 'a::len word \<Rightarrow> bool list" where
  "bits_of n w = map (bit w) [0..<n]"

definition byte_bits :: "bytes \<Rightarrow> bool list" where
  "byte_bits bs = concat (map (bits_of 8) bs)"

text \<open>
  Variable-width LZW with a minimum code size of 8: the codes below 256 are literals, 256 clears
  the dictionary, 257 ends; an entry is the previous string and the first byte of this one. The
  width is that of the next free code, at most 12.
\<close>

definition code_width :: "bytes list \<Rightarrow> nat" where
  "code_width table =
     (let next = 258 + length table in
      if next < 512 then 9 else if next < 1024 then 10 else if next < 2048 then 11 else 12)"

definition entry :: "bytes list \<Rightarrow> bytes \<Rightarrow> nat \<Rightarrow> bytes option" where
  "entry table previous c =
     (if c < 256 then Some [of_nat c]
      else if c - 258 < length table then Some (table ! (c - 258))
      else if c - 258 = length table then Some (previous @ [hd previous])
      else None)"

lemma code_width_shrinks:
  "\<not> length bits < code_width table \<Longrightarrow> length bits - code_width table < length bits"
  by (auto simp: code_width_def Let_def split: if_splits)

function lzw :: "bool list \<Rightarrow> bytes list \<Rightarrow> bytes option \<Rightarrow> bytes option" where
  "lzw bits table previous =
     (let w = code_width table; c = horner_sum of_bool 2 (take w bits) :: nat; bits' = drop w bits in
      if length bits < w then None
      else if c = 256 then lzw bits' [] None
      else if c = 257 then Some []
      else case previous of
        None \<Rightarrow> if c < 256 then map_option (append [of_nat c]) (lzw bits' table (Some [of_nat c])) else None
      | Some s \<Rightarrow>
          (case entry table s c of
             None \<Rightarrow> None
           | Some e \<Rightarrow>
               map_option (append e)
                 (lzw bits' (if length table < 3838 then table @ [s @ [hd e]] else table) (Some e))))"
  by pat_completeness auto

termination
  by (relation "measure (\<lambda>(bits, _, _). length bits)") (auto intro: code_width_shrinks)

declare lzw.simps [simp del]

definition image_data :: "bytes \<Rightarrow> (bytes \<times> bytes) option" where
  "image_data bs =
     Option.bind (sub_blocks bs) (\<lambda>(data, rest).
     map_option (\<lambda>pixels. (pixels, rest)) (lzw (byte_bits data) [] None))"

section \<open>Chunks and sub-blocks\<close>

lemma concat_chunks: "0 < n \<Longrightarrow> concat (chunks n xs) = xs"
  by (induction n xs rule: chunks.induct) (subst chunks.simps, auto)

lemma chunks_sizes: "c \<in> set (chunks n xs) \<Longrightarrow> c \<noteq> [] \<and> length c \<le> n"
  by (induction n xs rule: chunks.induct) (subst (asm) chunks.simps, auto split: if_split_asm)

definition blocks :: "bytes list \<Rightarrow> bytes" where
  "blocks bss = concat (map (\<lambda>block. of_nat (length block) # block) bss) @ [0]"

lemma write_blocks:
  "foldl (\<lambda>out block. out @ [of_nat (length block)] @ block) out bss @ [0] = out @ blocks bss"
  by (induction bss arbitrary: out) (simp_all add: blocks_def)

lemma read_blocks:
  "\<forall>b\<in>set bss. b \<noteq> [] \<and> length b \<le> 255 \<Longrightarrow> sub_blocks (blocks bss @ rest) = Some (concat bss, rest)"
proof (induction bss)
  case (Cons b bss)
  then have "unat (of_nat (length b) :: u8) = length b"
    by (simp add: unsigned_of_nat take_bit_eq_mod)
  moreover from this have "(of_nat (length b) :: u8) \<noteq> 0"
    using Cons.prems by (auto simp: word_unat_eq_iff)
  ultimately show ?case
    using Cons by (simp add: blocks_def)
qed (simp add: blocks_def)

section \<open>Packing\<close>

definition packer_bits :: "packer \<Rightarrow> bool list" where
  "packer_bits s = byte_bits (packed s) @ bits_of (pending_bits s) (accumulator s)"

definition packer_ok :: "packer \<Rightarrow> bool" where
  "packer_ok s \<longleftrightarrow> (\<forall>n \<ge> pending_bits s. \<not> bit (accumulator s) n) \<and> pending_bits s \<le> 32"

lemma bits_of_add: "bits_of (m + n) w = bits_of m w @ bits_of n (drop_bit m w)"
  by (rule nth_equalityI) (auto simp: bits_of_def nth_append bit_simps)

lemma bits_of_ucast: "n \<le> LENGTH('b) \<Longrightarrow> bits_of n (ucast (w :: 'a::len word) :: 'b::len word) = bits_of n w"
  by (auto simp: bits_of_def bit_simps)

lemma byte_bits_append [simp]: "byte_bits (xs @ ys) = byte_bits xs @ byte_bits ys"
  "byte_bits [x] = bits_of 8 x" "byte_bits [] = []"
  by (simp_all add: byte_bits_def)

lemma drain_spec:
  "packer_ok s \<Longrightarrow> packer_bits (drain s) = packer_bits s \<and> packer_ok (drain s) \<and> pending_bits (drain s) < 8"
proof (induction s rule: drain.induct)
  case (1 s)
  show ?case
  proof (cases "pending_bits s \<ge> 8")
    case True
    let ?s = "\<lparr>accumulator = drop_bit 8 (accumulator s), pending_bits = pending_bits s - 8,
      packed = packed s @ [ucast (accumulator s)]\<rparr>"
    have "packer_bits ?s = packer_bits s"
      using bits_of_add [of 8 "pending_bits s - 8" "accumulator s"] True
        bits_of_ucast [of 8 "accumulator s", where 'b = 8]
      by (simp add: packer_bits_def)
    moreover have "packer_ok ?s"
      using 1(2) True by (auto simp: packer_ok_def bit_simps)
    ultimately show ?thesis
      using 1(1) [OF True] True by (subst (1 2 3) drain.simps) simp
  next
    case False
    then show ?thesis
      using 1(2) by (subst (1 2 3) drain.simps) simp
  qed
qed

lemma push_code_spec:
  assumes "packer_ok s" "pending_bits s < 8" "c < 512"
  shows "packer_bits (push_code s c) = packer_bits s @ bits_of 9 c \<and> packer_ok (push_code s c)
     \<and> pending_bits (push_code s c) < 8"
proof -
  let ?acc = "accumulator s OR push_bit (pending_bits s) (ucast c)"
  let ?s = "s\<lparr>accumulator := ?acc, pending_bits := pending_bits s + 9\<rparr>"
  have high: "\<not> bit c n" if "9 \<le> n" for n
  proof -
    have "take_bit 9 c = c"
      using assms(3) unfolding word_unat_eq_iff unsigned_take_bit_eq
      by (intro take_bit_nat_eq_self) (simp add: word_less_nat_alt)
    then show ?thesis
      using that by (metis bit_take_bit_iff not_le)
  qed
  have "bits_of (pending_bits s + 9) ?acc = bits_of (pending_bits s) (accumulator s) @ bits_of 9 c"
    using assms(1,2) unfolding bits_of_add
    by (auto simp: bits_of_def packer_ok_def bit_simps)
  moreover have "packer_ok ?s"
    using assms(1,2) high by (auto simp: packer_ok_def bit_simps)
  ultimately show ?thesis
    using drain_spec [of ?s] by (simp add: push_code_def packer_bits_def)
qed


lemma push_codes_spec:
  assumes "packer_ok s" "pending_bits s < 8" "\<forall>c\<in>set cs. c < 512"
  shows "packer_bits (foldl push_code s cs) = packer_bits s @ concat (map (bits_of 9) cs)
     \<and> packer_ok (foldl push_code s cs) \<and> pending_bits (foldl push_code s cs) < 8"
  using assms by (induction cs arbitrary: s) (simp_all add: push_code_spec)

lemma literal_code: "unat (ucast (b :: u8) :: u16) = unat b" "unat b < 256" "(ucast b :: u16) < 512"
proof -
  have "unat b < 2 ^ LENGTH(8)" by (rule unsigned_less)
  then show b: "unat b < 256" by simp
  then show "unat (ucast b :: u16) = unat b"
    by (simp add: unsigned_ucast_eq take_bit_eq_mod)
  then show "(ucast b :: u16) < 512"
    using b by (simp add: word_less_nat_alt)
qed

text \<open>The codes of an image, and what the packing emits.\<close>

definition codes :: "bytes list \<Rightarrow> u16 list" where
  "codes cs = concat (map (\<lambda>chunk. 256 # map ucast chunk) cs) @ [257]"

lemma codes_small: "c \<in> set (codes cs) \<Longrightarrow> c < 512"
  using literal_code(3) by (auto simp: codes_def split: if_splits)

lemma push_chunk_codes: "push_chunk s chunk = foldl push_code s (256 # map ucast chunk)"
  by (simp add: push_chunk_def foldl_map)

lemma push_chunks_codes:
  "foldl push_chunk s cs = foldl push_code s (concat (map (\<lambda>chunk. 256 # map ucast chunk) cs))"
  by (induction cs arbitrary: s) (simp_all add: push_chunk_codes)

definition empty_packer :: packer where
  "empty_packer = \<lparr>accumulator = 0, pending_bits = 0, packed = []\<rparr>"

lemma encode_literals_blocks:
  "\<exists>data padding. encode_literals pixels out = out @ blocks (chunks 255 data)
     \<and> byte_bits data = concat (map (bits_of 9) (codes (chunks 254 pixels))) @ padding"
proof -
  define s where "s = foldl push_code empty_packer (codes (chunks 254 pixels))"
  have "packer_ok empty_packer" "pending_bits empty_packer < 8"
    by (simp_all add: empty_packer_def packer_ok_def)
  moreover have "packer_bits empty_packer = []"
    by (simp add: packer_bits_def empty_packer_def bits_of_def)
  ultimately have s: "packer_bits s = concat (map (bits_of 9) (codes (chunks 254 pixels)))" "pending_bits s < 8"
    using push_codes_spec [of empty_packer "codes (chunks 254 pixels)"] codes_small
    by (auto simp: s_def)
  define bs where "bs = (if pending_bits s \<noteq> 0 then packed s @ [ucast (accumulator s)] else packed s)"
  have "encode_literals pixels out = out @ blocks (chunks 255 bs)"
    unfolding encode_literals_def Let_def push_chunks_codes write_blocks bs_def s_def codes_def
    by (simp add: empty_packer_def)
  moreover have "\<exists>padding. byte_bits bs = concat (map (bits_of 9) (codes (chunks 254 pixels))) @ padding"
  proof (cases "pending_bits s = 0")
    case True
    then have "byte_bits bs = packer_bits s"
      by (simp add: bs_def packer_bits_def bits_of_def)
    then show ?thesis using s by simp
  next
    case False
    have "bits_of 8 (ucast (accumulator s) :: u8) = bits_of (pending_bits s + (8 - pending_bits s)) (accumulator s)"
      using s(2) by (simp add: bits_of_ucast)
    then have "byte_bits bs = packer_bits s @ bits_of (8 - pending_bits s) (drop_bit (pending_bits s) (accumulator s))"
      using False unfolding bits_of_add by (simp add: bs_def packer_bits_def)
    then show ?thesis using s by simp
  qed
  ultimately show ?thesis by blast
qed

section \<open>Decoding the literals\<close>

lemma code_value:
  assumes "(c :: u16) < 512"
  shows "(horner_sum of_bool 2 (bits_of 9 c) :: nat) = unat c"
proof -
  have "(horner_sum of_bool 2 (bits_of 9 c) :: nat) = horner_sum of_bool 2 (map (bit (unat c)) [0..<9])"
    unfolding bits_of_def by (intro arg_cong [where f = "horner_sum of_bool 2"] map_cong refl) (simp add: bit_unsigned_iff)
  also have "\<dots> = unat c"
    using assms by (simp add: horner_sum_bit_eq_take_bit take_bit_eq_mod word_less_nat_alt)
  finally show ?thesis .
qed

lemma length_bits_of [simp]: "length (bits_of n w) = n"
  by (simp add: bits_of_def)

text \<open>One code read while the dictionary is below the nine-bit boundary.\<close>

lemma lzw_code:
  assumes "258 + length table < 512" "(c :: u16) < 512"
  shows "lzw (bits_of 9 c @ bits) table previous =
     (if unat c = 256 then lzw bits [] None
      else if unat c = 257 then Some []
      else case previous of
        None \<Rightarrow> if unat c < 256 then map_option (append [of_nat (unat c)]) (lzw bits table (Some [of_nat (unat c)])) else None
      | Some s \<Rightarrow>
          (case entry table s (unat c) of
             None \<Rightarrow> None
           | Some e \<Rightarrow>
               map_option (append e)
                 (lzw bits (if length table < 3838 then table @ [s @ [hd e]] else table) (Some e))))"
proof -
  have w: "code_width table = 9"
    using assms(1) by (simp add: code_width_def)
  have "take 9 (bits_of 9 c @ bits) = bits_of 9 c" "drop 9 (bits_of 9 c @ bits) = bits"
    by simp_all
  then show ?thesis
    by (subst lzw.simps) (simp only: w Let_def code_value [OF assms(2)] length_append length_bits_of
        not_add_less1 if_False)
qed

definition literals :: "bytes \<Rightarrow> bool list" where
  "literals xs = concat (map (bits_of 9) (map (ucast :: u8 \<Rightarrow> u16) xs))"

lemma lzw_literals:
  assumes "length table + length xs \<le> 253"
  shows "\<exists>table' s'. length table' = length table + length xs
     \<and> lzw (literals xs @ bits) table (Some s) = map_option (append xs) (lzw bits table' (Some s'))"
  using assms
proof (induction xs arbitrary: table s)
  case Nil
  then show ?case by (auto simp: literals_def option.map_ident intro!: exI [of _ table])
next
  case (Cons x xs)
  have lit: "literals (x # xs) @ bits = bits_of 9 (ucast x :: u16) @ (literals xs @ bits)"
    by (simp add: literals_def)
  have "lzw (literals (x # xs) @ bits) table (Some s)
      = map_option (append [x]) (lzw (literals xs @ bits) (table @ [s @ [x]]) (Some [x]))"
    using Cons.prems literal_code [of x] unfolding lit
    by (subst lzw_code) (simp_all add: entry_def)
  moreover obtain table' s' where t: "length table' = length (table @ [s @ [x]]) + length xs"
      "lzw (literals xs @ bits) (table @ [s @ [x]]) (Some [x]) = map_option (append xs) (lzw bits table' (Some s'))"
    using Cons.IH [of "table @ [s @ [x]]" "[x]"] Cons.prems by auto
  ultimately show ?case
    by (intro exI [of _ table'] exI [of _ s']) (cases "lzw bits table' (Some s')"; simp)
qed

lemma lzw_chunk:
  assumes "c \<noteq> []" "length c \<le> 254" "length table \<le> 253"
  shows "\<exists>table' s'. length table' \<le> 253
     \<and> lzw (bits_of 9 (256 :: u16) @ literals c @ bits) table previous = map_option (append c) (lzw bits table' s')"
proof -
  obtain x xs where c: "c = x # xs" using assms(1) by (cases c) auto
  have lit: "literals c @ bits = bits_of 9 (ucast x :: u16) @ (literals xs @ bits)"
    by (simp add: c literals_def)
  have "lzw (bits_of 9 (256 :: u16) @ literals c @ bits) table previous = lzw (literals c @ bits) [] None"
    using assms(3) by (subst lzw_code) simp_all
  also have "\<dots> = map_option (append [x]) (lzw (literals xs @ bits) [] (Some [x]))"
    using literal_code [of x] unfolding lit by (subst lzw_code) simp_all
  finally have e: "lzw (bits_of 9 (256 :: u16) @ literals c @ bits) table previous
      = map_option (append [x]) (lzw (literals xs @ bits) [] (Some [x]))" .
  obtain table' s' where "length table' = length xs"
      "lzw (literals xs @ bits) [] (Some [x]) = map_option (append xs) (lzw bits table' (Some s'))"
    using lzw_literals [of "[]" xs bits "[x]"] assms(2) by (auto simp: c)
  then show ?thesis
    using assms(2) unfolding e by (intro exI [of _ table'] exI [of _ "Some s'"]) (simp add: c map_option_append)
qed

lemma lzw_chunks:
  assumes "\<forall>c\<in>set cs. c \<noteq> [] \<and> length c \<le> 254" "length table \<le> 253"
  shows "lzw (concat (map (bits_of 9) (codes cs)) @ padding) table previous = Some (concat cs)"
  using assms
proof (induction cs arbitrary: table previous)
  case Nil
  then show ?case by (simp add: codes_def) (subst lzw_code, simp_all)
next
  case (Cons c cs)
  have shape: "concat (map (bits_of 9) (codes (c # cs))) @ padding
      = bits_of 9 (256 :: u16) @ literals c @ (concat (map (bits_of 9) (codes cs)) @ padding)"
    by (simp add: codes_def literals_def)
  obtain table' s' where "length table' \<le> 253"
      "lzw (concat (map (bits_of 9) (codes (c # cs))) @ padding) table previous
       = map_option (append c) (lzw (concat (map (bits_of 9) (codes cs)) @ padding) table' s')"
    unfolding shape using lzw_chunk [of c table "concat (map (bits_of 9) (codes cs)) @ padding" previous] Cons.prems by auto
  then show ?case
    using Cons.IH [of table' s'] Cons.prems by simp
qed

theorem literals_decoded: "\<exists>written. encode_literals pixels out = out @ written
   \<and> image_data (written @ rest) = Some (pixels, rest)"
proof -
  obtain data padding where d: "encode_literals pixels out = out @ blocks (chunks 255 data)"
      "byte_bits data = concat (map (bits_of 9) (codes (chunks 254 pixels))) @ padding"
    using encode_literals_blocks by blast
  have sizes: "\<forall>c\<in>set (chunks n xs). c \<noteq> [] \<and> length c \<le> n" for n and xs :: bytes
    using chunks_sizes by blast
  have "sub_blocks (blocks (chunks 255 data) @ rest) = Some (data, rest)"
    using read_blocks [of "chunks 255 data" rest] sizes concat_chunks [of 255 data] by auto
  moreover have "lzw (byte_bits data) [] None = Some pixels"
    unfolding d(2) using lzw_chunks [of "chunks 254 pixels" "[]" padding None] sizes concat_chunks [of 254 pixels] by simp
  ultimately have "image_data (blocks (chunks 255 data) @ rest) = Some (pixels, rest)"
    by (simp add: image_data_def)
  with d(1) show ?thesis by blast
qed

end
