(* ===== verification/GifFrames.thy ===== *)
theory GifFrames
  imports GifEncoding Thumbnail
begin

unbundle bit_operations_syntax

text \<open>
  \<open>crates/media/src/animation.rs\<close>: the neutral animation protocol IBGIF001, its readers, the
  first displayed frame and the GIF encoder. A reader accepts exactly the encodings of valid
  animations; what the encoder writes is a GIF from which a reader of the GIF89a grammar recovers
  every frame.
\<close>

section \<open>Data\<close>

definition MAX_FRAMES :: nat where [simp]: "MAX_FRAMES = 512"
definition MAX_FRAME_PIXELS :: nat where [simp]: "MAX_FRAME_PIXELS = 1024 * 1024"
definition MAX_TOTAL_PIXELS :: nat where [simp]: "MAX_TOTAL_PIXELS = 16 * 1024 * 1024"
definition MAX_WIRE_BYTES :: nat where [simp]: "MAX_WIRE_BYTES = 17 * 1024 * 1024"
definition MAX_GIF_BYTES :: nat where [simp]: "MAX_GIF_BYTES = 20 * 1024 * 1024"

record Frame =
  frame_left :: u16
  frame_top :: u16
  frame_width :: u16
  frame_height :: u16
  delay :: u16
  transparent :: "u8 option"
  disposal :: u8
  palette :: bytes
  frame_pixels :: bytes

record ValidatedAnimation =
  canvas_width :: u16
  canvas_height :: u16
  global_palette :: bytes
  background :: "u8 option"
  repeat :: "u16 option"
  frames :: "Frame list"

record EncodedGif =
  gif_bytes :: bytes
  gif_sha256 :: bytes
  gif_md5 :: bytes
  gif_dimensions :: "u32 \<times> u32"

definition is_power_of_two :: "u16 \<Rightarrow> bool" where
  "is_power_of_two c \<longleftrightarrow> c \<noteq> 0 \<and> c AND (c - 1) = 0"

definition palette_size :: "u16 \<Rightarrow> bool \<Rightarrow> nat media" where
  "palette_size count optional =
     (if (optional \<and> count = 0) \<or> ((2 \<le> count \<and> count \<le> 256) \<and> is_power_of_two count)
      then Inr (unat count * 3) else Inl InvalidOutput)"

section \<open>Reading\<close>

text \<open>One frame; \<open>so_far\<close> counts the pixels and \<open>used\<close> the bytes before it.\<close>

definition read_frame :: "u16 \<Rightarrow> u16 \<Rightarrow> nat \<Rightarrow> nat \<Rightarrow> reader \<Rightarrow> (Frame \<times> nat \<times> nat \<times> reader) media" where
  "read_frame cw ch so_far used r =
     bindE (map_err Io (read_exact 20 r)) (\<lambda>(hdr, r).
     let left = at16 hdr 0; upper = at16 hdr 2; fw = at16 hdr 4; fh = at16 hdr 6;
         ticks = at16 hdr 8; colors = at16 hdr 10; index = at16 hdr 12; mode = hdr ! 14;
         pixel_count = at32 hdr 16 in
     bindE (palette_size colors False) (\<lambda>palette_bytes.
     let expected = unat fw * unat fh in
     case checked_add64 so_far expected of None \<Rightarrow> Inl InvalidOutput | Some so_far \<Rightarrow>
     (case checked_add64 used (20 + palette_bytes + expected) of None \<Rightarrow> Inl InvalidOutput | Some used \<Rightarrow>
     if fw = 0 \<or> fh = 0
        \<or> unat left + unat fw > unat cw
        \<or> unat upper + unat fh > unat ch
        \<or> expected > MAX_FRAME_PIXELS
        \<or> so_far > MAX_TOTAL_PIXELS
        \<or> unat pixel_count \<noteq> expected
        \<or> used > MAX_WIRE_BYTES
        \<or> (index \<noteq> 256 \<and> index \<ge> colors)
        \<or> mode > 3
        \<or> hdr ! 15 \<noteq> 0
     then Inl InvalidOutput
     else bindE (map_err Io (read_exact palette_bytes r)) (\<lambda>(pal, r).
          bindE (map_err Io (read_exact expected r)) (\<lambda>(px, r).
          if \<exists>pixel\<in>set px. (ucast pixel :: u16) \<ge> colors then Inl InvalidOutput
          else Inr (\<lparr>frame_left = left, frame_top = upper, frame_width = fw,
                 frame_height = fh, delay = ticks,
                 transparent = (if index \<noteq> 256 then Some (ucast index) else None),
                 disposal = mode, palette = pal, frame_pixels = px\<rparr>, so_far, used, r))))))"

fun read_frames :: "u16 \<Rightarrow> u16 \<Rightarrow> nat \<Rightarrow> nat \<Rightarrow> nat \<Rightarrow> reader \<Rightarrow> (Frame list \<times> nat \<times> reader) media" where
  "read_frames cw ch 0 so_far used r = Inr ([], used, r)"
| "read_frames cw ch (Suc n) so_far used r =
     bindE (read_frame cw ch so_far used r) (\<lambda>(f, so_far, used, r).
     bindE (read_frames cw ch n so_far used r) (\<lambda>(fs, used, r).
     Inr (f # fs, used, r)))"

definition read_animation_protocol :: "reader \<Rightarrow> ((ValidatedAnimation \<times> nat) \<times> reader) media" where
  "read_animation_protocol r =
     bindE (map_err Io (read_exact 32 r)) (\<lambda>(hdr, r).
     let w = at16 hdr 8; h = at16 hdr 10; count = unat (at16 hdr 12); colors = at16 hdr 14;
         bg = at16 hdr 16; loops = at32 hdr 18 in
     bindE (palette_size colors True) (\<lambda>palette_bytes.
     if take 8 hdr \<noteq> ascii ''IBGIF001''
        \<or> \<not> (1 \<le> w \<and> w \<le> 1024)
        \<or> \<not> (1 \<le> h \<and> h \<le> 1024)
        \<or> \<not> (1 \<le> count \<and> count \<le> MAX_FRAMES)
        \<or> (bg \<noteq> 256 \<and> bg \<ge> colors)
        \<or> loops > 65536
        \<or> (\<exists>b\<in>set (drop 22 hdr). b \<noteq> 0)
     then Inl InvalidOutput
     else bindE (map_err Io (read_exact palette_bytes r)) (\<lambda>(pal, r).
          bindE (read_frames w h count 0 (32 + palette_bytes) r) (\<lambda>(fs, used, r).
          Inr ((\<lparr>canvas_width = w, canvas_height = h, global_palette = pal,
                 background = (if bg \<noteq> 256 then Some (ucast bg) else None),
                 repeat = (if loops \<noteq> 65536 then Some (ucast loops) else None),
                 frames = fs\<rparr>, used), r)))))"

definition read_animation :: "reader \<Rightarrow> ValidatedAnimation media" where
  "read_animation r =
     bindE (read_animation_protocol r) (\<lambda>((animation, _), r).
     bindE (map_err Io (read_one r)) (\<lambda>more. if more then Inl InvalidOutput else Inr animation))"

definition read_animation_disk :: "reader \<Rightarrow> ValidatedAnimation media" where
  "read_animation_disk r =
     bindE (read_animation_protocol r) (\<lambda>((animation, used), r).
     case checked_sub MAX_WIRE_BYTES used of
       None \<Rightarrow> Inl InvalidOutput
     | Some remaining \<Rightarrow>
         bindE (zero_padding InvalidOutput Io 8192 remaining r) (\<lambda>r.
         bindE (map_err Io (read_one r)) (\<lambda>more. if more then Inl InvalidOutput else Inr animation)))"

definition animation_dimensions :: "ValidatedAnimation \<Rightarrow> u32 \<times> u32" where
  "animation_dimensions a = (ucast (canvas_width a), ucast (canvas_height a))"

section \<open>The first frame\<close>

text \<open>\<open>xs[i..i + n].copy_from_slice(ys)\<close>\<close>

definition copy_into :: "nat \<Rightarrow> bytes \<Rightarrow> bytes \<Rightarrow> MediaError stop + bytes" where
  "copy_into i ys xs =
     (if i + length ys \<le> length xs then Inr (take i xs @ ys @ drop (i + length ys) xs) else Inl Panicked)"

definition paint_index :: "ValidatedAnimation \<Rightarrow> Frame \<Rightarrow> bytes \<Rightarrow> nat \<times> u8 \<Rightarrow> MediaError stop + bytes" where
  "paint_index a frame canvas = (\<lambda>(offset, index).
     if transparent frame = Some index then Inr canvas
     else if frame_width frame = 0 then Inl Panicked
     else let x = offset mod unat (frame_width frame) + unat (frame_left frame);
              y = offset div unat (frame_width frame) + unat (frame_top frame);
              destination = (y * unat (canvas_width a) + x) * 4;
              color = unat index * 3 in
       if length (palette frame) < color + 3 then Inl Panicked
       else bindE (copy_into destination (slice_of color (color + 3) (palette frame)) canvas) (\<lambda>canvas.
            copy_into (destination + 3) [255] canvas))"

definition first_frame :: "ValidatedAnimation \<Rightarrow> MediaError stop + ValidatedOutput" where
  "first_frame a =
     (case frames a of
       [] \<Rightarrow> Inl Panicked
     | frame # _ \<Rightarrow>
         bindE (foldE (paint_index a frame) (replicate (unat (canvas_width a) * unat (canvas_height a) * 4) 0)
             (enumerate 0 (frame_pixels frame))) (\<lambda>pixels.
         map_err Refused (from_validated_pixels (animation_dimensions a) pixels)))"

section \<open>The GIF encoder\<close>

definition le16 :: "u16 \<Rightarrow> bytes" where
  "le16 w = [ucast w, ucast (drop_bit 8 w)]"

fun ilog2 :: "nat \<Rightarrow> nat" where
  "ilog2 n = (if n \<le> 1 then 0 else Suc (ilog2 (n div 2)))"

declare ilog2.simps [simp del]

definition write_gif_frame :: "bytes \<Rightarrow> Frame \<Rightarrow> bytes media" where
  "write_gif_frame out frame =
     (let out = out @ [0x21, 0xf9, 4,
            push_bit 2 (disposal frame) OR (if transparent frame \<noteq> None then 1 else 0)];
          out = out @ le16 (delay frame);
          out = out @ [case transparent frame of None \<Rightarrow> 0 | Some t \<Rightarrow> t, 0, 0x2c];
          out = out @ concat (map le16 [frame_left frame, frame_top frame, frame_width frame, frame_height frame]);
          out = out @ [0x87];
          out = out @ palette frame;
          out = resize (length out + 768 - length (palette frame)) out;
          out = out @ [8];
          out = encode_literals (frame_pixels frame) out in
      if length out \<ge> MAX_GIF_BYTES then Inl InvalidOutput else Inr out)"

definition gif_head :: "ValidatedAnimation \<Rightarrow> bytes" where
  "gif_head a =
     (let out = ascii ''GIF89a'' @ le16 (canvas_width a) @ le16 (canvas_height a);
          global_colors = length (global_palette a) div 3;
          flags = (if global_colors = 0 then 0
                   else 0x80 OR 0x70 OR (of_nat (ilog2 global_colors) - 1));
          out = out @ [flags, case background a of None \<Rightarrow> 0 | Some b \<Rightarrow> b, 0];
          out = out @ global_palette a in
      case repeat a of
        None \<Rightarrow> out
      | Some n \<Rightarrow> out @ [0x21, 0xff, 0x0b] @ ascii ''NETSCAPE2.0'' @ [0x03, 0x01] @ le16 n @ [0])"

definition encode_gif :: "(bytes \<Rightarrow> bytes) \<Rightarrow> (bytes \<Rightarrow> bytes) \<Rightarrow> ValidatedAnimation \<Rightarrow> EncodedGif media" where
  "encode_gif digest md5_digest a =
     bindE (foldE write_gif_frame (gif_head a) (frames a)) (\<lambda>out.
     let out = out @ [0x3b] in
     Inr \<lparr>gif_bytes = out, gif_sha256 = concat (map hex2 (digest out)),
          gif_md5 = concat (map hex2 (md5_digest out)), gif_dimensions = animation_dimensions a\<rparr>)"

section \<open>Color tables\<close>

definition table_sizes :: "nat list" where
  "table_sizes = [2, 4, 8, 16, 32, 64, 128, 256]"

lemma powers_of_two: "\<forall>n\<in>set [2..<257]. is_power_of_two (of_nat n) \<longleftrightarrow> n \<in> set table_sizes"
  unfolding is_power_of_two_def table_sizes_def by code_simp

lemma table_size_iff: "(2 \<le> c \<and> c \<le> 256) \<and> is_power_of_two c \<longleftrightarrow> unat c \<in> set table_sizes"
proof -
  have "is_power_of_two c \<longleftrightarrow> unat c \<in> set table_sizes" if "2 \<le> c" "c \<le> 256"
  proof -
    have "unat c \<in> set [2..<257]"
      using that by (simp only: set_upt atLeastLessThan_iff) (simp add: word_le_nat_alt)
    from bspec [OF powers_of_two this] show ?thesis
      by (simp only: of_nat_unat ucast_id)
  qed
  moreover have "2 \<le> c \<and> c \<le> 256" if "unat c \<in> set table_sizes"
    using that by (auto simp: table_sizes_def word_le_nat_alt)
  ultimately show ?thesis by blast
qed

lemma palette_size_iff:
  "palette_size c optional = Inr n \<longleftrightarrow> n = unat c * 3 \<and> (optional \<and> c = 0 \<or> unat c \<in> set table_sizes)"
  unfolding palette_size_def table_size_iff by auto

lemma table_sizes_le: "k \<in> set table_sizes \<Longrightarrow> k \<le> 256 \<and> 2 \<le> k"
  by (auto simp: table_sizes_def)

section \<open>The wire form\<close>

definition colors_of :: "bytes \<Rightarrow> nat" where
  "colors_of pal = length pal div 3"

definition table_ok :: "bytes \<Rightarrow> bool" where
  "table_ok pal \<longleftrightarrow> length pal = 3 * colors_of pal \<and> colors_of pal \<in> set table_sizes"

definition index_word :: "u8 option \<Rightarrow> u16" where
  "index_word i = (case i of None \<Rightarrow> 256 | Some t \<Rightarrow> ucast t)"

definition index_ok :: "nat \<Rightarrow> u8 option \<Rightarrow> bool" where
  "index_ok k i \<longleftrightarrow> (\<forall>t. i = Some t \<longrightarrow> unat t < k)"

definition frame_ok :: "u16 \<Rightarrow> u16 \<Rightarrow> Frame \<Rightarrow> bool" where
  "frame_ok cw ch f \<longleftrightarrow>
     frame_width f \<noteq> 0 \<and> frame_height f \<noteq> 0
     \<and> unat (frame_left f) + unat (frame_width f) \<le> unat cw
     \<and> unat (frame_top f) + unat (frame_height f) \<le> unat ch
     \<and> length (frame_pixels f) = unat (frame_width f) * unat (frame_height f)
     \<and> length (frame_pixels f) \<le> 1048576
     \<and> table_ok (palette f) \<and> index_ok (colors_of (palette f)) (transparent f)
     \<and> disposal f \<le> 3 \<and> (\<forall>p\<in>set (frame_pixels f). unat p < colors_of (palette f))"

definition frame_header :: "u16 \<Rightarrow> u16 \<Rightarrow> u16 \<Rightarrow> u16 \<Rightarrow> u16 \<Rightarrow> u16 \<Rightarrow> u16 \<Rightarrow> u8 \<Rightarrow> u32 \<Rightarrow> bytes" where
  "frame_header l t w h d k i m n =
     be16 l @ be16 t @ be16 w @ be16 h @ be16 d @ be16 k @ be16 i @ [m, 0] @ be32 n"

definition gif_frame_bytes :: "Frame \<Rightarrow> bytes" where
  "gif_frame_bytes f =
     frame_header (frame_left f) (frame_top f) (frame_width f) (frame_height f) (delay f)
       (of_nat (colors_of (palette f))) (index_word (transparent f)) (disposal f) (of_nat (length (frame_pixels f)))
     @ palette f @ frame_pixels f"

lemma length_frame_header [simp]: "length (frame_header l t w h d k i m n) = 20"
  by (simp add: frame_header_def)

lemma fields16: "j = i + 2 \<Longrightarrow> j \<le> length bs \<Longrightarrow> drop i bs = be16 (at16 bs i) @ drop j bs"
  using drop_split [of i bs 2] field16 [of i bs] by simp

lemma fields32: "j = i + 4 \<Longrightarrow> j \<le> length bs \<Longrightarrow> drop i bs = be32 (at32 bs i) @ drop j bs"
  using drop_split [of i bs 4] field32 [of i bs] by simp

lemma start16: "2 \<le> length bs \<Longrightarrow> bs = be16 (at16 bs 0) @ drop 2 bs"
  by (rule fields16 [where i = 0, unfolded drop_0]) simp_all

lemma frame_header_split:
  assumes "length hdr = 20" "hdr ! 15 = 0"
  shows "hdr = frame_header (at16 hdr 0) (at16 hdr 2) (at16 hdr 4) (at16 hdr 6) (at16 hdr 8) (at16 hdr 10)
    (at16 hdr 12) (hdr ! 14) (at32 hdr 16)"
proof -
  have "drop 14 hdr = [hdr ! 14, hdr ! 15] @ drop 16 hdr"
    using assms(1) Cons_nth_drop_Suc [of 14 hdr] Cons_nth_drop_Suc [of 15 hdr] by simp
  moreover have "drop 16 hdr = be32 (at32 hdr 16)"
    using fields32 [of 20 16 hdr] assms(1) by simp
  ultimately have "drop 2 hdr = be16 (at16 hdr 2) @ be16 (at16 hdr 4) @ be16 (at16 hdr 6)
      @ be16 (at16 hdr 8) @ be16 (at16 hdr 10) @ be16 (at16 hdr 12) @ [hdr ! 14, 0] @ be32 (at32 hdr 16)"
    using fields16 [of 4 2 hdr] fields16 [of 6 4 hdr] fields16 [of 8 6 hdr]
      fields16 [of 10 8 hdr] fields16 [of 12 10 hdr] fields16 [of 14 12 hdr] assms by simp
  moreover have "hdr = be16 (at16 hdr 0) @ drop 2 hdr"
    using assms by (intro start16) simp
  ultimately show ?thesis
    unfolding frame_header_def by (rule trans [rotated, OF arg_cong])
qed

lemma frame_header_fields:
  assumes "hdr = frame_header l t w h d k i m n"
  shows "at16 hdr 0 = l" "at16 hdr 2 = t" "at16 hdr 4 = w" "at16 hdr 6 = h" "at16 hdr 8 = d" "at16 hdr 10 = k"
    "at16 hdr 12 = i" "hdr ! 14 = m" "hdr ! 15 = 0" "at32 hdr 16 = n"
  unfolding assms frame_header_def
  by (simp_all add: at16_def at32_def be16_def be32_def nth_append)

lemma index_word_value: "unat (index_word i) = (case i of None \<Rightarrow> 256 | Some t \<Rightarrow> unat t)"
  using literal_code by (simp add: index_word_def split: option.split)

lemma index_word_decode: "(if index_word i \<noteq> 256 then Some (ucast (index_word i)) else None) = i"
proof (cases i)
  case (Some t)
  then have "unat (index_word i) \<noteq> 256"
    using index_word_value [of i] literal_code(2) [of t] by simp
  then have "index_word i \<noteq> 256" by auto
  moreover have "(ucast (ucast t :: u16) :: u8) = t"
    by (rule bit_word_eqI) (simp add: bit_simps)
  ultimately show ?thesis
    using Some by (simp add: index_word_def)
qed (simp add: index_word_def)

lemma index_word_iff:
  assumes "k \<le> 256"
  shows "(w \<noteq> 256 \<longrightarrow> unat w < k) \<and> i = (if w \<noteq> 256 then Some (ucast w) else None)
    \<longleftrightarrow> w = index_word i \<and> index_ok k i" (is "?l \<longleftrightarrow> ?r")
proof
  assume l: ?l
  show ?r
  proof (cases "w = 256")
    case False
    then have "unat w < 256" using l assms by simp
    then have u: "unat (ucast w :: u8) = unat w"
      unfolding unsigned_ucast_eq by (intro take_bit_nat_eq_self) simp
    then have "unat (ucast (ucast w :: u8) :: u16) = unat w"
      using literal_code(1) [of "ucast w"] by (rule trans [rotated])
    then have "(ucast (ucast w :: u8) :: u16) = w"
      by (rule word_unat_eq_iff [THEN iffD2])
    then show ?thesis
      using l False u by (simp add: index_word_def index_ok_def)
  qed (use l in \<open>simp add: index_word_def index_ok_def\<close>)
next
  assume r: ?r
  have "w \<noteq> 256 \<longrightarrow> unat w < k"
    using r index_word_value [of i] by (cases i) (auto simp: index_ok_def index_word_def)
  moreover have "i = (if w \<noteq> 256 then Some (ucast w) else None)"
    unfolding conjunct1 [OF r] by (rule index_word_decode [symmetric])
  ultimately show ?l ..
qed


lemma colors_below: "(ucast (p :: u8) :: u16) \<ge> k \<longleftrightarrow> \<not> unat p < unat k"
  using literal_code(1) [of p] by (simp add: word_le_nat_alt not_less)

lemma table_ok_colors:
  "table_ok pal \<longleftrightarrow> (\<exists>k :: u16. length pal = unat k * 3 \<and> unat k \<in> set table_sizes)"
  "length pal = unat (k :: u16) * 3 \<Longrightarrow> colors_of pal = unat k"
proof -
  show c: "length pal = unat (k :: u16) * 3 \<Longrightarrow> colors_of pal = unat k" for k
    by (simp add: colors_of_def)
  have "unat (of_nat (colors_of pal) :: u16) = colors_of pal" if "colors_of pal \<in> set table_sizes"
    using table_sizes_le [OF that] by (simp add: unsigned_of_nat take_bit_eq_mod)
  then show "table_ok pal \<longleftrightarrow> (\<exists>k :: u16. length pal = unat k * 3 \<and> unat k \<in> set table_sizes)"
    using c unfolding table_ok_def by (metis mult.commute)
qed

lemma length_gif_frame_bytes [simp]:
  "length (gif_frame_bytes f) = 20 + length (palette f) + length (frame_pixels f)"
  by (simp add: gif_frame_bytes_def)

lemma checked_small: "a \<le> 17825792 \<Longrightarrow> b \<le> 4294967296 \<Longrightarrow> checked_add64 a b = Some (a + b)"
  by (simp add: checked_add64_def)

lemma area16: "unat (a :: u16) * unat (b :: u16) \<le> 65535 * 65535"
proof -
  have "unat w \<le> 65535" for w :: u16
  proof -
    have "unat w < 2 ^ LENGTH(16)" by (rule unsigned_less)
    then show ?thesis by simp
  qed
  then show ?thesis by (intro mult_le_mono)
qed

lemma table_bytes_le: "unat k \<in> set table_sizes \<Longrightarrow> unat k * 3 \<le> 768"
  using table_sizes_le by fastforce

lemma read_frame_sound:
  assumes so_far: "so_far \<le> 16777216" and used: "used \<le> 17825792"
    and r: "read_frame cw ch so_far used r = Inr (f, so_far', used', r')"
  shows "frame_ok cw ch f \<and> fst r = gif_frame_bytes f @ fst r' \<and> snd r' = snd r
    \<and> so_far' = so_far + length (frame_pixels f) \<and> used' = used + length (gif_frame_bytes f)
    \<and> so_far' \<le> 16777216 \<and> used' \<le> 17825792"
proof -
  obtain hdr s where h: "read_exact 20 r = Inr (hdr, s)"
    using r by (cases "read_exact 20 r") (auto simp: read_frame_def)
  then have h': "fst r = hdr @ fst s" "length hdr = 20" "snd s = snd r"
    by (simp_all add: read_exact_iff)
  define k where "k = at16 hdr 10"
  define e where "e = unat (at16 hdr 4) * unat (at16 hdr 6)"
  have k: "unat k \<in> set table_sizes" "palette_size k False = Inr (unat k * 3)"
    using r h by (auto simp: read_frame_def Let_def palette_size_iff k_def [symmetric] result_simps)
  have e: "checked_add64 so_far e = Some (so_far + e)"
      "checked_add64 used (20 + unat k * 3 + e) = Some (used + (20 + unat k * 3 + e))"
    using area16 [of "at16 hdr 4" "at16 hdr 6"] table_bytes_le [OF k(1)] so_far used
    by (intro checked_small; simp add: e_def)+
  obtain pal t px where b: "at16 hdr 4 \<noteq> 0" "at16 hdr 6 \<noteq> 0"
      "unat (at16 hdr 0) + unat (at16 hdr 4) \<le> unat cw" "unat (at16 hdr 2) + unat (at16 hdr 6) \<le> unat ch"
      "e \<le> 1048576" "so_far + e \<le> 16777216" "unat (at32 hdr 16) = e" "used + (20 + unat k * 3 + e) \<le> 17825792"
      "at16 hdr 12 \<noteq> 256 \<longrightarrow> at16 hdr 12 < k" "hdr ! 14 \<le> 3" "hdr ! 15 = 0"
      "read_exact (unat k * 3) s = Inr (pal, t)" "read_exact e t = Inr (px, r')" "\<forall>p\<in>set px. ucast p < k"
      "f = \<lparr>frame_left = at16 hdr 0, frame_top = at16 hdr 2, frame_width = at16 hdr 4, frame_height = at16 hdr 6,
         delay = at16 hdr 8, transparent = (if at16 hdr 12 \<noteq> 256 then Some (ucast (at16 hdr 12)) else None),
         disposal = hdr ! 14, palette = pal, frame_pixels = px\<rparr>"
      "so_far' = so_far + e" "used' = used + (20 + unat k * 3 + e)"
    using r unfolding read_frame_def h map_err_simps bindE_Inr prod.case Let_def k_def [symmetric] k(2)
      e_def [symmetric] e option.case
    by (auto simp: bindE_eq_Inr map_err_Inr not_le not_less simp del: read_exact_iff split: if_split_asm)
  have px: "fst s = pal @ fst t" "length pal = unat k * 3" "fst t = px @ fst r'" "length px = e"
      "snd t = snd s" "snd r' = snd t"
    using b(12,13) by (simp_all add: read_exact_iff)
  have c: "colors_of pal = unat k" "table_ok pal" "unat k \<le> 256"
    using px(2) k(1) table_ok_colors table_sizes_le by auto
  have t: "at16 hdr 12 = index_word (transparent f)" "index_ok (unat k) (transparent f)"
    using index_word_iff [OF c(3), of "at16 hdr 12" "transparent f"] b(9) unfolding b(15)
    by (simp_all add: word_less_nat_alt)
  have "hdr = frame_header (frame_left f) (frame_top f) (frame_width f) (frame_height f) (delay f)
       (of_nat (colors_of (palette f))) (index_word (transparent f)) (disposal f) (of_nat (length (frame_pixels f)))"
    using frame_header_split [OF h'(2) b(11)] unfolding t(1) b(7) [symmetric] px(4) [symmetric]
    by (simp add: b(15) c(1) px(4) b(7) [symmetric] k_def)
  then have "gif_frame_bytes f = hdr @ pal @ px"
    unfolding gif_frame_bytes_def by (simp add: b(15))
  moreover have "frame_ok cw ch f"
    using b(1-5,10,14) t(2) c(2) px(4) unfolding frame_ok_def
    by (simp add: b(15) c(1) e_def word_less_nat_alt literal_code(1))
  ultimately show ?thesis
    using h' px b(6,8,16,17) by (simp add: b(15))
qed

lemma read_frame_complete:
  assumes so_far: "so_far \<le> 16777216" and used: "used \<le> 17825792"
    and f: "frame_ok cw ch f" and r: "fst r = gif_frame_bytes f @ fst r'" "snd r' = snd r"
    and bounds: "so_far + length (frame_pixels f) \<le> 16777216" "used + length (gif_frame_bytes f) \<le> 17825792"
  shows "read_frame cw ch so_far used r
    = Inr (f, so_far + length (frame_pixels f), used + length (gif_frame_bytes f), r')"
proof -
  define hdr where "hdr = frame_header (frame_left f) (frame_top f) (frame_width f) (frame_height f) (delay f)
       (of_nat (colors_of (palette f))) (index_word (transparent f)) (disposal f) (of_nat (length (frame_pixels f)))"
  define s where "s = (palette f @ frame_pixels f @ fst r', snd r)"
  define t where "t = (frame_pixels f @ fst r', snd r)"
  have reads: "read_exact 20 r = Inr (hdr, s)" "read_exact (length (palette f)) s = Inr (palette f, t)"
      "read_exact (length (frame_pixels f)) t = Inr (frame_pixels f, r')"
    using r by (simp_all add: read_exact_iff hdr_def s_def t_def gif_frame_bytes_def)
  note hf = frame_header_fields [OF hdr_def]
  define k where "k = colors_of (palette f)"
  have k: "k \<in> set table_sizes" "length (palette f) = k * 3" "k \<le> 256" "unat (of_nat k :: u16) = k"
    using f table_sizes_le [of k] by (auto simp: frame_ok_def table_ok_def k_def unsigned_of_nat take_bit_eq_mod)
  have ps: "palette_size (of_nat k) False = Inr (length (palette f))"
    using k by (simp add: palette_size_iff)
  have e: "length (frame_pixels f) = unat (frame_width f) * unat (frame_height f)" "length (frame_pixels f) \<le> 1048576"
      "unat (of_nat (length (frame_pixels f)) :: u32) = length (frame_pixels f)"
  proof -
    show e: "length (frame_pixels f) = unat (frame_width f) * unat (frame_height f)" "length (frame_pixels f) \<le> 1048576"
      using f by (simp_all add: frame_ok_def)
    then show "unat (of_nat (length (frame_pixels f)) :: u32) = length (frame_pixels f)"
      by (intro unat32) linarith
  qed
  have adds: "checked_add64 so_far (length (frame_pixels f)) = Some (so_far + length (frame_pixels f))"
      "checked_add64 used (20 + length (palette f) + length (frame_pixels f)) = Some (used + (20 + length (palette f) + length (frame_pixels f)))"
    using so_far used e(2) k by (intro checked_small; simp)+
  have idx: "index_word (transparent f) \<noteq> 256 \<longrightarrow> index_word (transparent f) < of_nat k"
      "(if index_word (transparent f) \<noteq> 256 then Some (ucast (index_word (transparent f))) else None) = transparent f"
    using index_word_iff [OF k(3), of "index_word (transparent f)" "transparent f"] f
    by (simp_all add: frame_ok_def k_def [symmetric] word_less_nat_alt k(4))
  have px: "\<not> (\<exists>pixel\<in>set (frame_pixels f). (ucast pixel :: u16) \<ge> of_nat k)"
    using f by (simp add: colors_below k(4) frame_ok_def k_def [symmetric])
  have "read_frame cw ch so_far used r = Inr (\<lparr>frame_left = frame_left f, frame_top = frame_top f,
      frame_width = frame_width f, frame_height = frame_height f, delay = delay f,
      transparent = transparent f, disposal = disposal f, palette = palette f, frame_pixels = frame_pixels f\<rparr>,
      so_far + length (frame_pixels f), used + (20 + length (palette f) + length (frame_pixels f)), r')"
    unfolding read_frame_def reads(1) map_err_simps bindE_Inr prod.case Let_def hf k_def [symmetric] ps
      e(1) [symmetric] adds option.case idx(2) e(3) reads(2) reads(3)
    using f idx(1) bounds px e(2) by (auto simp: frame_ok_def not_le not_less)
  then show ?thesis by simp
qed

definition frames_bytes :: "Frame list \<Rightarrow> bytes" where
  "frames_bytes fs = concat (map gif_frame_bytes fs)"

definition pixel_total :: "Frame list \<Rightarrow> nat" where
  "pixel_total fs = sum_list (map (length \<circ> frame_pixels) fs)"

lemma frames_simps [simp]: "frames_bytes (f # fs) = gif_frame_bytes f @ frames_bytes fs" "frames_bytes [] = []"
  "pixel_total (f # fs) = length (frame_pixels f) + pixel_total fs" "pixel_total [] = 0"
  by (simp_all add: frames_bytes_def pixel_total_def)

lemma read_frames_iff:
  assumes "so_far \<le> 16777216" "used \<le> 17825792"
  shows "read_frames cw ch n so_far used r = Inr (fs, used', r') \<longleftrightarrow>
     length fs = n \<and> list_all (frame_ok cw ch) fs \<and> fst r = frames_bytes fs @ fst r' \<and> snd r' = snd r
     \<and> used' = used + length (frames_bytes fs) \<and> so_far + pixel_total fs \<le> 16777216 \<and> used' \<le> 17825792"
  using assms
proof (induction n arbitrary: so_far used r fs)
  case 0
  then show ?case by (cases r, cases r') auto
next
  case (Suc n)
  show ?case
  proof
    assume "read_frames cw ch (Suc n) so_far used r = Inr (fs, used', r')"
    then obtain f so1 u1 s gs where f: "read_frame cw ch so_far used r = Inr (f, so1, u1, s)"
        "read_frames cw ch n so1 u1 s = Inr (gs, used', r')" "fs = f # gs"
      by (auto simp: result_simps)
    note sound = read_frame_sound [OF Suc.prems f(1)]
    then have "so1 \<le> 16777216" "u1 \<le> 17825792" by simp_all
    from Suc.IH [OF this, of s gs] f(2) sound show "length fs = Suc n \<and> list_all (frame_ok cw ch) fs
      \<and> fst r = frames_bytes fs @ fst r' \<and> snd r' = snd r
      \<and> used' = used + length (frames_bytes fs) \<and> so_far + pixel_total fs \<le> 16777216 \<and> used' \<le> 17825792"
      by (simp add: f(3))
  next
    assume h: "length fs = Suc n \<and> list_all (frame_ok cw ch) fs
      \<and> fst r = frames_bytes fs @ fst r' \<and> snd r' = snd r
      \<and> used' = used + length (frames_bytes fs) \<and> so_far + pixel_total fs \<le> 16777216 \<and> used' \<le> 17825792"
    then obtain f gs where fs: "fs = f # gs" by (cases fs) auto
    define s where "s = (frames_bytes gs @ fst r', snd r)"
    define so1 where "so1 = so_far + length (frame_pixels f)"
    define u1 where "u1 = used + length (gif_frame_bytes f)"
    have "read_frame cw ch so_far used r = Inr (f, so1, u1, s)"
      unfolding so1_def u1_def using h fs by (intro read_frame_complete [OF Suc.prems]) (simp_all add: s_def)
    moreover have "read_frames cw ch n so1 u1 s = Inr (gs, used', r')"
      using Suc.IH [of so1 u1 s gs] h fs by (simp add: so1_def u1_def s_def)
    ultimately show "read_frames cw ch (Suc n) so_far used r = Inr (fs, used', r')"
      by (simp add: fs)
  qed
qed

section \<open>The protocol\<close>

definition repeat_word :: "u16 option \<Rightarrow> u32" where
  "repeat_word n = (case n of None \<Rightarrow> 65536 | Some n \<Rightarrow> ucast n)"

definition animation_header :: "u16 \<Rightarrow> u16 \<Rightarrow> u16 \<Rightarrow> u16 \<Rightarrow> u16 \<Rightarrow> u32 \<Rightarrow> bytes" where
  "animation_header w h n k b l = ascii ''IBGIF001'' @ be16 w @ be16 h @ be16 n @ be16 k @ be16 b @ be32 l @ replicate 10 0"

definition animation_bytes :: "ValidatedAnimation \<Rightarrow> bytes" where
  "animation_bytes a =
     animation_header (canvas_width a) (canvas_height a) (of_nat (length (frames a)))
       (of_nat (colors_of (global_palette a))) (index_word (background a)) (repeat_word (repeat a))
     @ global_palette a @ frames_bytes (frames a)"

definition valid_animation :: "ValidatedAnimation \<Rightarrow> bool" where
  "valid_animation a \<longleftrightarrow>
     1 \<le> canvas_width a \<and> canvas_width a \<le> 1024 \<and> 1 \<le> canvas_height a \<and> canvas_height a \<le> 1024
     \<and> 1 \<le> length (frames a) \<and> length (frames a) \<le> 512
     \<and> (global_palette a = [] \<or> table_ok (global_palette a))
     \<and> index_ok (colors_of (global_palette a)) (background a)
     \<and> list_all (frame_ok (canvas_width a) (canvas_height a)) (frames a)
     \<and> pixel_total (frames a) \<le> 16777216 \<and> length (animation_bytes a) \<le> 17825792"

lemma length_animation_bytes [simp]:
  "length (animation_bytes a) = 32 + length (global_palette a) + length (frames_bytes (frames a))"
  by (simp add: animation_bytes_def animation_header_def)

lemma animation_header_split:
  assumes "length hdr = 32" "take 8 hdr = ascii ''IBGIF001''" "\<forall>b\<in>set (drop 22 hdr). b = 0"
  shows "hdr = animation_header (at16 hdr 8) (at16 hdr 10) (at16 hdr 12) (at16 hdr 14) (at16 hdr 16) (at32 hdr 18)"
proof -
  have "drop 22 hdr = replicate 10 0"
    using assms(1,3) unfolding all_zero by simp
  then have "drop 8 hdr = be16 (at16 hdr 8) @ be16 (at16 hdr 10) @ be16 (at16 hdr 12) @ be16 (at16 hdr 14)
      @ be16 (at16 hdr 16) @ be32 (at32 hdr 18) @ replicate 10 0"
    using fields16 [of 10 8 hdr] fields16 [of 12 10 hdr] fields16 [of 14 12 hdr] fields16 [of 16 14 hdr]
      fields16 [of 18 16 hdr] fields32 [of 22 18 hdr] assms(1) by simp
  moreover have "hdr = ascii ''IBGIF001'' @ drop 8 hdr"
    unfolding assms(2) [symmetric] by simp
  ultimately show ?thesis
    unfolding animation_header_def by (rule trans [rotated, OF arg_cong])
qed

lemma animation_header_fields:
  assumes "hdr = animation_header w h n k b l"
  shows "length hdr = 32" "take 8 hdr = ascii ''IBGIF001''" "at16 hdr 8 = w" "at16 hdr 10 = h" "at16 hdr 12 = n"
    "at16 hdr 14 = k" "at16 hdr 16 = b" "at32 hdr 18 = l" "\<not> (\<exists>b\<in>set (drop 22 hdr). b \<noteq> 0)"
  unfolding assms animation_header_def
  by (simp_all add: at16_def at32_def be16_def be32_def nth_append)

lemma repeat_word_value: "unat (repeat_word i) = (case i of None \<Rightarrow> 65536 | Some t \<Rightarrow> unat t)"
proof -
  have "unat (ucast (t :: u16) :: u32) = unat t" for t
  proof -
    have "unat t < 2 ^ LENGTH(16)" by (rule unsigned_less)
    then show ?thesis
      unfolding unsigned_ucast_eq by (intro take_bit_nat_eq_self) simp
  qed
  then show ?thesis
    by (simp add: repeat_word_def split: option.split)
qed

lemma repeat_word_decode: "(if repeat_word i \<noteq> 65536 then Some (ucast (repeat_word i)) else None) = i"
proof (cases i)
  case (Some t)
  have "unat t < 2 ^ LENGTH(16)" by (rule unsigned_less)
  then have "unat (repeat_word i) \<noteq> 65536"
    using repeat_word_value [of i] Some by simp
  then have "repeat_word i \<noteq> 65536" by auto
  moreover have "(ucast (ucast t :: u32) :: u16) = t"
    by (rule bit_word_eqI) (simp add: bit_simps)
  ultimately show ?thesis
    using Some by (simp add: repeat_word_def)
qed (simp add: repeat_word_def)

lemma repeat_word_onto:
  assumes "w \<le> 65536"
  shows "w = repeat_word (if w \<noteq> 65536 then Some (ucast w) else None)"
proof (cases "w = 65536")
  case False
  then have "unat w \<noteq> 65536" using word_unat_eq_iff [of w 65536] by simp
  moreover have "unat w \<le> 65536" using assms by (simp add: word_le_nat_alt)
  ultimately have "unat w < 65536" by simp
  then have u: "unat (ucast w :: u16) = unat w"
    unfolding unsigned_ucast_eq by (intro take_bit_nat_eq_self) simp
  have "unat (repeat_word (Some (ucast w))) = unat w"
    using repeat_word_value [of "Some (ucast w)"] u by simp
  then have "repeat_word (Some (ucast w)) = w"
    by (rule word_unat_eq_iff [THEN iffD2])
  with False show ?thesis by simp
qed (simp add: repeat_word_def)

lemma optional_table:
  "length pal = unat (k :: u16) * 3 \<Longrightarrow> k = 0 \<or> unat k \<in> set table_sizes \<longleftrightarrow> pal = [] \<or> table_ok pal"
  using table_ok_colors by (auto simp: table_ok_def colors_of_def table_sizes_def unat_eq_zero)

lemma one_le16: "1 \<le> (w :: u16) \<longleftrightarrow> w \<noteq> 0"
  by (simp add: word_le_nat_alt Suc_le_eq unat_gt_0)

lemma read_protocol_sound:
  assumes r: "read_animation_protocol r = Inr ((a, used), r')"
  shows "valid_animation a \<and> used = length (animation_bytes a) \<and> fst r = animation_bytes a @ fst r' \<and> snd r' = snd r"
proof -
  obtain hdr s where h: "read_exact 32 r = Inr (hdr, s)"
    using r by (cases "read_exact 32 r") (auto simp: read_animation_protocol_def)
  then have h': "fst r = hdr @ fst s" "length hdr = 32" "snd s = snd r"
    by (simp_all add: read_exact_iff)
  define k where "k = at16 hdr 14"
  have k: "k = 0 \<or> unat k \<in> set table_sizes" "palette_size k True = Inr (unat k * 3)"
    using r h by (auto simp: read_animation_protocol_def Let_def palette_size_iff k_def [symmetric] result_simps)
  obtain pal t fs where b: "take 8 hdr = ascii ''IBGIF001''" "at16 hdr 8 \<noteq> 0" "at16 hdr 8 \<le> 1024"
      "at16 hdr 10 \<noteq> 0" "at16 hdr 10 \<le> 1024" "1 \<le> unat (at16 hdr 12)" "unat (at16 hdr 12) \<le> 512"
      "at16 hdr 16 \<noteq> 256 \<longrightarrow> at16 hdr 16 < k" "at32 hdr 18 \<le> 65536" "\<forall>b\<in>set (drop 22 hdr). b = 0"
      "read_exact (unat k * 3) s = Inr (pal, t)"
      "read_frames (at16 hdr 8) (at16 hdr 10) (unat (at16 hdr 12)) 0 (32 + unat k * 3) t = Inr (fs, used, r')"
      "a = \<lparr>canvas_width = at16 hdr 8, canvas_height = at16 hdr 10, global_palette = pal,
         background = (if at16 hdr 16 \<noteq> 256 then Some (ucast (at16 hdr 16)) else None),
         repeat = (if at32 hdr 18 \<noteq> 65536 then Some (ucast (at32 hdr 18)) else None), frames = fs\<rparr>"
    using r unfolding read_animation_protocol_def h map_err_simps bindE_Inr prod.case Let_def k_def [symmetric] k(2)
    by (auto simp: bindE_eq_Inr map_err_Inr not_le not_less simp del: read_exact_iff split: if_split_asm)
  have px: "fst s = pal @ fst t" "length pal = unat k * 3" "snd t = snd s"
    using b(11) by (simp_all add: read_exact_iff)
  have small: "32 + unat k * 3 \<le> 17825792" "unat k \<le> 256"
    using k(1) table_sizes_le [of "unat k"] by auto
  from read_frames_iff [of 0 "32 + unat k * 3"] b(12) small(1)
  have fs: "length fs = unat (at16 hdr 12)" "list_all (frame_ok (at16 hdr 8) (at16 hdr 10)) fs"
      "fst t = frames_bytes fs @ fst r'" "snd r' = snd t" "used = 32 + unat k * 3 + length (frames_bytes fs)"
      "pixel_total fs \<le> 16777216" "used \<le> 17825792"
    by simp_all
  have c: "colors_of pal = unat k" "pal = [] \<or> table_ok pal"
    using px(2) k(1) table_ok_colors(2) optional_table by blast+
  have t: "at16 hdr 16 = index_word (background a)" "index_ok (unat k) (background a)"
    using index_word_iff [OF small(2), of "at16 hdr 16" "background a"] b(8) unfolding b(13)
    by (simp_all add: word_less_nat_alt)
  have l: "at32 hdr 18 = repeat_word (repeat a)"
    unfolding b(13) using repeat_word_onto [OF b(9)] by simp
  have "hdr = animation_header (canvas_width a) (canvas_height a) (of_nat (length (frames a)))
       (of_nat (colors_of (global_palette a))) (index_word (background a)) (repeat_word (repeat a))"
    using animation_header_split [OF h'(2) b(1,10)] unfolding t(1) l
    by (simp add: b(13) c(1) fs(1) k_def)
  then have bytes: "animation_bytes a = hdr @ pal @ frames_bytes fs"
    unfolding animation_bytes_def by (simp add: b(13))
  then have "valid_animation a"
    using b(2-7) t(2) c fs px(2) h'(2) unfolding valid_animation_def bytes by (simp add: b(13) one_le16)
  then show ?thesis
    using bytes h' px fs by simp
qed

lemma read_protocol_complete:
  assumes a: "valid_animation a" and r: "fst r = animation_bytes a @ fst r'" "snd r' = snd r"
  shows "read_animation_protocol r = Inr ((a, length (animation_bytes a)), r')"
proof -
  define k where "k = colors_of (global_palette a)"
  define hdr where "hdr = animation_header (canvas_width a) (canvas_height a) (of_nat (length (frames a)))
       (of_nat k) (index_word (background a)) (repeat_word (repeat a))"
  define s where "s = (global_palette a @ frames_bytes (frames a) @ fst r', snd r)"
  define t where "t = (frames_bytes (frames a) @ fst r', snd r)"
  note hf = animation_header_fields [OF hdr_def]
  have reads: "read_exact 32 r = Inr (hdr, s)" "read_exact (length (global_palette a)) s = Inr (global_palette a, t)"
    using r hf(1) by (simp_all add: read_exact_iff hdr_def s_def t_def animation_bytes_def k_def)
  have k: "k = 0 \<or> k \<in> set table_sizes" "length (global_palette a) = k * 3"
    using a by (auto simp: valid_animation_def table_ok_def k_def colors_of_def)
  then have k': "k \<le> 256" "unat (of_nat k :: u16) = k"
    using table_sizes_le [of k] by (auto simp: unsigned_of_nat take_bit_eq_mod)
  have ps: "palette_size (of_nat k) True = Inr (length (global_palette a))"
    using k k' by (auto simp: palette_size_iff)
  have n: "unat (of_nat (length (frames a)) :: u16) = length (frames a)"
    using a by (simp add: valid_animation_def unsigned_of_nat take_bit_eq_mod)
  have idx: "index_word (background a) \<noteq> 256 \<longrightarrow> index_word (background a) < of_nat k"
      "(if index_word (background a) \<noteq> 256 then Some (ucast (index_word (background a))) else None) = background a"
    using index_word_iff [OF k'(1), of "index_word (background a)" "background a"] a
    by (simp_all add: valid_animation_def k_def [symmetric] word_less_nat_alt k'(2))
  have rep: "repeat_word (repeat a) \<le> 65536"
  proof -
    have "unat w < 2 ^ LENGTH(16)" for w :: u16 by (rule unsigned_less)
    then have "unat (w :: u16) \<le> 65536" for w by (simp add: less_imp_le)
    then show ?thesis
      unfolding word_le_nat_alt repeat_word_value by (simp split: option.split)
  qed
  have fr: "read_frames (canvas_width a) (canvas_height a) (length (frames a)) 0 (32 + length (global_palette a)) t
      = Inr (frames a, length (animation_bytes a), r')"
    using a r(2) k(2) k'(1) by (subst read_frames_iff) (auto simp: t_def valid_animation_def)
  have "read_animation_protocol r = Inr ((\<lparr>canvas_width = canvas_width a, canvas_height = canvas_height a,
      global_palette = global_palette a, background = background a, repeat = repeat a, frames = frames a\<rparr>,
      length (animation_bytes a)), r')"
    unfolding read_animation_protocol_def reads(1) map_err_simps bindE_Inr prod.case Let_def hf ps n reads(2)
      idx(2) repeat_word_decode fr
    using a idx(1) rep hf(9) by (auto simp: valid_animation_def not_le not_less)
  then show ?thesis by simp
qed

definition measured :: "ValidatedAnimation \<times> nat \<Rightarrow> bool" where
  "measured m \<longleftrightarrow> valid_animation (fst m) \<and> snd m = length (animation_bytes (fst m))"

interpretation animation_protocol: stream_format "animation_bytes \<circ> fst" measured read_animation_protocol
proof
  fix r a r'
  show "read_animation_protocol r = Inr (a, r') \<longleftrightarrow> measured a \<and> fst r = (animation_bytes \<circ> fst) a @ fst r' \<and> snd r' = snd r"
    using read_protocol_sound [of r "fst a" "snd a" r'] read_protocol_complete [of "fst a" r r']
    by (cases a) (auto simp: measured_def)
qed

lemma map_sum_Inr: "map_sum id f m = Inr b \<longleftrightarrow> (\<exists>x. m = Inr x \<and> b = f x)"
  by (cases m) auto

lemma read_animation_iff: "read_animation r = Inr a \<longleftrightarrow> valid_animation a \<and> r = (animation_bytes a, False)"
proof -
  have "read_animation r = map_sum id fst (bindE (read_animation_protocol r) (\<lambda>(m, s).
      bindE (map_err Io (read_one s)) (\<lambda>more. if more then Inl InvalidOutput else Inr m)))"
    unfolding read_animation_def
    by (cases "read_animation_protocol r") (auto simp: bindE_def split: sum.split)
  then have "read_animation r = Inr a \<longleftrightarrow> (\<exists>n. bindE (read_animation_protocol r) (\<lambda>(m, s).
      bindE (map_err Io (read_one s)) (\<lambda>more. if more then Inl InvalidOutput else Inr m)) = Inr (a, n))"
    by (auto simp: map_sum_Inr)
  then show ?thesis
    unfolding animation_protocol.read_to_end by (simp add: measured_def)
qed

definition animation_disk :: "ValidatedAnimation \<Rightarrow> bytes" where
  "animation_disk a = animation_bytes a @ replicate (17825792 - length (animation_bytes a)) 0"

lemma read_animation_disk_iff:
  "read_animation_disk r = Inr a \<longleftrightarrow> valid_animation a \<and> r = (animation_disk a, False)"
proof -
  have "read_animation_disk r = map_sum id fst (bindE (read_animation_protocol r) (\<lambda>(m, s).
      bindE (zero_padding InvalidOutput Io 8192 (17825792 - snd m) s) (\<lambda>s.
      bindE (map_err Io (read_one s)) (\<lambda>more. if more then Inl InvalidOutput else Inr m))))"
  proof (cases "read_animation_protocol r")
    case (Inr y)
    obtain m n s where y: "y = ((m, n), s)" by (cases y) auto
    with Inr have "n \<le> 17825792"
      using read_protocol_sound [of r m n s] by (simp add: valid_animation_def)
    then show ?thesis
      unfolding read_animation_disk_def Inr y bindE_Inr prod.case
      by (auto simp: checked_sub_def bindE_def split: sum.split)
  qed (simp add: read_animation_disk_def)
  then have "read_animation_disk r = Inr a \<longleftrightarrow> (\<exists>n. bindE (read_animation_protocol r) (\<lambda>(m, s).
      bindE (zero_padding InvalidOutput Io 8192 (17825792 - snd m) s) (\<lambda>s.
      bindE (map_err Io (read_one s)) (\<lambda>more. if more then Inl InvalidOutput else Inr m))) = Inr (a, n))"
    by (auto simp: map_sum_Inr)
  moreover have "0 < (8192 :: nat)" by simp
  ultimately show ?thesis
    unfolding animation_protocol.read_padded [OF \<open>0 < 8192\<close>, where n = "\<lambda>m. 17825792 - snd m"]
    by (simp add: measured_def animation_disk_def)
qed

end
