(* ===== verification/GifOutput.thy ===== *)
theory GifOutput
  imports GifFrames
begin

unbundle bit_operations_syntax

text \<open>
  The outputs of \<open>crates/media/src/animation.rs\<close>: the still image of the first frame, painted
  without panics as the specification says pixel by pixel, and the GIF file, from which a reader
  of the GIF89a grammar recovers the animation.
\<close>

section \<open>The first frame\<close>

text \<open>The RGBA bytes of the canvas at a point, for one frame on a transparent canvas.\<close>

definition shown_pixel :: "Frame \<Rightarrow> nat \<Rightarrow> nat \<Rightarrow> bytes" where
  "shown_pixel f x y =
     (let l = unat (frame_left f); t = unat (frame_top f); w = unat (frame_width f); h = unat (frame_height f);
          index = frame_pixels f ! ((y - t) * w + (x - l)) in
      if l \<le> x \<and> x < l + w \<and> t \<le> y \<and> y < t + h \<and> transparent f \<noteq> Some index
      then slice_of (unat index * 3) (unat index * 3 + 3) (palette f) @ [255]
      else [0, 0, 0, 0])"

text \<open>The pixel number \<open>k\<close> of a canvas.\<close>

definition quad :: "bytes \<Rightarrow> nat \<Rightarrow> bytes" where
  "quad px k = take 4 (drop (k * 4) px)"

lemma copy_quad:
  assumes "length c = 3" "k * 4 + 4 \<le> length px"
  shows "bindE (copy_into (k * 4) c px) (copy_into (k * 4 + 3) [255])
     = Inr (take (k * 4) px @ (c @ [255]) @ drop (k * 4 + 4) px)"
proof -
  have "copy_into (k * 4) c px = Inr (take (k * 4) px @ c @ drop (k * 4 + 3) px)"
    using assms by (simp add: copy_into_def)
  moreover have "copy_into (k * 4 + 3) [255] (take (k * 4) px @ c @ drop (k * 4 + 3) px)
      = Inr (take (k * 4) px @ (c @ [255]) @ drop (k * 4 + 4) px)"
    using assms by (simp add: copy_into_def min_absorb2 add.commute)
  ultimately show ?thesis by simp
qed

lemma quad_placed:
  assumes "length c = 4" "k * 4 + 4 \<le> length px" "j * 4 + 4 \<le> length px"
  shows "quad (take (k * 4) px @ c @ drop (k * 4 + 4) px) j = (if j = k then c else quad px j)"
proof -
  consider "j = k" | "j < k" | "k < j" by linarith
  then show ?thesis
  proof cases
    case 1
    then show ?thesis using assms by (simp add: quad_def min_absorb2)
  next
    case 2
    then have "min 4 (k * 4 - j * 4) = 4" by simp
    then show ?thesis using assms 2 by (simp add: quad_def drop_take min_absorb2)
  next
    case 3
    then show ?thesis using assms by (simp add: quad_def min_absorb2)
  qed
qed

text \<open>Where the offsets of a frame fall on the canvas.\<close>

lemma offset_point:
  assumes "n < w * h" "l + w \<le> cw" "t + h \<le> (ch :: nat)"
  shows "n mod w + l < cw" "n div w + t < ch" "(n div w + t) * cw + (n mod w + l) < cw * ch"
proof -
  have w: "0 < w" using assms(1) by (cases w) auto
  have d: "n div w < h"
    using assms(1) by (simp add: less_mult_imp_div_less mult.commute)
  show x: "n mod w + l < cw" and y: "n div w + t < ch"
    using mod_less_divisor [OF w, of n] d assms by linarith+
  have "(n div w + t) * cw + (n mod w + l) < (n div w + t + 1) * cw"
    using x by simp
  also have "\<dots> \<le> ch * cw"
    using y by (intro mult_le_mono1) simp
  finally show "(n div w + t) * cw + (n mod w + l) < cw * ch"
    by (simp add: mult.commute)
qed

lemma point_unique:
  assumes "x < (w :: nat)" "x' < w"
  shows "y * w + x = y' * w + x' \<longleftrightarrow> x = x' \<and> y = y'"
proof
  assume e: "y * w + x = y' * w + x'"
  have "(y * w + x) mod w = x" "(y' * w + x') mod w = x'" "(y * w + x) div w = y" "(y' * w + x') div w = y'"
    using assms by simp_all
  then show "x = x' \<and> y = y'"
    unfolding e by simp
qed simp

definition inside :: "Frame \<Rightarrow> nat \<Rightarrow> nat \<Rightarrow> bool" where
  "inside f x y \<longleftrightarrow> unat (frame_left f) \<le> x \<and> x < unat (frame_left f) + unat (frame_width f)
     \<and> unat (frame_top f) \<le> y \<and> y < unat (frame_top f) + unat (frame_height f)"

definition offset_of :: "Frame \<Rightarrow> nat \<Rightarrow> nat \<Rightarrow> nat" where
  "offset_of f x y = (y - unat (frame_top f)) * unat (frame_width f) + (x - unat (frame_left f))"

lemma offset_iff:
  assumes "inside f x y"
  shows "offset_of f x y = n \<longleftrightarrow>
     x = n mod unat (frame_width f) + unat (frame_left f) \<and> y = n div unat (frame_width f) + unat (frame_top f)"
proof -
  define w where "w = unat (frame_width f)"
  have w: "0 < w" "x - unat (frame_left f) < w"
    using assms by (auto simp: inside_def w_def)
  have "offset_of f x y = n \<longleftrightarrow> (y - unat (frame_top f)) * w + (x - unat (frame_left f)) = (n div w) * w + n mod w"
    by (simp add: offset_of_def w_def)
  also have "\<dots> \<longleftrightarrow> x - unat (frame_left f) = n mod w \<and> y - unat (frame_top f) = n div w"
    using w by (intro point_unique) simp_all
  also have "\<dots> \<longleftrightarrow> x = n mod w + unat (frame_left f) \<and> y = n div w + unat (frame_top f)"
    using assms by (auto simp: inside_def)
  finally show ?thesis by (simp add: w_def)
qed

definition painted :: "ValidatedAnimation \<Rightarrow> Frame \<Rightarrow> nat \<Rightarrow> bytes \<Rightarrow> bool" where
  "painted a f n px \<longleftrightarrow> length px = unat (canvas_width a) * unat (canvas_height a) * 4
     \<and> (\<forall>x < unat (canvas_width a). \<forall>y < unat (canvas_height a).
          quad px (y * unat (canvas_width a) + x)
            = (if inside f x y \<and> offset_of f x y < n then shown_pixel f x y else [0, 0, 0, 0]))"

lemma shown_at:
  "inside f x y \<Longrightarrow> shown_pixel f x y =
     (if transparent f \<noteq> Some (frame_pixels f ! offset_of f x y)
      then slice_of (unat (frame_pixels f ! offset_of f x y) * 3) (unat (frame_pixels f ! offset_of f x y) * 3 + 3) (palette f) @ [255]
      else [0, 0, 0, 0])"
  by (simp add: shown_pixel_def inside_def offset_of_def Let_def)

lemma shown_outside: "\<not> inside f x y \<Longrightarrow> shown_pixel f x y = [0, 0, 0, 0]"
  by (auto simp: shown_pixel_def inside_def Let_def)

lemma quad_end: "q + 1 \<le> n \<Longrightarrow> q * 4 + 4 \<le> n * (4 :: nat)"
  by simp

lemma point_bound:
  assumes "x < cw" "y < (ch :: nat)"
  shows "(y * cw + x) * 4 + 4 \<le> cw * ch * 4"
proof -
  have "y * cw + x + 1 \<le> (y + 1) * cw" using assms by simp
  also have "\<dots> \<le> ch * cw" using assms by (intro mult_le_mono1) simp
  finally have "y * cw + x + 1 \<le> cw * ch" by (simp add: mult.commute)
  then show ?thesis by (rule quad_end)
qed

lemma paint_step:
  assumes f: "frame_ok (canvas_width a) (canvas_height a) f" and n: "n < length (frame_pixels f)"
    and p: "painted a f n px"
  shows "\<exists>px'. paint_index a f px (n, frame_pixels f ! n) = Inr px' \<and> painted a f (Suc n) px'"
proof -
  define index where "index = frame_pixels f ! n"
  define w cw ch where "w = unat (frame_width f)" and "cw = unat (canvas_width a)" and "ch = unat (canvas_height a)"
  define x0 y0 where "x0 = n mod w + unat (frame_left f)" and "y0 = n div w + unat (frame_top f)"
  have bounds: "unat (frame_left f) + w \<le> cw" "unat (frame_top f) + unat (frame_height f) \<le> ch"
      "n < w * unat (frame_height f)" "frame_width f \<noteq> 0"
    using f n by (simp_all add: frame_ok_def w_def cw_def ch_def)
  have at: "x0 < cw" "y0 < ch"
    unfolding x0_def y0_def using offset_point(1,2) [OF bounds(3,1,2)] by simp_all
  have idx: "unat index < colors_of (palette f)" "length (palette f) = 3 * colors_of (palette f)"
    using f n by (auto simp: frame_ok_def table_ok_def index_def)
  have len: "length px = cw * ch * 4"
    using p by (simp add: painted_def cw_def ch_def)
  show ?thesis
  proof (cases "transparent f = Some index")
    case True
    have "shown_pixel f x y = [0, 0, 0, 0]" if "inside f x y" "offset_of f x y = n" for x y
      using shown_at [OF that(1)] that(2) True by (simp add: index_def)
    then have "painted a f (Suc n) px"
      using p by (auto simp: painted_def less_Suc_eq)
    then show ?thesis
      using True by (simp add: paint_index_def index_def)
  next
    case False
    define c where "c = slice_of (unat index * 3) (unat index * 3 + 3) (palette f)"
    define px' where "px' = take ((y0 * cw + x0) * 4) px @ (c @ [255]) @ drop ((y0 * cw + x0) * 4 + 4) px"
    have c: "length c = 3" "\<not> length (palette f) < unat index * 3 + 3"
      using idx by (simp_all add: c_def slice_of_def)
    have b: "(y0 * cw + x0) * 4 + 4 \<le> length px"
      unfolding len by (rule point_bound [OF at])
    have "paint_index a f px (n, index) = Inr px'"
      unfolding paint_index_def prod.case px'_def
      using False bounds(4) c(2) copy_quad [OF c(1) b]
      by (simp add: Let_def c_def x0_def y0_def w_def cw_def)
    moreover have "painted a f (Suc n) px'"
      unfolding painted_def cw_def [symmetric] ch_def [symmetric]
    proof (intro conjI allI impI)
      show "length px' = cw * ch * 4"
        using b c by (simp add: px'_def len)
      fix x y
      assume xy: "x < cw" "y < ch"
      have "quad px' (y * cw + x) = (if y * cw + x = y0 * cw + x0 then c @ [255] else quad px (y * cw + x))"
        unfolding px'_def using c(1) point_bound [OF xy] by (intro quad_placed b) (simp_all only: len length_append, simp)
      also have "y * cw + x = y0 * cw + x0 \<longleftrightarrow> x = x0 \<and> y = y0"
        using xy at by (intro point_unique)
      finally have q: "quad px' (y * cw + x) = (if x = x0 \<and> y = y0 then c @ [255] else quad px (y * cw + x))" .
      have old: "quad px (y * cw + x) = (if inside f x y \<and> offset_of f x y < n then shown_pixel f x y else [0, 0, 0, 0])"
        using p xy by (simp add: painted_def cw_def ch_def)
      show "quad px' (y * cw + x) = (if inside f x y \<and> offset_of f x y < Suc n then shown_pixel f x y else [0, 0, 0, 0])"
      proof (cases "x = x0 \<and> y = y0")
        case True
        have "n mod w < w" "n div w < unat (frame_height f)"
          using bounds(3) by (auto simp: less_mult_imp_div_less mult.commute intro!: mod_less_divisor gr0I)
        then have i: "inside f x y"
          using True by (simp add: inside_def x0_def y0_def w_def)
        then have o: "offset_of f x y = n"
          using True offset_iff [OF i, of n] by (simp add: x0_def y0_def w_def)
        show ?thesis
          using q True i o shown_at [OF i] False by (simp add: c_def index_def)
      next
        case other: False
        have "\<not> (inside f x y \<and> offset_of f x y = n)"
          using other offset_iff [of f x y n] by (auto simp: x0_def y0_def w_def)
        then show ?thesis
          using q other old by (auto simp: less_Suc_eq)
      qed
    qed
    ultimately show ?thesis
      by (auto simp: index_def)
  qed
qed

lemma paint_prefix:
  assumes "frame_ok (canvas_width a) (canvas_height a) f" "n \<le> length (frame_pixels f)"
  shows "\<exists>px. foldE (paint_index a f) (replicate (unat (canvas_width a) * unat (canvas_height a) * 4) 0)
      (take n (enumerate 0 (frame_pixels f))) = Inr px \<and> painted a f n px"
  using assms(2)
proof (induction n)
  case 0
  have "quad (replicate (w * h * 4) 0) (y * w + x) = [0, 0, 0, 0]" if "x < w" "y < h" for w h x y
  proof -
    have "min (w * h * 4 - (y * w + x) * 4) 4 = 4"
      using point_bound [OF that] by simp
    then show ?thesis
      by (simp add: quad_def take_replicate numeral_eq_Suc)
  qed
  then show ?case by (simp add: painted_def)
next
  case (Suc n)
  obtain px where px: "foldE (paint_index a f) (replicate (unat (canvas_width a) * unat (canvas_height a) * 4) 0)
      (take n (enumerate 0 (frame_pixels f))) = Inr px" "painted a f n px"
    using Suc by auto
  have n: "n < length (frame_pixels f)" using Suc.prems by simp
  have "take (Suc n) (enumerate 0 (frame_pixels f)) = take n (enumerate 0 (frame_pixels f)) @ [(n, frame_pixels f ! n)]"
    using n by (simp add: take_Suc_conv_app_nth nth_enumerate_eq)
  then show ?case
    using px paint_step [OF assms(1) n px(2)] by (auto simp: foldE_append)
qed

theorem first_frame_spec:
  assumes a: "valid_animation a"
  shows "\<exists>p. first_frame a = Inr p \<and> valid_output p \<and> dimensions p = animation_dimensions a
     \<and> (\<forall>x < unat (canvas_width a). \<forall>y < unat (canvas_height a).
          quad (pixels p) (y * unat (canvas_width a) + x) = shown_pixel (hd (frames a)) x y)"
proof -
  obtain f fs where f: "frames a = f # fs"
    using a by (cases "frames a") (auto simp: valid_animation_def)
  have ok: "frame_ok (canvas_width a) (canvas_height a) f"
    using a f by (simp add: valid_animation_def)
  obtain px where px: "foldE (paint_index a f) (replicate (unat (canvas_width a) * unat (canvas_height a) * 4) 0)
      (enumerate 0 (frame_pixels f)) = Inr px" "painted a f (length (frame_pixels f)) px"
    using paint_prefix [OF ok order_refl] by auto
  have u: "unat (ucast (w :: u16) :: u32) = unat w" for w
  proof -
    have "unat w < 2 ^ LENGTH(16)" by (rule unsigned_less)
    then show ?thesis
      unfolding unsigned_ucast_eq by (intro take_bit_nat_eq_self) simp
  qed
  have ok2: "pixels_ok (animation_dimensions a) px"
    using a px(2) by (simp add: pixels_ok_def animation_dimensions_def painted_def valid_animation_def word_le_nat_alt u)
  have "offset_of f x y < length (frame_pixels f)" if "inside f x y" for x y
  proof -
    have "(y - unat (frame_top f)) + 1 \<le> unat (frame_height f)" "x - unat (frame_left f) < unat (frame_width f)"
      using that by (auto simp: inside_def)
    then have "(y - unat (frame_top f)) * unat (frame_width f) + (x - unat (frame_left f)) < (y - unat (frame_top f) + 1) * unat (frame_width f)"
      by simp
    also have "\<dots> \<le> unat (frame_height f) * unat (frame_width f)"
      using \<open>(y - unat (frame_top f)) + 1 \<le> unat (frame_height f)\<close> by (rule mult_le_mono1)
    finally show ?thesis
      using ok by (simp add: offset_of_def frame_ok_def mult.commute)
  qed
  then have "\<forall>x < unat (canvas_width a). \<forall>y < unat (canvas_height a).
      quad px (y * unat (canvas_width a) + x) = shown_pixel f x y"
    using px(2) shown_outside [of f] by (auto simp: painted_def)
  moreover define p where
    "p = \<lparr>width = fst (animation_dimensions a), height = snd (animation_dimensions a), pixels = px\<rparr>"
  moreover have "from_validated_pixels (animation_dimensions a) px = Inr p"
    using ok2 by (simp add: from_validated_pixels_iff p_def)
  then have "first_frame a = Inr p"
    using px(1) f by (simp add: first_frame_def)
  ultimately show ?thesis
    using ok2 f by (intro exI [of _ p]) (simp add: valid_output_def dimensions_def)
qed

section \<open>The specification: a reader of the GIF89a grammar\<close>

definition take_n :: "nat \<Rightarrow> bytes \<Rightarrow> (bytes \<times> bytes) option" where
  "take_n n bs = (if n \<le> length bs then Some (take n bs, drop n bs) else None)"

definition le_at :: "bytes \<Rightarrow> nat \<Rightarrow> u16" where
  "le_at bs i = of_be16 (bs ! (i + 1)) (bs ! i)"

definition color_table :: "u8 \<Rightarrow> bytes \<Rightarrow> (bytes \<times> bytes) option" where
  "color_table flags bs = (if bit flags 7 then take_n (3 * 2 ^ (unat (flags AND 7) + 1)) bs else Some ([], bs))"

text \<open>An image descriptor with its table and data, under the graphic control before it.\<close>

definition gif_image :: "u8 \<times> u16 \<times> u8 \<Rightarrow> bytes \<Rightarrow> (Frame \<times> bytes) option" where
  "gif_image control bs =
     Option.bind (take_n 9 bs) (\<lambda>(d, bs).
     Option.bind (color_table (d ! 8) bs) (\<lambda>(table, bs).
     Option.bind (take_n 1 bs) (\<lambda>(minimum, bs).
     if minimum \<noteq> [8] then None
     else Option.bind (image_data bs) (\<lambda>(px, bs).
       if length px \<noteq> unat (le_at d 4) * unat (le_at d 6) then None
       else Some (\<lparr>frame_left = le_at d 0, frame_top = le_at d 2, frame_width = le_at d 4, frame_height = le_at d 6,
              delay = fst (snd control),
              transparent = (if bit (fst control) 0 then Some (snd (snd control)) else None),
              disposal = drop_bit 2 (fst control) AND 7, palette = table, frame_pixels = px\<rparr>, bs)))))"

lemma sub_blocks_shorter: "sub_blocks bs = Some (data, rest) \<Longrightarrow> length rest < length bs"
proof (induction bs arbitrary: data rule: sub_blocks.induct)
  case (2 n bs)
  show ?case
  proof (cases "n = 0")
    case False
    then obtain data' where "sub_blocks (drop (unat n) bs) = Some (data', rest)" "\<not> length bs < unat n"
      using 2(2) by (auto split: if_split_asm)
    then show ?thesis
      using 2(1) [OF False] by fastforce
  qed (use 2(2) in simp)
qed simp

lemma gif_image_shorter: "gif_image control bs = Some (f, bs') \<Longrightarrow> length bs' < length bs"
  by (auto simp: gif_image_def take_n_def color_table_def image_data_def bind_eq_Some_conv
      split: if_split_asm dest!: sub_blocks_shorter)

function gif_body :: "u8 \<times> u16 \<times> u8 \<Rightarrow> u16 option \<Rightarrow> bytes \<Rightarrow> (u16 option \<times> Frame list) option" where
  "gif_body control loops [] = None"
| "gif_body control loops (b # bs) =
     (if b = 0x3b then (if bs = [] then Some (loops, []) else None)
      else if b = 0x2c then
        (case gif_image control bs of
           None \<Rightarrow> None
         | Some (f, bs') \<Rightarrow> map_option (\<lambda>(l, fs). (l, f # fs)) (gif_body (0, 0, 0) loops bs'))
      else if b = 0x21 \<and> take 2 bs = [0xf9, 4] \<and> 7 \<le> length bs \<and> bs ! 6 = 0 then
        gif_body (bs ! 2, le_at bs 3, bs ! 5) loops (drop 7 bs)
      else if b = 0x21 \<and> take 15 bs = [0xff, 11] @ ascii ''NETSCAPE2.0'' @ [3, 1] \<and> 18 \<le> length bs \<and> bs ! 17 = 0 then
        gif_body control (Some (le_at bs 15)) (drop 18 bs)
      else None)"
  by pat_completeness auto

termination
  by (relation "measure (\<lambda>(c, l, bs). length bs)") (auto dest: gif_image_shorter)

declare gif_body.simps [simp del]

definition read_gif :: "bytes \<Rightarrow> (u16 \<times> u16 \<times> bytes \<times> u16 option \<times> Frame list) option" where
  "read_gif bs =
     (if take 6 bs \<noteq> ascii ''GIF89a'' \<or> length bs < 13 then None
      else Option.bind (color_table (bs ! 10) (drop 13 bs)) (\<lambda>(table, bs').
           map_option (\<lambda>(l, fs). (le_at bs 6, le_at bs 8, table, l, fs)) (gif_body (0, 0, 0) None bs')))"

section \<open>What the encoder writes\<close>

lemma encode_literals_append: "encode_literals px out = out @ encode_literals px []"
  unfolding encode_literals_def Let_def write_blocks by simp

definition control_byte :: "Frame \<Rightarrow> u8" where
  "control_byte f = push_bit 2 (disposal f) OR (if transparent f \<noteq> None then 1 else 0)"

definition padded :: "Frame \<Rightarrow> Frame" where
  "padded f = f\<lparr>palette := palette f @ replicate (768 - length (palette f)) 0\<rparr>"

definition frame_descriptor :: "Frame \<Rightarrow> bytes" where
  "frame_descriptor f = concat (map le16 [frame_left f, frame_top f, frame_width f, frame_height f]) @ [0x87]"

definition frame_gif :: "Frame \<Rightarrow> bytes" where
  "frame_gif f =
     [0x21, 0xf9, 4, control_byte f] @ le16 (delay f) @ [case transparent f of None \<Rightarrow> 0 | Some t \<Rightarrow> t, 0, 0x2c]
     @ frame_descriptor f @ palette (padded f) @ [8] @ encode_literals (frame_pixels f) []"

lemma length_le16 [simp]: "length (le16 w) = 2"
  by (simp add: le16_def)

lemma resize_padded: "length pal \<le> 768 \<Longrightarrow>
    resize (length (pre @ pal) + 768 - length pal) (pre @ pal) = pre @ pal @ replicate (768 - length pal) 0"
  by (simp add: resize_def)

lemma write_gif_frame_iff:
  assumes "length (palette f) \<le> 768"
  shows "write_gif_frame out f = Inr out' \<longleftrightarrow> out' = out @ frame_gif f \<and> length out' < 20971520"
proof -
  define pre where "pre = out @ [0x21, 0xf9, 4, control_byte f] @ le16 (delay f)
      @ [case transparent f of None \<Rightarrow> 0 | Some t \<Rightarrow> t, 0, 0x2c] @ frame_descriptor f"
  have "write_gif_frame out f =
      (let out = resize (length (pre @ palette f) + 768 - length (palette f)) (pre @ palette f) @ [8];
           out = encode_literals (frame_pixels f) out in
       if length out \<ge> 20971520 then Inl InvalidOutput else Inr out)"
    by (simp add: write_gif_frame_def pre_def control_byte_def frame_descriptor_def Let_def)
  moreover have "encode_literals (frame_pixels f) (resize (length (pre @ palette f) + 768 - length (palette f)) (pre @ palette f) @ [8])
      = out @ frame_gif f"
    unfolding resize_padded [OF assms]
    by (subst encode_literals_append) (simp add: pre_def frame_gif_def padded_def)
  ultimately have "write_gif_frame out f =
      (if length (out @ frame_gif f) \<ge> 20971520 then Inl InvalidOutput else Inr (out @ frame_gif f))"
    unfolding Let_def by simp
  then show ?thesis by auto
qed

lemma le_at_le16: "le_at (le16 w @ xs) 0 = w"
  by (simp add: le_at_def le16_def)

lemma le_at_drop: "i + 2 \<le> length bs \<Longrightarrow> le_at bs i = le_at (drop i bs) 0"
  by (simp add: le_at_def add.commute)

lemma descriptor_fields:
  "length (frame_descriptor f) = 9" "le_at (frame_descriptor f) 0 = frame_left f" "le_at (frame_descriptor f) 2 = frame_top f"
  "le_at (frame_descriptor f) 4 = frame_width f" "le_at (frame_descriptor f) 6 = frame_height f" "frame_descriptor f ! 8 = 0x87"
  by (simp_all add: frame_descriptor_def le_at_def le16_def)

lemma local_table: "color_table 0x87 (xs @ ys) = Some (xs, ys)" if "length xs = 768"
  using that by (simp add: color_table_def take_n_def)

lemma take_n_append: "length xs = n \<Longrightarrow> take_n n (xs @ ys) = Some (xs, ys)"
  by (simp add: take_n_def)

lemma small_values:
  assumes "(d :: u8) \<le> 3"
  shows "d \<in> {0, 1, 2, 3}"
proof -
  have "unat d \<le> 3" using assms by (simp add: word_le_nat_alt)
  then have "unat d = 0 \<or> unat d = 1 \<or> unat d = 2 \<or> unat d = 3" by linarith
  then show ?thesis
    by (auto simp: word_unat_eq_iff)
qed

lemma control_fields:
  assumes "disposal f \<le> 3"
  shows "bit (control_byte f) 0 \<longleftrightarrow> transparent f \<noteq> None" "drop_bit 2 (control_byte f) AND 7 = disposal f"
proof -
  have "disposal f \<in> {0, 1, 2, 3}"
    using assms small_values by blast
  then show "bit (control_byte f) 0 \<longleftrightarrow> transparent f \<noteq> None" "drop_bit 2 (control_byte f) AND 7 = disposal f"
    by (auto simp: control_byte_def bit_simps)
qed


lemma image_read:
  assumes f: "frame_ok cw ch f"
  shows "gif_image (control_byte f, delay f, case transparent f of None \<Rightarrow> 0 | Some t \<Rightarrow> t)
      (frame_descriptor f @ palette (padded f) @ [8] @ encode_literals (frame_pixels f) [] @ rest)
    = Some (padded f, rest)"
proof -
  have pal: "length (palette (padded f)) = 768"
    using f table_sizes_le [of "colors_of (palette f)"] by (auto simp: frame_ok_def table_ok_def padded_def)
  have data: "image_data (encode_literals (frame_pixels f) [] @ rest) = Some (frame_pixels f, rest)"
    using literals_decoded [of "frame_pixels f" "[]" rest] by auto
  have c: "bit (control_byte f) 0 \<longleftrightarrow> transparent f \<noteq> None" "drop_bit 2 (control_byte f) AND 7 = disposal f"
    using f control_fields by (simp_all add: frame_ok_def)
  have steps: "take_n 9 (frame_descriptor f @ xs) = Some (frame_descriptor f, xs)"
      "color_table 0x87 (palette (padded f) @ xs) = Some (palette (padded f), xs)"
      "take_n 1 ([8] @ xs) = Some ([8], xs)" for xs
    by (rule take_n_append, rule descriptor_fields, rule local_table, rule pal) (rule take_n_append, simp)
  have n: "length (frame_pixels f) = unat (frame_width f) * unat (frame_height f)"
    using f by (simp add: frame_ok_def)
  have t: "(if transparent f \<noteq> None then Some (case transparent f of None \<Rightarrow> 0 | Some t \<Rightarrow> t) else None) = transparent f"
    by (cases "transparent f") simp_all
  show ?thesis
    unfolding gif_image_def steps bind.simps prod.case descriptor_fields data fst_conv snd_conv c t n
    by (simp add: steps data n padded_def)
qed

lemma frame_read:
  assumes "frame_ok cw ch f"
  shows "gif_body c loops (frame_gif f @ rest) = map_option (\<lambda>(l, fs). (l, padded f # fs)) (gif_body (0, 0, 0) loops rest)"
proof -
  define t where "t = (case transparent f of None \<Rightarrow> 0 | Some t \<Rightarrow> t)"
  define tail where "tail = frame_descriptor f @ palette (padded f) @ [8] @ encode_literals (frame_pixels f) [] @ rest"
  define ctl where "ctl = [0xf9, 4, control_byte f] @ le16 (delay f) @ [t, 0]"
  have split: "frame_gif f @ rest = 0x21 # ctl @ 0x2c # tail"
    by (simp add: frame_gif_def ctl_def t_def tail_def)
  have fields: "take 2 (ctl @ xs) = [0xf9, 4]" "7 \<le> length (ctl @ xs)" "(ctl @ xs) ! 6 = 0" "(ctl @ xs) ! 2 = control_byte f"
      "le_at (ctl @ xs) 3 = delay f" "(ctl @ xs) ! 5 = t" "drop 7 (ctl @ xs) = xs" for xs
    by (simp_all add: ctl_def le_at_def le16_def)
  have "gif_body c loops (frame_gif f @ rest) = gif_body (control_byte f, delay f, t) loops (0x2c # tail)"
    unfolding split by (subst gif_body.simps(2)) (use fields [of "0x2c # tail"] in simp)
  also have "\<dots> = map_option (\<lambda>(l, fs). (l, padded f # fs)) (gif_body (0, 0, 0) loops rest)"
    using image_read [OF assms, of rest] unfolding t_def [symmetric] tail_def [symmetric]
    by (subst gif_body.simps(2)) simp
  finally show ?thesis .
qed

lemma frames_read:
  "list_all (frame_ok cw ch) fs \<Longrightarrow>
     gif_body (0, 0, 0) loops (concat (map frame_gif fs) @ [0x3b]) = Some (loops, map padded fs)"
proof (induction fs)
  case Nil
  then show ?case by (simp add: gif_body.simps(2))
next
  case (Cons f fs)
  then show ?case
    using frame_read [of cw ch f "(0, 0, 0)" loops "concat (map frame_gif fs) @ [0x3b]"] by simp
qed

definition netscape :: "u16 option \<Rightarrow> bytes" where
  "netscape loops = (case loops of None \<Rightarrow> []
     | Some n \<Rightarrow> [0x21, 0xff, 0x0b] @ ascii ''NETSCAPE2.0'' @ [0x03, 0x01] @ le16 n @ [0])"

lemma netscape_read: "gif_body c None (netscape loops @ rest) = gif_body c loops rest"
proof (cases loops)
  case (Some n)
  define body where "body = [0xff, 11] @ ascii ''NETSCAPE2.0'' @ [3, 1] @ le16 n @ 0 # rest"
  have split: "netscape (Some n) @ rest = 0x21 # body"
    by (simp add: netscape_def body_def)
  have fields: "take 15 body = [0xff, 11] @ ascii ''NETSCAPE2.0'' @ [3, 1]" "18 \<le> length body"
      "body ! 17 = 0" "le_at body 15 = n" "drop 18 body = rest" "take 2 body \<noteq> [0xf9, 4]"
    by (simp_all add: body_def le_at_def le16_def nth_append)
  show ?thesis
    unfolding Some split by (subst gif_body.simps(2)) (use fields in simp)
qed (simp add: netscape_def)

definition gif_flags :: "nat \<Rightarrow> u8" where
  "gif_flags colors = (if colors = 0 then 0 else 0x80 OR 0x70 OR (of_nat (ilog2 colors) - 1))"

lemma flags_table:
  "\<forall>k\<in>set table_sizes. bit (gif_flags k) 7 \<and> 3 * 2 ^ (unat (gif_flags k AND 7) + 1) = 3 * k"
  unfolding gif_flags_def table_sizes_def by code_simp

lemma global_table:
  assumes "pal = [] \<or> table_ok pal"
  shows "color_table (gif_flags (colors_of pal)) (pal @ rest) = Some (pal, rest)"
  using assms
proof
  assume "table_ok pal"
  then have "bit (gif_flags (colors_of pal)) 7" "3 * 2 ^ (unat (gif_flags (colors_of pal) AND 7) + 1) = length pal"
    using flags_table by (auto simp: table_ok_def)
  then show ?thesis
    unfolding color_table_def by (simp only: if_True take_n_append)
qed (simp add: color_table_def gif_flags_def colors_of_def)

lemma gif_head_form:
  "gif_head a = ascii ''GIF89a'' @ le16 (canvas_width a) @ le16 (canvas_height a)
     @ [gif_flags (colors_of (global_palette a)), case background a of None \<Rightarrow> 0 | Some b \<Rightarrow> b, 0]
     @ global_palette a @ netscape (repeat a)"
  by (simp add: gif_head_def gif_flags_def colors_of_def netscape_def Let_def split: option.split)

lemma write_frames:
  assumes "list_all (frame_ok cw ch) fs"
  shows "foldE write_gif_frame out fs = Inr out' \<Longrightarrow>
    out' = out @ concat (map frame_gif fs) \<and> (fs \<noteq> [] \<longrightarrow> length out' < 20971520)"
  using assms
proof (induction fs arbitrary: out)
  case (Cons f fs)
  have "length (palette f) \<le> 768"
    using Cons.prems(2) table_sizes_le [of "colors_of (palette f)"] by (auto simp: frame_ok_def table_ok_def)
  then obtain mid where "mid = out @ frame_gif f" "length mid < 20971520" "foldE write_gif_frame mid fs = Inr out'"
    using Cons.prems(1) write_gif_frame_iff by (auto simp: bindE_eq_Inr)
  then show ?case
    using Cons.IH [of mid] Cons.prems(2) by (cases fs) auto
qed simp

theorem encode_gif_spec:
  assumes a: "valid_animation a" and e: "encode_gif digest md5_digest a = Inr g"
  shows "read_gif (gif_bytes g) = Some (canvas_width a, canvas_height a, global_palette a, repeat a, map padded (frames a))
     \<and> length (gif_bytes g) \<le> 20971520 \<and> gif_dimensions g = animation_dimensions a"
proof -
  have ok: "list_all (frame_ok (canvas_width a) (canvas_height a)) (frames a)" "frames a \<noteq> []"
    using a by (auto simp: valid_animation_def)
  obtain out where out: "foldE write_gif_frame (gif_head a) (frames a) = Inr out" "gif_bytes g = out @ [0x3b]"
      "gif_dimensions g = animation_dimensions a"
    using e by (auto simp: encode_gif_def bindE_eq_Inr Let_def)
  note w = write_frames [OF ok(1) out(1)]
  define rest where "rest = netscape (repeat a) @ concat (map frame_gif (frames a)) @ [0x3b]"
  define start where "start = ascii ''GIF89a'' @ le16 (canvas_width a) @ le16 (canvas_height a)
     @ [gif_flags (colors_of (global_palette a)), case background a of None \<Rightarrow> 0 | Some b \<Rightarrow> b, 0]"
  have bytes: "gif_bytes g = start @ global_palette a @ rest"
    using w by (simp add: out(2) gif_head_form start_def rest_def)
  have s: "take 6 (start @ xs) = ascii ''GIF89a''" "length start = 13" "(start @ xs) ! 10 = gif_flags (colors_of (global_palette a))"
      "le_at (start @ xs) 6 = canvas_width a" "le_at (start @ xs) 8 = canvas_height a" "drop 13 (start @ xs) = xs" for xs
    by (simp_all add: start_def le_at_def le16_def nth_append)
  have "gif_body (0, 0, 0) None rest = Some (repeat a, map padded (frames a))"
    unfolding rest_def netscape_read by (rule frames_read [OF ok(1)])
  moreover have "color_table (gif_flags (colors_of (global_palette a))) (global_palette a @ rest) = Some (global_palette a, rest)"
    using a by (intro global_table) (simp add: valid_animation_def)
  ultimately have "read_gif (gif_bytes g)
      = Some (canvas_width a, canvas_height a, global_palette a, repeat a, map padded (frames a))"
    unfolding read_gif_def bytes using s by simp
  moreover have "length out < 20971520"
    using w ok by blast
  then have "length (gif_bytes g) \<le> 20971520"
    unfolding out(2) by simp
  ultimately show ?thesis
    using out(3) by blast
qed

end
