(* ===== verification/GuestGif.thy ===== *)
theory GuestGif
  imports GifFrames GuestPaired
begin

unbundle bit_operations_syntax

text \<open>
  \<open>apps/media-guest/src/animation.rs\<close>: the guest's GIF job. The block scan, the padded input, the
  checks on every frame, the decompression loop and the interlacing are the code's; the GIF
  container parser and the LZW decoder it calls (crates \<open>gif\<close> and \<open>weezl\<close>) are parameters.
\<close>

section \<open>The block scan\<close>

definition GIF_MAX_PIXELS :: nat where [simp]: "GIF_MAX_PIXELS = 16 * 1024 * 1024"
definition GIF_MAX_WIRE :: nat where [simp]: "GIF_MAX_WIRE = 17 * 1024 * 1024"

datatype gif_error = GifRejected | GifOther | GifRead io_error

type_synonym 'a gif = "gif_error + 'a"

record Blocks =
  block_bytes :: bytes
  block_offset :: nat

definition take_block :: "nat \<Rightarrow> Blocks \<Rightarrow> (bytes \<times> Blocks) gif" where
  "take_block count c =
     (case checked_add64 (block_offset c) count of
       None \<Rightarrow> Inl GifRejected
     | Some e \<Rightarrow>
         if e \<le> length (block_bytes c)
         then Inr (slice_of (block_offset c) e (block_bytes c), c\<lparr>block_offset := e\<rparr>)
         else Inl GifRejected)"

definition block_byte :: "Blocks \<Rightarrow> (u8 \<times> Blocks) gif" where
  "block_byte c = bindE (take_block 1 c) (\<lambda>(bs, c). Inr (bs ! 0, c))"

lemma take_block_moves:
  "take_block n c = Inr (bs, c') \<Longrightarrow> block_bytes c' = block_bytes c \<and> block_offset c' = block_offset c + n
     \<and> block_offset c' \<le> length (block_bytes c') \<and> bs = slice_of (block_offset c) (block_offset c + n) (block_bytes c)"
  by (auto simp: take_block_def checked_add64_def split: option.split_asm if_split_asm)

lemma block_byte_moves:
  "block_byte c = Inr (b, c') \<Longrightarrow> block_bytes c' = block_bytes c \<and> block_offset c' = block_offset c + 1
     \<and> block_offset c' \<le> length (block_bytes c')"
  by (auto simp: block_byte_def result_simps dest!: take_block_moves)

lemma skip_smaller:
  "block_byte c = Inr (n, d) \<Longrightarrow> take_block k d = Inr (bs, e) \<Longrightarrow>
     length (block_bytes e) - block_offset e < length (block_bytes c) - block_offset c"
  by (drule block_byte_moves, drule take_block_moves) auto

function skip_subblocks :: "Blocks \<Rightarrow> Blocks gif" where
  "skip_subblocks c =
     (case block_byte c of
       Inl e \<Rightarrow> Inl e
     | Inr (count, c) \<Rightarrow>
         if count = 0 then Inr c
         else (case take_block (unat count) c of Inl e \<Rightarrow> Inl e | Inr (_, c) \<Rightarrow> skip_subblocks c))"
  by pat_completeness auto

termination
  by (relation "measure (\<lambda>c. length (block_bytes c) - block_offset c)")
    (auto intro: skip_smaller)

declare skip_subblocks.simps [simp del]

record SourceScan =
  scan_repeat :: u32
  scan_cleanup :: bool
  scan_frames :: nat

record scanner =
  cursor :: Blocks
  compressed_bytes :: nat
  pending_comment :: bool
  needs_cleanup :: bool
  loops :: u32
  frame_count :: nat
  pixel_sum :: nat

datatype scan_outcome = Done SourceScan | More scanner

definition le_word :: "bytes \<Rightarrow> nat \<Rightarrow> u16" where
  "le_word bs i = of_be16 (bs ! (i + 1)) (bs ! i)"

text \<open>\<open>3 * (2usize << (flags & 7))\<close>\<close>

definition table_length :: "u8 \<Rightarrow> nat" where
  "table_length flags = 3 * push_bit (unat (flags AND 7)) 2"

definition scan_image :: "u16 \<Rightarrow> nat \<Rightarrow> scanner \<Rightarrow> scanner gif" where
  "scan_image dimension pixel_limit s =
     (let s = s\<lparr>needs_cleanup := needs_cleanup s \<or> pending_comment s, pending_comment := False,
                frame_count := frame_count s + 1\<rparr> in
      bindE (take_block 9 (cursor s)) (\<lambda>(descriptor, c).
      let w = le_word descriptor 4; h = le_word descriptor 6; pixels = unat w * unat h in
      case checked_add64 (pixel_sum s) pixels of
        None \<Rightarrow> Inl GifRejected
      | Some subtotal \<Rightarrow>
          if frame_count s > MAX_FRAMES \<or> subtotal > pixel_limit \<or> pixels = 0 \<or> w > dimension \<or> h > dimension
             \<or> descriptor ! 8 AND 0x18 \<noteq> 0
          then Inl GifRejected
          else bindE (if descriptor ! 8 AND 0x80 \<noteq> 0
                      then bindE (take_block (table_length (descriptor ! 8)) c) (\<lambda>(_, c). Inr c)
                      else Inr c) (\<lambda>c.
               let compressed_start = block_offset c in
               bindE (block_byte c) (\<lambda>(minimum, c).
               if \<not> (2 \<le> minimum \<and> minimum \<le> 8) then Inl GifRejected
               else bindE (skip_subblocks c) (\<lambda>c.
                    Inr (s\<lparr>cursor := c, pixel_sum := subtotal,
                           compressed_bytes := compressed_bytes s + (block_offset c - compressed_start)\<rparr>))))))"

definition scan_control :: "scanner \<Rightarrow> Blocks \<Rightarrow> scanner gif" where
  "scan_control s c =
     bindE (block_byte c) (\<lambda>(n, c).
     if n \<noteq> 4 then Inl GifRejected
     else bindE (take_block 4 c) (\<lambda>(control, c).
          if control ! 0 AND 0xe2 \<noteq> 0 \<or> (drop_bit 2 (control ! 0) AND 7) > 3 then Inl GifRejected
          else bindE (block_byte c) (\<lambda>(z, c).
               if z \<noteq> 0 then Inl GifRejected else Inr (s\<lparr>cursor := c\<rparr>))))"

definition scan_application :: "scanner \<Rightarrow> Blocks \<Rightarrow> scanner gif" where
  "scan_application s c =
     bindE (block_byte c) (\<lambda>(n, c).
     if n \<noteq> 11 then Inl GifRejected
     else bindE (take_block 11 c) (\<lambda>(application, c).
          if application = ascii ''NETSCAPE2.0'' \<or> application = ascii ''ANIMEXTS1.0'' then
            (if loops s \<noteq> 65536 then Inl GifRejected
             else bindE (block_byte c) (\<lambda>(n, c).
                  if n \<noteq> 3 then Inl GifRejected
                  else bindE (take_block 3 c) (\<lambda>(loop_data, c).
                       if loop_data ! 0 \<noteq> 1 then Inl GifRejected
                       else bindE (block_byte c) (\<lambda>(z, c).
                            if z \<noteq> 0 then Inl GifRejected
                            else Inr (s\<lparr>cursor := c, loops := ucast (le_word loop_data 1)\<rparr>)))))
          else bindE (skip_subblocks c) (\<lambda>c. Inr (s\<lparr>cursor := c, needs_cleanup := True\<rparr>))))"

definition scan_extension :: "scanner \<Rightarrow> Blocks \<Rightarrow> scanner gif" where
  "scan_extension s c =
     bindE (block_byte c) (\<lambda>(label, c).
     if label = 0xf9 then scan_control s c
     else if label = 0xff then scan_application s c
     else if label = 0xfe then
       bindE (skip_subblocks c) (\<lambda>c. Inr (s\<lparr>cursor := c, pending_comment := True\<rparr>))
     else Inl GifRejected)"

text \<open>One turn of the scanning loop.\<close>

definition scan_step :: "u16 \<Rightarrow> nat \<Rightarrow> scanner \<Rightarrow> scan_outcome gif" where
  "scan_step dimension pixel_limit s =
     bindE (block_byte (cursor s)) (\<lambda>(b, c).
     if b = 0x3b \<and> block_offset c = length (block_bytes c) \<and> frame_count s > 0 then
       Inr (Done \<lparr>scan_repeat = loops s,
                  scan_cleanup = (needs_cleanup s \<or> length (block_bytes c) - compressed_bytes s \<ge> 51200),
                  scan_frames = frame_count s\<rparr>)
     else if b = 0x2c then map_sum id More (scan_image dimension pixel_limit (s\<lparr>cursor := c\<rparr>))
     else if b = 0x21 then map_sum id More (scan_extension s c)
     else Inl GifRejected)"

section \<open>The scan moves forward\<close>

definition passed :: "Blocks \<Rightarrow> Blocks \<Rightarrow> bool" where
  "passed c c' \<longleftrightarrow> block_bytes c' = block_bytes c \<and> block_offset c < block_offset c'
     \<and> block_offset c' \<le> length (block_bytes c')"

lemma passed_start: "block_byte c = Inr (b, c') \<Longrightarrow> passed c c'"
  by (auto simp: passed_def dest!: block_byte_moves)

lemma passed_byte: "block_byte c = Inr (b, c') \<Longrightarrow> passed a c \<Longrightarrow> passed a c'"
  by (auto simp: passed_def dest!: block_byte_moves)

lemma passed_take: "take_block n c = Inr (bs, c') \<Longrightarrow> passed a c \<Longrightarrow> passed a c'"
  by (auto simp: passed_def dest!: take_block_moves)

lemma passed_skip: "skip_subblocks c = Inr c' \<Longrightarrow> passed a c \<Longrightarrow> passed a c'"
proof (induction c rule: skip_subblocks.induct)
  case (1 c)
  obtain n d where n: "block_byte c = Inr (n, d)"
    using 1(2) by (subst (asm) skip_subblocks.simps) (auto split: sum.split_asm)
  show ?case
  proof (cases "n = 0")
    case True
    then show ?thesis
      using 1(2,3) n passed_byte by (subst (asm) skip_subblocks.simps) auto
  next
    case False
    obtain bs e where e: "take_block (unat n) d = Inr (bs, e)"
      using 1(2) n False by (subst (asm) skip_subblocks.simps) (auto split: sum.split_asm)
    have "skip_subblocks e = Inr c'"
      using 1(2) n False e by (subst (asm) skip_subblocks.simps) simp
    then show ?thesis
      using 1(1) [OF n refl False e refl] passed_take [OF e passed_byte [OF n 1(3)]] by simp
  qed
qed

lemmas passing = passed_byte passed_take passed_skip

lemma passed_image: "scan_image d p s = Inr s' \<Longrightarrow> passed a (cursor s) \<Longrightarrow> passed a (cursor s')"
  by (auto simp: scan_image_def Let_def bindE_eq_Inr split: option.split_asm if_split_asm dest!: passing)

lemma passed_control: "scan_control s c = Inr s' \<Longrightarrow> passed a c \<Longrightarrow> passed a (cursor s')"
  by (auto simp: scan_control_def bindE_eq_Inr split: if_split_asm dest!: passing)

lemma passed_application: "scan_application s c = Inr s' \<Longrightarrow> passed a c \<Longrightarrow> passed a (cursor s')"
  by (auto simp: scan_application_def bindE_eq_Inr split: if_split_asm dest!: passing)

lemma passed_extension: "scan_extension s c = Inr s' \<Longrightarrow> passed a c \<Longrightarrow> passed a (cursor s')"
  by (auto simp: scan_extension_def bindE_eq_Inr split: if_split_asm
      dest!: passed_byte passed_skip intro: passed_control passed_application)

lemma scan_step_passes:
  assumes "scan_step d p s = Inr (More s')"
  shows "passed (cursor s) (cursor s')"
proof -
  obtain b c where b: "block_byte (cursor s) = Inr (b, c)"
      "map_sum id More (scan_image d p (s\<lparr>cursor := c\<rparr>)) = Inr (More s')
        \<or> map_sum id More (scan_extension s c) = Inr (More s')"
    using assms by (auto simp: scan_step_def bindE_eq_Inr split: if_split_asm)
  note c = passed_start [OF b(1)]
  from b(2) show ?thesis
  proof
    assume "map_sum id More (scan_image d p (s\<lparr>cursor := c\<rparr>)) = Inr (More s')"
    then show ?thesis
      using passed_image [of d p "s\<lparr>cursor := c\<rparr>" s' "cursor s"] c by (auto simp: map_sum_Inr)
  next
    assume "map_sum id More (scan_extension s c) = Inr (More s')"
    then show ?thesis
      using passed_extension [of s c s' "cursor s"] c by (auto simp: map_sum_Inr)
  qed
qed

function scan_loop :: "u16 \<Rightarrow> nat \<Rightarrow> scanner \<Rightarrow> SourceScan gif" where
  "scan_loop dimension pixel_limit s =
     (case scan_step dimension pixel_limit s of
       Inl e \<Rightarrow> Inl e
     | Inr (Done scan) \<Rightarrow> Inr scan
     | Inr (More s) \<Rightarrow> scan_loop dimension pixel_limit s)"
  by pat_completeness auto

termination
  by (relation "measure (\<lambda>(d, p, s). length (block_bytes (cursor s)) - block_offset (cursor s))")
    (auto dest!: scan_step_passes simp: passed_def)

declare scan_loop.simps [simp del]

definition gif_magic :: "bytes \<Rightarrow> bool" where
  "gif_magic input \<longleftrightarrow> take 6 input = ascii ''GIF87a'' \<or> take 6 input = ascii ''GIF89a''"

definition scan_with_limits :: "bytes \<Rightarrow> u16 \<Rightarrow> nat \<Rightarrow> SourceScan gif" where
  "scan_with_limits input dimension pixel_limit =
     (if length input > 8388608 \<or> \<not> gif_magic input then Inl GifRejected
      else bindE (take_block 7 \<lparr>block_bytes = input, block_offset = 6\<rparr>) (\<lambda>(logical, c).
           bindE (if logical ! 4 AND 0x80 \<noteq> 0
                  then bindE (take_block (table_length (logical ! 4)) c) (\<lambda>(_, c). Inr c)
                  else Inr c) (\<lambda>c.
           scan_loop dimension pixel_limit
             \<lparr>cursor = c, compressed_bytes = 0, pending_comment = False, needs_cleanup = False, loops = 65536,
              frame_count = 0, pixel_sum = 0\<rparr>)))"

definition scan_blocks :: "bytes \<Rightarrow> u32 gif" where
  "scan_blocks input = map_sum id scan_repeat (scan_with_limits input 1024 GIF_MAX_PIXELS)"

definition scan_source :: "bytes \<Rightarrow> SourceScan gif" where
  "scan_source input =
     bindE (scan_with_limits input 10000 (256 * 1024 * 1024)) (\<lambda>scan.
     let w = unat (le_word input 6); h = unat (le_word input 8) in
     case Option.bind (checked_mul64 w h) (\<lambda>n. checked_mul64 n (scan_frames scan)) of
       None \<Rightarrow> Inl GifRejected
     | Some area \<Rightarrow> if area > 256 * 1024 * 1024 then Inl GifRejected else Inr scan)"

section \<open>Decompression\<close>

datatype lzw_status = LzwOk | LzwNoProgress | LzwDone | LzwFailed

text \<open>
  The LZW decoder: its state and one call of \<open>decode_bytes\<close> on an input and an output of a given
  size, with the bytes consumed, the bytes written and the status.
\<close>

record 's lzw_decoder =
  lzw_new :: "u8 \<Rightarrow> 's"
  lzw_call :: "'s \<Rightarrow> bytes \<Rightarrow> nat \<Rightarrow> 's \<times> nat \<times> bytes \<times> lzw_status"

record gif_frame =
  gf_left :: u16
  gf_top :: u16
  gf_width :: u16
  gf_height :: u16
  gf_delay :: u16
  gf_interlaced :: bool
  gf_palette :: "bytes option"
  gf_transparent :: "u8 option"
  gf_dispose :: u8
  gf_needs_input :: bool
  gf_buffer :: bytes

text \<open>
  The decompression loop; \<open>indices\<close> are the bytes written so far. A slice past the end of the
  input or the output panics.
\<close>

function decompress ::
  "'s lzw_decoder \<Rightarrow> bytes \<Rightarrow> nat \<Rightarrow> 's \<Rightarrow> nat \<Rightarrow> bytes \<Rightarrow> gif_error stop + (nat \<times> bytes)" where
  "decompress lib compressed count st read indices =
     (if length compressed < read \<or> count + 1 < length indices then Inl Panicked
      else
        let (st, consumed_in, out, status) = lzw_call lib st (drop read compressed) (count + 1 - length indices);
            read = read + consumed_in; indices = indices @ out in
        if length indices > count then Inl (Refused GifRejected)
        else case status of
          LzwFailed \<Rightarrow> Inl (Refused GifOther)
        | LzwDone \<Rightarrow> Inr (read, indices)
        | LzwNoProgress \<Rightarrow> Inl (Refused GifRejected)
        | LzwOk \<Rightarrow>
            if consumed_in \<noteq> 0 \<or> out \<noteq> []
            then decompress lib compressed count st read indices
            else Inl (Refused GifRejected))"
  by pat_completeness auto

termination
proof (relation "measures [\<lambda>(lib, compressed, count, st, read, indices). length compressed + 1 - read,
    \<lambda>(lib, compressed, count, st, read, indices). count + 1 - length indices]")
qed (auto simp flip: length_greater_0_conv)

declare decompress.simps [simp del]

text \<open>The passes of interlacing: first row and stride.\<close>

definition passes :: "(nat \<times> nat) list" where
  "passes = [(0, 8), (4, 8), (2, 4), (1, 2)]"

function step_rows :: "nat \<Rightarrow> nat \<Rightarrow> nat \<Rightarrow> nat list" where
  "step_rows start stride rows =
     (if start < rows \<and> 0 < stride then start # step_rows (start + stride) stride rows else [])"
  by pat_completeness auto

termination
  by (relation "measure (\<lambda>(start, stride, rows). rows - start)") auto

declare step_rows.simps [simp del]

definition interlaced_rows :: "nat \<Rightarrow> nat list" where
  "interlaced_rows rows = concat (map (\<lambda>(start, stride). step_rows start stride rows) passes)"

definition place_row :: "nat \<Rightarrow> bytes \<Rightarrow> bytes \<times> nat \<Rightarrow> nat \<Rightarrow> gif_error stop + (bytes \<times> nat)" where
  "place_row w indices = (\<lambda>(ordered, source_row) row.
     if (row + 1) * w \<le> length ordered \<and> (source_row + 1) * w \<le> length indices
     then Inr (take (row * w) ordered @ slice_of (source_row * w) ((source_row + 1) * w) indices
                 @ drop ((row + 1) * w) ordered, source_row + 1)
     else Inl Panicked)"

definition decode_indices :: "'s lzw_decoder \<Rightarrow> gif_frame \<Rightarrow> nat \<Rightarrow> gif_error stop + bytes" where
  "decode_indices lib frame count =
     (case gf_buffer frame of
       [] \<Rightarrow> Inl (Refused GifRejected)
     | minimum # compressed \<Rightarrow>
         if \<not> (2 \<le> minimum \<and> minimum \<le> 8) then Inl (Refused GifRejected)
         else bindE (decompress lib compressed count (lzw_new lib minimum) 0 []) (\<lambda>(read, indices).
              if length indices \<noteq> count \<or> read \<noteq> length compressed then Inl (Refused GifRejected)
              else if \<not> gf_interlaced frame then Inr indices
              else bindE (foldE (place_row (unat (gf_width frame)) indices) (replicate count 0, 0)
                     (interlaced_rows (unat (gf_height frame)))) (\<lambda>(ordered, _).
                   Inr ordered)))"

section \<open>The job\<close>

text \<open>
  The GIF parser on an input: the canvas, the global palette, the background index, the frames
  it yields, how the sequence ends, and whether input is left (or reading it fails).
\<close>

record gif_file =
  gif_width :: u16
  gif_height :: u16
  gif_global :: "bytes option"
  gif_background :: "nat option"
  gif_frames :: "gif_frame list"
  gif_ends :: bool
  gif_left_over :: "gif_error + bool"

record 's gif_libraries =
  read_info :: "bytes \<Rightarrow> gif_file option"
  lzw_library :: "'s lzw_decoder"

definition emit_frame ::
  "'s gif_libraries \<Rightarrow> bytes \<Rightarrow> nat \<times> nat \<times> bytes \<Rightarrow> gif_frame \<Rightarrow> gif_error stop + (nat \<times> nat \<times> bytes)" where
  "emit_frame lib global_table = (\<lambda>(count, subtotal, output) f.
     let count = count + 1; pixels = unat (gf_width f) * unat (gf_height f) in
     case checked_add64 subtotal pixels of None \<Rightarrow> Inl (Refused GifRejected) | Some subtotal \<Rightarrow>
     let pal = (case gf_palette f of None \<Rightarrow> global_table | Some p \<Rightarrow> p);
         colors = length pal div 3;
         added = 20 + length pal + pixels in
     if count > MAX_FRAMES
        \<or> subtotal > GIF_MAX_PIXELS
        \<or> pixels = 0
        \<or> pixels > 1024 * 1024
        \<or> \<not> (2 \<le> colors \<and> colors \<le> 256)
        \<or> \<not> is_power_of_two (of_nat colors)
        \<or> length pal \<noteq> colors * 3
        \<or> gf_needs_input f
        \<or> (\<exists>i. gf_transparent f = Some i \<and> unat i \<ge> colors)
        \<or> (case checked_add64 (length output) added of None \<Rightarrow> True | Some len \<Rightarrow> len > GIF_MAX_WIRE)
     then Inl (Refused GifRejected)
     else bindE (decode_indices (lzw_library lib) f pixels) (\<lambda>indices.
          if \<exists>i\<in>set indices. unat i \<ge> colors then Inl (Refused GifRejected)
          else Inr (count, subtotal, output
            @ concat (map be16 [gf_left f, gf_top f, gf_width f, gf_height f, gf_delay f, of_nat colors,
                case gf_transparent f of None \<Rightarrow> 256 | Some i \<Rightarrow> ucast i])
            @ [gf_dispose f, 0] @ be32 (of_nat pixels) @ pal @ indices)))"

definition decode_gif :: "'s gif_libraries \<Rightarrow> bytes \<Rightarrow> gif_error stop + bytes" where
  "decode_gif lib input =
     (if length input > 8388608 \<or> \<not> gif_magic input then Inl (Refused GifRejected)
      else bindE (map_err Refused (scan_blocks input)) (\<lambda>repeat_field.
      case read_info lib input of None \<Rightarrow> Inl (Refused GifOther) | Some g \<Rightarrow>
      let w = gif_width g; h = gif_height g in
      if \<not> (1 \<le> w \<and> w \<le> 1024) \<or> \<not> (1 \<le> h \<and> h \<le> 1024) then Inl (Refused GifRejected)
      else
        let global_table = (case gif_global g of None \<Rightarrow> [] | Some p \<Rightarrow> p);
            bg = (case gif_background g of None \<Rightarrow> 256 | Some i \<Rightarrow> of_nat i);
            head_bytes = (\<lambda>n. ascii ''IBGIF001'' @ be16 w @ be16 h @ be16 n
              @ be16 (of_nat (length global_table div 3)) @ be16 bg @ be32 repeat_field @ replicate 10 0) in
        bindE (foldE (emit_frame lib global_table) (0, 0, head_bytes 0 @ global_table) (gif_frames g)) (\<lambda>(count, _, output).
        if \<not> gif_ends g then Inl (Refused GifOther)
        else if count = 0 then Inl (Refused GifRejected)
        else bindE (map_err Refused (gif_left_over g)) (\<lambda>more.
             if more then Inl (Refused GifRejected)
             else Inr (take 12 output @ be16 (of_nat count) @ drop 14 output)))))"

definition decode_gif_disk :: "'s gif_libraries \<Rightarrow> reader \<Rightarrow> gif_error stop + bytes" where
  "decode_gif_disk lib input =
     bindE (map_err (\<lambda>e. Refused (GifRead e)) (read_exact 8 input)) (\<lambda>(header, input).
     let len = unat (at64 header 0) in
     if \<not> (1 \<le> len \<and> len \<le> 8388608) then Inl (Refused GifRejected)
     else bindE (map_err (\<lambda>e. Refused (GifRead e)) (read_exact len input)) (\<lambda>(bytes, input).
          let padding_length = (512 - (8 + len) mod 512) mod 512 in
          bindE (map_err (\<lambda>e. Refused (GifRead e)) (read_exact padding_length input)) (\<lambda>(padding, input).
          if \<exists>b\<in>set padding. b \<noteq> 0 then Inl (Refused GifRejected)
          else bindE (map_err (\<lambda>e. Refused (GifRead e)) (read_one input)) (\<lambda>more.
               if more then Inl (Refused GifRejected) else decode_gif lib bytes))))"

end
