(* ===== verification/GuestGifFacts.thy ===== *)
theory GuestGifFacts
  imports GuestGif
begin

text \<open>
  What the guest's GIF job of \<open>apps/media-guest/src/animation.rs\<close> does: the padded input, the
  interlacing permutation, the absence of panics, and that what it writes is a valid animation of
  the host's protocol. The hypotheses on the two libraries are \<open>lzw_documented\<close> (a call stays
  within its buffers) and \<open>gif_documented\<close> (frames within the canvas, two-bit disposal, a global
  palette of a power of two of colors and a background index of one byte). The index may lie outside the
  palette, or come without one: the guest passes it on, and the host then refuses the animation.
\<close>

section \<open>The input\<close>

lemma at64_be64: "at64 (be64 n) 0 = n"
  using at64_field [of "[]" 0 n "[]"] by simp

lemma zeros_iff: "\<not> (\<exists>b\<in>set x. b \<noteq> 0) \<longleftrightarrow> x = replicate (length x) (0 :: u8)"
  using all_zero [of x] by blast

lemma decode_gif_disk_iff:
  "decode_gif_disk lib r = Inr out \<longleftrightarrow>
     (\<exists>data. r = (input_disk data, False) \<and> 1 \<le> length data \<and> length data \<le> 8388608 \<and> decode_gif lib data = Inr out)"
proof
  assume "decode_gif_disk lib r = Inr out"
  then obtain hdr data pad s t where h: "fst r = hdr @ fst s" "length hdr = 8" "snd s = snd r"
      "fst s = data @ fst t" "length data = unat (at64 hdr 0)" "snd t = snd s"
      "1 \<le> unat (at64 hdr 0)" "unat (at64 hdr 0) \<le> 8388608"
      "t = (pad, False)" "length pad = (512 - (8 + unat (at64 hdr 0)) mod 512) mod 512"
      "\<not> (\<exists>b\<in>set pad. b \<noteq> 0)" "decode_gif lib data = Inr out"
    by (auto simp: decode_gif_disk_def Let_def result_simps split: if_split_asm)
  have "hdr = be64 (of_nat (length data))"
    using be64_at64 [OF h(2)] h(5) by (metis of_nat_unat ucast_id)
  then have "fst r = input_disk data"
    using h zeros_iff [of pad] by (simp add: input_disk_def)
  with h show "\<exists>data. r = (input_disk data, False) \<and> 1 \<le> length data \<and> length data \<le> 8388608
      \<and> decode_gif lib data = Inr out"
    by (cases r) auto
next
  assume "\<exists>data. r = (input_disk data, False) \<and> 1 \<le> length data \<and> length data \<le> 8388608
      \<and> decode_gif lib data = Inr out"
  then obtain data where d: "r = (input_disk data, False)" "1 \<le> length data" "length data \<le> 8388608"
      "decode_gif lib data = Inr out"
    by blast
  define pad where "pad = replicate ((512 - (8 + length data) mod 512) mod 512) (0 :: u8)"
  have "read_exact 8 r = Inr (be64 (of_nat (length data)), (data @ pad, False))"
    by (simp add: d(1) read_exact_iff input_disk_def pad_def)
  moreover have "unat (at64 (be64 (of_nat (length data))) 0) = length data"
    using d(3) by (simp add: at64_be64 unat_of_length)
  moreover have "read_exact (length data) (data @ pad, False) = Inr (data, (pad, False))"
    by (simp add: read_exact_iff)
  moreover have "read_exact ((512 - (8 + length data) mod 512) mod 512) (pad, False) = Inr (pad, ([], False))"
    by (simp add: read_exact_iff pad_def)
  moreover have "\<not> (\<exists>b\<in>set pad. b \<noteq> 0)"
    by (simp add: pad_def)
  ultimately show "decode_gif_disk lib r = Inr out"
    using d by (simp add: decode_gif_disk_def read_one_def)
qed

section \<open>Interlacing\<close>

lemma step_rows_set: "0 < stride \<Longrightarrow> set (step_rows s stride n) = {r. s \<le> r \<and> r < n \<and> stride dvd r - s}"
proof (induction s stride n rule: step_rows.induct)
  case (1 s stride n)
  show ?case
  proof (cases "s < n")
    case True
    have IH: "set (step_rows (s + stride) stride n) = {r. s + stride \<le> r \<and> r < n \<and> stride dvd r - (s + stride)}"
      using 1 True by simp
    have "r = s \<or> s + stride \<le> r \<and> stride dvd r - (s + stride) \<longleftrightarrow> s \<le> r \<and> stride dvd r - s" for r
    proof
      assume r: "s \<le> r \<and> stride dvd r - s"
      show "r = s \<or> s + stride \<le> r \<and> stride dvd r - (s + stride)"
      proof (cases "r = s")
        case False
        then have "stride \<le> r - s"
          using r dvd_imp_le [of stride "r - s"] by simp
        then show ?thesis
          using r dvd_diff_nat [of stride "r - s" stride] le_diff_conv2 [of s r stride]
          by (simp add: diff_diff_left add.commute)
      qed simp
    next
      assume "r = s \<or> s + stride \<le> r \<and> stride dvd r - (s + stride)"
      then show "s \<le> r \<and> stride dvd r - s"
      proof
        assume r: "s + stride \<le> r \<and> stride dvd r - (s + stride)"
        then have "r - s = (r - (s + stride)) + stride" by simp
        then show ?thesis using r by (simp only: dvd_add_triv_right_iff) simp
      qed simp
    qed
    then show ?thesis
      using True 1(2) IH by (subst step_rows.simps) auto
  next
    case False
    then show ?thesis by (subst step_rows.simps) auto
  qed
qed

lemma step_rows_distinct: "distinct (step_rows s stride n)"
proof (induction s stride n rule: step_rows.induct)
  case (1 s stride n)
  show ?case
  proof (cases "s < n \<and> 0 < stride")
    case True
    then show ?thesis
      using 1 step_rows_set [of stride "s + stride" n] by (subst step_rows.simps) auto
  next
    case False
    then have "step_rows s stride n = []"
      by (subst step_rows.simps) (rule if_not_P)
    then show ?thesis by simp
  qed
qed

text \<open>The four passes visit every row once.\<close>

lemma interlaced_rows_permutation: "distinct (interlaced_rows n) \<and> set (interlaced_rows n) = {..<n}"
proof -
  have s: "set (step_rows a k n) = {r. r < n \<and> r mod k = a}" if "a < k" for a k
  proof -
    have "a \<le> r \<and> k dvd r - a \<longleftrightarrow> r mod k = a" for r
      using that by (metis dvd_imp_mod_0 le_add_diff_inverse2 mod_add_self1 mod_eq_dvd_iff_nat mod_less mod_less_eq_dividend nat_mod_eq_iff)
    then show ?thesis
      using that step_rows_set [of k a n] by auto
  qed
  have m8: "r mod 8 < 8" "r mod 4 = (r mod 8) mod 4" "r mod 2 = (r mod 8) mod 2" for r :: nat
    by (simp_all add: mod_mod_cancel)
  have eight: "\<forall>m\<in>set [0..<8]. (m mod 4 = (2 :: nat) \<longleftrightarrow> m \<in> {2, 6}) \<and> (m mod 2 = 1 \<longleftrightarrow> m \<in> {1, 3, 5, 7})
      \<and> m \<in> {0} \<union> ({4} \<union> ({2, 6} \<union> {1, 3, 5, 7}))"
    by code_simp
  have in8: "r mod 8 \<in> set [0..<8]" for r :: nat
    using m8(1) [of r] by simp
  have four: "r mod 4 = 2 \<longleftrightarrow> r mod 8 \<in> {2, 6}" for r :: nat
    unfolding m8(2) [of r] using bspec [OF eight in8 [of r]] by blast
  have two: "r mod 2 = 1 \<longleftrightarrow> r mod 8 \<in> {1, 3, 5, 7}" for r :: nat
    unfolding m8(3) [of r] using bspec [OF eight in8 [of r]] by blast
  have sets: "set (step_rows 0 8 n) = {r. r < n \<and> r mod 8 \<in> {0}}" "set (step_rows 4 8 n) = {r. r < n \<and> r mod 8 \<in> {4}}"
      "set (step_rows 2 4 n) = {r. r < n \<and> r mod 8 \<in> {2, 6}}" "set (step_rows 1 2 n) = {r. r < n \<and> r mod 8 \<in> {1, 3, 5, 7}}"
    by (simp_all only: s four two singleton_iff)
  have cover: "r mod 8 \<in> {0} \<union> ({4} \<union> ({2, 6} \<union> {1, 3, 5, 7}))" for r :: nat
    using bspec [OF eight in8 [of r]] by blast
  have "distinct (interlaced_rows n)"
    unfolding interlaced_rows_def passes_def
    by (simp only: list.map prod.case concat.simps append_Nil2 distinct_append step_rows_distinct set_append sets) auto
  moreover have "set (interlaced_rows n) = {r. r < n \<and> r mod 8 \<in> {0} \<union> ({4} \<union> ({2, 6} \<union> {1, 3, 5, 7}))}"
    unfolding interlaced_rows_def passes_def
    by (simp only: list.map prod.case concat.simps append_Nil2 set_append sets) auto
  ultimately show ?thesis
    using cover by auto
qed

text \<open>Row \<open>k\<close> of the source goes to row \<open>rows ! k\<close>; no other row changes.\<close>

definition row :: "nat \<Rightarrow> nat \<Rightarrow> bytes \<Rightarrow> bytes" where
  "row w k px = slice_of (k * w) ((k + 1) * w) px"

lemma row_bounds: "k < h \<Longrightarrow> (k + 1) * w \<le> h * (w :: nat)"
  by (intro mult_le_mono1) simp

lemma length_row: "length px = h * w \<Longrightarrow> k < h \<Longrightarrow> length (row w k px) = w"
  using row_bounds [of k h w] by (simp add: row_def slice_of_def)

lemma row_placed:
  assumes px: "length px = h * w" and x: "length x = w" and k: "k < h" and j: "j < h"
  shows "row w j (take (k * w) px @ x @ drop ((k + 1) * w) px) = (if j = k then x else row w j px)"
proof -
  have b: "(k + 1) * w \<le> h * w" "(j + 1) * w \<le> h * w"
    using row_bounds k j by blast+
  consider "j = k" | "j + 1 \<le> k" | "k + 1 \<le> j" by linarith
  then show ?thesis
  proof cases
    case 1
    moreover have "min (h * w) (k * w) = k * w"
      using b by simp
    ultimately show ?thesis
      using px x b by (simp add: row_def slice_of_def)
  next
    case 2
    then have "(j + 1) * w \<le> k * w" by (intro mult_le_mono1)
    then have "j * w + w \<le> k * w" "min w (k * w - j * w) = w" by simp_all
    then show ?thesis
      using 2 px b by (simp add: row_def slice_of_def drop_take)
  next
    case 3
    then have "(k + 1) * w \<le> j * w" by (intro mult_le_mono1)
    moreover have "min (h * w) (k * w) = k * w"
      using b by simp
    ultimately show ?thesis
      using 3 px x b by (simp add: row_def slice_of_def)
  qed
qed

lemma place_rows:
  assumes "length indices = h * w" "length ordered = h * w" "set rs \<subseteq> {..<h}" "distinct rs" "k + length rs \<le> h"
  shows "\<exists>out. foldE (place_row w indices) (ordered, k) rs = Inr (out, k + length rs) \<and> length out = h * w
     \<and> (\<forall>i < length rs. row w (rs ! i) out = row w (k + i) indices)
     \<and> (\<forall>j < h. j \<notin> set rs \<longrightarrow> row w j out = row w j ordered)"
  using assms
proof (induction rs arbitrary: ordered k)
  case (Cons r rs)
  define mid where "mid = take (r * w) ordered @ row w k indices @ drop ((r + 1) * w) ordered"
  have r: "r < h" "k < h" using Cons.prems by auto
  have b: "(r + 1) * w \<le> h * w" "(k + 1) * w \<le> h * w"
    using row_bounds r by blast+
  have lr: "length (row w k indices) = w"
    using length_row Cons.prems(1) r(2) by blast
  have "place_row w indices (ordered, k) r = Inr (mid, k + 1)"
    using b Cons.prems by (simp add: place_row_def mid_def row_def)
  moreover have lm: "length mid = h * w"
    using b Cons.prems lr by (simp add: mid_def)
  obtain out where out: "foldE (place_row w indices) (mid, k + 1) rs = Inr (out, k + 1 + length rs)" "length out = h * w"
      "\<forall>i < length rs. row w (rs ! i) out = row w (k + 1 + i) indices"
      "\<forall>j < h. j \<notin> set rs \<longrightarrow> row w j out = row w j mid"
    using Cons.IH [of mid "k + 1"] Cons.prems lm by auto
  have placed: "row w j mid = (if j = r then row w k indices else row w j ordered)" if "j < h" for j
    unfolding mid_def by (rule row_placed [OF Cons.prems(2) lr r(1) that])
  have "row w r out = row w k indices"
    using out(4) r Cons.prems placed by auto
  then have "\<forall>i < length (r # rs). row w ((r # rs) ! i) out = row w (k + i) indices"
    using out(3) by (auto simp: nth_Cons split: nat.split)
  moreover have "\<forall>j < h. j \<notin> set (r # rs) \<longrightarrow> row w j out = row w j ordered"
    using out(4) placed by simp
  ultimately show ?case
    using out(1,2) by simp
qed simp

section \<open>Decompression\<close>

definition lzw_documented :: "'s lzw_decoder \<Rightarrow> bool" where
  "lzw_documented lib \<longleftrightarrow> (\<forall>st input room st' consumed out status.
     lzw_call lib st input room = (st', consumed, out, status) \<longrightarrow> consumed \<le> length input \<and> length out \<le> room)"

lemma decompress_fine:
  "lzw_documented lib \<Longrightarrow> read \<le> length compressed \<Longrightarrow> length indices \<le> count \<Longrightarrow>
     fine (decompress lib compressed count st read indices)"
proof (induction lib compressed count st read indices rule: decompress.induct)
  case (1 lib compressed count st read indices)
  obtain st' d out status where c:
      "lzw_call lib st (drop read compressed) (count + 1 - length indices) = (st', d, out, status)"
    by (metis prod_cases4)
  have "d \<le> length (drop read compressed)"
    using 1(2) c unfolding lzw_documented_def by blast
  then have d: "read + d \<le> length compressed"
    using 1(3) by simp
  have g: "\<not> (length compressed < read \<or> count + 1 < length indices)"
    using 1(3,4) by simp
  show ?case
  proof (cases "\<not> length (indices @ out) > count \<and> status = LzwOk \<and> (d \<noteq> 0 \<or> out \<noteq> [])")
    case True
    then have "fine (decompress lib compressed count st' (read + d) (indices @ out))"
      using "1.IH" [OF g c [symmetric] refl refl refl refl refl _ _ _ 1(2) d] by simp
    then show ?thesis
      using True g c by (subst decompress.simps) simp
  next
    case False
    then show ?thesis
      using g c by (subst decompress.simps) (auto simp: Let_def split: lzw_status.split)
  qed
qed

lemma decompress_length:
  "decompress lib compressed count st read indices = Inr (n, px) \<Longrightarrow> length px \<le> count"
proof (induction lib compressed count st read indices rule: decompress.induct)
  case (1 lib compressed count st read indices)
  obtain st' d out status where c:
      "lzw_call lib st (drop read compressed) (count + 1 - length indices) = (st', d, out, status)"
    by (metis prod_cases4)
  have g: "\<not> (length compressed < read \<or> count + 1 < length indices)"
    using 1(2) by (subst (asm) decompress.simps) (simp split: if_split_asm)
  show ?case
  proof (cases "\<not> length (indices @ out) > count \<and> status = LzwOk \<and> (d \<noteq> 0 \<or> out \<noteq> [])")
    case True
    then have "decompress lib compressed count st' (read + d) (indices @ out) = Inr (n, px)"
      using 1(2) g c by (subst (asm) decompress.simps) simp
    with "1.IH" [OF g c [symmetric] refl refl refl refl refl] True show ?thesis by simp
  next
    case False
    then show ?thesis
      using 1(2) g c by (subst (asm) decompress.simps) (auto simp: Let_def split: lzw_status.split_asm if_split_asm)
  qed
qed

definition stored_rows :: "gif_frame \<Rightarrow> bytes \<Rightarrow> bytes \<Rightarrow> bool" where
  "stored_rows f source out \<longleftrightarrow>
     (let w = unat (gf_width f); h = unat (gf_height f) in
      \<forall>i < h. row w (interlaced_rows h ! i) out = row w i source)"

lemma length_interlaced: "length (interlaced_rows h) = h"
  using interlaced_rows_permutation [of h] distinct_card [of "interlaced_rows h"] by simp

lemma decode_indices_fine:
  assumes "lzw_documented lib" "count = unat (gf_width f) * unat (gf_height f)"
  shows "fine (decode_indices lib f count)"
proof (cases "gf_buffer f")
  case (Cons minimum compressed)
  have "fine (bindE (foldE (place_row (unat (gf_width f)) indices) (replicate count 0, 0)
      (interlaced_rows (unat (gf_height f)))) (\<lambda>(ordered, _). Inr ordered))"
    if "length indices = count" for indices
    using place_rows [of indices "unat (gf_height f)" "unat (gf_width f)" "replicate count 0"
        "interlaced_rows (unat (gf_height f))" 0] that assms(2) interlaced_rows_permutation [of "unat (gf_height f)"]
    by (auto simp: mult.commute length_interlaced)
  then show ?thesis
    using decompress_fine [OF assms(1), of 0 compressed "[]" count] unfolding decode_indices_def Cons
    by (auto intro!: fine_bindE)
qed (simp add: decode_indices_def)

lemma decode_indices_result:
  assumes "decode_indices lib f count = Inr out" "count = unat (gf_width f) * unat (gf_height f)"
  shows "length out = count
     \<and> (\<exists>source. length source = count
          \<and> decompress lib (tl (gf_buffer f)) count (lzw_new lib (hd (gf_buffer f))) 0 [] = Inr (length (tl (gf_buffer f)), source)
          \<and> (if gf_interlaced f then stored_rows f source out else out = source))"
proof -
  obtain minimum compressed where b: "gf_buffer f = minimum # compressed"
    using assms(1) by (auto simp: decode_indices_def split: list.split_asm)
  obtain source where s: "decompress lib compressed count (lzw_new lib minimum) 0 [] = Inr (length compressed, source)"
      "length source = count"
      "if gf_interlaced f then bindE (foldE (place_row (unat (gf_width f)) source) (replicate count 0, 0)
          (interlaced_rows (unat (gf_height f)))) (\<lambda>(ordered, _). Inr ordered) = (Inr out :: gif_error stop + bytes)
       else out = source"
    using assms(1) by (auto simp: decode_indices_def b bindE_eq_Inr split: if_split_asm)
  show ?thesis
  proof (cases "gf_interlaced f")
    case True
    obtain out' where p: "foldE (place_row (unat (gf_width f)) source) (replicate count 0, 0) (interlaced_rows (unat (gf_height f)))
        = Inr (out', unat (gf_height f))" "length out' = count"
        "\<forall>i < unat (gf_height f). row (unat (gf_width f)) (interlaced_rows (unat (gf_height f)) ! i) out' = row (unat (gf_width f)) i source"
      using place_rows [of source "unat (gf_height f)" "unat (gf_width f)" "replicate count 0"
          "interlaced_rows (unat (gf_height f))" 0] s(2) assms(2) interlaced_rows_permutation [of "unat (gf_height f)"]
      by (auto simp: mult.commute length_interlaced)
    then have "out = out'"
      using s(3) True by simp
    then show ?thesis
      using True p s(1,2) by (auto simp: b stored_rows_def Let_def)
  next
    case False
    then show ?thesis using s by (auto simp: b)
  qed
qed

section \<open>The output is a valid animation\<close>

definition gif_documented :: "gif_file \<Rightarrow> bool" where
  "gif_documented g \<longleftrightarrow>
     (\<forall>f\<in>set (gif_frames g). unat (gf_left f) + unat (gf_width f) \<le> unat (gif_width g)
        \<and> unat (gf_top f) + unat (gf_height f) \<le> unat (gif_height g) \<and> gf_dispose f \<le> 3)
     \<and> (\<forall>p. gif_global g = Some p \<longrightarrow> table_ok p)
     \<and> (\<forall>i. gif_background g = Some i \<longrightarrow> i < 256)"

text \<open>The background index, if there is one, names a color of the global palette.\<close>

definition background_in_table :: "gif_file \<Rightarrow> bool" where
  "background_in_table g \<longleftrightarrow>
     (\<forall>i. gif_background g = Some i \<longrightarrow> (\<exists>p. gif_global g = Some p \<and> i < colors_of p))"

definition emitted :: "bytes \<Rightarrow> gif_frame \<Rightarrow> bytes \<Rightarrow> Frame" where
  "emitted global_table f px =
     \<lparr>frame_left = gf_left f, frame_top = gf_top f, frame_width = gf_width f, frame_height = gf_height f,
      delay = gf_delay f, transparent = gf_transparent f, disposal = gf_dispose f,
      palette = (case gf_palette f of None \<Rightarrow> global_table | Some p \<Rightarrow> p), frame_pixels = px\<rparr>"

lemma emit_frame_valid:
  assumes e: "emit_frame lib gt (count, subtotal, out) f = Inr (count', subtotal', out')"
    and d: "unat (gf_left f) + unat (gf_width f) \<le> unat cw" "unat (gf_top f) + unat (gf_height f) \<le> unat ch"
      "gf_dispose f \<le> 3"
  shows "\<exists>px. out' = out @ gif_frame_bytes (emitted gt f px) \<and> frame_ok cw ch (emitted gt f px)
     \<and> decode_indices (lzw_library lib) f (unat (gf_width f) * unat (gf_height f)) = Inr px
     \<and> count' = count + 1 \<and> count' \<le> 512 \<and> subtotal' = subtotal + length px \<and> subtotal' \<le> 16777216
     \<and> length out' \<le> 17825792"
proof -
  define n where "n = unat (gf_width f) * unat (gf_height f)"
  define pal where "pal = (case gf_palette f of None \<Rightarrow> gt | Some p \<Rightarrow> p)"
  define k where "k = length pal div 3"
  have "checked_add64 subtotal n = Some (subtotal + n)"
    using e by (auto simp: emit_frame_def Let_def n_def checked_add64_def split: option.split_asm if_split_asm)
  then obtain px where h: "count + 1 \<le> 512" "subtotal + n \<le> 16777216" "n \<noteq> 0" "n \<le> 1048576" "2 \<le> k" "k \<le> 256"
      "is_power_of_two (of_nat k)" "length pal = k * 3" "\<forall>i. gf_transparent f = Some i \<longrightarrow> unat i < k"
      "length out + (20 + length pal + n) \<le> 17825792"
      "decode_indices (lzw_library lib) f n = Inr px" "\<forall>i\<in>set px. unat i < k"
      "count' = count + 1" "subtotal' = subtotal + n"
      "out' = out @ concat (map be16 [gf_left f, gf_top f, gf_width f, gf_height f, gf_delay f, of_nat k,
                case gf_transparent f of None \<Rightarrow> 256 | Some i \<Rightarrow> ucast i])
            @ [gf_dispose f, 0] @ be32 (of_nat n) @ pal @ px"
    using e unfolding emit_frame_def Let_def prod.case n_def [symmetric] pal_def [symmetric] k_def [symmetric]
    by (auto simp: bindE_eq_Inr not_le not_less checked_add64_def split: if_split_asm option.split_asm)
  have px: "length px = n"
    using decode_indices_result [OF h(11)] by (simp add: n_def)
  have c: "colors_of pal = k"
    by (simp add: colors_of_def k_def)
  have "unat (of_nat k :: u16) = k"
    using h(6) by (simp add: unsigned_of_nat take_bit_eq_mod)
  then have "k \<in> set table_sizes"
    using table_size_iff [of "of_nat k"] h(5-7) by (simp add: word_le_nat_alt)
  then have "table_ok pal"
    using h(8) by (simp add: table_ok_def c)
  then have "frame_ok cw ch (emitted gt f px)"
    using h d px n_def by (auto simp: frame_ok_def emitted_def pal_def [symmetric] c index_ok_def)
  moreover have "out' = out @ gif_frame_bytes (emitted gt f px)"
    by (simp add: h(15) gif_frame_bytes_def emitted_def pal_def [symmetric] c frame_header_def index_word_def px)
  moreover from this have "length out' \<le> 17825792"
    using h(10) px by (simp add: emitted_def pal_def [symmetric])
  ultimately show ?thesis
    using h(1,2,11,13,14) px by (intro exI [of _ px]) (simp add: n_def)
qed

lemma emit_frames_valid:
  assumes "foldE (emit_frame lib gt) (count, subtotal, out) fs = Inr (count', subtotal', out')"
    and "\<forall>f\<in>set fs. unat (gf_left f) + unat (gf_width f) \<le> unat cw
       \<and> unat (gf_top f) + unat (gf_height f) \<le> unat ch \<and> gf_dispose f \<le> 3"
    and "count \<le> 512" "subtotal \<le> 16777216" "length out \<le> 17825792"
  shows "\<exists>frs. out' = out @ frames_bytes frs \<and> list_all (frame_ok cw ch) frs
     \<and> list_all2 (\<lambda>f fr. \<exists>px. fr = emitted gt f px
         \<and> decode_indices (lzw_library lib) f (unat (gf_width f) * unat (gf_height f)) = Inr px) fs frs
     \<and> count' = count + length frs \<and> count' \<le> 512
     \<and> subtotal' = subtotal + pixel_total frs \<and> subtotal' \<le> 16777216 \<and> length out' \<le> 17825792"
  using assms
proof (induction fs arbitrary: count subtotal out)
  case (Cons f fs)
  obtain c1 t1 o1 where s: "emit_frame lib gt (count, subtotal, out) f = Inr (c1, t1, o1)"
      "foldE (emit_frame lib gt) (c1, t1, o1) fs = Inr (count', subtotal', out')"
    using Cons.prems(1) by (auto simp: bindE_eq_Inr)
  obtain px where p: "o1 = out @ gif_frame_bytes (emitted gt f px)" "frame_ok cw ch (emitted gt f px)"
      "decode_indices (lzw_library lib) f (unat (gf_width f) * unat (gf_height f)) = Inr px"
      "c1 = count + 1" "c1 \<le> 512" "t1 = subtotal + length px" "t1 \<le> 16777216" "length o1 \<le> 17825792"
    using emit_frame_valid [OF s(1), of cw ch] Cons.prems(2) by auto
  obtain frs where q: "out' = o1 @ frames_bytes frs" "list_all (frame_ok cw ch) frs"
      "list_all2 (\<lambda>f fr. \<exists>px. fr = emitted gt f px
         \<and> decode_indices (lzw_library lib) f (unat (gf_width f) * unat (gf_height f)) = Inr px) fs frs"
      "count' = c1 + length frs" "count' \<le> 512" "subtotal' = t1 + pixel_total frs" "subtotal' \<le> 16777216"
      "length out' \<le> 17825792"
    using Cons.IH [OF s(2)] Cons.prems(2) p by auto
  have "length (frame_pixels (emitted gt f px)) = length px"
    by (simp add: emitted_def)
  then show ?case
    using p q by (intro exI [of _ "emitted gt f px # frs"]) auto
qed auto

lemma image_loops: "scan_image d p s = Inr s' \<Longrightarrow> loops s' = loops s"
  by (auto simp: scan_image_def Let_def bindE_eq_Inr split: option.split_asm if_split_asm)

lemma control_loops: "scan_control s c = Inr s' \<Longrightarrow> loops s' = loops s"
  by (auto simp: scan_control_def bindE_eq_Inr split: if_split_asm)

lemma application_loops:
  "scan_application s c = Inr s' \<Longrightarrow> loops s' = loops s \<or> (\<exists>w :: u16. loops s' = ucast w)"
  by (auto simp: scan_application_def bindE_eq_Inr split: if_split_asm)

lemma extension_loops:
  "scan_extension s c = Inr s' \<Longrightarrow> loops s' = loops s \<or> (\<exists>w :: u16. loops s' = ucast w)"
  by (auto simp: scan_extension_def bindE_eq_Inr split: if_split_asm dest: control_loops application_loops)

lemma scan_step_loops:
  assumes "scan_step d p s = Inr out" "loops s \<in> range repeat_word"
  shows "case out of Done scan \<Rightarrow> scan_repeat scan \<in> range repeat_word | More s' \<Rightarrow> loops s' \<in> range repeat_word"
proof -
  have u: "(ucast (w :: u16) :: u32) \<in> range repeat_word" for w
    by (rule range_eqI [of _ _ "Some w"]) (simp add: repeat_word_def)
  obtain b c where b: "block_byte (cursor s) = Inr (b, c)"
    using assms(1) by (auto simp: scan_step_def bindE_eq_Inr)
  consider (done_scan) scan where "out = Done scan" "scan_repeat scan = loops s"
    | (image) s' where "out = More s'" "scan_image d p (s\<lparr>cursor := c\<rparr>) = Inr s'"
    | (extension) s' where "out = More s'" "scan_extension s c = Inr s'"
    using assms(1) unfolding scan_step_def b bindE_Inr prod.case
    by (auto simp: map_sum_Inr split: if_split_asm)
  then show ?thesis
  proof cases
    case done_scan
    then show ?thesis using assms(2) by simp
  next
    case image
    then show ?thesis using assms(2) image_loops [OF image(2)] by simp
  next
    case extension
    then show ?thesis using assms(2) extension_loops [OF extension(2)] u by auto
  qed
qed

lemma scan_loop_repeat:
  "scan_loop d p s = Inr scan \<Longrightarrow> loops s \<in> range repeat_word \<Longrightarrow> scan_repeat scan \<in> range repeat_word"
proof (induction d p s rule: scan_loop.induct)
  case (1 d p s)
  then obtain out where out: "scan_step d p s = Inr out"
    by (subst (asm) (2) scan_loop.simps) (auto split: sum.split_asm)
  then show ?case
    using 1 scan_step_loops [OF out]
    by (subst (asm) (2) scan_loop.simps) (auto split: scan_outcome.split_asm)
qed

lemma scan_blocks_repeat: "scan_blocks input = Inr n \<Longrightarrow> \<exists>i. n = repeat_word i"
proof -
  have "(65536 :: u32) \<in> range repeat_word"
    by (rule range_eqI [of _ _ None]) (simp add: repeat_word_def)
  then show "scan_blocks input = Inr n \<Longrightarrow> \<exists>i. n = repeat_word i"
    using scan_loop_repeat
    by (fastforce simp: scan_blocks_def scan_with_limits_def map_sum_Inr bindE_eq_Inr split: if_split_asm)
qed


definition background_word :: "gif_file \<Rightarrow> u16" where
  "background_word g = (case gif_background g of None \<Rightarrow> 256 | Some i \<Rightarrow> of_nat i)"

definition global_bytes :: "gif_file \<Rightarrow> bytes" where
  "global_bytes g = (case gif_global g of None \<Rightarrow> [] | Some p \<Rightarrow> p)"

lemma background_index:
  assumes "gif_documented g" "background_in_table g"
  shows "background_word g = index_word (map_option of_nat (gif_background g))
     \<and> index_ok (colors_of (global_bytes g)) (map_option of_nat (gif_background g))"
proof (cases "gif_background g")
  case (Some i)
  then obtain p where p: "gif_global g = Some p" "i < colors_of p" "i < 256"
    using assms by (auto simp: gif_documented_def background_in_table_def)
  then have i: "unat (of_nat i :: u8) = i" "unat (of_nat i :: u16) = i"
    by (simp_all add: unsigned_of_nat take_bit_eq_mod)
  have "unat (index_word (Some (of_nat i))) = unat (of_nat i :: u16)"
    using index_word_value [of "Some (of_nat i)"] i by simp
  then have "(of_nat i :: u16) = index_word (Some (of_nat i))"
    by (metis word_unat_eq_iff)
  then show ?thesis
    using Some p i by (simp add: index_ok_def background_word_def global_bytes_def)
next
  case None
  then show ?thesis
    by (simp add: index_word_def index_ok_def background_word_def)
qed

lemma background_refused:
  assumes "gif_documented g" "\<not> background_in_table g" "global_bytes g = [] \<or> table_ok (global_bytes g)"
  shows "background_word g \<noteq> 256 \<and> of_nat (colors_of (global_bytes g)) \<le> background_word g"
proof -
  obtain i where i: "gif_background g = Some i" "i < 256" "colors_of (global_bytes g) \<le> i"
    using assms(1,2) by (cases "gif_global g")
      (auto simp: gif_documented_def background_in_table_def global_bytes_def colors_of_def not_less)
  then have "unat (of_nat i :: u16) = i" "unat (of_nat (colors_of (global_bytes g)) :: u16) = colors_of (global_bytes g)"
    by (simp_all add: unsigned_of_nat take_bit_eq_mod)
  moreover from this have "(of_nat i :: u16) \<noteq> 256"
    using i(2) by auto
  ultimately show ?thesis
    using i by (simp add: background_word_def word_le_nat_alt)
qed

lemma decode_gif_layout:
  assumes d: "decode_gif lib input = Inr out" and g: "read_info lib input = Some g" and doc: "gif_documented g"
  shows "\<exists>frs rep. out = animation_header (gif_width g) (gif_height g) (of_nat (length frs)) (of_nat (colors_of (global_bytes g)))
        (background_word g) (repeat_word rep) @ global_bytes g @ frames_bytes frs
     \<and> 1 \<le> gif_width g \<and> gif_width g \<le> 1024 \<and> 1 \<le> gif_height g \<and> gif_height g \<le> 1024
     \<and> (global_bytes g = [] \<or> table_ok (global_bytes g)) \<and> scan_blocks input = Inr (repeat_word rep)
     \<and> 1 \<le> length frs \<and> length frs \<le> 512 \<and> list_all (frame_ok (gif_width g) (gif_height g)) frs
     \<and> pixel_total frs \<le> 16777216 \<and> length out \<le> 17825792
     \<and> list_all2 (\<lambda>f fr. \<exists>px. fr = emitted (global_bytes g) f px
         \<and> decode_indices (lzw_library lib) f (unat (gf_width f) * unat (gf_height f)) = Inr px) (gif_frames g) frs"
proof -
  define gt where "gt = global_bytes g"
  define bg where "bg = background_word g"
  obtain rep where rep: "scan_blocks input = Inr (repeat_word rep)"
    using d scan_blocks_repeat by (fastforce simp: decode_gif_def bindE_eq_Inr map_err_Inr split: if_split_asm)
  define hd0 where "hd0 = animation_header (gif_width g) (gif_height g) 0 (of_nat (colors_of gt)) bg (repeat_word rep)"
  have h0: "ascii ''IBGIF001'' @ be16 (gif_width g) @ be16 (gif_height g) @ be16 0
      @ be16 (of_nat (length gt div 3)) @ be16 bg @ be32 (repeat_word rep) @ replicate 10 0 = hd0"
    by (simp add: hd0_def animation_header_def colors_of_def)
  obtain count subtotal result where o: "1 \<le> gif_width g" "gif_width g \<le> 1024" "1 \<le> gif_height g" "gif_height g \<le> 1024"
      "foldE (emit_frame lib gt) (0, 0, hd0 @ gt) (gif_frames g) = Inr (count, subtotal, result)" "count \<noteq> 0"
      "out = take 12 result @ be16 (of_nat count) @ drop 14 result"
    using d unfolding decode_gif_def rep g map_err_simps bindE_Inr option.case Let_def global_bytes_def [symmetric]
      background_word_def [symmetric] gt_def [symmetric] bg_def [symmetric] h0
    by (auto simp: bindE_eq_Inr split: if_split_asm)
  have gt: "gt = [] \<or> table_ok gt"
    using doc by (auto simp: gif_documented_def gt_def global_bytes_def split: option.splits)
  then have "length gt \<le> 768"
    using table_sizes_le [of "colors_of gt"] by (auto simp: table_ok_def)
  then have small: "length (hd0 @ gt) \<le> 17825792"
    by (simp add: hd0_def animation_header_def)
  obtain frs where f: "result = (hd0 @ gt) @ frames_bytes frs" "list_all (frame_ok (gif_width g) (gif_height g)) frs"
      "list_all2 (\<lambda>f fr. \<exists>px. fr = emitted gt f px
         \<and> decode_indices (lzw_library lib) f (unat (gf_width f) * unat (gf_height f)) = Inr px) (gif_frames g) frs"
      "count = length frs" "count \<le> 512" "pixel_total frs \<le> 16777216" "length result \<le> 17825792"
    using emit_frames_valid [OF o(5), of "gif_width g" "gif_height g"] doc small by (auto simp: gif_documented_def)
  have out: "out = animation_header (gif_width g) (gif_height g) (of_nat (length frs)) (of_nat (colors_of gt)) bg (repeat_word rep)
      @ gt @ frames_bytes frs"
    by (simp add: o(7) f(1,4) hd0_def animation_header_def)
  moreover have "length out \<le> 17825792"
    using f(7) unfolding out f(1) by (simp add: hd0_def animation_header_def)
  ultimately show ?thesis
    using rep o(1-4,6) gt f(2-6) unfolding gt_def bg_def by (intro exI [of _ frs] exI [of _ rep]) (simp add: Suc_le_eq)
qed

theorem decode_gif_valid:
  assumes d: "decode_gif lib input = Inr out" and g: "read_info lib input = Some g" and doc: "gif_documented g"
    and fits: "background_in_table g"
  shows "\<exists>a. valid_animation a \<and> out = animation_bytes a
     \<and> canvas_width a = gif_width g \<and> canvas_height a = gif_height g
     \<and> global_palette a = global_bytes g \<and> ValidatedAnimation.background a = map_option of_nat (gif_background g)
     \<and> scan_blocks input = Inr (repeat_word (repeat a))
     \<and> list_all2 (\<lambda>f fr. \<exists>px. fr = emitted (global_palette a) f px
         \<and> decode_indices (lzw_library lib) f (unat (gf_width f) * unat (gf_height f)) = Inr px) (gif_frames g) (frames a)"
proof -
  obtain frs rep where l: "out = animation_header (gif_width g) (gif_height g) (of_nat (length frs)) (of_nat (colors_of (global_bytes g)))
        (background_word g) (repeat_word rep) @ global_bytes g @ frames_bytes frs"
      "1 \<le> gif_width g" "gif_width g \<le> 1024" "1 \<le> gif_height g" "gif_height g \<le> 1024"
      "global_bytes g = [] \<or> table_ok (global_bytes g)" "scan_blocks input = Inr (repeat_word rep)"
      "1 \<le> length frs" "length frs \<le> 512" "list_all (frame_ok (gif_width g) (gif_height g)) frs"
      "pixel_total frs \<le> 16777216" "length out \<le> 17825792"
      "list_all2 (\<lambda>f fr. \<exists>px. fr = emitted (global_bytes g) f px
         \<and> decode_indices (lzw_library lib) f (unat (gf_width f) * unat (gf_height f)) = Inr px) (gif_frames g) frs"
    using decode_gif_layout [OF d g doc] by blast
  define a where "a = \<lparr>canvas_width = gif_width g, canvas_height = gif_height g, global_palette = global_bytes g,
      background = map_option of_nat (gif_background g), repeat = rep, frames = frs\<rparr>"
  have "out = animation_bytes a"
    using background_index [OF doc fits] by (simp add: l(1) animation_bytes_def a_def)
  moreover have "valid_animation a"
    using l(2-6,8-12) background_index [OF doc fits] unfolding \<open>out = animation_bytes a\<close>
    by (simp add: valid_animation_def a_def)
  ultimately show ?thesis
    using l(7,13) by (intro exI [of _ a]) (simp add: a_def)
qed

theorem decode_gif_refused:
  assumes d: "decode_gif lib input = Inr out" and g: "read_info lib input = Some g" and doc: "gif_documented g"
    and outside: "\<not> background_in_table g"
  shows "read_animation (out, False) = Inl InvalidOutput"
proof -
  obtain frs rep where l: "out = animation_header (gif_width g) (gif_height g) (of_nat (length frs)) (of_nat (colors_of (global_bytes g)))
        (background_word g) (repeat_word rep) @ global_bytes g @ frames_bytes frs"
      "global_bytes g = [] \<or> table_ok (global_bytes g)"
    using decode_gif_layout [OF d g doc] by blast
  define hdr where "hdr = animation_header (gif_width g) (gif_height g) (of_nat (length frs)) (of_nat (colors_of (global_bytes g)))
        (background_word g) (repeat_word rep)"
  note h = animation_header_fields [OF hdr_def]
  have "read_exact 32 (out, False) = Inr (hdr, (global_bytes g @ frames_bytes frs, False))"
    using h(1) unfolding l(1) hdr_def [symmetric] by (intro read_exact_append)
  moreover have "palette_size (of_nat (colors_of (global_bytes g))) True = Inl InvalidOutput
      \<or> (\<exists>n. palette_size (of_nat (colors_of (global_bytes g))) True = Inr n)"
    by (simp add: palette_size_def)
  ultimately show ?thesis
    using background_refused [OF doc outside l(2)] h
    unfolding read_animation_def read_animation_protocol_def by (auto simp: Let_def)
qed

section \<open>No panic\<close>

lemma decode_gif_fine: "lzw_documented (lzw_library lib) \<Longrightarrow> fine (decode_gif lib input)"
proof -
  assume lzw: "lzw_documented (lzw_library lib)"
  have step: "fine (emit_frame lib gt s f)" for gt s f
    unfolding emit_frame_def Let_def
    by (auto intro!: fine_bindE decode_indices_fine [OF lzw] split: prod.split option.split)
  have run: "fine (foldE (emit_frame lib gt) s fs)" for gt s fs
    by (induction fs arbitrary: s) (auto intro!: fine_bindE step)
  have err: "fine (map_err Refused m)" for m :: "'b gif"
    by (cases m) (simp_all add: fine_def)
  show ?thesis
    unfolding decode_gif_def Let_def
    by (auto intro!: fine_bindE run err split: option.split)
qed

lemma decode_gif_disk_fine:
  assumes "lzw_documented (lzw_library lib)"
  shows "fine (decode_gif_disk lib r)"
proof -
  have err: "fine (map_err (\<lambda>e. Refused (GifRead e)) m)" for m :: "io_error + 'b"
    by (cases m) (simp_all add: fine_def)
  show ?thesis
    unfolding decode_gif_disk_def Let_def
    by (auto intro!: fine_bindE err decode_gif_fine [OF assms])
qed

end
