(* ===== verification/GatewayClient.thy ===== *)
theory GatewayClient
  imports DispatchGateway
begin

text \<open>
  The client of \<open>tls.rs\<close> talking to a connection of \<open>gateway.rs\<close>: the two ends composed, for every
  kind of request.
\<close>

lemma response_magic_length: "length (response_magic q) = 8"
  by (cases q) simp_all

lemma response_frame_inj:
  assumes "length a = response_length q" "length b = response_length q"
    and "frame_bytes (response_magic q) a = frame_bytes (response_magic q) b"
  shows "a = b"
  using assms by (simp add: frame_bytes_def)

lemma through_gateway_iff:
  assumes ok: "request_ok q" and disk: "length disk = response_length q"
  shows "through_gateway sha256 g limit (request_bytes q) = (frame_bytes (response_magic q) disk, False) \<longleftrightarrow>
     (\<exists>cert. handshake g = Inr (Some cert) \<and> authorized g (sha256 cert) 0 \<and> authorized g (sha256 cert) 1
        \<and> authorized g (sha256 cert) 2)
     \<and> permit g \<and> intake_in_time g \<and> processing_in_time g
     \<and> broker_uid g = Inr 0 \<and> length (request_bytes q) \<le> broker_room g
     \<and> length (frame_bytes (response_magic q) disk) \<le> limit
     \<and> broker_answer g (request_bytes q) = (frame_bytes (response_magic q) disk, False)" (is "?l \<longleftrightarrow> ?r")
proof -
  have three: "(\<forall>i<3. P i) \<longleftrightarrow> P 0 \<and> P 1 \<and> P (2::nat)" for P
    by (auto simp: less_Suc_eq eval_nat_numeral)
  show ?thesis
  proof
    assume l: ?l
    then obtain w where w: "connection sha256 g (request_bytes q, False) (wide limit) = Inr w"
        "sent w = frame_bytes (response_magic q) disk"
      by (auto simp: through_gateway_def split: sum.split_asm)
    then obtain cert q' disk' where c: "handshake g = Inr (Some cert)" "permit g" "intake_in_time g" "processing_in_time g"
        "authorized g (sha256 cert) 0 \<and> authorized g (sha256 cert) 1 \<and> authorized g (sha256 cert) 2"
        "request_ok q'" "request_bytes q = request_bytes q'" "broker_uid g = Inr 0"
        "length (request_bytes q') \<le> broker_room g" "length disk' = response_length q'"
        "broker_answer g (request_bytes q') = (frame_bytes (response_magic q') disk', False)"
        "sends (frame_bytes (response_magic q') disk') (wide limit) w"
      unfolding connection_iff three by auto
    have q: "q' = q"
      using requests.wire_inj [OF c(6) ok] c(7) by simp
    have "frame_bytes (response_magic q) disk' = frame_bytes (response_magic q) disk"
      using c(12) w(2) by (simp add: sends_wide q)
    then have d: "disk' = disk"
      by (rule response_frame_inj [OF c(10) [unfolded q] disk])
    have "length (frame_bytes (response_magic q) disk) \<le> limit"
      using c(12) unfolding q d sends_wide by blast
    then show ?r
      using c(1-5,8,9,11) unfolding q d by blast
  next
    assume r: ?r
    define w where "w = \<lparr>sent = frame_bytes (response_magic q) disk,
        room = limit - length (frame_bytes (response_magic q) disk), closes = True, closed = True\<rparr>"
    have "connection sha256 g (request_bytes q, False) (wide limit) = Inr w"
      unfolding connection_iff three using r ok disk by (auto simp: sends_wide w_def)
    then show ?l
      by (simp add: through_gateway_def w_def)
  qed
qed

lemma submit_through_gateway:
  assumes "request_ok q" and "connect net = Inr (wide n)" and "sent_in_time net" and "answered_in_time net"
    and "length (request_bytes q) \<le> n" and "peer net = through_gateway sha256 g limit"
  shows "submit net q = Inr disk \<longleftrightarrow>
     (\<exists>cert. handshake g = Inr (Some cert) \<and> authorized g (sha256 cert) 0 \<and> authorized g (sha256 cert) 1
        \<and> authorized g (sha256 cert) 2)
     \<and> permit g \<and> intake_in_time g \<and> processing_in_time g
     \<and> broker_uid g = Inr 0 \<and> length (request_bytes q) \<le> broker_room g
     \<and> length disk = response_length q \<and> length (frame_bytes (response_magic q) disk) \<le> limit
     \<and> broker_answer g (request_bytes q) = (frame_bytes (response_magic q) disk, False)"
proof -
  have "submit net q = Inr disk \<longleftrightarrow> length disk = response_length q
      \<and> through_gateway sha256 g limit (request_bytes q) = (frame_bytes (response_magic q) disk, False)"
    using assms by (auto simp: submit_iff wide_def)
  then show ?thesis
    using through_gateway_iff [OF assms(1), of disk sha256 g limit] by blast
qed

end
