(* ===== verification/Samples.thy ===== *)
theory Samples
  imports GatewayClient GuestPaired
begin

text \<open>Concrete worlds for the witnesses: a gateway that accepts, its client, and a guest.\<close>

definition sample_disk :: bytes where
  "sample_disk = replicate 4194816 0"

definition sample_gateway :: gateway_world where
  "sample_gateway =
     \<lparr>handshake = Inr (Some [9]), permit = True, authorizations_at = (\<lambda>_. Inr [[8], [9]]),
      intake_in_time = True, processing_in_time = True, broker_uid = Inr 0, broker_room = 100,
      broker_answer = (\<lambda>_. (frame_bytes (ascii ''IBOUT001'') sample_disk, False))\<rparr>"

definition sample_network :: network where
  "sample_network =
     \<lparr>connect = Inr (wide 100), sent_in_time = True, answered_in_time = True,
      peer = through_gateway id sample_gateway 5000000\<rparr>"

lemma length_sample_disk: "length sample_disk = 4194816"
  by (simp add: sample_disk_def)

definition sample_guest :: guest where
  "sample_guest =
     \<lparr>png_library = (\<lambda>_. Some \<lparr>info_width = 1, info_height = 1, animated = False, output_size = Some 4,
          next_frame = Some \<lparr>frame_width = 1, frame_height = 1, color_type = Rgba, frame_data = [1, 2, 3, 4]\<rparr>,
          finishes = True\<rparr>),
      inflate_library = (\<lambda>_ _. None), event_bytes_each = 16, grants = (\<lambda>_. True)\<rparr>"

lemma sample_guest_documented: "png_library sample_guest bs = Some info \<Longrightarrow> png_documented info"
  by (auto simp: sample_guest_def png_documented_def)

lemma sample_guest_runs:
  "\<exists>out. decode_frame sample_guest (pair_bytes (replicate 16 0) [1] None) (replicate 32 0) = Inr out"
proof -
  have "chunks_exact 4 [1, 2, 3, 4 :: u8] = [[1, 2, 3, 4]]"
    by code_simp
  then have "decode_png (png_library sample_guest) [1] = Inr (ascii ''IBRGBA01'' @ be32 1 @ be32 1 @ [1, 2, 3, 4])"
    by (simp add: decode_png_def sample_guest_def rgba_pixel_def checked_mul64_def Let_def)
  note png = this
  show ?thesis
    unfolding decode_frame_iff [OF length_replicate]
    by (rule exI, rule exI [of _ "replicate 16 0"], rule exI [of _ "[1]"], rule exI [of _ None],
        rule exI [of _ "ascii ''IBRGBA01'' @ be32 1 @ be32 1 @ [1, 2, 3, 4]"], rule exI [of _ "[]"])
      (simp add: png pair_ok_def, simp add: sample_guest_def)
qed

lemma pair_bytes_without_upload:
  "pair_bytes job img None = pair_bytes job' img' rep \<Longrightarrow> rep = None"
  by (cases rep) (auto simp: pair_bytes_def frame_head_def flag_word_def be32_def)

end
