(* ===== verification/MediaSamples.thy ===== *)
theory MediaSamples
  imports GifOutput GuestGifFacts "HOL-Library.Code_Target_Nat" SourceDigest
begin

text \<open>Concrete images, animations and GIF files for the witnesses.\<close>

lemma input_disk_inj:
  assumes "input_disk a = input_disk b" "length a \<le> 8388608" "length b \<le> 8388608"
  shows "b = a"
proof -
  have l: "of_nat (length a) = (of_nat (length b) :: u64)"
    using arg_cong [OF assms(1), of "\<lambda>x. at64 x 0"] at64_field [of "[]" 0]
    by (simp add: input_disk_def)
  have "length a = length b"
    using arg_cong [OF l, of unat] assms by (simp add: unat_of_length)
  then show ?thesis
    using assms(1) by (simp add: input_disk_def)
qed

section \<open>An image with a long side\<close>

definition sample_output :: ValidatedOutput where
  "sample_output = \<lparr>ValidatedOutput.width = 251, height = 1, pixels = replicate 1004 7\<rparr>"

lemma sample_output_valid: "valid_output sample_output"
  by (simp add: sample_output_def valid_output_def dimensions_def pixels_ok_def)

lemma sample_output_large: "\<not> max (ValidatedOutput.width sample_output) (ValidatedOutput.height sample_output) \<le> 250"
  by (simp add: sample_output_def)

section \<open>An animation\<close>

definition sample_frame :: Frame where
  "sample_frame = \<lparr>frame_left = 1, frame_top = 0, frame_width = 1, frame_height = 1, delay = 4,
     transparent = Some 1, disposal = 2, palette = [1, 2, 3, 4, 5, 6], frame_pixels = [0]\<rparr>"

definition sample_animation :: ValidatedAnimation where
  "sample_animation = \<lparr>canvas_width = 2, canvas_height = 1, global_palette = [], background = None,
     repeat = Some 3, frames = [sample_frame]\<rparr>"

lemma sample_animation_valid: "valid_animation sample_animation"
  by (simp add: valid_animation_def sample_animation_def sample_frame_def frame_ok_def table_ok_def colors_of_def
      table_sizes_def index_ok_def)

lemma sample_animation_encodes: "\<exists>g. encode_gif id id sample_animation = Inr g"
proof -
  have "length (encode_literals (frame_pixels sample_frame) []) < 10"
    by code_simp
  then have "length (gif_head sample_animation @ frame_gif sample_frame) < 20971520"
    by (simp add: frame_gif_def gif_head_def padded_def frame_descriptor_def sample_animation_def sample_frame_def)
  moreover have "length (palette sample_frame) \<le> 768"
    by (simp add: sample_frame_def)
  ultimately have "length (gif_head sample_animation @ frame_gif sample_frame) < 20971520" "length (palette sample_frame) \<le> 768"
    by blast+
  then have "write_gif_frame (gif_head sample_animation) sample_frame = Inr (gif_head sample_animation @ frame_gif sample_frame)"
    by (simp only: write_gif_frame_iff)
  then show ?thesis
    by (simp add: encode_gif_def sample_animation_def)
qed

section \<open>A GIF file\<close>

text \<open>One pixel: header, screen descriptor, image descriptor with a table, data and trailer.\<close>

definition sample_gif_bytes :: bytes where
  "sample_gif_bytes = [71, 73, 70, 56, 57, 97, 1, 0, 1, 0, 0, 0, 0,
     0x2c, 0, 0, 0, 0, 1, 0, 1, 0, 0x80, 1, 2, 3, 4, 5, 6, 2, 2, 0x44, 1, 0, 0x3b]"

definition sample_gif_frame :: gif_frame where
  "sample_gif_frame = \<lparr>gf_left = 0, gf_top = 0, gf_width = 1, gf_height = 1, gf_delay = 0, gf_interlaced = False,
     gf_palette = Some [1, 2, 3, 4, 5, 6], gf_transparent = None, gf_dispose = 0, gf_needs_input = False,
     gf_buffer = [2, 0x44, 1]\<rparr>"

definition sample_gif :: gif_file where
  "sample_gif = \<lparr>gif_width = 1, gif_height = 1, gif_global = None, gif_background = None,
     gif_frames = [sample_gif_frame], gif_ends = True, gif_left_over = Inr False\<rparr>"

text \<open>A decoder that writes one zero and consumes its input.\<close>

definition sample_lzw :: "unit lzw_decoder" where
  "sample_lzw = \<lparr>lzw_new = (\<lambda>_. ()),
     lzw_call = (\<lambda>_ input limit. ((), length input, if limit = 0 then [] else [0], LzwDone))\<rparr>"

definition sample_gif_libraries :: "gif_file option \<Rightarrow> unit gif_libraries" where
  "sample_gif_libraries g = \<lparr>read_info = (\<lambda>_. g), lzw_library = sample_lzw\<rparr>"

lemma sample_lzw_documented: "lzw_documented (lzw_library (sample_gif_libraries g))"
  by (auto simp: lzw_documented_def sample_gif_libraries_def sample_lzw_def)

lemma sample_gif_info: "read_info (sample_gif_libraries (Some sample_gif)) sample_gif_bytes = Some sample_gif"
  by (simp add: sample_gif_libraries_def)

lemma sample_gif_documented: "gif_documented sample_gif"
  by (simp add: gif_documented_def sample_gif_def sample_gif_frame_def)

text \<open>The same file with a background index, which has no global palette to refer to.\<close>

definition background_gif :: gif_file where
  "background_gif = sample_gif\<lparr>gif_background := Some 0\<rparr>"

lemma background_gif_info: "read_info (sample_gif_libraries (Some background_gif)) sample_gif_bytes = Some background_gif"
  by (simp add: sample_gif_libraries_def)

lemma background_gif_documented: "gif_documented background_gif"
  by (simp add: gif_documented_def background_gif_def sample_gif_def sample_gif_frame_def)

lemma sample_backgrounds: "background_in_table sample_gif" "\<not> background_in_table background_gif"
  by (simp_all add: background_in_table_def background_gif_def sample_gif_def)

lemma background_decodes:
  "\<exists>out. decode_gif (sample_gif_libraries (Some (sample_gif\<lparr>gif_background := bg\<rparr>))) sample_gif_bytes = Inr out"
proof -
  let ?g = "sample_gif\<lparr>gif_background := bg\<rparr>"
  let ?lib = "sample_gif_libraries (Some ?g)"
  have s: "scan_blocks sample_gif_bytes = Inr 65536" "gif_magic sample_gif_bytes" "length sample_gif_bytes = 35"
    by code_simp+
  have "decode_indices sample_lzw sample_gif_frame 1 = Inr [0]"
    by code_simp
  then have "emit_frame ?lib [] (0, 0, h) sample_gif_frame = Inr (1, 1, snd (snd (projr (emit_frame ?lib [] (0, 0, h) sample_gif_frame))))"
    if "length h = 32" for h
    using that by (simp add: emit_frame_def sample_gif_libraries_def)
      (simp add: sample_gif_frame_def is_power_of_two_def checked_add64_def)
  moreover define h :: bytes where "h = ascii ''IBGIF001'' @ be16 1 @ be16 1 @ be16 0 @ be16 0
    @ be16 (case bg of None \<Rightarrow> 256 | Some i \<Rightarrow> of_nat i) @ be32 65536 @ replicate 10 0"
  moreover have "length h = 32"
    by (simp add: h_def ascii_def)
  ultimately obtain z where z: "emit_frame ?lib [] (0, 0, h) sample_gif_frame = Inr (1, 1, z)"
    by blast
  have g: "gif_width ?g = 1" "gif_height ?g = 1" "gif_global ?g = None"
      "gif_background ?g = bg" "gif_frames ?g = [sample_gif_frame]" "gif_ends ?g"
      "gif_left_over ?g = Inr False" "read_info ?lib sample_gif_bytes = Some ?g"
    by (simp_all add: sample_gif_def sample_gif_libraries_def)
  show ?thesis
    using z by (simp add: decode_gif_def s g h_def)
qed

lemma sample_gif_decodes: "\<exists>out. decode_gif (sample_gif_libraries (Some sample_gif)) sample_gif_bytes = Inr out"
proof -
  have "sample_gif\<lparr>gif_background := None\<rparr> = sample_gif"
    by (simp add: sample_gif_def)
  then show ?thesis
    using background_decodes [of None] by simp
qed

lemma background_gif_decodes: "\<exists>out. decode_gif (sample_gif_libraries (Some background_gif)) sample_gif_bytes = Inr out"
  unfolding background_gif_def by (rule background_decodes)

definition sample_scanner :: scanner where
  "sample_scanner = \<lparr>cursor = \<lparr>block_bytes = [0x21, 0xfe, 0, 0x3b], block_offset = 0\<rparr>, compressed_bytes = 0,
     pending_comment = False, needs_cleanup = False, loops = 65536, frame_count = 0, pixel_sum = 0\<rparr>"

lemma sample_scanner_steps: "\<exists>s'. scan_step 1024 100 sample_scanner = Inr (More s')"
proof -
  have "case scan_step 1024 100 sample_scanner of Inr (More s') \<Rightarrow> True | _ \<Rightarrow> False"
    by code_simp
  then show ?thesis
    by (auto split: sum.split_asm scan_outcome.split_asm)
qed

section \<open>A PNG file\<close>

text \<open>The signature, a header chunk, a text chunk, the last chunk and a byte after it.\<close>

definition sample_png :: bytes where
  "sample_png =
     [137, 80, 78, 71, 13, 10, 26, 10, 0, 0, 0, 1, 73, 72, 68, 82, 7, 9, 9, 9, 9, 0, 0, 0, 0, 116, 69, 88, 116, 1,
     2, 3, 4, 0, 0, 0, 0, 73, 69, 78, 68, 174, 66, 96, 130, 7]"

definition sample_retained :: bytes where
  "sample_retained =
     [137, 80, 78, 71, 13, 10, 26, 10, 0, 0, 0, 1, 73, 72, 68, 82, 7, 9, 9, 9, 9, 0, 0, 0, 0, 73, 69, 78, 68, 174,
     66, 96, 130]"

lemma sample_png_retained: "png_retained sample_png = Inr sample_retained"
  by (simp add: png_retained_def sample_png_def sample_retained_def PNG_SIGNATURE_def STILL_MAX_INPUT_BYTES_def
    retained_loop.simps slice_of_def at32_def of_be32_def kept_lower_def ascii_def ascii_lower_def checked_add64_def Let_def)

lemma sample_png_length: "length sample_png = 46"
  by (simp add: sample_png_def)

end
