(* ===== verification/CommentText.thy ===== *)
theory CommentText
  imports Foundations "HOL-Library.Sublist"
begin

text \<open>
  The text of posts, as the crate \<open>domain\<close> handles it: Unicode scalar values, their UTF-8 lengths,
  the entities of \<open>source_html_entities\<close> (\<open>subject.rs\<close>) and the bounds of \<open>post_limits.rs\<close>.
\<close>

type_synonym scalar = nat
type_synonym utext = "scalar list"

text \<open>A literal, and \<open>char::len_utf8\<close>.\<close>

definition lit :: "string \<Rightarrow> utext" where
  "lit s = map of_char s"

lemma length_lit [simp]: "length (lit s) = length s"
  by (simp add: lit_def)

definition len_utf8 :: "scalar \<Rightarrow> nat" where
  "len_utf8 c = (if c < 0x80 then 1 else if c < 0x800 then 2 else if c < 0x10000 then 3 else 4)"

definition byte_length :: "utext \<Rightarrow> nat" where
  "byte_length t = sum_list (map len_utf8 t)"

text \<open>
  The messages of \<open>ValidationError\<close>. A computation may refuse with one or panic; \<open>returns m P\<close>: it does
  neither, and its value satisfies \<open>P\<close>.
\<close>

datatype validation_error = LimitsUnavailable | FieldTooLong | CommentLimit | ControlCharacter | Spam | TooManyLines
  | ReservedBoard | BoardName | SubjectRequired | SubjectOrComment | NoText | PollTime | PollRandomness | PollVoterInvalid | PollInvalid

type_synonym 'a run = "validation_error stop + 'a"

definition returns :: "'e + 'a \<Rightarrow> ('a \<Rightarrow> bool) \<Rightarrow> bool" where
  "returns m P \<longleftrightarrow> (\<exists>x. m = Inr x \<and> P x)"

lemma returns_simps [simp]: "returns (Inr x) P \<longleftrightarrow> P x" "\<not> returns (Inl e) P"
  by (simp_all add: returns_def)

lemma returns_bindE: "returns m Q \<Longrightarrow> (\<And>x. Q x \<Longrightarrow> returns (f x) P) \<Longrightarrow> returns (bindE m f) P"
  by (auto simp: returns_def)

lemma returns_mono: "returns m P \<Longrightarrow> (\<And>x. P x \<Longrightarrow> Q x) \<Longrightarrow> returns m Q"
  by (auto simp: returns_def)

text \<open>
  The contract of a stage that rewrites text: it returns, and adds no characters but the given ones. So
  it keeps every property of characters that those have.
\<close>

locale text_stage =
  fixes stage :: "utext \<Rightarrow> utext run" and added :: "scalar set"
  assumes stage_returns: "returns (stage t) (\<lambda>u. set u \<subseteq> set t \<union> added)"
begin

lemma stage_keeps:
  assumes "\<And>c. c \<in> set t \<Longrightarrow> P c" "\<And>c. c \<in> added \<Longrightarrow> P c"
  obtains u where "stage t = Inr u" "\<And>c. c \<in> set u \<Longrightarrow> P c"
proof -
  obtain u where "stage t = Inr u" "set u \<subseteq> set t \<union> added"
    using stage_returns [of t] by (auto simp: returns_def)
  then show ?thesis
    using assms by (intro that [of u]) auto
qed

end

section \<open>Entities\<close>

definition entity :: "scalar \<Rightarrow> utext" where
  "entity c =
     (if c = 38 then lit ''&amp;''
      else if c = 60 then lit ''&lt;''
      else if c = 62 then lit ''&gt;''
      else if c = 34 then lit ''&quot;''
      else if c = 39 then lit ''&#039;''
      else [c])"

definition source_html_entities :: "utext \<Rightarrow> utext" where
  "source_html_entities t = concat (map entity t)"

section \<open>Limits\<close>

definition MAX_COMMENT_CHARS :: nat where [simp]: "MAX_COMMENT_CHARS = 16000"
definition MAX_COMMENT_BYTES :: nat where [simp]: "MAX_COMMENT_BYTES = 64000"
definition MAX_PUBLIC_FIELD_BYTES :: nat where [simp]: "MAX_PUBLIC_FIELD_BYTES = 100"
definition MAX_AUTHORIZED_COMMENT_CHARS :: nat where [simp]: "MAX_AUTHORIZED_COMMENT_CHARS = 50000"
definition MAX_AUTHORIZED_FIELD_BYTES :: nat where [simp]: "MAX_AUTHORIZED_FIELD_BYTES = 255"

record PostLimits =
  field_bytes :: nat
  comment_chars :: nat
  input_bytes :: nat
  prepared_chars :: nat
  prepared_bytes :: nat
  subject_bytes :: nat
  is_authorized :: bool

definition ordinary :: "nat \<Rightarrow> PostLimits" where
  "ordinary max_chars = \<lparr>field_bytes = MAX_PUBLIC_FIELD_BYTES, comment_chars = min max_chars MAX_COMMENT_CHARS,
     input_bytes = MAX_COMMENT_BYTES, prepared_chars = MAX_COMMENT_CHARS, prepared_bytes = MAX_COMMENT_BYTES,
     subject_bytes = MAX_PUBLIC_FIELD_BYTES * 4, is_authorized = False\<rparr>"

definition authorized_limits :: "nat \<Rightarrow> PostLimits run" where
  "authorized_limits max_chars =
     (if \<not> (1 \<le> max_chars \<and> max_chars \<le> MAX_AUTHORIZED_COMMENT_CHARS) then Inl (Refused LimitsUnavailable)
      else Inr \<lparr>field_bytes = MAX_AUTHORIZED_FIELD_BYTES, comment_chars = max_chars,
     input_bytes = max_chars * 4, prepared_chars = max_chars * 4, prepared_bytes = max_chars * 4,
     subject_bytes = MAX_AUTHORIZED_FIELD_BYTES * 4, is_authorized = True\<rparr>)"

definition validate_field :: "PostLimits \<Rightarrow> utext \<Rightarrow> unit run" where
  "validate_field l value = (if byte_length value > field_bytes l then Inl (Refused FieldTooLong) else Inr ())"

definition ordinary_checks :: "PostLimits \<Rightarrow> bool" where
  "ordinary_checks l \<longleftrightarrow> \<not> is_authorized l"

end
