(* ===== verification/CommentMarkup.thy ===== *)
theory CommentMarkup
  imports CommentText
begin

unbundle bit_operations_syntax

text \<open>
  \<open>crates/domain/src/comment_markup.rs\<close>: the passes that turn the markup of a comment into tags. A
  comment is a list of atoms; each pass replaces the markers of one kind of tag by tag atoms. The
  slices, the \<open>expect\<close> of \<open>remove_empty_spoilers\<close> and the \<open>unreachable!\<close> of \<open>coalesce\<close> panic here too.
\<close>

section \<open>Data\<close>

record MarkupPolicy =
  allow_spoilers :: bool
  allow_code :: bool
  allow_sjis :: bool
  allow_op :: bool

definition format_ranges :: "(int \<times> int) list" where
  "format_ranges = [(8, 15), (24, 31), (40, 47), (56, 63), (104, 111), (120, 127), (232, 239), (248, 255),
     (488, 495), (504, 511)]"

definition from_post_format :: "i16 \<Rightarrow> MarkupPolicy option" where
  "from_post_format v =
     (if list_ex (\<lambda>(a, b). a \<le> sint v \<and> sint v \<le> b) format_ranges
      then Some \<lparr>allow_spoilers = (v AND 1 \<noteq> 0), allow_code = (v AND 2 \<noteq> 0), allow_sjis = (v AND 4 \<noteq> 0),
                 allow_op = (v AND 16 \<noteq> 0)\<rparr>
      else None)"

datatype Tag = Spoiler | Code | Sjis | Bold | Italic | Red | Green | Blue

fun tag_name :: "Tag \<Rightarrow> string" where
  "tag_name Spoiler = ''spoiler''"
| "tag_name Code = ''code''"
| "tag_name Sjis = ''sjis''"
| "tag_name Bold = ''b''"
| "tag_name Italic = ''i''"
| "tag_name Red = ''red''"
| "tag_name Green = ''green''"
| "tag_name Blue = ''blue''"

definition marker :: "Tag \<Rightarrow> bool \<Rightarrow> utext" where
  "marker t opening = lit ((if opening then ''['' else ''[/'') @ tag_name t @ '']'')"

text \<open>\<open>robot9000::markup\<close>: the element of a tag; \<open>source_html_bytes\<close> is its length.\<close>

fun element :: "Tag \<Rightarrow> bool \<Rightarrow> utext" where
  "element Spoiler True = lit ''<s>''"
| "element Spoiler False = lit ''</s>''"
| "element Code True = lit ''<pre class=\"prettyprint\">''"
| "element Code False = lit ''</pre>''"
| "element Sjis True = lit ''<span class=\"sjis\">''"
| "element Bold True = lit ''<span class=\"mu-s\">''"
| "element Italic True = lit ''<span class=\"mu-i\">''"
| "element Red True = lit ''<span class=\"mu-r\">''"
| "element Green True = lit ''<span class=\"mu-g\">''"
| "element Blue True = lit ''<span class=\"mu-b\">''"
| "element _ False = lit ''</span>''"

fun tag_html_bytes :: "Tag \<Rightarrow> bool \<Rightarrow> nat" where
  "tag_html_bytes Spoiler True = length ''<s>''"
| "tag_html_bytes Spoiler False = length ''</s>''"
| "tag_html_bytes Code True = length ''<pre class=\"prettyprint\">''"
| "tag_html_bytes Code False = length ''</pre>''"
| "tag_html_bytes Sjis True = length ''<span class=\"sjis\">''"
| "tag_html_bytes Sjis False = length ''</span>''"
| "tag_html_bytes _ True = length ''<span class=\"mu-s\">''"
| "tag_html_bytes _ False = length ''</span>''"

datatype MarkupToken = TokenText utext | TokenBreak | TokenOpen Tag | TokenClose Tag

datatype Atom = Char scalar | Generated scalar | Break | Open Tag | Close Tag

fun atom_html_bytes :: "Atom \<Rightarrow> nat" where
  "atom_html_bytes (Char c) =
     (if c = 38 then 5 else if c = 60 \<or> c = 62 then 4 else if c = 34 \<or> c = 39 then 6 else len_utf8 c)"
| "atom_html_bytes (Generated c) = len_utf8 c"
| "atom_html_bytes Break = 4"
| "atom_html_bytes (Open t) = tag_html_bytes t True"
| "atom_html_bytes (Close t) = tag_html_bytes t False"

section \<open>Markers\<close>

definition marker_at :: "Atom list \<Rightarrow> nat \<Rightarrow> utext \<Rightarrow> bool" where
  "marker_at input index m \<longleftrightarrow>
     index + length m \<le> length input
     \<and> list_all2 (\<lambda>a b. a = Char b \<or> a = Generated b) (slice_of index (index + length m) input) m"

definition contains_marker :: "Atom list \<Rightarrow> utext \<Rightarrow> bool" where
  "contains_marker input m \<longleftrightarrow> list_ex (\<lambda>index. marker_at input index m) [0..<length input]"

definition contains_spoiler :: "Atom list \<Rightarrow> bool" where
  "contains_spoiler input \<longleftrightarrow>
     contains_marker input (marker Spoiler True) \<or> contains_marker input (marker Spoiler False)"

lemma marker_nonempty: "0 < length (marker t b)"
  by (simp add: marker_def)

section \<open>The pass of one tag\<close>

text \<open>
  The loop after the first opening marker: the output, the depth, the cursor and the index. \<open>None\<close>
  is the return of the unchanged input.
\<close>

function parse_from ::
  "Atom list \<Rightarrow> Tag \<Rightarrow> nat \<Rightarrow> bool \<Rightarrow> Atom list \<Rightarrow> nat \<Rightarrow> nat \<Rightarrow> nat \<Rightarrow> (Atom list \<times> nat \<times> nat) option run" where
  "parse_from input t limit skip out depth cursor index =
     (if index < length input then
        let is_open = marker_at input index (marker t True) in
        if \<not> is_open \<and> \<not> marker_at input index (marker t False)
        then parse_from input t limit skip out depth cursor (index + 1)
        else bindE (cut cursor index input) (\<lambda>part.
          if skip \<and> \<not> is_open \<and> contains_spoiler part then Inr None
          else
            let out = (if \<not> skip \<or> is_open then out @ part else out);
                out' = (if is_open then (if depth < limit then out @ [Open t] else out)
                        else if 0 < depth \<and> depth \<le> limit then out @ [Close t] else out);
                depth' = (if is_open then depth + 1 else depth - 1);
                index' = index + length (marker t is_open)
            in parse_from input t limit skip out' depth' index' index')
      else Inr (Some (out, depth, cursor)))"
  by pat_completeness auto

termination
  by (relation "measure (\<lambda>(input, t, limit, skip, out, depth, cursor, index). length input - index)")
    (auto simp: marker_def)

declare parse_from.simps [simp del]

definition parse_one :: "Atom list \<Rightarrow> Tag \<Rightarrow> nat \<Rightarrow> bool \<Rightarrow> Atom list run" where
  "parse_one input t limit skip =
     (case position (\<lambda>index. marker_at input index (marker t True)) [0..<length input] of
       None \<Rightarrow> Inr input
     | Some first \<Rightarrow>
         bindE (cut 0 first input) (\<lambda>before.
         let start = first + length (marker t True) in
         bindE (parse_from input t limit skip (before @ [Open t]) 1 start start) (\<lambda>r.
         case r of
           None \<Rightarrow> Inr input
         | Some (out, depth, cursor) \<Rightarrow>
             bindE (cut cursor (length input) input) (\<lambda>rest.
             if 0 < depth \<and> skip \<and> contains_spoiler rest then Inr input
             else Inr (out @ rest @ replicate (min depth limit) (Close t))))))"

section \<open>The other passes\<close>

definition blank :: "Atom \<Rightarrow> bool" where
  "blank a \<longleftrightarrow> a = Break \<or> a \<in> Char ` {32, 9, 13, 11, 12} \<or> a \<in> Generated ` {32, 9, 13, 11, 12}"

lemma blank_code [code]: "blank a = (case a of Break \<Rightarrow> True | Char c \<Rightarrow> c \<in> {32, 9, 13, 11, 12}
    | Generated c \<Rightarrow> c \<in> {32, 9, 13, 11, 12} | _ \<Rightarrow> False)"
  by (auto simp: blank_def split: Atom.split)

text \<open>The stack of open spoilers, innermost first: where each begins and whether it is empty so far.\<close>

definition filled :: "(nat \<times> bool) list \<Rightarrow> (nat \<times> bool) list" where
  "filled stack = (case stack of [] \<Rightarrow> [] | (start, _) # st \<Rightarrow> (start, False) # st)"

definition empty_step :: "Atom list \<times> (nat \<times> bool) list \<Rightarrow> Atom \<Rightarrow> (Atom list \<times> (nat \<times> bool) list) run" where
  "empty_step = (\<lambda>(out, stack) a.
     if a = Open Spoiler then Inr (out @ [a], (length out, True) # stack)
     else if a = Close Spoiler then
       (case stack of
          [] \<Rightarrow> Inl Panicked
        | (start, is_empty) # st \<Rightarrow>
            if is_empty then Inr (take start out, st) else Inr (out @ [a], filled st))
     else Inr (out @ [a], if blank a then stack else filled stack))"

definition remove_empty_spoilers :: "Atom list \<Rightarrow> Atom list run" where
  "remove_empty_spoilers input = map_sum id fst (foldE empty_step ([], []) input)"

text \<open>The end of a short code block, if its closing marker comes while at most six bytes are counted.\<close>

function short_code_end :: "Atom list \<Rightarrow> nat \<Rightarrow> nat \<Rightarrow> nat option" where
  "short_code_end input k bytes =
     (if bytes > 6 then None
      else if marker_at input k (marker Code False) then Some k
      else if k < length input then short_code_end input (k + 1) (bytes + atom_html_bytes (input ! k))
      else None)"
  by pat_completeness auto

termination
  by (relation "measure (\<lambda>(input, k, bytes). length input - k)") auto

declare short_code_end.simps [simp del]

lemma short_code_end_bounds:
  "short_code_end input k bytes = Some e \<Longrightarrow> k \<le> e \<and> marker_at input e (marker Code False)"
proof (induction input k bytes rule: short_code_end.induct)
  case (1 input k bytes)
  then show ?case
    by (subst (asm) (2) short_code_end.simps) (auto split: if_split_asm)
qed

function unwrap_from :: "Atom list \<Rightarrow> Atom list \<Rightarrow> nat \<Rightarrow> Atom list run" where
  "unwrap_from input out cursor =
     (if cursor < length input then
        let start = cursor + length (marker Code True) in
        case (if marker_at input cursor (marker Code True) then short_code_end input start 0 else None) of
          Some e \<Rightarrow> bindE (cut start e input) (\<lambda>part.
            unwrap_from input (out @ part) (e + length (marker Code False)))
        | None \<Rightarrow> unwrap_from input (out @ [input ! cursor]) (cursor + 1)
      else Inr out)"
  by pat_completeness auto

termination
  by (relation "measure (\<lambda>(input, out, cursor). length input - cursor)")
    (auto simp: marker_def dest!: short_code_end_bounds split: if_split_asm)

declare unwrap_from.simps [simp del]

definition unwrap_short_code :: "Atom list \<Rightarrow> Atom list run" where
  "unwrap_short_code input = unwrap_from input [] 0"

fun code_breaks_from :: "Atom list \<Rightarrow> bool \<Rightarrow> nat \<Rightarrow> Atom list \<Rightarrow> Atom list" where
  "code_breaks_from out after_open breaks [] = out"
| "code_breaks_from out after_open breaks (a # rest) =
     (if after_open \<and> a = Break then code_breaks_from out False breaks rest
      else
        let after_open = (a = Open Code) in
        if a = Break then
          if breaks + 1 > 3 then code_breaks_from out after_open (breaks + 1) rest
          else code_breaks_from (out @ [a]) after_open (breaks + 1) rest
        else code_breaks_from (out @ [a]) after_open 0 rest)"

definition code_breaks :: "Atom list \<Rightarrow> Atom list" where
  "code_breaks input = code_breaks_from [] False 0 input"

fun coalesce_from :: "MarkupToken list \<Rightarrow> utext \<Rightarrow> Atom list \<Rightarrow> MarkupToken list run" where
  "coalesce_from out acc [] = Inr (if acc \<noteq> [] then out @ [TokenText acc] else out)"
| "coalesce_from out acc (a # rest) =
     (case a of
        Char c \<Rightarrow> coalesce_from out (acc @ [c]) rest
      | _ \<Rightarrow>
          let out = (if acc \<noteq> [] then out @ [TokenText acc] else out) in
          case a of
            Break \<Rightarrow> coalesce_from (out @ [TokenBreak]) [] rest
          | Open t \<Rightarrow> coalesce_from (out @ [TokenOpen t]) [] rest
          | Close t \<Rightarrow> coalesce_from (out @ [TokenClose t]) [] rest
          | _ \<Rightarrow> Inl Panicked)"

section \<open>The parser\<close>

definition op_tags :: "Tag list" where
  "op_tags = [Bold, Italic, Red, Green, Blue]"

definition apply_passes :: "Atom list \<Rightarrow> MarkupPolicy \<Rightarrow> Atom list run" where
  "apply_passes atoms policy =
     bindE (if allow_sjis policy then parse_one atoms Sjis 1 (contains_marker atoms (marker Spoiler True))
            else Inr atoms) (\<lambda>atoms.
     bindE (if allow_spoilers policy
            then bindE (parse_one atoms Spoiler 2 False) remove_empty_spoilers else Inr atoms) (\<lambda>atoms.
     bindE (if allow_code policy
            then bindE (unwrap_short_code atoms) (\<lambda>atoms.
                 bindE (parse_one atoms Code 2 False) (\<lambda>atoms. Inr (code_breaks atoms)))
            else Inr atoms) (\<lambda>atoms.
     if allow_op policy then foldE (\<lambda>atoms t. parse_one atoms t 1 False) atoms op_tags else Inr atoms)))"

definition input_atom :: "scalar \<Rightarrow> Atom" where
  "input_atom c = (if c = 10 then Break else Char c)"

definition parse_markup_with_limits :: "utext \<Rightarrow> MarkupPolicy \<Rightarrow> PostLimits \<Rightarrow> MarkupToken list run" where
  "parse_markup_with_limits input policy limits =
     bindE (apply_passes (map input_atom (take (prepared_chars limits) input)) policy) (\<lambda>atoms.
     coalesce_from [] [] atoms)"

definition parse_markup :: "utext \<Rightarrow> MarkupPolicy \<Rightarrow> MarkupToken list run" where
  "parse_markup input policy = parse_markup_with_limits input policy (ordinary MAX_COMMENT_CHARS)"

section \<open>The admission projection\<close>

text \<open>\<open>str::split\<close> on the literal \<open><br>\<close>, with the part read so far.\<close>

function split_breaks :: "utext \<Rightarrow> utext \<Rightarrow> utext list" where
  "split_breaks part t =
     (if t = [] then [part]
      else if take 4 t = lit ''<br>'' then part # split_breaks [] (drop 4 t)
      else split_breaks (part @ [hd t]) (tl t))"
  by pat_completeness auto

termination
  by (relation "measure (\<lambda>(part, t). length t)") auto

declare split_breaks.simps [simp del]

definition generated :: "utext \<Rightarrow> Atom list" where
  "generated value = concat (map (\<lambda>(index, part). (if 0 < index then [Break] else []) @ map Generated part)
     (enumerate (0::nat) (split_breaks [] value)))"

fun admission_atom :: "Atom \<Rightarrow> utext" where
  "admission_atom (Char c) = source_html_entities [c]"
| "admission_atom (Generated c) = [c]"
| "admission_atom Break = lit ''<br>''"
| "admission_atom (Open t) = element t True"
| "admission_atom (Close t) = element t False"

definition admission_source :: "utext \<Rightarrow> MarkupPolicy \<Rightarrow> utext \<Rightarrow> utext \<Rightarrow> utext run" where
  "admission_source input policy before after =
     bindE (apply_passes (generated before @ map input_atom input @ generated after) policy) (\<lambda>atoms.
     Inr (concat (map admission_atom atoms)))"

end
