(* ===== verification/MarkupFacts.thy ===== *)
theory MarkupFacts
  imports CommentMarkup
begin

text \<open>
  What the passes of \<open>crates/domain/src/comment_markup.rs\<close> keep: the tags of every kind are nested
  within their limit, the tags of other kinds are untouched, no character is invented or moved, and
  nothing panics.
\<close>

section \<open>Nesting\<close>

definition tags_of :: "Tag \<Rightarrow> Atom list \<Rightarrow> Atom list" where
  "tags_of t xs = filter (\<lambda>a. a = Open t \<or> a = Close t) xs"

fun is_tag :: "Atom \<Rightarrow> bool" where
  "is_tag (Open t) = True"
| "is_tag (Close t) = True"
| "is_tag _ = False"

definition chars_of :: "Atom list \<Rightarrow> Atom list" where
  "chars_of xs = filter (\<lambda>a. \<not> is_tag a) xs"

text \<open>The depth of the tag \<open>t\<close> after a list of atoms, never above \<open>limit\<close> and never below 0.\<close>

fun nest :: "Tag \<Rightarrow> nat \<Rightarrow> nat \<Rightarrow> Atom list \<Rightarrow> nat option" where
  "nest t limit d [] = Some d"
| "nest t limit d (a # xs) =
     (if a = Open t then (if d < limit then nest t limit (d + 1) xs else None)
      else if a = Close t then (if d = 0 then None else nest t limit (d - 1) xs)
      else nest t limit d xs)"

lemma tags_of_simps [simp]:
  "tags_of t [] = []" "tags_of t (xs @ ys) = tags_of t xs @ tags_of t ys"
  "tags_of t (a # xs) = (if a = Open t \<or> a = Close t then a # tags_of t xs else tags_of t xs)"
  by (simp_all add: tags_of_def)

lemma chars_of_simps [simp]:
  "chars_of [] = []" "chars_of (xs @ ys) = chars_of xs @ chars_of ys"
  "chars_of (a # xs) = (if is_tag a then chars_of xs else a # chars_of xs)"
  by (simp_all add: chars_of_def)

lemma nest_append: "nest t limit d (xs @ ys) = Option.bind (nest t limit d xs) (\<lambda>d'. nest t limit d' ys)"
  by (induction t limit d xs rule: nest.induct) auto

lemma nest_tags: "nest t limit d (tags_of t xs) = nest t limit d xs"
  by (induction t limit d xs rule: nest.induct) auto

lemma nest_none: "tags_of t xs = [] \<Longrightarrow> nest t limit d xs = Some d"
  by (metis nest.simps(1) nest_tags)

lemma nest_same: "tags_of t xs = tags_of t ys \<Longrightarrow> nest t limit d xs = nest t limit d ys"
  by (metis nest_tags)

lemma nest_closes: "nest t limit d (replicate d (Close t)) = Some 0"
  by (induction d) simp_all

lemma tags_of_subset: "set ys \<subseteq> set xs \<Longrightarrow> tags_of t xs = [] \<Longrightarrow> tags_of t ys = []"
  by (auto simp: tags_of_def filter_empty_conv)

lemma cut_Inr: "i \<le> j \<Longrightarrow> j \<le> length xs \<Longrightarrow> cut i j xs = Inr (slice_of i j xs)"
  by (simp add: cut_def)

lemma drop_slice: "i \<le> j \<Longrightarrow> drop i xs = slice_of i j xs @ drop j xs"
  unfolding slice_of_def by (metis append_take_drop_id drop_drop le_add_diff_inverse2)

lemma set_slice: "set (slice_of i j xs) \<subseteq> set xs"
  unfolding slice_of_def by (meson in_set_dropD in_set_takeD subsetI)

text \<open>A marker is a slice of characters.\<close>

lemma marker_slice:
  assumes "marker_at input i m"
  shows "i + length m \<le> length input" "drop i input = slice_of i (i + length m) input @ drop (i + length m) input"
    "tags_of t (slice_of i (i + length m) input) = []"
proof -
  show "i + length m \<le> length input"
    using assms by (simp add: marker_at_def)
  show "drop i input = slice_of i (i + length m) input @ drop (i + length m) input"
    by (rule drop_slice) simp
  have "list_all2 (\<lambda>a b. a = Char b \<or> a = Generated b) (slice_of i (i + length m) input) m"
    using assms by (simp add: marker_at_def)
  then show "tags_of t (slice_of i (i + length m) input) = []"
    by (induction rule: list_all2_induct) auto
qed

section \<open>The pass of one tag\<close>

definition kept :: "bool \<Rightarrow> Tag \<Rightarrow> Atom list \<Rightarrow> Atom list \<Rightarrow> bool" where
  "kept skip t old new \<longleftrightarrow>
     (\<not> skip \<longrightarrow> (\<forall>u. u \<noteq> t \<longrightarrow> tags_of u new = tags_of u old)) \<and> subseq (chars_of new) (chars_of old)
     \<and> set new \<subseteq> set old \<union> {Open t, Close t}"

lemma kept_refl: "kept skip t xs xs"
  by (auto simp: kept_def)

lemma kept_trans: "kept skip t xs ys \<Longrightarrow> kept skip t ys zs \<Longrightarrow> kept skip t xs zs"
  unfolding kept_def by (fastforce intro: subseq_order.trans)

lemma kept_step:
  assumes mk: "\<And>u. tags_of u mk = []" and new: "set new \<subseteq> {Open t, Close t}"
  shows "kept skip t (out @ part @ mk @ rest) (out @ part @ new @ rest)"
    and "skip \<Longrightarrow> kept skip t (out @ part @ mk @ rest) (out @ new @ rest)"
proof -
  have c: "chars_of new = []" "u \<noteq> t \<Longrightarrow> tags_of u new = []" for u
    using new by (auto simp: chars_of_def tags_of_def filter_empty_conv)
  have "subseq (chars_of out @ chars_of part @ chars_of rest)
      (chars_of out @ chars_of part @ chars_of mk @ chars_of rest)"
    by (simp only: subseq_append') (rule subseq_drop_many, simp)
  then show "kept skip t (out @ part @ mk @ rest) (out @ part @ new @ rest)"
    using mk new c by (auto simp: kept_def)
  have "subseq (chars_of out @ chars_of rest) (chars_of out @ chars_of part @ chars_of mk @ chars_of rest)"
    by (simp only: subseq_append') (intro subseq_drop_many, simp)
  then show "kept skip t (out @ part @ mk @ rest) (out @ new @ rest)" if skip
    using that new c by (auto simp: kept_def)
qed

lemma parse_from_spec:
  assumes "cursor \<le> index" "index \<le> length input" "tags_of t input = []"
    and "nest t limit 0 out = Some (min depth limit)"
  shows "returns (parse_from input t limit skip out depth cursor index) (\<lambda>r. case r of None \<Rightarrow> skip
    | Some (out', depth', cursor') \<Rightarrow> cursor' \<le> length input \<and> nest t limit 0 out' = Some (min depth' limit)
        \<and> kept skip t (out @ drop cursor input) (out' @ drop cursor' input))"
  using assms
proof (induction input t limit skip out depth cursor index rule: parse_from.induct)
  case (1 input t limit skip out depth cursor index)
  let ?post = "\<lambda>out cursor r. case r of None \<Rightarrow> skip | Some (out', depth', cursor') \<Rightarrow>
      cursor' \<le> length input \<and> nest t limit 0 out' = Some (min depth' limit)
        \<and> kept skip t (out @ drop cursor input) (out' @ drop cursor' input)"
  define is_open where "is_open = marker_at input index (marker t True)"
  consider (end_of_input) "\<not> index < length input" | (next_atom) "index < length input" "\<not> is_open \<and> \<not> marker_at input index (marker t False)"
    | (found) "index < length input" "marker_at input index (marker t is_open)"
    using is_open_def by (cases is_open) auto
  then show ?case
  proof cases
    case found
    define part where "part = slice_of cursor index input"
    define after where "after = index + length (marker t is_open)"
    define mk where "mk = slice_of index after input"
    note m = marker_slice [OF found(2), folded after_def, folded mk_def]
    have split: "drop cursor input = part @ mk @ drop after input"
      using drop_slice [OF 1(3), of input] m(2) by (simp add: part_def)
    have none: "tags_of t part = []" "tags_of u mk = []" for u
      using tags_of_subset [OF set_slice 1(5)] m(3) by (auto simp: part_def)
    have c: "cut cursor index input = (Inr part :: Atom list run)"
      using 1(3,4) by (simp add: cut_Inr part_def)
    have cond: "\<not> (\<not> is_open \<and> \<not> marker_at input index (marker t False))"
      using found by (cases is_open) auto
    show ?thesis
    proof (cases "skip \<and> \<not> is_open \<and> contains_spoiler part")
      case True
      then show ?thesis
        using found cond 1(3,4) by (subst parse_from.simps) (auto simp: Let_def c is_open_def [symmetric])
    next
      case False
      define new where "new = (if is_open then (if depth < limit then [Open t] else [])
          else if 0 < depth \<and> depth \<le> limit then [Close t] else [])"
      define out' where "out' = (if \<not> skip \<or> is_open then out @ part else out) @ new"
      define depth' where "depth' = (if is_open then depth + 1 else depth - 1)"
      have run: "parse_from input t limit skip out depth cursor index
          = parse_from input t limit skip out' depth' after after"
        using found cond False by (subst parse_from.simps)
          (auto simp: Let_def c is_open_def [symmetric] out'_def new_def depth'_def after_def)
      have n: "nest t limit 0 out' = Some (min depth' limit)"
        using 1(6) none(1) by (auto simp: out'_def new_def depth'_def nest_append nest_none)
      have k: "kept skip t (out @ drop cursor input) (out' @ drop after input)"
      proof -
        have "set new \<subseteq> {Open t, Close t}"
          by (auto simp: new_def)
        note step = kept_step [of mk new t, OF none(2) this]
        show ?thesis
          unfolding split out'_def
          by (cases "\<not> skip \<or> is_open") (simp_all add: step)
      qed
      have "returns (parse_from input t limit skip out' depth' after after) (?post out' after)"
        by (rule 1(2) [of is_open part "if \<not> skip \<or> is_open then out @ part else out"])
          (use found cond False c m(1) 1(5) n in \<open>auto simp: is_open_def [symmetric] out'_def new_def depth'_def after_def\<close>)
      then show ?thesis
        unfolding run by (rule returns_mono) (use k in \<open>auto split: option.splits intro: kept_trans\<close>)
    qed
  next
    case next_atom
    then have "parse_from input t limit skip out depth cursor index
        = parse_from input t limit skip out depth cursor (index + 1)"
      by (subst parse_from.simps) (auto simp: Let_def is_open_def)
    then show ?thesis
      using 1(1) [OF next_atom(1) is_open_def next_atom(2)] next_atom(1) 1(3-6) by simp
  next
    case end_of_input
    then show ?thesis
      using 1(3-6) by (subst parse_from.simps) (simp add: kept_refl)
  qed
qed

text \<open>The whole pass on atoms without that tag: it is nested afterwards.\<close>

lemma parse_one_spec:
  assumes none: "tags_of t input = []" and limit: "0 < limit"
  shows "returns (parse_one input t limit skip) (\<lambda>out. nest t limit 0 out = Some 0 \<and> kept skip t input out)"
proof (cases "position (\<lambda>index. marker_at input index (marker t True)) [0..<length input]")
  case None
  then show ?thesis
    by (simp add: parse_one_def kept_refl nest_none [OF none])
next
  case (Some first)
  then have m: "marker_at input first (marker t True)" "first < length input"
    using position_Some [OF Some] by auto
  define start where "start = first + length (marker t True)"
  define before where "before = slice_of 0 first input"
  note ms = marker_slice [OF m(1), folded start_def]
  have split: "input = before @ slice_of first start input @ drop start input"
    using drop_slice [of 0 first input] ms(2) by (simp add: before_def)
  have b: "tags_of t before = []"
    using tags_of_subset [OF set_slice none] by (simp add: before_def)
  have k: "kept skip t input ((before @ [Open t]) @ drop start input)"
    using kept_step(1) [of "slice_of first start input" "[Open t]" t skip "[]" before "drop start input"] ms(3)
    by (subst split) simp
  have "nest t limit 0 (before @ [Open t]) = Some (min 1 limit)"
    using limit by (auto simp: nest_append nest_none [OF b])
  from parse_from_spec [OF order_refl ms(1) none this, of skip]
  have run: "returns (parse_from input t limit skip (before @ [Open t]) 1 start start)
      (\<lambda>r. case r of None \<Rightarrow> skip
       | Some (out', depth', cursor') \<Rightarrow> cursor' \<le> length input \<and> nest t limit 0 out' = Some (min depth' limit)
        \<and> kept skip t ((before @ [Open t]) @ drop start input) (out' @ drop cursor' input))" .
  have "cut 0 first input = (Inr before :: Atom list run)"
    using m(2) by (simp add: cut_Inr before_def)
  then have "parse_one input t limit skip = bindE (parse_from input t limit skip (before @ [Open t]) 1 start start) (\<lambda>r.
         case r of
           None \<Rightarrow> Inr input
         | Some (out, depth, cursor) \<Rightarrow>
             bindE (cut cursor (length input) input) (\<lambda>rest.
             if 0 < depth \<and> skip \<and> contains_spoiler rest then Inr input
             else Inr (out @ rest @ replicate (min depth limit) (Close t))))"
    by (simp add: parse_one_def Some start_def Let_def)
  moreover have "returns (case r of
           None \<Rightarrow> Inr input
         | Some (out, depth, cursor) \<Rightarrow>
             bindE (cut cursor (length input) input) (\<lambda>rest.
             if 0 < depth \<and> skip \<and> contains_spoiler rest then Inr input
             else Inr (out @ rest @ replicate (min depth limit) (Close t))))
        (\<lambda>out. nest t limit 0 out = Some 0 \<and> kept skip t input out)"
    if h: "case r of None \<Rightarrow> skip
       | Some (out', depth', cursor') \<Rightarrow> cursor' \<le> length input \<and> nest t limit 0 out' = Some (min depth' limit)
        \<and> kept skip t ((before @ [Open t]) @ drop start input) (out' @ drop cursor' input)" for r
  proof (cases r)
    case None
    then show ?thesis
      by (simp add: kept_refl nest_none [OF none])
  next
    case (Some r')
    obtain out depth cursor where r: "r = Some (out, depth, cursor)" "cursor \<le> length input"
        "nest t limit 0 out = Some (min depth limit)"
        "kept skip t (before @ Open t # drop start input) (out @ drop cursor input)"
      using h Some by (cases r') auto
    have rest: "slice_of cursor (length input) input = drop cursor input"
      by (simp add: slice_of_def)
    have n: "tags_of t (drop cursor input) = []"
      by (rule tags_of_subset [OF set_drop_subset none])
    have "kept skip t (out @ drop cursor input) (out @ drop cursor input @ replicate (min depth limit) (Close t))"
      using kept_step(1) [of "[]" "replicate (min depth limit) (Close t)" t skip out "drop cursor input" "[]"]
      by (auto simp: set_replicate_conv_if)
    then have "kept skip t input (out @ drop cursor input @ replicate (min depth limit) (Close t))"
      using k [simplified] r(4) kept_trans by metis
    moreover have "nest t limit 0 (out @ drop cursor input @ replicate (min depth limit) (Close t)) = Some 0"
      by (simp add: nest_append r(3) nest_none [OF n] nest_closes)
    ultimately show ?thesis
      using r(2) none by (simp add: r(1) cut_Inr rest kept_refl nest_none)
  qed
  ultimately show ?thesis
    by (simp only:) (rule returns_bindE [OF run])
qed

section \<open>The passes that remove atoms\<close>

definition thinned :: "Atom list \<Rightarrow> Atom list \<Rightarrow> bool" where
  "thinned old new \<longleftrightarrow> (\<forall>u. tags_of u new = tags_of u old) \<and> subseq (chars_of new) (chars_of old)
     \<and> set new \<subseteq> set old"

lemma thinned_refl: "thinned xs xs"
  by (simp add: thinned_def)

lemma thinned_trans: "thinned xs ys \<Longrightarrow> thinned ys zs \<Longrightarrow> thinned xs zs"
  unfolding thinned_def by (fastforce intro: subseq_order.trans)

lemma thinned_remove:
  assumes "\<And>u. tags_of u mk = []"
  shows "thinned (out @ mk @ rest) (out @ rest)"
proof -
  have "subseq (chars_of out @ chars_of rest) (chars_of out @ chars_of mk @ chars_of rest)"
    by (simp only: subseq_append') (rule subseq_drop_many, simp)
  then show ?thesis
    using assms by (auto simp: thinned_def)
qed

lemma unwrap_from_spec:
  assumes "cursor \<le> length input"
  shows "returns (unwrap_from input out cursor) (thinned (out @ drop cursor input))"
  using assms
proof (induction input out cursor rule: unwrap_from.induct)
  case (1 input out cursor)
  show ?case
  proof (cases "cursor < length input")
    case False
    then show ?thesis
      using 1(3) by (subst unwrap_from.simps) (simp add: thinned_refl)
  next
    case True
    define found where
      "found = (if marker_at input cursor (marker Code True) then short_code_end input (cursor + length (marker Code True)) 0 else None)"
    show ?thesis
    proof (cases found)
      case None
      have "returns (unwrap_from input (out @ [input ! cursor]) (cursor + 1))
          (thinned ((out @ [input ! cursor]) @ drop (cursor + 1) input))"
        using 1(1) [OF True refl] None True by (simp add: found_def)
      then show ?thesis
        using True None by (subst unwrap_from.simps) (simp add: Let_def found_def [symmetric] Cons_nth_drop_Suc)
    next
      case (Some e)
      define start where "start = cursor + length (marker Code True)"
      define after where "after = e + length (marker Code False)"
      have o: "marker_at input cursor (marker Code True)" "short_code_end input start 0 = Some e"
        using Some by (auto simp: found_def start_def split: if_split_asm)
      note m = marker_slice [OF o(1), folded start_def]
      have e: "start \<le> e" "marker_at input e (marker Code False)"
        using short_code_end_bounds [OF o(2)] by auto
      note n = marker_slice [OF e(2), folded after_def]
      have "drop cursor input = slice_of cursor start input @ slice_of start e input @ slice_of e after input @ drop after input"
        using m(2) n(2) drop_slice [OF e(1), of input] by simp
      then have t: "thinned (out @ drop cursor input) ((out @ slice_of start e input) @ drop after input)"
        using thinned_remove [OF m(3), of out "slice_of start e input @ slice_of e after input @ drop after input"]
          thinned_remove [OF n(3), of "out @ slice_of start e input" "drop after input"] thinned_trans by simp
      have cut: "cut start e input = (Inr (slice_of start e input) :: Atom list run)"
        using e n(1) by (simp add: cut_Inr after_def)
      then have run: "unwrap_from input out cursor = unwrap_from input (out @ slice_of start e input) after"
        using True Some cut by (subst unwrap_from.simps) (simp add: Let_def found_def [symmetric] start_def after_def)
      have "returns (unwrap_from input (out @ slice_of start e input) after)
          (thinned ((out @ slice_of start e input) @ drop after input))"
        using 1(2) [OF True refl Some [unfolded found_def] cut [unfolded start_def]] n(1)
        by (simp add: start_def after_def)
      then show ?thesis
        unfolding run by (rule returns_mono) (use t thinned_trans in blast)
    qed
  qed
qed

lemma unwrap_short_code_spec: "returns (unwrap_short_code input) (thinned input)"
  using unwrap_from_spec [of 0 input "[]"] by (simp add: unwrap_short_code_def)

lemma code_breaks_from_spec: "thinned (out @ input) (code_breaks_from out after_open breaks input)"
proof (induction out after_open breaks input rule: code_breaks_from.induct)
  case (2 out after_open breaks a rest)
  have "thinned (out @ Break # rest) (out @ rest)"
    using thinned_remove [of "[Break]" out rest] by simp
  then show ?case
    using 2 thinned_trans by (auto simp: Let_def)
qed (simp add: thinned_refl)

lemma code_breaks_spec: "thinned input (code_breaks input)"
  using code_breaks_from_spec [of "[]" input] by (simp add: code_breaks_def)

section \<open>Empty spoilers\<close>

text \<open>
  The stack describes the output: every entry's start is the output before its opening tag, and an
  entry that is still empty is followed by blanks only.
\<close>

fun opened :: "(nat \<times> bool) list \<Rightarrow> Atom list \<Rightarrow> bool" where
  "opened [] out \<longleftrightarrow> nest Spoiler 2 0 out = Some 0"
| "opened ((start, is_empty) # st) out \<longleftrightarrow>
     start < length out \<and> opened st (take start out) \<and> nest Spoiler 2 0 out = Some (Suc (length st))
     \<and> (is_empty \<longrightarrow> out ! start = Open Spoiler \<and> list_all blank (drop (start + 1) out))"

lemma opened_nest: "opened stack out \<Longrightarrow> nest Spoiler 2 0 out = Some (length stack)"
  by (cases "(stack, out)" rule: opened.cases) auto

lemma opened_more:
  assumes "opened stack out" "nest Spoiler 2 0 (out @ [a]) = Some (length stack)" "\<not> blank a \<Longrightarrow> stack' = filled stack"
    "blank a \<Longrightarrow> stack' = stack"
  shows "opened stack' (out @ [a])"
proof (cases stack)
  case Nil
  then show ?thesis
    using assms by (cases "blank a") (auto simp: filled_def)
next
  case (Cons e st)
  then show ?thesis
    using assms by (cases e; cases "blank a") (auto simp: filled_def nth_append)
qed

lemma blanks_no_tags: "list_all blank xs \<Longrightarrow> tags_of u xs = []"
  by (auto simp: tags_of_def filter_empty_conv list_all_iff blank_def)

lemma empty_removed:
  assumes "start < length out" "out ! start = Open Spoiler" "list_all blank (drop (start + 1) out)"
  shows "kept False Spoiler (out @ Close Spoiler # rest) (take start out @ rest)"
proof -
  define mid where "mid = drop (start + 1) out"
  have out: "out = take start out @ Open Spoiler # mid"
    using id_take_nth_drop [OF assms(1)] assms(2) by (simp add: mid_def)
  have t: "tags_of u mid = []" for u
    using blanks_no_tags assms(3) by (simp add: mid_def)
  have "subseq (chars_of (take start out) @ chars_of rest) (chars_of (take start out) @ chars_of mid @ chars_of rest)"
    by (simp only: subseq_append') (rule subseq_drop_many, simp)
  then show ?thesis
    by (subst out) (auto simp: kept_def t dest: in_set_takeD)
qed

lemma empty_fold_spec:
  assumes "opened stack out" "nest Spoiler 2 (length stack) rest = Some 0"
  shows "returns (foldE empty_step (out, stack) rest)
    (\<lambda>(out', _). nest Spoiler 2 0 out' = Some 0 \<and> kept False Spoiler (out @ rest) out')"
  using assms
proof (induction rest arbitrary: out stack)
  case Nil
  then show ?case
    using opened_nest by (fastforce simp: kept_refl)
next
  case (Cons a rest)
  show ?case
  proof (cases "a = Close Spoiler")
    case close: True
    then obtain start is_empty st where st: "stack = (start, is_empty) # st"
      using Cons.prems(2) by (cases stack) auto
    have n: "nest Spoiler 2 (length st) rest = Some 0"
      using Cons.prems(2) by (simp add: close st)
    show ?thesis
    proof (cases is_empty)
      case True
      have o: "start < length out" "opened st (take start out)" "out ! start = Open Spoiler"
          "list_all blank (drop (start + 1) out)"
        using Cons.prems(1) True by (auto simp: st)
      note k = empty_removed [OF o(1,3,4), of rest]
      show ?thesis
        using Cons.IH [OF o(2) n] True k
        by (auto simp: close st empty_step_def intro: kept_trans elim!: returns_mono)
    next
      case False
      have o: "start < length out" "opened st (take start out)" "nest Spoiler 2 0 out = Some (Suc (length st))"
        using Cons.prems(1) by (auto simp: st)
      have d: "nest Spoiler 2 0 (out @ [a]) = Some (length st)"
        by (simp add: nest_append o(3) close)
      have "opened (filled st) (out @ [a])"
      proof (cases st)
        case Nil
        then show ?thesis using d by (simp add: filled_def)
      next
        case (Cons e st')
        then show ?thesis
          using o d by (cases e) (auto simp: filled_def min_absorb1)
      qed
      moreover have "length (filled st) = length st"
        by (auto simp: filled_def split: list.split prod.split)
      ultimately show ?thesis
        using Cons.IH [of "filled st" "out @ [a]"] n False
        by (simp add: close st empty_step_def)
    qed
  next
    case other: False
    show ?thesis
    proof (cases "a = Open Spoiler")
      case True
      have n: "length stack < 2" "nest Spoiler 2 (Suc (length stack)) rest = Some 0"
        using Cons.prems(2) True by (auto split: if_split_asm)
      have "opened ((length out, True) # stack) (out @ [a])"
        using Cons.prems(1) opened_nest [OF Cons.prems(1)] n(1) True by (simp add: nest_append)
      from Cons.IH [OF this] n(2) show ?thesis
        by (simp add: True empty_step_def)
    next
      case False
      define stack' where "stack' = (if blank a then stack else filled stack)"
      have "nest Spoiler 2 0 (out @ [a]) = Some (length stack)"
        using opened_nest [OF Cons.prems(1)] other False by (simp add: nest_append)
      then have "opened stack' (out @ [a])"
        using opened_more [OF Cons.prems(1)] by (simp add: stack'_def)
      moreover have "length stack' = length stack"
        by (auto simp: stack'_def filled_def split: list.split prod.split)
      ultimately show ?thesis
        using Cons.IH [of stack' "out @ [a]"] Cons.prems(2) other False
        by (simp add: empty_step_def stack'_def)
    qed
  qed
qed

lemma remove_empty_spoilers_spec:
  assumes "nest Spoiler 2 0 input = Some 0"
  shows "returns (remove_empty_spoilers input) (\<lambda>out. nest Spoiler 2 0 out = Some 0 \<and> kept False Spoiler input out)"
  using empty_fold_spec [of "[]" "[]" input] assms
  by (cases "foldE empty_step ([], []) input") (auto simp: remove_empty_spoilers_def returns_def)

section \<open>Tokens\<close>

fun token_atoms :: "MarkupToken \<Rightarrow> Atom list" where
  "token_atoms (TokenText s) = map Char s"
| "token_atoms TokenBreak = [Break]"
| "token_atoms (TokenOpen t) = [Open t]"
| "token_atoms (TokenClose t) = [Close t]"

definition atoms_of :: "MarkupToken list \<Rightarrow> Atom list" where
  "atoms_of ts = concat (map token_atoms ts)"

definition is_text :: "MarkupToken \<Rightarrow> bool" where
  "is_text k \<longleftrightarrow> (\<exists>s. k = TokenText s)"

text \<open>No text is empty and no two texts are next to each other.\<close>

definition merged :: "MarkupToken list \<Rightarrow> bool" where
  "merged ts \<longleftrightarrow> TokenText [] \<notin> set ts \<and> successively (\<lambda>a b. \<not> (is_text a \<and> is_text b)) ts"

lemma atoms_of_simps [simp]: "atoms_of [] = []" "atoms_of (a @ b) = atoms_of a @ atoms_of b"
  "atoms_of (k # ks) = token_atoms k @ atoms_of ks"
  by (simp_all add: atoms_of_def)

lemma is_text_simps [simp]: "is_text (TokenText s)" "\<not> is_text TokenBreak" "\<not> is_text (TokenOpen t)" "\<not> is_text (TokenClose t)"
  by (simp_all add: is_text_def)

lemma merged_snoc:
  "merged ts \<Longrightarrow> k \<noteq> TokenText [] \<Longrightarrow> (ts = [] \<or> \<not> (is_text (last ts) \<and> is_text k)) \<Longrightarrow> merged (ts @ [k])"
  by (auto simp: merged_def successively_append_iff)

lemma coalesce_from_spec:
  assumes "merged out" "out = [] \<or> \<not> is_text (last out)" "\<And>c. Generated c \<notin> set atoms"
  shows "\<exists>ts. coalesce_from out acc atoms = Inr ts \<and> merged ts \<and> atoms_of ts = atoms_of out @ map Char acc @ atoms"
  using assms
proof (induction out acc atoms rule: coalesce_from.induct)
  case (1 out acc)
  then show ?case
    by (auto intro: merged_snoc)
next
  case (2 out acc a rest)
  have m: "merged (if acc \<noteq> [] then out @ [TokenText acc] else out)"
    using 2 by (auto intro: merged_snoc)
  have s: "merged ((if acc \<noteq> [] then out @ [TokenText acc] else out) @ [k])" if "\<not> is_text k" for k
    using merged_snoc [OF m, of k] that by (auto simp: is_text_def)
  have g: "Generated c \<notin> set rest" "a \<noteq> Generated c" for c
    using "2.prems"(3) [of c] by auto
  show ?case
  proof (cases a)
    case (Char c)
    then show ?thesis
      using 2(1) [OF Char "2.prems"(1,2)] g(1) by simp
  next
    case (Generated c)
    with g(2) [of c] show ?thesis by simp
  next
    case Break
    show ?thesis
      using 2(5) [OF Break refl Break] g(1) s [of TokenBreak] by (auto simp: Break Let_def)
  next
    case (Open t)
    show ?thesis
      using 2(9) [OF Open refl Open] g(1) s [of "TokenOpen t"] by (auto simp: Open Let_def)
  next
    case (Close t)
    show ?thesis
      using 2(13) [OF Close refl Close] g(1) s [of "TokenClose t"] by (auto simp: Close Let_def)
  qed
qed

section \<open>The parser\<close>

definition depth_limit :: "Tag \<Rightarrow> nat" where
  "depth_limit t = (if t = Spoiler \<or> t = Code then 2 else 1)"

fun enabled :: "MarkupPolicy \<Rightarrow> Tag \<Rightarrow> bool" where
  "enabled p Spoiler = allow_spoilers p"
| "enabled p Code = allow_code p"
| "enabled p Sjis = allow_sjis p"
| "enabled p _ = allow_op p"

text \<open>The atoms after the passes of the tags in \<open>done_tags\<close>.\<close>

definition marked :: "Tag set \<Rightarrow> Atom list \<Rightarrow> Atom list \<Rightarrow> bool" where
  "marked done_tags input xs \<longleftrightarrow>
     (\<forall>t. if t \<in> done_tags then nest t (depth_limit t) 0 xs = Some 0 else tags_of t xs = [])
     \<and> subseq (chars_of xs) (chars_of input) \<and> (\<forall>a\<in>set xs. is_tag a \<or> a \<in> set input)"

lemma marked_nest: "marked D input xs \<Longrightarrow> t \<in> D \<Longrightarrow> nest t (depth_limit t) 0 xs = Some 0"
  unfolding marked_def by metis

lemma marked_kept:
  assumes "marked D input xs" "t \<notin> D \<or> \<not> skip" "skip \<Longrightarrow> D = {}" "kept skip t xs ys" "nest t (depth_limit t) 0 ys = Some 0"
  shows "marked (insert t D) input ys"
proof -
  have u: "tags_of u ys = tags_of u xs" if "u \<noteq> t" for u
  proof (cases skip)
    case True
    then have "tags_of u xs = []"
      using assms(1,3) by (auto simp: marked_def)
    moreover have "set ys \<subseteq> set xs \<union> {Open t, Close t}"
      using assms(4) by (simp add: kept_def)
    ultimately show ?thesis
      using that by (auto simp: tags_of_def filter_empty_conv)
  qed (use assms(4) that in \<open>simp add: kept_def\<close>)
  then have "nest u (depth_limit u) 0 ys = nest u (depth_limit u) 0 xs" if "u \<noteq> t" for u
    using nest_same that by metis
  then show ?thesis
    using assms u by (fastforce simp: marked_def kept_def intro: subseq_order.trans)
qed

lemma marked_thinned: "marked D input xs \<Longrightarrow> thinned xs ys \<Longrightarrow> marked D input ys"
  using nest_same unfolding marked_def thinned_def by (smt (verit) subseq_order.trans subsetD)

lemma marked_pass:
  assumes "marked D input xs" "t \<notin> D" "skip \<Longrightarrow> D = {}"
  shows "returns (parse_one xs t (depth_limit t) skip) (marked (insert t D) input)"
proof -
  have "tags_of t xs = []"
    using assms by (auto simp: marked_def)
  then have "returns (parse_one xs t (depth_limit t) skip) (\<lambda>out. nest t (depth_limit t) 0 out = Some 0 \<and> kept skip t xs out)"
    by (rule parse_one_spec) (simp add: depth_limit_def)
  then show ?thesis
    by (rule returns_mono) (use marked_kept assms in blast)
qed

lemma marked_passes:
  assumes "marked D input xs" "distinct ts" "set ts \<inter> D = {}" "\<And>t. t \<in> set ts \<Longrightarrow> depth_limit t = 1"
  shows "returns (foldE (\<lambda>atoms t. parse_one atoms t 1 False) xs ts) (marked (D \<union> set ts) input)"
  using assms
proof (induction ts arbitrary: D xs)
  case (Cons t ts)
  have "returns (parse_one xs t 1 False) (marked (insert t D) input)"
    using marked_pass [of D input xs t False] Cons.prems by simp
  moreover have "returns (foldE (\<lambda>atoms t. parse_one atoms t 1 False) ys ts) (marked (D \<union> set (t # ts)) input)"
    if "marked (insert t D) input ys" for ys
    using Cons.IH [OF that] Cons.prems by auto
  ultimately show ?case
    by (auto intro: returns_bindE)
qed simp

lemma apply_passes_spec:
  assumes "\<And>a. a \<in> set input \<Longrightarrow> \<not> is_tag a"
  shows "returns (apply_passes input policy) (marked {t. enabled policy t} input)"
proof -
  have sjis: "returns (if allow_sjis policy then parse_one input Sjis 1 (contains_marker input (marker Spoiler True)) else Inr input)
      (marked {t. t = Sjis \<and> enabled policy t} input)"
  proof -
    have start: "marked {} input input"
      using assms by (force simp: marked_def tags_of_def filter_empty_conv)
    have "{t. t = Sjis \<and> enabled policy t} = (if allow_sjis policy then {Sjis} else {})"
      by auto
    then show ?thesis
      using start marked_pass [OF start, of Sjis "contains_marker input (marker Spoiler True)"]
      by (simp add: depth_limit_def)
  qed
  have spoilers: "returns (if allow_spoilers policy then bindE (parse_one xs Spoiler 2 False) remove_empty_spoilers else Inr xs)
      (marked {t. (t = Sjis \<or> t = Spoiler) \<and> enabled policy t} input)"
    if m: "marked {t. t = Sjis \<and> enabled policy t} input xs" for xs
  proof (cases "allow_spoilers policy")
    case True
    have e: "{t. (t = Sjis \<or> t = Spoiler) \<and> enabled policy t} = insert Spoiler {t. t = Sjis \<and> enabled policy t}"
      using True by auto
    have "returns (parse_one xs Spoiler 2 False) (marked (insert Spoiler {t. t = Sjis \<and> enabled policy t}) input)"
      using marked_pass [OF m, of Spoiler False] by (simp add: depth_limit_def)
    moreover have "returns (remove_empty_spoilers ys) (marked (insert Spoiler {t. t = Sjis \<and> enabled policy t}) input)"
      if y: "marked (insert Spoiler {t. t = Sjis \<and> enabled policy t}) input ys" for ys
    proof -
      have "nest Spoiler 2 0 ys = Some 0"
        using marked_nest [OF y, of Spoiler] by (simp add: depth_limit_def)
      then show ?thesis
        by (rule returns_mono [OF remove_empty_spoilers_spec])
          (use marked_kept [OF y, of Spoiler False] in \<open>auto simp: depth_limit_def\<close>)
    qed
    ultimately show ?thesis
      unfolding e using True by (auto intro: returns_bindE)
  next
    case False
    then have "{t. (t = Sjis \<or> t = Spoiler) \<and> enabled policy t} = {t. t = Sjis \<and> enabled policy t}"
      by auto
    then show ?thesis using False m by simp
  qed
  have code: "returns (if allow_code policy
            then bindE (unwrap_short_code xs) (\<lambda>atoms.
                 bindE (parse_one atoms Code 2 False) (\<lambda>atoms. Inr (code_breaks atoms)))
            else Inr xs) (marked {t. t \<in> {Sjis, Spoiler, Code} \<and> enabled policy t} input)"
    if m: "marked {t. (t = Sjis \<or> t = Spoiler) \<and> enabled policy t} input xs" for xs
  proof (cases "allow_code policy")
    case True
    let ?D = "{t. (t = Sjis \<or> t = Spoiler) \<and> enabled policy t}"
    have e: "{t. t \<in> {Sjis, Spoiler, Code} \<and> enabled policy t} = insert Code ?D"
      using True by auto
    have "returns (unwrap_short_code xs) (marked ?D input)"
      by (rule returns_mono [OF unwrap_short_code_spec]) (rule marked_thinned [OF m])
    moreover have "returns (bindE (parse_one ys Code 2 False) (\<lambda>atoms. Inr (code_breaks atoms))) (marked (insert Code ?D) input)"
      if y: "marked ?D input ys" for ys
    proof -
      have "returns (parse_one ys Code 2 False) (marked (insert Code ?D) input)"
        using marked_pass [OF y, of Code False] by (simp add: depth_limit_def)
      then show ?thesis
        by (rule returns_bindE) (use marked_thinned code_breaks_spec in auto)
    qed
    ultimately show ?thesis
      unfolding e using True by (auto intro: returns_bindE)
  next
    case False
    then have "{t. t \<in> {Sjis, Spoiler, Code} \<and> enabled policy t} = {t. (t = Sjis \<or> t = Spoiler) \<and> enabled policy t}"
      by auto
    then show ?thesis using False m by simp
  qed
  have op: "returns (if allow_op policy then foldE (\<lambda>atoms t. parse_one atoms t 1 False) xs op_tags else Inr xs)
      (marked {t. enabled policy t} input)"
    if m: "marked {t. t \<in> {Sjis, Spoiler, Code} \<and> enabled policy t} input xs" for xs
  proof (cases "allow_op policy")
    case True
    have e: "{t. enabled policy t} = {t. t \<in> {Sjis, Spoiler, Code} \<and> enabled policy t} \<union> set op_tags"
    proof (intro set_eqI)
      show "t \<in> {t. enabled policy t} \<longleftrightarrow> t \<in> {t. t \<in> {Sjis, Spoiler, Code} \<and> enabled policy t} \<union> set op_tags" for t
        using True by (cases t) (auto simp: op_tags_def)
    qed
    have "distinct op_tags" "set op_tags \<inter> {t. t \<in> {Sjis, Spoiler, Code} \<and> enabled policy t} = {}"
        "\<And>t. t \<in> set op_tags \<Longrightarrow> depth_limit t = 1"
      by (auto simp: op_tags_def depth_limit_def)
    then show ?thesis
      unfolding e using marked_passes [OF m, of op_tags] True by simp
  next
    case False
    have "{t. enabled policy t} = {t. t \<in> {Sjis, Spoiler, Code} \<and> enabled policy t}"
    proof (intro set_eqI)
      show "t \<in> {t. enabled policy t} \<longleftrightarrow> t \<in> {t. t \<in> {Sjis, Spoiler, Code} \<and> enabled policy t}" for t
        using False by (cases t) auto
    qed
    then show ?thesis using False m by simp
  qed
  show ?thesis
    unfolding apply_passes_def
    by (intro returns_bindE [OF sjis] returns_bindE [OF spoilers] returns_bindE [OF code] op)
qed

theorem parse_markup_spec:
  "\<exists>ts. parse_markup_with_limits input policy limits = Inr ts \<and> merged ts
     \<and> (\<forall>t. nest t (depth_limit t) 0 (atoms_of ts) = Some 0)
     \<and> (\<forall>t. \<not> enabled policy t \<longrightarrow> tags_of t (atoms_of ts) = [])
     \<and> subseq (chars_of (atoms_of ts)) (map input_atom (take (prepared_chars limits) input))"
proof -
  define atoms where "atoms = map input_atom (take (prepared_chars limits) input)"
  have plain: "\<not> is_tag a" "a \<noteq> Generated c" if "a \<in> set atoms" for a c
    using that by (auto simp: atoms_def input_atom_def split: if_split_asm)
  have "returns (apply_passes atoms policy) (marked {t. enabled policy t} atoms)"
    using apply_passes_spec plain by blast
  then obtain xs where xs: "apply_passes atoms policy = Inr xs" "marked {t. enabled policy t} atoms xs"
    by (auto simp: returns_def)
  have "Generated c \<notin> set xs" for c
    using xs(2) plain(2) by (force simp: marked_def)
  then obtain ts where ts: "coalesce_from [] [] xs = Inr ts" "merged ts" "atoms_of ts = xs"
    using coalesce_from_spec [of "[]" xs "[]"] by (auto simp: merged_def)
  have "chars_of atoms = atoms"
    using plain(1) by (simp add: chars_of_def filter_id_conv)
  then have "subseq (chars_of xs) atoms" "nest t (depth_limit t) 0 xs = Some 0" "\<not> enabled policy t \<Longrightarrow> tags_of t xs = []" for t
    using xs(2) by (auto simp: marked_def nest_none split: if_split_asm)
  then show ?thesis
    using xs(1) ts by (simp add: parse_markup_with_limits_def atoms_def [symmetric])
qed

text \<open>The projection of admission: the decorations and the user's text stay apart, and only the latter is escaped.\<close>

lemma generated_atoms: "a \<in> set (generated t) \<Longrightarrow> a = Break \<or> (\<exists>c. a = Generated c)"
  by (auto simp: generated_def split: if_split_asm)

lemma admission_source_spec:
  "\<exists>xs. admission_source input policy before after = Inr (concat (map admission_atom xs))
     \<and> marked {t. enabled policy t} (generated before @ map input_atom input @ generated after) xs"
proof -
  let ?atoms = "generated before @ map input_atom input @ generated after"
  have "\<not> is_tag a" if "a \<in> set ?atoms" for a
    using that by (auto dest!: generated_atoms simp: input_atom_def split: if_split_asm)
  from apply_passes_spec [of ?atoms policy, OF this] show ?thesis
    by (auto simp: admission_source_def returns_def)
qed

end
