(* ===== verification/UnicodeClasses.thy ===== *)
theory UnicodeClasses
  imports CommentText
begin

text \<open>
  The classes of scalar values the preparation of posts uses: the table of look-alike letters of
  \<open>comment_ascii.rs\<close>, the invisible characters of \<open>comment_spacing.rs\<close>, the excluded symbols of
  \<open>comment_unicode.rs\<close>, and the classes of Rust's \<open>char\<close>.
\<close>

definition in_ranges :: "(nat \<times> nat) list \<Rightarrow> scalar \<Rightarrow> bool" where
  "in_ranges rs c \<longleftrightarrow> list_ex (\<lambda>(a, b). a \<le> c \<and> c \<le> b) rs"

definition is_control :: "scalar \<Rightarrow> bool" where
  "is_control c \<longleftrightarrow> c \<le> 0x1F \<or> (0x7F \<le> c \<and> c \<le> 0x9F)"

definition is_whitespace :: "scalar \<Rightarrow> bool" where
  "is_whitespace c \<longleftrightarrow> in_ranges [(0x9, 0xD), (0x20, 0x20), (0x85, 0x85), (0xA0, 0xA0), (0x1680, 0x1680), (0x2000, 0x200A),
     (0x2028, 0x2029), (0x202F, 0x202F), (0x205F, 0x205F), (0x3000, 0x3000)] c"

definition ascii_digit :: "scalar \<Rightarrow> bool" where
  "ascii_digit c \<longleftrightarrow> 48 \<le> c \<and> c \<le> 57"

definition zero_width_ranges :: "(nat \<times> nat) list" where
  "zero_width_ranges = [
     (0x0702, 0x0702), (0x1D176, 0x1D176), (0x008D, 0x008D), (0x00A0, 0x00A0), (0x205F, 0x205F),
     (0xFEFF, 0xFEFF), (0x11A6, 0x11A6), (0x00AD, 0x00AD), (0x3164, 0x3164), (0x2800, 0x2800),
     (0x180B, 0x180E), (0x115F, 0x115F), (0x1160, 0x1160), (0xFFA0, 0xFFA0), (0x034F, 0x034F),
     (0x17B4, 0x17B4), (0x17B5, 0x17B5), (0x0001, 0x0008), (0x000E, 0x001F), (0x007F, 0x009F),
     (0x2000, 0x200F), (0x2028, 0x202F), (0x2060, 0x206F), (0xFE00, 0xFE0F), (0xFFF0, 0xFFFB),
     (0xE0100, 0xE01EF), (0xE0001, 0xE007F)]"

definition zero_width :: "scalar \<Rightarrow> bool" where
  "zero_width c \<longleftrightarrow> in_ranges zero_width_ranges c"

definition emoticon_ranges :: "(nat \<times> nat) list" where
  "emoticon_ranges = [
     (0x2300, 0x2311), (0x2313, 0x23FF), (0x3200, 0x32FF), (0x2190, 0x21FF), (0x2580, 0x259F),
     (0x2600, 0x26FF), (0x2B00, 0x2BFE), (0x1F700, 0x1F77F), (0x1F780, 0x1F7FF), (0x1F800, 0x1F8FF),
     (0x1F900, 0x1F9FF), (0x1F200, 0x1F2FF), (0x2460, 0x24FF), (0x1F100, 0x1F1FF), (0x1F600, 0x1F64F),
     (0x1F300, 0x1F5FF), (0x1F680, 0x1F6FF), (0x2700, 0x27BF), (0x1F000, 0x1F02F), (0x1F0A0, 0x1F0FF),
     (0x2139, 0x2139), (0x0365, 0x0365), (0xFDFD, 0xFDFD), (0x0488, 0x0488), (0x0489, 0x0489),
     (0x1ABE, 0x1ABE), (0x20DD, 0x20E0), (0x20E2, 0x20E4), (0xA670, 0xA672), (0x061C, 0x061C),
     (0x070F, 0x070F), (0x0332, 0x0332), (0x0305, 0x0305), (0x202A, 0x202E), (0x2060, 0x206F),
     (0x200E, 0x200E), (0x200F, 0x200F), (0x180E, 0x180E), (0x1FA70, 0x1FAFF), (0x1D173, 0x1D17A),
     (0x13000, 0x1342F), (0xFE00, 0xFE0F)]"

definition emoticon :: "scalar \<Rightarrow> bool \<Rightarrow> bool" where
  "emoticon c sjis \<longleftrightarrow> in_ranges emoticon_ranges c \<or> (\<not> sjis \<and> in_ranges [(0x2502, 0x257F)] c)"

definition similar_table :: "(scalar list \<times> scalar) list" where
  "similar_table = [
     ([0x2070, 0x2080, 0xFF10], 0x30),
     ([0xB9, 0x2081, 0xFF11], 0x31),
     ([0xB2, 0x2082, 0xFF12], 0x32),
     ([0xB3, 0x2083, 0xFF13], 0x33),
     ([0x2074, 0x2084, 0xFF14], 0x34),
     ([0x2075, 0x2085, 0xFF15], 0x35),
     ([0x2076, 0x2086, 0xFF16], 0x36),
     ([0x2077, 0x2087, 0xFF17], 0x37),
     ([0x2078, 0x2088, 0xFF18], 0x38),
     ([0x2079, 0x2089, 0xFF19], 0x39),
     ([0xFE57, 0xFF01], 0x21),
     ([0xFF02], 0x22),
     ([0xFE5F, 0xFF03], 0x23),
     ([0xFE69, 0xFF04], 0x24),
     ([0xFE6A, 0xFF05], 0x25),
     ([0xFE60, 0xFF06], 0x26),
     ([0xFF07], 0x27),
     ([0x207D, 0x208D, 0xFE59, 0xFF08], 0x28),
     ([0x207E, 0x208E, 0xFE5A, 0xFF09], 0x29),
     ([0xFE61, 0xFF0A], 0x2A),
     ([0x207A, 0x208A, 0xFE62, 0xFF0B], 0x2B),
     ([0xFE50, 0xFF0C], 0x2C),
     ([0x207B, 0x208B, 0xFE63, 0xFF0D], 0x2D),
     ([0xFE52, 0xFF0E], 0x2E),
     ([0xFF0F], 0x2F),
     ([0xFE55, 0xFF1A], 0x3A),
     ([0xFE54, 0xFF1B], 0x3B),
     ([0xFE64, 0xFF1C], 0x3C),
     ([0x207C, 0x208C, 0xFE66, 0xFF1D], 0x3D),
     ([0xFE65, 0xFF1E], 0x3E),
     ([0xFE56, 0xFF1F], 0x3F),
     ([0xFE6B, 0xFF20], 0x40),
     ([0x410, 0xFF21, 0x1D400, 0x1D434, 0x1D468, 0x1D49C, 0x1D4D0, 0x1D504, 0x1D538, 0x1D56C, 0x1D5A0,
      0x1D5D4, 0x1D63C, 0x1D670], 0x41),
     ([0x42, 0x412, 0x212C, 0xFF22, 0x1D401, 0x1D435, 0x1D469, 0x1D4D1, 0x1D505, 0x1D539, 0x1D56D, 0x1D5A1,
      0x1D5D5, 0x1D609, 0x1D63D, 0x1D671], 0x42),
     ([0x421, 0x2102, 0x212D, 0xFF23, 0x1D402, 0x1D436, 0x1D46A, 0x1D49E, 0x1D4D2, 0x1D56E, 0x1D5A2, 0x1D5D6,
      0x1D60A, 0x1D63E, 0x1D672], 0x43),
     ([0x2145, 0xFF24, 0x1D403, 0x1D437, 0x1D46B, 0x1D49F, 0x1D4D3, 0x1D507, 0x1D53B, 0x1D56F, 0x1D5A3,
      0x1D5D7, 0x1D60B, 0x1D63F, 0x1D673], 0x44),
     ([0x2130, 0x415, 0xFF25, 0x1D404, 0x1D438, 0x1D46C, 0x1D4D4, 0x1D508, 0x1D53C, 0x1D570, 0x1D5A4,
      0x1D5D8, 0x1D60C, 0x1D640, 0x1D674], 0x45),
     ([0x2131, 0x213F, 0xFF26, 0x1D405, 0x1D439, 0x1D46D, 0x1D4D5, 0x1D509, 0x1D53D, 0x1D571, 0x1D5A5,
      0x1D5D9, 0x1D60D, 0x1D641, 0x1D675], 0x46),
     ([0x262, 0xFF27, 0x1D406, 0x1D43A, 0x1D46E, 0x1D4A2, 0x1D4D6, 0x1D50A, 0x1D53E, 0x1D572, 0x1D5A6,
      0x1D5DA, 0x1D60E, 0x1D642, 0x1D676], 0x47),
     ([0x29C, 0x41D, 0x210B, 0x210C, 0x210D, 0xFF28, 0x1D407, 0x1D43B, 0x1D46F, 0x1D4D7, 0x1D573, 0x1D5A7,
      0x1D5DB, 0x1D60F, 0x1D643, 0x1D677], 0x48),
     ([0x49, 0x406, 0x2110, 0x2111, 0x2160, 0xFF29, 0x1D408, 0x1D43C, 0x1D470, 0x1D4D8, 0x1D540, 0x1D574,
      0x1D5A8, 0x1D5DC, 0x1D610, 0x1D644, 0x1D678], 0x49),
     ([0x26A, 0x408, 0xFF2A, 0x1D409, 0x1D43D, 0x1D471, 0x1D4D9, 0x1D541, 0x1D575, 0x1D5A9, 0x1D5DD, 0x1D611,
      0x1D645, 0x1D679], 0x4A),
     ([0xFF2B, 0x1D40A, 0x1D43E, 0x1D472, 0x1D4A5, 0x1D4DA, 0x1D50D, 0x1D542, 0x1D576, 0x1D5AA, 0x1D5DE,
      0x1D612, 0x1D646, 0x1D67A], 0x4B),
     ([0xFF2C, 0x1D40B, 0x1D43F, 0x1D473, 0x1D4A6, 0x1D4DB, 0x1D50E, 0x1D543, 0x1D577, 0x1D5AB, 0x1D5DF,
      0x1D613, 0x1D647, 0x1D67B], 0x4C),
     ([0x29F, 0x41C, 0xFF2D, 0x2112, 0x1D40C, 0x1D440, 0x1D474, 0x1D4DC, 0x1D50F, 0x1D544, 0x1D578, 0x1D5AC,
      0x1D5E0, 0x1D614, 0x1D648, 0x1D67C], 0x4D),
     ([0x2133, 0xFF2E, 0x1D40D, 0x1D441, 0x1D475, 0x1D4A9, 0x1D4DD, 0x1D511, 0x1D579, 0x1D5AD, 0x1D5E1,
      0x1D615, 0x1D649, 0x1D67D], 0x4E),
     ([0x4F, 0x41E, 0x2205, 0xFF2F, 0x1D40E, 0x1D442, 0x1D476, 0x1D4AA, 0x1D4DE, 0x1D512, 0x1D546, 0x1D57A,
      0x1D5AE, 0x1D5E2, 0x1D616, 0x1D64A, 0x1D67E], 0x4F),
     ([0x420, 0x2118, 0x2119, 0xFF30, 0x1D40F, 0x1D443, 0x1D477, 0x1D4AB, 0x1D4DF, 0x1D513, 0x1D57B, 0x1D5AF,
      0x1D5E3, 0x1D617, 0x1D64B, 0x1D67F], 0x50),
     ([0x211A, 0xFF31, 0x1D410, 0x1D444, 0x1D478, 0x1D4AC, 0x1D4E0, 0x1D514, 0x1D57C, 0x1D5B0, 0x1D5E4,
      0x1D618, 0x1D64C, 0x1D680], 0x51),
     ([0x280, 0x211B, 0x211C, 0x211D, 0xFF32, 0x1D411, 0x1D445, 0x1D479, 0x1D4E1, 0x1D57D, 0x1D5B1, 0x1D5E5,
      0x1D619, 0x1D64D, 0x1D681], 0x52),
     ([0x405, 0xFF33, 0x1D412, 0x1D446, 0x1D47A, 0x1D4AE, 0x1D4E2, 0x1D516, 0x1D54A, 0x1D57E, 0x1D5B2,
      0x1D5E6, 0x1D61A, 0x1D64E, 0x1D682], 0x53),
     ([0x422, 0xFF34, 0x1D413, 0x1D447, 0x1D47B, 0x1D4AF, 0x1D4E3, 0x1D517, 0x1D54B, 0x1D57F, 0x1D5B3,
      0x1D5E7, 0x1D61B, 0x1D64F, 0x1D683], 0x54),
     ([0x55, 0xFF35, 0x1D414, 0x1D448, 0x1D47C, 0x1D4B0, 0x1D4E4, 0x1D518, 0x1D54C, 0x1D580, 0x1D5B4,
      0x1D5E8, 0x1D61C, 0x1D650, 0x1D684], 0x55),
     ([0xFF36, 0x1D415, 0x1D449, 0x1D47D, 0x1D4B1, 0x1D4E5, 0x1D519, 0x1D54D, 0x1D581, 0x1D5B5, 0x1D5E9,
      0x1D61D, 0x1D651, 0x1D685], 0x56),
     ([0x51C, 0xFF37, 0x1D416, 0x1D44A, 0x1D47E, 0x1D4B2, 0x1D4E6, 0x1D51A, 0x1D54E, 0x1D582, 0x1D5B6,
      0x1D5EA, 0x1D61E, 0x1D652, 0x1D686], 0x57),
     ([0xFF38, 0x1D417, 0x1D44B, 0x1D47F, 0x1D4B3, 0x1D4E7, 0x1D51B, 0x1D54F, 0x1D583, 0x1D5B7, 0x1D5EB,
      0x1D61F, 0x1D653, 0x1D687], 0x58),
     ([0x59, 0x2144, 0xFF39, 0x1D418, 0x1D44C, 0x1D480, 0x1D4B4, 0x1D4E8, 0x1D51C, 0x1D550, 0x1D584, 0x1D5B8,
      0x1D5EC, 0x1D620, 0x1D654, 0x1D688], 0x59),
     ([0x29F5, 0x29F9, 0xFE68], 0x5C),
     ([0x430, 0x2124, 0x2128, 0xFF3A, 0xFF41, 0x1D419, 0x1D44D, 0x1D482, 0x1D656, 0x1D68A], 0x61),
     ([0xFF42, 0x1D41B, 0x1D44F, 0x1D483, 0x1D4B7, 0x1D4EB, 0x1D51F, 0x1D553, 0x1D587, 0x1D5BB, 0x1D5EF,
      0x1D623, 0x1D657, 0x1D68B], 0x62),
     ([0x63, 0x1D04, 0x441, 0xFF43, 0x1D41C, 0x1D450, 0x1D484, 0x1D4B8, 0x1D4EC, 0x1D520, 0x1D554, 0x1D588,
      0x1D5BC, 0x1D5F0, 0x1D624, 0x1D658, 0x1D68C], 0x63),
     ([0x64, 0x1D05, 0x2146, 0xFF44, 0x1D41D, 0x1D451, 0x1D485, 0x1D4B9, 0x1D4ED, 0x1D521, 0x1D555, 0x1D589,
      0x1D5BD, 0x1D5F1, 0x1D625, 0x1D659, 0x1D68D], 0x64),
     ([0x65, 0x435, 0x1D07, 0x212F, 0x2147, 0xFF45, 0x1D41E, 0x1D452, 0x1D486, 0x1D4EE, 0x1D522, 0x1D556,
      0x1D5BE, 0x1D5F2, 0x1D626, 0x1D65A, 0x1D68E], 0x65),
     ([0x66, 0xFF46, 0x1D41F, 0x1D453, 0x1D487, 0x1D4BB, 0x1D4EF, 0x1D523, 0x1D557, 0x1D58B, 0x1D5BF,
      0x1D5F3, 0x1D627, 0x1D65B, 0x1D68F], 0x66),
     ([0x67, 0xFF47, 0x210A, 0x1D420, 0x1D454, 0x1D488, 0x1D4F0, 0x1D524, 0x1D558, 0x1D58C, 0x1D5C0, 0x1D5F4,
      0x1D628, 0x1D65C, 0x1D690], 0x67),
     ([0x68, 0x4BB, 0xFF48, 0x1D421, 0x1D489, 0x1D4BD, 0x1D4F1, 0x1D525, 0x1D559, 0x1D58D, 0x1D5C1, 0x1D5F5,
      0x1D629, 0x1D65D, 0x1D691], 0x68),
     ([0x456, 0x1D09, 0x2071, 0xFF49, 0x2148, 0x1D422, 0x1D456, 0x1D48A, 0x1D4BE, 0x1D4F2, 0x1D526, 0x1D55A,
      0x1D58E, 0x1D5C2, 0x1D5F6, 0x1D62A, 0x1D65E, 0x1D692], 0x69),
     ([0x1D0A, 0x2149, 0xFF4A, 0x1D423, 0x1D457, 0x1D48B, 0x1D4BF, 0x1D4F3, 0x1D527, 0x1D55B, 0x1D58F,
      0x1D5C3, 0x1D5F7, 0x1D62B, 0x1D65F, 0x1D693], 0x6A),
     ([0x6B, 0x1D0B, 0xFF4B, 0x1D424, 0x1D458, 0x1D48C, 0x1D4C0, 0x1D4F4, 0x1D528, 0x1D55C, 0x1D590, 0x1D5C4,
      0x1D5F8, 0x1D62C, 0x1D660, 0x1D694], 0x6B),
     ([0x6C, 0x2113, 0xFF4C, 0x1D425, 0x1D459, 0x1D48D, 0x1D4C1, 0x1D4F5, 0x1D529, 0x1D55D, 0x1D591, 0x1D5C5,
      0x1D5F9, 0x1D62D, 0x1D661, 0x1D695], 0x6C),
     ([0x6D, 0x1D0D, 0xFF4D, 0x1D426, 0x1D45A, 0x1D48E, 0x1D4C2, 0x1D52A, 0x1D55E, 0x1D592, 0x1D5C6, 0x1D5FA,
      0x1D62E, 0x1D662, 0x1D696, 0x1D4F6], 0x6D),
     ([0x207F, 0xFF4E, 0x1D427, 0x1D45B, 0x1D48F, 0x1D4C3, 0x1D4F7, 0x1D52B, 0x1D55F, 0x1D593, 0x1D5C7,
      0x1D5FB, 0x1D62F, 0x1D663, 0x1D697], 0x6E),
     ([0x6F, 0x43E, 0x1D0F, 0x2134, 0xFF4F, 0x1D428, 0x1D45C, 0x1D490, 0x1D4F8, 0x1D52C, 0x1D560, 0x1D594,
      0x1D5C8, 0x1D5FC, 0x1D630, 0x1D664, 0x1D698], 0x6F),
     ([0x70, 0x440, 0x1D18, 0xFF50, 0x213C, 0x1D429, 0x1D45D, 0x1D491, 0x1D4C5, 0x1D4F9, 0x1D52D, 0x1D561,
      0x1D595, 0x1D5C9, 0x1D5FD, 0x1D631, 0x1D665, 0x1D699], 0x70),
     ([0x71, 0x51B, 0xFF51, 0x1D42A, 0x1D45E, 0x1D492, 0x1D4C6, 0x1D4FA, 0x1D52E, 0x1D562, 0x1D596, 0x1D5CA,
      0x1D5FE, 0x1D632, 0x1D666, 0x1D69A], 0x71),
     ([0x72, 0xFF52, 0x1D42B, 0x1D45F, 0x1D493, 0x1D4C7, 0x1D4FB, 0x1D52F, 0x1D563, 0x1D597, 0x1D5CB,
      0x1D5FF, 0x1D633, 0x1D667, 0x1D69B], 0x72),
     ([0x73, 0x455, 0xFF53, 0x1D42C, 0x1D460, 0x1D494, 0x1D4C8, 0x1D4FC, 0x1D530, 0x1D564, 0x1D598, 0x1D5CC,
      0x1D600, 0x1D634, 0x1D668, 0x1D69C], 0x73),
     ([0x74, 0x1D1B, 0xFF54, 0x1D42D, 0x1D461, 0x1D495, 0x1D4C9, 0x1D4FD, 0x1D531, 0x1D565, 0x1D599, 0x1D5CD,
      0x1D601, 0x1D635, 0x1D669, 0x1D69D], 0x74),
     ([0x75, 0x1D1C, 0xFF55, 0x1D42E, 0x1D462, 0x1D496, 0x1D4CA, 0x1D4FE, 0x1D532, 0x1D566, 0x1D59A, 0x1D5CE,
      0x1D602, 0x1D636, 0x1D66A, 0x1D69E], 0x75),
     ([0x76, 0x1D20, 0xFF56, 0x1D42F, 0x1D463, 0x1D497, 0x1D4CB, 0x1D4FF, 0x1D533, 0x1D567, 0x1D59B, 0x1D5CF,
      0x1D603, 0x1D637, 0x1D66B, 0x1D69F], 0x76),
     ([0x77, 0x51D, 0x1D21, 0x24B2, 0x24E6, 0xFF57, 0x1D430, 0x1D464, 0x1D498, 0x1D4CC, 0x1D500, 0x1D534,
      0x1D568, 0x1D59C, 0x1D5D0, 0x1D604, 0x1D638, 0x1D66C, 0x1D6A0], 0x77),
     ([0x78, 0xFF58, 0x2718, 0x1D431, 0x1D465, 0x1D499, 0x1D4CD, 0x1D501, 0x1D535, 0x1D569, 0x1D59D, 0x1D5D1,
      0x1D605, 0x1D639, 0x1D66D, 0x1D6A1], 0x78),
     ([0x443, 0xFF59, 0x1D432, 0x1D466, 0x1D49A, 0x1D4CE, 0x1D502, 0x1D536, 0x1D56A, 0x1D59E, 0x1D5D2,
      0x1D606, 0x1D63A, 0x1D66E, 0x1D6A2], 0x79),
     ([0x7A, 0x1D22, 0xFF5A, 0x1D433, 0x1D467, 0x1D49B, 0x1D4CF, 0x1D503, 0x1D537, 0x1D56B, 0x1D59F, 0x1D5D3,
      0x1D607, 0x1D63B, 0x1D66F, 0x1D6A3], 0x7A),
     ([0xFE5B, 0xFF5B], 0x7B),
     ([0xFF5C], 0x7C),
     ([0xFE5C, 0xFF5D], 0x7D),
     ([0xFF5E], 0x7E)]"

definition similar_to_ascii :: "scalar \<Rightarrow> scalar" where
  "similar_to_ascii c = (case find (\<lambda>(points, _). c \<in> set points) similar_table of None \<Rightarrow> c | Some (_, a) \<Rightarrow> a)"

text \<open>Every replacement is a visible ASCII character.\<close>

lemma similar_table_ascii: "list_all (\<lambda>(_, a). 0x20 < a \<and> a < 0x7F) similar_table"
  by (simp add: similar_table_def)

lemma similar_to_ascii_cases: "similar_to_ascii c = c \<or> (0x20 < similar_to_ascii c \<and> similar_to_ascii c < 0x7F)"
  using similar_table_ascii
  by (auto simp: similar_to_ascii_def find_Some_iff list_all_length split: option.split)

lemma similar_not_control: "\<not> is_control c \<Longrightarrow> \<not> is_control (similar_to_ascii c)"
  using similar_to_ascii_cases [of c] by (auto simp: is_control_def)

end
