(* ===== verification/CommentPreparation.thy ===== *)
theory CommentPreparation
  imports UnicodeClasses
begin

text \<open>
  How a submitted comment becomes stored text: \<open>lib.rs\<close> (validation, line ends, board names),
  \<open>comment_unicode.rs\<close>, \<open>comment_lines.rs\<close>, \<open>comment_quotes.rs\<close> and \<open>comment_spacing.rs\<close> of
  \<open>crates/domain\<close>. Positions in a text count scalar values; where the code compares byte positions
  the byte offset of the position is compared.
\<close>

section \<open>Searching text\<close>

definition occurs_at :: "utext \<Rightarrow> nat \<Rightarrow> utext \<Rightarrow> bool" where
  "occurs_at t i p \<longleftrightarrow> i + length p \<le> length t \<and> take (length p) (drop i t) = p"

text \<open>\<open>str::find\<close> and \<open>str::match_indices\<close> for a literal that is not empty.\<close>

definition find_text :: "utext \<Rightarrow> utext \<Rightarrow> nat option" where
  "find_text t p = position (\<lambda>i. occurs_at t i p) [0..<length t]"

function match_indices :: "utext \<Rightarrow> utext \<Rightarrow> nat \<Rightarrow> nat list" where
  "match_indices t p i =
     (if length t \<le> i \<or> p = [] then []
      else if occurs_at t i p then i # match_indices t p (i + length p)
      else match_indices t p (i + 1))"
  by pat_completeness auto

termination
  by (relation "measure (\<lambda>(t, p, i). length t - i)") (auto simp: occurs_at_def neq_Nil_conv)

declare match_indices.simps [simp del]

text \<open>\<open>str::trim_matches\<close>.\<close>

definition trim_matches :: "(scalar \<Rightarrow> bool) \<Rightarrow> utext \<Rightarrow> utext" where
  "trim_matches p t = rev (dropWhile p (rev (dropWhile p t)))"

text \<open>The byte position of the scalar at \<open>i\<close>.\<close>

definition byte_offset :: "utext \<Rightarrow> nat \<Rightarrow> nat" where
  "byte_offset t i = byte_length (take i t)"

section \<open>Validation (lib.rs)\<close>

fun line_ends :: "utext \<Rightarrow> utext" where
  "line_ends [] = []"
| "line_ends (c # t) =
     (if c = 13 then 10 # (case t of [] \<Rightarrow> [] | d # u \<Rightarrow> if d = 10 then line_ends u else line_ends t)
      else c # line_ends t)"

definition normalize_comment_with_limits :: "utext \<Rightarrow> PostLimits \<Rightarrow> utext run" where
  "normalize_comment_with_limits value limits =
     (if byte_length value > input_bytes limits then Inl (Refused CommentLimit)
      else if 13 \<notin> set value then Inr value
      else Inr (line_ends value))"

definition parse_board :: "utext \<Rightarrow> utext run" where
  "parse_board value =
     (if value = lit ''polls'' then Inl (Refused ReservedBoard)
      else if value = [] \<or> byte_length value > 10
          \<or> \<not> list_all (\<lambda>c. (97 \<le> c \<and> c \<le> 122) \<or> ascii_digit c) value
      then Inl (Refused BoardName)
      else Inr value)"

definition bad_control :: "scalar \<Rightarrow> bool" where
  "bad_control c \<longleftrightarrow> is_control c \<and> c \<noteq> 10 \<and> c \<noteq> 13 \<and> c \<noteq> 9"

definition validate_post_with_limits :: "utext \<Rightarrow> utext \<Rightarrow> utext \<Rightarrow> PostLimits \<Rightarrow> bool \<Rightarrow> unit run" where
  "validate_post_with_limits name subject comment limits has_attachment =
     bindE (validate_field limits name) (\<lambda>_.
     bindE (validate_field limits subject) (\<lambda>_.
     bindE (normalize_comment_with_limits comment limits) (\<lambda>comment.
     if (trim_matches is_whitespace comment = [] \<and> \<not> has_attachment) \<or> length comment > comment_chars limits
     then Inl (Refused CommentLimit)
     else if list_ex (\<lambda>s. list_ex bad_control s) [name, subject, comment]
     then Inl (Refused ControlCharacter)
     else Inr ())))"

section \<open>The spacing policy\<close>

record CommentSpacing =
  on_board :: utext
  max_lines :: nat
  spoiler_cleanup :: bool
  op_markup :: bool
  code_spacing :: bool
  sjis_spacing :: bool
  preserve_wide_spaces :: bool
  strip_zero_width :: bool

definition for_board :: "utext \<Rightarrow> bool \<Rightarrow> bool \<Rightarrow> CommentSpacing" where
  "for_board board code sjis =
     \<lparr>on_board = board, max_lines = 70, spoiler_cleanup = False, op_markup = False,
      code_spacing = code, sjis_spacing = sjis,
      preserve_wide_spaces = (sjis \<or> board \<in> {lit ''a'', lit ''b'', lit ''jp''}),
      strip_zero_width = (\<not> sjis \<and> \<not> board \<in> {lit ''a'', lit ''jp''})\<rparr>"

definition with_line_rules :: "CommentSpacing \<Rightarrow> nat \<Rightarrow> bool \<Rightarrow> CommentSpacing" where
  "with_line_rules s lines cleanup = s\<lparr>max_lines := lines, spoiler_cleanup := cleanup\<rparr>"

definition with_op_markup :: "CommentSpacing \<Rightarrow> bool \<Rightarrow> CommentSpacing" where
  "with_op_markup s enabled = s\<lparr>op_markup := enabled\<rparr>"

section \<open>Excluded characters (comment_unicode.rs)\<close>

definition before_spacing :: "utext \<Rightarrow> CommentSpacing \<Rightarrow> utext" where
  "before_spacing t spacing =
     (let result = concat (map (\<lambda>c.
        if strip_zero_width spacing \<and> 0x2600 \<le> c \<and> c \<le> 0x26FF then []
        else
          let c = (if strip_zero_width spacing then similar_to_ascii c else c) in
          if strip_zero_width spacing \<and> zero_width c then []
          else if c = 0xA0 \<or> c = 0xAD \<or> emoticon c (sjis_spacing spacing) then []
          else [c]) t)
      in if list_all (\<lambda>c. c \<in> {32, 124, 0x3000, 9}) result then [] else result)"

section \<open>Spoilers inside words (comment_lines.rs)\<close>

definition source_space :: "scalar \<Rightarrow> bool" where
  "source_space c \<longleftrightarrow> c \<in> {32, 9, 10, 13, 11, 12}"

fun split_inclusive :: "utext \<Rightarrow> utext list" where
  "split_inclusive [] = []"
| "split_inclusive (c # t) =
     (if c = 10 then [c] # split_inclusive t
      else case split_inclusive t of [] \<Rightarrow> [[c]] | l # ls \<Rightarrow> (c # l) # ls)"

text \<open>
  The state of a line: the result, the position copied up to and the byte position consumed up to.
  The byte before a position is a space exactly when the scalar before it is one.
\<close>

definition spoiler_step :: "utext \<Rightarrow> nat list \<Rightarrow> utext \<times> nat \<times> nat \<Rightarrow> nat \<Rightarrow> (utext \<times> nat \<times> nat) run" where
  "spoiler_step line closes = (\<lambda>(result, copied, consumed) start.
     if byte_offset line start \<le> consumed then Inr (result, copied, consumed)
     else if start = 0 \<or> length line < start then Inl Panicked
     else if source_space (line ! (start - 1)) then Inr (result, copied, consumed)
     else
       let index = length (takeWhile (\<lambda>close. close < start + 9) closes) in
       if index < length closes then
         let close = closes ! index in
         bindE (cut copied start line) (\<lambda>kept.
         bindE (cut (start + 9) close line) (\<lambda>inner.
         Inr (result @ kept @ inner, close + 10, byte_offset line (close + 10) + 1)))
       else Inr (result, copied, consumed))"

definition clean_line :: "utext \<Rightarrow> utext run" where
  "clean_line line =
     (let closes = filter (\<lambda>i. i + 10 < length line \<and> \<not> source_space (line ! (i + 10)))
            (match_indices line (lit ''[/spoiler]'') 0)
      in bindE (foldE (spoiler_step line closes) ([], 0, 0) (match_indices line (lit ''[spoiler]'') 0))
          (\<lambda>(result, copied, _). bindE (cut copied (length line) line) (\<lambda>rest. Inr (result @ rest))))"

definition remove_intra_spoilers :: "utext \<Rightarrow> utext run" where
  "remove_intra_spoilers t =
     foldE (\<lambda>result line. bindE (clean_line line) (\<lambda>cleaned. Inr (result @ cleaned))) [] (split_inclusive t)"

section \<open>Repeated lines (comment_lines.rs)\<close>

text \<open>The end of a window of six runs; each run is its text and its number of line feeds.\<close>

definition window_repeats :: "(utext \<times> nat) list \<Rightarrow> bool" where
  "window_repeats runs \<longleftrightarrow>
     length runs = 6 \<and>
     (let first = runs ! 0; repeated = fst (runs ! 1) in
        suffix repeated (fst first)
        \<and> list_all (\<lambda>run. fst run = repeated \<and> snd run = snd first) (take 4 (drop 1 runs))
        \<and> fst (runs ! 5) = repeated \<and> snd (runs ! 5) \<ge> snd first)"

function scan_runs :: "(utext \<times> nat) list \<Rightarrow> utext \<Rightarrow> bool" where
  "scan_runs runs t =
     (if t = [] then False
      else
        let start = dropWhile (\<lambda>c. c = 10) t;
            text = takeWhile (\<lambda>c. c \<noteq> 10) start;
            at_end = dropWhile (\<lambda>c. c \<noteq> 10) start
        in if at_end = [] then False
           else
             let newlines = length (takeWhile (\<lambda>c. c = 10) at_end);
                 runs' = (if length runs = 6 then tl runs else runs) @ [(text, newlines)]
             in if window_repeats runs' then True
                else scan_runs runs' (dropWhile (\<lambda>c. c = 10) at_end))"
  by pat_completeness auto

termination
proof (relation "measure (\<lambda>(runs, t). length t)")
  fix t start at_end :: utext
  assume h: "start = dropWhile (\<lambda>c. c = 10) t" "at_end = dropWhile (\<lambda>c. c \<noteq> 10) start" "at_end \<noteq> []"
  then have "hd at_end = 10"
    using hd_dropWhile [of "\<lambda>c. c \<noteq> 10" start] by auto
  then have "length (dropWhile (\<lambda>c. c = 10) at_end) < length at_end"
    using h(3) by (cases at_end) (auto intro: le_imp_less_Suc length_dropWhile_le)
  also have "\<dots> \<le> length t"
    using length_dropWhile_le [of "\<lambda>c. c \<noteq> 10" start] length_dropWhile_le [of "\<lambda>c. c = 10" t] h by simp
  finally show "((runs', dropWhile (\<lambda>c. c = 10) at_end), runs, t) \<in> measure (\<lambda>(runs, t). length t)"
    for runs runs' :: "(utext \<times> nat) list"
    by simp
qed simp

declare scan_runs.simps [simp del]

definition repeated_line_runs :: "utext \<Rightarrow> bool" where
  "repeated_line_runs t = scan_runs [] t"

definition repeated_lines :: "utext \<Rightarrow> bool" where
  "repeated_lines t \<longleftrightarrow>
     (if count_list t 10 \<le> 6 then False
      else if list_ex (\<lambda>c. c \<in> {38, 60, 62, 34, 39}) t then repeated_line_runs (source_html_entities t)
      else repeated_line_runs t)"

section \<open>Quotes of the same board (comment_quotes.rs)\<close>

definition board_prefix :: "utext \<Rightarrow> utext" where
  "board_prefix board = lit ''>>>/'' @ board @ lit ''/''"

lemma length_board_prefix: "length (board_prefix board) = length board + 5"
  by (simp add: board_prefix_def)

lemma find_text_bounds: "find_text t p = Some i \<Longrightarrow> i + length p \<le> length t"
  by (auto simp: find_text_def occurs_at_def dest: position_Some)

function requote :: "utext \<Rightarrow> utext \<Rightarrow> utext option \<Rightarrow> nat \<Rightarrow> nat \<Rightarrow> (utext option \<times> nat) run" where
  "requote t board result copied cursor =
     bindE (cut cursor (length t) t) (\<lambda>rest.
     case find_text rest (board_prefix board) of
       None \<Rightarrow> Inr (result, copied)
     | Some offset \<Rightarrow>
         let start = cursor + offset; past = start + length (board_prefix board) in
         if past < length t \<and> ascii_digit (t ! past) then
           bindE (cut copied start t) (\<lambda>part.
           requote t board (Some ((case result of None \<Rightarrow> [] | Some r \<Rightarrow> r) @ part @ lit ''>>'')) past past)
         else requote t board result copied past)"
  by pat_completeness auto

termination
  by (relation "measure (\<lambda>(t, board, result, copied, cursor). length t + 1 - cursor)")
    (auto simp: cut_def length_board_prefix split: if_split_asm dest!: find_text_bounds)

declare requote.simps [simp del]

definition same_board_quotes :: "utext \<Rightarrow> utext \<Rightarrow> utext run" where
  "same_board_quotes t board =
     (case parse_board board of
       Inl _ \<Rightarrow> Inr t
     | Inr board \<Rightarrow>
         bindE (requote t board None 0 0) (\<lambda>(result, copied).
         case result of
           None \<Rightarrow> Inr t
         | Some result \<Rightarrow> bindE (cut copied (length t) t) (\<lambda>rest. Inr (result @ rest))))"

section \<open>Spacing (comment_spacing.rs)\<close>

definition space_step :: "CommentSpacing \<Rightarrow> utext \<times> bool \<Rightarrow> scalar \<Rightarrow> utext \<times> bool" where
  "space_step spacing = (\<lambda>(t, previous_space) c.
     let c = (if \<not> preserve_wide_spaces spacing \<and> c = 0x3000 then 32 else c) in
     if code_spacing spacing \<or> sjis_spacing spacing
     then (t @ (if c = 9 then lit ''    '' else [c]), previous_space)
     else if c \<in> {32, 9, 12, 0x200B, 0x2029}
     then (if previous_space then t else t @ [32], True)
     else (t @ [c], False))"

definition sanitize_spacing :: "utext \<Rightarrow> CommentSpacing \<Rightarrow> utext" where
  "sanitize_spacing normalized spacing =
     trim_matches (\<lambda>c. c \<in> {32, 9, 10, 13, 0, 11}) (fst (foldl (space_step spacing) ([], False) normalized))"

text \<open>The rest of the text and the count of line feeds after blank lines.\<close>

function blank_run :: "utext \<Rightarrow> nat \<Rightarrow> utext \<times> nat" where
  "blank_run t count =
     (case position (\<lambda>c. c = 10) t of
       None \<Rightarrow> (t, count)
     | Some offset \<Rightarrow>
         if \<not> list_all (\<lambda>c. c = 32 \<or> c = 0x3000) (take offset t) then (t, count)
         else blank_run (drop (offset + 1) t) (count + 1))"
  by pat_completeness auto

termination
  by (relation "measure (\<lambda>(t, count). length t)") (auto dest: position_Some)

declare blank_run.simps [simp del]

lemma blank_run_length: "length (fst (blank_run t count)) \<le> length t"
proof (induction t count rule: blank_run.induct)
  case (1 t count)
  then show ?case
    by (subst blank_run.simps) (auto split: option.split intro: le_trans)
qed

function collapse_blank_lines :: "utext \<Rightarrow> utext" where
  "collapse_blank_lines t =
     (case position (\<lambda>c. c = 10) t of
       None \<Rightarrow> t
     | Some offset \<Rightarrow>
         take (offset + 1) t @
         (case blank_run (drop (offset + 1) t) 1 of (after, count) \<Rightarrow>
            collapse_blank_lines (if count \<ge> 4 then after else drop (offset + 1) t)))"
  by pat_completeness auto

termination
proof (relation "measure length")
  fix t after :: utext and offset count
  assume p: "position (\<lambda>c. c = 10) t = Some offset" and b: "(after, count) = blank_run (drop (offset + 1) t) 1"
  have "length after \<le> length (drop (offset + 1) t)"
    using blank_run_length [of "drop (offset + 1) t" 1] unfolding b [symmetric] by simp
  moreover have "offset < length t"
    using position_Some [OF p] by simp
  ultimately show "((if 4 \<le> count then after else drop (offset + 1) t), t) \<in> measure length"
    by auto
qed simp

declare collapse_blank_lines.simps [simp del]

section \<open>The whole preparation\<close>

definition max_scalar :: nat where [simp]: "max_scalar = 0x3134F"

definition prepare_post_comment_with_limits ::
  "utext \<Rightarrow> utext \<Rightarrow> utext \<Rightarrow> PostLimits \<Rightarrow> bool \<Rightarrow> CommentSpacing \<Rightarrow> utext run" where
  "prepare_post_comment_with_limits name subject comment limits has_attachment spacing =
     bindE (validate_post_with_limits name subject comment limits has_attachment) (\<lambda>_.
     bindE (normalize_comment_with_limits comment limits) (\<lambda>normalized.
     let normalized = before_spacing normalized spacing in
     bindE (if spoiler_cleanup spacing then remove_intra_spoilers normalized else Inr normalized) (\<lambda>normalized.
     bindE (same_board_quotes normalized (on_board spacing)) (\<lambda>normalized.
     let preserve = (code_spacing spacing \<or> sjis_spacing spacing);
         text = filter (\<lambda>c. c \<le> max_scalar) (sanitize_spacing normalized spacing) in
     if ordinary_checks limits \<and> repeated_lines text then Inl (Refused Spam)
     else
       let text = (if preserve then text else collapse_blank_lines text) in
       if ordinary_checks limits \<and> count_list text 10 > max_lines spacing then Inl (Refused TooManyLines)
       else if (\<not> has_attachment \<and> trim_matches is_whitespace text = [])
           \<or> byte_length text > prepared_bytes limits \<or> length text > prepared_chars limits
       then Inl (Refused CommentLimit)
       else Inr text))))"

definition prepare_post_comment ::
  "utext \<Rightarrow> utext \<Rightarrow> utext \<Rightarrow> nat \<Rightarrow> bool \<Rightarrow> CommentSpacing \<Rightarrow> utext run" where
  "prepare_post_comment name subject comment max_chars has_attachment spacing =
     prepare_post_comment_with_limits name subject comment (ordinary max_chars) has_attachment spacing"

end
