(* ===== verification/RepeatedLines.thy ===== *)
theory RepeatedLines
  imports CommentPreparation
begin

text \<open>
  The sliding window of \<open>repeated_lines\<close> decides the regular expression it stands for: six times the
  same text followed by the same number of line feeds.
\<close>

definition repeats :: "utext \<Rightarrow> bool" where
  "repeats t \<longleftrightarrow> (\<exists>before x k after. t = before @ concat (replicate 6 (x @ replicate k 10)) @ after
     \<and> x \<noteq> [] \<and> 10 \<notin> set x \<and> 0 < k)"

section \<open>Runs\<close>

text \<open>A run is a line and the line feeds after it; a text is feeds, runs and a last line.\<close>

definition is_run :: "utext \<times> nat \<Rightarrow> bool" where
  "is_run r \<longleftrightarrow> fst r \<noteq> [] \<and> 10 \<notin> set (fst r) \<and> 0 < snd r"

definition render :: "utext \<times> nat \<Rightarrow> utext" where
  "render r = fst r @ replicate (snd r) 10"

function runs_of :: "utext \<Rightarrow> (utext \<times> nat) list" where
  "runs_of t =
     (let start = dropWhile (\<lambda>c. c = 10) t;
          at_end = dropWhile (\<lambda>c. c \<noteq> 10) start
      in if at_end = [] then []
         else (takeWhile (\<lambda>c. c \<noteq> 10) start, length (takeWhile (\<lambda>c. c = 10) at_end))
           # runs_of (dropWhile (\<lambda>c. c = 10) at_end))"
  by pat_completeness auto

termination
proof (relation "measure length")
  fix t start at_end :: utext
  assume h: "start = dropWhile (\<lambda>c. c = 10) t" "at_end = dropWhile (\<lambda>c. c \<noteq> 10) start" "at_end \<noteq> []"
  then have "hd at_end = 10"
    using hd_dropWhile [of "\<lambda>c. c \<noteq> 10" start] by auto
  then have "length (dropWhile (\<lambda>c. c = 10) at_end) < length at_end"
    using h(3) by (cases at_end) (auto intro: le_imp_less_Suc length_dropWhile_le)
  also have "\<dots> \<le> length t"
    using length_dropWhile_le [of "\<lambda>c. c \<noteq> 10" start] length_dropWhile_le [of "\<lambda>c. c = 10" t] h by simp
  finally show "(dropWhile (\<lambda>c. c = 10) at_end, t) \<in> measure length"
    by simp
qed simp

declare runs_of.simps [simp del]

lemma runs_of_end: "dropWhile (\<lambda>c. c \<noteq> 10) (dropWhile (\<lambda>c. c = 10) t) = [] \<Longrightarrow> runs_of t = []"
  by (subst runs_of.simps) (simp only: Let_def simp_thms if_True)

lemma runs_of_step:
  assumes "start = dropWhile (\<lambda>c. c = 10) t" "at_end = dropWhile (\<lambda>c. c \<noteq> 10) start" "at_end \<noteq> []"
  shows "runs_of t = (takeWhile (\<lambda>c. c \<noteq> 10) start, length (takeWhile (\<lambda>c. c = 10) at_end))
           # runs_of (dropWhile (\<lambda>c. c = 10) at_end)"
  using assms(3) unfolding assms(1,2) by (subst runs_of.simps) (simp only: Let_def if_False)

lemma takeWhile_dropWhile: "takeWhile p (dropWhile p xs) = []"
  by (induction xs) simp_all

lemma feeds [simp]:
  "dropWhile (\<lambda>c. c = 10) (replicate l 10 @ q) = dropWhile (\<lambda>c. c = 10) q"
  "takeWhile (\<lambda>c. c = 10) (replicate l 10 @ q) = replicate l 10 @ takeWhile (\<lambda>c. c = 10) q"
  by (induction l) simp_all

lemma take_feeds: "takeWhile (\<lambda>c. c = 10) t = replicate (length (takeWhile (\<lambda>c. c = 10) t)) (10::nat)"
  by (induction t) simp_all

lemma split_feeds: "t = replicate (length (takeWhile (\<lambda>c. c = 10) t)) (10::nat) @ dropWhile (\<lambda>c. c = 10) t"
  by (induction t) simp_all

lemma runs_of_lead: "runs_of (replicate l 10 @ q) = runs_of q"
  by (subst (1 2) runs_of.simps) simp

lemma no_feed:
  assumes "10 \<notin> set x" "q = [] \<or> hd q = 10"
  shows "takeWhile (\<lambda>c. c \<noteq> 10) (x @ q) = x" "dropWhile (\<lambda>c. c \<noteq> 10) (x @ q) = q"
proof -
  have "takeWhile (\<lambda>c. c \<noteq> 10) q = []" "dropWhile (\<lambda>c. c \<noteq> 10) q = q"
    using assms(2) by (cases q; simp)+
  then show "takeWhile (\<lambda>c. c \<noteq> 10) (x @ q) = x" "dropWhile (\<lambda>c. c \<noteq> 10) (x @ q) = q"
    using assms(1) by (auto simp: takeWhile_append dropWhile_append)
qed

lemma runs_of_block:
  assumes "is_run r" "q = [] \<or> hd q \<noteq> 10"
  shows "runs_of (render r @ q) = r # runs_of q"
proof -
  obtain x n where r: "r = (x, n)" by (cases r)
  have x: "dropWhile (\<lambda>c. c = 10) (x @ s) = x @ s" for s
    using assms(1) by (cases x) (auto simp: is_run_def r)
  have q: "dropWhile (\<lambda>c. c = 10) q = q" "takeWhile (\<lambda>c. c = 10) q = []"
    using assms(2) by (cases q; simp)+
  have "replicate n 10 @ q \<noteq> []" "hd (replicate n 10 @ q) = (10::nat)"
    using assms(1) by (cases n; simp add: is_run_def r)+
  then show ?thesis
    using assms(1) by (subst runs_of.simps) (simp add: render_def r x no_feed q is_run_def)
qed

lemma runs_of_line: "10 \<notin> set x \<Longrightarrow> runs_of x = []"
proof -
  assume x: "10 \<notin> set x"
  then have "dropWhile (\<lambda>c. c \<noteq> 10) (dropWhile (\<lambda>c. c = 10) x) = []"
    by (auto dest: set_dropWhileD)
  then show ?thesis by (rule runs_of_end)
qed

text \<open>Every text is of that form.\<close>


lemma text_form:
  "\<exists>tail. t = takeWhile (\<lambda>c. c = 10) t @ concat (map render (runs_of t)) @ tail \<and> 10 \<notin> set tail
     \<and> list_all is_run (runs_of t)"
proof (induction t rule: runs_of.induct)
  case (1 t)
  define start where "start = dropWhile (\<lambda>c. c = 10) t"
  define at_end where "at_end = dropWhile (\<lambda>c. c \<noteq> 10) start"
  define rest where "rest = dropWhile (\<lambda>c. c = 10) at_end"
  have t: "t = takeWhile (\<lambda>c. c = 10) t @ start"
    by (simp add: start_def)
  have s: "start = takeWhile (\<lambda>c. c \<noteq> 10) start @ at_end"
    by (simp add: at_end_def)
  show ?case
  proof (cases "at_end = []")
    case True
    then have "runs_of t = []"
      unfolding start_def at_end_def by (rule runs_of_end)
    moreover have "10 \<notin> set start"
      using True by (auto simp: at_end_def)
    ultimately show ?thesis
      using t by auto
  next
    case False
    let ?r = "(takeWhile (\<lambda>c. c \<noteq> 10) start, length (takeWhile (\<lambda>c. c = 10) at_end))"
    have runs: "runs_of t = ?r # runs_of rest"
      unfolding rest_def by (rule runs_of_step [OF start_def at_end_def False])
    obtain tail where tail: "rest = takeWhile (\<lambda>c. c = 10) rest @ concat (map render (runs_of rest)) @ tail"
        "10 \<notin> set tail" "list_all is_run (runs_of rest)"
      using 1 [OF start_def at_end_def False] by (auto simp: rest_def)
    have r: "rest = concat (map render (runs_of rest)) @ tail"
      using tail(1) takeWhile_dropWhile [of "\<lambda>c. c = 10" at_end] by (simp add: rest_def [symmetric])
    have feeds: "at_end = replicate (length (takeWhile (\<lambda>c. c = 10) at_end)) 10 @ rest"
      unfolding rest_def by (rule split_feeds)
    have "t = takeWhile (\<lambda>c. c = 10) t @ render ?r @ rest"
      using t s feeds unfolding render_def fst_conv snd_conv append_assoc by metis
    also have "render ?r @ rest = concat (map render (runs_of t)) @ tail"
      unfolding runs list.map concat.simps append_assoc by (subst r) (rule refl)
    finally have "t = takeWhile (\<lambda>c. c = 10) t @ concat (map render (runs_of t)) @ tail" .
    moreover have "is_run ?r"
    proof -
      have "hd at_end = 10"
        using hd_dropWhile [of "\<lambda>c. c \<noteq> 10" start] False by (auto simp: at_end_def)
      then have "takeWhile (\<lambda>c. c = 10) at_end \<noteq> []"
        using False by (cases at_end) auto
      moreover have "takeWhile (\<lambda>c. c \<noteq> 10) start \<noteq> []"
      proof
        assume e: "takeWhile (\<lambda>c. c \<noteq> 10) start = []"
        then have "start \<noteq> []" "hd start = 10"
          using s False \<open>hd at_end = 10\<close> by auto
        then show False
          using hd_dropWhile [of "\<lambda>c. c = 10" t] by (auto simp: start_def)
      qed
      ultimately show ?thesis
        by (auto simp: is_run_def dest: set_takeWhileD)
    qed
    ultimately show ?thesis
      using tail(2,3) by (auto simp: runs)
  qed
qed

text \<open>A text that ends a line comes before the runs of the rest.\<close>

lemma runs_of_concat:
  "list_all is_run rs \<Longrightarrow> q = [] \<or> hd q \<noteq> 10 \<Longrightarrow> runs_of (concat (map render rs) @ q) = rs @ runs_of q"
proof (induction rs)
  case (Cons r rs)
  have "concat (map render rs) @ q = [] \<or> hd (concat (map render rs) @ q) \<noteq> 10"
  proof (cases rs)
    case (Cons s ss)
    then have "is_run s" using Cons.prems by simp
    then show ?thesis
      by (cases "fst s") (auto simp: Cons render_def is_run_def)
  qed (use Cons.prems in simp)
  then show ?case
    using Cons by (simp add: runs_of_block)
qed simp

section \<open>Windows\<close>

fun has_window :: "(utext \<times> nat) list \<Rightarrow> bool" where
  "has_window [] = False"
| "has_window (r # rs) \<longleftrightarrow> window_repeats (take 6 (r # rs)) \<or> has_window rs"

lemma has_window_iff: "has_window rs \<longleftrightarrow> (\<exists>a w b. rs = a @ w @ b \<and> window_repeats w)"
proof (induction rs)
  case (Cons r rs)
  show ?case
  proof
    assume "has_window (r # rs)"
    then consider "window_repeats (take 6 (r # rs))" | "has_window rs" by auto
    then show "\<exists>a w b. r # rs = a @ w @ b \<and> window_repeats w"
    proof cases
      case 1
      then show ?thesis
        by (metis append_Nil append_take_drop_id)
    next
      case 2
      then show ?thesis
        unfolding Cons by (metis append_Cons)
    qed
  next
    assume "\<exists>a w b. r # rs = a @ w @ b \<and> window_repeats w"
    then obtain a w b where e: "r # rs = a @ w @ b" "window_repeats w" by blast
    show "has_window (r # rs)"
    proof (cases a)
      case Nil
      then have "take 6 (r # rs) = w"
        by (subst e(1)) (use e(2) in \<open>simp add: window_repeats_def\<close>)
      then show ?thesis using e(2) by (simp only: has_window.simps simp_thms)
    next
      case (Cons x xs)
      then show ?thesis
        using e Cons.IH by (auto simp del: take_Suc_Cons)
    qed
  qed
qed (simp add: window_repeats_def)

lemma has_window_tl: "length w = 6 \<Longrightarrow> \<not> window_repeats w \<Longrightarrow> has_window (w @ rs) = has_window (tl w @ rs)"
  by (cases w) simp_all

lemma short_window: "length rs < 6 \<Longrightarrow> \<not> has_window rs"
  by (induction rs) (auto simp: window_repeats_def)

lemma scan_runs_step:
  assumes "start = dropWhile (\<lambda>c. c = 10) t" "at_end = dropWhile (\<lambda>c. c \<noteq> 10) start" "at_end \<noteq> []" "t \<noteq> []"
    "runs' = (if length runs = 6 then tl runs else runs)
       @ [(takeWhile (\<lambda>c. c \<noteq> 10) start, length (takeWhile (\<lambda>c. c = 10) at_end))]"
  shows "scan_runs runs t = (window_repeats runs' \<or> scan_runs runs' (dropWhile (\<lambda>c. c = 10) at_end))"
  using assms(3,4) unfolding assms(1,2,5)
  by (subst scan_runs.simps) (simp only: Let_def if_False if_bool_eq_disj simp_thms, blast)

lemma scan_runs_windows:
  "length runs \<le> 6 \<Longrightarrow> scan_runs runs t = has_window ((if length runs = 6 then tl runs else runs) @ runs_of t)"
proof (induction runs t rule: scan_runs.induct)
  case (1 runs t)
  define start where "start = dropWhile (\<lambda>c. c = 10) t"
  define at_end where "at_end = dropWhile (\<lambda>c. c \<noteq> 10) start"
  define kept where "kept = (if length runs = 6 then tl runs else runs)"
  have k: "length kept < 6"
    using 1(2) by (auto simp: kept_def)
  show ?case
  proof (cases "at_end = []")
    case True
    then have "runs_of t = []"
      unfolding start_def at_end_def by (rule runs_of_end)
    moreover have "\<not> scan_runs runs t"
      by (subst scan_runs.simps)
        (simp only: Let_def start_def [symmetric] at_end_def [symmetric] True if_True simp_thms if_cancel)
    ultimately show ?thesis
      using short_window [OF k] by (simp add: kept_def)
  next
    case False
    let ?r = "(takeWhile (\<lambda>c. c \<noteq> 10) start, length (takeWhile (\<lambda>c. c = 10) at_end))"
    let ?rest = "dropWhile (\<lambda>c. c = 10) at_end"
    have t: "t \<noteq> []"
      using False by (auto simp: at_end_def start_def)
    have runs: "runs_of t = ?r # runs_of ?rest"
      by (rule runs_of_step [OF start_def at_end_def False])
    have scan: "scan_runs runs t \<longleftrightarrow> window_repeats (kept @ [?r]) \<or> scan_runs (kept @ [?r]) ?rest"
      unfolding kept_def by (rule scan_runs_step [OF start_def at_end_def False t refl])
    show ?thesis
    proof (cases "window_repeats (kept @ [?r])")
      case True
      have "has_window (kept @ [?r] @ runs_of ?rest)"
        unfolding has_window_iff using True by (metis append_Nil append_assoc)
      then show ?thesis
        using scan True by (simp add: runs kept_def)
    next
      case no: False
      let ?next = "if length (kept @ [?r]) = 6 then tl (kept @ [?r]) else kept @ [?r]"
      have "scan_runs (kept @ [?r]) ?rest = has_window (?next @ runs_of ?rest)"
        by (rule 1(1) [OF t start_def refl at_end_def False refl]) (use no k in \<open>auto simp: kept_def\<close>)
      also have "\<dots> = has_window ((kept @ [?r]) @ runs_of ?rest)"
        using has_window_tl [OF _ no, of "runs_of ?rest"] by simp
      finally show ?thesis
        using scan no by (simp add: runs kept_def)
    qed
  qed
qed

lemma replicate6: "replicate 6 x = [x, x, x, x, x, x]"
  by (simp add: numeral_eq_Suc)

lemma window_cases:
  assumes "window_repeats w"
  obtains l x k j where "w = [(l @ x, k), (x, k), (x, k), (x, k), (x, k), (x, k + j)]"
proof -
  obtain a b c d e f where w: "w = [a, b, c, d, e, f]"
    using assms by (auto simp: window_repeats_def length_Suc_conv numeral_eq_Suc)
  then obtain l where "fst a = l @ fst b"
    using assms by (auto simp: window_repeats_def suffix_def Let_def)
  then have "w = [(l @ fst b, snd a), (fst b, snd a), (fst b, snd a), (fst b, snd a), (fst b, snd a),
      (fst b, snd a + (snd f - snd a))]"
    using assms by (auto simp: w window_repeats_def Let_def numeral_eq_Suc prod_eq_iff)
  then show ?thesis
    by (rule that)
qed

lemma window_repeatsI: "window_repeats [(l @ x, k), (x, k), (x, k), (x, k), (x, k), (x, k + j)]"
  by (simp add: window_repeats_def suffix_def)

lemma repeats_iff: "repeated_line_runs t \<longleftrightarrow> repeats t"
proof
  assume "repeated_line_runs t"
  then have "has_window (runs_of t)"
    by (simp add: repeated_line_runs_def scan_runs_windows)
  then obtain a w b where w: "runs_of t = a @ w @ b" "window_repeats w"
    by (auto simp: has_window_iff)
  then obtain l x k j where x: "w = [(l @ x, k), (x, k), (x, k), (x, k), (x, k), (x, k + j)]"
    using window_cases by metis
  obtain tail where tail: "t = takeWhile (\<lambda>c. c = 10) t @ concat (map render (a @ w @ b)) @ tail" "list_all is_run (a @ w @ b)"
    using text_form [of t] by (auto simp: w(1))
  have "t = (takeWhile (\<lambda>c. c = 10) t @ concat (map render a) @ l) @ concat (replicate 6 (x @ replicate k 10))
      @ replicate j 10 @ concat (map render b) @ tail"
    by (subst tail(1)) (simp add: x render_def replicate6 replicate_add)
  moreover have "x \<noteq> []" "10 \<notin> set x" "0 < k"
    using tail(2) by (simp_all add: x is_run_def)
  ultimately show "repeats t"
    unfolding repeats_def by blast
next
  assume "repeats t"
  then obtain before x k after where t: "t = before @ concat (replicate 6 (x @ replicate k 10)) @ after"
      "x \<noteq> []" "10 \<notin> set x" "0 < k"
    by (auto simp: repeats_def)
  define j where "j = length (takeWhile (\<lambda>c. c = 10) after)"
  define q where "q = dropWhile (\<lambda>c. c = 10) after"
  have a: "after = replicate j 10 @ q"
    unfolding j_def q_def by (rule split_feeds)
  have q: "q = [] \<or> hd q \<noteq> 10"
    using hd_dropWhile [of "\<lambda>c. c = 10" after] by (auto simp: q_def)
  obtain l where l: "before = takeWhile (\<lambda>c. c = 10) before @ concat (map render (runs_of before)) @ l" "10 \<notin> set l"
      "list_all is_run (runs_of before)"
    using text_form by blast
  let ?w = "[(l @ x, k), (x, k), (x, k), (x, k), (x, k), (x, k + j)]"
  have "t = takeWhile (\<lambda>c. c = 10) before @ concat (map render (runs_of before @ ?w)) @ q"
    unfolding t(1) a by (subst l(1)) (simp add: render_def replicate6 replicate_add)
  moreover have "takeWhile (\<lambda>c. c = 10) before = replicate (length (takeWhile (\<lambda>c. c = 10) before)) 10"
    by (rule take_feeds)
  moreover have "list_all is_run (runs_of before @ ?w)"
    using l t by (simp add: is_run_def)
  ultimately have "runs_of t = (runs_of before @ ?w) @ runs_of q"
    by (metis runs_of_lead runs_of_concat q)
  then have "has_window (runs_of t)"
    unfolding has_window_iff using window_repeatsI by (metis append_assoc)
  then show "repeated_line_runs t"
    by (simp add: repeated_line_runs_def scan_runs_windows)
qed

lemma entities_plain: "\<not> list_ex (\<lambda>c. c \<in> {38, 60, 62, 34, 39}) t \<Longrightarrow> source_html_entities t = t"
  by (induction t) (simp_all add: source_html_entities_def entity_def)

theorem repeated_lines_iff: "repeated_lines t \<longleftrightarrow> 6 < count_list t 10 \<and> repeats (source_html_entities t)"
  using entities_plain [of t] by (auto simp: repeated_lines_def repeats_iff not_le)

end
