(* ===== verification/PreparationFacts.thy ===== *)
theory PreparationFacts
  imports CommentPreparation
begin

text \<open>
  What a prepared comment is: the stages return, add only known characters, and leave the bounds the
  checks ask for. \<open>calm\<close> is the promise of the collapse of blank lines.
\<close>

section \<open>Searches\<close>

lemma match_indices_bounds:
  "i \<in> set (match_indices t p k) \<Longrightarrow> k \<le> i \<and> i + length p \<le> length t"
proof (induction t p k rule: match_indices.induct)
  case (1 t p k)
  show ?case
  proof (cases "length t \<le> k \<or> p = []")
    case True
    then show ?thesis using 1(3) by (subst (asm) match_indices.simps) simp
  next
    case False
    then show ?thesis
      using 1 by (subst (asm) (3) match_indices.simps) (force simp: occurs_at_def split: if_split_asm)
  qed
qed

lemma byte_offset_mono: "i \<le> j \<Longrightarrow> byte_offset t i \<le> byte_offset t j"
  unfolding byte_offset_def byte_length_def
  by (metis le_add_diff_inverse take_add map_append sum_list_append le_add1)

lemma set_slice_subset: "set (slice_of i j xs) \<subseteq> set xs"
  unfolding slice_of_def by (meson in_set_dropD in_set_takeD subsetI)

lemma cut_within: "i \<le> j \<Longrightarrow> j \<le> length xs \<Longrightarrow> cut i j xs = Inr (slice_of i j xs)"
  by (simp add: cut_def)

section \<open>The stages return\<close>

lemma spoiler_step_returns:
  assumes "set result \<subseteq> set line" "copied \<le> length line" "byte_offset line copied \<le> consumed"
    and closes: "\<And>i. i \<in> set closes \<Longrightarrow> i + 10 \<le> length line" and start: "start \<le> length line"
  shows "returns (spoiler_step line closes (result, copied, consumed) start)
    (\<lambda>(result, copied, consumed). set result \<subseteq> set line \<and> copied \<le> length line \<and> byte_offset line copied \<le> consumed)"
proof (cases "byte_offset line start \<le> consumed \<or> source_space (line ! (start - 1))")
  case True
  have "start \<noteq> 0" if "\<not> byte_offset line start \<le> consumed"
    using that by (cases start) (simp_all add: byte_offset_def byte_length_def)
  then show ?thesis
    using True assms by (auto simp: spoiler_step_def)
next
  case False
  define index where "index = length (takeWhile (\<lambda>close. close < start + 9) closes)"
  have pos: "start \<noteq> 0" "copied \<le> start"
  proof -
    show "start \<noteq> 0"
      using False by (cases start) (auto simp: byte_offset_def byte_length_def)
    show "copied \<le> start"
      using False assms(3) byte_offset_mono [of start copied line] by (cases "copied \<le> start") auto
  qed
  show ?thesis
  proof (cases "index < length closes")
    case True
    have "\<not> closes ! index < start + 9"
      unfolding index_def by (rule nth_length_takeWhile) (use True in \<open>simp add: index_def\<close>)
    moreover have "closes ! index + 10 \<le> length line"
      using closes True by simp
    ultimately have "cut copied start line = (Inr (slice_of copied start line) :: utext run)"
        "cut (start + 9) (closes ! index) line = (Inr (slice_of (start + 9) (closes ! index) line) :: utext run)"
      using pos(2) start by (auto intro!: cut_within)
    then show ?thesis
      using False pos(1) True assms(1) start set_slice_subset \<open>closes ! index + 10 \<le> length line\<close>
      by (auto simp: spoiler_step_def index_def [symmetric] Let_def subset_iff dest: subsetD [OF set_slice_subset])
  next
    case no: False
    then show ?thesis
      using False pos(1) assms by (auto simp: spoiler_step_def index_def [symmetric] Let_def)
  qed
qed

lemma spoiler_steps_return:
  assumes "set result \<subseteq> set line \<and> copied \<le> length line \<and> byte_offset line copied \<le> consumed"
    and "\<And>i. i \<in> set closes \<Longrightarrow> i + 10 \<le> length line" "\<And>i. i \<in> set starts \<Longrightarrow> i \<le> length line"
  shows "returns (foldE (spoiler_step line closes) (result, copied, consumed) starts)
    (\<lambda>(result, copied, consumed). set result \<subseteq> set line \<and> copied \<le> length line \<and> byte_offset line copied \<le> consumed)"
  using assms
proof (induction starts arbitrary: result copied consumed)
  case (Cons start starts)
  have "returns (spoiler_step line closes (result, copied, consumed) start)
    (\<lambda>(result, copied, consumed). set result \<subseteq> set line \<and> copied \<le> length line \<and> byte_offset line copied \<le> consumed)"
    using Cons.prems by (intro spoiler_step_returns) auto
  then show ?case
    using Cons by (auto intro!: returns_bindE)
qed simp

lemma clean_line_returns: "returns (clean_line line) (\<lambda>t. set t \<subseteq> set line)"
proof -
  let ?closes = "filter (\<lambda>i. i + 10 < length line \<and> \<not> source_space (line ! (i + 10))) (match_indices line (lit ''[/spoiler]'') 0)"
  have "returns (foldE (spoiler_step line ?closes) ([], 0, 0) (match_indices line (lit ''[spoiler]'') 0))
    (\<lambda>(result, copied, consumed). set result \<subseteq> set line \<and> copied \<le> length line \<and> byte_offset line copied \<le> consumed)"
    by (rule spoiler_steps_return) (auto simp: byte_offset_def byte_length_def dest!: match_indices_bounds)
  then show ?thesis
    unfolding clean_line_def Let_def
    by (rule returns_bindE) (auto simp: cut_within dest: subsetD [OF set_slice_subset])
qed

lemma split_inclusive_set: "line \<in> set (split_inclusive t) \<Longrightarrow> set line \<subseteq> set t"
proof (induction t arbitrary: line)
  case (Cons c t)
  then show ?case
    by (cases "split_inclusive t") (fastforce split: if_split_asm)+
qed simp

lemma remove_intra_spoilers_returns: "returns (remove_intra_spoilers t) (\<lambda>u. set u \<subseteq> set t)"
proof -
  have "returns (foldE (\<lambda>result line. bindE (clean_line line) (\<lambda>cleaned. Inr (result @ cleaned))) result lines)
      (\<lambda>u. set u \<subseteq> set t)" if "set result \<subseteq> set t" "\<And>line. line \<in> set lines \<Longrightarrow> set line \<subseteq> set t" for result lines
    using that
  proof (induction lines arbitrary: result)
    case (Cons line lines)
    obtain u where u: "clean_line line = Inr u" "set u \<subseteq> set line"
      using clean_line_returns [of line] by (auto simp: returns_def)
    moreover have "set line \<subseteq> set t"
      by (rule Cons.prems(2)) simp
    ultimately have "set (result @ u) \<subseteq> set t"
      using Cons.prems(1) by auto
    then show ?case
      using Cons u by simp
  qed simp
  then show ?thesis
    unfolding remove_intra_spoilers_def using split_inclusive_set by simp
qed

lemma requote_returns:
  assumes "copied \<le> cursor" "cursor \<le> length t" "\<And>r. result = Some r \<Longrightarrow> set r \<subseteq> insert 62 (set t)"
  shows "returns (requote t board result copied cursor)
    (\<lambda>(result, copied). copied \<le> length t \<and> (\<forall>r. result = Some r \<longrightarrow> set r \<subseteq> insert 62 (set t)))"
  using assms
proof (induction t board result copied cursor rule: requote.induct)
  case (1 t board result copied cursor)
  let ?rest = "slice_of cursor (length t) t"
  have c: "cut cursor (length t) t = (Inr ?rest :: utext run)"
    using 1(4) by (simp add: cut_within)
  show ?case
  proof (cases "find_text ?rest (board_prefix board)")
    case None
    then show ?thesis
      using 1(3-) by (subst requote.simps) (auto simp: c)
  next
    case (Some offset)
    let ?start = "cursor + offset" and ?past = "cursor + offset + length (board_prefix board)"
    have b: "?past \<le> length t"
      using find_text_bounds [OF Some] 1(4) by (simp add: length_slice_of)
    show ?thesis
    proof (cases "?past < length t \<and> ascii_digit (t ! ?past)")
      case True
      define part where "part = slice_of copied ?start t"
      have p: "cut copied ?start t = (Inr part :: utext run)"
        using 1(3) b by (simp add: cut_within part_def)
      have "set part \<subseteq> set t"
        by (simp add: part_def set_slice_subset)
      then have "returns (requote t board (Some ((case result of None \<Rightarrow> [] | Some r \<Rightarrow> r) @ part @ lit ''>>'')) ?past ?past)
          (\<lambda>(result, copied). copied \<le> length t \<and> (\<forall>r. result = Some r \<longrightarrow> set r \<subseteq> insert 62 (set t)))"
        using 1(5) b by (intro 1(1) [OF c Some refl refl True p]) (fastforce simp: lit_def split: option.split)+
      then show ?thesis
        using True by (subst requote.simps) (simp add: c Some p Let_def)
    next
      case False
      have "returns (requote t board result copied ?past)
          (\<lambda>(result, copied). copied \<le> length t \<and> (\<forall>r. result = Some r \<longrightarrow> set r \<subseteq> insert 62 (set t)))"
        using 1(3-) b by (intro 1(2) [OF c Some refl refl False]) auto
      then show ?thesis
        using False by (subst requote.simps) (auto simp: c Some Let_def)
    qed
  qed
qed

lemma same_board_quotes_returns: "returns (same_board_quotes t board) (\<lambda>u. set u \<subseteq> insert 62 (set t))"
proof (cases "parse_board board")
  case (Inr b)
  have "returns (requote t b None 0 0) (\<lambda>(result, copied). copied \<le> length t \<and> (\<forall>r. result = Some r \<longrightarrow> set r \<subseteq> insert 62 (set t)))"
    by (rule requote_returns) auto
  then show ?thesis
    unfolding same_board_quotes_def Inr sum.case
    by (rule returns_bindE)
      (auto simp: cut_within split: option.split dest: subsetD [OF set_slice_subset])
qed (auto simp: same_board_quotes_def)

interpretation spoilers: text_stage remove_intra_spoilers "{}"
  by unfold_locales (use remove_intra_spoilers_returns in simp)

interpretation quotes: text_stage "\<lambda>t. same_board_quotes t board" "{62}" for board
  by unfold_locales (use same_board_quotes_returns in simp)

section \<open>What the stages keep\<close>

lemma line_ends_spec: "13 \<notin> set (line_ends t) \<and> set (line_ends t) \<subseteq> insert 10 (set t)"
proof (induction "length t" arbitrary: t rule: less_induct)
  case less
  show ?case
  proof (cases t)
    case (Cons c u)
    show ?thesis
    proof (cases u)
      case (Cons d v)
      then show ?thesis
        using less [of u] less [of v] \<open>t = c # u\<close> by (auto simp: line_ends.simps(2) [of c "d # v"] simp del: line_ends.simps(2))
    qed (simp add: Cons)
  qed simp
qed

lemma normalized_no_cr: "normalize_comment_with_limits t l = Inr u \<Longrightarrow> 13 \<notin> set u"
  using line_ends_spec by (auto simp: normalize_comment_with_limits_def split: if_split_asm)

lemma before_spacing_set:
  assumes "c \<in> set (before_spacing t spacing)"
  shows "\<exists>d\<in>set t. c = d \<or> c = similar_to_ascii d"
  using assms by (auto simp: before_spacing_def Let_def split: if_split_asm)

lemma set_trim: "set (trim_matches p t) \<subseteq> set t"
  by (auto simp: trim_matches_def dest!: set_dropWhileD)

lemma sanitize_spacing_set: "set (sanitize_spacing t spacing) \<subseteq> insert 32 (set t - {9})"
proof -
  have "set (fst (foldl (space_step spacing) (u, b) t)) \<subseteq> insert 32 (set u \<union> set t - {9})"
    if "9 \<notin> set u" for u b
    using that
  proof (induction t arbitrary: u b)
    case Nil
    then show ?case by auto
  next
    case (Cons c t)
    have "9 \<notin> set (fst (space_step spacing (u, b) c)) \<and> set (fst (space_step spacing (u, b) c)) \<subseteq> insert 32 (insert c (set u))"
      using Cons.prems by (auto simp: space_step_def Let_def lit_def split: if_split_asm)
    then show ?case
      using Cons.IH [of "fst (space_step spacing (u, b) c)" "snd (space_step spacing (u, b) c)"] by fastforce
  qed
  from this [of "[]" False] show ?thesis
    using set_trim by (fastforce simp: sanitize_spacing_def)
qed

lemma blank_run_suffix: "suffix (fst (blank_run t count)) t"
proof (induction t count rule: blank_run.induct)
  case (1 t count)
  then show ?case
    by (subst blank_run.simps) (auto split: option.split intro: suffix_order.trans suffix_drop)
qed

section \<open>Blank lines\<close>

abbreviation blank_text :: "utext \<Rightarrow> bool" where
  "blank_text t \<equiv> list_all (\<lambda>c. c = 32 \<or> c = 0x3000) t"

lemma position_feed: "10 \<notin> set p \<Longrightarrow> position (\<lambda>c. c = 10) (p @ 10 # t) = Some (length p)"
  by (induction p) auto

lemma no_position_feed: "10 \<notin> set t \<Longrightarrow> position (\<lambda>c. c = 10) t = None"
  by (auto simp: position_None)

text \<open>A text is a line, or a line, a line feed and a text.\<close>

lemma text_cases:
  fixes t :: utext
  obtains (line) "10 \<notin> set t" | (feed) p u where "10 \<notin> set p" "t = p @ 10 # u"
  by (metis split_list_first)

lemma blank_run_line: "10 \<notin> set t \<Longrightarrow> blank_run t n = (t, n)"
  by (subst blank_run.simps) (simp add: no_position_feed)

lemma blank_run_feed:
  "10 \<notin> set p \<Longrightarrow> blank_run (p @ 10 # t) n = (if blank_text p then blank_run t (n + 1) else (p @ 10 # t, n))"
  by (subst blank_run.simps) (simp add: position_feed)

lemma collapse_line: "10 \<notin> set t \<Longrightarrow> collapse_blank_lines t = t"
  by (subst collapse_blank_lines.simps) (simp add: no_position_feed)

lemma collapse_feed:
  "10 \<notin> set p \<Longrightarrow> collapse_blank_lines (p @ 10 # t) =
     p @ 10 # collapse_blank_lines (if 4 \<le> snd (blank_run t 1) then fst (blank_run t 1) else t)"
  by (subst collapse_blank_lines.simps) (simp add: position_feed split: prod.split)

lemma blank_run_count: "blank_run t n = (fst (blank_run t 0), n + snd (blank_run t 0))"
proof (induction "length t" arbitrary: t n rule: less_induct)
  case less
  show ?case
  proof (cases t rule: text_cases)
    case (feed p u)
    have "blank_run u m = (fst (blank_run u 0), m + snd (blank_run u 0))" for m
      using less [of u m] feed by simp
    from this [of "n + 1"] this [of 1] show ?thesis
      by (simp add: feed blank_run_feed)
  qed (simp add: blank_run_line)
qed

text \<open>The line feeds of the blank lines a text begins with.\<close>

definition blank_feeds :: "utext \<Rightarrow> nat" where
  "blank_feeds t = snd (blank_run t 0)"

lemma blank_feeds_simps:
  "10 \<notin> set t \<Longrightarrow> blank_feeds t = 0"
  "10 \<notin> set p \<Longrightarrow> blank_feeds (p @ 10 # t) = (if blank_text p then blank_feeds t + 1 else 0)"
  using blank_run_count [of t 1] by (simp_all add: blank_feeds_def blank_run_line blank_run_feed)

lemma blank_run_rest: "blank_feeds (fst (blank_run t n)) = 0 \<and> suffix (fst (blank_run t n)) t"
proof (induction "length t" arbitrary: t n rule: less_induct)
  case less
  show ?case
  proof (cases t rule: text_cases)
    case (feed p u)
    then show ?thesis
      using less [of u "n + 1"] by (simp add: blank_run_feed blank_feeds_simps suffix_appendI suffix_ConsI)
  qed (simp add: blank_run_line blank_feeds_simps)
qed

text \<open>No line feed is followed by three blank lines.\<close>

definition calm :: "utext \<Rightarrow> bool" where
  "calm t \<longleftrightarrow> (\<forall>before after. t = before @ 10 # after \<longrightarrow> blank_feeds after < 3)"

lemma calm_line: "10 \<notin> set t \<Longrightarrow> calm t"
  by (auto simp: calm_def)

lemma calm_feed: "10 \<notin> set p \<Longrightarrow> calm t \<Longrightarrow> blank_feeds t < 3 \<Longrightarrow> calm (p @ 10 # t)"
  unfolding calm_def by (auto simp: append_eq_append_conv2 append_eq_Cons_conv Cons_eq_append_conv)

lemma collapse_spec:
  "calm (collapse_blank_lines t) \<and> blank_feeds (collapse_blank_lines t) \<le> blank_feeds t
     \<and> set (collapse_blank_lines t) \<subseteq> set t"
proof (induction "length t" arbitrary: t rule: less_induct)
  case less
  show ?case
  proof (cases t rule: text_cases)
    case (feed p u)
    define v where "v = (if 4 \<le> snd (blank_run u 1) then fst (blank_run u 1) else u)"
    have s: "suffix v u" "suffix (fst (blank_run u 1)) u"
      using blank_run_rest [of u 1] by (auto simp: v_def)
    have v: "blank_feeds v \<le> blank_feeds u" "blank_feeds v < 3"
      using blank_run_rest [of u 1] blank_run_count [of u 1] by (auto simp: v_def blank_feeds_def)
    have IH: "calm (collapse_blank_lines v)" "blank_feeds (collapse_blank_lines v) \<le> blank_feeds v"
        "set (collapse_blank_lines v) \<subseteq> set v"
      using less [of v] suffix_length_le [OF s(1)] feed by auto
    then have "calm (p @ 10 # collapse_blank_lines v)"
      using calm_feed feed(1) v(2) by simp
    moreover have "set v \<subseteq> set u"
      using s(1) by (rule set_mono_suffix)
    moreover have "collapse_blank_lines t = p @ 10 # collapse_blank_lines v"
      by (simp add: feed(2) collapse_feed [OF feed(1)] v_def)
    ultimately show ?thesis
      using IH v by (auto simp: feed blank_feeds_simps)
  qed (simp add: collapse_line calm_line)
qed

section \<open>A prepared comment\<close>

theorem prepared_comment_spec:
  "safe (prepare_post_comment_with_limits name subject comment limits has_attachment spacing) (\<lambda>text.
     (\<forall>c\<in>set text. (c = 10 \<or> \<not> is_control c) \<and> c \<le> max_scalar)
     \<and> byte_length text \<le> prepared_bytes limits \<and> length text \<le> prepared_chars limits
     \<and> (has_attachment \<or> trim_matches is_whitespace text \<noteq> [])
     \<and> (is_authorized limits \<or> count_list text 10 \<le> max_lines spacing)
     \<and> (code_spacing spacing \<or> sjis_spacing spacing \<or> calm text))"
proof (cases "validate_post_with_limits name subject comment limits has_attachment")
  case (Inl e)
  then have "e \<noteq> Panicked"
    by (auto simp: validate_post_with_limits_def validate_field_def normalize_comment_with_limits_def result_simps
        split: if_split_asm)
  then show ?thesis
    by (cases e) (simp_all add: prepare_post_comment_with_limits_def Inl)
next
  case (Inr u)
  then obtain n where n: "normalize_comment_with_limits comment limits = Inr n" "\<not> list_ex bad_control n"
    by (auto simp: validate_post_with_limits_def result_simps split: if_split_asm)
  define b where "b = before_spacing n spacing"
  have start: "is_control c \<Longrightarrow> c = 10 \<or> c = 9" if "c \<in> set n" for c
    using that n(2) normalized_no_cr [OF n(1)] by (auto simp: list_ex_iff bad_control_def)
  have stripped: "is_control c \<Longrightarrow> c = 10 \<or> c = 9" if "c \<in> set b" for c
  proof -
    obtain d where d: "d \<in> set n" "c = d \<or> c = similar_to_ascii d"
      using before_spacing_set [OF \<open>c \<in> set b\<close> [unfolded b_def]] by blast
    show "is_control c \<Longrightarrow> c = 10 \<or> c = 9"
      using d(2) start [OF d(1)] similar_to_ascii_cases [of d] by (auto simp: is_control_def)
  qed
  obtain r where r: "(if spoiler_cleanup spacing then remove_intra_spoilers b else Inr b) = Inr r"
      "\<And>c. c \<in> set r \<Longrightarrow> is_control c \<Longrightarrow> c = 10 \<or> c = 9"
  proof (cases "spoiler_cleanup spacing")
    case True
    obtain u where "remove_intra_spoilers b = Inr u" "\<And>c. c \<in> set u \<Longrightarrow> is_control c \<longrightarrow> c = 10 \<or> c = 9"
      by (rule spoilers.stage_keeps [of b "\<lambda>c. is_control c \<longrightarrow> c = 10 \<or> c = 9"]) (use stripped in auto)
    then show ?thesis
      using True by (intro that [of u]) auto
  qed (use stripped that in simp)
  obtain q where q: "same_board_quotes r (on_board spacing) = Inr q"
      and quoted: "\<And>c. c \<in> set q \<Longrightarrow> is_control c \<Longrightarrow> c = 10 \<or> c = 9"
    by (rule quotes.stage_keeps [of r "\<lambda>c. is_control c \<longrightarrow> c = 10 \<or> c = 9" "on_board spacing"])
      (use r(2) in \<open>auto simp: is_control_def\<close>)
  define body where "body = filter (\<lambda>c. c \<le> max_scalar) (sanitize_spacing q spacing)"
  define final where "final = (if code_spacing spacing \<or> sjis_spacing spacing then body else collapse_blank_lines body)"
  have "(c = 10 \<or> \<not> is_control c) \<and> c \<le> max_scalar" if "c \<in> set body" for c
  proof -
    have "c = 32 \<or> (c \<in> set q \<and> c \<noteq> 9)" "c \<le> max_scalar"
      using that sanitize_spacing_set [of q spacing] by (auto simp: body_def)
    then show ?thesis
      using quoted [of c] by (auto simp: is_control_def)
  qed
  moreover have "set final \<subseteq> set body" "code_spacing spacing \<or> sjis_spacing spacing \<or> calm final"
    using collapse_spec [of body] by (auto simp: final_def)
  moreover have "prepare_post_comment_with_limits name subject comment limits has_attachment spacing =
      (if ordinary_checks limits \<and> repeated_lines body then Inl (Refused Spam)
       else if ordinary_checks limits \<and> count_list final 10 > max_lines spacing then Inl (Refused TooManyLines)
       else if (\<not> has_attachment \<and> trim_matches is_whitespace final = [])
           \<or> byte_length final > prepared_bytes limits \<or> length final > prepared_chars limits
       then Inl (Refused CommentLimit)
       else Inr final)"
    unfolding prepare_post_comment_with_limits_def Inr n(1) bindE_Inr Let_def b_def [symmetric] r(1) q(1)
      body_def [symmetric] final_def [symmetric] by (rule refl)
  ultimately show ?thesis
    by (simp add: ordinary_checks_def subset_iff not_less)
qed

end
