(* ===== verification/PostContent.thy ===== *)
theory PostContent
  imports CommentPreparation CommentMarkup
begin

text \<open>
  The fields of a post before it is stored: the subject (\<open>subject.rs\<close>) and the admission of subject
  and comment together (\<open>post_content.rs\<close>), over the prepared comment and its markup.
\<close>

section \<open>The subject\<close>

abbreviation hash_sign :: "scalar \<Rightarrow> bool" where
  "hash_sign c \<equiv> c = 35 \<or> c = 0xFF03"

text \<open>Runs of two or more hash signs go, and the place-of-interest sign.\<close>

function strip_fake_capcodes :: "utext \<Rightarrow> utext" where
  "strip_fake_capcodes [] = []"
| "strip_fake_capcodes (c # t) =
     (if hash_sign c then
        (if takeWhile hash_sign t = [] then [c] else []) @ strip_fake_capcodes (dropWhile hash_sign t)
      else if c \<noteq> 0x2318 then c # strip_fake_capcodes t
      else strip_fake_capcodes t)"
  by pat_completeness auto

termination
  by (relation "measure length") (auto intro: le_imp_less_Suc length_dropWhile_le)

definition prepare_post_subject_with_limits :: "utext \<Rightarrow> CommentSpacing \<Rightarrow> PostLimits \<Rightarrow> utext run" where
  "prepare_post_subject_with_limits raw spacing limits =
     bindE (validate_field limits raw) (\<lambda>_.
     if list_ex bad_control raw then Inl (Refused ControlCharacter)
     else
       let text = concat (map (\<lambda>c.
             if 0x2600 \<le> c \<and> c \<le> 0x26FF then []
             else
               let c = similar_to_ascii c in
               if zero_width c \<or> emoticon c (sjis_spacing spacing) then [] else [c]) raw);
           filtered = strip_fake_capcodes text;
           filtered = (if list_all (\<lambda>c. c \<in> {32, 124, 0x3000}) filtered then [] else filtered);
           result = filter (\<lambda>c. c \<noteq> 10 \<and> c \<noteq> 13 \<and> c \<le> max_scalar) (sanitize_spacing filtered spacing)
       in if byte_length result > subject_bytes limits then Inl (Refused FieldTooLong)
          else Inr result)"

section \<open>Subject and comment\<close>

datatype PostKind =
  Thread (staff_image_only: bool) (subject_required: bool) (text_only: bool)
| Reply

record PostContentInput =
  input_subject :: utext
  input_comment :: utext
  input_attachment :: bool
  input_markup :: MarkupPolicy
  input_kind :: PostKind
  input_limits :: PostLimits

record PreparedPostContent =
  content_subject :: utext
  content_comment :: utext

definition markup_policy :: "CommentSpacing \<Rightarrow> MarkupPolicy" where
  "markup_policy spacing =
     \<lparr>allow_spoilers = spoiler_cleanup spacing, allow_code = code_spacing spacing, allow_sjis = sjis_spacing spacing,
      allow_op = op_markup spacing\<rparr>"

text \<open>\<open>str::replace\<close> of a literal that is not empty by nothing.\<close>

function remove_text :: "utext \<Rightarrow> utext \<Rightarrow> utext" where
  "remove_text p t =
     (if t = [] then []
      else if p \<noteq> [] \<and> occurs_at t 0 p then remove_text p (drop (length p) t)
      else hd t # remove_text p (tl t))"
  by pat_completeness auto

termination
  by (relation "measure (\<lambda>(p, t). length t)") auto

declare remove_text.simps [simp del]

definition remove_source_markers :: "utext \<Rightarrow> utext" where
  "remove_source_markers t = remove_text (lit ''~?erep?~'') (remove_text (lit ''~?rep?~'') t)"

definition prepare_post_content_input_with_limits ::
  "utext \<Rightarrow> utext \<Rightarrow> utext \<Rightarrow> PostLimits \<Rightarrow> bool \<Rightarrow> CommentSpacing \<Rightarrow> PostKind \<Rightarrow> PostContentInput run" where
  "prepare_post_content_input_with_limits name subject comment limits has_attachment spacing kind =
     bindE (validate_post_with_limits name subject comment limits True) (\<lambda>_.
     bindE (prepare_post_subject_with_limits subject spacing limits) (\<lambda>subject.
     if (case kind of Thread _ required _ \<Rightarrow> required | Reply \<Rightarrow> False) \<and> subject = []
     then Inl (Refused SubjectRequired)
     else
       bindE (prepare_post_comment_with_limits name [] comment limits True spacing) (\<lambda>comment.
       Inr \<lparr>input_subject = subject, input_comment = remove_source_markers comment,
            input_attachment = has_attachment, input_markup = markup_policy spacing, input_kind = kind,
            input_limits = limits\<rparr>)))"

fun blank_token :: "MarkupToken \<Rightarrow> bool" where
  "blank_token TokenBreak = True"
| "blank_token (TokenText t) = list_all (\<lambda>c. c \<in> {32, 9, 10, 13, 11, 12}) t"
| "blank_token _ = False"

definition final_admission ::
  "utext \<Rightarrow> utext \<Rightarrow> bool \<Rightarrow> MarkupPolicy \<Rightarrow> PostKind \<Rightarrow> PostLimits \<Rightarrow> bool \<Rightarrow> PreparedPostContent run" where
  "final_admission subject comment has_attachment markup kind limits generated_content =
     bindE (if generated_content then Inr False
            else bindE (parse_markup_with_limits comment markup limits) (\<lambda>tokens. Inr (list_all blank_token tokens))) (\<lambda>blank.
     bindE (if blank then
              (case kind of
                 Thread image_only _ _ \<Rightarrow>
                   if subject = [] \<and> \<not> (image_only \<and> has_attachment) then Inl (Refused SubjectOrComment) else Inr ()
               | Reply \<Rightarrow> if \<not> has_attachment then Inl (Refused NoText) else Inr ())
            else Inr ()) (\<lambda>_.
     if (case kind of Thread _ _ only \<Rightarrow> only | Reply \<Rightarrow> False) \<and> subject = [] \<and> \<not> blank
     then Inl (Refused SubjectRequired)
     else Inr \<lparr>content_subject = subject, content_comment = comment\<rparr>))"

definition finish_content :: "PostContentInput \<Rightarrow> PreparedPostContent run" where
  "finish_content s = final_admission (input_subject s) (input_comment s) (input_attachment s) (input_markup s)
     (input_kind s) (input_limits s) False"

definition prepare_post_content_input ::
  "utext \<Rightarrow> utext \<Rightarrow> utext \<Rightarrow> nat \<Rightarrow> bool \<Rightarrow> CommentSpacing \<Rightarrow> PostKind \<Rightarrow> PostContentInput run" where
  "prepare_post_content_input name subject comment max_chars has_attachment spacing kind =
     prepare_post_content_input_with_limits name subject comment (ordinary max_chars) has_attachment spacing kind"

definition prepare_post_content ::
  "utext \<Rightarrow> utext \<Rightarrow> utext \<Rightarrow> nat \<Rightarrow> bool \<Rightarrow> CommentSpacing \<Rightarrow> PostKind \<Rightarrow> PreparedPostContent run" where
  "prepare_post_content name subject comment max_chars has_attachment spacing kind =
     bindE (prepare_post_content_input name subject comment max_chars has_attachment spacing kind) finish_content"

end
