(* ===== verification/PostFacts.thy ===== *)
theory PostFacts
  imports PostContent PreparationFacts MarkupFacts RepeatedLines
begin

text \<open>
  What an admitted post is: its subject and comment carry no control characters and stay within their
  bounds, the formatter reads the whole comment, and a blank comment is only admitted where the kind
  of post allows one.
\<close>

section \<open>The subject\<close>

lemma strip_fake_capcodes_set: "set (strip_fake_capcodes t) \<subseteq> set t"
  by (induction t rule: strip_fake_capcodes.induct) (auto dest!: set_dropWhileD)

lemma prepared_subject_spec:
  "safe (prepare_post_subject_with_limits raw spacing limits) (\<lambda>subject.
     (\<forall>c\<in>set subject. \<not> is_control c \<and> c \<le> max_scalar) \<and> byte_length subject \<le> subject_bytes limits)"
proof (cases "list_ex bad_control raw")
  case False
  define body where "body = concat (map (\<lambda>c.
             if 0x2600 \<le> c \<and> c \<le> 0x26FF then []
             else
               if zero_width (similar_to_ascii c) \<or> emoticon (similar_to_ascii c) (sjis_spacing spacing) then []
               else [similar_to_ascii c]) raw)"
  define kept where "kept = (if list_all (\<lambda>c. c \<in> {32, 124, 0x3000}) (strip_fake_capcodes body) then []
      else strip_fake_capcodes body)"
  define result where "result = filter (\<lambda>c. c \<noteq> 10 \<and> c \<noteq> 13 \<and> c \<le> max_scalar) (sanitize_spacing kept spacing)"
  have body: "is_control c \<Longrightarrow> c \<in> {10, 13, 9}" if c: "c \<in> set body" for c
  proof -
    obtain d where d: "d \<in> set raw" "c = similar_to_ascii d"
      using c by (auto simp: body_def split: if_split_asm)
    then show "is_control c \<Longrightarrow> c \<in> {10, 13, 9}"
      using False similar_to_ascii_cases [of d] by (auto simp: list_ex_iff bad_control_def is_control_def)
  qed
  have "\<not> is_control c \<and> c \<le> max_scalar" if c: "c \<in> set result" for c
  proof -
    have "c = 32 \<or> (c \<in> set kept \<and> c \<noteq> 9)" "c \<noteq> 10" "c \<noteq> 13" "c \<le> max_scalar"
      using c sanitize_spacing_set [of kept spacing] by (auto simp: result_def)
    moreover have "c \<in> set kept \<Longrightarrow> c \<in> set body"
      using strip_fake_capcodes_set [of body] by (auto simp: kept_def split: if_split_asm)
    ultimately show ?thesis
      using body [of c] by (auto simp: is_control_def)
  qed
  moreover have "prepare_post_subject_with_limits raw spacing limits =
      bindE (validate_field limits raw) (\<lambda>_. if byte_length result > subject_bytes limits then Inl (Refused FieldTooLong) else Inr result)"
    unfolding prepare_post_subject_with_limits_def if_not_P [OF False] Let_def body_def [symmetric] kept_def [symmetric]
      result_def [symmetric] by (rule refl)
  ultimately show ?thesis
    by (simp add: validate_field_def)
qed (simp add: prepare_post_subject_with_limits_def validate_field_def)

section \<open>Source markers\<close>

lemma remove_text_subseq: "subseq (remove_text p t) t"
proof (induction p t rule: remove_text.induct)
  case (1 p t)
  show ?case
  proof (cases "t = []")
    case True
    then show ?thesis by (subst remove_text.simps) simp
  next
    case False
    show ?thesis
    proof (cases "p \<noteq> [] \<and> occurs_at t 0 p")
      case True
      have "subseq (drop (length p) t) t"
        by (metis append_take_drop_id list_emb_append2 subseq_order.refl)
      then show ?thesis
        using 1(1) [OF False True] True False by (subst remove_text.simps) (auto intro: subseq_order.trans)
    next
      case no: False
      have "remove_text p t = hd t # remove_text p (tl t)"
        by (subst remove_text.simps) (simp only: False if_not_P [OF no] if_False)
      then show ?thesis
        using 1(2) [OF False no] False by (cases t) simp_all
    qed
  qed
qed

lemma remove_source_markers_subseq: "subseq (remove_source_markers t) t"
  unfolding remove_source_markers_def using remove_text_subseq subseq_order.trans by blast

lemma subseq_byte_length: "subseq u t \<Longrightarrow> byte_length u \<le> byte_length t"
  by (induction rule: list_emb.induct) (auto simp: byte_length_def)

section \<open>The post\<close>

text \<open>
  What a reader sees of a comment is judged on its HTML, as the original site does: a comment is
  blank when the HTML is nothing but ASCII whitespace and line breaks, \<open>^(\\s|<br>)*$\<close>.
\<close>

inductive blank_html :: "utext \<Rightarrow> bool" where
  blank_end: "blank_html []"
| blank_space: "c \<in> {32, 9, 10, 13, 11, 12} \<Longrightarrow> blank_html t \<Longrightarrow> blank_html (c # t)"
| blank_break: "blank_html t \<Longrightarrow> blank_html (lit ''<br>'' @ t)"

definition comment_html :: "MarkupToken list \<Rightarrow> utext" where
  "comment_html tokens = concat (map admission_atom (atoms_of tokens))"

lemma blank_html_Cons: "blank_html (c # t) \<longleftrightarrow>
    (c \<in> {32, 9, 10, 13, 11, 12} \<and> blank_html t) \<or> (c = 60 \<and> (\<exists>u. t = [98, 114, 62] @ u \<and> blank_html u))"
proof -
  have "lit ''<br>'' = [60, 98, 114, 62]"
    by (simp add: lit_def)
  then show ?thesis
    by (subst blank_html.simps) auto
qed

lemma blank_atom:
  "blank_html (admission_atom (Char c) @ t) \<longleftrightarrow> c \<in> {32, 9, 10, 13, 11, 12} \<and> blank_html t"
  "blank_html (admission_atom Break @ t) \<longleftrightarrow> blank_html t"
  "\<not> blank_html (admission_atom (Open u) @ t)" "\<not> blank_html (admission_atom (Close u) @ t)"
proof -
  show "blank_html (admission_atom (Char c) @ t) \<longleftrightarrow> c \<in> {32, 9, 10, 13, 11, 12} \<and> blank_html t"
    by (auto simp: source_html_entities_def entity_def lit_def blank_html_Cons split: if_splits)
  show "blank_html (admission_atom Break @ t) \<longleftrightarrow> blank_html t"
    by (simp add: lit_def blank_html_Cons)
  show "\<not> blank_html (admission_atom (Open u) @ t)" "\<not> blank_html (admission_atom (Close u) @ t)"
    by (cases u; simp add: lit_def blank_html_Cons)+
qed

lemma blank_text:
  "blank_html (concat (map admission_atom (map Char s)) @ t) \<longleftrightarrow> blank_token (TokenText s) \<and> blank_html t"
  by (induction s) (auto simp: blank_atom simp del: admission_atom.simps)

lemma blank_rendered: "blank_html (comment_html tokens) \<longleftrightarrow> list_all blank_token tokens"
proof (induction tokens)
  case Nil
  then show ?case by (simp add: comment_html_def blank_end)
next
  case (Cons k tokens)
  have "comment_html (k # tokens) = concat (map admission_atom (token_atoms k)) @ comment_html tokens"
    by (simp add: comment_html_def)
  then show ?case
    using Cons blank_text [of _ "comment_html tokens"] by (cases k) (simp_all add: blank_atom del: admission_atom.simps)
qed

definition shows_content :: "MarkupToken list \<Rightarrow> bool" where
  "shows_content tokens \<longleftrightarrow> \<not> blank_html (comment_html tokens)"

text \<open>What the kind of post asks for.\<close>

fun kind_allows :: "PostKind \<Rightarrow> bool \<Rightarrow> bool \<Rightarrow> bool \<Rightarrow> bool" where
  "kind_allows Reply attachment has_subject has_comment \<longleftrightarrow> attachment \<or> has_comment"
| "kind_allows (Thread image_only required only) attachment has_subject has_comment \<longleftrightarrow>
     has_subject \<or> (\<not> required \<and> (if has_comment then \<not> only else image_only \<and> attachment))"

text \<open>And with which error it refuses otherwise.\<close>

fun refusal :: "PostKind \<Rightarrow> bool \<Rightarrow> validation_error" where
  "refusal Reply has_comment = NoText"
| "refusal (Thread _ _ _) has_comment = (if has_comment then SubjectRequired else SubjectOrComment)"

definition field_ok :: "utext \<Rightarrow> bool" where
  "field_ok t \<longleftrightarrow> (\<forall>c\<in>set t. (c = 10 \<or> \<not> is_control c) \<and> c \<le> max_scalar)"

definition input_ok :: "PostContentInput \<Rightarrow> bool" where
  "input_ok s \<longleftrightarrow> field_ok (input_subject s) \<and> 10 \<notin> set (input_subject s)
     \<and> byte_length (input_subject s) \<le> subject_bytes (input_limits s)
     \<and> field_ok (input_comment s) \<and> byte_length (input_comment s) \<le> prepared_bytes (input_limits s)
     \<and> length (input_comment s) \<le> prepared_chars (input_limits s)
     \<and> (case input_kind s of Thread _ required _ \<Rightarrow> required \<longrightarrow> input_subject s \<noteq> [] | Reply \<Rightarrow> True)"

lemma prepare_input_spec:
  "safe (prepare_post_content_input_with_limits name subject comment limits has_attachment spacing kind) (\<lambda>s. input_ok s
     \<and> input_attachment s = has_attachment \<and> input_kind s = kind \<and> input_limits s = limits \<and> input_markup s = markup_policy spacing)"
proof -
  have v: "safe (validate_post_with_limits name subject comment limits True) (\<lambda>_. True)"
    by (auto simp: validate_post_with_limits_def validate_field_def normalize_comment_with_limits_def)
  have c: "safe (prepare_post_comment_with_limits name [] comment limits True spacing) (\<lambda>t. field_ok t
      \<and> byte_length t \<le> prepared_bytes limits \<and> length t \<le> prepared_chars limits)"
    by (rule safe_mono [OF prepared_comment_spec]) (simp add: field_ok_def)
  have m: "field_ok (remove_source_markers t) \<and> byte_length (remove_source_markers t) \<le> prepared_bytes limits
      \<and> length (remove_source_markers t) \<le> prepared_chars limits"
    if "field_ok t \<and> byte_length t \<le> prepared_bytes limits \<and> length t \<le> prepared_chars limits" for t
  proof -
    note s = remove_source_markers_subseq [of t]
    have "set (remove_source_markers t) \<subseteq> set t"
      using list_emb_set [OF s] by blast
    then have "field_ok (remove_source_markers t)"
      using that unfolding field_ok_def by blast
    moreover have "byte_length (remove_source_markers t) \<le> byte_length t" "length (remove_source_markers t) \<le> length t"
      using subseq_byte_length [OF s] list_emb_length [OF s] by simp_all
    ultimately show ?thesis
      using that by linarith
  qed
  show ?thesis
    unfolding prepare_post_content_input_with_limits_def
  proof (intro safe_bindE [OF v] safe_bindE [OF prepared_subject_spec], goal_cases)
    case (1 u title)
    then have title: "field_ok title" "10 \<notin> set title" "byte_length title \<le> subject_bytes limits"
      by (auto simp: field_ok_def is_control_def)
    show ?case
    proof (cases "(case kind of Thread _ required _ \<Rightarrow> required | Reply \<Rightarrow> False) \<and> title = []")
      case False
      have "safe (Inr \<lparr>input_subject = title, input_comment = remove_source_markers t,
            input_attachment = has_attachment, input_markup = markup_policy spacing, input_kind = kind,
            input_limits = limits\<rparr>) (\<lambda>s. input_ok s \<and> input_attachment s = has_attachment \<and> input_kind s = kind
              \<and> input_limits s = limits \<and> input_markup s = markup_policy spacing)"
        if "field_ok t \<and> byte_length t \<le> prepared_bytes limits \<and> length t \<le> prepared_chars limits" for t
        using title m [OF that] False by (cases kind) (simp_all add: input_ok_def)
      then show ?thesis
        unfolding if_not_P [OF False] by (rule safe_bindE [OF c])
    qed simp
  qed
qed

lemma finish_spec:
  assumes "input_ok s"
  shows "\<exists>tokens. parse_markup_with_limits (input_comment s) (input_markup s) (input_limits s) = Inr tokens
     \<and> subseq (chars_of (atoms_of tokens)) (map input_atom (input_comment s))
     \<and> (if kind_allows (input_kind s) (input_attachment s) (input_subject s \<noteq> []) (shows_content tokens)
        then finish_content s = Inr \<lparr>content_subject = input_subject s, content_comment = input_comment s\<rparr>
        else finish_content s = Inl (Refused (refusal (input_kind s) (shows_content tokens))))"
proof -
  obtain tokens where t: "parse_markup_with_limits (input_comment s) (input_markup s) (input_limits s) = Inr tokens"
      "subseq (chars_of (atoms_of tokens)) (map input_atom (take (prepared_chars (input_limits s)) (input_comment s)))"
    using parse_markup_spec by metis
  have "take (prepared_chars (input_limits s)) (input_comment s) = input_comment s"
    using assms by (simp add: input_ok_def)
  then show ?thesis
    using t assms
    by (intro exI [of _ tokens]) (auto simp: finish_content_def final_admission_def shows_content_def blank_rendered input_ok_def split: PostKind.split)
qed

end
