(* ===== verification/PostSamples.thy ===== *)
theory PostSamples
  imports PostFacts
begin

text \<open>A concrete comment on a concrete board, for the witnesses of the properties of posts.\<close>

definition sample_spacing :: CommentSpacing where
  "sample_spacing = for_board (lit ''a'') False False"

definition sample_comment :: utext where
  "sample_comment = lit ''hi''"

lemma sample_lits: "lit ''a'' = [97]" "lit ''hi'' = [104, 105]"
  by (simp_all add: lit_def)

lemma sample_fields: "spoiler_cleanup sample_spacing = False" "code_spacing sample_spacing = False"
  "sjis_spacing sample_spacing = False" "on_board sample_spacing = [97]" "max_lines sample_spacing = 70"
  by (simp_all add: sample_spacing_def for_board_def sample_lits)

lemma sample_valid: "validate_post_with_limits [] [] [104, 105] (ordinary 100) False = Inr ()"
  by (simp add: validate_post_with_limits_def validate_field_def ordinary_def byte_length_def normalize_comment_with_limits_def
    len_utf8_def bad_control_def is_control_def trim_matches_def is_whitespace_def in_ranges_def)

lemma sample_normalized: "normalize_comment_with_limits [104, 105] (ordinary 100) = Inr [104, 105]"
  by (simp add: normalize_comment_with_limits_def ordinary_def byte_length_def len_utf8_def)

lemma sample_stripped: "before_spacing [104, 105] sample_spacing = [104, 105]"
  by (simp add: before_spacing_def sample_spacing_def for_board_def in_ranges_def emoticon_def lit_def emoticon_ranges_def)

lemma sample_quotes: "same_board_quotes [104, 105] [97] = Inr [104, 105]"
  by (simp add: same_board_quotes_def requote.simps parse_board_def cut_def slice_of_def lit_def byte_length_def len_utf8_def
    ascii_digit_def find_text_def upt_rec numeral_eq_Suc occurs_at_def board_prefix_def)

lemma sample_spaced: "sanitize_spacing [104, 105] sample_spacing = [104, 105]"
  by (simp add: sanitize_spacing_def space_step_def sample_spacing_def for_board_def trim_matches_def)

lemma sample_collapsed: "collapse_blank_lines [104, 105] = [104, 105]"
  by (simp add: collapse_blank_lines.simps)

lemma sample_bounds: "\<not> repeated_lines [104, 105]" "trim_matches is_whitespace [104, 105] \<noteq> []"
  "byte_length [104, 105] = 2" "filter (\<lambda>c. c \<le> max_scalar) [104, 105] = [104, 105]"
  by (simp_all add: repeated_lines_def trim_matches_def is_whitespace_def in_ranges_def byte_length_def len_utf8_def)

lemma sample_prepared:
  "prepare_post_comment_with_limits [] [] sample_comment (ordinary 100) False sample_spacing = Inr sample_comment"
  unfolding prepare_post_comment_with_limits_def sample_comment_def sample_lits sample_valid sample_normalized bindE_Inr
    Let_def sample_fields if_False sample_stripped sample_quotes sample_spaced sample_bounds(4)
  using sample_bounds by (simp add: sample_collapsed ordinary_def)

text \<open>The same comment, and an empty one, as replies without a subject.\<close>

lemma sample_valid_post: "validate_post_with_limits [] [] [104, 105] (ordinary 100) True = Inr ()"
  "validate_post_with_limits [] [] [] (ordinary 100) True = Inr ()"
  by (simp_all add: validate_post_with_limits_def validate_field_def ordinary_def byte_length_def normalize_comment_with_limits_def
    len_utf8_def bad_control_def is_control_def trim_matches_def is_whitespace_def in_ranges_def)

lemma sample_subject: "prepare_post_subject_with_limits [] sample_spacing (ordinary 100) = Inr []"
  by (simp add: prepare_post_subject_with_limits_def validate_field_def ordinary_def byte_length_def sanitize_spacing_def sample_fields
    trim_matches_def Let_def)

lemma sample_admission_comment:
  "prepare_post_comment_with_limits [] [] [104, 105] (ordinary 100) True sample_spacing = Inr [104, 105]"
  unfolding prepare_post_comment_with_limits_def sample_lits sample_valid_post sample_normalized bindE_Inr
    Let_def sample_fields if_False sample_stripped sample_quotes sample_spaced sample_bounds(4)
  using sample_bounds by (simp add: sample_collapsed ordinary_def)

lemma sample_no_markers: "remove_source_markers [104, 105] = [104, 105]"
proof -
  have "remove_text (126 # p) t = t" if "126 \<notin> set t" for p t
    using that
  proof (induction t)
    case Nil
    then show ?case by (subst remove_text.simps) simp
  next
    case (Cons c t)
    then show ?case
      by (subst remove_text.simps) (auto simp: occurs_at_def)
  qed
  then show ?thesis
    by (simp add: remove_source_markers_def lit_def)
qed

lemma sample_post_input:
  assumes "\<not> (case pk of Thread _ required _ \<Rightarrow> required | Reply \<Rightarrow> False)"
  shows "prepare_post_content_input [] [] sample_comment 100 False sample_spacing pk = Inr
   \<lparr>input_subject = [], input_comment = sample_comment, input_attachment = False, input_markup = markup_policy sample_spacing,
    input_kind = pk, input_limits = ordinary 100\<rparr>"
  using assms unfolding sample_comment_def sample_lits
  by (simp add: prepare_post_content_input_def prepare_post_content_input_with_limits_def sample_valid_post sample_subject
    sample_admission_comment sample_no_markers)

lemma sample_tokens: "parse_markup_with_limits sample_comment (markup_policy sample_spacing) (ordinary 100) = Inr [TokenText sample_comment]"
  unfolding sample_comment_def sample_lits
  by (simp add: parse_markup_with_limits_def apply_passes_def markup_policy_def sample_fields sample_spacing_def for_board_def
    sample_lits input_atom_def ordinary_def)

lemma sample_shown: "shows_content [TokenText sample_comment]"
  unfolding sample_comment_def sample_lits by (simp add: shows_content_def blank_rendered)

end
