(* ===== verification/PollVoting.thy ===== *)
theory PollVoting
  imports CommentText Streams
begin

text \<open>
  \<open>crates/domain/src/poll_voting.rs\<close>: the signed cookie of a poll voter and the form token bound to it.
  HMAC-SHA-256 (crate \<open>ring\<close>) and unpadded base64url (crate \<open>base64\<close>) are parameters; what the code
  relies on is \<open>poll_crypto_ok\<close>. Times are signed 64-bit words, strings are their bytes.
\<close>

section \<open>Libraries and data\<close>

type_synonym i64 = "64 word"

record PollCrypto =
  hmac_sign :: "bytes \<Rightarrow> bytes \<Rightarrow> bytes"
  hmac_verify :: "bytes \<Rightarrow> bytes \<Rightarrow> bytes \<Rightarrow> bool"
  base64_encode :: "bytes \<Rightarrow> bytes"
  base64_decode :: "bytes \<Rightarrow> bytes option"

definition COOKIE_LIFETIME :: int where [simp]: "COOKIE_LIFETIME = 31536000"
definition FORM_LIFETIME :: int where [simp]: "FORM_LIFETIME = 1800"
definition COOKIE_PREFIX :: bytes where "COOKIE_PREFIX = ascii ''pv1.''"
definition FORM_PREFIX :: bytes where "FORM_PREFIX = ascii ''pf1.''"
definition COOKIE_PAYLOAD_LEN :: nat where [simp]: "COOKIE_PAYLOAD_LEN = 48"
definition FORM_PAYLOAD_LEN :: nat where [simp]: "FORM_PAYLOAD_LEN = 24"
definition COOKIE_BODY_LEN :: nat where [simp]: "COOKIE_BODY_LEN = 64"
definition FORM_BODY_LEN :: nat where [simp]: "FORM_BODY_LEN = 32"
definition TAG_LEN :: nat where [simp]: "TAG_LEN = 32"
definition TAG_TEXT_LEN :: nat where [simp]: "TAG_TEXT_LEN = 43"

record PollVotingKey =
  cookie_key :: bytes
  form_key :: bytes
  vote_key :: bytes

record PollVoter =
  voter_credential :: bytes
  voter_issued :: i64
  voter_expires :: i64
  voter_nonce :: bytes

definition derive_poll_key :: "PollCrypto \<Rightarrow> bytes \<Rightarrow> PollVotingKey" where
  "derive_poll_key c master =
     \<lparr>cookie_key = hmac_sign c master (ascii ''26chan-poll-voter-cookie-key-v1'' @ [0]),
      form_key = hmac_sign c master (ascii ''26chan-poll-form-token-key-v1'' @ [0]),
      vote_key = hmac_sign c master (ascii ''26chan-poll-vote-hash-key-v1'' @ [0])\<rparr>"

section \<open>Times\<close>

definition checked_add_i64 :: "i64 \<Rightarrow> int \<Rightarrow> i64 option" where
  "checked_add_i64 a b =
     (let s = sint a + b in if - (2 ^ 63) \<le> s \<and> s < 2 ^ 63 then Some (word_of_int s) else None)"

definition valid_cookie_expiry :: "i64 \<Rightarrow> i64 option" where
  "valid_cookie_expiry now = (if 0 \<le> sint now then checked_add_i64 now COOKIE_LIFETIME else None)"

definition active :: "i64 \<Rightarrow> i64 \<Rightarrow> i64 \<Rightarrow> bool" where
  "active issued expires now \<longleftrightarrow> sint issued \<le> sint now \<and> sint now < sint expires \<and> 0 \<le> sint issued"

definition validate_poll :: "i64 \<Rightarrow> unit run" where
  "validate_poll poll = (if sint poll \<le> 0 then Inl (Refused PollInvalid) else Inr ())"

definition min_i64 :: "i64 \<Rightarrow> i64 \<Rightarrow> i64" where
  "min_i64 a b = (if sint a \<le> sint b then a else b)"

section \<open>Encoded parts\<close>

definition strip_prefix :: "bytes \<Rightarrow> bytes \<Rightarrow> bytes option" where
  "strip_prefix p v = (if take (length p) v = p then Some (drop (length p) v) else None)"

definition encoded_parts :: "bytes \<Rightarrow> bytes \<Rightarrow> nat \<Rightarrow> (bytes \<times> bytes) option" where
  "encoded_parts v p body_len =
     Option.bind (strip_prefix p v) (\<lambda>encoded.
     if length encoded \<noteq> body_len + 1 + TAG_TEXT_LEN then None
     else Option.bind (position (\<lambda>b. b = 46) encoded) (\<lambda>i.
       let body = take i encoded; tag = drop (i + 1) encoded in
       if length body = body_len \<and> length tag = TAG_TEXT_LEN then Some (body, tag) else None))"

definition decode_exact :: "PollCrypto \<Rightarrow> nat \<Rightarrow> bytes \<Rightarrow> bytes option" where
  "decode_exact c n v =
     Option.bind (base64_decode c v) (\<lambda>decoded.
     if length decoded \<noteq> n \<or> base64_encode c decoded \<noteq> v then None else Some decoded)"

section \<open>The cookie\<close>

definition issue_voter :: "PollCrypto \<Rightarrow> PollVotingKey \<Rightarrow> i64 \<Rightarrow> bytes \<Rightarrow> PollVoter run" where
  "issue_voter c key now nonce =
     (case valid_cookie_expiry now of
       None \<Rightarrow> Inl (Refused PollTime)
     | Some expires \<Rightarrow>
         let payload = be64 now @ be64 expires @ nonce;
             tag = hmac_sign c (cookie_key key) payload
         in Inr \<lparr>voter_credential = COOKIE_PREFIX @ base64_encode c payload @ [46] @ base64_encode c tag,
                 voter_issued = now, voter_expires = expires, voter_nonce = nonce\<rparr>)"

text \<open>The 32 random bytes, or the failure of the system's generator, are an argument.\<close>

definition generate_voter :: "PollCrypto \<Rightarrow> PollVotingKey \<Rightarrow> bytes option \<Rightarrow> i64 \<Rightarrow> PollVoter run" where
  "generate_voter c key random now =
     bindE (case valid_cookie_expiry now of None \<Rightarrow> Inl (Refused PollTime) | Some _ \<Rightarrow> Inr ()) (\<lambda>_.
     case random of
       None \<Rightarrow> Inl (Refused PollRandomness)
     | Some nonce \<Rightarrow> issue_voter c key now nonce)"

definition decode_voter :: "PollCrypto \<Rightarrow> PollVotingKey \<Rightarrow> bytes \<Rightarrow> (i64 \<times> i64 \<times> bytes) option" where
  "decode_voter c key token =
     Option.bind (encoded_parts token COOKIE_PREFIX COOKIE_BODY_LEN) (\<lambda>(encoded, tag).
     Option.bind (decode_exact c COOKIE_PAYLOAD_LEN encoded) (\<lambda>payload.
     Option.bind (decode_exact c TAG_LEN tag) (\<lambda>tag.
     if \<not> hmac_verify c (cookie_key key) payload tag then None
     else
       let issued = at64 payload 0; expires = at64 payload 8 in
       Option.bind (valid_cookie_expiry issued) (\<lambda>e.
       if e \<noteq> expires then None else Some (issued, expires, drop 16 payload)))))"

definition parse_voter :: "PollCrypto \<Rightarrow> PollVotingKey \<Rightarrow> bytes \<Rightarrow> i64 \<Rightarrow> PollVoter option" where
  "parse_voter c key token now =
     Option.bind (decode_voter c key token) (\<lambda>(issued, expires, nonce).
     if \<not> active issued expires now then None
     else Some \<lparr>voter_credential = token, voter_issued = issued, voter_expires = expires, voter_nonce = nonce\<rparr>)"

definition matches_voter :: "PollCrypto \<Rightarrow> PollVotingKey \<Rightarrow> PollVoter \<Rightarrow> bool" where
  "matches_voter c key v \<longleftrightarrow>
     (case decode_voter c key (voter_credential v) of
       None \<Rightarrow> False
     | Some (issued, expires, nonce) \<Rightarrow> voter_issued v = issued \<and> voter_expires v = expires \<and> voter_nonce v = nonce)"

definition valid_voter :: "PollCrypto \<Rightarrow> PollVotingKey \<Rightarrow> PollVoter \<Rightarrow> i64 \<Rightarrow> bool" where
  "valid_voter c key v now \<longleftrightarrow> matches_voter c key v \<and> active (voter_issued v) (voter_expires v) now"

section \<open>The form\<close>

definition form_input :: "PollVoter \<Rightarrow> bytes \<Rightarrow> bytes" where
  "form_input v payload = voter_credential v @ [0] @ payload"

definition form_token :: "PollCrypto \<Rightarrow> PollVotingKey \<Rightarrow> PollVoter \<Rightarrow> i64 \<Rightarrow> i64 \<Rightarrow> bytes run" where
  "form_token c key v poll now =
     bindE (validate_poll poll) (\<lambda>_.
     if \<not> valid_voter c key v now then Inl (Refused PollVoterInvalid)
     else case checked_add_i64 now FORM_LIFETIME of
       None \<Rightarrow> Inl (Refused PollTime)
     | Some limit \<Rightarrow>
         let payload = be64 poll @ be64 now @ be64 (min_i64 limit (voter_expires v));
             tag = hmac_sign c (form_key key) (form_input v payload)
         in Inr (FORM_PREFIX @ base64_encode c payload @ [46] @ base64_encode c tag))"

definition verify_form_token :: "PollCrypto \<Rightarrow> PollVotingKey \<Rightarrow> PollVoter \<Rightarrow> i64 \<Rightarrow> bytes \<Rightarrow> i64 \<Rightarrow> bool" where
  "verify_form_token c key v poll token now =
     (if validate_poll poll \<noteq> Inr () \<or> \<not> valid_voter c key v now then False
      else case encoded_parts token FORM_PREFIX FORM_BODY_LEN of
        None \<Rightarrow> False
      | Some (encoded, tag) \<Rightarrow>
          (case (decode_exact c FORM_PAYLOAD_LEN encoded, decode_exact c TAG_LEN tag) of
            (Some payload, Some tag) \<Rightarrow>
              let expected_poll = at64 payload 0; issued = at64 payload 8; expires = at64 payload 16 in
              (case checked_add_i64 issued FORM_LIFETIME of
                None \<Rightarrow> False
              | Some max_expiry \<Rightarrow>
                  if expected_poll \<noteq> poll \<or> sint issued < sint (voter_issued v)
                      \<or> sint (voter_expires v) \<le> sint issued
                      \<or> sint now < sint issued \<or> sint expires \<le> sint now
                      \<or> expires \<noteq> min_i64 max_expiry (voter_expires v)
                  then False
                  else hmac_verify c (form_key key) (form_input v payload) tag)
          | _ \<Rightarrow> False))"

definition voter_hash :: "PollCrypto \<Rightarrow> PollVotingKey \<Rightarrow> PollVoter \<Rightarrow> i64 \<Rightarrow> bytes run" where
  "voter_hash c key v poll =
     bindE (validate_poll poll) (\<lambda>_.
     if \<not> matches_voter c key v then Inl (Refused PollVoterInvalid)
     else
       let digest = hmac_sign c (vote_key key) (be64 poll @ voter_nonce v) in
       if length digest = 32 then Inr digest else Inl Panicked)"

section \<open>What the code relies on\<close>

text \<open>
  The tag is 32 bytes and verified by comparison; the text has no dot, the documented length, and
  decodes to what was encoded.
\<close>

definition poll_crypto_ok :: "PollCrypto \<Rightarrow> bool" where
  "poll_crypto_ok c \<longleftrightarrow>
     (\<forall>k d. length (hmac_sign c k d) = 32) \<and> (\<forall>k d t. hmac_verify c k d t = (t = hmac_sign c k d))
     \<and> (\<forall>d. base64_decode c (base64_encode c d) = Some d) \<and> (\<forall>d. 46 \<notin> set (base64_encode c d))
     \<and> (\<forall>d. length (base64_encode c d) = (4 * length d + 2) div 3)"

section \<open>Exactness\<close>

lemma encoded_parts_iff:
  "encoded_parts v p n = Some (body, tag) \<longleftrightarrow>
     v = p @ body @ [46] @ tag \<and> length body = n \<and> length tag = 43 \<and> 46 \<notin> set body"
proof
  assume "encoded_parts v p n = Some (body, tag)"
  then obtain enc i where e: "take (length p) v = p" "enc = drop (length p) v" "position (\<lambda>b. b = 46) enc = Some i"
      "body = take i enc" "tag = drop (i + 1) enc" "length body = n" "length tag = 43"
    by (auto simp: encoded_parts_def strip_prefix_def Let_def bind_eq_Some_conv split: if_split_asm)
  have i: "i < length enc" "enc ! i = 46" "\<forall>j<i. enc ! j \<noteq> 46"
    using position_Some [OF e(3)] by auto
  then have "enc = body @ [46] @ tag"
    using id_take_nth_drop [OF i(1)] i(2) by (simp add: e(4,5))
  moreover have "46 \<notin> set body"
    using i(3) by (auto simp: e(4) in_set_conv_nth)
  moreover have "v = p @ enc"
    using append_take_drop_id [of "length p" v] unfolding e(1) e(2) [symmetric] by (rule sym)
  ultimately show "v = p @ body @ [46] @ tag \<and> length body = n \<and> length tag = 43 \<and> 46 \<notin> set body"
    using e(6,7) by simp
next
  assume "v = p @ body @ [46] @ tag \<and> length body = n \<and> length tag = 43 \<and> 46 \<notin> set body"
  moreover have "46 \<notin> set body \<Longrightarrow> position (\<lambda>b. b = 46) (body @ 46 # tag) = Some (length body)"
    by (induction body) auto
  ultimately show "encoded_parts v p n = Some (body, tag)"
    by (simp add: encoded_parts_def strip_prefix_def Let_def)
qed

lemma decode_exact_iff:
  assumes "poll_crypto_ok c"
  shows "decode_exact c n v = Some d \<longleftrightarrow> length d = n \<and> v = base64_encode c d"
  using assms by (auto simp: decode_exact_def poll_crypto_ok_def bind_eq_Some_conv split: if_split_asm)

lemma payload_fields: "at64 (be64 a @ r) 0 = a" "at64 (be64 a @ be64 b @ r) 8 = b"
    "at64 (be64 a @ be64 b @ be64 e) 16 = e"
  using at64_field [of "[]" 0 a r] at64_field [of "be64 a" 8 b r] at64_field [of "be64 a @ be64 b" 16 e "[]"] by simp_all

lemma split64: "8 \<le> length d \<Longrightarrow> d = be64 (at64 d 0) @ drop 8 d"
  using field64 [of 0 d] append_take_drop_id [of 8 d] by simp

lemma split_payload:
  assumes "16 \<le> length d"
  obtains a b where "d = be64 a @ be64 b @ drop 16 d"
proof -
  have "drop 8 d = be64 (at64 (drop 8 d) 0) @ drop 16 d"
    using split64 [of "drop 8 d"] assms by simp
  then have "d = be64 (at64 d 0) @ be64 (at64 (drop 8 d) 0) @ drop 16 d"
    using split64 [of d] assms by simp
  then show ?thesis by (rule that)
qed

text \<open>A cookie decodes exactly when it was issued, with the time and the nonce it was issued with.\<close>

lemma decode_voter_iff:
  assumes "poll_crypto_ok c"
  shows "decode_voter c key token = Some (issued, expires, nonce) \<longleftrightarrow>
     length nonce = 32 \<and> issue_voter c key issued nonce = Inr \<lparr>voter_credential = token, voter_issued = issued,
       voter_expires = expires, voter_nonce = nonce\<rparr>"
proof
  assume "decode_voter c key token = Some (issued, expires, nonce)"
  then obtain body sig payload where p: "encoded_parts token COOKIE_PREFIX COOKIE_BODY_LEN = Some (body, sig)"
      "decode_exact c 48 body = Some payload" "decode_exact c 32 sig = Some (hmac_sign c (cookie_key key) payload)"
      "issued = at64 payload 0" "expires = at64 payload 8" "nonce = drop 16 payload" "valid_cookie_expiry issued = Some expires"
    using assms by (auto simp: decode_voter_def bind_eq_Some_conv Let_def poll_crypto_ok_def split: if_split_asm)
  have d: "length payload = 48" "token = COOKIE_PREFIX @ base64_encode c payload @ [46]
      @ base64_encode c (hmac_sign c (cookie_key key) payload)"
    using p(1-3) by (simp_all add: decode_exact_iff [OF assms] encoded_parts_iff)
  obtain a b where ab: "payload = be64 a @ be64 b @ drop 16 payload"
    using split_payload [of payload] d(1) by auto
  then have "payload = be64 issued @ be64 expires @ nonce"
    unfolding p(4-6) by (metis payload_fields(1,2))
  then show "length nonce = 32 \<and> issue_voter c key issued nonce = Inr \<lparr>voter_credential = token, voter_issued = issued,
       voter_expires = expires, voter_nonce = nonce\<rparr>"
    using d p(6,7) by (simp add: issue_voter_def Let_def)
next
  assume a: "length nonce = 32 \<and> issue_voter c key issued nonce = Inr \<lparr>voter_credential = token, voter_issued = issued,
       voter_expires = expires, voter_nonce = nonce\<rparr>"
  let ?payload = "be64 issued @ be64 expires @ nonce"
  have e: "valid_cookie_expiry issued = Some expires"
      "token = COOKIE_PREFIX @ base64_encode c ?payload @ [46] @ base64_encode c (hmac_sign c (cookie_key key) ?payload)"
    using a by (auto simp: issue_voter_def Let_def split: option.split_asm)
  have "encoded_parts token COOKIE_PREFIX COOKIE_BODY_LEN
      = Some (base64_encode c ?payload, base64_encode c (hmac_sign c (cookie_key key) ?payload))"
    using assms a by (simp add: encoded_parts_iff e(2) poll_crypto_ok_def)
  moreover have "decode_exact c 48 (base64_encode c ?payload) = Some ?payload"
      "decode_exact c 32 (base64_encode c (hmac_sign c (cookie_key key) ?payload)) = Some (hmac_sign c (cookie_key key) ?payload)"
    using assms a by (simp_all add: decode_exact_iff [OF assms] poll_crypto_ok_def)
  ultimately show "decode_voter c key token = Some (issued, expires, nonce)"
    using assms e(1) by (simp add: decode_voter_def Let_def payload_fields poll_crypto_ok_def)
qed

lemma matches_voter_iff:
  assumes "poll_crypto_ok c"
  shows "matches_voter c key v \<longleftrightarrow> length (voter_nonce v) = 32 \<and> issue_voter c key (voter_issued v) (voter_nonce v) = Inr v"
  using decode_voter_iff [OF assms, of key "voter_credential v" "voter_issued v" "voter_expires v" "voter_nonce v"]
  by (auto simp: matches_voter_def split: option.split)

theorem parse_voter_iff:
  assumes "poll_crypto_ok c"
  shows "parse_voter c key token now = Some v \<longleftrightarrow>
     token = voter_credential v \<and> length (voter_nonce v) = 32 \<and> issue_voter c key (voter_issued v) (voter_nonce v) = Inr v
     \<and> sint (voter_issued v) \<le> sint now \<and> sint now < sint (voter_expires v)"
proof -
  have "0 \<le> sint (voter_issued v)" if "issue_voter c key (voter_issued v) (voter_nonce v) = Inr v"
    using that by (auto simp: issue_voter_def valid_cookie_expiry_def split: option.split_asm if_split_asm)
  then show ?thesis
    using decode_voter_iff [OF assms, of key token]
    by (cases v) (auto simp: parse_voter_def bind_eq_Some_conv active_def split: if_split_asm)
qed

text \<open>A form is accepted exactly when it was made for that voter and poll, and has not expired.\<close>

theorem verify_form_token_iff:
  assumes "poll_crypto_ok c"
  shows "verify_form_token c key v poll token now \<longleftrightarrow>
     (\<exists>t limit. form_token c key v poll t = Inr token \<and> checked_add_i64 t FORM_LIFETIME = Some limit
        \<and> sint t \<le> sint now \<and> sint now < sint (min_i64 limit (voter_expires v)))"
  (is "?L \<longleftrightarrow> ?R")
proof
  assume v: ?L
  then have pre: "validate_poll poll = Inr ()" "valid_voter c key v now"
    by (auto simp: verify_form_token_def split: if_split_asm)
  obtain body sig where parts: "encoded_parts token FORM_PREFIX FORM_BODY_LEN = Some (body, sig)"
    using v pre by (cases "encoded_parts token FORM_PREFIX FORM_BODY_LEN") (auto simp: verify_form_token_def)
  obtain payload where payload: "decode_exact c 24 body = Some payload"
    using v pre parts by (cases "decode_exact c 24 body") (auto simp: verify_form_token_def)
  obtain tag where tag: "decode_exact c 32 sig = Some tag"
    using v pre parts payload by (cases "decode_exact c 32 sig") (auto simp: verify_form_token_def)
  obtain limit where limit: "checked_add_i64 (at64 payload 8) 1800 = Some limit"
    using v pre parts payload tag
    by (cases "checked_add_i64 (at64 payload 8) 1800") (auto simp: verify_form_token_def Let_def)
  have "at64 payload 0 = poll" "at64 payload 16 = min_i64 limit (voter_expires v)"
      "tag = hmac_sign c (form_key key) (form_input v payload)"
      "sint (voter_issued v) \<le> sint (at64 payload 8)" "sint (at64 payload 8) < sint (voter_expires v)"
      "sint (at64 payload 8) \<le> sint now" "sint now < sint (at64 payload 16)"
    using v pre parts payload tag limit assms
    by (simp_all add: verify_form_token_def Let_def poll_crypto_ok_def not_less not_le split: if_split_asm) (elim conjE, metis)
  note p = pre parts payload tag limit this
  have d: "length payload = 24"
      "token = FORM_PREFIX @ base64_encode c payload @ [46] @ base64_encode c (hmac_sign c (form_key key) (form_input v payload))"
    using p(3-5,9) by (simp_all add: decode_exact_iff [OF assms] encoded_parts_iff)
  obtain a b where ab: "payload = be64 a @ be64 b @ drop 16 payload"
    using split_payload [of payload] d(1) by auto
  have "drop 16 payload = be64 (at64 (drop 16 payload) 0)"
    using split64 [of "drop 16 payload"] d(1) by simp
  then obtain e where "payload = be64 a @ be64 b @ be64 e"
    using ab by metis
  then have "payload = be64 poll @ be64 (at64 payload 8) @ be64 (min_i64 limit (voter_expires v))"
    using p(7,8) by (metis payload_fields)
  moreover have "valid_voter c key v (at64 payload 8)"
    using p(2,10,11) by (simp add: valid_voter_def active_def)
  ultimately have "form_token c key v poll (at64 payload 8) = Inr token"
    using p(1,6) d(2) by (simp add: form_token_def Let_def)
  then show ?R
    using p(6,8,12,13) by auto
next
  assume ?R
  then obtain t limit where t: "form_token c key v poll t = Inr token" "checked_add_i64 t FORM_LIFETIME = Some limit"
      "sint t \<le> sint now" "sint now < sint (min_i64 limit (voter_expires v))"
    by blast
  let ?payload = "be64 poll @ be64 t @ be64 (min_i64 limit (voter_expires v))"
  have f: "validate_poll poll = Inr ()" "valid_voter c key v t"
      "token = FORM_PREFIX @ base64_encode c ?payload @ [46] @ base64_encode c (hmac_sign c (form_key key) (form_input v ?payload))"
    using t(1,2) by (auto simp: form_token_def Let_def result_simps split: if_split_asm)
  have "sint now < sint (voter_expires v)"
    using t(4) by (auto simp: min_i64_def split: if_split_asm)
  then have "valid_voter c key v now"
    using f(2) t(3) by (simp add: valid_voter_def active_def)
  moreover have "encoded_parts token FORM_PREFIX FORM_BODY_LEN
      = Some (base64_encode c ?payload, base64_encode c (hmac_sign c (form_key key) (form_input v ?payload)))"
    using assms by (simp add: encoded_parts_iff f(3) poll_crypto_ok_def)
  moreover have "decode_exact c 24 (base64_encode c ?payload) = Some ?payload"
      "decode_exact c 32 (base64_encode c (hmac_sign c (form_key key) (form_input v ?payload)))
        = Some (hmac_sign c (form_key key) (form_input v ?payload))"
    using assms by (simp_all add: decode_exact_iff [OF assms] poll_crypto_ok_def)
  ultimately show ?L
    using assms f(1,2) t(2-4)
    by (simp add: verify_form_token_def Let_def payload_fields poll_crypto_ok_def valid_voter_def active_def)
qed

lemma voter_hash_never_panics: "poll_crypto_ok c \<Longrightarrow> voter_hash c key v poll \<noteq> Inl Panicked"
  by (auto simp: voter_hash_def validate_poll_def poll_crypto_ok_def Let_def)

end
