(* ===== verification/PollSamples.thy ===== *)
theory PollSamples
  imports PollVoting
begin

text \<open>
  A concrete instance of the libraries of \<open>PollVoting\<close>: unpadded base64url as RFC 4648 defines it, and a
  signer with one constant tag. It satisfies what the code relies on.
\<close>

section \<open>Base64url\<close>

definition alphabet :: bytes where
  "alphabet = ascii ''ABCDEFGHIJKLMNOPQRSTUVWXYZabcdefghijklmnopqrstuvwxyz0123456789-_''"

definition sextet :: "nat \<Rightarrow> u8" where
  "sextet n = alphabet ! (n mod 64)"

definition value_of :: "u8 \<Rightarrow> nat option" where
  "value_of b = position (\<lambda>a. a = b) alphabet"

definition octet :: "nat \<Rightarrow> u8" where
  "octet n = of_nat n"

fun encode64 :: "bytes \<Rightarrow> bytes" where
  "encode64 [] = []"
| "encode64 [a] = (let n = unat a * 16 in [sextet (n div 64), sextet n])"
| "encode64 [a, b] = (let n = (unat a * 256 + unat b) * 4 in [sextet (n div 4096), sextet (n div 64), sextet n])"
| "encode64 (a # b # c # r) =
     (let n = (unat a * 256 + unat b) * 256 + unat c
      in sextet (n div 262144) # sextet (n div 4096) # sextet (n div 64) # sextet n # encode64 r)"

fun decode64 :: "bytes \<Rightarrow> bytes option" where
  "decode64 [] = Some []"
| "decode64 [a] = None"
| "decode64 [a, b] =
     (case (value_of a, value_of b) of
       (Some x, Some y) \<Rightarrow> Some [octet ((x * 64 + y) div 16)]
     | _ \<Rightarrow> None)"
| "decode64 [a, b, c] =
     (case (value_of a, value_of b, value_of c) of
       (Some x, Some y, Some z) \<Rightarrow> let n = ((x * 64 + y) * 64 + z) div 4 in Some [octet (n div 256), octet n]
     | _ \<Rightarrow> None)"
| "decode64 (a # b # c # d # r) =
     (case (value_of a, value_of b, value_of c, value_of d, decode64 r) of
       (Some x, Some y, Some z, Some w, Some ds) \<Rightarrow>
         let n = ((x * 64 + y) * 64 + z) * 64 + w in Some (octet (n div 65536) # octet (n div 256) # octet n # ds)
     | _ \<Rightarrow> None)"

lemma alphabet_distinct: "distinct alphabet" "length alphabet = 64" "46 \<notin> set alphabet"
  by (simp_all add: alphabet_def ascii_def)

lemma position_distinct: "distinct xs \<Longrightarrow> n < length xs \<Longrightarrow> position (\<lambda>a. a = xs ! n) xs = Some n"
proof (induction xs arbitrary: n)
  case (Cons x xs)
  then show ?case
    by (cases n) auto
qed simp

lemma value_of_sextet: "value_of (sextet n) = Some (n mod 64)" "sextet n \<noteq> 46"
proof -
  show "value_of (sextet n) = Some (n mod 64)"
    unfolding value_of_def sextet_def by (rule position_distinct) (simp_all add: alphabet_distinct)
  have "alphabet ! (n mod 64) \<in> set alphabet"
    by (rule nth_mem) (simp add: alphabet_distinct)
  then show "sextet n \<noteq> 46"
    using alphabet_distinct(3) by (auto simp: sextet_def)
qed

lemma octet_unat: "octet (unat a) = a" "octet (k * 256 + unat a) = a"
proof -
  show a: "octet (unat a) = a"
    by (simp add: octet_def)
  have "octet (k * 256 + unat a) = octet (unat a)"
    unfolding octet_def word_of_nat_eq_iff by (simp add: take_bit_eq_mod)
  then show "octet (k * 256 + unat a) = a"
    using a by simp
qed

lemma digits2: "n div 64 mod 64 * 64 + n mod 64 = n mod 4096" for n :: nat
  using mod_mult2_eq [of n 64 64] by simp

lemma digits3: "((n div 4096 mod 64 * 64 + n div 64 mod 64) * 64 + n mod 64) = n mod 262144" for n :: nat
  using mod_mult2_eq [of n 64 4096] digits2 [of "n div 64"] by (simp add: div_mult2_eq [symmetric])

lemma digits4:
  "(((n div 262144 mod 64 * 64 + n div 4096 mod 64) * 64 + n div 64 mod 64) * 64 + n mod 64) = n mod 16777216" for n :: nat
  using mod_mult2_eq [of n 64 262144] digits3 [of "n div 64"] by (simp add: div_mult2_eq [symmetric])

lemma byte_less: "unat (a :: u8) < 256"
  using unsigned_less [of a] by simp

lemma decode_encode64: "decode64 (encode64 d) = Some d"
proof (induction d rule: encode64.induct)
  case (2 a)
  let ?n = "unat a * 16"
  have "(?n div 64 mod 64 * 64 + ?n mod 64) div 16 = unat a"
    unfolding digits2 using byte_less [of a] by simp
  then show ?case
    unfolding encode64.simps Let_def decode64.simps value_of_sextet prod.case option.case
    by (simp only: octet_unat)
next
  case (3 a b)
  let ?n = "(unat a * 256 + unat b) * 4"
  have "((?n div 4096 mod 64 * 64 + ?n div 64 mod 64) * 64 + ?n mod 64) div 4 = unat a * 256 + unat b"
    unfolding digits3 using byte_less [of a] byte_less [of b] by simp
  moreover have "(unat a * 256 + unat b) div 256 = unat a"
    using byte_less [of b] by simp
  ultimately show ?case
    unfolding encode64.simps Let_def decode64.simps value_of_sextet prod.case option.case
    by (simp only: octet_unat)
next
  case (4 a b c r)
  let ?n = "(unat a * 256 + unat b) * 256 + unat c"
  have "((?n div 262144 mod 64 * 64 + ?n div 4096 mod 64) * 64 + ?n div 64 mod 64) * 64 + ?n mod 64 = ?n"
    unfolding digits4 using byte_less [of a] byte_less [of b] byte_less [of c] by simp
  moreover have "?n div 65536 = unat a" "?n div 256 = unat a * 256 + unat b"
    using byte_less [of b] byte_less [of c] by simp_all
  ultimately show ?case
    using 4 unfolding encode64.simps Let_def decode64.simps value_of_sextet prod.case option.case
    by (simp only: octet_unat option.case)
qed simp

lemma encode64_length: "length (encode64 d) = (4 * length d + 2) div 3"
  by (induction d rule: encode64.induct) (auto simp: Let_def)

lemma encode64_dot: "46 \<notin> set (encode64 d)"
  using value_of_sextet(2) by (induction d rule: encode64.induct) (auto simp: Let_def dest: sym)

section \<open>The instance\<close>

definition sample_crypto :: PollCrypto where
  "sample_crypto = \<lparr>hmac_sign = (\<lambda>_ _. replicate 32 7), hmac_verify = (\<lambda>_ _ t. t = replicate 32 7),
     base64_encode = encode64, base64_decode = decode64\<rparr>"

lemma sample_crypto_ok: "poll_crypto_ok sample_crypto"
  by (simp add: poll_crypto_ok_def sample_crypto_def decode_encode64 encode64_length [simplified] encode64_dot)

definition sample_poll_key :: PollVotingKey where
  "sample_poll_key = derive_poll_key sample_crypto (replicate 32 1)"

lemma sample_voter_issued: "\<exists>v. issue_voter sample_crypto sample_poll_key 0 (replicate 32 0) = Inr v
    \<and> voter_issued v = 0 \<and> voter_nonce v = replicate 32 0 \<and> voter_expires v = 31536000"
  by (simp add: issue_voter_def valid_cookie_expiry_def checked_add_i64_def Let_def)

end
