(* ===== verification/ReportWeight.thy ===== *)
theory ReportWeight
  imports Foundations
begin

text \<open>
  \<open>crates/domain/src/report_weight.rs\<close>: the weight of a report when some facts are missing. An \<open>f64\<close> is
  its bit pattern; of its arithmetic the code uses only finiteness and two comparisons.
\<close>

section \<open>Data\<close>

type_synonym f64 = "64 word"

datatype 'a Evidence = Unknown | Qualified 'a

definition f64_finite :: "f64 \<Rightarrow> bool" where
  "f64_finite b \<longleftrightarrow> take_bit 11 (drop_bit 52 b) \<noteq> 0x7FF"

definition f64_half :: f64 where "f64_half = 0x3FE0000000000000"

text \<open>\<open>==\<close> on finite numbers: the two zeros are equal. \<open>>= 0.4\<close>: not negative, and at least its bits.\<close>

definition f64_eq :: "f64 \<Rightarrow> f64 \<Rightarrow> bool" where
  "f64_eq a b \<longleftrightarrow> a = b \<or> (a \<in> {0, 0x8000000000000000} \<and> b \<in> {0, 0x8000000000000000})"

definition finite_new :: "f64 \<Rightarrow> f64 option" where
  "finite_new v = (if f64_finite v then Some v else None)"

definition threat_at_least_point_four :: "f64 \<Rightarrow> bool" where
  "threat_at_least_point_four v \<longleftrightarrow> v < 0x8000000000000000 \<and> 0x3FD999999999999A \<le> v"

record WeightFacts =
  category_base :: "f64 Evidence"
  authenticated_janitor_or_higher :: "bool Evidence"
  known_or_verified :: "bool Evidence"
  high_threat :: "bool Evidence"
  category_filtered :: "64 word Evidence"
  history_filtered :: "bool Evidence"

datatype SourceReason = StaffKeepsBase | KeepsBase | NotKnownOrVerified | ThreatAtLeastPointFour | HistoryFiltered

definition uses_fallback :: "SourceReason \<Rightarrow> bool" where
  "uses_fallback r \<longleftrightarrow> r \<in> {NotKnownOrVerified, ThreatAtLeastPointFour, HistoryFiltered}"

datatype NumericProof = AllBranchesKeepBase | AllBranchesUseFallback | BaseEqualsFallback

datatype WeightDecision = NoDecision | Decided f64 NumericProof "SourceReason option"

section \<open>The decision\<close>

fun possibilities :: "bool Evidence \<Rightarrow> bool list" where
  "possibilities Unknown = [False, True]"
| "possibilities (Qualified False) = [False]"
| "possibilities (Qualified True) = [True]"

definition filter_evidence :: "64 word Evidence \<Rightarrow> bool Evidence \<Rightarrow> bool Evidence" where
  "filter_evidence configured history =
     (case configured of
       Qualified v \<Rightarrow> if sint v \<le> 0 then Qualified False
         else if history = Qualified False then Qualified False else history
     | Unknown \<Rightarrow> if history = Qualified False then Qualified False else Unknown)"

definition branch_reason :: "bool \<times> bool \<times> bool \<times> bool \<Rightarrow> SourceReason" where
  "branch_reason = (\<lambda>(staff, known, threat, filtered).
     if staff then StaffKeepsBase
     else if \<not> known then NotKnownOrVerified
     else if threat then ThreatAtLeastPointFour
     else if filtered then HistoryFiltered
     else KeepsBase)"

text \<open>The state of the loops: the first reason, whether all agree, and which kinds occurred.\<close>

record Scan =
  first_reason :: "SourceReason option"
  reasons_agree :: bool
  can_keep_base :: bool
  can_fall_back :: bool

definition scan_branch :: "Scan \<Rightarrow> bool \<times> bool \<times> bool \<times> bool \<Rightarrow> Scan" where
  "scan_branch s b =
     (let reason = branch_reason b;
          s = (case first_reason s of
                Some r \<Rightarrow> s\<lparr>reasons_agree := reasons_agree s \<and> r = reason\<rparr>
              | None \<Rightarrow> s\<lparr>first_reason := Some reason\<rparr>)
      in s\<lparr>can_fall_back := can_fall_back s \<or> uses_fallback reason,
           can_keep_base := can_keep_base s \<or> \<not> uses_fallback reason\<rparr>)"

definition branches :: "WeightFacts \<Rightarrow> (bool \<times> bool \<times> bool \<times> bool) list" where
  "branches facts =
     [(staff, known, threat, filtered).
        staff \<leftarrow> possibilities (authenticated_janitor_or_higher facts),
        known \<leftarrow> possibilities (known_or_verified facts),
        threat \<leftarrow> possibilities (high_threat facts),
        filtered \<leftarrow> possibilities (filter_evidence (category_filtered facts) (history_filtered facts))]"

definition decide_weight :: "WeightFacts \<Rightarrow> WeightDecision" where
  "decide_weight facts =
     (let s = foldl scan_branch \<lparr>first_reason = None, reasons_agree = True, can_keep_base = False, can_fall_back = False\<rparr>
            (branches facts);
          reason = (if reasons_agree s then first_reason s else None)
      in if \<not> can_keep_base s then Decided f64_half AllBranchesUseFallback reason
         else case category_base facts of
           Unknown \<Rightarrow> NoDecision
         | Qualified base \<Rightarrow>
             if \<not> can_fall_back s then Decided base AllBranchesKeepBase reason
             else if f64_eq base f64_half then Decided base BaseEqualsFallback reason
             else NoDecision)"

section \<open>Completions\<close>

text \<open>
  What the source would compute if it knew everything: the branches in its order, the history counting
  only under a positive threshold. A completion agrees with all the facts there are.
\<close>

record WorldFacts =
  world_base :: f64
  world_staff :: bool
  world_known :: bool
  world_threat :: bool
  world_threshold :: "64 word"
  world_history :: bool

definition world_reason :: "WorldFacts \<Rightarrow> SourceReason" where
  "world_reason w =
     (case (world_staff w, world_known w, world_threat w, 0 < sint (world_threshold w) \<and> world_history w) of
       (True, _, _, _) \<Rightarrow> StaffKeepsBase
     | (False, False, _, _) \<Rightarrow> NotKnownOrVerified
     | (False, True, True, _) \<Rightarrow> ThreatAtLeastPointFour
     | (False, True, False, True) \<Rightarrow> HistoryFiltered
     | (False, True, False, False) \<Rightarrow> KeepsBase)"

definition world_weight :: "WorldFacts \<Rightarrow> f64" where
  "world_weight w =
     (if \<not> world_staff w \<and> (world_known w \<longrightarrow> world_threat w \<or> 0 < sint (world_threshold w) \<and> world_history w)
      then f64_half else world_base w)"

lemma world_reason_branch:
  "world_reason w = branch_reason (world_staff w, world_known w, world_threat w, 0 < sint (world_threshold w) \<and> world_history w)"
  by (simp add: world_reason_def branch_reason_def split: bool.split)

lemma world_weight_branch: "world_weight w = (if uses_fallback (world_reason w) then f64_half else world_base w)"
  by (auto simp: world_weight_def world_reason_def uses_fallback_def split: bool.split)

definition fits :: "'a Evidence \<Rightarrow> 'a \<Rightarrow> bool" where
  "fits e v \<longleftrightarrow> (case e of Unknown \<Rightarrow> True | Qualified x \<Rightarrow> v = x)"

definition completes :: "WeightFacts \<Rightarrow> WorldFacts \<Rightarrow> bool" where
  "completes facts w \<longleftrightarrow>
     fits (category_base facts) (world_base w) \<and> f64_finite (world_base w)
     \<and> fits (authenticated_janitor_or_higher facts) (world_staff w) \<and> fits (known_or_verified facts) (world_known w)
     \<and> fits (high_threat facts) (world_threat w) \<and> fits (category_filtered facts) (world_threshold w)
     \<and> fits (history_filtered facts) (world_history w)"

lemma fits_simps [simp]: "fits Unknown v" "fits (Qualified x) v \<longleftrightarrow> v = x"
  by (simp_all add: fits_def)

lemma possibilities_fits: "v \<in> set (possibilities e) \<longleftrightarrow> fits e v"
  by (cases e rule: possibilities.cases) auto

lemma filter_fits:
  "fits (filter_evidence t h) v \<longleftrightarrow> (\<exists>tv hv. fits t tv \<and> fits h hv \<and> v = (0 < sint tv \<and> hv))"
proof (cases t)
  case Unknown
  have "\<exists>tv :: 64 word. 0 < sint tv" "\<exists>tv :: 64 word. \<not> 0 < sint tv"
    by (rule exI [of _ 1], simp) (rule exI [of _ 0], simp)
  then show ?thesis
    by (cases h) (auto simp: Unknown filter_evidence_def)
next
  case (Qualified x)
  then show ?thesis
    by (cases h) (auto simp: filter_evidence_def)
qed

lemma branches_mem:
  "(s, k, t, f) \<in> set (branches facts) \<longleftrightarrow> fits (authenticated_janitor_or_higher facts) s \<and> fits (known_or_verified facts) k
     \<and> fits (high_threat facts) t \<and> fits (filter_evidence (category_filtered facts) (history_filtered facts)) f"
  unfolding possibilities_fits [symmetric] branches_def by (auto simp: image_iff)

lemma branches_worlds:
  assumes "fits (category_base facts) base" "f64_finite base"
  shows "b \<in> set (branches facts) \<longleftrightarrow> (\<exists>w. completes facts w \<and> world_base w = base
    \<and> b = (world_staff w, world_known w, world_threat w, 0 < sint (world_threshold w) \<and> world_history w))"
proof
  assume "b \<in> set (branches facts)"
  then obtain s k t f where b: "b = (s, k, t, f)" "fits (authenticated_janitor_or_higher facts) s"
      "fits (known_or_verified facts) k" "fits (high_threat facts) t"
      "fits (filter_evidence (category_filtered facts) (history_filtered facts)) f"
    using branches_mem by (metis prod_cases4)
  then obtain tv hv where "fits (category_filtered facts) tv" "fits (history_filtered facts) hv" "f = (0 < sint tv \<and> hv)"
    by (auto simp: filter_fits)
  then show "\<exists>w. completes facts w \<and> world_base w = base
      \<and> b = (world_staff w, world_known w, world_threat w, 0 < sint (world_threshold w) \<and> world_history w)"
    using b assms by (intro exI [of _ "\<lparr>world_base = base, world_staff = s, world_known = k, world_threat = t,
        world_threshold = tv, world_history = hv\<rparr>"]) (simp add: completes_def)
next
  assume "\<exists>w. completes facts w \<and> world_base w = base
      \<and> b = (world_staff w, world_known w, world_threat w, 0 < sint (world_threshold w) \<and> world_history w)"
  then show "b \<in> set (branches facts)"
    by (auto simp: branches_mem completes_def filter_fits; blast)
qed

section \<open>The loops\<close>

lemma scan_branches:
  assumes "first_reason s = Some r"
  shows "foldl scan_branch s bs = s\<lparr>
     reasons_agree := reasons_agree s \<and> (\<forall>b\<in>set bs. r = branch_reason b),
     can_keep_base := can_keep_base s \<or> (\<exists>b\<in>set bs. \<not> uses_fallback (branch_reason b)),
     can_fall_back := can_fall_back s \<or> (\<exists>b\<in>set bs. uses_fallback (branch_reason b))\<rparr>"
  using assms by (induction bs arbitrary: s) (auto simp: scan_branch_def Let_def)

lemma scan_all:
  assumes "bs \<noteq> []"
  shows "foldl scan_branch \<lparr>first_reason = None, reasons_agree = True, can_keep_base = False, can_fall_back = False\<rparr> bs =
     \<lparr>first_reason = Some (branch_reason (hd bs)),
      reasons_agree = (\<forall>b\<in>set bs. branch_reason (hd bs) = branch_reason b),
      can_keep_base = (\<exists>b\<in>set bs. \<not> uses_fallback (branch_reason b)),
      can_fall_back = (\<exists>b\<in>set bs. uses_fallback (branch_reason b))\<rparr>"
proof (cases bs)
  case (Cons b rest)
  show ?thesis
    unfolding Cons foldl_Cons by (subst scan_branches) (auto simp: scan_branch_def Let_def)
qed (use assms in simp)

lemma branches_nonempty: "branches facts \<noteq> []"
proof -
  have "\<exists>v. fits e v" for e :: "bool Evidence"
    by (cases e) auto
  then show ?thesis
    using branches_mem [of _ _ _ _ facts] by (metis list.set_intros(1) empty_iff list.set(1))
qed

section \<open>The decision is what every completion agrees on\<close>

definition facts_ok :: "WeightFacts \<Rightarrow> bool" where
  "facts_ok facts \<longleftrightarrow> (case category_base facts of Unknown \<Rightarrow> True | Qualified b \<Rightarrow> f64_finite b)"

lemma worlds_all:
  assumes "facts_ok facts"
  shows "(\<forall>w. completes facts w \<longrightarrow> P (world_reason w)) \<longleftrightarrow> (\<forall>b\<in>set (branches facts). P (branch_reason b))"
proof
  assume all: "\<forall>w. completes facts w \<longrightarrow> P (world_reason w)"
  obtain base where base: "fits (category_base facts) base" "f64_finite base"
  proof (cases "category_base facts")
    case Unknown
    then show ?thesis
      by (intro that [of 0]) (simp_all add: f64_finite_def)
  next
    case (Qualified b)
    then show ?thesis
      using assms by (intro that [of b]) (simp_all add: facts_ok_def)
  qed
  show "\<forall>b\<in>set (branches facts). P (branch_reason b)"
    using all by (auto simp: branches_worlds [OF base] world_reason_branch)
next
  assume "\<forall>b\<in>set (branches facts). P (branch_reason b)"
  moreover have "(world_staff w, world_known w, world_threat w, 0 < sint (world_threshold w) \<and> world_history w) \<in> set (branches facts)"
    if "completes facts w" for w
    using that branches_worlds [of facts "world_base w"] by (auto simp: completes_def)
  ultimately show "\<forall>w. completes facts w \<longrightarrow> P (world_reason w)"
    by (auto simp: world_reason_branch)
qed

lemma world_of_branch:
  assumes "b \<in> set (branches facts)" "fits (category_base facts) base" "f64_finite base"
  obtains w where "completes facts w" "world_weight w = (if uses_fallback (branch_reason b) then f64_half else base)"
proof -
  obtain w where "completes facts w" "world_base w = base" "world_reason w = branch_reason b"
    using assms by (auto simp: branches_worlds [OF assms(2,3)] world_reason_branch)
  then show ?thesis
    by (intro that [of w]) (simp_all add: world_weight_branch)
qed

lemma f64_eq_refl [simp]: "f64_eq a a"
  by (simp add: f64_eq_def)

lemma f64_eq_sym: "f64_eq a b \<longleftrightarrow> f64_eq b a"
  by (auto simp: f64_eq_def)

lemma decide_weight_cases:
  "decide_weight facts =
     (let rs = map branch_reason (branches facts);
          reason = (if \<forall>r\<in>set rs. hd rs = r then Some (hd rs) else None)
      in if \<forall>r\<in>set rs. uses_fallback r then Decided f64_half AllBranchesUseFallback reason
         else case category_base facts of
           Unknown \<Rightarrow> NoDecision
         | Qualified base \<Rightarrow>
             if \<forall>r\<in>set rs. \<not> uses_fallback r then Decided base AllBranchesKeepBase reason
             else if f64_eq base f64_half then Decided base BaseEqualsFallback reason
             else NoDecision)"
  unfolding decide_weight_def scan_all [OF branches_nonempty]
  by (cases "category_base facts") (simp_all add: Let_def hd_map [OF branches_nonempty])

theorem decide_weight_spec:
  assumes ok: "facts_ok facts"
  shows "case decide_weight facts of
      NoDecision \<Rightarrow> (\<exists>v w. completes facts v \<and> completes facts w \<and> \<not> f64_eq (world_weight v) (world_weight w))
    | Decided weight how reason \<Rightarrow>
        (\<forall>w. completes facts w \<longrightarrow> f64_eq (world_weight w) weight)
        \<and> (\<forall>r. reason = Some r \<longleftrightarrow> (\<forall>w. completes facts w \<longrightarrow> world_reason w = r))
        \<and> (how = AllBranchesKeepBase \<longleftrightarrow> (\<forall>w. completes facts w \<longrightarrow> \<not> uses_fallback (world_reason w)))
        \<and> (how = AllBranchesUseFallback \<longleftrightarrow> (\<forall>w. completes facts w \<longrightarrow> uses_fallback (world_reason w)))"
proof -
  define rs where "rs = map branch_reason (branches facts)"
  define reason where "reason = (if \<forall>r\<in>set rs. hd rs = r then Some (hd rs) else None)"
  have ne: "rs \<noteq> []"
    by (simp add: rs_def branches_nonempty)
  have all: "(\<forall>w. completes facts w \<longrightarrow> P (world_reason w)) \<longleftrightarrow> (\<forall>r\<in>set rs. P r)" for P
    using worlds_all [OF ok] by (simp add: rs_def)
  have reason: "reason = Some r \<longleftrightarrow> (\<forall>w. completes facts w \<longrightarrow> world_reason w = r)" for r
    using hd_in_set [OF ne] unfolding reason_def all [of "\<lambda>x. x = r"] by (metis option.distinct(1) option.inject)
  note decide = decide_weight_cases [of facts, unfolded Let_def, folded rs_def, folded reason_def]
  have two: "hd rs \<in> set rs"
    by (rule hd_in_set [OF ne])
  show ?thesis
  proof (cases "\<forall>r\<in>set rs. uses_fallback r")
    case True
    then have "\<forall>w. completes facts w \<longrightarrow> uses_fallback (world_reason w)"
        "\<not> (\<forall>w. completes facts w \<longrightarrow> \<not> uses_fallback (world_reason w))"
      using all [of uses_fallback] all [of "\<lambda>r. \<not> uses_fallback r"] two by blast+
    moreover have "decide_weight facts = Decided f64_half AllBranchesUseFallback reason"
      using True by (simp add: decide)
    ultimately show ?thesis
      using reason by (auto simp: world_weight_branch)
  next
    case some_keep: False
    then obtain b where b: "b \<in> set (branches facts)" "\<not> uses_fallback (branch_reason b)"
      by (auto simp: rs_def)
    show ?thesis
    proof (cases "category_base facts")
      case Unknown
      obtain v where v: "completes facts v" "world_weight v = 0"
        by (rule world_of_branch [OF b(1), of 0]) (use b(2) in \<open>simp_all add: Unknown f64_finite_def\<close>)
      obtain w where w: "completes facts w" "world_weight w = f64_half"
        by (rule world_of_branch [OF b(1), of f64_half]) (use b(2) in \<open>simp_all add: Unknown f64_finite_def f64_half_def\<close>)
      have "\<not> f64_eq (world_weight v) (world_weight w)"
        by (simp add: v w f64_eq_def f64_half_def)
      then show ?thesis
        using v(1) w(1) some_keep by (auto simp: decide Unknown)
    next
      case (Qualified base)
      then have base: "fits (category_base facts) base" "f64_finite base"
        using ok by (simp_all add: facts_ok_def)
      have weight: "world_weight w = f64_half \<or> world_weight w = base" if "completes facts w" for w
        using that Qualified by (auto simp: world_weight_branch completes_def)
      show ?thesis
      proof (cases "\<forall>r\<in>set rs. \<not> uses_fallback r")
        case True
        then have "\<forall>w. completes facts w \<longrightarrow> world_weight w = base"
          using all [of "\<lambda>r. \<not> uses_fallback r"] Qualified by (auto simp: world_weight_branch completes_def)
        then show ?thesis
          using True some_keep reason by (simp add: decide Qualified all all [of "\<lambda>r. \<not> uses_fallback r"])
      next
        case some_fall: False
        then obtain b' where b': "b' \<in> set (branches facts)" "uses_fallback (branch_reason b')"
          by (auto simp: rs_def)
        show ?thesis
        proof (cases "f64_eq base f64_half")
          case True
          then have "\<forall>w. completes facts w \<longrightarrow> f64_eq (world_weight w) base"
            using weight f64_eq_sym f64_eq_refl by metis
          moreover have "decide_weight facts = Decided base BaseEqualsFallback reason"
            using True some_keep some_fall by (auto simp: decide Qualified)
          ultimately show ?thesis
            using some_keep some_fall reason all [of uses_fallback] all [of "\<lambda>r. \<not> uses_fallback r"] by auto
        next
          case False
          obtain v where v: "completes facts v" "world_weight v = base"
            using world_of_branch [OF b(1) base] b(2) by auto
          obtain w where w: "completes facts w" "world_weight w = f64_half"
            using world_of_branch [OF b'(1) base] b'(2) by auto
          have "\<not> f64_eq (world_weight v) (world_weight w)"
            using False by (simp add: v(2) w(2))
          moreover have "decide_weight facts = NoDecision"
            using False some_keep some_fall by (auto simp: decide Qualified)
          ultimately show ?thesis
            using v(1) w(1) by (simp only: WeightDecision.case) blast
        qed
      qed
    qed
  qed
qed

end
