(* ===== verification/SessionState.thy ===== *)
theory SessionState
  imports Streams
begin

unbundle bit_operations_syntax

text \<open>
  \<open>crates/domain/src/anonymous_session.rs\<close> and \<open>challenge_policy.rs\<close>: the activity of an anonymous
  session and the waits, credits and tickets that depend on it. Times are unsigned 64-bit words,
  counters 8-bit words, with the saturating operations of the source.
\<close>

section \<open>Arithmetic\<close>

definition saturating_sub :: "'a::len word \<Rightarrow> 'a word \<Rightarrow> 'a word" where
  "saturating_sub a b = (if a \<le> b then 0 else a - b)"

definition saturating_add8 :: "u8 \<Rightarrow> u8 \<Rightarrow> u8" where
  "saturating_add8 a b = (if unat a + unat b < 256 then a + b else 255)"

lemma unat_saturating_sub: "unat (saturating_sub a b) = unat a - unat b"
  by (simp add: saturating_sub_def unat_sub_if' word_le_nat_alt)

lemma unat_saturating_add8: "unat (saturating_add8 a b) = min 255 (unat a + unat b)"
  by (auto simp: saturating_add8_def unat_word_ariths)

section \<open>The state\<close>

definition IDLE_RESET_SECONDS :: u64 where "IDLE_RESET_SECONDS = 604800"
definition ACTION_SECONDS :: u64 where "ACTION_SECONDS = 14400"
definition NETWORK_CHANGE_SECONDS :: u64 where "NETWORK_CHANGE_SECONDS = 1800"
definition POST :: u8 where "POST = 1"
definition IMAGE :: u8 where "IMAGE = 2"
definition THREAD :: u8 where "THREAD = 4"
definition REPORT :: u8 where "REPORT = 8"

datatype Activity = PostActivity (starts_thread: bool) (has_image: bool) | ReportActivity

fun activity_bits :: "Activity \<Rightarrow> u8" where
  "activity_bits (PostActivity starts picture) =
     POST OR (if starts then THREAD else 0) OR (if picture then IMAGE else 0)"
| "activity_bits ReportActivity = REPORT"

record Changes =
  network_changed :: bool
  address_changed :: bool
  environment_changed :: bool

record SessionState =
  created_at :: u64
  network_at :: u64
  address_at :: u64
  environment_at :: u64
  activity_at :: u64
  action_at :: u64
  verified_level :: u8
  post_total :: u8
  image_total :: u8
  thread_total :: u8
  report_total :: u8
  pending_bits :: u8
  change_score :: u8

definition new_state :: "u64 \<Rightarrow> SessionState" where
  "new_state now = \<lparr>created_at = now, network_at = now, address_at = now, environment_at = now,
     activity_at = 0, action_at = 0, verified_level = 0, post_total = 0, image_total = 0, thread_total = 0,
     report_total = 0, pending_bits = 0, change_score = 0\<rparr>"

definition resume :: "u64 \<Rightarrow> Changes \<Rightarrow> SessionState \<Rightarrow> SessionState \<times> bool" where
  "resume now changes s =
     (let last_at = (if 0 < activity_at s then activity_at s else created_at s) in
      if IDLE_RESET_SECONDS \<le> saturating_sub now last_at
      then ((new_state now)\<lparr>action_at := now\<rparr>, True)
      else
        let s = (if environment_changed changes then s\<lparr>environment_at := now\<rparr> else s);
            s = (if network_changed changes then s\<lparr>network_at := now, address_at := now\<rparr>
                 else if address_changed changes then s\<lparr>address_at := now\<rparr> else s)
        in (s, False))"

definition session_age :: "u64 \<Rightarrow> u64 \<Rightarrow> u64" where
  "session_age now timestamp = (if 0 < timestamp then saturating_sub now timestamp else 0)"

definition password_age :: "SessionState \<Rightarrow> u64 \<Rightarrow> u64" where
  "password_age s now = session_age now (created_at s)"

definition network_age :: "SessionState \<Rightarrow> u64 \<Rightarrow> u64" where
  "network_age s now = session_age now (network_at s)"

definition address_age :: "SessionState \<Rightarrow> u64 \<Rightarrow> u64" where
  "address_age s now = session_age now (address_at s)"

definition environment_age :: "SessionState \<Rightarrow> u64 \<Rightarrow> u64" where
  "environment_age s now = session_age now (environment_at s)"

text \<open>A counter and the bit that stands for one more.\<close>

definition counted :: "u8 \<Rightarrow> u8 \<Rightarrow> u8 \<Rightarrow> u16" where
  "counted amount pending b = ucast amount + (if pending AND b \<noteq> 0 then 1 else 0)"

definition post_count :: "SessionState \<Rightarrow> u16" where
  "post_count s = counted (post_total s) (pending_bits s) POST"

definition image_count :: "SessionState \<Rightarrow> u16" where
  "image_count s = counted (image_total s) (pending_bits s) IMAGE"

definition thread_count :: "SessionState \<Rightarrow> u16" where
  "thread_count s = counted (thread_total s) (pending_bits s) THREAD"

definition report_count :: "SessionState \<Rightarrow> u16" where
  "report_count s = counted (report_total s) (pending_bits s) REPORT"

definition is_known :: "SessionState \<Rightarrow> u64 \<Rightarrow> u32 \<Rightarrow> u64 \<Rightarrow> bool" where
  "is_known s now minutes since =
     (let network = network_age s now; required = ucast minutes * 60 in
      if 9 < change_score s \<and> network < NETWORK_CHANGE_SECONDS then False
      else if required \<le> network then True
      else if 0 < since \<and> network_at s \<le> since \<and> (0 < post_count s \<or> 5 < report_count s) then True
      else if password_age s now < required then False
      else if 0 < since then True
      else (3 \<le> post_count s \<or> 10 \<le> report_count s)
        \<and> (NETWORK_CHANGE_SECONDS \<le> network \<or> 9 \<le> post_count s \<or> 20 \<le> report_count s))"

definition is_known_or_verified :: "SessionState \<Rightarrow> u64 \<Rightarrow> u32 \<Rightarrow> u64 \<Rightarrow> bool" where
  "is_known_or_verified s now minutes since \<longleftrightarrow> 0 < verified_level s \<or> is_known s now minutes since"

definition bump_total :: "u8 \<Rightarrow> u8 \<Rightarrow> u8 \<Rightarrow> u8" where
  "bump_total pending b amount = (if pending AND b \<noteq> 0 then saturating_add8 amount 1 else amount)"

definition next_score :: "u64 \<Rightarrow> SessionState \<Rightarrow> u8" where
  "next_score now s =
     (let idle = (if 0 < activity_at s then saturating_sub now (activity_at s) else created_at s);
          is_new = (created_at s = now)
      in if idle < NETWORK_CHANGE_SECONDS \<and> \<not> is_new \<and> network_at s = now
         then min (saturating_add8 (change_score s) 3) 32
         else if idle < NETWORK_CHANGE_SECONDS \<and> \<not> is_new \<and> address_at s = now
         then min (saturating_add8 (change_score s) 1) 32
         else saturating_sub (change_score s) 1)"

definition clear_on_changes :: "SessionState \<Rightarrow> SessionState" where
  "clear_on_changes s =
     (if 32 \<le> change_score s
      then s\<lparr>post_total := 0, image_total := 0, thread_total := 0, report_total := 0, pending_bits := 0\<rparr>
      else s)"

definition count_actions :: "u64 \<Rightarrow> bool \<Rightarrow> SessionState \<Rightarrow> SessionState" where
  "count_actions now dummy s =
     (if action_at s = 0 then s\<lparr>action_at := now\<rparr>
      else if \<not> dummy \<and> ACTION_SECONDS \<le> saturating_sub now (action_at s)
      then s\<lparr>post_total := bump_total (pending_bits s) POST (post_total s),
             image_total := bump_total (pending_bits s) IMAGE (image_total s),
             thread_total := bump_total (pending_bits s) THREAD (thread_total s),
             report_total := bump_total (pending_bits s) REPORT (report_total s),
             pending_bits := 0, action_at := now\<rparr>
      else s)"

definition update_session :: "u64 \<Rightarrow> Activity \<Rightarrow> bool \<Rightarrow> SessionState \<Rightarrow> SessionState" where
  "update_session now activity dummy s =
     (let s = s\<lparr>pending_bits := pending_bits s OR activity_bits activity\<rparr>;
          s = clear_on_changes (s\<lparr>change_score := next_score now s\<rparr>)
      in (count_actions now dummy s)\<lparr>activity_at := now\<rparr>)"

section \<open>Tickets, waits and credits (challenge_policy.rs)\<close>

definition TICKET_SECONDS :: u64 where "TICKET_SECONDS = 3600"

datatype TicketDecision = NotRequired | Issue u16 | Wait u16 | Ready

text \<open>\<open>u64::checked_sub\<close>; the last subtraction of 16-bit words is checked too.\<close>

definition ticket_decision :: "u16 \<Rightarrow> u64 option \<Rightarrow> u64 \<Rightarrow> unit stop + TicketDecision" where
  "ticket_decision required issued_at now =
     (if required = 0 then Inr NotRequired
      else case Option.bind issued_at (\<lambda>issued. if issued \<le> now then Some (now - issued) else None) of
        None \<Rightarrow> Inr (Issue required)
      | Some age \<Rightarrow>
          if TICKET_SECONDS \<le> age then Inr (Issue required)
          else if age < ucast required then
            (if required < ucast age then Inl Panicked else Inr (Wait (required - ucast age)))
          else Inr Ready)"

datatype Purpose = ForThread | ForReply | ForReport | ForSignIn

record CreditGrant =
  credit_count :: u8
  credit_seconds :: u64

record ImageStyle =
  style_slider :: bool
  style_characters :: u8

definition refresh_cooldown :: "u32 \<Rightarrow> u64" where
  "refresh_cooldown unsolved = (if unsolved \<le> 2 then 5 else if unsolved \<le> 10 then ucast unsolved * 8 else 300)"

definition pre_cooldown :: "SessionState \<Rightarrow> Purpose \<Rightarrow> u64 \<Rightarrow> u64" where
  "pre_cooldown s purpose now =
     (if purpose = ForSignIn then 0
      else
        let address = (created_at s \<noteq> now \<and> address_at s = now);
            network = (created_at s \<noteq> now \<and> network_at s = now);
            seconds =
              (if purpose = ForThread \<and> (thread_count s < 1 \<or> (address \<and> post_count s < 2)) then 300
               else if purpose = ForReply \<and> (post_count s < 1 \<or> (address \<and> post_count s < 2)) then 60
               else if purpose = ForReport \<and> report_count s < 1 \<and> post_count s < 1 then 60
               else 0)
        in if purpose \<noteq> ForReport \<and> verified_level s = 0 then
             (if post_count s < 1 \<or> \<not> is_known s now 15 0 then 900
              else if password_age s now < 86400 \<and> network then 180
              else seconds)
           else seconds)"

definition credit_levels :: "(u32 \<times> u16 \<times> u8 \<times> u64) list" where
  "credit_levels = [(129600, 100, 3, 10800), (21600, 20, 2, 7200), (4320, 5, 1, 3600)]"

definition credit_grant :: "SessionState \<Rightarrow> u64 \<Rightarrow> CreditGrant option" where
  "credit_grant s now =
     (if now = 0 \<or> address_age s now < 60 then None
      else case find (\<lambda>(minutes, posts, _, _). is_known s now minutes 0 \<and> posts \<le> post_count s) credit_levels of
        None \<Rightarrow> None
      | Some (_, _, count, seconds) \<Rightarrow> Some \<lparr>credit_count = count, credit_seconds = seconds\<rparr>)"

definition credit_eligible :: "SessionState \<Rightarrow> u64 \<Rightarrow> Purpose \<Rightarrow> string \<Rightarrow> bool \<Rightarrow> bool \<Rightarrow> bool" where
  "credit_eligible s now purpose board board_enabled suspicious \<longleftrightarrow>
     board_enabled \<and> \<not> suspicious \<and> purpose \<in> {ForReply, ForReport}
     \<and> board \<notin> {''bant'', ''pol'', ''trash''} \<and> is_known s now 4320 0 \<and> 5 \<le> post_count s"

definition image_style :: "SessionState \<Rightarrow> u64 \<Rightarrow> Purpose \<Rightarrow> bool \<Rightarrow> ImageStyle" where
  "image_style s now purpose suspicious =
     (let trusted = (purpose \<noteq> ForThread \<and> \<not> suspicious \<and> is_known s now 4320 0 \<and> 5 \<le> post_count s);
          idle = (if 0 < activity_at s then saturating_sub now (activity_at s) else created_at s);
          changed = (created_at s \<noteq> now \<and> address_at s = now)
      in if trusted \<and> 0 < verified_level s then \<lparr>style_slider = (purpose = ForSignIn), style_characters = 4\<rparr>
         else if trusted \<and> idle \<le> 86400 \<and> \<not> changed then \<lparr>style_slider = (purpose = ForSignIn), style_characters = 5\<rparr>
         else \<lparr>style_slider = True, style_characters = 6\<rparr>)"

end
