(* ===== verification/SessionFacts.thy ===== *)
theory SessionFacts
  imports SessionState
begin

unbundle bit_operations_syntax

text \<open>
  The reachable states of a session, under a clock that does not run backwards: the bounds the store
  demands of a row it reads, the order of the stamps, and how slowly the counters can grow.
\<close>

section \<open>Reachable sessions\<close>

inductive session_reach :: "SessionState \<Rightarrow> u64 \<Rightarrow> bool" where
  fresh: "session_reach (new_state now) now"
| resumed: "session_reach s t \<Longrightarrow> t \<le> now \<Longrightarrow> session_reach (fst (resume now changes s)) now"
| updated: "session_reach s t \<Longrightarrow> t \<le> now \<Longrightarrow> session_reach (update_session now activity dummy s) now"

definition stamps_ok :: "SessionState \<Rightarrow> u64 \<Rightarrow> bool" where
  "stamps_ok s now \<longleftrightarrow> created_at s \<le> network_at s \<and> network_at s \<le> address_at s \<and> address_at s \<le> now
     \<and> created_at s \<le> environment_at s \<and> environment_at s \<le> now \<and> activity_at s \<le> now \<and> action_at s \<le> now"

text \<open>A counter has been earned when an action period of four hours has passed for each of its units.\<close>

definition earned :: "SessionState \<Rightarrow> u8 \<Rightarrow> bool" where
  "earned s amount \<longleftrightarrow> (if action_at s = 0 then amount = 0
     else 14400 * unat amount + unat (created_at s) \<le> unat (action_at s))"

definition session_ok :: "SessionState \<Rightarrow> u64 \<Rightarrow> bool" where
  "session_ok s now \<longleftrightarrow> stamps_ok s now \<and> change_score s \<le> 32 \<and> take_bit 4 (pending_bits s) = pending_bits s
     \<and> earned s (post_total s) \<and> earned s (image_total s) \<and> earned s (thread_total s) \<and> earned s (report_total s)"

lemmas session_defs = session_ok_def stamps_ok_def earned_def

lemma fresh_ok: "session_ok (new_state now) now" "session_ok ((new_state now)\<lparr>action_at := now\<rparr>) now"
  by (simp_all add: session_defs new_state_def)

lemma resume_ok:
  assumes "session_ok s t" "t \<le> now"
  shows "session_ok (fst (resume now changes s)) now"
proof (cases "IDLE_RESET_SECONDS \<le> saturating_sub now (if 0 < activity_at s then activity_at s else created_at s)")
  case True
  then show ?thesis
    by (simp add: resume_def Let_def fresh_ok)
next
  case False
  then show ?thesis
    using assms by (auto simp: resume_def Let_def session_defs)
qed

lemma activity_bits_small: "take_bit 4 (activity_bits a) = activity_bits a"
  by (cases a) (simp_all add: POST_def IMAGE_def THREAD_def REPORT_def)

lemma score_bound: "min (saturating_add8 a b) 32 \<le> 32" "a \<le> 32 \<Longrightarrow> saturating_sub a 1 \<le> (32 :: u8)"
  by (rule min.cobounded2) (simp add: word_le_nat_alt unat_saturating_sub)

lemma earned_zero: "earned s amount \<Longrightarrow> earned s 0"
  by (simp add: earned_def split: if_splits)

lemma bump_earned:
  assumes "earned s amount" "action_at s \<noteq> 0" "ACTION_SECONDS \<le> saturating_sub now (action_at s)"
  shows "14400 * unat (bump_total p b amount) + unat (created_at s) \<le> unat now"
proof -
  have "14400 \<le> unat now - unat (action_at s)"
    using assms(3) by (simp add: ACTION_SECONDS_def word_le_nat_alt unat_saturating_sub)
  moreover have "unat (bump_total p b amount) \<le> unat amount + 1"
    by (simp add: bump_total_def unat_saturating_add8)
  ultimately show ?thesis
    using assms(1,2) by (simp add: earned_def)
qed

text \<open>The steps of an update keep what the counters have earned.\<close>

definition totals_ok :: "SessionState \<Rightarrow> bool" where
  "totals_ok s \<longleftrightarrow> take_bit 4 (pending_bits s) = pending_bits s
     \<and> earned s (post_total s) \<and> earned s (image_total s) \<and> earned s (thread_total s) \<and> earned s (report_total s)"

lemma next_score_bound: "change_score s \<le> 32 \<Longrightarrow> next_score now s \<le> 32"
  by (simp add: next_score_def Let_def score_bound)

lemma clear_on_changes_ok: "totals_ok s \<Longrightarrow> totals_ok (clear_on_changes s)"
  using earned_zero by (auto simp: clear_on_changes_def totals_ok_def earned_def)

lemma clear_on_changes_fields [simp]:
  "created_at (clear_on_changes s) = created_at s" "network_at (clear_on_changes s) = network_at s"
  "address_at (clear_on_changes s) = address_at s" "environment_at (clear_on_changes s) = environment_at s"
  "action_at (clear_on_changes s) = action_at s" "activity_at (clear_on_changes s) = activity_at s"
  "change_score (clear_on_changes s) = change_score s"
  by (simp_all add: clear_on_changes_def)

lemma count_actions_fields [simp]:
  "created_at (count_actions now dummy s) = created_at s" "network_at (count_actions now dummy s) = network_at s"
  "address_at (count_actions now dummy s) = address_at s" "environment_at (count_actions now dummy s) = environment_at s"
  "change_score (count_actions now dummy s) = change_score s"
  by (simp_all add: count_actions_def)

lemma count_actions_ok:
  assumes ok: "totals_ok s" and now: "created_at s \<le> now" "action_at s \<le> now"
  shows "totals_ok (count_actions now dummy s) \<and> action_at (count_actions now dummy s) \<le> now"
proof -
  consider (first) "action_at s = 0" | (counted) "action_at s \<noteq> 0" "\<not> dummy" "ACTION_SECONDS \<le> saturating_sub now (action_at s)"
    | (held) "action_at s \<noteq> 0" "dummy \<or> \<not> ACTION_SECONDS \<le> saturating_sub now (action_at s)"
    by blast
  then show ?thesis
  proof cases
    case first
    then show ?thesis
      using ok now by (simp add: count_actions_def totals_ok_def earned_def word_le_nat_alt)
  next
    case counted
    then have "now \<noteq> 0"
      by (auto simp: saturating_sub_def ACTION_SECONDS_def)
    moreover have "14400 * unat (bump_total p b amount) + unat (created_at s) \<le> unat now" if "earned s amount" for p b amount
      using bump_earned that counted by blast
    ultimately show ?thesis
      using ok counted by (simp add: count_actions_def totals_ok_def earned_def [of "_\<lparr>action_at := _\<rparr>"])
  next
    case held
    then show ?thesis
      using ok now by (auto simp: count_actions_def)
  qed
qed

lemma update_ok:
  assumes ok: "session_ok s t" and now: "t \<le> now"
  shows "session_ok (update_session now activity dummy s) now"
proof -
  define marked where "marked = s\<lparr>pending_bits := pending_bits s OR activity_bits activity\<rparr>"
  define cleared where "cleared = clear_on_changes (marked\<lparr>change_score := next_score now marked\<rparr>)"
  have u: "update_session now activity dummy s = (count_actions now dummy cleared)\<lparr>activity_at := now\<rparr>"
    by (simp add: update_session_def Let_def cleared_def marked_def)
  have "totals_ok (marked\<lparr>change_score := next_score now marked\<rparr>)"
    using ok activity_bits_small by (simp add: marked_def totals_ok_def session_ok_def earned_def)
  then have t: "totals_ok cleared"
    unfolding cleared_def by (rule clear_on_changes_ok)
  have f: "created_at cleared = created_at s" "network_at cleared = network_at s" "address_at cleared = address_at s"
      "environment_at cleared = environment_at s" "action_at cleared = action_at s" "change_score cleared = next_score now marked"
    by (simp_all add: cleared_def marked_def)
  have stamps: "created_at s \<le> network_at s" "network_at s \<le> address_at s" "address_at s \<le> now" "created_at s \<le> environment_at s"
      "environment_at s \<le> now" "action_at s \<le> now" "created_at s \<le> now"
    using ok now by (auto simp: session_ok_def stamps_ok_def)
  have "totals_ok (count_actions now dummy cleared) \<and> action_at (count_actions now dummy cleared) \<le> now"
    using count_actions_ok [OF t, of now dummy] stamps f by simp
  moreover have "change_score marked \<le> 32"
    using ok by (simp add: marked_def session_ok_def)
  note next_score_bound [OF this, of now]
  ultimately show ?thesis
    using stamps f by (auto simp: u session_ok_def stamps_ok_def totals_ok_def earned_def split: if_split_asm)
qed

theorem reach_ok: "session_reach s now \<Longrightarrow> session_ok s now"
  by (induction rule: session_reach.induct) (auto intro: fresh_ok resume_ok update_ok)

section \<open>What counts cost\<close>

lemma counted_cost:
  assumes "session_ok s now" "earned s amount"
  shows "14400 * (unat (counted amount p b) - 1) \<le> unat now - unat (created_at s)"
proof -
  have "unat amount < 256"
    using unsigned_less [of amount] by simp
  then have "take_bit 16 (unat amount) = unat amount"
    by (intro take_bit_nat_eq_self) simp
  then have "unat (counted amount p b) \<le> unat amount + 1"
    using \<open>unat amount < 256\<close> by (simp add: counted_def unat_word_ariths unsigned_ucast_eq)
  moreover have "14400 * unat amount \<le> unat now - unat (created_at s)"
    using assms by (auto simp: session_defs word_le_nat_alt split: if_split_asm)
  ultimately show ?thesis
    by linarith
qed

theorem session_counts_cost:
  assumes "session_reach s now"
  shows "14400 * (unat (post_count s) - 1) \<le> unat now - unat (created_at s)"
    "14400 * (unat (image_count s) - 1) \<le> unat now - unat (created_at s)"
    "14400 * (unat (thread_count s) - 1) \<le> unat now - unat (created_at s)"
    "14400 * (unat (report_count s) - 1) \<le> unat now - unat (created_at s)"
  using reach_ok [OF assms] counted_cost [OF reach_ok [OF assms]]
  by (simp_all add: post_count_def image_count_def thread_count_def report_count_def session_ok_def)

text \<open>Without a reference time, a session is only known for so long when it is that old.\<close>

lemma known_age:
  assumes ok: "session_ok s now" and known: "is_known s now minutes 0"
  shows "unat minutes * 60 \<le> unat now - unat (created_at s)"
proof -
  have "unat minutes < 2 ^ 32"
    using unsigned_less [of minutes] by simp
  then have r: "unat (ucast minutes * 60 :: u64) = unat minutes * 60"
    by (simp add: unat_word_ariths unsigned_ucast_eq take_bit_nat_eq_self)
  have "ucast minutes * 60 \<le> network_age s now \<or> ucast minutes * 60 \<le> password_age s now"
    using known by (auto simp: is_known_def Let_def not_less split: if_split_asm)
  moreover have "unat (network_age s now) \<le> unat now - unat (created_at s)" "unat (password_age s now) \<le> unat now - unat (created_at s)"
    using ok by (auto simp: network_age_def password_age_def session_age_def unat_saturating_sub session_ok_def stamps_ok_def
        word_le_nat_alt)
  ultimately show ?thesis
    using r by (auto simp: word_le_nat_alt)
qed

text \<open>No credit goes to a session younger than three days.\<close>

theorem credit_age:
  assumes "session_reach s now" "credit_grant s now = Some g"
  shows "259200 \<le> unat now - unat (created_at s)"
proof -
  obtain minutes where "is_known s now minutes 0" "minutes \<in> {129600, 21600, 4320}"
    using assms(2) by (auto simp: credit_grant_def credit_levels_def split: if_split_asm)
  then have "unat minutes * 60 \<le> unat now - unat (created_at s)" "4320 \<le> unat minutes"
    using known_age [OF reach_ok [OF assms(1)]] by auto
  then show ?thesis by linarith
qed

section \<open>Tickets\<close>

lemma u16_less: "unat (w :: u16) < 65536"
proof -
  have "unat w < 2 ^ LENGTH(16)"
    by (rule unsigned_less)
  then show ?thesis by simp
qed

lemma unat_widen: "unat (ucast (w :: u16) :: u64) = unat w"
  using u16_less [of w] by (simp add: unsigned_ucast_eq take_bit_nat_eq_self)

theorem ticket_ready_iff:
  "ticket_decision required issued now = Inr Ready \<longleftrightarrow>
     required \<noteq> 0 \<and> (\<exists>t. issued = Some t \<and> t \<le> now \<and> unat required \<le> unat now - unat t \<and> unat now - unat t < 3600)"
proof -
  have d: "t \<le> now \<Longrightarrow> unat (now - t) = unat now - unat t" for t
    by (simp add: unat_sub word_le_nat_alt)
  show ?thesis
    by (cases issued) (auto simp: ticket_decision_def TICKET_SECONDS_def word_le_nat_alt word_less_nat_alt unat_widen d)
qed

theorem ticket_never_panics: "ticket_decision required issued now \<noteq> Inl Panicked"
proof -
  have "\<not> required < ucast age" if "age < (ucast required :: u64)" for age :: u64
  proof -
    have "unat age < unat required"
      using that by (simp add: word_less_nat_alt unat_widen)
    moreover from this have "unat (ucast age :: u16) = unat age"
      using u16_less [of required] by (simp add: unsigned_ucast_eq take_bit_nat_eq_self)
    ultimately show ?thesis
      by (simp add: word_less_nat_alt)
  qed
  then show ?thesis
    by (auto simp: ticket_decision_def split: option.split)
qed

text \<open>Every wait the policy imposes can be served within the life of a ticket.\<close>

lemma pre_cooldown_bound: "unat (pre_cooldown s purpose now) \<le> 900"
  by (simp add: pre_cooldown_def Let_def)

end
