(* ===== verification/RuleSamples.thy ===== *)
theory RuleSamples
  imports ReportWeight SessionFacts
begin

unbundle bit_operations_syntax

text \<open>A concrete report and a concrete session, for the witnesses of the properties of reports and sessions.\<close>

section \<open>A report of an unknown user whose threat is unknown\<close>

definition sample_report :: WeightFacts where
  "sample_report = \<lparr>category_base = Unknown, authenticated_janitor_or_higher = Qualified False,
     known_or_verified = Unknown, high_threat = Qualified True, category_filtered = Unknown, history_filtered = Unknown\<rparr>"

lemma sample_report_ok: "facts_ok sample_report"
  by (simp add: facts_ok_def sample_report_def)

lemma sample_report_decided: "decide_weight sample_report = Decided f64_half AllBranchesUseFallback None"
  by (simp add: decide_weight_def branches_def sample_report_def filter_evidence_def scan_branch_def branch_reason_def
    uses_fallback_def Let_def)

definition sample_world :: WorldFacts where
  "sample_world = \<lparr>world_base = 0, world_staff = False, world_known = True, world_threat = True,
     world_threshold = 0, world_history = False\<rparr>"

lemma sample_report_completed: "completes sample_report sample_world"
  by (simp add: completes_def sample_report_def sample_world_def f64_finite_def)

section \<open>A session that posts twice, one action period apart\<close>

definition sample_session :: SessionState where
  "sample_session = update_session 14500 (PostActivity False False) False
     (update_session 100 (PostActivity True True) False (new_state 100))"

lemma sample_session_reached: "session_reach sample_session 14500"
  unfolding sample_session_def by (intro updated [of _ 100] updated [of _ 100] fresh) simp_all

lemma sample_session_counts: "session_reach sample_session 14500" "post_count sample_session = 1" "created_at sample_session = 100"
proof -
  show "session_reach sample_session 14500"
    by (rule sample_session_reached)
  show "post_count sample_session = 1" "created_at sample_session = 100"
    by (simp_all add: sample_session_def update_session_def new_state_def Let_def next_score_def clear_on_changes_def
      count_actions_def saturating_sub_def saturating_add8_def ACTION_SECONDS_def NETWORK_CHANGE_SECONDS_def bump_total_def
      post_count_def counted_def POST_def IMAGE_def THREAD_def)
qed

end
