(* ===== verification/Utf8.thy ===== *)
theory Utf8
  imports CommentText Streams
begin

text \<open>
  UTF-8, as the standard library has it: the bytes of a \<open>str\<close> and \<open>std::str::from_utf8\<close>. A Rust string is
  the list of its scalar values; its bytes are \<open>utf8\<close>, its \<open>len()\<close> is \<open>byte_length\<close>.
\<close>

section \<open>Encoding and decoding\<close>

definition is_scalar :: "scalar \<Rightarrow> bool" where
  "is_scalar c \<longleftrightarrow> c < 0xD800 \<or> 0xE000 \<le> c \<and> c < 0x110000"

definition byte_of :: "nat \<Rightarrow> u8" where
  "byte_of n = of_nat n"

definition utf8_char :: "scalar \<Rightarrow> bytes" where
  "utf8_char c =
     map byte_of
       (if c < 0x80 then [c]
        else if c < 0x800 then [0xC0 + c div 64, 0x80 + c mod 64]
        else if c < 0x10000 then [0xE0 + c div 4096, 0x80 + c div 64 mod 64, 0x80 + c mod 64]
        else [0xF0 + c div 262144, 0x80 + c div 4096 mod 64, 0x80 + c div 64 mod 64, 0x80 + c mod 64])"

definition utf8 :: "utext \<Rightarrow> bytes" where
  "utf8 t = concat (map utf8_char t)"

definition is_continuation :: "u8 \<Rightarrow> bool" where
  "is_continuation b \<longleftrightarrow> 0x80 \<le> unat b \<and> unat b < 0xC0"

text \<open>The scalar of a sequence that starts with \<open>lead\<close> bits: the right length for its value, and no surrogate.\<close>

definition utf8_value :: "nat \<Rightarrow> nat \<Rightarrow> u8 list \<Rightarrow> scalar option" where
  "utf8_value least lead cs =
     (let c = foldl (\<lambda>acc b. acc * 64 + (unat b - 0x80)) lead cs in
      if list_all is_continuation cs \<and> least \<le> c \<and> is_scalar c then Some c else None)"

fun utf8_next :: "bytes \<Rightarrow> (scalar \<times> bytes) option" where
  "utf8_next [] = None"
| "utf8_next (b # bs) =
     (let a = unat b in
      if a < 0x80 then Some (a, bs)
      else if 0xC0 \<le> a \<and> a < 0xE0 \<and> 1 \<le> length bs
      then map_option (\<lambda>c. (c, drop 1 bs)) (utf8_value 0x80 (a - 0xC0) (take 1 bs))
      else if 0xE0 \<le> a \<and> a < 0xF0 \<and> 2 \<le> length bs
      then map_option (\<lambda>c. (c, drop 2 bs)) (utf8_value 0x800 (a - 0xE0) (take 2 bs))
      else if 0xF0 \<le> a \<and> a < 0xF8 \<and> 3 \<le> length bs
      then map_option (\<lambda>c. (c, drop 3 bs)) (utf8_value 0x10000 (a - 0xF0) (take 3 bs))
      else None)"

lemma utf8_next_shorter: "utf8_next bs = Some (c, rest) \<Longrightarrow> length rest < length bs"
  by (cases bs) (auto simp: Let_def split: if_splits)

function from_utf8 :: "bytes \<Rightarrow> utext option" where
  "from_utf8 bs =
     (if bs = [] then Some []
      else case utf8_next bs of
        None \<Rightarrow> None
      | Some (c, rest) \<Rightarrow> map_option (Cons c) (from_utf8 rest))"
  by pat_completeness auto

termination from_utf8
  by (relation "measure length") (auto dest: utf8_next_shorter)

declare from_utf8.simps [simp del]

section \<open>Lengths\<close>

lemma length_utf8_char [simp]: "length (utf8_char c) = len_utf8 c"
  by (simp add: utf8_char_def len_utf8_def)

lemma utf8_simps [simp]: "utf8 [] = []" "utf8 (c # t) = utf8_char c @ utf8 t" "utf8 (t @ u) = utf8 t @ utf8 u"
  by (simp_all add: utf8_def)

lemma byte_length_simps [simp]:
  "byte_length [] = 0" "byte_length (c # t) = len_utf8 c + byte_length t" "byte_length (t @ u) = byte_length t + byte_length u"
  by (simp_all add: byte_length_def)

lemma length_utf8 [simp]: "length (utf8 t) = byte_length t"
  by (induction t) simp_all

lemma len_utf8_pos: "0 < len_utf8 c"
  by (simp add: len_utf8_def)

lemma byte_length_0 [simp]: "byte_length t = 0 \<longleftrightarrow> t = []"
  by (cases t) (simp_all add: len_utf8_def)

section \<open>Round trips\<close>

lemma unat_byte_of [simp]: "n < 256 \<Longrightarrow> unat (byte_of n) = n"
  by (simp add: byte_of_def unat_of_nat)

lemma byte_of_unat [simp]: "byte_of (unat b) = b"
  by (simp add: byte_of_def)

lemma unat_byte: "unat (b :: u8) < 256"
  using unsigned_less [of b] by simp

lemma continuation_byte [simp]: "n < 64 \<Longrightarrow> is_continuation (byte_of (128 + n))"
  by (simp add: is_continuation_def)

lemma scalar_digits:
  assumes "is_scalar c"
  shows "(c div 64 * 64 + c mod 64 = c) \<and> (c div 4096 * 64 + c div 64 mod 64) * 64 + c mod 64 = c
    \<and> ((c div 262144 * 64 + c div 4096 mod 64) * 64 + c div 64 mod 64) * 64 + c mod 64 = c
    \<and> c div 262144 < 8"
proof -
  have "c div 4096 = c div 64 div 64" "c div 262144 = c div 4096 div 64"
    by (simp_all add: div_mult2_eq [symmetric])
  moreover have "c div 262144 < 8"
    using assms by (auto simp: is_scalar_def)
  ultimately show ?thesis
    by presburger
qed

lemma utf8_next_1: "unat a < 0x80 \<Longrightarrow> utf8_next (a # rest) = Some (unat a, rest)"
  by simp

lemma utf8_next_2: "0xC0 \<le> unat a \<Longrightarrow> unat a < 0xE0 \<Longrightarrow>
    utf8_next (a # b # rest) = map_option (\<lambda>c. (c, rest)) (utf8_value 0x80 (unat a - 0xC0) [b])"
  by simp

lemma utf8_next_3: "0xE0 \<le> unat a \<Longrightarrow> unat a < 0xF0 \<Longrightarrow>
    utf8_next (a # b # d # rest) = map_option (\<lambda>c. (c, rest)) (utf8_value 0x800 (unat a - 0xE0) [b, d])"
  by simp

lemma utf8_next_4: "0xF0 \<le> unat a \<Longrightarrow> unat a < 0xF8 \<Longrightarrow>
    utf8_next (a # b # d # e # rest) = map_option (\<lambda>c. (c, rest)) (utf8_value 0x10000 (unat a - 0xF0) [b, d, e])"
  by simp

declare utf8_next.simps [simp del]

lemma utf8_value_bytes:
  assumes "list_all (\<lambda>n. n < 64) ns" "foldl (\<lambda>acc n. acc * 64 + n) lead ns = c" "least \<le> c" "is_scalar c"
  shows "utf8_value least lead (map (\<lambda>n. byte_of (128 + n)) ns) = Some c"
proof -
  have "foldl (\<lambda>acc b. acc * 64 + (unat b - 0x80)) lead (map (\<lambda>n. byte_of (128 + n)) ns)
      = foldl (\<lambda>acc n. acc * 64 + n) lead ns"
    using assms(1) by (induction ns arbitrary: lead) simp_all
  moreover have "list_all is_continuation (map (\<lambda>n. byte_of (128 + n)) ns)"
    using assms(1) by (induction ns) simp_all
  ultimately show ?thesis
    using assms by (simp add: utf8_value_def)
qed

lemma utf8_char_cases:
  "c < 0x80 \<Longrightarrow> utf8_char c = [byte_of c]"
  "0x80 \<le> c \<Longrightarrow> c < 0x800 \<Longrightarrow> utf8_char c = [byte_of (0xC0 + c div 64), byte_of (0x80 + c mod 64)]"
  "0x800 \<le> c \<Longrightarrow> c < 0x10000 \<Longrightarrow>
     utf8_char c = [byte_of (0xE0 + c div 4096), byte_of (0x80 + c div 64 mod 64), byte_of (0x80 + c mod 64)]"
  "0x10000 \<le> c \<Longrightarrow> utf8_char c = [byte_of (0xF0 + c div 262144), byte_of (0x80 + c div 4096 mod 64),
     byte_of (0x80 + c div 64 mod 64), byte_of (0x80 + c mod 64)]"
  by (simp_all add: utf8_char_def)

lemma utf8_next_char:
  assumes "is_scalar c"
  shows "utf8_next (utf8_char c @ rest) = Some (c, rest)"
proof -
  note d = scalar_digits [OF assms]
  have m: "c mod 64 < 64" "c div 64 mod 64 < 64" "c div 4096 mod 64 < 64"
    by simp_all
  consider "c < 0x80" | "0x80 \<le> c" "c < 0x800" | "0x800 \<le> c" "c < 0x10000" | "0x10000 \<le> c"
    by linarith
  then show ?thesis
  proof cases
    case 1
    then show ?thesis by (simp add: utf8_char_cases utf8_next_1)
  next
    case 2
    then have l: "c div 64 < 32" by simp
    have "utf8_value 0x80 (c div 64) [byte_of (128 + c mod 64)] = Some c"
      using d m assms 2 utf8_value_bytes [where ns = "[c mod 64]" and lead = "c div 64" and c = c] by simp
    then show ?thesis
      unfolding utf8_char_cases(2) [OF 2] using l by (simp add: utf8_next_2)
  next
    case 3
    then have l: "c div 4096 < 16" by simp
    have "utf8_value 0x800 (c div 4096) [byte_of (128 + c div 64 mod 64), byte_of (128 + c mod 64)] = Some c"
      using d m assms 3 utf8_value_bytes [where ns = "[c div 64 mod 64, c mod 64]" and lead = "c div 4096" and c = c]
      by simp
    then show ?thesis
      unfolding utf8_char_cases(3) [OF 3] using l by (simp add: utf8_next_3)
  next
    case 4
    have "utf8_value 0x10000 (c div 262144)
        [byte_of (128 + c div 4096 mod 64), byte_of (128 + c div 64 mod 64), byte_of (128 + c mod 64)] = Some c"
      using d m assms 4 utf8_value_bytes [where ns = "[c div 4096 mod 64, c div 64 mod 64, c mod 64]"
          and lead = "c div 262144" and c = c] by simp
    then show ?thesis
      unfolding utf8_char_cases(4) [OF 4] using d by (simp add: utf8_next_4)
  qed
qed

lemma continuationE:
  assumes "is_continuation b"
  obtains n where "n < 64" "b = byte_of (128 + n)"
proof -
  have "unat b - 128 < 64" "b = byte_of (128 + (unat b - 128))"
    using assms by (auto simp: is_continuation_def)
  then show ?thesis
    by (rule that)
qed

lemma utf8_value_1:
  assumes "utf8_value least l [b] = Some c"
  shows "is_scalar c \<and> least \<le> c \<and> (\<exists>n<64. b = byte_of (128 + n) \<and> c = l * 64 + n)"
  using assms by (auto simp: utf8_value_def Let_def split: if_splits elim!: continuationE)

lemma utf8_value_2:
  assumes "utf8_value least l [b, d] = Some c"
  shows "is_scalar c \<and> least \<le> c \<and> (\<exists>n<64. \<exists>m<64. b = byte_of (128 + n) \<and> d = byte_of (128 + m) \<and> c = (l * 64 + n) * 64 + m)"
  using assms by (auto simp: utf8_value_def Let_def split: if_splits elim!: continuationE)

lemma utf8_value_3:
  assumes "utf8_value least l [b, d, e] = Some c"
  shows "is_scalar c \<and> least \<le> c \<and> (\<exists>n<64. \<exists>m<64. \<exists>k<64. b = byte_of (128 + n) \<and> d = byte_of (128 + m)
    \<and> e = byte_of (128 + k) \<and> c = ((l * 64 + n) * 64 + m) * 64 + k)"
  using assms by (simp add: utf8_value_def Let_def split: if_splits)
    (elim conjE continuationE, fastforce)

lemma digit_bound:
  fixes a m c :: nat
  assumes "c = a * 64 + m" "m < 64"
  shows "c div 64 = a" "c mod 64 = m"
  using assms by simp_all

lemma three_digits: "a < 16 \<Longrightarrow> n < 64 \<Longrightarrow> m < 64 \<Longrightarrow> c = (a * 64 + n) * 64 + m \<Longrightarrow> c < (0x10000 :: nat)"
  by simp

lemma div_4096: "(c :: nat) div 4096 = c div 64 div 64"
  by (simp add: div_mult2_eq [symmetric])

lemma div_262144: "(c :: nat) div 262144 = c div 4096 div 64"
  by (simp add: div_mult2_eq [symmetric])

lemma lead_byte: "n \<le> unat a \<Longrightarrow> byte_of (n + (unat a - n)) = a"
  by simp

lemma utf8_next_lead:
  assumes "utf8_next (a # r) = Some x"
  shows "unat a < 0x80 \<or> 0xC0 \<le> unat a \<and> unat a < 0xE0 \<and> 1 \<le> length r
    \<or> 0xE0 \<le> unat a \<and> unat a < 0xF0 \<and> 2 \<le> length r \<or> 0xF0 \<le> unat a \<and> unat a < 0xF8 \<and> 3 \<le> length r"
    (is "?P \<or> ?Q \<or> ?R \<or> ?S")
proof (rule ccontr)
  assume "\<not> (?P \<or> ?Q \<or> ?R \<or> ?S)"
  then have "\<not> ?P" "\<not> ?Q" "\<not> ?R" "\<not> ?S"
    by blast+
  then have "utf8_next (a # r) = None"
    unfolding utf8_next.simps Let_def by (simp only: if_False)
  with assms show False by simp
qed

lemma utf8_next_sound:
  assumes "utf8_next bs = Some (c, rest)"
  shows "is_scalar c \<and> bs = utf8_char c @ rest"
proof -
  obtain a r where bs: "bs = a # r"
    using assms by (cases bs) (simp_all add: utf8_next.simps)
  consider "unat a < 0x80" | "0xC0 \<le> unat a" "unat a < 0xE0" "1 \<le> length r" | "0xE0 \<le> unat a" "unat a < 0xF0" "2 \<le> length r"
    | "0xF0 \<le> unat a" "unat a < 0xF8" "3 \<le> length r"
    using utf8_next_lead [OF assms [unfolded bs]] by blast
  then show ?thesis
  proof cases
    case 1
    then show ?thesis
      using assms by (auto simp: bs utf8_next_1 utf8_char_cases is_scalar_def)
  next
    case 2
    then obtain b r' where r: "r = b # r'"
      by (cases r) auto
    with assms 2 have v: "utf8_value 0x80 (unat a - 0xC0) [b] = Some c" "rest = r'"
      by (auto simp: bs utf8_next_2)
    from utf8_value_1 [OF v(1)] obtain n where n: "is_scalar c" "0x80 \<le> c" "n < 64" "b = byte_of (128 + n)"
      "c = (unat a - 0xC0) * 64 + n" by blast
    then have "c < 0x800" "c div 64 = unat a - 0xC0" "c mod 64 = n"
      using 2 by simp_all
    with n 2 show ?thesis
      by (simp add: utf8_char_cases bs r v)
  next
    case 3
    then obtain b d r' where r: "r = b # d # r'"
      by (cases r; cases "tl r") auto
    with assms 3 have v: "utf8_value 0x800 (unat a - 0xE0) [b, d] = Some c" "rest = r'"
      by (auto simp: bs utf8_next_3)
    from utf8_value_2 [OF v(1)] obtain n m where n: "is_scalar c" "0x800 \<le> c" "n < 64" "m < 64" "b = byte_of (128 + n)"
      "d = byte_of (128 + m)" "c = ((unat a - 0xE0) * 64 + n) * 64 + m" by blast
    note d1 = digit_bound [OF n(7,4)]
    note d2 = digit_bound [OF d1(1) n(3)]
    have "unat a - 0xE0 < 16"
      using 3 by linarith
    then have "c < 0x10000"
      using n(3,4,7) three_digits by blast
    moreover have "c div 4096 = unat a - 0xE0"
      unfolding div_4096 by (rule d2)
    moreover note d1(2) d2(2)
    ultimately show ?thesis
      using n(1) utf8_char_cases(3) [OF n(2)] 3(1) by (simp only: bs r v(2) n(5,6) append_Cons append_Nil lead_byte simp_thms)
  next
    case 4
    then obtain b d e r' where r: "r = b # d # e # r'"
      by (cases r; cases "tl r"; cases "tl (tl r)") auto
    with assms 4 have v: "utf8_value 0x10000 (unat a - 0xF0) [b, d, e] = Some c" "rest = r'"
      by (auto simp: bs utf8_next_4)
    from utf8_value_3 [OF v(1)] obtain n m k where n: "is_scalar c" "0x10000 \<le> c" "n < 64" "m < 64" "k < 64"
      "b = byte_of (128 + n)" "d = byte_of (128 + m)" "e = byte_of (128 + k)"
      "c = (((unat a - 0xF0) * 64 + n) * 64 + m) * 64 + k" by blast
    note d1 = digit_bound [OF n(9,5)]
    note d2 = digit_bound [OF d1(1) n(4)]
    have e2: "c div 4096 = (unat a - 0xF0) * 64 + n"
      unfolding div_4096 by (rule d2)
    note d3 = digit_bound [OF e2 n(3)]
    have "c div 262144 = unat a - 0xF0"
      unfolding div_262144 by (rule d3)
    moreover note d1(2) d2(2) d3(2)
    ultimately show ?thesis
      using n(1) utf8_char_cases(4) [OF n(2)] 4(1) by (simp only: bs r v(2) n(6,7,8) append_Cons append_Nil lead_byte simp_thms)
  qed
qed

lemma from_utf8_sound: "from_utf8 bs = Some t \<Longrightarrow> list_all is_scalar t \<and> utf8 t = bs"
proof (induction bs arbitrary: t rule: from_utf8.induct)
  case (1 bs)
  show ?case
  proof (cases "bs = []")
    case True
    then show ?thesis
      using 1 by (simp add: from_utf8.simps)
  next
    case False
    then obtain c rest u where u: "utf8_next bs = Some (c, rest)" "from_utf8 rest = Some u" "t = c # u"
      using 1 by (subst (asm) (2) from_utf8.simps) (auto split: option.splits)
    then show ?thesis
      using 1 False utf8_next_sound [OF u(1)] by auto
  qed
qed

lemma from_utf8_complete: "list_all is_scalar t \<Longrightarrow> from_utf8 (utf8 t) = Some t"
proof (induction t)
  case Nil
  then show ?case by (subst from_utf8.simps) simp
next
  case (Cons c t)
  then have "utf8 (c # t) \<noteq> []" "utf8_next (utf8 (c # t)) = Some (c, utf8 t)"
    using utf8_next_char [of c "utf8 t"] len_utf8_pos [of c] by (auto simp flip: length_utf8_char)
  with Cons show ?case by (subst from_utf8.simps) simp
qed

theorem from_utf8_exact: "from_utf8 bs = Some t \<longleftrightarrow> list_all is_scalar t \<and> utf8 t = bs"
  using from_utf8_sound from_utf8_complete by blast

lemma utf8_inject: "list_all is_scalar t \<Longrightarrow> list_all is_scalar u \<Longrightarrow> utf8 t = utf8 u \<longleftrightarrow> t = u"
  using from_utf8_complete by (metis option.inject)

end
