(* ===== verification/FilteredDelimiters.thy ===== *)
theory FilteredDelimiters
  imports CommentMarkup Utf8
begin

unbundle bit_operations_syntax

text \<open>
  The finite components a word filter leaves in a comment: the budgets of \<open>wordfilter_limits.rs\<close>, the two
  saved choices of \<open>wordfilter.rs\<close> (\<open>LeetRolls\<close>) with the letters they replace, and the delimiters and
  entities of \<open>wordfiltered_comment.rs\<close> (all in \<open>crates/domain/src\<close>). The only error of these functions
  is a unit; an \<open>expect\<close> or an index out of range panics.
\<close>

section \<open>Budgets (wordfilter_limits.rs)\<close>

datatype WordfilterLimits = Ordinary | Authorized

definition for_post :: "PostLimits \<Rightarrow> WordfilterLimits" where
  "for_post l = (if is_authorized l then Authorized else Ordinary)"

fun wf_input_bytes :: "WordfilterLimits \<Rightarrow> nat" where
  "wf_input_bytes Ordinary = 131072"
| "wf_input_bytes Authorized = 524288"

fun wf_output_bytes :: "WordfilterLimits \<Rightarrow> nat" where
  "wf_output_bytes Ordinary = 524288"
| "wf_output_bytes Authorized = 2097152"

fun stored_bytes :: "WordfilterLimits \<Rightarrow> nat" where
  "stored_bytes Ordinary = 131072"
| "stored_bytes Authorized = 524288"

fun saved_post_read_bytes :: "WordfilterLimits \<Rightarrow> nat" where
  "saved_post_read_bytes Ordinary = MAX_COMMENT_BYTES"
| "saved_post_read_bytes Authorized = wf_output_bytes Authorized + stored_bytes Authorized * 2"

fun max_parts :: "WordfilterLimits \<Rightarrow> nat" where
  "max_parts Ordinary = 32768"
| "max_parts Authorized = 131072"

fun wf_version :: "WordfilterLimits \<Rightarrow> bytes" where
  "wf_version Ordinary = ascii ''WF01''"
| "wf_version Authorized = ascii ''WF02''"

section \<open>Saved choices (wordfilter.rs)\<close>

type_synonym LeetRolls = "u8 \<times> u8"

definition rolls_ok :: "LeetRolls \<Rightarrow> bool" where
  "rolls_ok r \<longleftrightarrow> fst r \<le> 5 \<and> snd r \<le> 5"

definition from_choices :: "u8 \<Rightarrow> u8 \<Rightarrow> unit stop + LeetRolls" where
  "from_choices a b = (if 5 < a \<or> 5 < b then Inl (Refused ()) else Inr (a, b))"

text \<open>
  \<open>generate_with\<close>: one choice takes the first of 64 random bytes below 252; the bytes come from the list,
  where \<open>None\<close> is a failure of the random source.
\<close>

fun draw_choice :: "nat \<Rightarrow> u8 option list \<Rightarrow> unit stop + (u8 \<times> u8 option list)" where
  "draw_choice 0 draws = Inl (Refused ())"
| "draw_choice (Suc n) [] = Inl (Refused ())"
| "draw_choice (Suc n) (None # draws) = Inl (Refused ())"
| "draw_choice (Suc n) (Some b # draws) = (if b < 252 then Inr (b mod 6, draws) else draw_choice n draws)"

definition generate_with :: "u8 option list \<Rightarrow> unit stop + LeetRolls" where
  "generate_with draws =
     bindE (draw_choice 64 draws) (\<lambda>(a, draws).
     bindE (draw_choice 64 draws) (\<lambda>(b, _). Inr (a, b)))"

text \<open>The roll 5: a \<open>t\<close> after a letter other than \<open>g\<close> and \<open>l\<close>; both characters are consumed.\<close>

fun leet_t :: "utext \<Rightarrow> utext" where
  "leet_t [] = []"
| "leet_t [c] = [c]"
| "leet_t (c # d # rest) =
     (if c \<notin> {103, 108} \<and> d \<in> {116, 84} then c # 55 # leet_t rest else c # leet_t (d # rest))"

definition leet_letters :: "(scalar \<times> scalar) list" where
  "leet_letters = [(97, 52), (101, 51), (105, 49), (111, 48), (115, 53)]"

definition eq_ignore_ascii_case :: "scalar \<Rightarrow> scalar \<Rightarrow> bool" where
  "eq_ignore_ascii_case c d \<longleftrightarrow> (let low = (\<lambda>x. if 65 \<le> x \<and> x \<le> 90 then x + 32 else x) in low c = low d)"

definition leet_once :: "utext \<Rightarrow> u8 \<Rightarrow> unit stop + utext" where
  "leet_once input roll =
     (if roll = 5 then Inr (leet_t input)
      else if unat roll < length leet_letters then
        (let (a, b) = leet_letters ! unat roll in Inr (map (\<lambda>c. if eq_ignore_ascii_case c a then b else c) input))
      else Inl Panicked)"

definition leet_with_limits :: "utext \<Rightarrow> LeetRolls \<Rightarrow> WordfilterLimits \<Rightarrow> unit stop + utext" where
  "leet_with_limits input r limits =
     (if byte_length input > wf_input_bytes limits then Inl (Refused ())
      else bindE (leet_once input (fst r)) (\<lambda>output.
        if fst r \<noteq> snd r then leet_once output (snd r) else Inr output))"

definition leet :: "utext \<Rightarrow> LeetRolls \<Rightarrow> unit stop + utext" where
  "leet input r = leet_with_limits input r Ordinary"

text \<open>\<open>expect\<close> on a result\<close>

definition expect_value :: "'e stop + 'a \<Rightarrow> 'f stop + 'a" where
  "expect_value m = (case m of Inr x \<Rightarrow> Inr x | Inl _ \<Rightarrow> Inl Panicked)"

section \<open>Entities and delimiters (wordfiltered_comment.rs)\<close>

datatype ChangedEntity = Amp | QuoteZero | QuoteSeven | QuoteZeroSeven

fun spelling :: "ChangedEntity \<Rightarrow> utext" where
  "spelling Amp = lit ''&4mp;''"
| "spelling QuoteZero = lit ''&qu0t;''"
| "spelling QuoteSeven = lit ''&quo7;''"
| "spelling QuoteZeroSeven = lit ''&qu07;''"

record Delimiter =
  del_tag :: Tag
  del_opening :: bool
  del_rolls :: "LeetRolls option"

definition selected :: "LeetRolls option \<Rightarrow> u8 \<Rightarrow> bool" where
  "selected r choice = (case r of None \<Rightarrow> False | Some (a, b) \<Rightarrow> choice = a \<or> choice = b)"

definition span_name :: "LeetRolls option \<Rightarrow> utext" where
  "span_name r =
     (case (selected r 0, selected r 4) of
        (False, False) \<Rightarrow> lit ''span''
      | (True, False) \<Rightarrow> lit ''sp4n''
      | (False, True) \<Rightarrow> lit ''5pan''
      | (True, True) \<Rightarrow> lit ''5p4n'')"

definition element_name :: "Delimiter \<Rightarrow> utext" where
  "element_name d =
     (case del_tag d of
        Spoiler \<Rightarrow> if selected (del_rolls d) 4 then lit ''5'' else lit ''s''
      | Code \<Rightarrow> if selected (del_rolls d) 1 then lit ''pr3'' else lit ''pre''
      | _ \<Rightarrow> span_name (del_rolls d))"

definition valid_element :: "Delimiter \<Rightarrow> bool" where
  "valid_element d \<longleftrightarrow> take 1 (element_name d) \<noteq> lit ''5''"

definition has_class :: "Delimiter \<Rightarrow> bool" where
  "has_class d \<longleftrightarrow> del_opening d \<and> del_tag d \<noteq> Spoiler"

definition class_attribute :: "Delimiter \<Rightarrow> utext" where
  "class_attribute d =
     (case (selected (del_rolls d) 0, selected (del_rolls d) 4) of
        (False, False) \<Rightarrow> lit ''class''
      | (True, False) \<Rightarrow> lit ''cl4ss''
      | (False, True) \<Rightarrow> lit ''cla55''
      | (True, True) \<Rightarrow> lit ''cl455'')"

text \<open>A fixed text under the saved choices, when there are any.\<close>

definition filtered :: "LeetRolls option \<Rightarrow> utext \<Rightarrow> 'e stop + utext" where
  "filtered r t = (case r of None \<Rightarrow> Inr t | Some c \<Rightarrow> expect_value (leet t c))"

fun class_literal :: "Tag \<Rightarrow> string" where
  "class_literal Spoiler = ''''"
| "class_literal Code = ''prettyprint''"
| "class_literal Sjis = ''sjis''"
| "class_literal Bold = ''mu-s''"
| "class_literal Italic = ''mu-i''"
| "class_literal Red = ''mu-r''"
| "class_literal Green = ''mu-g''"
| "class_literal Blue = ''mu-b''"

definition class_value :: "Delimiter \<Rightarrow> 'e stop + utext" where
  "class_value d = filtered (del_rolls d) (lit (class_literal (del_tag d)))"

definition is_sjis :: "Delimiter \<Rightarrow> 'e stop + bool" where
  "is_sjis d =
     (if del_opening d \<and> element_name d = lit ''span'' \<and> class_attribute d = lit ''class''
      then bindE (class_value d) (\<lambda>v. Inr (v = lit ''sjis'')) else Inr False)"

definition closes_span :: "Delimiter \<Rightarrow> bool" where
  "closes_span d \<longleftrightarrow> \<not> del_opening d \<and> element_name d = lit ''span''"

definition closing :: "Delimiter \<Rightarrow> Delimiter" where
  "closing d = d\<lparr>del_opening := False\<rparr>"

fun delimiter_literal :: "Tag \<Rightarrow> bool \<Rightarrow> utext" where
  "delimiter_literal Spoiler True = lit ''<s>''"
| "delimiter_literal Spoiler False = lit ''</s>''"
| "delimiter_literal Code True = lit ''<pre class=\"prettyprint\">''"
| "delimiter_literal Code False = lit ''</pre>''"
| "delimiter_literal Sjis True = lit ''<span class=\"sjis\">''"
| "delimiter_literal Bold True = lit ''<span class=\"mu-s\">''"
| "delimiter_literal Italic True = lit ''<span class=\"mu-i\">''"
| "delimiter_literal Red True = lit ''<span class=\"mu-r\">''"
| "delimiter_literal Green True = lit ''<span class=\"mu-g\">''"
| "delimiter_literal Blue True = lit ''<span class=\"mu-b\">''"
| "delimiter_literal _ False = lit ''</span>''"

definition delimiter_source :: "Delimiter \<Rightarrow> 'e stop + utext" where
  "delimiter_source d = filtered (del_rolls d) (delimiter_literal (del_tag d) (del_opening d))"

section \<open>The choices never fail on fixed texts\<close>

lemma draw_choice_ok: "draw_choice n draws = Inr (c, rest) \<Longrightarrow> c \<le> 5"
proof (induction n draws rule: draw_choice.induct)
  case (4 n b draws)
  have "b mod 6 < 6"
    by (rule word_mod_less_divisor) simp
  then have "b mod 6 \<le> 5"
    by (simp add: word_less_nat_alt word_le_nat_alt)
  with 4 show ?case by (auto split: if_splits)
qed simp_all

lemma generated_rolls_ok: "generate_with draws = Inr r \<Longrightarrow> rolls_ok r"
  by (auto simp: generate_with_def rolls_ok_def result_simps dest!: draw_choice_ok)

lemma leet_t_length: "length (leet_t t) = length t"
  by (induction t rule: leet_t.induct) auto

lemma leet_t_ascii: "\<forall>c\<in>set t. c < 128 \<Longrightarrow> \<forall>c\<in>set (leet_t t). c < 128"
  by (induction t rule: leet_t.induct) auto

lemma leet_letters_ascii: "unat roll < length leet_letters \<Longrightarrow> snd (leet_letters ! unat roll) < 128"
  using nth_mem [of "unat roll" leet_letters] by (auto simp: leet_letters_def)

lemma leet_once_ok:
  assumes "roll \<le> 5" "\<forall>c\<in>set t. c < 128"
  shows "\<exists>u. leet_once t roll = Inr u \<and> length u = length t \<and> (\<forall>c\<in>set u. c < 128)"
proof (cases "roll = 5")
  case True
  then show ?thesis
    using assms leet_t_ascii by (simp add: leet_once_def leet_t_length)
next
  case False
  then have "unat roll < length leet_letters"
    using assms(1) by (simp add: leet_letters_def word_le_nat_alt word_unat_eq_iff)
  moreover from this have "snd (leet_letters ! unat roll) < 128"
    by (rule leet_letters_ascii)
  ultimately show ?thesis
    using False assms(2) by (auto simp: leet_once_def Let_def split: prod.split)
qed

lemma byte_length_ascii: "\<forall>c\<in>set t. c < 128 \<Longrightarrow> byte_length t = length t"
  by (induction t) (simp_all add: len_utf8_def)

lemma lit_ascii: "\<forall>c\<in>set s. of_char c < (128 :: nat) \<Longrightarrow> \<forall>c\<in>set (lit s). c < 128"
  by (simp add: lit_def)

lemma filtered_ok:
  assumes "\<forall>c. r = Some c \<longrightarrow> rolls_ok c" "\<forall>c\<in>set t. c < 128" "length t \<le> 131072"
  shows "\<exists>u. filtered r t = Inr u \<and> length u = length t \<and> byte_length u = length t \<and> (\<forall>c\<in>set u. c < 128)"
proof (cases r)
  case None
  then show ?thesis using assms by (simp add: filtered_def byte_length_ascii)
next
  case (Some p)
  then have p: "fst p \<le> 5" "snd p \<le> 5"
    using assms by (auto simp: rolls_ok_def)
  obtain u where u: "leet_once t (fst p) = Inr u" "length u = length t" "\<forall>c\<in>set u. c < 128"
    using leet_once_ok [OF p(1) assms(2)] by blast
  obtain v where v: "leet_once u (snd p) = Inr v" "length v = length u" "\<forall>c\<in>set v. c < 128"
    using leet_once_ok [OF p(2) u(3)] by blast
  show ?thesis
    using u v assms byte_length_ascii [OF u(3)] byte_length_ascii [OF v(3)] byte_length_ascii [OF assms(2)]
    by (auto simp: Some filtered_def leet_def leet_with_limits_def expect_value_def)
qed

definition delimiter_ok :: "Delimiter \<Rightarrow> bool" where
  "delimiter_ok d \<longleftrightarrow> (\<forall>r. del_rolls d = Some r \<longrightarrow> rolls_ok r)"

lemma delimiter_literal_element: "delimiter_literal t b = element t b"
  by (cases t; cases b) simp_all

lemma element_ascii: "\<forall>c\<in>set (element t b). c < 128"
  by (cases t; cases b) (simp_all add: lit_def)

lemma element_length: "length (element t b) \<le> 26"
  by (cases t; cases b) simp_all

lemma delimiter_source_ok:
  assumes "delimiter_ok d"
  shows "\<exists>u. delimiter_source d = Inr u \<and> byte_length u = length (element (del_tag d) (del_opening d))"
proof -
  have "length (element (del_tag d) (del_opening d)) \<le> 131072"
    using element_length [of "del_tag d" "del_opening d"] by simp
  then show ?thesis
    using filtered_ok [of "del_rolls d" "element (del_tag d) (del_opening d)"] assms
    by (auto simp: delimiter_source_def delimiter_literal_element element_ascii delimiter_ok_def)
qed

end
