(* ===== verification/LinkTargets.thy ===== *)
theory LinkTargets
  imports FilteredDelimiters
begin

text \<open>
  \<open>crates/domain/src/static_quote.rs\<close> and the links of \<open>server_link.rs\<close>: references to boards and to the
  site's own servers. Every character these parsers consume is ASCII, so an index of bytes is an index of
  scalars. The crate \<open>url\<close> is a parameter: \<open>url_accepts\<close> says that \<open>Url::parse\<close> succeeds on the text with
  a host and no user or password, \<open>byte_serialize\<close> is \<open>form_urlencoded::byte_serialize\<close>.
\<close>

record UrlLibrary =
  url_accepts :: "utext \<Rightarrow> bool"
  byte_serialize :: "utext \<Rightarrow> utext"

section \<open>Text\<close>

definition without_prefix :: "utext \<Rightarrow> utext \<Rightarrow> utext option" where
  "without_prefix p t = (if take (length p) t = p then Some (drop (length p) t) else None)"

lemma strip_prefix_Some: "without_prefix p t = Some u \<longleftrightarrow> t = p @ u"
  by (auto simp: without_prefix_def) (metis append_take_drop_id)

definition starts_with :: "utext \<Rightarrow> utext \<Rightarrow> bool" where
  "starts_with t p \<longleftrightarrow> take (length p) t = p"

definition split_once :: "scalar \<Rightarrow> utext \<Rightarrow> (utext \<times> utext) option" where
  "split_once c t = (if c \<in> set t then Some (takeWhile (\<lambda>d. d \<noteq> c) t, drop 1 (dropWhile (\<lambda>d. d \<noteq> c) t)) else None)"

definition is_lower :: "scalar \<Rightarrow> bool" where "is_lower c \<longleftrightarrow> 97 \<le> c \<and> c \<le> 122"
definition is_upper :: "scalar \<Rightarrow> bool" where "is_upper c \<longleftrightarrow> 65 \<le> c \<and> c \<le> 90"
definition is_digit :: "scalar \<Rightarrow> bool" where "is_digit c \<longleftrightarrow> 48 \<le> c \<and> c \<le> 57"

definition board_char :: "scalar \<Rightarrow> bool" where
  "board_char c \<longleftrightarrow> is_lower c \<or> is_digit c"

definition term_char :: "scalar \<Rightarrow> bool" where
  "term_char c \<longleftrightarrow> is_lower c \<or> is_digit c \<or> c \<in> set (lit ''+/,-'')"

section \<open>Static references (static_quote.rs)\<close>

record StaticQuote =
  quote_board :: utext
  quote_term :: utext

definition digits :: "utext \<Rightarrow> bool" where
  "digits t \<longleftrightarrow> t \<noteq> [] \<and> list_all is_digit t"

definition strip_sign :: "utext \<Rightarrow> utext" where
  "strip_sign t = (case t of c # u \<Rightarrow> if c = 43 \<or> c = 45 then u else t | [] \<Rightarrow> t)"

definition numeric_term :: "utext \<Rightarrow> bool" where
  "numeric_term t =
     (case split_once 101 (strip_sign t) of
        Some (mantissa, exponent) \<Rightarrow> digits mantissa \<and> digits (strip_sign exponent)
      | None \<Rightarrow> digits (strip_sign t))"

definition reference_boards :: "utext list" where
  "reference_boards = map lit
     [''3'', ''a'', ''aco'', ''adv'', ''an'', ''b'', ''bant'', ''biz'', ''c'', ''cgl'', ''ck'', ''cm'', ''co'', ''d'', ''diy'',
      ''e'', ''f'', ''fa'', ''fit'', ''g'', ''gd'', ''gif'', ''h'', ''hc'', ''his'', ''hm'', ''hr'', ''i'', ''ic'', ''int'',
      ''jp'', ''k'', ''lgbt'', ''lit'', ''m'', ''mlp'', ''mu'', ''n'', ''news'', ''o'', ''out'', ''p'', ''po'', ''pol'',
      ''pw'', ''qa'', ''qst'', ''r'', ''r9k'', ''s'', ''s4s'', ''sci'', ''soc'', ''sp'', ''t'', ''tg'', ''toy'', ''trash'',
      ''trv'', ''tv'', ''u'', ''v'', ''vg'', ''vip'', ''vm'', ''vmg'', ''vp'', ''vr'', ''vrpg'', ''vst'', ''vt'', ''w'',
      ''wg'', ''wsg'', ''wsr'', ''x'', ''xs'', ''y'']"

text \<open>\<open>binary_search\<close> on a sorted list is membership.\<close>

definition reference_board :: "utext \<Rightarrow> bool" where
  "reference_board board \<longleftrightarrow> board \<in> set reference_boards"

definition parse_static :: "utext \<Rightarrow> (StaticQuote \<times> nat) option" where
  "parse_static input =
     (case without_prefix (lit ''>>>/'') input of
        None \<Rightarrow> None
      | Some rest \<Rightarrow>
          (let n = length (takeWhile board_char rest) in
           if n = 0 \<or> take 1 (drop n rest) \<noteq> [47] then None
           else
             let board = take n rest;
                 rest = drop (n + 1) rest;
                 len = length (takeWhile term_char rest);
                 spelled = take len rest
             in if numeric_term spelled
                  \<or> (\<not> starts_with spelled (lit ''rules'') \<and> \<not> reference_board board)
                  \<or> (board = lit ''f'' \<and> spelled = lit ''catalog'')
                then None
                else Some (\<lparr>quote_board = board, quote_term = spelled\<rparr>, 4 + n + 1 + len)))"

definition quote_label :: "StaticQuote \<Rightarrow> utext" where
  "quote_label q = lit ''>>>/'' @ quote_board q @ lit ''/'' @ quote_term q"

definition opens_new_tab :: "StaticQuote \<Rightarrow> bool" where
  "opens_new_tab q \<longleftrightarrow> starts_with (quote_term q) (lit ''rules'')"

definition quote_href :: "UrlLibrary \<Rightarrow> StaticQuote \<Rightarrow> utext" where
  "quote_href lib q =
     (if opens_new_tab q then
        (let rule = (case split_once 47 (quote_term q) of None \<Rightarrow> [] | Some (_, rule) \<Rightarrow> rule)
         in lit ''/rules#'' @ quote_board q @ rule)
      else if quote_term q = [] then lit ''/'' @ quote_board q @ lit ''/''
      else if quote_term q = lit ''catalog'' then lit ''/'' @ quote_board q @ lit ''/catalog''
      else
        let decoded = map (\<lambda>c. if c = 43 then 32 else c) (quote_term q)
        in lit ''/'' @ quote_board q @ lit ''/catalog#s='' @ byte_serialize lib decoded)"

definition source_href :: "UrlLibrary \<Rightarrow> StaticQuote \<Rightarrow> utext" where
  "source_href lib q =
     lit ''//'' @ (if opens_new_tab q then lit ''www'' else lit ''boards'') @ lit ''.4chan.org'' @ quote_href lib q"

section \<open>Server links (server_link.rs)\<close>

type_synonym ServerLink = utext

definition ascii_prefix :: "utext \<Rightarrow> utext \<Rightarrow> utext option" where
  "ascii_prefix input p =
     (if length p \<le> length input \<and> list_all2 eq_ignore_ascii_case (take (length p) input) p
      then Some (drop (length p) input) else None)"

definition is_alpha :: "scalar \<Rightarrow> bool" where
  "is_alpha c \<longleftrightarrow> is_lower c \<or> is_upper c"

definition server_domains :: "utext list" where
  "server_domains = map lit [''4chan.org'', ''4channel.org'', ''4cdn.org'']"

definition after_scheme :: "utext \<Rightarrow> utext option" where
  "after_scheme input =
     (case ascii_prefix input (lit ''https://'') of Some rest \<Rightarrow> Some rest | None \<Rightarrow> ascii_prefix input (lit ''http://''))"

definition server_host :: "utext \<Rightarrow> (utext \<times> utext \<times> nat) option" where
  "server_host input =
     (case after_scheme input of
        None \<Rightarrow> None
      | Some rest \<Rightarrow>
          (let start = length input - length rest;
               sublen = length (takeWhile is_alpha rest);
               (subdomain, base) =
                 (if take 1 (drop sublen rest) = [46] then (take sublen rest, drop (sublen + 1) rest) else ([], rest))
           in map_option (\<lambda>domain. (subdomain, domain, start + length rest - length base + length domain))
                (find (\<lambda>domain. ascii_prefix base domain \<noteq> None) server_domains)))"

definition path_char :: "scalar \<Rightarrow> bool" where
  "path_char c \<longleftrightarrow> is_alpha c \<or> is_digit c \<or> c \<in> set (lit ''_-.,@?^=%&;:/~+#()'')"

definition path_last_char :: "scalar \<Rightarrow> bool" where
  "path_last_char c \<longleftrightarrow> is_alpha c \<or> is_digit c \<or> c \<in> set (lit ''_-@?^=%&;/~+#'')"

definition rposition :: "('a \<Rightarrow> bool) \<Rightarrow> 'a list \<Rightarrow> nat option" where
  "rposition p xs = map_option (\<lambda>i. length xs - 1 - i) (position p (rev xs))"

text \<open>The index where the link stops.\<close>

definition link_length :: "utext \<Rightarrow> nat \<Rightarrow> nat" where
  "link_length input host_stop =
     (if take 1 (drop host_stop input) = [47] then
        (let path = drop host_stop input;
             len = length (takeWhile path_char path)
         in if 1 < len then
              (case rposition path_last_char (drop 1 (take len path)) of
                 Some i \<Rightarrow> host_stop + i + 2
               | None \<Rightarrow> host_stop)
            else host_stop)
      else host_stop)"

definition parse_server :: "UrlLibrary \<Rightarrow> utext \<Rightarrow> (ServerLink \<times> nat) option" where
  "parse_server lib input =
     (case server_host input of
        None \<Rightarrow> None
      | Some (_, _, host_stop) \<Rightarrow>
          (let n = link_length input host_stop; candidate = take n input
           in if url_accepts lib candidate then Some (candidate, n) else None))"

section \<open>What the parsers return\<close>

lemma take_length_takeWhile: "take (length (takeWhile P xs)) xs = takeWhile P xs"
  by (metis append_eq_conv_conj takeWhile_dropWhile_id)

lemma drop_length_takeWhile: "drop (length (takeWhile P xs)) xs = dropWhile P xs"
  by (metis append_eq_conv_conj takeWhile_dropWhile_id)

lemma take_1_eq: "take 1 xs = [x] \<longleftrightarrow> (\<exists>ys. xs = x # ys)"
  by (cases xs) auto

lemma parse_static_label:
  assumes "parse_static input = Some (q, n)"
  shows "n \<le> length input \<and> take n input = quote_label q \<and> quote_board q \<noteq> []
    \<and> list_all board_char (quote_board q) \<and> list_all term_char (quote_term q)"
proof -
  obtain rest where rest: "input = lit ''>>>/'' @ rest"
    using assms by (auto simp: parse_static_def strip_prefix_Some split: option.splits)
  define b where "b = takeWhile board_char rest"
  have p: "without_prefix (lit ''>>>/'') input = Some rest"
    by (simp add: rest strip_prefix_Some)
  have "take 1 (drop (length b) rest) = [47]" "b \<noteq> []"
    using assms by (auto simp: parse_static_def p Let_def b_def split: if_splits)
  then obtain r where r: "rest = b @ 47 # r"
    by (metis b_def drop_length_takeWhile takeWhile_dropWhile_id take_1_eq)
  have d: "drop (length b + 1) rest = r" "take (length b) rest = b"
    by (simp_all add: r)
  have q: "q = \<lparr>quote_board = b, quote_term = takeWhile term_char r\<rparr>" "n = 4 + length b + 1 + length (takeWhile term_char r)"
    using assms d by (auto simp: parse_static_def p Let_def take_length_takeWhile simp flip: b_def split: if_splits)
  moreover have "list_all board_char b" "list_all term_char (takeWhile term_char r)"
    by (auto simp: b_def list_all_iff dest: set_takeWhileD)
  moreover from this have "input = quote_label q @ dropWhile term_char r" "n = length (quote_label q)"
    by (simp_all add: q rest r quote_label_def lit_def)
  ultimately show ?thesis
    using \<open>b \<noteq> []\<close> q by simp
qed

lemma ascii_prefixD: "ascii_prefix input p = Some rest \<Longrightarrow>
    \<exists>u. input = u @ rest \<and> length u = length p \<and> list_all2 eq_ignore_ascii_case u p"
  by (auto simp: ascii_prefix_def split: if_splits) (metis append_take_drop_id length_take min.absorb2)

lemma rposition_less: "rposition p xs = Some i \<Longrightarrow> i < length xs"
  by (auto simp: rposition_def dest!: position_Some)

lemma link_length_le:
  assumes "stop_at \<le> length input"
  shows "stop_at \<le> link_length input stop_at \<and> link_length input stop_at \<le> length input"
proof (cases "take 1 (drop stop_at input) = [47]")
  case True
  define path where "path = drop stop_at input"
  have "length (takeWhile path_char path) \<le> length input - stop_at"
    unfolding path_def by (metis length_drop length_takeWhile_le)
  then show ?thesis
    using True assms by (auto simp: link_length_def Let_def simp flip: path_def split: option.split dest!: rposition_less)
qed (use assms in \<open>simp add: link_length_def\<close>)

text \<open>
  A server link starts with a scheme, letters and a dot, or neither, and one of the three domains,
  whatever the URL library does.
\<close>

definition approved_link :: "utext \<Rightarrow> bool" where
  "approved_link t \<longleftrightarrow> (\<exists>scheme sub domain path. t = scheme @ sub @ domain @ path
     \<and> (list_all2 eq_ignore_ascii_case scheme (lit ''https://'') \<or> list_all2 eq_ignore_ascii_case scheme (lit ''http://''))
     \<and> (sub = [] \<or> (\<exists>letters. sub = letters @ [46] \<and> list_all is_alpha letters))
     \<and> (\<exists>d\<in>set server_domains. list_all2 eq_ignore_ascii_case domain d)
     \<and> (path = [] \<or> take 1 path = [47] \<and> list_all path_char path))"

lemma after_schemeD: "after_scheme input = Some rest \<Longrightarrow> \<exists>scheme. input = scheme @ rest
    \<and> (list_all2 eq_ignore_ascii_case scheme (lit ''https://'') \<or> list_all2 eq_ignore_ascii_case scheme (lit ''http://''))"
  unfolding after_scheme_def by (auto split: option.splits dest: ascii_prefixD)

lemma server_hostD:
  assumes "server_host input = Some (sub0, dom0, n)"
  shows "n \<le> length input \<and> (\<exists>scheme sub domain. take n input = scheme @ sub @ domain
     \<and> (list_all2 eq_ignore_ascii_case scheme (lit ''https://'') \<or> list_all2 eq_ignore_ascii_case scheme (lit ''http://''))
     \<and> (sub = [] \<or> (\<exists>letters. sub = letters @ [46] \<and> list_all is_alpha letters))
     \<and> (\<exists>d\<in>set server_domains. list_all2 eq_ignore_ascii_case domain d))"
proof -
  obtain scheme rest where rest: "input = scheme @ rest"
      "list_all2 eq_ignore_ascii_case scheme (lit ''https://'') \<or> list_all2 eq_ignore_ascii_case scheme (lit ''http://'')"
      "after_scheme input = Some rest"
    using assms after_schemeD by (auto simp: server_host_def split: option.splits)
  define s where "s = takeWhile is_alpha rest"
  define sub where "sub = (if take 1 (drop (length s) rest) = [46] then s @ [46] else [])"
  define base where "base = (if take 1 (drop (length s) rest) = [46] then drop (length s + 1) rest else rest)"
  have split: "rest = sub @ base"
  proof (cases "take 1 (drop (length s) rest) = [46]")
    case True
    then obtain ys where "rest = s @ 46 # ys"
      by (metis s_def drop_length_takeWhile takeWhile_dropWhile_id take_1_eq)
    then show ?thesis by (simp add: sub_def base_def)
  qed (simp add: sub_def base_def)
  have sub: "sub = [] \<or> (\<exists>letters. sub = letters @ [46] \<and> list_all is_alpha letters)"
    by (auto simp: sub_def s_def list_all_iff dest: set_takeWhileD)
  obtain d where d: "find (\<lambda>domain. ascii_prefix base domain \<noteq> None) server_domains = Some d"
      "n = length input - length rest + length rest - length base + length d"
    using assms by (auto simp: server_host_def rest(3) Let_def simp flip: s_def
        split: if_splits option.splits) (simp_all add: base_def)
  then obtain domain tail where t: "d \<in> set server_domains" "base = domain @ tail" "length domain = length d"
      "list_all2 eq_ignore_ascii_case domain d"
    by (auto simp: find_Some_iff dest!: ascii_prefixD)
  have "n = length scheme + length sub + length domain"
    using d(2) t(2,3) by (simp add: rest(1) split)
  then have "n \<le> length input" "take n input = scheme @ sub @ domain"
    by (simp_all add: rest(1) split t(2))
  then show ?thesis
    using rest(2) sub t(1,4) by blast
qed

lemma parse_server_take:
  assumes "parse_server lib input = Some (l, n)"
  shows "n \<le> length input \<and> l = take n input"
  using assms link_length_le
  by (auto simp: parse_server_def Let_def split: option.splits if_splits dest!: server_hostD)

lemma link_length_path:
  assumes "stop_at \<le> length input"
  shows "drop stop_at (take (link_length input stop_at) input) = []
    \<or> take 1 (drop stop_at (take (link_length input stop_at) input)) = [47]
      \<and> list_all path_char (drop stop_at (take (link_length input stop_at) input))"
proof (cases "link_length input stop_at = stop_at")
  case True
  then show ?thesis by simp
next
  case False
  define path where "path = drop stop_at input"
  have slash: "take 1 path = [47]"
    using False by (auto simp: link_length_def path_def split: if_splits)
  obtain i where i: "rposition path_last_char (drop 1 (take (length (takeWhile path_char path)) path)) = Some i"
      "link_length input stop_at = stop_at + i + 2"
    using False by (auto simp: link_length_def Let_def simp flip: path_def split: if_splits option.splits)
  have "i + 2 \<le> length (takeWhile path_char path)"
    using rposition_less [OF i(1)] by (simp add: take_length_takeWhile) 
  then have "take (i + 2) path = take (i + 2) (takeWhile path_char path)"
    by (metis min.absorb1 take_length_takeWhile take_take)
  moreover have "drop stop_at (take (link_length input stop_at) input) = take (i + 2) path"
    by (simp add: i(2) path_def drop_take)
  moreover have "list_all path_char (take (i + 2) (takeWhile path_char path))"
    by (auto simp: list_all_iff dest!: in_set_takeD set_takeWhileD)
  moreover have "take 1 (take (i + 2) path) = [47]"
    using slash by simp
  ultimately show ?thesis by metis
qed

lemma parse_server_approved:
  assumes "parse_server lib input = Some (l, n)"
  shows "approved_link l"
proof -
  obtain sub0 dom0 m where h: "server_host input = Some (sub0, dom0, m)" "n = link_length input m" "l = take n input"
    using assms by (auto simp: parse_server_def Let_def split: option.splits if_splits)
  from server_hostD [OF h(1)] obtain scheme sub domain where d: "m \<le> length input" "take m input = scheme @ sub @ domain"
      "list_all2 eq_ignore_ascii_case scheme (lit ''https://'') \<or> list_all2 eq_ignore_ascii_case scheme (lit ''http://'')"
      "sub = [] \<or> (\<exists>letters. sub = letters @ [46] \<and> list_all is_alpha letters)"
      "\<exists>d\<in>set server_domains. list_all2 eq_ignore_ascii_case domain d"
    by blast
  have "l = take m input @ drop m (take n input)"
    using link_length_le [OF d(1)] h(2,3) by (metis append_take_drop_id min.absorb1 take_take)
  then have "l = scheme @ sub @ domain @ drop m (take n input)"
    by (simp add: d(2))
  moreover have "drop m (take n input) = [] \<or> take 1 (drop m (take n input)) = [47] \<and> list_all path_char (drop m (take n input))"
    unfolding h(2) by (rule link_length_path [OF d(1)])
  ultimately show ?thesis
    using d(3-5) unfolding approved_link_def by blast
qed

end
