(* ===== verification/SavedTokens.thy ===== *)
theory SavedTokens
  imports LinkTargets
begin

text \<open>
  The tokens of a formatted comment (\<open>crates/domain/src/formatting.rs\<close>), the wrappers the server generates
  (\<open>wordfiltered_comment/generated.rs\<close>), and the two projections of a formatted comment: its text
  (\<open>plain_text\<close>) and its HTML source (\<open>filtered_formatting.rs\<close>). An \<open>unreachable!\<close> or \<open>expect\<close> panics.
\<close>

section \<open>Numbers\<close>

fun decimal :: "nat \<Rightarrow> utext" where
  "decimal n = (if n < 10 then [48 + n] else decimal (n div 10) @ [48 + n mod 10])"

declare decimal.simps [simp del]

lemma decimal_digits: "list_all is_digit (decimal n) \<and> decimal n \<noteq> []"
proof (induction n rule: decimal.induct)
  case (1 n)
  show ?case
    using 1 by (cases "n < 10"; subst (1 2) decimal.simps) (auto simp: is_digit_def [abs_def])
qed

section \<open>Generated wrappers (generated.rs)\<close>

record GeneratedDelimiter =
  gen_number :: u8
  gen_tim :: "64 word option"
  gen_opening :: bool
  gen_rolls :: "LeetRolls option"

definition MAX_TIM :: int where "MAX_TIM = 9007199254740991"

definition generated_from_saved :: "u8 \<Rightarrow> bool \<Rightarrow> LeetRolls option \<Rightarrow> GeneratedDelimiter option" where
  "generated_from_saved number opened rolls =
     (if number \<le> 13
      then Some \<lparr>gen_number = number, gen_tim = None, gen_opening = opened, gen_rolls = rolls\<rparr> else None)"

definition generated_from_exif :: "u8 \<Rightarrow> bool \<Rightarrow> 64 word \<Rightarrow> LeetRolls option \<Rightarrow> GeneratedDelimiter option" where
  "generated_from_exif number opened tim rolls =
     (if 14 \<le> number \<and> number \<le> 19 \<and> 1 \<le> sint tim \<and> sint tim \<le> MAX_TIM
      then Some \<lparr>gen_number = number, gen_tim = Some tim, gen_opening = opened, gen_rolls = rolls\<rparr> else None)"

definition is_exif :: "GeneratedDelimiter \<Rightarrow> bool" where
  "is_exif g \<longleftrightarrow> gen_tim g \<noteq> None"

definition exif_tag :: "u8 \<Rightarrow> string option" where
  "exif_tag number =
     (if number = 14 then Some ''span'' else if number = 15 then Some ''a'' else if number = 16 then Some ''table''
      else if number = 17 then Some ''tr'' else if number = 18 \<or> number = 19 then Some ''td'' else None)"

definition exif_element :: "GeneratedDelimiter \<Rightarrow> 'e stop + utext" where
  "exif_element g = filtered (gen_rolls g) (lit (case exif_tag (gen_number g) of Some t \<Rightarrow> t | None \<Rightarrow> ''b''))"

definition generated_element_name :: "GeneratedDelimiter \<Rightarrow> 'e stop + utext" where
  "generated_element_name g =
     (if is_exif g then exif_element g
      else if gen_number g = 0 then Inr (lit ''b'')
      else Inr (span_name (gen_rolls g)))"

definition starts_alphabetic :: "utext \<Rightarrow> bool" where
  "starts_alphabetic t \<longleftrightarrow> (case t of [] \<Rightarrow> False | c # _ \<Rightarrow> is_alpha c)"

definition generated_valid :: "GeneratedDelimiter \<Rightarrow> 'e stop + bool" where
  "generated_valid g = bindE (generated_element_name g) (\<lambda>name. Inr (starts_alphabetic name))"

definition fortune_colors :: "string list" where
  "fortune_colors = [''#7fec11'', ''#bac200'', ''#e7890c'', ''#fd4d32'', ''#f51c6a'', ''#d302a7'', ''#9d05da'', ''#6023f8'',
     ''#2a56fb'', ''#0893e1'', ''#00cbb0'', ''#16f174'', ''#43fd3b'']"

text \<open>\<open>fortune_palette_color(self.number - 1).expect(..)\<close>; the subtraction of bytes is checked too.\<close>

definition palette_color :: "u8 \<Rightarrow> 'e stop + string" where
  "palette_color number =
     (if number = 0 then Inl Panicked
      else if unat number - 1 < length fortune_colors then Inr (fortune_colors ! (unat number - 1)) else Inl Panicked)"

definition exif_opening :: "u8 \<Rightarrow> utext \<Rightarrow> utext option" where
  "exif_opening number tim =
     (if number = 14 then Some (lit ''<span class=\"abbr\">'')
      else if number = 15 then
        Some (lit ''<a href=\"javascript:void(0)\" onclick=\"toggle('' @ [39] @ lit ''exif'' @ tim @ [39] @ lit '')\">'')
      else if number = 16 then Some (lit ''<table class=\"exif\" id=\"exif'' @ tim @ lit ''\">'')
      else if number = 17 then Some (lit ''<tr>'')
      else if number = 18 then Some (lit ''<td>'')
      else if number = 19 then Some (lit ''<td colspan=\"2\">'')
      else None)"

definition generated_source :: "GeneratedDelimiter \<Rightarrow> 'e stop + utext" where
  "generated_source g =
     (case gen_tim g of
        Some tim \<Rightarrow>
          (case exif_tag (gen_number g) of
             None \<Rightarrow> Inl Panicked
           | Some tag \<Rightarrow>
               if \<not> gen_opening g then filtered (gen_rolls g) (lit ''</'' @ lit tag @ lit ''>'')
               else case exif_opening (gen_number g) (decimal (nat (sint tim))) of
                 None \<Rightarrow> Inl Panicked
               | Some literal \<Rightarrow> filtered (gen_rolls g) literal)
      | None \<Rightarrow>
          if gen_number g = 0 then filtered (gen_rolls g) (if gen_opening g then lit ''<b>'' else lit ''</b>'')
          else if \<not> gen_opening g then filtered (gen_rolls g) (lit ''</span>'')
          else bindE (palette_color (gen_number g)) (\<lambda>color.
            filtered (gen_rolls g) (lit ''<span class=\"fortune\" style=\"color:'' @ lit color @ lit ''\">'')))"

section \<open>Tokens (formatting.rs)\<close>

datatype WordPart = PartText utext | PartBreak

datatype QuotePresentation = Unresolved | PlainQuote | DeadQuote | LocalFragment | ThreadQuote "64 word"

record PostQuote =
  pq_board :: "utext option"
  pq_id :: "64 word"
  pq_label :: utext
  pq_presentation :: QuotePresentation

datatype Token = TText utext | TQuote "64 word" | TCrossQuote utext "64 word" | TPostQuote PostQuote
  | TStaticQuote StaticQuote "WordPart list" | TSpoiler utext | TLink utext | TWrappedLink utext "WordPart list"
  | TServerLink ServerLink "WordPart list" | TWordBreak | TOpenMarkup Tag | TCloseMarkup Tag
  | TFilteredDelimiter Delimiter | TFilteredGenerated GeneratedDelimiter | TChangedEntity ChangedEntity
  | TOpenQuote | TCloseQuote | TGeneratedBold bool | TGeneratedSmall bool | TGeneratedFortune bool utext
  | TGeneratedNotice bool

record Line =
  green :: bool
  tokens :: "Token list"

section \<open>Projections\<close>

text \<open>A list of runs, in order; the values are concatenated.\<close>

definition concatE :: "('e + 'a list) list \<Rightarrow> 'e + 'a list" where
  "concatE ms = bindE (mapE id ms) (\<lambda>xs. Inr (concat xs))"

fun part_text :: "WordPart \<Rightarrow> utext" where
  "part_text (PartText t) = t"
| "part_text PartBreak = []"

fun part_source :: "WordPart \<Rightarrow> utext" where
  "part_source (PartText t) = source_html_entities t"
| "part_source PartBreak = lit ''<wbr>''"

fun visible_text :: "Token \<Rightarrow> 'e stop + utext" where
  "visible_text (TText t) = Inr t"
| "visible_text (TSpoiler t) = Inr t"
| "visible_text (TLink t) = Inr t"
| "visible_text (TQuote i) = Inr (lit ''>>'' @ decimal (unat i))"
| "visible_text (TCrossQuote board i) = Inr (lit ''>>>/'' @ board @ lit ''/'' @ decimal (unat i))"
| "visible_text (TPostQuote q) = Inr (pq_label q)"
| "visible_text (TWrappedLink _ parts) = Inr (concat (map part_text parts))"
| "visible_text (TServerLink _ parts) = Inr (concat (map part_text parts))"
| "visible_text (TStaticQuote _ parts) = Inr (concat (map part_text parts))"
| "visible_text (TChangedEntity e) = Inr (spelling e)"
| "visible_text (TFilteredGenerated g) =
     bindE (generated_valid g) (\<lambda>valid. if \<not> valid \<and> gen_opening g then generated_source g else Inr [])"
| "visible_text (TFilteredDelimiter d) = (if \<not> valid_element d \<and> del_opening d then delimiter_source d else Inr [])"
| "visible_text _ = Inr []"

fun with_separator :: "'a list \<Rightarrow> 'a list list \<Rightarrow> 'a list" where
  "with_separator s [] = []"
| "with_separator s [x] = x"
| "with_separator s (x # y # xs) = x @ s @ with_separator s (y # xs)"

definition line_text :: "(Token \<Rightarrow> 'e + utext) \<Rightarrow> Line \<Rightarrow> 'e + utext" where
  "line_text project line = concatE (map project (tokens line))"

definition plain_text :: "Line list \<Rightarrow> 'e stop + utext" where
  "plain_text lines = bindE (mapE (line_text visible_text) lines) (\<lambda>ts. Inr (with_separator [10] ts))"

fun token_source :: "UrlLibrary \<Rightarrow> Token \<Rightarrow> 'e stop + utext" where
  "token_source lib (TText t) = Inr (source_html_entities t)"
| "token_source lib (TChangedEntity e) = Inr (spelling e)"
| "token_source lib (TFilteredDelimiter d) = delimiter_source d"
| "token_source lib (TFilteredGenerated g) = generated_source g"
| "token_source lib (TOpenMarkup t) = Inr (element t True)"
| "token_source lib (TCloseMarkup t) = Inr (element t False)"
| "token_source lib TOpenQuote = Inr (lit ''<span class=\"quote\">'')"
| "token_source lib TCloseQuote = Inr (lit ''</span>'')"
| "token_source lib TWordBreak = Inr (lit ''<wbr>'')"
| "token_source lib (TPostQuote q) = Inr (source_html_entities (pq_label q))"
| "token_source lib (TStaticQuote q parts) =
     Inr (lit ''<a href=\"'' @ source_html_entities (source_href lib q) @ lit ''\" class=\"quotelink\"''
       @ (if opens_new_tab q then lit '' target=\"_blank\"'' else []) @ lit ''>''
       @ concat (map part_source parts) @ lit ''</a>'')"
| "token_source lib (TServerLink link parts) =
     Inr (lit ''<a href=\"'' @ source_html_entities link @ lit ''\" target=\"_blank\">''
       @ concat (map part_source parts) @ lit ''</a>'')"
| "token_source lib _ = Inl Panicked"

definition lines_source :: "UrlLibrary \<Rightarrow> Line list \<Rightarrow> 'e stop + utext" where
  "lines_source lib lines =
     bindE (mapE (line_text (token_source lib)) lines) (\<lambda>ts. Inr (with_separator (lit ''<br>'') ts))"

section \<open>Facts\<close>

lemma concatE_simps [simp]:
  "concatE [] = Inr []"
  "concatE (m # ms) = bindE m (\<lambda>x. bindE (concatE ms) (\<lambda>xs. Inr (x @ xs)))"
  by (cases m; cases "mapE id ms"; simp add: concatE_def)+

lemma concatE_append: "concatE (ms @ ns) = bindE (concatE ms) (\<lambda>x. bindE (concatE ns) (\<lambda>y. Inr (x @ y)))"
  by (induction ms) (simp_all add: bindE_assoc, cases "concatE ns", simp_all)

lemma with_separator_snoc: "xs \<noteq> [] \<Longrightarrow> with_separator s (xs @ [x]) = with_separator s xs @ s @ x"
proof (induction xs)
  case (Cons y ys)
  then show ?case by (cases ys) simp_all
qed simp

end
