(* ===== verification/SavedPresentation.thy ===== *)
theory SavedPresentation
  imports SavedTokens
begin

text \<open>
  \<open>crates/domain/src/saved_presentation.rs\<close> and \<open>saved_presentation/codec.rs\<close>: the frozen presentation of
  a comment, its validation, its binary form (\<open>FP01\<close>, \<open>FP02\<close>), and the rewriting of post numbers within a
  budget of work. A length or size is a natural number below \<open>2 ^ 64\<close> where the code checks it; the
  other sums are of lengths of strings in memory.
\<close>

section \<open>Data\<close>

datatype PresentationError = InvalidEncoding | UnsupportedFormat | InconsistentSavedComment | LimitExceeded
  | WorkLimitExceeded | InvalidReplacement

type_synonym 'a saved = "PresentationError stop + 'a"

abbreviation invalid :: "'a saved" where "invalid \<equiv> Inl (Refused InvalidEncoding)"
abbreviation exceeded :: "'a saved" where "exceeded \<equiv> Inl (Refused LimitExceeded)"

datatype SavedAtom = SText utext | SLineBreak | SWordBreak | SMarkup Tag bool | SQuoteSpan bool
  | SFiltered Delimiter | SEntity ChangedEntity | SStatic StaticQuote "WordPart list" | SServer ServerLink "WordPart list"

record FrozenPresentation =
  fp_atoms :: "SavedAtom list"
  fp_bounds :: WordfilterLimits
  fp_wordfiltered :: bool

record Sizes =
  encoded_size :: nat
  source_size :: nat
  search_size :: nat

definition check_sizes :: "Sizes \<Rightarrow> WordfilterLimits \<Rightarrow> unit saved" where
  "check_sizes z b =
     (if stored_bytes b < encoded_size z \<or> wf_output_bytes b < source_size z \<or> stored_bytes b < search_size z
      then exceeded else Inr ())"

definition replaced_size :: "nat \<Rightarrow> nat \<Rightarrow> nat \<Rightarrow> nat saved" where
  "replaced_size old new amount =
     (case Option.bind (checked_sub amount old) (\<lambda>n. checked_add64 n new) of Some n \<Rightarrow> Inr n | None \<Rightarrow> exceeded)"

definition replace_text :: "nat \<Rightarrow> nat \<Rightarrow> Sizes \<Rightarrow> Sizes saved" where
  "replace_text old new z =
     bindE (replaced_size old new (encoded_size z)) (\<lambda>e.
     bindE (replaced_size old new (source_size z)) (\<lambda>s.
     bindE (replaced_size old new (search_size z)) (\<lambda>t.
       Inr \<lparr>encoded_size = e, source_size = s, search_size = t\<rparr>)))"

definition escaped_char_len :: "scalar \<Rightarrow> nat" where
  "escaped_char_len c =
     (if c = 38 then 5 else if c = 60 \<or> c = 62 then 4 else if c = 34 \<or> c = 39 then 6 else len_utf8 c)"

definition escaped_len :: "utext \<Rightarrow> nat" where
  "escaped_len t = sum_list (map escaped_char_len t)"

fun tag_number :: "Tag \<Rightarrow> u8" where
  "tag_number Spoiler = 0"
| "tag_number Code = 1"
| "tag_number Sjis = 2"
| "tag_number Bold = 3"
| "tag_number Italic = 4"
| "tag_number Red = 5"
| "tag_number Green = 6"
| "tag_number Blue = 7"

definition tag_list :: "Tag list" where
  "tag_list = [Spoiler, Code, Sjis, Bold, Italic, Red, Green, Blue]"

definition tag_from :: "u8 \<Rightarrow> Tag saved" where
  "tag_from number = (if unat number < length tag_list then Inr (tag_list ! unat number) else invalid)"

section \<open>Validation\<close>

text \<open>The loop of \<open>validate_parts\<close> over the parts, with \<open>previous_text\<close> and the sizes.\<close>

fun measure_parts :: "bool \<Rightarrow> Sizes \<Rightarrow> WordPart list \<Rightarrow> Sizes saved" where
  "measure_parts previous z [] = Inr z"
| "measure_parts previous z (PartText t # parts) =
     (if t = [] \<or> previous then invalid
      else measure_parts True
        \<lparr>encoded_size = encoded_size z + (5 + byte_length t), source_size = source_size z + escaped_len t,
         search_size = search_size z + byte_length t\<rparr> parts)"
| "measure_parts previous z (PartBreak # parts) =
     measure_parts False (z\<lparr>encoded_size := encoded_size z + 1, source_size := source_size z + 5\<rparr>) parts"

definition validate_parts :: "WordPart list \<Rightarrow> utext \<Rightarrow> Sizes saved" where
  "validate_parts parts label =
     (if concat (map (\<lambda>p. utf8 (part_text p)) parts) \<noteq> utf8 label then invalid
      else measure_parts False \<lparr>encoded_size = 4, source_size = 0, search_size = 0\<rparr> parts)"

record Scanner =
  sizes :: Sizes
  scan_units :: nat
  stacks :: "LeetRolls option list list"
  quote_open :: bool
  previous_text :: bool

type_synonym amounts = "nat \<times> nat \<times> nat"
type_synonym mark = "(Tag \<times> bool \<times> LeetRolls option) option"

definition add_units :: "nat \<Rightarrow> Scanner \<Rightarrow> Scanner saved" where
  "add_units n s = (case checked_add64 (scan_units s) n of Some u \<Rightarrow> Inr (s\<lparr>scan_units := u\<rparr>) | None \<Rightarrow> exceeded)"

text \<open>The \<open>match\<close> on one atom: its encoded, source and search bytes, its delimiter, and the scanner.\<close>

fun measure_atom :: "UrlLibrary \<Rightarrow> bool \<Rightarrow> Scanner \<Rightarrow> SavedAtom \<Rightarrow> (amounts \<times> mark \<times> Scanner) saved" where
  "measure_atom lib filtering s (SText t) =
     (if t = [] \<or> previous_text s then invalid
      else Inr ((5 + byte_length t, escaped_len t, byte_length t), None, s))"
| "measure_atom lib filtering s SLineBreak = Inr ((1, 4, 1), None, s)"
| "measure_atom lib filtering s SWordBreak = Inr ((1, 5, 0), None, s)"
| "measure_atom lib filtering s (SMarkup t opened) =
     Inr ((3, byte_length (element t opened), 0), Some (t, opened, None), s)"
| "measure_atom lib filtering s (SQuoteSpan opened) =
     (if quote_open s = opened then invalid
      else Inr ((2, if opened then length ''<span class=\"quote\">'' else length ''</span>'', 0), None,
        s\<lparr>quote_open := opened\<rparr>))"
| "measure_atom lib filtering s (SFiltered d) =
     (if \<not> filtering \<or> del_rolls d = None then invalid
      else bindE (delimiter_source d) (\<lambda>t.
        Inr ((5, byte_length t, if \<not> valid_element d \<and> del_opening d then byte_length t else 0),
          Some (del_tag d, del_opening d, del_rolls d), s)))"
| "measure_atom lib filtering s (SEntity e) =
     (if \<not> filtering then invalid else Inr ((2, byte_length (spelling e), byte_length (spelling e)), None, s))"
| "measure_atom lib filtering s (SStatic q parts) =
     (case parse_static (quote_label q) of
        None \<Rightarrow> invalid
      | Some (parsed, consumed) \<Rightarrow>
          if consumed \<noteq> byte_length (quote_label q) \<or> parsed \<noteq> q then invalid
          else bindE (validate_parts parts (quote_label q)) (\<lambda>z.
            bindE (add_units (length parts) s) (\<lambda>s.
              Inr ((1 + 4 + byte_length (quote_label q) + encoded_size z,
                length ''<a href=\"'' + escaped_len (source_href lib q) + length ''\" class=\"quotelink\"''
                  + (if opens_new_tab q then length '' target=\"_blank\"'' else 0) + 1
                  + source_size z + length ''</a>'',
                search_size z), None, s))))"
| "measure_atom lib filtering s (SServer link parts) =
     (case parse_server lib link of
        None \<Rightarrow> invalid
      | Some (parsed, consumed) \<Rightarrow>
          if consumed \<noteq> byte_length link \<or> parsed \<noteq> link then invalid
          else bindE (validate_parts parts link) (\<lambda>z.
            bindE (add_units (length parts) s) (\<lambda>s.
              Inr ((1 + 4 + byte_length link + encoded_size z,
                length ''<a href=\"'' + escaped_len link + length ''\" target=\"_blank\">'' + source_size z + length ''</a>'',
                search_size z), None, s))))"

definition max_depth :: "Tag \<Rightarrow> nat" where
  "max_depth t = (if t = Spoiler \<or> t = Code then 2 else 1)"

text \<open>The array of eight stacks; a tag number is below eight.\<close>

definition apply_mark :: "mark \<Rightarrow> Scanner \<Rightarrow> Scanner saved" where
  "apply_mark m s =
     (case m of
        None \<Rightarrow> Inr s
      | Some (t, opened, rolls) \<Rightarrow>
          (let i = unat (tag_number t); stack = stacks s ! i in
           if opened then
             (if max_depth t \<le> length stack then invalid else Inr (s\<lparr>stacks := (stacks s)[i := stack @ [rolls]]\<rparr>))
           else if stack = [] \<or> last stack \<noteq> rolls then invalid
           else Inr (s\<lparr>stacks := (stacks s)[i := butlast stack]\<rparr>)))"

definition add_size :: "nat \<Rightarrow> nat \<Rightarrow> nat saved" where
  "add_size old amount = (case checked_add64 old amount of Some n \<Rightarrow> Inr n | None \<Rightarrow> exceeded)"

definition add_amounts :: "amounts \<Rightarrow> Sizes \<Rightarrow> Sizes saved" where
  "add_amounts a z =
     bindE (add_size (encoded_size z) (fst a)) (\<lambda>e.
     bindE (add_size (source_size z) (fst (snd a))) (\<lambda>s.
     bindE (add_size (search_size z) (snd (snd a))) (\<lambda>t.
       Inr \<lparr>encoded_size = e, source_size = s, search_size = t\<rparr>)))"

definition is_text_atom :: "SavedAtom \<Rightarrow> bool" where
  "is_text_atom a = (case a of SText _ \<Rightarrow> True | _ \<Rightarrow> False)"

definition validate_step :: "UrlLibrary \<Rightarrow> bool \<Rightarrow> WordfilterLimits \<Rightarrow> Scanner \<Rightarrow> SavedAtom \<Rightarrow> Scanner saved" where
  "validate_step lib filtering b s atom =
     bindE (measure_atom lib filtering s atom) (\<lambda>(a, m, s).
     bindE (apply_mark m (s\<lparr>previous_text := is_text_atom atom\<rparr>)) (\<lambda>s.
     bindE (add_amounts a (sizes s)) (\<lambda>z.
     if max_parts b < scan_units s then exceeded
     else bindE (check_sizes z b) (\<lambda>_. Inr (s\<lparr>sizes := z\<rparr>)))))"

definition first_scanner :: "nat \<Rightarrow> Scanner" where
  "first_scanner n = \<lparr>sizes = \<lparr>encoded_size = 9, source_size = 0, search_size = 0\<rparr>, scan_units = n,
     stacks = replicate 8 [], quote_open = False, previous_text = False\<rparr>"

definition validate :: "UrlLibrary \<Rightarrow> FrozenPresentation \<Rightarrow> Sizes saved" where
  "validate lib f =
     (if max_parts (fp_bounds f) < length (fp_atoms f) then exceeded
      else bindE (foldE (validate_step lib (fp_wordfiltered f) (fp_bounds f)) (first_scanner (length (fp_atoms f))) (fp_atoms f)) (\<lambda>s.
        if quote_open s \<or> list_ex (\<lambda>stack. stack \<noteq> []) (stacks s) then invalid else Inr (sizes s)))"

section \<open>Encoding\<close>

text \<open>\<open>value as u32\<close> keeps the low bits.\<close>

definition put_u32 :: "nat \<Rightarrow> bytes" where
  "put_u32 n = be32 (of_nat n)"

definition put_text :: "utext \<Rightarrow> bytes" where
  "put_text t = put_u32 (byte_length t) @ utf8 t"

fun put_part :: "WordPart \<Rightarrow> bytes" where
  "put_part (PartText t) = 0 # put_text t"
| "put_part PartBreak = [1]"

definition put_parts :: "WordPart list \<Rightarrow> bytes" where
  "put_parts parts = put_u32 (length parts) @ concat (map put_part parts)"

definition bool_byte :: "bool \<Rightarrow> u8" where
  "bool_byte b = (if b then 1 else 0)"

fun entity_number :: "ChangedEntity \<Rightarrow> u8" where
  "entity_number Amp = 0"
| "entity_number QuoteZero = 1"
| "entity_number QuoteSeven = 2"
| "entity_number QuoteZeroSeven = 3"

fun encode_atom :: "SavedAtom \<Rightarrow> bytes saved" where
  "encode_atom (SText t) = Inr (0 # put_text t)"
| "encode_atom SLineBreak = Inr [1]"
| "encode_atom SWordBreak = Inr [2]"
| "encode_atom (SMarkup t opened) = Inr [3, tag_number t, bool_byte opened]"
| "encode_atom (SQuoteSpan opened) = Inr [4, bool_byte opened]"
| "encode_atom (SFiltered d) =
     (case del_rolls d of
        None \<Rightarrow> invalid
      | Some (a, b) \<Rightarrow> Inr [5, tag_number (del_tag d), bool_byte (del_opening d), a, b])"
| "encode_atom (SEntity e) = Inr [6, entity_number e]"
| "encode_atom (SStatic q parts) = Inr (7 # put_text (quote_label q) @ put_parts parts)"
| "encode_atom (SServer link parts) = Inr (8 # put_text link @ put_parts parts)"

definition magic :: "WordfilterLimits \<Rightarrow> bytes" where
  "magic b = (case b of Ordinary \<Rightarrow> ascii ''FP01'' | Authorized \<Rightarrow> ascii ''FP02'')"

definition encode_presentation :: "UrlLibrary \<Rightarrow> FrozenPresentation \<Rightarrow> bytes saved" where
  "encode_presentation lib f =
     bindE (validate lib f) (\<lambda>z.
     bindE (concatE (map encode_atom (fp_atoms f))) (\<lambda>body.
       let output = magic (fp_bounds f) @ [bool_byte (fp_wordfiltered f)] @ put_u32 (length (fp_atoms f)) @ body
       in if length output \<noteq> encoded_size z then Inl Panicked else Inr output))"

section \<open>Decoding\<close>

record Cursor =
  cur_bytes :: bytes
  cur_offset :: nat
  cur_units :: nat
  cur_max :: nat

definition take_bytes :: "nat \<Rightarrow> Cursor \<Rightarrow> (bytes \<times> Cursor) saved" where
  "take_bytes n c =
     (case checked_add64 (cur_offset c) n of
        None \<Rightarrow> invalid
      | Some stop_at \<Rightarrow>
          if stop_at \<le> length (cur_bytes c)
          then Inr (slice_of (cur_offset c) stop_at (cur_bytes c), c\<lparr>cur_offset := stop_at\<rparr>) else invalid)"

definition read_byte :: "Cursor \<Rightarrow> (u8 \<times> Cursor) saved" where
  "read_byte c = bindE (take_bytes 1 c) (\<lambda>(bs, c). Inr (bs ! 0, c))"

definition read_bool :: "Cursor \<Rightarrow> (bool \<times> Cursor) saved" where
  "read_bool c =
     bindE (read_byte c) (\<lambda>(b, c). if b = 0 then Inr (False, c) else if b = 1 then Inr (True, c) else invalid)"

definition read_number :: "Cursor \<Rightarrow> (nat \<times> Cursor) saved" where
  "read_number c = bindE (take_bytes 4 c) (\<lambda>(bs, c). Inr (unat (of_be32 (bs ! 0) (bs ! 1) (bs ! 2) (bs ! 3)), c))"

definition read_count :: "Cursor \<Rightarrow> (nat \<times> Cursor) saved" where
  "read_count c =
     bindE (read_number c) (\<lambda>(n, c).
       case checked_add64 (cur_units c) n of
         None \<Rightarrow> invalid
       | Some u \<Rightarrow>
           if cur_max c < u \<or> length (cur_bytes c) - cur_offset c < n then invalid
           else Inr (n, c\<lparr>cur_units := u\<rparr>))"

definition read_text :: "Cursor \<Rightarrow> (utext \<times> Cursor) saved" where
  "read_text c =
     bindE (read_number c) (\<lambda>(n, c).
     bindE (take_bytes n c) (\<lambda>(bs, c).
       case from_utf8 bs of Some t \<Rightarrow> Inr (t, c) | None \<Rightarrow> invalid))"

text \<open>A loop that reads \<open>n\<close> values.\<close>

fun repeat_read :: "(Cursor \<Rightarrow> ('a \<times> Cursor) saved) \<Rightarrow> nat \<Rightarrow> Cursor \<Rightarrow> ('a list \<times> Cursor) saved" where
  "repeat_read r 0 c = Inr ([], c)"
| "repeat_read r (Suc n) c = bindE (r c) (\<lambda>(x, c). bindE (repeat_read r n c) (\<lambda>(xs, c). Inr (x # xs, c)))"

definition read_part :: "Cursor \<Rightarrow> (WordPart \<times> Cursor) saved" where
  "read_part c =
     bindE (read_byte c) (\<lambda>(b, c).
       if b = 0 then bindE (read_text c) (\<lambda>(t, c). Inr (PartText t, c))
       else if b = 1 then Inr (PartBreak, c)
       else invalid)"

definition read_parts :: "Cursor \<Rightarrow> (WordPart list \<times> Cursor) saved" where
  "read_parts c = bindE (read_count c) (\<lambda>(n, c). repeat_read read_part n c)"

definition read_tag :: "Cursor \<Rightarrow> (Tag \<times> Cursor) saved" where
  "read_tag c = bindE (read_byte c) (\<lambda>(b, c). bindE (tag_from b) (\<lambda>t. Inr (t, c)))"

definition read_entity :: "Cursor \<Rightarrow> (ChangedEntity \<times> Cursor) saved" where
  "read_entity c =
     bindE (read_byte c) (\<lambda>(b, c).
       if b = 0 then Inr (Amp, c) else if b = 1 then Inr (QuoteZero, c) else if b = 2 then Inr (QuoteSeven, c)
       else if b = 3 then Inr (QuoteZeroSeven, c) else invalid)"

definition read_static :: "Cursor \<Rightarrow> (StaticQuote \<times> Cursor) saved" where
  "read_static c =
     bindE (read_text c) (\<lambda>(t, c).
       case parse_static t of
         None \<Rightarrow> invalid
       | Some (q, used) \<Rightarrow> if used \<noteq> byte_length t then invalid else Inr (q, c))"

definition read_server :: "UrlLibrary \<Rightarrow> Cursor \<Rightarrow> (ServerLink \<times> Cursor) saved" where
  "read_server lib c =
     bindE (read_text c) (\<lambda>(t, c).
       case parse_server lib t of
         None \<Rightarrow> invalid
       | Some (link, used) \<Rightarrow> if used \<noteq> byte_length t then invalid else Inr (link, c))"

definition read_rolls :: "Cursor \<Rightarrow> (LeetRolls \<times> Cursor) saved" where
  "read_rolls c =
     bindE (read_byte c) (\<lambda>(a, c).
     bindE (read_byte c) (\<lambda>(b, c).
       case from_choices a b of Inl _ \<Rightarrow> invalid | Inr r \<Rightarrow> Inr (r, c)))"

definition read_atom :: "UrlLibrary \<Rightarrow> Cursor \<Rightarrow> (SavedAtom \<times> Cursor) saved" where
  "read_atom lib c =
     bindE (read_byte c) (\<lambda>(b, c).
       if b = 0 then bindE (read_text c) (\<lambda>(t, c). Inr (SText t, c))
       else if b = 1 then Inr (SLineBreak, c)
       else if b = 2 then Inr (SWordBreak, c)
       else if b = 3 then
         bindE (read_tag c) (\<lambda>(t, c). bindE (read_bool c) (\<lambda>(opened, c). Inr (SMarkup t opened, c)))
       else if b = 4 then bindE (read_bool c) (\<lambda>(opened, c). Inr (SQuoteSpan opened, c))
       else if b = 5 then
         bindE (read_tag c) (\<lambda>(t, c). bindE (read_bool c) (\<lambda>(opened, c). bindE (read_rolls c) (\<lambda>(r, c).
           Inr (SFiltered \<lparr>del_tag = t, del_opening = opened, del_rolls = Some r\<rparr>, c))))
       else if b = 6 then bindE (read_entity c) (\<lambda>(e, c). Inr (SEntity e, c))
       else if b = 7 then
         bindE (read_static c) (\<lambda>(q, c). bindE (read_parts c) (\<lambda>(parts, c). Inr (SStatic q parts, c)))
       else if b = 8 then
         bindE (read_server lib c) (\<lambda>(link, c). bindE (read_parts c) (\<lambda>(parts, c). Inr (SServer link parts, c)))
       else invalid)"

definition decode_presentation :: "UrlLibrary \<Rightarrow> bytes \<Rightarrow> PostLimits \<Rightarrow> FrozenPresentation saved" where
  "decode_presentation lib input limits =
     (let b = for_post limits in
      if length input < 9 \<or> stored_bytes b < length input \<or> take 4 input \<noteq> magic b then invalid
      else
        bindE (read_bool \<lparr>cur_bytes = input, cur_offset = 4, cur_units = 0, cur_max = max_parts b\<rparr>) (\<lambda>(filtering, c).
        bindE (read_count c) (\<lambda>(n, c).
        bindE (repeat_read (read_atom lib) n c) (\<lambda>(atoms, c).
          if cur_offset c \<noteq> length input then invalid
          else
            let f = \<lparr>fp_atoms = atoms, fp_bounds = b, fp_wordfiltered = filtering\<rparr>
            in bindE (validate lib f) (\<lambda>_. Inr f)))))"

end
