(* ===== verification/NestedMarks.thy ===== *)
theory NestedMarks
  imports Main
begin

text \<open>
  Words of openings and closings, each with a label: a machine with one stack of labels and a limit of its
  depth, and the grammar of the words it accepts.
\<close>

fun nest_run :: "nat \<Rightarrow> 'r list \<Rightarrow> (bool \<times> 'r) list \<Rightarrow> 'r list option" where
  "nest_run k st [] = Some st"
| "nest_run k st ((True, r) # ms) = (if k \<le> length st then None else nest_run k (st @ [r]) ms)"
| "nest_run k st ((False, r) # ms) = (if st = [] \<or> last st \<noteq> r then None else nest_run k (butlast st) ms)"

text \<open>A word is empty, or an opening, a word one level deeper, the closing with the same label, and a word.\<close>

inductive nested :: "nat \<Rightarrow> (bool \<times> 'r) list \<Rightarrow> bool" where
  nested_Nil: "nested k []"
| nested_pair: "nested k ms \<Longrightarrow> nested (Suc k) ns \<Longrightarrow> nested (Suc k) ((True, r) # ms @ (False, r) # ns)"

inductive_cases nested_ConsE: "nested k (m # ms)"

lemma nest_run_append:
  "nest_run k st (ms @ ns) = (case nest_run k st ms of None \<Rightarrow> None | Some u \<Rightarrow> nest_run k u ns)"
  by (induction k st ms rule: nest_run.induct) simp_all

lemma nested_run: "nested j ms \<Longrightarrow> length st + j \<le> k \<Longrightarrow> nest_run k st ms = Some st"
proof (induction arbitrary: st rule: nested.induct)
  case (nested_pair j ms ns r)
  then have "nest_run k (st @ [r]) ms = Some (st @ [r])" "nest_run k st ns = Some st"
    by simp_all
  with nested_pair.prems show ?case
    by (simp add: nest_run_append)
qed simp

lemma nest_run_split:
  "nest_run k (st @ [r]) ms = Some u \<Longrightarrow> length u \<le> length st \<Longrightarrow> length st < k \<Longrightarrow>
     \<exists>as bs. ms = as @ (False, r) # bs \<and> nested (k - length st - 1) as \<and> nest_run k st bs = Some u"
proof (induction "length ms" arbitrary: st r ms u rule: less_induct)
  case less
  show ?case
  proof (cases ms)
    case Nil
    with less.prems show ?thesis by auto
  next
    case (Cons m ms')
    obtain opened q where m: "m = (opened, q)"
      by (cases m)
    show ?thesis
    proof (cases opened)
      case False
      with less.prems have "q = r" "nest_run k st ms' = Some u"
        by (auto simp: Cons m split: if_splits)
      with False show ?thesis
        by (intro exI [of _ "[]"] exI [of _ ms']) (simp add: Cons m nested_Nil)
    next
      case True
      with less.prems have run: "nest_run k ((st @ [r]) @ [q]) ms' = Some u" "length (st @ [r]) < k"
        by (auto simp: Cons m split: if_splits)
      obtain as bs where 1: "ms' = as @ (False, q) # bs" "nested (k - length (st @ [r]) - 1) as"
          "nest_run k (st @ [r]) bs = Some u"
        using less.hyps [of ms' "st @ [r]" q u] run less.prems(2) by (auto simp: Cons)
      obtain cs ds where 2: "bs = cs @ (False, r) # ds" "nested (k - length st - 1) cs" "nest_run k st ds = Some u"
        using less.hyps [of bs st r u] 1 less.prems by (auto simp: Cons)
      have "Suc (k - length (st @ [r]) - 1) = k - length st - 1"
        using run(2) by simp
      then have "nested (k - length st - 1) ((True, q) # as @ (False, q) # cs)"
        using nested_pair [OF 1(2), of cs q] 2(2) by simp
      then show ?thesis
        using True 1(1) 2 by (intro exI [of _ "(True, q) # as @ (False, q) # cs"] exI [of _ ds]) (simp add: Cons m)
    qed
  qed
qed

theorem nest_run_iff: "nest_run k [] ms = Some [] \<longleftrightarrow> nested k ms"
proof
  show "nested k ms \<Longrightarrow> nest_run k [] ms = Some []"
    using nested_run [of k ms "[]" k] by simp
  show "nest_run k [] ms = Some [] \<Longrightarrow> nested k ms"
  proof (induction "length ms" arbitrary: ms rule: less_induct)
    case less
    show ?case
    proof (cases ms)
      case Nil
      then show ?thesis by (simp add: nested_Nil)
    next
      case (Cons m ms')
      with less.prems obtain r where r: "m = (True, r)" "0 < k" "nest_run k ([] @ [r]) ms' = Some []"
        by (cases m; cases "fst m") (auto split: if_splits)
      obtain as bs where ab: "ms' = as @ (False, r) # bs" "nested (k - length ([] :: 'a list) - 1) as" "nest_run k [] bs = Some []"
        using nest_run_split [OF r(3)] r(2) by auto
      have "nested k bs"
        using less.hyps [of bs] ab Cons by simp
      then show ?thesis
        using nested_pair [of "k - 1" as bs r] ab r by (simp add: Cons)
    qed
  qed
qed

end
