(* ===== verification/PresentationText.thy ===== *)
theory PresentationText
  imports SavedPresentation
begin

text \<open>
  The lines of a frozen presentation (\<open>FrozenPresentation::lines\<close> without the late lexing of post numbers),
  its source and search texts, how formatted lines are frozen, and the agreement of the sizes that
  \<open>validate\<close> counts with what is encoded and projected.
\<close>

section \<open>Lines (saved_presentation.rs)\<close>

fun atom_token :: "SavedAtom \<Rightarrow> Token" where
  "atom_token (SText t) = TText t"
| "atom_token SWordBreak = TWordBreak"
| "atom_token (SMarkup t opened) = (if opened then TOpenMarkup t else TCloseMarkup t)"
| "atom_token (SQuoteSpan opened) = (if opened then TOpenQuote else TCloseQuote)"
| "atom_token (SFiltered d) = TFilteredDelimiter d"
| "atom_token (SEntity e) = TChangedEntity e"
| "atom_token (SStatic q parts) = TStaticQuote q parts"
| "atom_token (SServer link parts) = TServerLink link parts"
| "atom_token SLineBreak = TWordBreak"

text \<open>A line break, which never becomes a token, starts a line; any other atom extends the last line.\<close>

definition add_atom :: "Line list \<Rightarrow> SavedAtom \<Rightarrow> Line list" where
  "add_atom ls a =
     (if a = SLineBreak then ls @ [\<lparr>green = False, tokens = []\<rparr>]
      else butlast ls @ [(last ls)\<lparr>tokens := tokens (last ls) @ [atom_token a]\<rparr>])"

definition static_lines :: "FrozenPresentation \<Rightarrow> Line list" where
  "static_lines f = foldl add_atom [\<lparr>green = False, tokens = []\<rparr>] (fp_atoms f)"

definition source_projection :: "UrlLibrary \<Rightarrow> FrozenPresentation \<Rightarrow> utext saved" where
  "source_projection lib f = lines_source lib (static_lines f)"

definition search_text :: "FrozenPresentation \<Rightarrow> utext saved" where
  "search_text f = plain_text (static_lines f)"

section \<open>Freezing\<close>

text \<open>\<open>None\<close> is a token without a frozen form.\<close>

fun frozen_atom :: "Token \<Rightarrow> SavedAtom option" where
  "frozen_atom (TText t) = Some (SText t)"
| "frozen_atom (TPostQuote q) = Some (SText (pq_label q))"
| "frozen_atom TWordBreak = Some SWordBreak"
| "frozen_atom (TOpenMarkup t) = Some (SMarkup t True)"
| "frozen_atom (TCloseMarkup t) = Some (SMarkup t False)"
| "frozen_atom TOpenQuote = Some (SQuoteSpan True)"
| "frozen_atom TCloseQuote = Some (SQuoteSpan False)"
| "frozen_atom (TFilteredDelimiter d) = Some (SFiltered d)"
| "frozen_atom (TChangedEntity e) = Some (SEntity e)"
| "frozen_atom (TStaticQuote q parts) = Some (SStatic q parts)"
| "frozen_atom (TServerLink link parts) = Some (SServer link parts)"
| "frozen_atom _ = None"

definition push_atom :: "SavedAtom list \<Rightarrow> SavedAtom \<Rightarrow> SavedAtom list" where
  "push_atom as a =
     (case a of
        SText t \<Rightarrow>
          if t = [] then as
          else if as \<noteq> [] \<and> is_text_atom (last as) then
            (case last as of SText p \<Rightarrow> butlast as @ [SText (p @ t)] | _ \<Rightarrow> as)
          else as @ [SText t]
      | _ \<Rightarrow> as @ [a])"

definition freeze_token :: "SavedAtom list \<Rightarrow> Token \<Rightarrow> SavedAtom list saved" where
  "freeze_token as t = (case frozen_atom t of None \<Rightarrow> Inl (Refused UnsupportedFormat) | Some a \<Rightarrow> Inr (push_atom as a))"

definition freeze_line :: "SavedAtom list \<Rightarrow> nat \<times> Line \<Rightarrow> SavedAtom list saved" where
  "freeze_line as entry =
     (let as = (if 0 < fst entry then as @ [SLineBreak] else as) in
      if green (snd entry) then Inl (Refused UnsupportedFormat)
      else foldE freeze_token as (tokens (snd entry)))"

definition freeze :: "UrlLibrary \<Rightarrow> Line list \<Rightarrow> WordfilterLimits \<Rightarrow> bool \<Rightarrow> FrozenPresentation saved" where
  "freeze lib ls b filtering =
     bindE (foldE freeze_line [] (enumerate 0 ls)) (\<lambda>atoms.
       let f = \<lparr>fp_atoms = atoms, fp_bounds = b, fp_wordfiltered = filtering\<rparr>
       in bindE (validate lib f) (\<lambda>_. Inr f))"

section \<open>Projections, atom by atom\<close>

definition rendered :: "(Token \<Rightarrow> 'e + utext) \<Rightarrow> utext \<Rightarrow> Line list \<Rightarrow> 'e + utext" where
  "rendered p s ls = bindE (mapE (line_text p) ls) (\<lambda>ts. Inr (with_separator s ts))"

definition project_atom :: "(Token \<Rightarrow> 'e + utext) \<Rightarrow> utext \<Rightarrow> SavedAtom \<Rightarrow> 'e + utext" where
  "project_atom p s a = (if a = SLineBreak then Inr s else p (atom_token a))"

abbreviation atom_source :: "UrlLibrary \<Rightarrow> SavedAtom \<Rightarrow> utext saved" where
  "atom_source lib \<equiv> project_atom (token_source lib) (lit ''<br>'')"

abbreviation atom_text :: "SavedAtom \<Rightarrow> utext saved" where
  "atom_text \<equiv> project_atom visible_text [10]"

lemma with_separator_last: "with_separator s (xs @ [x @ y]) = with_separator s (xs @ [x]) @ y"
proof (induction xs)
  case (Cons z zs)
  then show ?case by (cases zs) simp_all
qed simp

lemma line_text_snoc: "line_text p (l\<lparr>tokens := tokens l @ [t]\<rparr>) = bindE (line_text p l) (\<lambda>x. bindE (p t) (\<lambda>y. Inr (x @ y)))"
  by (simp add: line_text_def concatE_append) (cases "p t"; simp)

lemma render_add:
  assumes "ls \<noteq> []"
  shows "rendered p s (add_atom ls a) = bindE (rendered p s ls) (\<lambda>x. bindE (project_atom p s a) (\<lambda>y. Inr (x @ y)))"
proof (cases "a = SLineBreak")
  case True
  have "line_text p \<lparr>green = False, tokens = []\<rparr> = Inr []"
    by (simp add: line_text_def)
  then show ?thesis
    using True assms
    by (auto simp: rendered_def add_atom_def project_atom_def mapE_append bindE_assoc
      intro!: bindE_cong with_separator_snoc [where x = "[]", simplified] dest!: mapE_length)
next
  case False
  define l where "l = last ls"
  have ls: "ls = butlast ls @ [l]"
    using assms by (simp add: l_def)
  have "rendered p s (add_atom ls a)
      = bindE (mapE (line_text p) (butlast ls)) (\<lambda>xs. bindE (line_text p l) (\<lambda>x. bindE (p (atom_token a)) (\<lambda>y.
          Inr (with_separator s (xs @ [x]) @ y))))"
    using False by (simp add: rendered_def add_atom_def mapE_append line_text_snoc bindE_assoc with_separator_last
      flip: l_def)
  also have "\<dots> = bindE (rendered p s ls) (\<lambda>x. bindE (project_atom p s a) (\<lambda>y. Inr (x @ y)))"
    by (subst (2) ls) (simp add: False rendered_def project_atom_def mapE_append bindE_assoc)
  finally show ?thesis .
qed

lemma render_atoms:
  assumes "ls \<noteq> []"
  shows "rendered p s (foldl add_atom ls as)
    = bindE (rendered p s ls) (\<lambda>x. bindE (concatE (map (project_atom p s) as)) (\<lambda>y. Inr (x @ y)))"
  using assms
proof (induction as arbitrary: ls)
  case Nil
  then show ?case by (cases "rendered p s ls") simp_all
next
  case (Cons a as)
  have "add_atom ls a \<noteq> []"
    by (simp add: add_atom_def)
  then show ?case
    using Cons by (simp add: render_add bindE_assoc) 
qed

lemma render_first: "rendered p s [\<lparr>green = False, tokens = []\<rparr>] = Inr []"
  by (simp add: rendered_def line_text_def)

lemma concatE_unit: "bindE m Inr = m"
  by (cases m) simp_all

lemma source_projection_atoms: "source_projection lib f = concatE (map (atom_source lib) (fp_atoms f))"
  using render_atoms [of "[\<lparr>green = False, tokens = []\<rparr>]" "token_source lib" "lit ''<br>''" "fp_atoms f"]
  by (simp add: source_projection_def lines_source_def static_lines_def render_first concatE_unit flip: rendered_def)

lemma search_text_atoms: "search_text f = concatE (map atom_text (fp_atoms f))"
  using render_atoms [of "[\<lparr>green = False, tokens = []\<rparr>]" visible_text "[10]" "fp_atoms f"]
  by (simp add: search_text_def plain_text_def static_lines_def render_first concatE_unit flip: rendered_def)

section \<open>Sizes\<close>

lemma entity_length: "byte_length (entity c) = escaped_char_len c"
  by (simp add: entity_def escaped_char_len_def lit_def len_utf8_def)

lemma escaped_len_source: "escaped_len t = byte_length (source_html_entities t)"
  by (induction t) (simp_all add: escaped_len_def source_html_entities_def entity_length)

lemma byte_length_lit: "\<forall>c\<in>set s. of_char c < (128 :: nat) \<Longrightarrow> byte_length (lit s) = length s"
  using byte_length_ascii [OF lit_ascii] by simp

lemma element_bytes: "byte_length (element t b) = length (element t b)"
  by (rule byte_length_ascii [OF element_ascii])

lemma measure_parts_sizes:
  "measure_parts previous z parts = Inr z' \<Longrightarrow>
     encoded_size z' = encoded_size z + length (concat (map put_part parts))
     \<and> source_size z' = source_size z + byte_length (concat (map part_source parts))
     \<and> search_size z' = search_size z + byte_length (concat (map part_text parts))"
proof (induction previous z parts arbitrary: z' rule: measure_parts.induct)
  case (2 previous z t parts)
  have nc: "\<not> (t = [] \<or> previous)"
    using 2(2) by (auto split: if_splits)
  have "measure_parts True \<lparr>encoded_size = encoded_size z + (5 + byte_length t), source_size = source_size z + escaped_len t,
      search_size = search_size z + byte_length t\<rparr> parts = Inr z'"
    using 2(2) unfolding measure_parts.simps if_not_P [OF nc] .
  from 2(1) [OF nc this] show ?case
    by (simp add: put_text_def put_u32_def escaped_len_source)
next
  case (3 previous z parts)
  have "byte_length (lit ''<wbr>'') = 5"
    by (simp add: byte_length_lit)
  then show ?case
    using 3(1) [OF 3(2) [unfolded measure_parts.simps]] by simp
qed simp

lemma validate_parts_sizes:
  "validate_parts parts label = Inr z \<Longrightarrow>
     encoded_size z = length (put_parts parts) \<and> source_size z = byte_length (concat (map part_source parts))
     \<and> search_size z = byte_length (concat (map part_text parts))"
  by (auto simp: validate_parts_def put_parts_def put_u32_def split: if_splits dest!: measure_parts_sizes)

lemma html_lengths:
  "byte_length (lit ''<a href=\"'') = 9" "byte_length (lit ''\" class=\"quotelink\"'') = 19"
  "byte_length (lit '' target=\"_blank\"'') = 16" "byte_length (lit ''>'') = 1" "byte_length (lit ''</a>'') = 4"
  "byte_length (lit ''\" target=\"_blank\">'') = 18" "byte_length (lit ''<br>'') = 4" "byte_length (lit ''<wbr>'') = 5"
  "byte_length (lit ''<span class=\"quote\">'') = 20" "byte_length (lit ''</span>'') = 7"
  by (simp_all add: byte_length_lit)

text \<open>What one atom adds to the three sizes is what it adds to the three texts.\<close>

lemma measure_atom_sizes:
  assumes "measure_atom lib filtering s a = Inr ((e, h, t), m, s')"
  shows "\<exists>bs x y. encode_atom a = Inr bs \<and> length bs = e \<and> atom_source lib a = Inr x \<and> byte_length x = h
    \<and> atom_text a = Inr y \<and> byte_length y = t \<and> 0 < e"
proof (cases a)
  case (SText u)
  with assms show ?thesis
    by (auto simp: project_atom_def put_text_def put_u32_def escaped_len_source split: if_splits)
next
  case SLineBreak
  with assms show ?thesis by (auto simp: project_atom_def html_lengths len_utf8_def)
next
  case SWordBreak
  with assms show ?thesis by (auto simp: project_atom_def html_lengths)
next
  case (SMarkup g opened)
  with assms show ?thesis by (cases opened) (auto simp: project_atom_def)
next
  case (SQuoteSpan opened)
  with assms show ?thesis by (cases opened) (auto simp: project_atom_def html_lengths split: if_splits)
next
  case (SFiltered d)
  with assms obtain r u where "del_rolls d = Some r" "delimiter_source d = (Inr u :: utext saved)"
      "e = 5" "h = byte_length u" "t = (if \<not> valid_element d \<and> del_opening d then byte_length u else 0)"
    by (auto simp: result_simps split: if_splits)
  then show ?thesis
    by (cases r) (auto simp: SFiltered project_atom_def)
next
  case (SEntity c)
  with assms show ?thesis by (auto simp: project_atom_def split: if_splits)
next
  case (SStatic q parts)
  with assms show ?thesis
    by (auto simp: project_atom_def result_simps put_text_def put_u32_def escaped_len_source html_lengths
      split: option.splits if_splits dest!: validate_parts_sizes)
next
  case (SServer link parts)
  with assms show ?thesis
    by (auto simp: project_atom_def result_simps put_text_def put_u32_def escaped_len_source html_lengths
      split: option.splits if_splits dest!: validate_parts_sizes)
qed

end
