(* ===== verification/PresentationValid.thy ===== *)
theory PresentationValid
  imports PresentationText NestedMarks
begin

text \<open>
  What \<open>validate\<close> decides, stated without its scanner: each atom is valid by itself, runs of text are
  maximal, the quote spans open and close in turn, the delimiters of every tag are a word of the grammar
  \<open>nested\<close>, and the encoding and the two projections are within the limits of the comment.
\<close>

section \<open>Specification\<close>

text \<open>What the types of the code guarantee: strings are scalar values, the choices of a filter are at most 5.\<close>

definition text_typed :: "utext \<Rightarrow> bool" where
  "text_typed t \<longleftrightarrow> list_all is_scalar t"

definition part_typed :: "WordPart \<Rightarrow> bool" where
  "part_typed p \<longleftrightarrow> text_typed (part_text p)"

fun atom_typed :: "SavedAtom \<Rightarrow> bool" where
  "atom_typed (SText t) = text_typed t"
| "atom_typed (SFiltered d) = delimiter_ok d"
| "atom_typed (SStatic q parts) = (text_typed (quote_label q) \<and> list_all part_typed parts)"
| "atom_typed (SServer link parts) = (text_typed link \<and> list_all part_typed parts)"
| "atom_typed _ = True"

definition typed :: "FrozenPresentation \<Rightarrow> bool" where
  "typed f \<longleftrightarrow> list_all atom_typed (fp_atoms f)"

definition is_part_text :: "WordPart \<Rightarrow> bool" where
  "is_part_text p \<longleftrightarrow> (case p of PartText _ \<Rightarrow> True | PartBreak \<Rightarrow> False)"

definition parts_ok :: "WordPart list \<Rightarrow> utext \<Rightarrow> bool" where
  "parts_ok parts label \<longleftrightarrow>
     utf8 (concat (map part_text parts)) = utf8 label \<and> PartText [] \<notin> set parts
     \<and> successively (\<lambda>p q. \<not> (is_part_text p \<and> is_part_text q)) parts"

fun atom_valid :: "UrlLibrary \<Rightarrow> bool \<Rightarrow> SavedAtom \<Rightarrow> bool" where
  "atom_valid lib filtering (SText t) = (t \<noteq> [])"
| "atom_valid lib filtering (SFiltered d) = (filtering \<and> del_rolls d \<noteq> None)"
| "atom_valid lib filtering (SEntity e) = filtering"
| "atom_valid lib filtering (SStatic q parts) =
     (parse_static (quote_label q) = Some (q, byte_length (quote_label q)) \<and> parts_ok parts (quote_label q))"
| "atom_valid lib filtering (SServer link parts) =
     (parse_server lib link = Some (link, byte_length link) \<and> parts_ok parts link)"
| "atom_valid lib filtering _ = True"

fun atom_units :: "SavedAtom \<Rightarrow> nat" where
  "atom_units (SStatic q parts) = length parts"
| "atom_units (SServer link parts) = length parts"
| "atom_units _ = 0"

fun atom_mark :: "SavedAtom \<Rightarrow> mark" where
  "atom_mark (SMarkup t opened) = Some (t, opened, None)"
| "atom_mark (SFiltered d) = Some (del_tag d, del_opening d, del_rolls d)"
| "atom_mark _ = None"

fun atom_quotes :: "SavedAtom \<Rightarrow> bool list" where
  "atom_quotes (SQuoteSpan opened) = [opened]"
| "atom_quotes _ = []"

definition quotes :: "SavedAtom list \<Rightarrow> bool list" where
  "quotes as = concat (map atom_quotes as)"

definition tag_marks :: "Tag \<Rightarrow> SavedAtom list \<Rightarrow> (bool \<times> LeetRolls option) list" where
  "tag_marks t as = [(opened, r). Some (t', opened, r) \<leftarrow> map atom_mark as, t' = t]"

definition atom_bytes :: "SavedAtom \<Rightarrow> bytes" where
  "atom_bytes a = (case encode_atom a of Inr bs \<Rightarrow> bs | Inl _ \<Rightarrow> [])"

definition run_bytes :: "utext saved \<Rightarrow> nat" where
  "run_bytes m = (case m of Inr t \<Rightarrow> byte_length t | Inl _ \<Rightarrow> 0)"

definition atom_amounts :: "UrlLibrary \<Rightarrow> SavedAtom \<Rightarrow> amounts" where
  "atom_amounts lib a = (length (atom_bytes a), run_bytes (atom_source lib a), run_bytes (atom_text a))"

definition total_sizes :: "UrlLibrary \<Rightarrow> SavedAtom list \<Rightarrow> Sizes" where
  "total_sizes lib as =
     \<lparr>encoded_size = 9 + sum_list (map (\<lambda>a. fst (atom_amounts lib a)) as),
      source_size = sum_list (map (\<lambda>a. fst (snd (atom_amounts lib a))) as),
      search_size = sum_list (map (\<lambda>a. snd (snd (atom_amounts lib a))) as)\<rparr>"

definition sizes_within :: "WordfilterLimits \<Rightarrow> Sizes \<Rightarrow> bool" where
  "sizes_within b z \<longleftrightarrow> encoded_size z \<le> stored_bytes b \<and> source_size z \<le> wf_output_bytes b \<and> search_size z \<le> stored_bytes b"

definition presentation_ok :: "UrlLibrary \<Rightarrow> FrozenPresentation \<Rightarrow> bool" where
  "presentation_ok lib f \<longleftrightarrow>
     (let as = fp_atoms f; b = fp_bounds f in
      list_all (atom_valid lib (fp_wordfiltered f)) as
      \<and> successively (\<lambda>x y. \<not> (is_text_atom x \<and> is_text_atom y)) as
      \<and> successively (\<noteq>) (False # quotes as) \<and> \<not> last (False # quotes as)
      \<and> (\<forall>t. nested (max_depth t) (tag_marks t as))
      \<and> length as + sum_list (map atom_units as) \<le> max_parts b
      \<and> sizes_within b (total_sizes lib as))"

section \<open>Parts\<close>

lemma limit_values: "stored_bytes b \<le> 524288" "wf_output_bytes b \<le> 2097152" "max_parts b \<le> 131072"
  by (cases b; simp)+

lemma utf8_concat: "concat (map (\<lambda>p. utf8 (f p)) ps) = utf8 (concat (map f ps))"
  by (induction ps) simp_all

lemma measure_parts_iff:
  "(\<exists>z'. measure_parts previous z parts = Inr z') \<longleftrightarrow>
     PartText [] \<notin> set parts \<and> (previous \<longrightarrow> parts = [] \<or> \<not> is_part_text (hd parts))
     \<and> successively (\<lambda>p q. \<not> (is_part_text p \<and> is_part_text q)) parts"
proof (induction previous z parts rule: measure_parts.induct)
  case (2 previous z t parts)
  show ?case
  proof (cases "t = [] \<or> previous")
    case True
    then show ?thesis by (auto simp: is_part_text_def)
  next
    case False
    show ?thesis
      unfolding measure_parts.simps if_not_P [OF False] 2 [OF False]
      using False by (cases parts) (auto simp: is_part_text_def)
  qed
next
  case (3 previous z parts)
  show ?case
    unfolding measure_parts.simps 3 by (cases parts) (auto simp: is_part_text_def)
qed simp

lemma validate_parts_iff: "(\<exists>z. validate_parts parts label = Inr z) \<longleftrightarrow> parts_ok parts label"
  unfolding validate_parts_def utf8_concat parts_ok_def using measure_parts_iff [of False] by auto

section \<open>One atom\<close>

definition next_scanner :: "Scanner \<Rightarrow> SavedAtom \<Rightarrow> Scanner" where
  "next_scanner s a = s\<lparr>quote_open := last (quote_open s # atom_quotes a), scan_units := scan_units s + atom_units a\<rparr>"

definition fits_next :: "UrlLibrary \<Rightarrow> bool \<Rightarrow> Scanner \<Rightarrow> SavedAtom \<Rightarrow> bool" where
  "fits_next lib filtering s a \<longleftrightarrow>
     atom_valid lib filtering a \<and> (is_text_atom a \<longrightarrow> \<not> previous_text s)
     \<and> successively (\<noteq>) (quote_open s # atom_quotes a)
     \<and> scan_units s + atom_units a < 2 ^ 64"

lemma add_units_iff: "add_units n s = Inr s' \<longleftrightarrow> scan_units s + n < 2 ^ 64 \<and> s' = s\<lparr>scan_units := scan_units s + n\<rparr>"
  by (auto simp: add_units_def checked_add64_def split: if_splits)

lemma measure_atom_only:
  assumes "measure_atom lib filtering s a = Inr (am, m, s')" "scan_units s < 2 ^ 64"
  shows "fits_next lib filtering s a \<and> am = atom_amounts lib a \<and> m = atom_mark a \<and> s' = next_scanner s a"
proof -
  obtain e h t where am: "am = (e, h, t)"
    by (cases am)
  obtain bs x y where "encode_atom a = Inr bs" "length bs = e" "atom_source lib a = Inr x" "byte_length x = h"
      "atom_text a = Inr y" "byte_length y = t"
    using measure_atom_sizes [OF assms(1) [unfolded am]] by blast
  then have "am = atom_amounts lib a"
    by (simp add: am atom_amounts_def atom_bytes_def run_bytes_def)
  moreover have "fits_next lib filtering s a \<and> m = atom_mark a \<and> s' = next_scanner s a"
    using assms
    by (cases a) (auto intro: validate_parts_iff [THEN iffD1, OF exI] simp: fits_next_def next_scanner_def is_text_atom_def result_simps add_units_iff
      split: if_splits option.splits)
  ultimately show ?thesis by blast
qed

lemma measure_atom_some:
  assumes "fits_next lib filtering s a" "atom_typed a"
  shows "\<exists>am. measure_atom lib filtering s a = Inr (am, atom_mark a, next_scanner s a)"
proof (cases a)
  case (SFiltered d)
  with assms show ?thesis
    using delimiter_source_ok [of d, where 'a = PresentationError] by (auto simp: fits_next_def next_scanner_def)
next
  case (SStatic q parts)
  with assms obtain z where "validate_parts parts (quote_label q) = Inr z"
    using validate_parts_iff by (auto simp: fits_next_def)
  with assms SStatic show ?thesis
    by (simp add: fits_next_def next_scanner_def add_units_iff [THEN iffD2])
next
  case (SServer link parts)
  with assms obtain z where "validate_parts parts link = Inr z"
    using validate_parts_iff by (auto simp: fits_next_def)
  with assms SServer show ?thesis
    by (simp add: fits_next_def next_scanner_def add_units_iff [THEN iffD2])
qed (use assms in \<open>auto simp: fits_next_def next_scanner_def is_text_atom_def\<close>)

section \<open>Marks\<close>

definition tag_index :: "Tag \<Rightarrow> nat" where
  "tag_index t = unat (tag_number t)"

lemma tag_index_simps [simp]:
  "tag_index Spoiler = 0" "tag_index Code = 1" "tag_index Sjis = 2" "tag_index Bold = 3" "tag_index Italic = 4"
  "tag_index Red = 5" "tag_index Green = 6" "tag_index Blue = 7"
  by (simp_all add: tag_index_def)

lemma tag_index_less: "tag_index t < 8"
  by (cases t) simp_all

lemma tag_index_inject [simp]: "tag_index t = tag_index u \<longleftrightarrow> t = u"
  by (cases t; cases u) simp_all

lemma tag_index_surj:
  assumes "i < 8"
  obtains t where "tag_index t = i"
proof -
  have "i = 0 \<or> i = 1 \<or> i = 2 \<or> i = 3 \<or> i = 4 \<or> i = 5 \<or> i = 6 \<or> i = 7"
    using assms by linarith
  then have "\<exists>t. tag_index t = i"
    by (elim disjE) (metis tag_index_simps)+
  then show ?thesis
    using that by blast
qed

lemma apply_mark_None [simp]: "apply_mark None s = Inr s"
  by (simp add: apply_mark_def)

lemma apply_mark_sets: "apply_mark m s = Inr s' \<Longrightarrow> s' = s\<lparr>stacks := stacks s'\<rparr>"
  by (auto simp: apply_mark_def Let_def split: option.splits if_splits)

lemma apply_mark_length: "apply_mark m s = Inr s' \<Longrightarrow> length (stacks s') = length (stacks s)"
  by (auto simp: apply_mark_def Let_def split: option.splits if_splits)

lemma apply_mark_tag:
  assumes "length (stacks s) = 8"
  shows "apply_mark (Some (t, opened, r)) s =
    (case nest_run (max_depth t) (stacks s ! tag_index t) [(opened, r)] of
       None \<Rightarrow> invalid | Some st \<Rightarrow> Inr (s\<lparr>stacks := (stacks s)[tag_index t := st]\<rparr>))"
  by (cases opened) (simp_all add: apply_mark_def Let_def tag_index_def)

text \<open>The marks of the atoms, applied in order, ignoring the rest of the scanner.\<close>

fun run_marks :: "mark list \<Rightarrow> LeetRolls option list list \<Rightarrow> LeetRolls option list list option" where
  "run_marks [] sts = Some sts"
| "run_marks (None # ms) sts = run_marks ms sts"
| "run_marks (Some (t, opened, r) # ms) sts =
     (case nest_run (max_depth t) (sts ! tag_index t) [(opened, r)] of
        None \<Rightarrow> None | Some st \<Rightarrow> run_marks ms (sts[tag_index t := st]))"

definition marks_of :: "Tag \<Rightarrow> mark list \<Rightarrow> (bool \<times> LeetRolls option) list" where
  "marks_of t ms = [(opened, r). Some (t', opened, r) \<leftarrow> ms, t' = t]"

lemma marks_of_simps [simp]:
  "marks_of t [] = []" "marks_of t (None # ms) = marks_of t ms"
  "marks_of t (Some (t', opened, r) # ms) = (if t' = t then (opened, r) # marks_of t ms else marks_of t ms)"
  by (simp_all add: marks_of_def)

lemma nest_run_Cons:
  "nest_run k st (m # ms) = (case nest_run k st [m] of None \<Rightarrow> None | Some u \<Rightarrow> nest_run k u ms)"
  using nest_run_append [of k st "[m]" ms] by simp

lemma all_empty_iff: "length sts = 8 \<Longrightarrow> (\<forall>st\<in>set sts. st = []) \<longleftrightarrow> (\<forall>t. sts ! tag_index t = [])"
  by (metis in_set_conv_nth tag_index_less tag_index_surj)

lemma run_marks_iff:
  assumes "length sts = 8"
  shows "(\<exists>sts'. run_marks ms sts = Some sts' \<and> (\<forall>st\<in>set sts'. st = []))
    \<longleftrightarrow> (\<forall>t. nest_run (max_depth t) (sts ! tag_index t) (marks_of t ms) = Some [])"
  using assms
proof (induction ms sts rule: run_marks.induct)
  case (1 sts)
  then show ?case by (simp add: all_empty_iff)
next
  case (3 t opened r ms sts)
  show ?case
  proof (cases "nest_run (max_depth t) (sts ! tag_index t) [(opened, r)]")
    case None
    then have "nest_run (max_depth t) (sts ! tag_index t) (marks_of t (Some (t, opened, r) # ms)) \<noteq> Some []"
      by (simp only: marks_of_simps if_True simp_thms) (subst nest_run_Cons, simp)
    then show ?thesis
      using None by auto
  next
    case (Some st)
    have "nest_run (max_depth u) (sts ! tag_index u) (marks_of u (Some (t, opened, r) # ms))
        = nest_run (max_depth u) (sts[tag_index t := st] ! tag_index u) (marks_of u ms)" for u
    proof (cases "t = u")
      case True
      show ?thesis
        unfolding True marks_of_simps if_P [OF refl] nest_run_Cons [of _ _ "(opened, r)" "marks_of u ms"]
        using Some 3(2) tag_index_less [of u] by (simp add: True)
    next
      case False
      then show ?thesis
        by simp
    qed
    then show ?thesis
      using 3 Some by simp
  qed
qed simp

section \<open>One step\<close>

definition within :: "WordfilterLimits \<Rightarrow> Scanner \<Rightarrow> bool" where
  "within b s \<longleftrightarrow> sizes_within b (sizes s) \<and> scan_units s \<le> max_parts b"

definition grow :: "amounts \<Rightarrow> Sizes \<Rightarrow> Sizes" where
  "grow a z = \<lparr>encoded_size = encoded_size z + fst a, source_size = source_size z + fst (snd a),
     search_size = search_size z + snd (snd a)\<rparr>"

definition after :: "UrlLibrary \<Rightarrow> Scanner \<Rightarrow> SavedAtom \<Rightarrow> LeetRolls option list list \<Rightarrow> Scanner" where
  "after lib s a sts = (next_scanner s a)\<lparr>sizes := grow (atom_amounts lib a) (sizes s), stacks := sts, previous_text := is_text_atom a\<rparr>"

definition accepts :: "UrlLibrary \<Rightarrow> bool \<Rightarrow> Scanner \<Rightarrow> SavedAtom \<Rightarrow> bool" where
  "accepts lib filtering s a \<longleftrightarrow> atom_valid lib filtering a \<and> (is_text_atom a \<longrightarrow> \<not> previous_text s)
     \<and> successively (\<noteq>) (quote_open s # atom_quotes a)"

lemma add_amounts_only: "add_amounts a z = Inr z' \<Longrightarrow> z' = grow a z"
  by (auto simp: add_amounts_def add_size_def grow_def checked_add64_def result_simps split: if_splits)

lemma add_amounts_some: "sizes_within b (grow a z) \<Longrightarrow> add_amounts a z = Inr (grow a z)"
  using limit_values [of b]
  by (simp add: add_amounts_def add_size_def grow_def sizes_within_def checked_add64_def)

lemma check_sizes_iff: "check_sizes z b = Inr u \<longleftrightarrow> sizes_within b z"
  by (auto simp: check_sizes_def sizes_within_def)

lemma apply_mark_run:
  assumes "length (stacks s) = 8"
  shows "apply_mark m s = (case run_marks [m] (stacks s) of None \<Rightarrow> invalid | Some sts \<Rightarrow> Inr (s\<lparr>stacks := sts\<rparr>))"
proof (cases m)
  case (Some p)
  then show ?thesis
    using assms by (cases p) (auto simp: apply_mark_tag split: option.split)
qed simp

lemma within_small: "within b s \<Longrightarrow> scan_units s < 2 ^ 64"
  using limit_values(3) [of b] by (simp add: within_def)

lemma validate_step_iff:
  assumes "atom_typed a" "within b s" "length (stacks s) = 8"
  shows "validate_step lib filtering b s a = Inr s' \<longleftrightarrow>
    accepts lib filtering s a
    \<and> (\<exists>sts. run_marks [atom_mark a] (stacks s) = Some sts \<and> s' = after lib s a sts) \<and> within b s'"
    (is "?L \<longleftrightarrow> ?R")
proof
  assume ?L
  then obtain am m s1 s2 z where 1: "measure_atom lib filtering s a = Inr (am, m, s1)"
      "apply_mark m (s1\<lparr>previous_text := is_text_atom a\<rparr>) = Inr s2" "add_amounts am (sizes s2) = Inr z"
      "scan_units s2 \<le> max_parts b" "check_sizes z b = Inr ()" "s' = s2\<lparr>sizes := z\<rparr>"
    by (auto simp: validate_step_def result_simps split: if_splits)
  note 2 = measure_atom_only [OF 1(1) within_small [OF assms(2)]]
  have "length (stacks (s1\<lparr>previous_text := is_text_atom a\<rparr>)) = 8"
    using 2 assms(3) by (simp add: next_scanner_def)
  from 1(2) [unfolded apply_mark_run [OF this]] obtain sts where 3: "run_marks [atom_mark a] (stacks s) = Some sts"
      "s2 = s1\<lparr>previous_text := is_text_atom a, stacks := sts\<rparr>"
    using 2 by (auto simp: next_scanner_def split: option.splits)
  have "sizes s2 = sizes s"
    using 2 3 by (simp add: next_scanner_def)
  then have "z = grow (atom_amounts lib a) (sizes s)"
    using add_amounts_only [OF 1(3)] 2 by simp
  then have "s' = after lib s a sts" "within b s'"
    using 1(4-6) 2 3 by (simp_all add: after_def within_def check_sizes_iff)
  with 2 3 show ?R
    by (auto simp: accepts_def fits_next_def)
next
  assume ?R
  then obtain sts where 1: "accepts lib filtering s a" "run_marks [atom_mark a] (stacks s) = Some sts"
      "s' = after lib s a sts" "within b s'" by blast
  have "scan_units s + atom_units a < 2 ^ 64"
    using within_small [OF 1(4)] by (simp add: 1(3) after_def next_scanner_def)
  then obtain am where am: "measure_atom lib filtering s a = Inr (am, atom_mark a, next_scanner s a)"
    using measure_atom_some [of lib filtering s a] assms(1) 1(1) by (auto simp: fits_next_def accepts_def)
  have "am = atom_amounts lib a"
    using measure_atom_only [OF am within_small [OF assms(2)]] by simp
  moreover have "apply_mark (atom_mark a) ((next_scanner s a)\<lparr>previous_text := is_text_atom a\<rparr>)
      = Inr ((next_scanner s a)\<lparr>previous_text := is_text_atom a, stacks := sts\<rparr>)"
    using assms(3) 1(2) by (subst apply_mark_run) (simp_all add: next_scanner_def)
  moreover have "add_amounts (atom_amounts lib a) (sizes s) = Inr (grow (atom_amounts lib a) (sizes s))"
    using 1(3,4) by (intro add_amounts_some [of b]) (simp add: within_def after_def)
  ultimately show ?L
    using 1(3,4) am check_sizes_iff [of "grow (atom_amounts lib a) (sizes s)" b "()"]
    by (simp add: validate_step_def within_def after_def next_scanner_def)
qed

section \<open>All atoms\<close>

lemma after_fields [simp]:
  "quote_open (after lib s a sts) = last (quote_open s # atom_quotes a)"
  "scan_units (after lib s a sts) = scan_units s + atom_units a" "stacks (after lib s a sts) = sts"
  "previous_text (after lib s a sts) = is_text_atom a" "sizes (after lib s a sts) = grow (atom_amounts lib a) (sizes s)"
  by (simp_all add: after_def next_scanner_def)

lemma grow_mono: "sizes_within b (grow a z) \<Longrightarrow> sizes_within b z"
  by (simp add: grow_def sizes_within_def)

definition grow_all :: "UrlLibrary \<Rightarrow> SavedAtom list \<Rightarrow> Sizes \<Rightarrow> Sizes" where
  "grow_all lib as z = foldl (\<lambda>z a. grow (atom_amounts lib a) z) z as"

lemma grow_all_simps [simp]:
  "grow_all lib [] z = z" "grow_all lib (a # as) z = grow_all lib as (grow (atom_amounts lib a) z)"
  by (simp_all add: grow_all_def)

lemma grow_all_mono: "sizes_within b (grow_all lib as z) \<Longrightarrow> sizes_within b z"
  by (induction as arbitrary: z) (auto dest: grow_mono)

lemma quotes_simps [simp]: "quotes [] = []" "quotes (a # as) = atom_quotes a @ quotes as"
  by (simp_all add: quotes_def)

lemma quotes_step:
  "successively (\<noteq>) (q # atom_quotes a @ qs) \<longleftrightarrow>
     successively (\<noteq>) (q # atom_quotes a) \<and> successively (\<noteq>) (last (q # atom_quotes a) # qs)"
  "last (q # atom_quotes a @ qs) = last (last (q # atom_quotes a) # qs)"
  by (cases a; simp)+

lemma run_marks_Cons:
  "run_marks (m # ms) sts = (case run_marks [m] sts of None \<Rightarrow> None | Some u \<Rightarrow> run_marks ms u)"
proof (cases m)
  case (Some p)
  then show ?thesis by (cases p) (simp split: option.split)
qed simp

lemma run_marks_length: "run_marks ms sts = Some u \<Longrightarrow> length u = length sts"
  by (induction ms sts rule: run_marks.induct) (auto split: option.splits)

lemma validate_atoms_iff:
  assumes "list_all atom_typed as" "within b s" "length (stacks s) = 8"
  shows "(\<exists>s'. foldE (validate_step lib filtering b) s as = Inr s' \<and> P (quote_open s') (stacks s') (sizes s')) \<longleftrightarrow>
    list_all (atom_valid lib filtering) as
    \<and> (previous_text s \<longrightarrow> as = [] \<or> \<not> is_text_atom (hd as)) \<and> successively (\<lambda>x y. \<not> (is_text_atom x \<and> is_text_atom y)) as
    \<and> successively (\<noteq>) (quote_open s # quotes as)
    \<and> scan_units s + sum_list (map atom_units as) \<le> max_parts b \<and> sizes_within b (grow_all lib as (sizes s))
    \<and> (\<exists>sts. run_marks (map atom_mark as) (stacks s) = Some sts
          \<and> P (last (quote_open s # quotes as)) sts (grow_all lib as (sizes s)))"
  using assms
proof (induction as arbitrary: s)
  case Nil
  then show ?case by (simp add: within_def)
next
  case (Cons a as)
  let ?F = "foldE (validate_step lib filtering b)"
  have ta: "atom_typed a"
    using Cons.prems(1) by simp
  have "(\<exists>s'. ?F s (a # as) = Inr s' \<and> P (quote_open s') (stacks s') (sizes s')) \<longleftrightarrow>
      (\<exists>s1. validate_step lib filtering b s a = Inr s1 \<and>
        (\<exists>s'. ?F s1 as = Inr s' \<and> P (quote_open s') (stacks s') (sizes s')))"
    by (auto simp: result_simps)
  also have "\<dots> \<longleftrightarrow> (\<exists>sts. accepts lib filtering s a \<and> run_marks [atom_mark a] (stacks s) = Some sts
      \<and> within b (after lib s a sts)
      \<and> (\<exists>s'. ?F (after lib s a sts) as = Inr s' \<and> P (quote_open s') (stacks s') (sizes s')))"
    unfolding validate_step_iff [OF ta Cons.prems(2,3)] by blast
  also have "\<dots> \<longleftrightarrow> (\<exists>sts. accepts lib filtering s a \<and> run_marks [atom_mark a] (stacks s) = Some sts
      \<and> within b (after lib s a sts)
      \<and> list_all (atom_valid lib filtering) as
      \<and> (is_text_atom a \<longrightarrow> as = [] \<or> \<not> is_text_atom (hd as)) \<and> successively (\<lambda>x y. \<not> (is_text_atom x \<and> is_text_atom y)) as
      \<and> successively (\<noteq>) (last (quote_open s # atom_quotes a) # quotes as)
      \<and> scan_units s + atom_units a + sum_list (map atom_units as) \<le> max_parts b
      \<and> sizes_within b (grow_all lib as (grow (atom_amounts lib a) (sizes s)))
      \<and> (\<exists>sts'. run_marks (map atom_mark as) sts = Some sts'
          \<and> P (last (last (quote_open s # atom_quotes a) # quotes as)) sts' (grow_all lib as (grow (atom_amounts lib a) (sizes s)))))"
  proof (intro ex_cong conj_cong refl)
    fix sts
    assume r: "run_marks [atom_mark a] (stacks s) = Some sts" and w: "within b (after lib s a sts)"
    have "length sts = 8"
      using run_marks_length [OF r] Cons.prems by simp
    then show "(\<exists>s'. ?F (after lib s a sts) as = Inr s' \<and> P (quote_open s') (stacks s') (sizes s')) \<longleftrightarrow>
        list_all (atom_valid lib filtering) as
      \<and> (is_text_atom a \<longrightarrow> as = [] \<or> \<not> is_text_atom (hd as)) \<and> successively (\<lambda>x y. \<not> (is_text_atom x \<and> is_text_atom y)) as
      \<and> successively (\<noteq>) (last (quote_open s # atom_quotes a) # quotes as)
      \<and> scan_units s + atom_units a + sum_list (map atom_units as) \<le> max_parts b
      \<and> sizes_within b (grow_all lib as (grow (atom_amounts lib a) (sizes s)))
      \<and> (\<exists>sts'. run_marks (map atom_mark as) sts = Some sts'
          \<and> P (last (last (quote_open s # atom_quotes a) # quotes as)) sts' (grow_all lib as (grow (atom_amounts lib a) (sizes s))))"
      using Cons.IH [OF _ w] Cons.prems(1) by simp
  qed
  also have "\<dots> \<longleftrightarrow> list_all (atom_valid lib filtering) (a # as)
    \<and> (previous_text s \<longrightarrow> a # as = [] \<or> \<not> is_text_atom (hd (a # as))) \<and> successively (\<lambda>x y. \<not> (is_text_atom x \<and> is_text_atom y)) (a # as)
    \<and> successively (\<noteq>) (quote_open s # quotes (a # as))
    \<and> scan_units s + sum_list (map atom_units (a # as)) \<le> max_parts b \<and> sizes_within b (grow_all lib (a # as) (sizes s))
    \<and> (\<exists>sts. run_marks (map atom_mark (a # as)) (stacks s) = Some sts
          \<and> P (last (quote_open s # quotes (a # as))) sts (grow_all lib (a # as) (sizes s)))"
  proof -
    have t: "successively (\<lambda>x y. \<not> (is_text_atom x \<and> is_text_atom y)) (a # as) \<longleftrightarrow>
        (is_text_atom a \<longrightarrow> as = [] \<or> \<not> is_text_atom (hd as)) \<and> successively (\<lambda>x y. \<not> (is_text_atom x \<and> is_text_atom y)) as"
      by (cases as) auto
    show ?thesis
      unfolding t quotes_simps quotes_step list.map run_marks_Cons [of "atom_mark a" "map atom_mark as"]
      by (auto simp: accepts_def within_def dest: grow_all_mono split: option.splits)
  qed
  finally show ?case .
qed

lemma grow_all_total: "grow_all lib as \<lparr>encoded_size = 9 + e, source_size = h, search_size = t\<rparr> =
  \<lparr>encoded_size = encoded_size (total_sizes lib as) + e, source_size = source_size (total_sizes lib as) + h,
   search_size = search_size (total_sizes lib as) + t\<rparr>"
proof (induction as arbitrary: e h t)
  case (Cons a as)
  show ?case
    using Cons [of "e + fst (atom_amounts lib a)"] by (simp add: grow_def total_sizes_def add.assoc add.left_commute)
qed (simp add: total_sizes_def)

theorem validate_iff:
  assumes "typed f"
  shows "validate lib f = Inr z \<longleftrightarrow> presentation_ok lib f \<and> z = total_sizes lib (fp_atoms f)"
proof -
  let ?as = "fp_atoms f" and ?b = "fp_bounds f" and ?w = "fp_wordfiltered f"
  let ?s = "first_scanner (length ?as)"
  have g: "grow_all lib ?as (sizes ?s) = total_sizes lib ?as"
    using grow_all_total [of lib ?as 0 0 0] by (simp add: first_scanner_def)
  show ?thesis
  proof (cases "length ?as \<le> max_parts ?b")
    case False
    then show ?thesis
      by (auto simp: validate_def presentation_ok_def)
  next
    case True
    have w: "within ?b ?s" "length (stacks ?s) = 8"
      using True by (cases ?b; simp add: within_def first_scanner_def sizes_within_def)+
    have m: "(\<exists>sts. run_marks (map atom_mark ?as) (stacks ?s) = Some sts \<and> (\<forall>st\<in>set sts. st = []))
        \<longleftrightarrow> (\<forall>t. nested (max_depth t) (tag_marks t ?as))"
      unfolding run_marks_iff [OF w(2)] nest_run_iff [symmetric]
      using tag_index_less by (simp add: tag_marks_def marks_of_def first_scanner_def)
    have "validate lib f = Inr z \<longleftrightarrow>
        (\<exists>s'. foldE (validate_step lib ?w ?b) ?s ?as = Inr s' \<and> (\<not> quote_open s' \<and> (\<forall>st\<in>set (stacks s'). st = []) \<and> sizes s' = z))"
      using True by (auto simp: validate_def result_simps list_ex_iff split: if_splits)
    also have "\<dots> \<longleftrightarrow> presentation_ok lib f \<and> z = total_sizes lib ?as"
      unfolding validate_atoms_iff [OF assms [unfolded typed_def] w,
          of lib ?w "\<lambda>q sts z'. \<not> q \<and> (\<forall>st\<in>set sts. st = []) \<and> z' = z"] presentation_ok_def Let_def m [symmetric] g
      by (auto simp: first_scanner_def)
    finally show ?thesis .
  qed
qed

end
