(* ===== verification/PresentationCodec.thy ===== *)
theory PresentationCodec
  imports PresentationValid
begin

text \<open>
  The binary form of a frozen presentation: \<open>encode\<close> never panics and writes what \<open>validate\<close> counted, the
  projections have the sizes it counted, and \<open>decode\<close> accepts exactly what \<open>encode\<close> writes. The readers of
  the cursor share the contract \<open>cursor_reader\<close>.
\<close>

section \<open>Encoding\<close>

lemma measure_parts_no_panic: "measure_parts previous z parts \<noteq> Inl Panicked"
  by (induction previous z parts rule: measure_parts.induct) simp_all

lemma validate_parts_no_panic: "validate_parts parts label \<noteq> Inl Panicked"
  by (simp add: validate_parts_def measure_parts_no_panic)

lemma add_units_no_panic: "add_units n s \<noteq> Inl Panicked"
  by (simp add: add_units_def split: option.split)

lemma measure_atom_no_panic:
  assumes "atom_typed a"
  shows "measure_atom lib filtering s a \<noteq> Inl Panicked"
proof (cases a)
  case (SFiltered d)
  then obtain u where "(delimiter_source d :: utext saved) = Inr u"
    using assms delimiter_source_ok by fastforce
  with SFiltered show ?thesis by simp
qed (auto simp: result_simps validate_parts_no_panic add_units_no_panic split: option.splits)

interpretation validation: event_machine "validate_step lib filtering b" "\<lambda>_. True" atom_typed
  for lib filtering b
proof unfold_locales
  fix s a
  assume "atom_typed a"
  then have "measure_atom lib filtering s a \<noteq> Inl Panicked"
    by (rule measure_atom_no_panic)
  moreover have "apply_mark m s \<noteq> Inl Panicked" "add_amounts am z \<noteq> Inl Panicked" "check_sizes z b \<noteq> Inl Panicked" for m s am z
    by (auto simp: apply_mark_def Let_def add_amounts_def add_size_def check_sizes_def result_simps split: option.splits)
  ultimately show "safe (validate_step lib filtering b s a) (\<lambda>_. True)"
    by (auto simp: validate_step_def safe_def result_simps)
qed

lemma validate_no_panic: "typed f \<Longrightarrow> validate lib f \<noteq> Inl Panicked"
  using validation.run_never_panics [OF TrueI, of "fp_atoms f" lib "fp_wordfiltered f" "fp_bounds f" "first_scanner (length (fp_atoms f))"]
  by (auto simp: validate_def typed_def result_simps)

definition presentation_bytes :: "FrozenPresentation \<Rightarrow> bytes" where
  "presentation_bytes f =
     magic (fp_bounds f) @ [bool_byte (fp_wordfiltered f)] @ put_u32 (length (fp_atoms f)) @ concat (map atom_bytes (fp_atoms f))"

lemma put_u32_length [simp]: "length (put_u32 n) = 4"
  by (simp add: put_u32_def)

lemma magic_length [simp]: "length (magic b) = 4"
  by (cases b) (simp_all add: magic_def)

lemma presentation_bytes_length: "length (presentation_bytes f) = encoded_size (total_sizes lib (fp_atoms f))"
  by (simp add: presentation_bytes_def total_sizes_def atom_amounts_def length_concat comp_def)

lemma concatE_valid:
  assumes "\<And>a. a \<in> set as \<Longrightarrow> g a = Inr (h a)"
  shows "concatE (map g as) = Inr (concat (map h as))"
  using assms by (induction as) simp_all

lemma atom_encoded: "atom_valid lib filtering a \<Longrightarrow> encode_atom a = Inr (atom_bytes a)"
  by (cases a) (auto simp: atom_bytes_def)

lemma presentation_encode_iff:
  assumes "typed f"
  shows "encode_presentation lib f = Inr out \<longleftrightarrow> presentation_ok lib f \<and> out = presentation_bytes f"
proof (cases "presentation_ok lib f")
  case True
  then have "validate lib f = Inr (total_sizes lib (fp_atoms f))"
    using validate_iff [OF assms] by blast
  moreover have "concatE (map encode_atom (fp_atoms f)) = Inr (concat (map atom_bytes (fp_atoms f)))"
    using True by (intro concatE_valid atom_encoded) (auto simp: presentation_ok_def Let_def list_all_iff)
  ultimately show ?thesis
    using True presentation_bytes_length [of f lib]
    by (auto simp: encode_presentation_def Let_def presentation_bytes_def)
next
  case False
  then show ?thesis
    using validate_iff [OF assms] by (auto simp: encode_presentation_def result_simps)
qed

lemma encode_no_panic:
  assumes "typed f"
  shows "encode_presentation lib f \<noteq> Inl Panicked"
proof (cases "presentation_ok lib f")
  case True
  then show ?thesis
    using presentation_encode_iff [OF assms, of lib "presentation_bytes f"] by simp
next
  case False
  then obtain e where "validate lib f = Inl e"
    using validate_iff [OF assms] by (cases "validate lib f") auto
  then show ?thesis
    using validate_no_panic [OF assms, of lib] by (auto simp: encode_presentation_def)
qed

section \<open>Projections\<close>

lemma atom_projected:
  assumes "atom_typed a" "atom_valid lib filtering a"
  shows "\<exists>x. atom_source lib a = Inr x" "\<exists>x. atom_text a = Inr x"
proof -
  have d: "\<exists>u. (delimiter_source d :: utext saved) = Inr u" if "delimiter_ok d" for d
    using delimiter_source_ok [OF that] by blast
  show "\<exists>x. atom_source lib a = Inr x" "\<exists>x. atom_text a = Inr x"
    using assms d by (cases a; auto simp: project_atom_def)+
qed

lemma run_bytes_concat:
  assumes "\<And>a. a \<in> set as \<Longrightarrow> \<exists>x. g a = Inr x"
  shows "\<exists>x. concatE (map g as) = Inr x \<and> byte_length x = sum_list (map (\<lambda>a. run_bytes (g a)) as)"
  using assms
proof (induction as)
  case (Cons a as)
  then obtain y where "concatE (map g as) = Inr y" "byte_length y = sum_list (map (\<lambda>a. run_bytes (g a)) as)"
    by auto
  moreover obtain x where "g a = Inr x"
    using Cons.prems by auto
  ultimately show ?case by (simp add: run_bytes_def)
qed simp

lemma projection_sizes:
  assumes "typed f" "presentation_ok lib f"
  shows "\<exists>x. source_projection lib f = Inr x \<and> byte_length x = source_size (total_sizes lib (fp_atoms f))"
    "\<exists>y. search_text f = Inr y \<and> byte_length y = search_size (total_sizes lib (fp_atoms f))"
proof -
  have "atom_typed a \<and> atom_valid lib (fp_wordfiltered f) a" if "a \<in> set (fp_atoms f)" for a
    using that assms by (auto simp: typed_def presentation_ok_def Let_def list_all_iff)
  then show "\<exists>x. source_projection lib f = Inr x \<and> byte_length x = source_size (total_sizes lib (fp_atoms f))"
    "\<exists>y. search_text f = Inr y \<and> byte_length y = search_size (total_sizes lib (fp_atoms f))"
    unfolding source_projection_atoms search_text_atoms
    using run_bytes_concat [of "fp_atoms f" "atom_source lib"] run_bytes_concat [of "fp_atoms f" atom_text] atom_projected
    by (simp_all add: total_sizes_def atom_amounts_def comp_def) metis+
qed

section \<open>Readers\<close>

text \<open>A cursor inside its input and its budget; and what it means to read the given bytes and use units.\<close>

definition fits_in :: "Cursor \<Rightarrow> bool" where
  "fits_in c \<longleftrightarrow> cur_offset c \<le> length (cur_bytes c) \<and> length (cur_bytes c) < 2 ^ 64 \<and> cur_units c \<le> cur_max c \<and> cur_max c < 2 ^ 63"

definition spells :: "Cursor \<Rightarrow> bytes \<Rightarrow> nat \<Rightarrow> Cursor \<Rightarrow> bool" where
  "spells c bs k d \<longleftrightarrow> cur_offset c + length bs \<le> length (cur_bytes c)
     \<and> take (length bs) (drop (cur_offset c) (cur_bytes c)) = bs \<and> cur_units c + k \<le> cur_max c
     \<and> d = c\<lparr>cur_offset := cur_offset c + length bs, cur_units := cur_units c + k\<rparr>"

lemma reads_fine: "fits_in c \<Longrightarrow> spells c bs k d \<Longrightarrow> fits_in d"
  by (auto simp: fits_in_def spells_def)

lemma reads_nil: "fits_in c \<Longrightarrow> spells c [] 0 d \<longleftrightarrow> d = c"
  by (auto simp: fits_in_def spells_def)

lemma take_append_eq: "take (length a + length b) xs = a @ b \<longleftrightarrow> take (length a) xs = a \<and> take (length b) (drop (length a) xs) = b"
  if "length a + length b \<le> length xs"
  using that by (auto simp: take_add append_eq_append_conv)

lemma spells_append: "spells c (a @ b) (k + l) e \<longleftrightarrow> (\<exists>d. spells c a k d \<and> spells d b l e)"
proof -
  have "take (length a + length b) (drop (cur_offset c) (cur_bytes c)) = a @ b \<longleftrightarrow>
      take (length a) (drop (cur_offset c) (cur_bytes c)) = a
      \<and> take (length b) (drop (cur_offset c + length a) (cur_bytes c)) = b"
    if "cur_offset c + length a + length b \<le> length (cur_bytes c)"
    using take_append_eq [of a b "drop (cur_offset c) (cur_bytes c)"] that by (simp add: add.commute)
  then show ?thesis
    by (auto simp: spells_def add.assoc)
qed

lemma bind_pair: "bindE m (\<lambda>(a, d). f a d) = Inr y \<longleftrightarrow> (\<exists>a d. m = Inr (a, d) \<and> f a d = Inr y)"
  by (auto simp: result_simps)

locale cursor_reader =
  fixes read :: "Cursor \<Rightarrow> ('a \<times> Cursor) saved"
    and enc :: "'a \<Rightarrow> bytes"
    and used :: "'a \<Rightarrow> nat"
    and ok :: "'a \<Rightarrow> bool"
  assumes read_iff: "fits_in c \<Longrightarrow> read c = Inr (a, d) \<longleftrightarrow> ok a \<and> spells c (enc a) (used a) d"
begin

lemma then_iff:
  assumes "fits_in c"
  shows "bindE (read c) (\<lambda>(a, d). f a d) = Inr y \<longleftrightarrow>
    (\<exists>a d. ok a \<and> spells c (enc a) (used a) d \<and> fits_in d \<and> f a d = Inr y)"
  unfolding bind_pair read_iff [OF assms] using reads_fine [OF assms] by blast

lemma fine_then_iff:
  "fits_in c \<and> bindE (read c) (\<lambda>(a, d). f a d) = Inr y \<longleftrightarrow>
    fits_in c \<and> (\<exists>a d. ok a \<and> spells c (enc a) (used a) d \<and> fits_in d \<and> f a d = Inr y)"
  by (intro conj_cong refl then_iff)

lemma map_iff:
  assumes "fits_in c"
  shows "bindE (read c) (\<lambda>(x, d). Inr (g x, d)) = Inr (y, e) \<longleftrightarrow>
    (\<exists>x. y = g x \<and> ok x \<and> spells c (enc x) (used x) e)"
  unfolding then_iff [OF assms] sum.inject prod.inject using reads_fine [OF assms] by blast

lemma repeat_iff:
  "fits_in c \<Longrightarrow> repeat_read read n c = Inr (as, d) \<longleftrightarrow>
     length as = n \<and> list_all ok as \<and> spells c (concat (map enc as)) (sum_list (map used as)) d"
proof (induction n arbitrary: c as d)
  case 0
  then show ?case by (auto simp: reads_nil)
next
  case (Suc n)
  have "repeat_read read (Suc n) c = Inr (as, d) \<longleftrightarrow>
      (\<exists>a e. ok a \<and> spells c (enc a) (used a) e \<and> fits_in e \<and> (\<exists>bs. repeat_read read n e = Inr (bs, d) \<and> as = a # bs))"
    unfolding repeat_read.simps then_iff [OF Suc.prems] by (simp add: bind_pair, blast)
  also have "\<dots> \<longleftrightarrow> (\<exists>a e bs. ok a \<and> spells c (enc a) (used a) e \<and> fits_in e \<and> length bs = n \<and> list_all ok bs
      \<and> spells e (concat (map enc bs)) (sum_list (map used bs)) d \<and> as = a # bs)"
    using Suc.IH by blast
  also have "\<dots> \<longleftrightarrow> length as = Suc n \<and> list_all ok as \<and> spells c (concat (map enc as)) (sum_list (map used as)) d"
    using reads_fine [OF Suc.prems] by (cases as) (simp_all add: spells_append, blast)
  finally show ?case .
qed

end

lemma take_bytes_iff: "fits_in c \<Longrightarrow> take_bytes n c = Inr (bs, d) \<longleftrightarrow> length bs = n \<and> spells c bs 0 d"
  by (auto simp: take_bytes_def fits_in_def spells_def checked_add64_def slice_of_def min_def)

lemma take_then_iff:
  "fits_in c \<Longrightarrow> bindE (take_bytes n c) (\<lambda>(bs, d). f bs d) = Inr y \<longleftrightarrow>
     (\<exists>bs d. length bs = n \<and> spells c bs 0 d \<and> fits_in d \<and> f bs d = Inr y)"
  unfolding bind_pair using take_bytes_iff reads_fine by blast

interpretation rd_byte: cursor_reader read_byte "\<lambda>b. [b]" "\<lambda>_. 0" "\<lambda>_. True"
proof unfold_locales
  fix c b d
  assume c: "fits_in c"
  have "read_byte c = Inr (b, d) \<longleftrightarrow> (\<exists>bs. length bs = 1 \<and> spells c bs 0 d \<and> bs ! 0 = b)"
    unfolding read_byte_def take_then_iff [OF c] using reads_fine [OF c] by blast
  also have "\<dots> \<longleftrightarrow> spells c [b] 0 d"
    by (auto simp: length_Suc_conv)
  finally show "read_byte c = Inr (b, d) \<longleftrightarrow> True \<and> spells c [b] 0 d"
    by simp
qed

interpretation rd_boolean: cursor_reader read_bool "\<lambda>b. [bool_byte b]" "\<lambda>_. 0" "\<lambda>_. True"
proof unfold_locales
  fix c a d
  assume c: "fits_in c"
  have key: "((if b = 0 then Inr (False, e) else if b = 1 then Inr (True, e) else invalid) :: (bool \<times> Cursor) saved) = Inr (a, d)
      \<longleftrightarrow> e = d \<and> (b = 0 \<and> \<not> a \<or> b = 1 \<and> a)" for b :: u8 and e
    by auto
  have "read_bool c = Inr (a, d) \<longleftrightarrow> (\<exists>b. spells c [b] 0 d \<and> (b = 0 \<and> \<not> a \<or> b = 1 \<and> a))"
    unfolding read_bool_def rd_byte.then_iff [OF c] key using reads_fine [OF c] by blast
  then show "read_bool c = Inr (a, d) \<longleftrightarrow> True \<and> spells c [bool_byte a] 0 d"
    by (auto simp: bool_byte_def)
qed

lemma unat_u32: "unat (w :: u32) < 2 ^ 32"
  using unsigned_less [of w] by simp

lemma be32_nths: "of_be32 (be32 w ! 0) (be32 w ! 1) (be32 w ! 2) (be32 w ! 3) = w"
  by (simp add: be32_def)

lemma put_u32_inverse:
  assumes "length bs = 4"
  shows "put_u32 (unat (of_be32 (bs ! 0) (bs ! 1) (bs ! 2) (bs ! 3))) = bs"
proof -
  obtain a b c d where "bs = [a, b, c, d]"
    using assms by (auto simp: length_Suc_conv numeral_eq_Suc)
  then show ?thesis
    by (simp add: put_u32_def be32_of_be32)
qed

lemma number_put_u32: "n < 2 ^ 32 \<Longrightarrow> unat (of_be32 (put_u32 n ! 0) (put_u32 n ! 1) (put_u32 n ! 2) (put_u32 n ! 3)) = n"
  unfolding put_u32_def be32_nths by (simp add: unat_of_nat)

interpretation rd_number: cursor_reader read_number put_u32 "\<lambda>_. 0" "\<lambda>n. n < 2 ^ 32"
proof unfold_locales
  fix c n d
  assume c: "fits_in c"
  have "read_number c = Inr (n, d) \<longleftrightarrow>
      (\<exists>bs. length bs = 4 \<and> spells c bs 0 d \<and> n = unat (of_be32 (bs ! 0) (bs ! 1) (bs ! 2) (bs ! 3)))"
    unfolding read_number_def take_then_iff [OF c] using reads_fine [OF c] by blast
  also have "\<dots> \<longleftrightarrow> n < 2 ^ 32 \<and> spells c (put_u32 n) 0 d"
  proof
    assume "\<exists>bs. length bs = 4 \<and> spells c bs 0 d \<and> n = unat (of_be32 (bs ! 0) (bs ! 1) (bs ! 2) (bs ! 3))"
    then obtain bs where bs: "length bs = 4" "spells c bs 0 d" "n = unat (of_be32 (bs ! 0) (bs ! 1) (bs ! 2) (bs ! 3))"
      by blast
    have "put_u32 n = bs"
      unfolding bs(3) by (rule put_u32_inverse [OF bs(1)])
    moreover have "n < 2 ^ 32"
      unfolding bs(3) by (rule unat_u32)
    ultimately show "n < 2 ^ 32 \<and> spells c (put_u32 n) 0 d"
      using bs(2) by simp
  next
    assume "n < 2 ^ 32 \<and> spells c (put_u32 n) 0 d"
    then show "\<exists>bs. length bs = 4 \<and> spells c bs 0 d \<and> n = unat (of_be32 (bs ! 0) (bs ! 1) (bs ! 2) (bs ! 3))"
      using number_put_u32 [of n] by (intro exI [of _ "put_u32 n"]) simp
  qed
  finally show "read_number c = Inr (n, d) \<longleftrightarrow> n < 2 ^ 32 \<and> spells c (put_u32 n) 0 d" .
qed

lemma spells_append0: "spells c (a @ b) k e \<longleftrightarrow> (\<exists>d. spells c a 0 d \<and> spells d b k e)"
  using spells_append [of c a b 0 k e] by simp

lemma spells_Cons: "spells c (x # b) k e \<longleftrightarrow> (\<exists>d. spells c [x] 0 d \<and> spells d b k e)"
  using spells_append0 [of c "[x]" b k e] by simp

definition text_fits :: "utext \<Rightarrow> bool" where
  "text_fits t \<longleftrightarrow> text_typed t \<and> byte_length t < 2 ^ 32"

interpretation rd_text: cursor_reader read_text put_text "\<lambda>_. 0" text_fits
proof unfold_locales
  fix c t d
  assume c: "fits_in c"
  have key0: "(case from_utf8 bs of Some t \<Rightarrow> Inr (t, e') | None \<Rightarrow> (invalid :: (utext \<times> Cursor) saved)) = Inr (t, d)
      \<longleftrightarrow> from_utf8 bs = Some t \<and> e' = d" for bs e'
    by (auto split: option.split)
  have key: "fits_in e \<and> bindE (take_bytes n e) (\<lambda>(bs, c). case from_utf8 bs of Some t \<Rightarrow> Inr (t, c) | None \<Rightarrow> invalid) = Inr (t, d)
      \<longleftrightarrow> fits_in e \<and> (\<exists>bs. length bs = n \<and> spells e bs 0 d \<and> from_utf8 bs = Some t)" for n e
  proof (rule conj_cong [OF refl])
    assume e: "fits_in e"
    show "bindE (take_bytes n e) (\<lambda>(bs, c). case from_utf8 bs of Some t \<Rightarrow> Inr (t, c) | None \<Rightarrow> invalid) = Inr (t, d)
        \<longleftrightarrow> (\<exists>bs. length bs = n \<and> spells e bs 0 d \<and> from_utf8 bs = Some t)"
      unfolding take_then_iff [OF e] key0 using reads_fine [OF e] by blast
  qed
  have "read_text c = Inr (t, d) \<longleftrightarrow>
      (\<exists>n e. n < 2 ^ 32 \<and> spells c (put_u32 n) 0 e \<and> (\<exists>bs. length bs = n \<and> spells e bs 0 d \<and> from_utf8 bs = Some t))"
    unfolding read_text_def rd_number.then_iff [OF c] key using reads_fine [OF c] by blast
  also have "\<dots> \<longleftrightarrow> text_fits t \<and> spells c (put_text t) 0 d"
    unfolding from_utf8_exact text_fits_def text_typed_def put_text_def spells_append0
    by (intro iffI; clarsimp; blast)
  finally show "read_text c = Inr (t, d) \<longleftrightarrow> text_fits t \<and> spells c (put_text t) 0 d" .
qed

section \<open>Parts\<close>

definition part_fits :: "WordPart \<Rightarrow> bool" where
  "part_fits p \<longleftrightarrow> text_fits (part_text p)"

lemma text_fits_Nil [simp]: "text_fits []"
  by (simp add: text_fits_def text_typed_def)

lemma if_eq: "(if b then x else y) = z \<longleftrightarrow> b \<and> x = z \<or> \<not> b \<and> y = z"
  by simp

interpretation rd_part: cursor_reader read_part put_part "\<lambda>_. 0" part_fits
proof unfold_locales
  fix c p d
  assume c: "fits_in c"
  have rt: "fits_in e \<and> bindE (read_text e) (\<lambda>(t, c). Inr (PartText t, c)) = Inr (p, d) \<longleftrightarrow>
      fits_in e \<and> (\<exists>t. p = PartText t \<and> text_fits t \<and> spells e (put_text t) 0 d)" for e
    by (intro conj_cong refl rd_text.map_iff)
  have "read_part c = Inr (p, d) \<longleftrightarrow> (\<exists>b e. spells c [b] 0 e \<and>
      (b = 0 \<and> (\<exists>t. p = PartText t \<and> text_fits t \<and> spells e (put_text t) 0 d) \<or> b = 1 \<and> p = PartBreak \<and> d = e))"
  proof -
    have key: "fits_in e \<and> ((if b = 0 then bindE (read_text e) (\<lambda>(t, c). Inr (PartText t, c))
        else if b = 1 then Inr (PartBreak, e) else invalid) = Inr (p, d)) \<longleftrightarrow>
      fits_in e \<and> (b = 0 \<and> (\<exists>t. p = PartText t \<and> text_fits t \<and> spells e (put_text t) 0 d) \<or> b = 1 \<and> p = PartBreak \<and> d = e)"
      for b :: u8 and e
      using rt [of e] by (auto split: if_splits)
    show ?thesis
      unfolding read_part_def rd_byte.then_iff [OF c] key using reads_fine [OF c] by blast
  qed
  also have "\<dots> \<longleftrightarrow> part_fits p \<and> spells c (put_part p) 0 d"
  proof (cases p)
    case (PartText t)
    show ?thesis
      unfolding PartText put_part.simps spells_Cons [of c 0 "put_text t"] by (auto simp: part_fits_def)
  next
    case PartBreak
    then show ?thesis by (auto simp: part_fits_def)
  qed
  finally show "read_part c = Inr (p, d) \<longleftrightarrow> part_fits p \<and> spells c (put_part p) 0 d" .
qed

lemma read_count_iff:
  assumes "fits_in c"
  shows "read_count c = Inr (n, d) \<longleftrightarrow>
    n < 2 ^ 32 \<and> spells c (put_u32 n) n d \<and> n \<le> length (cur_bytes d) - cur_offset d"
proof -
  have key: "fits_in e \<and> (case checked_add64 (cur_units e) k of None \<Rightarrow> invalid
       | Some u \<Rightarrow> if cur_max e < u \<or> length (cur_bytes e) - cur_offset e < k then invalid
           else Inr (k, e\<lparr>cur_units := u\<rparr>)) = Inr (n, d) \<longleftrightarrow>
      fits_in e \<and> k = n \<and> cur_units e + n \<le> cur_max e \<and> n \<le> length (cur_bytes e) - cur_offset e \<and> d = e\<lparr>cur_units := cur_units e + n\<rparr>"
    for k e
    by (auto simp: checked_add64_def fits_in_def not_less)
  have "read_count c = Inr (n, d) \<longleftrightarrow> (\<exists>e. n < 2 ^ 32 \<and> spells c (put_u32 n) 0 e \<and>
      cur_units e + n \<le> cur_max e \<and> n \<le> length (cur_bytes e) - cur_offset e \<and> d = e\<lparr>cur_units := cur_units e + n\<rparr>)"
    unfolding read_count_def rd_number.then_iff [OF assms] key using reads_fine [OF assms] by blast
  also have "\<dots> \<longleftrightarrow> n < 2 ^ 32 \<and> spells c (put_u32 n) n d \<and> n \<le> length (cur_bytes d) - cur_offset d"
    by (auto simp: spells_def)
  finally show ?thesis .
qed

definition parts_fit :: "WordPart list \<Rightarrow> bool" where
  "parts_fit ps \<longleftrightarrow> list_all part_fits ps \<and> length ps < 2 ^ 32"

lemma put_part_pos: "0 < length (put_part p)"
  by (cases p) simp_all

lemma length_concat_ge: "(\<And>x. x \<in> set xs \<Longrightarrow> 0 < length (g x)) \<Longrightarrow> length xs \<le> length (concat (map g xs))"
proof (induction xs)
  case (Cons x xs)
  then have "length xs \<le> length (concat (map g xs))" "1 \<le> length (g x)"
    by (auto simp: Suc_le_eq)
  then show ?case by (simp del: One_nat_def)
qed simp

lemma reads_room: "spells c bs k d \<Longrightarrow> length bs \<le> length (cur_bytes c) - cur_offset c"
  by (auto simp: spells_def)

lemma repeat_count_iff:
  assumes c: "fits_in c" and r: "cursor_reader r enc used ok" and pos: "\<And>x. ok x \<Longrightarrow> 0 < length (enc x)"
  shows "bindE (read_count c) (\<lambda>(n, c). repeat_read r n c) = Inr (xs, d) \<longleftrightarrow>
    list_all ok xs \<and> length xs < 2 ^ 32
    \<and> spells c (put_u32 (length xs) @ concat (map enc xs)) (length xs + sum_list (map used xs)) d"
proof -
  have "fits_in e \<and> repeat_read r n e = Inr (xs, d) \<longleftrightarrow> fits_in e \<and> length xs = n \<and> list_all ok xs
      \<and> spells e (concat (map enc xs)) (sum_list (map used xs)) d" for n e
    by (intro conj_cong refl cursor_reader.repeat_iff [OF r])
  then have "bindE (read_count c) (\<lambda>(n, c). repeat_read r n c) = Inr (xs, d) \<longleftrightarrow>
      (\<exists>n e. read_count c = Inr (n, e) \<and> length xs = n \<and> list_all ok xs \<and> spells e (concat (map enc xs)) (sum_list (map used xs)) d)"
    unfolding bind_pair read_count_iff [OF c] using reads_fine [OF c] by blast
  also have "\<dots> \<longleftrightarrow> list_all ok xs \<and> length xs < 2 ^ 32 \<and> (\<exists>e. spells c (put_u32 (length xs)) (length xs) e
      \<and> spells e (concat (map enc xs)) (sum_list (map used xs)) d)"
  proof -
    have "length xs \<le> length (cur_bytes e) - cur_offset e"
      if "spells e (concat (map enc xs)) (sum_list (map used xs)) d" "list_all ok xs" for e
    proof -
      have "length xs \<le> length (concat (map enc xs))"
        using that(2) pos by (intro length_concat_ge) (simp add: list_all_iff)
      then show ?thesis
        using reads_room [OF that(1)] by (rule le_trans)
    qed
    then show ?thesis
      unfolding read_count_iff [OF c] by blast
  qed
  finally show ?thesis
    unfolding spells_append .
qed

lemma sum_list_zero: "sum_list (map (\<lambda>_. 0) xs) = (0 :: nat)"
  by (induction xs) simp_all

interpretation rd_parts: cursor_reader read_parts put_parts length parts_fit
proof unfold_locales
  fix c ps d
  assume "fits_in c"
  from repeat_count_iff [OF this rd_part.cursor_reader_axioms put_part_pos]
  show "read_parts c = Inr (ps, d) \<longleftrightarrow> parts_fit ps \<and> spells c (put_parts ps) (length ps) d"
    by (simp add: read_parts_def parts_fit_def put_parts_def sum_list_zero)
qed

end
