(* ===== verification/PresentationDecode.thy ===== *)
theory PresentationDecode
  imports PresentationCodec
begin

text \<open>
  The readers of tags, entities, choices, links and atoms, and the decoder: it accepts exactly what the
  encoder writes for a valid presentation of the requested class.
\<close>

section \<open>Finite components\<close>

lemma tag_list_index: "tag_list ! unat (tag_number t) = t \<and> unat (tag_number t) < length tag_list"
  by (cases t) (simp_all add: tag_list_def)

lemma tag_number_less: "unat b < 8 \<Longrightarrow> tag_number (tag_list ! unat b) = b"
proof -
  assume "unat b < 8"
  then obtain t where "tag_index t = unat b"
    by (rule tag_index_surj)
  then have "tag_number t = b"
    by (simp add: tag_index_def word_unat_eq_iff)
  then show ?thesis
    using tag_list_index [of t] by auto
qed

lemma tag_from_iff: "tag_from b = Inr t \<longleftrightarrow> tag_number t = b"
  using tag_list_index [of t] tag_number_less [of b] by (auto simp: tag_from_def tag_list_def)

interpretation rd_tag: cursor_reader read_tag "\<lambda>t. [tag_number t]" "\<lambda>_. 0" "\<lambda>_. True"
proof unfold_locales
  fix c t d
  assume c: "fits_in c"
  have key: "bindE (tag_from b) (\<lambda>t. Inr (t, e)) = Inr (t, d) \<longleftrightarrow> tag_number t = b \<and> e = d" for b and e :: Cursor
    by (auto simp: result_simps tag_from_iff)
  show "read_tag c = Inr (t, d) \<longleftrightarrow> True \<and> spells c [tag_number t] 0 d"
    unfolding read_tag_def rd_byte.then_iff [OF c] key using reads_fine [OF c] by blast
qed

interpretation rd_entity: cursor_reader read_entity "\<lambda>e. [entity_number e]" "\<lambda>_. 0" "\<lambda>_. True"
proof unfold_locales
  fix c x d
  assume c: "fits_in c"
  have key: "((if b = 0 then Inr (Amp, e) else if b = 1 then Inr (QuoteZero, e) else if b = 2 then Inr (QuoteSeven, e)
       else if b = 3 then Inr (QuoteZeroSeven, e) else invalid) :: (ChangedEntity \<times> Cursor) saved) = Inr (x, d)
      \<longleftrightarrow> entity_number x = b \<and> e = d" for b :: u8 and e
    by (cases x) auto
  show "read_entity c = Inr (x, d) \<longleftrightarrow> True \<and> spells c [entity_number x] 0 d"
    unfolding read_entity_def rd_byte.then_iff [OF c] key using reads_fine [OF c] by blast
qed

interpretation rd_rolls: cursor_reader read_rolls "\<lambda>r. [fst r, snd r]" "\<lambda>_. 0" rolls_ok
proof unfold_locales
  fix c r d
  assume c: "fits_in c"
  have key: "(case from_choices a b of Inl _ \<Rightarrow> (invalid :: (LeetRolls \<times> Cursor) saved) | Inr r \<Rightarrow> Inr (r, e)) = Inr (r, d)
      \<longleftrightarrow> rolls_ok r \<and> fst r = a \<and> snd r = b \<and> e = d" for a b e
    by (cases r) (auto simp: from_choices_def rolls_ok_def not_less)
  show "read_rolls c = Inr (r, d) \<longleftrightarrow> rolls_ok r \<and> spells c [fst r, snd r] 0 d"
    unfolding read_rolls_def rd_byte.then_iff [OF c] rd_byte.fine_then_iff key spells_Cons [of c "fst r" "[snd r]"]
    using reads_fine [OF c] reads_fine by blast
qed

section \<open>Links\<close>

lemma byte_length_ge: "length t \<le> byte_length t"
proof (induction t)
  case (Cons c t)
  then show ?case using len_utf8_pos [of c] by simp
qed simp

definition static_fits :: "StaticQuote \<Rightarrow> bool" where
  "static_fits q \<longleftrightarrow> parse_static (quote_label q) = Some (q, byte_length (quote_label q)) \<and> text_fits (quote_label q)"

definition server_fits :: "UrlLibrary \<Rightarrow> ServerLink \<Rightarrow> bool" where
  "server_fits lib link \<longleftrightarrow> parse_server lib link = Some (link, byte_length link) \<and> text_fits link"

lemma parse_static_all:
  "parse_static t = Some (q, byte_length t) \<longleftrightarrow> t = quote_label q \<and> parse_static (quote_label q) = Some (q, byte_length (quote_label q))"
proof
  assume a: "parse_static t = Some (q, byte_length t)"
  note p = parse_static_label [OF a]
  have "byte_length t = length t"
    using conjunct1 [OF p] byte_length_ge [of t] by (rule antisym)
  with p have "t = quote_label q"
    by simp
  with a show "t = quote_label q \<and> parse_static (quote_label q) = Some (q, byte_length (quote_label q))"
    by simp
qed simp

lemma parse_server_all:
  "parse_server lib t = Some (l, byte_length t) \<longleftrightarrow> t = l \<and> parse_server lib l = Some (l, byte_length l)"
proof
  assume a: "parse_server lib t = Some (l, byte_length t)"
  note p = parse_server_take [OF a]
  have "byte_length t = length t"
    using conjunct1 [OF p] byte_length_ge [of t] by (rule antisym)
  with p have "t = l"
    by simp
  with a show "t = l \<and> parse_server lib l = Some (l, byte_length l)"
    by simp
qed simp

interpretation rd_static: cursor_reader read_static "\<lambda>q. put_text (quote_label q)" "\<lambda>_. 0" static_fits
proof unfold_locales
  fix c q d
  assume c: "fits_in c"
  have key: "(case parse_static t of None \<Rightarrow> invalid
      | Some (q, used) \<Rightarrow> if used \<noteq> byte_length t then (invalid :: (StaticQuote \<times> Cursor) saved) else Inr (q, e)) = Inr (q, d)
      \<longleftrightarrow> (t = quote_label q \<and> parse_static (quote_label q) = Some (q, byte_length (quote_label q))) \<and> e = d" for t e
    unfolding parse_static_all [symmetric] by (auto split: option.split)
  show "read_static c = Inr (q, d) \<longleftrightarrow> static_fits q \<and> spells c (put_text (quote_label q)) 0 d"
    unfolding read_static_def rd_text.then_iff [OF c] key static_fits_def using reads_fine [OF c] by blast
qed

interpretation rd_server: cursor_reader "read_server lib" put_text "\<lambda>_. 0" "server_fits lib" for lib
proof unfold_locales
  fix c l d
  assume c: "fits_in c"
  have key: "(case parse_server lib t of None \<Rightarrow> invalid
      | Some (link, used) \<Rightarrow> if used \<noteq> byte_length t then (invalid :: (ServerLink \<times> Cursor) saved) else Inr (link, e)) = Inr (l, d)
      \<longleftrightarrow> (t = l \<and> parse_server lib l = Some (l, byte_length l)) \<and> e = d" for t e
    unfolding parse_server_all [symmetric] by (auto split: option.split)
  show "read_server lib c = Inr (l, d) \<longleftrightarrow> server_fits lib l \<and> spells c (put_text l) 0 d"
    unfolding read_server_def rd_text.then_iff [OF c] key server_fits_def using reads_fine [OF c] by blast
qed

section \<open>Atoms\<close>

fun atom_fits :: "UrlLibrary \<Rightarrow> SavedAtom \<Rightarrow> bool" where
  "atom_fits lib (SText t) = text_fits t"
| "atom_fits lib (SFiltered d) = (\<exists>r. del_rolls d = Some r \<and> rolls_ok r)"
| "atom_fits lib (SStatic q parts) = (static_fits q \<and> parts_fit parts)"
| "atom_fits lib (SServer link parts) = (server_fits lib link \<and> parts_fit parts)"
| "atom_fits lib _ = True"

lemma atom_bytes_simps [simp]:
  "atom_bytes (SText t) = 0 # put_text t" "atom_bytes SLineBreak = [1]" "atom_bytes SWordBreak = [2]"
  "atom_bytes (SMarkup g opened) = [3, tag_number g, bool_byte opened]"
  "atom_bytes (SQuoteSpan opened) = [4, bool_byte opened]"
  "atom_bytes (SEntity e) = [6, entity_number e]"
  "atom_bytes (SStatic q parts) = 7 # put_text (quote_label q) @ put_parts parts"
  "atom_bytes (SServer link parts) = 8 # put_text link @ put_parts parts"
  "del_rolls d = Some r \<Longrightarrow> atom_bytes (SFiltered d) = [5, tag_number (del_tag d), bool_byte (del_opening d), fst r, snd r]"
  by (simp_all add: atom_bytes_def split: prod.split)

text \<open>What follows the first byte of an atom.\<close>

definition atom_body :: "UrlLibrary \<Rightarrow> u8 \<Rightarrow> Cursor \<Rightarrow> (SavedAtom \<times> Cursor) saved" where
  "atom_body lib b c =
     (if b = 0 then bindE (read_text c) (\<lambda>(t, c). Inr (SText t, c))
       else if b = 1 then Inr (SLineBreak, c)
       else if b = 2 then Inr (SWordBreak, c)
       else if b = 3 then
         bindE (read_tag c) (\<lambda>(t, c). bindE (read_bool c) (\<lambda>(opened, c). Inr (SMarkup t opened, c)))
       else if b = 4 then bindE (read_bool c) (\<lambda>(opened, c). Inr (SQuoteSpan opened, c))
       else if b = 5 then
         bindE (read_tag c) (\<lambda>(t, c). bindE (read_bool c) (\<lambda>(opened, c). bindE (read_rolls c) (\<lambda>(r, c).
           Inr (SFiltered \<lparr>del_tag = t, del_opening = opened, del_rolls = Some r\<rparr>, c))))
       else if b = 6 then bindE (read_entity c) (\<lambda>(e, c). Inr (SEntity e, c))
       else if b = 7 then
         bindE (read_static c) (\<lambda>(q, c). bindE (read_parts c) (\<lambda>(parts, c). Inr (SStatic q parts, c)))
       else if b = 8 then
         bindE (read_server lib c) (\<lambda>(link, c). bindE (read_parts c) (\<lambda>(parts, c). Inr (SServer link parts, c)))
       else invalid)"

lemma read_atom_body: "read_atom lib c = bindE (read_byte c) (\<lambda>(b, c). atom_body lib b c)"
  by (simp add: read_atom_def atom_body_def)

fun atom_kind :: "SavedAtom \<Rightarrow> u8" where
  "atom_kind (SText t) = 0" | "atom_kind SLineBreak = 1" | "atom_kind SWordBreak = 2" | "atom_kind (SMarkup t b) = 3"
| "atom_kind (SQuoteSpan b) = 4" | "atom_kind (SFiltered d) = 5" | "atom_kind (SEntity e) = 6"
| "atom_kind (SStatic q ps) = 7" | "atom_kind (SServer l ps) = 8"

lemma reads_append1: "spells c (a @ b) k e \<longleftrightarrow> (\<exists>d. spells c a 0 d \<and> spells d b k e)"
  by (rule spells_append0)

lemma atom_body_kind: "atom_body lib b c = Inr (a, d) \<Longrightarrow> b = atom_kind a"
  by (auto simp: atom_body_def bind_pair split: if_splits)

lemma atom_body_iff:
  assumes "fits_in c"
  shows "atom_body lib (atom_kind a) c = Inr (a, d) \<longleftrightarrow> atom_fits lib a \<and> spells c (tl (atom_bytes a)) (atom_units a) d"
proof (cases a)
  case (SText t)
  show ?thesis
    unfolding SText atom_kind.simps atom_body_def if_P [OF refl] rd_text.map_iff [OF assms] by simp
next
  case SLineBreak
  then show ?thesis
    using reads_nil [OF assms, of d] by (auto simp: atom_body_def)
next
  case SWordBreak
  then show ?thesis
    using reads_nil [OF assms, of d] by (auto simp: atom_body_def)
next
  case (SMarkup t opened)
  have "atom_body lib 3 c = Inr (SMarkup t opened, d) \<longleftrightarrow> spells c ([tag_number t] @ [bool_byte opened]) 0 d"
    unfolding reads_append1 using reads_fine
    by (simp add: atom_body_def rd_tag.then_iff [OF assms] rd_boolean.fine_then_iff, blast intro: assms)
  then show ?thesis by (simp add: SMarkup)
next
  case (SQuoteSpan opened)
  then show ?thesis
    by (simp add: atom_body_def rd_boolean.map_iff [OF assms])
next
  case (SEntity e)
  then show ?thesis
    by (simp add: atom_body_def rd_entity.map_iff [OF assms])
next
  case (SFiltered f)
  obtain t opened ro where f: "f = \<lparr>del_tag = t, del_opening = opened, del_rolls = ro\<rparr>"
    by (cases f)
  have "atom_body lib 5 c = Inr (SFiltered f, d) \<longleftrightarrow> (\<exists>r. ro = Some r \<and> rolls_ok r
      \<and> spells c ([tag_number t] @ [bool_byte opened] @ [fst r, snd r]) 0 d)"
    unfolding reads_append1 using reads_fine
    by (simp add: f atom_body_def rd_tag.then_iff [OF assms] rd_boolean.fine_then_iff rd_rolls.fine_then_iff, blast intro: assms)
  then show ?thesis by (auto simp: SFiltered f)
next
  case (SStatic q parts)
  have "atom_body lib 7 c = Inr (SStatic q parts, d) \<longleftrightarrow>
      static_fits q \<and> parts_fit parts \<and> spells c (put_text (quote_label q) @ put_parts parts) (length parts) d"
    unfolding reads_append1 using reads_fine
    by (simp add: atom_body_def rd_static.then_iff [OF assms] rd_parts.fine_then_iff, blast intro: assms)
  then show ?thesis by (simp add: SStatic)
next
  case (SServer l parts)
  have "atom_body lib 8 c = Inr (SServer l parts, d) \<longleftrightarrow>
      server_fits lib l \<and> parts_fit parts \<and> spells c (put_text l @ put_parts parts) (length parts) d"
    unfolding reads_append1 using reads_fine
    by (simp add: atom_body_def rd_server.then_iff [OF assms] rd_parts.fine_then_iff, blast intro: assms)
  then show ?thesis by (simp add: SServer)
qed

lemma atom_bytes_Cons: "atom_fits lib a \<Longrightarrow> atom_bytes a = atom_kind a # tl (atom_bytes a)"
  by (cases a) auto

interpretation rd_atom: cursor_reader "read_atom lib" atom_bytes atom_units "atom_fits lib" for lib
proof unfold_locales
  fix c a d
  assume c: "fits_in c"
  have "read_atom lib c = Inr (a, d) \<longleftrightarrow> (\<exists>e. spells c [atom_kind a] 0 e \<and> fits_in e \<and> atom_body lib (atom_kind a) e = Inr (a, d))"
    unfolding read_atom_body rd_byte.then_iff [OF c] using atom_body_kind by blast
  also have "\<dots> \<longleftrightarrow> (\<exists>e. spells c [atom_kind a] 0 e \<and> atom_fits lib a \<and> spells e (tl (atom_bytes a)) (atom_units a) d)"
    using atom_body_iff reads_fine [OF c] by blast
  also have "\<dots> \<longleftrightarrow> atom_fits lib a \<and> spells c (atom_kind a # tl (atom_bytes a)) (atom_units a) d"
    unfolding spells_Cons [of c "atom_kind a" "tl (atom_bytes a)"] by blast
  also have "\<dots> \<longleftrightarrow> atom_fits lib a \<and> spells c (atom_bytes a) (atom_units a) d"
    using atom_bytes_Cons by metis
  finally show "read_atom lib c = Inr (a, d) \<longleftrightarrow> atom_fits lib a \<and> spells c (atom_bytes a) (atom_units a) d" .
qed

section \<open>Typed presentations within the limits have atoms that fit\<close>

lemma atom_bytes_bound:
  assumes "presentation_ok lib f" "a \<in> set (fp_atoms f)"
  shows "length (atom_bytes a) \<le> 524288"
proof -
  have "length (atom_bytes a) \<le> sum_list (map (\<lambda>a. length (atom_bytes a)) (fp_atoms f))"
    using assms(2) by (intro member_le_sum_list) simp_all
  also have "\<dots> \<le> encoded_size (total_sizes lib (fp_atoms f))"
    by (simp add: total_sizes_def atom_amounts_def)
  also have "\<dots> \<le> stored_bytes (fp_bounds f)"
    using assms(1) by (simp add: presentation_ok_def Let_def sizes_within_def)
  also have "\<dots> \<le> 524288"
    by (rule limit_values)
  finally show ?thesis .
qed

lemma put_text_length: "length (put_text t) = 4 + byte_length t"
  by (simp add: put_text_def)

lemma parts_fit_bound:
  assumes "length (put_parts parts) \<le> 524288" "list_all part_typed parts"
  shows "parts_fit parts"
proof -
  have sum: "length (concat (map put_part parts)) \<le> 524288"
    using assms(1) by (simp add: put_parts_def)
  have "part_fits p" if "p \<in> set parts" for p
  proof -
    have "length (put_part p) \<le> sum_list (map (\<lambda>p. length (put_part p)) parts)"
      using that by (intro member_le_sum_list) simp_all
    then have "length (put_part p) \<le> 524288"
      using sum by (simp add: length_concat comp_def)
    then show ?thesis
      using that assms(2) by (cases p) (auto simp: part_fits_def text_fits_def put_text_length list_all_iff part_typed_def)
  qed
  moreover have "length parts \<le> length (concat (map put_part parts))"
    by (rule length_concat_ge) (rule put_part_pos)
  ultimately show ?thesis
    using sum by (simp add: parts_fit_def list_all_iff)
qed

lemma atom_fits_iff:
  assumes "atom_valid lib filtering a" "length (atom_bytes a) \<le> 524288"
  shows "atom_fits lib a \<longleftrightarrow> atom_typed a"
proof (cases a)
  case (SText t)
  with assms show ?thesis
    by (simp add: text_fits_def put_text_length)
next
  case (SFiltered d)
  with assms show ?thesis by (auto simp: delimiter_ok_def)
next
  case (SStatic q parts)
  with assms have "length (put_parts parts) \<le> 524288" "byte_length (quote_label q) < 2 ^ 32"
    by (simp_all add: put_text_length)
  then show ?thesis
    using assms SStatic parts_fit_bound [of parts]
    by (auto simp: static_fits_def text_fits_def parts_fit_def list_all_iff part_fits_def part_typed_def)
next
  case (SServer l parts)
  with assms have "length (put_parts parts) \<le> 524288" "byte_length l < 2 ^ 32"
    by (simp_all add: put_text_length)
  then show ?thesis
    using assms SServer parts_fit_bound [of parts]
    by (auto simp: server_fits_def text_fits_def parts_fit_def list_all_iff part_fits_def part_typed_def)
qed simp_all

lemma atom_fits_typed: "atom_fits lib a \<Longrightarrow> atom_typed a"
  by (cases a) (auto simp: text_fits_def delimiter_ok_def static_fits_def server_fits_def parts_fit_def
    part_fits_def part_typed_def list_all_iff)

lemma presentation_fits:
  assumes "presentation_ok lib f"
  shows "list_all (atom_fits lib) (fp_atoms f) \<longleftrightarrow> typed f"
proof -
  have "atom_fits lib a \<longleftrightarrow> atom_typed a" if "a \<in> set (fp_atoms f)" for a
    using assms that by (intro atom_fits_iff [of lib "fp_wordfiltered f"] atom_bytes_bound)
      (auto simp: presentation_ok_def Let_def list_all_iff)
  then show ?thesis
    by (auto simp: typed_def list_all_iff)
qed

section \<open>The decoder\<close>

definition start_cursor :: "bytes \<Rightarrow> WordfilterLimits \<Rightarrow> Cursor" where
  "start_cursor input b = \<lparr>cur_bytes = input, cur_offset = 4, cur_units = 0, cur_max = max_parts b\<rparr>"

lemma start_fits: "9 \<le> length input \<Longrightarrow> length input \<le> stored_bytes b \<Longrightarrow> fits_in (start_cursor input b)"
  using limit_values [of b] by (simp add: fits_in_def start_cursor_def)

lemma spells_all:
  assumes "4 \<le> length input"
  shows "(\<exists>d. spells (start_cursor input b) bs k d \<and> cur_offset d = length input) \<longleftrightarrow> drop 4 input = bs \<and> k \<le> max_parts b"
  using assms by (auto simp: spells_def start_cursor_def)

lemma atom_bytes_pos: "atom_fits lib a \<Longrightarrow> 0 < length (atom_bytes a)"
  using atom_bytes_Cons by fastforce

lemma bindE_pair_assoc:
  "bindE m (\<lambda>(a, c). bindE (f a c) g) = bindE (bindE m (\<lambda>(a, c). f a c)) g"
  by (cases m) (auto split: prod.split)

lemma atoms_iff:
  assumes "fits_in c"
  shows "bindE (read_count c) (\<lambda>(n, c). repeat_read (read_atom lib) n c) = Inr (as, d) \<longleftrightarrow>
    list_all (atom_fits lib) as \<and> length as < 2 ^ 32
    \<and> spells c (put_u32 (length as) @ concat (map atom_bytes as)) (length as + sum_list (map atom_units as)) d"
  by (rule repeat_count_iff [OF assms rd_atom.cursor_reader_axioms atom_bytes_pos])

lemma presentation_decode_iff:
  assumes "9 \<le> length input" "length input \<le> stored_bytes b"
  shows "bindE (read_bool (start_cursor input b)) (\<lambda>(w, c). bindE (read_count c) (\<lambda>(n, c).
      bindE (repeat_read (read_atom lib) n c) (\<lambda>(as, c). if cur_offset c \<noteq> length input then invalid else G w as))) = Inr f
    \<longleftrightarrow> (\<exists>w as. list_all (atom_fits lib) as \<and> length as < 2 ^ 32
        \<and> drop 4 input = [bool_byte w] @ put_u32 (length as) @ concat (map atom_bytes as)
        \<and> length as + sum_list (map atom_units as) \<le> max_parts b \<and> G w as = Inr f)" (is "?L \<longleftrightarrow> ?R")
proof -
  let ?c = "start_cursor input b"
  have c: "fits_in ?c"
    using start_fits [OF assms] .
  have key: "fits_in e \<and> bindE (read_count e) (\<lambda>(n, c). bindE (repeat_read (read_atom lib) n c)
        (\<lambda>(as, c). if cur_offset c \<noteq> length input then invalid else G w as)) = Inr f \<longleftrightarrow>
      fits_in e \<and> (\<exists>as d. list_all (atom_fits lib) as \<and> length as < 2 ^ 32
      \<and> spells e (put_u32 (length as) @ concat (map atom_bytes as)) (length as + sum_list (map atom_units as)) d
      \<and> cur_offset d = length input \<and> G w as = Inr f)" for e w
  proof (rule conj_cong [OF refl])
    assume e: "fits_in e"
    have "(if cur_offset d \<noteq> length input then invalid else G w as) = Inr f \<longleftrightarrow> cur_offset d = length input \<and> G w as = Inr f" for d as
      by simp
    then show "bindE (read_count e) (\<lambda>(n, c). bindE (repeat_read (read_atom lib) n c)
        (\<lambda>(as, c). if cur_offset c \<noteq> length input then invalid else G w as)) = Inr f \<longleftrightarrow>
      (\<exists>as d. list_all (atom_fits lib) as \<and> length as < 2 ^ 32
      \<and> spells e (put_u32 (length as) @ concat (map atom_bytes as)) (length as + sum_list (map atom_units as)) d
      \<and> cur_offset d = length input \<and> G w as = Inr f)"
      unfolding bindE_pair_assoc bind_pair [where m = "bindE (read_count e) _"] atoms_iff [OF e] by blast
  qed
  have "?L \<longleftrightarrow> (\<exists>w e. spells ?c [bool_byte w] 0 e \<and> (\<exists>as d. list_all (atom_fits lib) as \<and> length as < 2 ^ 32
      \<and> spells e (put_u32 (length as) @ concat (map atom_bytes as)) (length as + sum_list (map atom_units as)) d
      \<and> cur_offset d = length input \<and> G w as = Inr f))"
    unfolding rd_boolean.then_iff [OF c] key using reads_fine [OF c] by blast
  also have "\<dots> \<longleftrightarrow> (\<exists>w as. list_all (atom_fits lib) as \<and> length as < 2 ^ 32 \<and> G w as = Inr f
      \<and> (\<exists>d. spells ?c ([bool_byte w] @ put_u32 (length as) @ concat (map atom_bytes as)) (length as + sum_list (map atom_units as)) d
        \<and> cur_offset d = length input))"
    unfolding spells_append0 [of ?c "[bool_byte _]"] by blast
  finally show ?thesis
    using spells_all [of input] assms(1) by (simp, blast)
qed

lemma take_4_drop: "take 4 input = magic b \<and> drop 4 input = rest \<longleftrightarrow> input = magic b @ rest"
  using append_take_drop_id [of 4 input] by (auto simp del: append_take_drop_id)

theorem presentation_decode_exact:
  "decode_presentation lib input limits = Inr f \<longleftrightarrow>
     typed f \<and> fp_bounds f = for_post limits \<and> encode_presentation lib f = Inr input"
proof -
  let ?b = "for_post limits"
  have "decode_presentation lib input limits = Inr f \<longleftrightarrow> typed f \<and> fp_bounds f = ?b \<and> presentation_ok lib f \<and> input = presentation_bytes f"
  proof (cases "length input < 9 \<or> stored_bytes ?b < length input \<or> take 4 input \<noteq> magic ?b")
    case True
    have "\<not> (length input < 9 \<or> stored_bytes ?b < length input \<or> take 4 input \<noteq> magic ?b)"
      if "presentation_ok lib f" "input = presentation_bytes f" "fp_bounds f = ?b"
    proof -
      have "length input \<le> stored_bytes ?b"
        using that by (simp add: presentation_bytes_length [of f lib] presentation_ok_def Let_def sizes_within_def)
      then show ?thesis
        using that by (simp add: presentation_bytes_def)
    qed
    then show ?thesis
      using True by (auto simp: decode_presentation_def)
  next
    case False
    then have len: "9 \<le> length input" "length input \<le> stored_bytes ?b" "take 4 input = magic ?b"
      by simp_all
    have v: "bindE (validate lib g) (\<lambda>_. Inr g) = Inr f \<longleftrightarrow> g = f \<and> (\<exists>z. validate lib f = Inr z)" for g
      by (auto simp: result_simps)
    have "decode_presentation lib input limits = Inr f \<longleftrightarrow>
        (\<exists>w as. list_all (atom_fits lib) as \<and> length as < 2 ^ 32
          \<and> drop 4 input = [bool_byte w] @ put_u32 (length as) @ concat (map atom_bytes as)
          \<and> length as + sum_list (map atom_units as) \<le> max_parts ?b
          \<and> bindE (validate lib \<lparr>fp_atoms = as, fp_bounds = ?b, fp_wordfiltered = w\<rparr>)
              (\<lambda>_. Inr \<lparr>fp_atoms = as, fp_bounds = ?b, fp_wordfiltered = w\<rparr>) = Inr f)"
      unfolding decode_presentation_def Let_def if_not_P [OF False] start_cursor_def [symmetric]
      by (rule presentation_decode_iff [OF len(1,2)])
    also have "\<dots> \<longleftrightarrow> fp_bounds f = ?b \<and> list_all (atom_fits lib) (fp_atoms f) \<and> length (fp_atoms f) < 2 ^ 32
        \<and> drop 4 input = [bool_byte (fp_wordfiltered f)] @ put_u32 (length (fp_atoms f)) @ concat (map atom_bytes (fp_atoms f))
        \<and> length (fp_atoms f) + sum_list (map atom_units (fp_atoms f)) \<le> max_parts ?b \<and> (\<exists>z. validate lib f = Inr z)"
      unfolding v by (cases f) auto
    also have "\<dots> \<longleftrightarrow> typed f \<and> fp_bounds f = ?b \<and> presentation_ok lib f \<and> input = presentation_bytes f"
    proof -
      have "list_all (atom_fits lib) (fp_atoms f) \<Longrightarrow> typed f"
        by (auto simp: typed_def list_all_iff intro: atom_fits_typed)
      then have "list_all (atom_fits lib) (fp_atoms f) \<and> (\<exists>z. validate lib f = Inr z) \<longleftrightarrow> typed f \<and> presentation_ok lib f"
        using presentation_fits validate_iff by blast
      moreover have "length (fp_atoms f) < 2 ^ 32 \<and> length (fp_atoms f) + sum_list (map atom_units (fp_atoms f)) \<le> max_parts ?b"
        if "presentation_ok lib f" "fp_bounds f = ?b"
        using that limit_values(3) [of ?b] by (simp add: presentation_ok_def Let_def)
      moreover have "fp_bounds f = ?b \<Longrightarrow> input = presentation_bytes f \<longleftrightarrow>
          drop 4 input = [bool_byte (fp_wordfiltered f)] @ put_u32 (length (fp_atoms f)) @ concat (map atom_bytes (fp_atoms f))"
        using len(3) take_4_drop [of input ?b] by (auto simp: presentation_bytes_def)
      ultimately show ?thesis
        by blast
    qed
    finally show ?thesis .
  qed
  then show ?thesis
    using presentation_encode_iff [of f lib input] by blast
qed

end
