(* ===== verification/PresentationRewrite.thy ===== *)
theory PresentationRewrite
  imports PresentationDecode
begin

text \<open>
  \<open>FrozenPresentation::rewrite_prior\<close> and its budget of work (\<open>saved_presentation.rs\<close>): post numbers of a
  moved thread are replaced in the texts of a frozen comment, one replacement after the other. An index
  of a match counts scalars here, bytes in the code; the pattern is ASCII, so both stand for the same cut.
\<close>

section \<open>Work\<close>

text \<open>A computation that charges a budget: the work left, also after an error, and the result.\<close>

type_synonym 'a work = "nat \<Rightarrow> nat \<times> 'a saved"

definition returnW :: "'a \<Rightarrow> 'a work" where
  "returnW x r = (r, Inr x)"

definition liftW :: "'a saved \<Rightarrow> 'a work" where
  "liftW m r = (r, m)"

definition bindW :: "'a work \<Rightarrow> ('a \<Rightarrow> 'b work) \<Rightarrow> 'b work" where
  "bindW m f r = (case m r of (r', Inl e) \<Rightarrow> (r', Inl e) | (r', Inr x) \<Rightarrow> f x r')"

fun walkW :: "('s \<Rightarrow> 'a \<Rightarrow> 's work) \<Rightarrow> 's \<Rightarrow> 'a list \<Rightarrow> 's work" where
  "walkW g s [] = returnW s"
| "walkW g s (x # xs) = bindW (g s x) (\<lambda>s. walkW g s xs)"

definition charge :: "nat \<Rightarrow> nat \<Rightarrow> unit work" where
  "charge input output r =
     (case Option.bind (checked_add64 input output) (checked_sub r) of
        Some left \<Rightarrow> (left, Inr ())
      | None \<Rightarrow> (0, Inl (Refused WorkLimitExceeded)))"

section \<open>Replacements\<close>

definition MAX_PRIOR_REPLACEMENTS :: nat where "MAX_PRIOR_REPLACEMENTS = 1001"

record PriorReplacement =
  rep_from :: utext
  rep_to :: utext

definition prior_new :: "64 word \<Rightarrow> 64 word \<Rightarrow> PriorReplacement saved" where
  "prior_new old new =
     (if sint old \<le> 0 \<or> sint new \<le> 0 then Inl (Refused InvalidReplacement)
      else Inr \<lparr>rep_from = lit ''>>'' @ decimal (nat (sint old)), rep_to = lit ''>>'' @ decimal (nat (sint new))\<rparr>)"

text \<open>\<open>match_indices\<close>: the starts of the matches, from the left, without overlaps.\<close>

function match_from :: "nat \<Rightarrow> utext \<Rightarrow> utext \<Rightarrow> nat list" where
  "match_from pos p t =
     (if t = [] then []
      else if starts_with t p then pos # match_from (pos + max 1 (length p)) p (drop (max 1 (length p)) t)
      else match_from (pos + 1) p (drop 1 t))"
  by pat_completeness auto

termination match_from
  by (relation "measure (\<lambda>(_, _, t). length t)") auto

declare match_from.simps [simp del]

definition match_starts :: "utext \<Rightarrow> utext \<Rightarrow> nat list" where
  "match_starts p t = match_from 0 p t"

definition length_mul :: "nat \<Rightarrow> nat \<Rightarrow> nat saved" where
  "length_mul a b = (case checked_mul64 a b of Some n \<Rightarrow> Inr n | None \<Rightarrow> exceeded)"

text \<open>The body of the scan of one replacement over an indexed atom.\<close>

definition scan_atom :: "PriorReplacement \<Rightarrow> WordfilterLimits \<Rightarrow> Sizes \<times> (nat \<times> nat) list \<Rightarrow> nat \<times> SavedAtom
    \<Rightarrow> (Sizes \<times> (nat \<times> nat) list) work" where
  "scan_atom rep b st entry =
     (case snd entry of
        SText t \<Rightarrow>
          bindW (charge (byte_length t) 0) (\<lambda>_.
          let count = length (match_starts (rep_from rep) t) in
          bindW (liftW (length_mul count (byte_length (rep_from rep)))) (\<lambda>removed.
          bindW (liftW (length_mul count (byte_length (rep_to rep)))) (\<lambda>added.
          bindW (liftW (replaced_size removed added (byte_length t))) (\<lambda>len.
          bindW (liftW (replace_text (byte_length t) len (fst st))) (\<lambda>z.
          bindW (liftW (check_sizes z b)) (\<lambda>_.
          bindW (charge (if 0 < count then byte_length t else 0) len) (\<lambda>_.
            returnW (z, if 0 < count then snd st @ [(fst entry, len)] else snd st))))))))
      | _ \<Rightarrow> returnW st)"

definition splice_step :: "PriorReplacement \<Rightarrow> utext \<Rightarrow> utext \<times> nat \<Rightarrow> nat \<Rightarrow> (utext \<times> nat) saved" where
  "splice_step rep t st start =
     bindE (cut (snd st) start t) (\<lambda>kept. Inr (fst st @ kept @ rep_to rep, start + length (rep_from rep)))"

definition splice :: "PriorReplacement \<Rightarrow> utext \<Rightarrow> utext saved" where
  "splice rep t =
     bindE (foldE (splice_step rep t) ([], 0) (match_starts (rep_from rep) t)) (\<lambda>(output, offset).
     bindE (cut offset (length t) t) (\<lambda>kept. Inr (output @ kept)))"

definition apply_change :: "PriorReplacement \<Rightarrow> SavedAtom list \<Rightarrow> nat \<times> nat \<Rightarrow> SavedAtom list saved" where
  "apply_change rep as change =
     (if fst change < length as then
        (case as ! fst change of
           SText t \<Rightarrow> bindE (splice rep t) (\<lambda>u. Inr (as[fst change := SText u]))
         | _ \<Rightarrow> Inl Panicked)
      else Inl Panicked)"

definition replacement_step :: "WordfilterLimits \<Rightarrow> SavedAtom list \<times> Sizes \<Rightarrow> PriorReplacement
    \<Rightarrow> (SavedAtom list \<times> Sizes) work" where
  "replacement_step b st rep =
     bindW (charge (length (fst st)) (length (fst st))) (\<lambda>_.
     bindW (walkW (scan_atom rep b) (snd st, []) (enumerate 0 (fst st))) (\<lambda>(z, changes).
     bindW (liftW (foldE (apply_change rep) (fst st) changes)) (\<lambda>as. returnW (as, z))))"

definition reserve_part :: "nat \<Rightarrow> unit \<Rightarrow> WordPart \<Rightarrow> unit work" where
  "reserve_part twice u p =
     (case p of PartText t \<Rightarrow> charge (byte_length t) (twice * byte_length t) | PartBreak \<Rightarrow> returnW ())"

definition reserve_atom :: "unit \<Rightarrow> SavedAtom \<Rightarrow> unit work" where
  "reserve_atom u a =
     (case a of
        SText t \<Rightarrow> charge (byte_length t) 0
      | SStatic q parts \<Rightarrow> bindW (charge (length parts) 0) (\<lambda>_. walkW (reserve_part 1) () parts)
      | SServer link parts \<Rightarrow> bindW (charge (byte_length link) (length parts)) (\<lambda>_. walkW (reserve_part 0) () parts)
      | _ \<Rightarrow> returnW ())"

definition reserve_pass :: "SavedAtom list \<Rightarrow> unit work" where
  "reserve_pass as = bindW (charge (length as) 0) (\<lambda>_. walkW reserve_atom () as)"

definition rewritten :: "UrlLibrary \<Rightarrow> FrozenPresentation \<Rightarrow> PriorReplacement list \<Rightarrow> FrozenPresentation work" where
  "rewritten lib f prior =
     (if MAX_PRIOR_REPLACEMENTS < length prior then liftW exceeded
      else if prior = [] then returnW f
      else
        bindW (reserve_pass (fp_atoms f)) (\<lambda>_.
        bindW (reserve_pass (fp_atoms f)) (\<lambda>_.
        bindW (liftW (validate lib f)) (\<lambda>z.
        bindW (walkW (replacement_step (fp_bounds f)) (fp_atoms f, z) prior) (\<lambda>(as, _).
        bindW (reserve_pass as) (\<lambda>_.
        bindW (liftW (validate lib (f\<lparr>fp_atoms := as\<rparr>))) (\<lambda>_.
          returnW (f\<lparr>fp_atoms := as\<rparr>))))))))"

text \<open>The presentation is assigned only at the last step; on every error it is what it was.\<close>

definition rewrite_prior :: "UrlLibrary \<Rightarrow> FrozenPresentation \<Rightarrow> PriorReplacement list \<Rightarrow> nat
    \<Rightarrow> FrozenPresentation \<times> nat \<times> unit saved" where
  "rewrite_prior lib f prior budget =
     (case rewritten lib f prior budget of
        (left, Inl e) \<Rightarrow> (f, left, Inl e)
      | (left, Inr g) \<Rightarrow> (g, left, Inr ()))"

section \<open>Sequential replacement\<close>

text \<open>PHP's \<open>str_replace\<close>: the matches from the left, never inside what was inserted.\<close>

function replace_all :: "utext \<Rightarrow> utext \<Rightarrow> utext \<Rightarrow> utext" where
  "replace_all p q t =
     (if t = [] then []
      else if p \<noteq> [] \<and> starts_with t p then q @ replace_all p q (drop (length p) t)
      else hd t # replace_all p q (tl t))"
  by pat_completeness auto

termination replace_all
  by (relation "measure (\<lambda>(_, _, t). length t)") auto

declare replace_all.simps [simp del]

fun replace_atom :: "PriorReplacement \<Rightarrow> SavedAtom \<Rightarrow> SavedAtom" where
  "replace_atom rep (SText t) = SText (replace_all (rep_from rep) (rep_to rep) t)"
| "replace_atom rep a = a"

definition replaced :: "PriorReplacement list \<Rightarrow> SavedAtom list \<Rightarrow> SavedAtom list" where
  "replaced prior as = foldl (\<lambda>as rep. map (replace_atom rep) as) as prior"

text \<open>The number of matches, and additive measures of the result.\<close>

lemma match_from_Nil [simp]: "match_from pos p [] = []"
  by (subst match_from.simps) simp

lemma match_from_hit: "p \<noteq> [] \<Longrightarrow> match_from pos p (p @ t) = pos # match_from (pos + length p) p t"
  by (subst match_from.simps) (simp add: starts_with_def max_def Suc_le_eq)

lemma match_from_miss: "\<not> starts_with (c # t) p \<Longrightarrow> match_from pos p (c # t) = match_from (Suc pos) p t"
  by (subst match_from.simps) simp

lemma starts_with_append: "starts_with t p \<longleftrightarrow> (\<exists>u. t = p @ u)"
  by (auto simp: starts_with_def) (metis append_take_drop_id)

lemma replace_all_Nil [simp]: "replace_all p q [] = []"
  by (subst replace_all.simps) simp

lemma replace_all_hit: "p \<noteq> [] \<Longrightarrow> replace_all p q (p @ t) = q @ replace_all p q t"
  by (subst replace_all.simps) (simp add: starts_with_def)

lemma replace_all_miss: "\<not> starts_with (c # t) p \<Longrightarrow> replace_all p q (c # t) = c # replace_all p q t"
  by (subst replace_all.simps) simp

text \<open>Induction along the matches.\<close>

lemma match_induct [consumes 1, case_names Nil hit miss]:
  assumes "p \<noteq> []" "P []" "\<And>t. P t \<Longrightarrow> P (p @ t)" "\<And>c t. \<not> starts_with (c # t) p \<Longrightarrow> P t \<Longrightarrow> P (c # t)"
  shows "P t"
proof (induction "length t" arbitrary: t rule: less_induct)
  case less
  show ?case
  proof (cases t)
    case Nil
    with assms(2) show ?thesis by simp
  next
    case (Cons c u)
    show ?thesis
    proof (cases "starts_with t p")
      case True
      then obtain v where v: "t = p @ v"
        using starts_with_append by blast
      have "P v"
        using assms(1) by (intro less) (simp add: v)
      then show ?thesis
        unfolding v by (rule assms(3))
    next
      case False
      have "P u"
        by (rule less) (simp add: Cons)
      with False show ?thesis
        unfolding Cons by (intro assms(4))
    qed
  qed
qed

definition matches :: "utext \<Rightarrow> utext \<Rightarrow> nat" where
  "matches p t = length (match_starts p t)"

lemma match_from_shift: "p \<noteq> [] \<Longrightarrow> length (match_from pos p t) = matches p t"
proof -
  assume p: "p \<noteq> []"
  then have "length (match_from pos p t) = length (match_from pos' p t)" for pos'
  proof (induction t arbitrary: pos pos' rule: match_induct)
    case (hit t)
    then show ?case unfolding match_from_hit [OF p] by simp
  next
    case (miss c t)
    then show ?case unfolding match_from_miss [OF miss(1)] by blast
  qed simp
  then show ?thesis by (simp add: matches_def match_starts_def)
qed

lemma matches_Nil: "matches p [] = 0"
  by (simp add: matches_def match_starts_def)

lemma matches_hit: "p \<noteq> [] \<Longrightarrow> matches p (p @ t) = Suc (matches p t)"
  unfolding matches_def [of p "p @ t"] match_starts_def by (simp add: match_from_hit match_from_shift)

lemma matches_miss: "p \<noteq> [] \<Longrightarrow> \<not> starts_with (c # t) p \<Longrightarrow> matches p (c # t) = matches p t"
  unfolding matches_def [of p "c # t"] match_starts_def by (simp add: match_from_miss match_from_shift)

text \<open>Every additive measure of the text grows by the difference of the two spellings, once for each match.\<close>

lemma replace_all_measure:
  fixes m :: "utext \<Rightarrow> nat"
  assumes "p \<noteq> []" "m [] = 0" "\<And>x y. m (x @ y) = m x + m y"
  shows "m (replace_all p q t) + matches p t * m p = m t + matches p t * m q"
  using assms(1)
proof (induction t rule: match_induct)
  case Nil
  then show ?case by (simp add: assms matches_Nil)
next
  case (hit t)
  then show ?case
    unfolding replace_all_hit [OF assms(1)] matches_hit [OF assms(1)] assms(3) by simp
next
  case (miss c t)
  have "m (c # t) = m [c] + m t" "m (c # replace_all p q t) = m [c] + m (replace_all p q t)"
    using assms(3) [of "[c]" t] assms(3) [of "[c]" "replace_all p q t"] by simp_all
  then show ?case
    unfolding replace_all_miss [OF miss(1)] matches_miss [OF assms(1) miss(1)] using miss(2) by simp
qed

section \<open>The splice is the replacement\<close>

lemma slice_of_Suc: "i \<le> j \<Longrightarrow> j < length xs \<Longrightarrow> slice_of i (Suc j) xs = slice_of i j xs @ [xs ! j]"
  by (simp add: slice_of_def Suc_diff_le take_Suc_conv_app_nth)

lemma slice_of_same: "slice_of i i xs = []"
  by (simp add: slice_of_def)

lemma splice_run:
  assumes "p = rep_from rep" "p \<noteq> []"
  shows "offset \<le> pos \<Longrightarrow> full = pre @ t \<Longrightarrow> length pre = pos \<Longrightarrow>
    \<exists>out' off'. foldE (splice_step rep full) (out, offset) (match_from pos p t) = Inr (out', off')
      \<and> off' \<le> length full \<and> out' @ drop off' full = out @ slice_of offset pos full @ replace_all p (rep_to rep) t"
  using assms(2)
proof (induction t arbitrary: pos offset out pre rule: match_induct)
  case Nil
  then show ?case
    by (auto simp: slice_of_def drop_all)
next
  case (hit t)
  have step: "splice_step rep full (out, offset) pos = Inr (out @ slice_of offset pos full @ rep_to rep, pos + length p)"
    using hit.prems by (simp add: splice_step_def cut_def assms(1))
  have "\<exists>out' off'. foldE (splice_step rep full) (out @ slice_of offset pos full @ rep_to rep, pos + length p)
        (match_from (pos + length p) p t) = Inr (out', off')
      \<and> off' \<le> length full \<and> out' @ drop off' full
        = (out @ slice_of offset pos full @ rep_to rep) @ slice_of (pos + length p) (pos + length p) full @ replace_all p (rep_to rep) t"
    using hit.prems by (intro hit.IH [where pre = "pre @ p"]) simp_all
  then show ?case
    unfolding match_from_hit [OF assms(2)] replace_all_hit [OF assms(2)] foldE.simps step bindE_Inr slice_of_same
    by simp
next
  case (miss c t)
  have "\<exists>out' off'. foldE (splice_step rep full) (out, offset) (match_from (Suc pos) p t) = Inr (out', off')
      \<and> off' \<le> length full \<and> out' @ drop off' full = out @ slice_of offset (Suc pos) full @ replace_all p (rep_to rep) t"
    using miss.prems by (intro miss.IH [where pre = "pre @ [c]"]) simp_all
  moreover have "slice_of offset (Suc pos) full = slice_of offset pos full @ [c]"
    using miss.prems slice_of_Suc [of offset pos full] by (simp add: nth_append)
  ultimately show ?case
    unfolding match_from_miss [OF miss.hyps(1)] replace_all_miss [OF miss.hyps(1)] by simp
qed

lemma splice_exact: "rep_from rep \<noteq> [] \<Longrightarrow> splice rep t = Inr (replace_all (rep_from rep) (rep_to rep) t)"
  using splice_run [of "rep_from rep" rep 0 0 t "[]" t "[]"]
  by (auto simp: splice_def match_starts_def cut_def slice_of_def)

end
