(* ===== verification/RewriteFacts.thy ===== *)
theory RewriteFacts
  imports PresentationRewrite
begin

text \<open>
  What \<open>rewrite_prior\<close> does: exactly when it succeeds, with which texts and which work; and that it
  neither panics, nor raises the budget, nor changes the presentation when it fails.
\<close>

section \<open>Costs of computations\<close>

text \<open>\<open>runs m P k x\<close>: the computation succeeds just when \<open>P\<close> and \<open>k\<close> work is left; it uses \<open>k\<close> and returns \<open>x\<close>.\<close>

definition runs :: "'a work \<Rightarrow> bool \<Rightarrow> nat \<Rightarrow> 'a \<Rightarrow> bool" where
  "runs m P k x \<longleftrightarrow> (\<forall>r r' y. m r = (r', Inr y) \<longleftrightarrow> P \<and> k \<le> r \<and> r' = r - k \<and> y = x)"

lemma runs_iff: "runs m P k x \<Longrightarrow> m r = (r', Inr y) \<longleftrightarrow> P \<and> k \<le> r \<and> r' = r - k \<and> y = x"
  by (simp add: runs_def)

lemma runs_return: "runs (returnW x) True 0 x"
  by (auto simp: runs_def returnW_def)

lemma runs_lift: "(\<And>y. m = Inr y \<longleftrightarrow> P \<and> y = x) \<Longrightarrow> runs (liftW m) P 0 x"
  by (auto simp: runs_def liftW_def)

lemma runs_charge: "runs (charge i n) (i + n < 2 ^ 64) (i + n) ()"
  by (auto simp: runs_def charge_def checked_add64_def checked_sub_def split: option.split)

lemma bindW_Inr: "bindW m f r = (r', Inr y) \<longleftrightarrow> (\<exists>s x. m r = (s, Inr x) \<and> f x s = (r', Inr y))"
  by (auto simp: bindW_def split: prod.split sum.split)

lemma runs_bind:
  assumes "runs m P k x" "P \<Longrightarrow> runs (f x) Q l y"
  shows "runs (bindW m f) (P \<and> Q) (k + l) y"
proof -
  have "bindW m f r = (r', Inr z) \<longleftrightarrow> P \<and> k \<le> r \<and> f x (r - k) = (r', Inr z)" for r r' z
    unfolding bindW_Inr runs_iff [OF assms(1)] by blast
  then show ?thesis
    using runs_iff [OF assms(2)] by (fastforce simp: runs_def)
qed

lemma runs_cong: "runs m P k x \<Longrightarrow> (P \<longleftrightarrow> Q) \<Longrightarrow> k = l \<Longrightarrow> x = y \<Longrightarrow> runs m Q l y"
  by simp

text \<open>\<open>quiet m\<close>: it neither panics nor raises the budget.\<close>

definition quiet :: "'a work \<Rightarrow> bool" where
  "quiet m \<longleftrightarrow> (\<forall>r. fst (m r) \<le> r \<and> snd (m r) \<noteq> Inl Panicked)"

lemma calm_return: "quiet (returnW x)"
  by (simp add: quiet_def returnW_def)

lemma calm_lift: "m \<noteq> Inl Panicked \<Longrightarrow> quiet (liftW m)"
  by (simp add: quiet_def liftW_def)

lemma calm_charge: "quiet (charge i n)"
  by (auto simp: quiet_def charge_def checked_add64_def checked_sub_def split: option.split)

lemma calm_bind:
  assumes "quiet m" "\<And>r r' x. m r = (r', Inr x) \<Longrightarrow> quiet (f x)"
  shows "quiet (bindW m f)"
  unfolding quiet_def
proof
  fix r
  obtain s res where m: "m r = (s, res)"
    by (cases "m r")
  have s: "s \<le> r" "res \<noteq> Inl Panicked"
    using assms(1) by (simp_all add: quiet_def m prod_eq_iff flip: m) (metis fst_conv snd_conv m)+
  show "fst (bindW m f r) \<le> r \<and> snd (bindW m f r) \<noteq> Inl Panicked"
  proof (cases res)
    case (Inl e)
    then show ?thesis using s by (simp add: bindW_def m)
  next
    case (Inr x)
    have "quiet (f x)"
      by (rule assms(2) [of r s]) (simp add: m Inr)
    then have "fst (f x s) \<le> s" "snd (f x s) \<noteq> Inl Panicked"
      by (simp_all add: quiet_def)
    then show ?thesis
      using s(1) by (simp add: bindW_def m Inr)
  qed
qed

lemma calm_walk: "(\<And>s x. quiet (g s x)) \<Longrightarrow> quiet (walkW g s xs)"
  by (induction xs arbitrary: s) (auto intro: calm_return calm_bind)

section \<open>Replacements\<close>

lemma decimal_length: "n < 10 ^ k \<Longrightarrow> 0 < k \<Longrightarrow> length (decimal n) \<le> k"
proof (induction k arbitrary: n)
  case (Suc k)
  show ?case
  proof (cases "n < 10")
    case True
    then show ?thesis by (subst decimal.simps) simp
  next
    case False
    then have "0 < k" "n div 10 < 10 ^ k"
      using Suc.prems by (auto intro!: Suc_leI gr0I) 
    then have "length (decimal (n div 10)) \<le> k"
      by (intro Suc.IH)
    then show ?thesis
      using False by (subst decimal.simps) simp
  qed
qed simp

definition proper :: "PriorReplacement \<Rightarrow> bool" where
  "proper rep \<longleftrightarrow> (\<exists>old new. prior_new old new = Inr rep)"

definition quote_text :: "utext \<Rightarrow> bool" where
  "quote_text t \<longleftrightarrow> (\<exists>ds. t = 62 # 62 # ds \<and> list_all is_digit ds \<and> length ds \<le> 19)"

lemma quote_text_decimal: "quote_text (lit ''>>'' @ decimal (nat (sint (n :: 64 word))))"
proof -
  have "sint n < 2 ^ 63"
    using sint_lt [of n] by simp
  then have "sint n < 10 ^ 19"
    by simp
  then have "nat (sint n) < 10 ^ 19"
    by (cases "0 \<le> sint n") (simp_all add: nat_less_iff)
  then have "length (decimal (nat (sint n))) \<le> 19"
    by (intro decimal_length) simp_all
  then show ?thesis
    using decimal_digits by (simp add: quote_text_def lit_def)
qed

lemma proper_texts: "proper rep \<Longrightarrow> quote_text (rep_from rep) \<and> quote_text (rep_to rep)"
  using quote_text_decimal by (auto simp: proper_def prior_new_def split: if_splits)

lemma quote_text_bytes:
  assumes "quote_text t"
  shows "byte_length t \<le> 21" "escaped_len t = byte_length t + 6" "t \<noteq> []" "list_all is_scalar t"
proof -
  obtain ds where t: "t = 62 # 62 # ds" "list_all is_digit ds" "length ds \<le> 19"
    using assms by (auto simp: quote_text_def)
  have "byte_length ds = length ds" "escaped_len ds = length ds" "list_all is_scalar ds"
    using t(2) by (induction ds) (auto simp: is_digit_def len_utf8_def escaped_len_def escaped_char_len_def is_scalar_def)
  then show "byte_length t \<le> 21" "escaped_len t = byte_length t + 6" "t \<noteq> []" "list_all is_scalar t"
    using t by (simp_all add: len_utf8_def escaped_len_def escaped_char_len_def is_scalar_def)
qed

lemma escaped_append: "escaped_len (s @ t) = escaped_len s + escaped_len t" "escaped_len [] = 0"
  by (simp_all add: escaped_len_def)

text \<open>The texts a replacement makes, and their lengths.\<close>

definition new_text :: "PriorReplacement \<Rightarrow> utext \<Rightarrow> utext" where
  "new_text rep t = replace_all (rep_from rep) (rep_to rep) t"

lemma new_text_length:
  fixes t :: utext
  assumes "proper rep"
  defines "n \<equiv> matches (rep_from rep) t"
  shows "byte_length (new_text rep t) + n * byte_length (rep_from rep) = byte_length t + n * byte_length (rep_to rep)"
    "escaped_len (new_text rep t) + byte_length t = escaped_len t + byte_length (new_text rep t)"
    "n * byte_length (rep_from rep) \<le> byte_length t" "n \<le> byte_length t"
proof -
  note q = quote_text_bytes [OF conjunct1 [OF proper_texts [OF assms(1)]]]
    quote_text_bytes [OF conjunct2 [OF proper_texts [OF assms(1)]]]
  show 1: "byte_length (new_text rep t) + n * byte_length (rep_from rep) = byte_length t + n * byte_length (rep_to rep)"
    unfolding new_text_def n_def by (rule replace_all_measure [OF q(3)]) simp_all
  have "escaped_len (new_text rep t) + n * escaped_len (rep_from rep) = escaped_len t + n * escaped_len (rep_to rep)"
    unfolding new_text_def n_def by (rule replace_all_measure [OF q(3)]) (simp_all add: escaped_append)
  with 1 show "escaped_len (new_text rep t) + byte_length t = escaped_len t + byte_length (new_text rep t)"
    by (simp add: q(2,6) distrib_left)
  have "byte_length (replace_all (rep_from rep) [] t) + n * byte_length (rep_from rep) = byte_length t + n * byte_length []"
    unfolding n_def by (rule replace_all_measure [OF q(3)]) simp_all
  then show 2: "n * byte_length (rep_from rep) \<le> byte_length t"
    by simp
  have "1 \<le> byte_length (rep_from rep)"
    using byte_length_0 [of "rep_from rep"] q(3) by linarith
  then have "n \<le> n * byte_length (rep_from rep)"
    by simp
  with 2 show "n \<le> byte_length t"
    by linarith
qed

lemma new_text_id: "proper rep \<Longrightarrow> matches (rep_from rep) t = 0 \<Longrightarrow> new_text rep t = t"
proof -
  assume p: "proper rep" and "matches (rep_from rep) t = 0"
  have ne: "rep_from rep \<noteq> []"
    using quote_text_bytes(3) proper_texts [OF p] by blast
  from \<open>matches (rep_from rep) t = 0\<close> show "new_text rep t = t"
    using ne
  proof (induction t rule: match_induct [OF ne])
    case (2 t)
    then show ?case by (simp add: matches_hit)
  next
    case (3 c t)
    then show ?case by (simp add: new_text_def replace_all_miss matches_miss)
  qed (simp add: new_text_def)
qed

lemma new_text_nonempty: "proper rep \<Longrightarrow> t \<noteq> [] \<Longrightarrow> new_text rep t \<noteq> []"
proof -
  assume p: "proper rep" and t: "t \<noteq> []"
  have "rep_to rep \<noteq> []"
    using quote_text_bytes(3) proper_texts [OF p] by blast
  then show ?thesis
    using t by (subst new_text_def, subst replace_all.simps) simp
qed

lemma new_text_typed:
  assumes "proper rep" "text_typed t"
  shows "text_typed (new_text rep t)"
proof -
  have ne: "rep_from rep \<noteq> []" and sc: "list_all is_scalar (rep_to rep)"
    using quote_text_bytes proper_texts [OF assms(1)] by blast+
  from assms(2) show ?thesis
    unfolding new_text_def text_typed_def
    using ne
  proof (induction t rule: match_induct [OF ne])
    case (2 t)
    then show ?case using sc by (simp add: replace_all_hit)
  next
    case (3 c t)
    then show ?case by (simp add: replace_all_miss)
  qed simp
qed

section \<open>The scan of one replacement\<close>

lemma bindW_lift [simp]: "bindW (liftW (Inr x)) f = f x"
  by (simp add: bindW_def liftW_def fun_eq_iff)

definition swap_text :: "nat \<Rightarrow> nat \<Rightarrow> Sizes \<Rightarrow> Sizes" where
  "swap_text old new z = \<lparr>encoded_size = encoded_size z - old + new, source_size = source_size z - old + new,
     search_size = search_size z - old + new\<rparr>"

definition sizes_ge :: "nat \<Rightarrow> Sizes \<Rightarrow> bool" where
  "sizes_ge n z \<longleftrightarrow> n \<le> encoded_size z \<and> n \<le> source_size z \<and> n \<le> search_size z"

definition text_cost :: "PriorReplacement \<Rightarrow> utext \<Rightarrow> nat" where
  "text_cost rep t = byte_length t + ((if 0 < matches (rep_from rep) t then byte_length t else 0) + byte_length (new_text rep t))"

lemma within_small_sizes: "sizes_within b z \<Longrightarrow> sizes_ge n z \<Longrightarrow> n \<le> 524288"
  using limit_values(1) [of b] by (simp add: sizes_within_def sizes_ge_def)

lemma new_text_small:
  assumes "proper rep" "byte_length t \<le> 524288"
  shows "byte_length (new_text rep t) \<le> 11534336"
    "length_mul (matches (rep_from rep) t) (byte_length (rep_from rep)) = Inr (matches (rep_from rep) t * byte_length (rep_from rep))"
    "length_mul (matches (rep_from rep) t) (byte_length (rep_to rep)) = Inr (matches (rep_from rep) t * byte_length (rep_to rep))"
    "replaced_size (matches (rep_from rep) t * byte_length (rep_from rep)) (matches (rep_from rep) t * byte_length (rep_to rep))
       (byte_length t) = Inr (byte_length (new_text rep t))"
proof -
  note n = new_text_length [OF assms(1), of t]
  have "matches (rep_from rep) t * byte_length (rep_to rep) \<le> byte_length t * 21"
    using n(4) quote_text_bytes(1) proper_texts [OF assms(1)] by (intro mult_le_mono) blast+
  then have to: "matches (rep_from rep) t * byte_length (rep_to rep) \<le> 11010048"
    using assms(2) by linarith
  then show small: "byte_length (new_text rep t) \<le> 11534336"
    using n(1) assms(2) by linarith
  show "length_mul (matches (rep_from rep) t) (byte_length (rep_to rep)) = Inr (matches (rep_from rep) t * byte_length (rep_to rep))"
    using to by (simp add: length_mul_def checked_mul64_def)
  show "length_mul (matches (rep_from rep) t) (byte_length (rep_from rep)) = Inr (matches (rep_from rep) t * byte_length (rep_from rep))"
    using n(3) assms(2) by (simp add: length_mul_def checked_mul64_def)
  have "byte_length (new_text rep t) = byte_length t - matches (rep_from rep) t * byte_length (rep_from rep)
      + matches (rep_from rep) t * byte_length (rep_to rep)"
    using n(1,3) by linarith
  then show "replaced_size (matches (rep_from rep) t * byte_length (rep_from rep)) (matches (rep_from rep) t * byte_length (rep_to rep))
       (byte_length t) = Inr (byte_length (new_text rep t))"
    using n(3) small by (simp add: replaced_size_def checked_sub_def checked_add64_def)
qed

lemma replace_text_swap:
  assumes "sizes_within b z" "sizes_ge old z" "new \<le> 11534336"
  shows "replace_text old new z = Inr (swap_text old new z)"
proof -
  have "encoded_size z + new < 2 ^ 64" "source_size z + new < 2 ^ 64" "search_size z + new < 2 ^ 64"
    using assms(1,3) limit_values(1,2) [of b] by (simp_all add: sizes_within_def)
  then show ?thesis
    using assms(2)
    by (simp add: replace_text_def replaced_size_def checked_sub_def checked_add64_def sizes_ge_def swap_text_def
      less_imp_diff_less)
qed

lemma scan_text_runs:
  assumes "proper rep" "sizes_within b z" "sizes_ge (byte_length t) z"
  shows "runs (scan_atom rep b (z, ch) (i, SText t)) (sizes_within b (swap_text (byte_length t) (byte_length (new_text rep t)) z))
    (text_cost rep t)
    (swap_text (byte_length t) (byte_length (new_text rep t)) z,
     if 0 < matches (rep_from rep) t then ch @ [(i, byte_length (new_text rep t))] else ch)"
proof -
  let ?n = "byte_length (new_text rep t)" and ?m = "matches (rep_from rep) t"
  have l: "byte_length t \<le> 524288"
    by (rule within_small_sizes [OF assms(2,3)])
  note small = new_text_small [OF assms(1) l]
  have "runs (bindW (charge (byte_length t) 0) (\<lambda>_. bindW (liftW (check_sizes (swap_text (byte_length t) ?n z) b)) (\<lambda>_.
      bindW (charge (if 0 < ?m then byte_length t else 0) ?n) (\<lambda>_.
        returnW (swap_text (byte_length t) ?n z, if 0 < ?m then ch @ [(i, ?n)] else ch)))))
    (byte_length t + 0 < 2 ^ 64 \<and> sizes_within b (swap_text (byte_length t) ?n z)
      \<and> ((if 0 < ?m then byte_length t else 0) + ?n < 2 ^ 64 \<and> True))
    (byte_length t + 0 + (0 + ((if 0 < ?m then byte_length t else 0) + ?n + 0)))
    (swap_text (byte_length t) ?n z, if 0 < ?m then ch @ [(i, ?n)] else ch)"
    by (rule runs_bind [OF runs_charge runs_bind [OF runs_lift runs_bind [OF runs_charge runs_return]]])
      (simp add: check_sizes_iff)
  moreover have "scan_atom rep b (z, ch) (i, SText t) =
      bindW (charge (byte_length t) 0) (\<lambda>_. bindW (liftW (check_sizes (swap_text (byte_length t) ?n z) b)) (\<lambda>_.
      bindW (charge (if 0 < ?m then byte_length t else 0) ?n) (\<lambda>_.
        returnW (swap_text (byte_length t) ?n z, if 0 < ?m then ch @ [(i, ?n)] else ch))))"
    by (simp add: scan_atom_def Let_def small(2-4) replace_text_swap [OF assms(2,3) small(1)] flip: matches_def)
  ultimately show ?thesis
    by (simp only:) (rule runs_cong, assumption, use l small(1) in \<open>auto simp: text_cost_def\<close>)
qed

section \<open>Totals\<close>

lemma text_amounts: "atom_amounts lib (SText t) = (5 + byte_length t, escaped_len t, byte_length t)"
  by (simp add: atom_amounts_def run_bytes_def project_atom_def escaped_len_source put_text_length)

lemma total_append: "total_sizes lib (as @ a # bs) = grow (atom_amounts lib a) (total_sizes lib (as @ bs))"
  by (simp add: total_sizes_def grow_def)

lemma escaped_ge: "byte_length t \<le> escaped_len t"
  by (induction t) (auto simp: escaped_len_def escaped_char_len_def len_utf8_def)

lemma total_ge: "sizes_ge (byte_length t) (total_sizes lib (as @ SText t # bs))"
  using escaped_ge [of t] by (simp add: sizes_ge_def total_append grow_def text_amounts)

lemma total_swap:
  assumes "proper rep"
  shows "swap_text (byte_length t) (byte_length (new_text rep t)) (total_sizes lib (as @ SText t # bs))
    = total_sizes lib (as @ SText (new_text rep t) # bs)"
  using escaped_ge [of t] new_text_length(2) [OF assms, of t]
  by (simp add: total_append grow_def text_amounts swap_text_def)

definition sizes_le :: "Sizes \<Rightarrow> Sizes \<Rightarrow> bool" where
  "sizes_le y z \<longleftrightarrow> encoded_size y \<le> encoded_size z \<and> source_size y \<le> source_size z \<and> search_size y \<le> search_size z"

lemma within_le: "sizes_le y z \<Longrightarrow> sizes_within b z \<Longrightarrow> sizes_within b y"
  by (simp add: sizes_le_def sizes_within_def)

lemma total_le_mono:
  "(\<And>a. a \<in> set as \<Longrightarrow> sizes_le (grow (atom_amounts lib (g a)) \<lparr>encoded_size = 0, source_size = 0, search_size = 0\<rparr>)
      (grow (atom_amounts lib (h a)) \<lparr>encoded_size = 0, source_size = 0, search_size = 0\<rparr>)) \<Longrightarrow>
    sizes_le (total_sizes lib (pre @ map g as)) (total_sizes lib (pre @ map h as))"
  by (induction as) (auto simp: total_sizes_def sizes_le_def grow_def add_mono)

text \<open>All replacements of one number by another grow the texts, or all shrink them.\<close>

lemma amounts_sign:
  assumes "proper rep"
  shows "byte_length (rep_from rep) \<le> byte_length (rep_to rep) \<Longrightarrow>
      sizes_le (grow (atom_amounts lib a) z) (grow (atom_amounts lib (replace_atom rep a)) z)"
    "byte_length (rep_to rep) \<le> byte_length (rep_from rep) \<Longrightarrow>
      sizes_le (grow (atom_amounts lib (replace_atom rep a)) z) (grow (atom_amounts lib a) z)"
proof -
  have up: "byte_length t \<le> byte_length (new_text rep t) \<and> escaped_len t \<le> escaped_len (new_text rep t)"
    if "byte_length (rep_from rep) \<le> byte_length (rep_to rep)" for t
  proof -
    have "matches (rep_from rep) t * byte_length (rep_from rep) \<le> matches (rep_from rep) t * byte_length (rep_to rep)"
      using that by simp
    then show ?thesis
      using new_text_length(1,2) [OF assms, of t] by linarith
  qed
  have down: "byte_length (new_text rep t) \<le> byte_length t \<and> escaped_len (new_text rep t) \<le> escaped_len t"
    if "byte_length (rep_to rep) \<le> byte_length (rep_from rep)" for t
  proof -
    have "matches (rep_from rep) t * byte_length (rep_to rep) \<le> matches (rep_from rep) t * byte_length (rep_from rep)"
      using that by simp
    then show ?thesis
      using new_text_length(1,2) [OF assms, of t] by linarith
  qed
  show "byte_length (rep_from rep) \<le> byte_length (rep_to rep) \<Longrightarrow>
      sizes_le (grow (atom_amounts lib a) z) (grow (atom_amounts lib (replace_atom rep a)) z)"
    using up by (cases a) (auto simp: sizes_le_def grow_def text_amounts simp flip: new_text_def)
  show "byte_length (rep_to rep) \<le> byte_length (rep_from rep) \<Longrightarrow>
      sizes_le (grow (atom_amounts lib (replace_atom rep a)) z) (grow (atom_amounts lib a) z)"
    using down by (cases a) (auto simp: sizes_le_def grow_def text_amounts simp flip: new_text_def)
qed

lemma within_between:
  assumes "proper rep" "sizes_within b (total_sizes lib (pre @ as))" "sizes_within b (total_sizes lib (pre @ map (replace_atom rep) as))"
    "as = as1 @ as2"
  shows "sizes_within b (total_sizes lib (pre @ map (replace_atom rep) as1 @ as2))"
proof (cases "byte_length (rep_from rep) \<le> byte_length (rep_to rep)")
  case True
  have "sizes_le (total_sizes lib ((pre @ map (replace_atom rep) as1) @ map id as2))
      (total_sizes lib ((pre @ map (replace_atom rep) as1) @ map (replace_atom rep) as2))"
    by (rule total_le_mono) (simp add: amounts_sign(1) [OF assms(1) True])
  then show ?thesis
    using assms(3,4) by (auto intro: within_le)
next
  case False
  have "sizes_le (total_sizes lib ((pre @ as2) @ map (replace_atom rep) as1)) (total_sizes lib ((pre @ as2) @ map id as1))"
    by (rule total_le_mono) (use False in \<open>simp add: amounts_sign(2) [OF assms(1)]\<close>)
  moreover have "total_sizes lib ((pre @ as2) @ map (replace_atom rep) as1) = total_sizes lib (pre @ map (replace_atom rep) as1 @ as2)"
    "total_sizes lib ((pre @ as2) @ map id as1) = total_sizes lib (pre @ as)"
    by (simp_all add: total_sizes_def assms(4))
  ultimately show ?thesis
    using assms(2) by (auto intro: within_le)
qed

section \<open>One replacement\<close>

fun atom_cost :: "PriorReplacement \<Rightarrow> SavedAtom \<Rightarrow> nat" where
  "atom_cost rep (SText t) = text_cost rep t"
| "atom_cost rep a = 0"

fun atom_change :: "PriorReplacement \<Rightarrow> nat \<times> SavedAtom \<Rightarrow> (nat \<times> nat) list" where
  "atom_change rep (i, SText t) = (if 0 < matches (rep_from rep) t then [(i, byte_length (new_text rep t))] else [])"
| "atom_change rep _ = []"

lemma within_one:
  assumes "proper rep" "sizes_within b (total_sizes lib (pre @ a # as))"
    "sizes_within b (total_sizes lib (pre @ replace_atom rep a # map (replace_atom rep) as))"
  shows "sizes_within b (total_sizes lib (pre @ replace_atom rep a # as))"
proof -
  have "sizes_within b (total_sizes lib (pre @ map (replace_atom rep) [a] @ as))"
    by (rule within_between [OF assms(1,2)]) (simp_all add: assms(3))
  then show ?thesis by simp
qed

lemma scan_atoms_runs:
  assumes "proper rep" "sizes_within b (total_sizes lib (pre @ as))"
  shows "runs (walkW (scan_atom rep b) (total_sizes lib (pre @ as), ch) (enumerate n as))
    (sizes_within b (total_sizes lib (pre @ map (replace_atom rep) as)))
    (sum_list (map (atom_cost rep) as))
    (total_sizes lib (pre @ map (replace_atom rep) as), ch @ concat (map (atom_change rep) (enumerate n as)))"
  using assms(2)
proof (induction as arbitrary: pre ch n)
  case Nil
  then show ?case by (auto intro!: runs_cong [OF runs_return])
next
  case (Cons a as)
  let ?pre = "pre @ [replace_atom rep a]"
  have step: "runs (scan_atom rep b (total_sizes lib (pre @ a # as), ch) (n, a))
      (sizes_within b (total_sizes lib (?pre @ as))) (atom_cost rep a)
      (total_sizes lib (?pre @ as), ch @ atom_change rep (n, a))"
  proof (cases "\<exists>t. a = SText t")
    case True
    then obtain t where a: "a = SText t" ..
    show ?thesis
      using scan_text_runs [OF assms(1) Cons.prems [unfolded a] total_ge, of ch n] total_swap [OF assms(1), of t lib pre as]
      by (cases "0 < matches (rep_from rep) t") (simp_all add: a flip: new_text_def)
  next
    case False
    then have "replace_atom rep a = a" "atom_cost rep a = 0" "atom_change rep (n, a) = []"
        "scan_atom rep b (total_sizes lib (pre @ a # as), ch) (n, a) = returnW (total_sizes lib (pre @ a # as), ch)"
      by (cases a; simp add: scan_atom_def)+
    then show ?thesis
      using Cons.prems by (simp add: runs_cong [OF runs_return])
  qed
  have "runs (walkW (scan_atom rep b) (total_sizes lib (pre @ a # as), ch) ((n, a) # enumerate (Suc n) as))
      (sizes_within b (total_sizes lib (?pre @ as)) \<and> sizes_within b (total_sizes lib (?pre @ map (replace_atom rep) as)))
      (atom_cost rep a + sum_list (map (atom_cost rep) as))
      (total_sizes lib (?pre @ map (replace_atom rep) as),
        (ch @ atom_change rep (n, a)) @ concat (map (atom_change rep) (enumerate (Suc n) as)))"
    unfolding walkW.simps
  proof (rule runs_bind [OF step])
    show "runs (walkW (scan_atom rep b) (total_sizes lib (?pre @ as), ch @ atom_change rep (n, a)) (enumerate (Suc n) as))
        (sizes_within b (total_sizes lib (?pre @ map (replace_atom rep) as))) (sum_list (map (atom_cost rep) as))
        (total_sizes lib (?pre @ map (replace_atom rep) as),
          (ch @ atom_change rep (n, a)) @ concat (map (atom_change rep) (enumerate (Suc n) as)))"
      if "sizes_within b (total_sizes lib (?pre @ as))"
      by (rule Cons.IH [OF that])
  qed
  then show ?case
    unfolding enumerate_simps
    by (rule runs_cong) (use within_one [OF assms(1) Cons.prems] in auto)
qed

lemma change_apply:
  assumes "proper rep"
  shows "foldE (apply_change rep) (pre @ as) (concat (map (atom_change rep) (enumerate (length pre) as)))
    = Inr (pre @ map (replace_atom rep) as)"
proof (induction as arbitrary: pre)
  case (Cons a as)
  have "foldE (apply_change rep) (pre @ a # as) (atom_change rep (length pre, a)) = Inr ((pre @ [replace_atom rep a]) @ as)"
  proof (cases "\<exists>t. a = SText t \<and> 0 < matches (rep_from rep) t")
    case True
    then obtain t where a: "a = SText t" "0 < matches (rep_from rep) t"
      by blast
    have "rep_from rep \<noteq> []"
      using quote_text_bytes(3) proper_texts [OF assms] by blast
    then show ?thesis
      using a by (simp add: apply_change_def splice_exact list_update_append)
  next
    case False
    then have "replace_atom rep a = a" "atom_change rep (length pre, a) = []"
      using new_text_id [OF assms] by (cases a; auto simp flip: new_text_def)+
    then show ?thesis by simp
  qed
  then show ?case
    using Cons.IH [of "pre @ [replace_atom rep a]"] by (simp add: foldE_append)
qed simp

lemma replacement_runs:
  assumes "proper rep" "sizes_within b (total_sizes lib as)" "length as \<le> 131072"
  shows "runs (replacement_step b (as, total_sizes lib as) rep)
    (sizes_within b (total_sizes lib (map (replace_atom rep) as)))
    (2 * length as + sum_list (map (atom_cost rep) as))
    (map (replace_atom rep) as, total_sizes lib (map (replace_atom rep) as))"
proof -
  let ?ch = "concat (map (atom_change rep) (enumerate 0 as))"
  have w: "runs (walkW (scan_atom rep b) (total_sizes lib as, []) (enumerate 0 as))
      (sizes_within b (total_sizes lib (map (replace_atom rep) as))) (sum_list (map (atom_cost rep) as))
      (total_sizes lib (map (replace_atom rep) as), ?ch)"
    using scan_atoms_runs [of rep b lib "[]" as "[]" 0] assms by simp
  have f: "foldE (apply_change rep) as ?ch = Inr (map (replace_atom rep) as)"
    using change_apply [OF assms(1), of "[]" as] by simp
  have "runs (replacement_step b (as, total_sizes lib as) rep)
      (length as + length as < 2 ^ 64 \<and> (sizes_within b (total_sizes lib (map (replace_atom rep) as)) \<and> (True \<and> True)))
      (length as + length as + (sum_list (map (atom_cost rep) as) + (0 + 0)))
      (map (replace_atom rep) as, total_sizes lib (map (replace_atom rep) as))"
    unfolding replacement_step_def fst_conv snd_conv
  proof (rule runs_bind [OF runs_charge], rule runs_bind [OF w])
    show "runs (case (total_sizes lib (map (replace_atom rep) as), ?ch) of (z, changes) \<Rightarrow>
          bindW (liftW (foldE (apply_change rep) as changes)) (\<lambda>as. returnW (as, z))) (True \<and> True) (0 + 0)
        (map (replace_atom rep) as, total_sizes lib (map (replace_atom rep) as))"
      unfolding prod.case f by (simp add: runs_return)
  qed
  then show ?thesis
    by (rule runs_cong) (use assms(3) in auto)
qed

section \<open>All replacements\<close>

fun prior_cost :: "PriorReplacement list \<Rightarrow> SavedAtom list \<Rightarrow> nat" where
  "prior_cost [] as = 0"
| "prior_cost (rep # prior) as = 2 * length as + sum_list (map (atom_cost rep) as) + prior_cost prior (map (replace_atom rep) as)"

lemma replaced_simps [simp]: "replaced [] as = as" "replaced (rep # prior) as = replaced prior (map (replace_atom rep) as)"
  by (simp_all add: replaced_def)

lemma length_replaced [simp]: "length (replaced prior as) = length as"
  by (induction prior arbitrary: as) simp_all

fun within_all :: "UrlLibrary \<Rightarrow> WordfilterLimits \<Rightarrow> PriorReplacement list \<Rightarrow> SavedAtom list \<Rightarrow> bool" where
  "within_all lib b [] as = sizes_within b (total_sizes lib as)"
| "within_all lib b (rep # prior) as = (sizes_within b (total_sizes lib as) \<and> within_all lib b prior (map (replace_atom rep) as))"

lemma within_all_iff: "within_all lib b prior as \<longleftrightarrow> (\<forall>k\<le>length prior. sizes_within b (total_sizes lib (replaced (take k prior) as)))"
proof (induction prior arbitrary: as)
  case (Cons rep prior)
  have "(\<forall>k\<le>length (rep # prior). P k) \<longleftrightarrow> P 0 \<and> (\<forall>k\<le>length prior. P (Suc k))" for P
    by (auto simp: less_Suc_eq_le dest: Suc_le_D) (metis Suc_le_mono not0_implies_Suc)
  then show ?case
    using Cons by simp
qed simp

lemma prior_runs:
  assumes "list_all proper prior" "sizes_within b (total_sizes lib as)" "length as \<le> 131072"
  shows "runs (walkW (replacement_step b) (as, total_sizes lib as) prior) (within_all lib b prior as)
    (prior_cost prior as) (replaced prior as, total_sizes lib (replaced prior as))"
  using assms
proof (induction prior arbitrary: as)
  case Nil
  then show ?case by (auto intro!: runs_cong [OF runs_return])
next
  case (Cons rep prior)
  have p: "proper rep"
    using Cons.prems by simp
  have "runs (walkW (replacement_step b) (as, total_sizes lib as) (rep # prior))
      (sizes_within b (total_sizes lib (map (replace_atom rep) as)) \<and> within_all lib b prior (map (replace_atom rep) as))
      (2 * length as + sum_list (map (atom_cost rep) as) + prior_cost prior (map (replace_atom rep) as))
      (replaced prior (map (replace_atom rep) as), total_sizes lib (replaced prior (map (replace_atom rep) as)))"
    unfolding walkW.simps
  proof (rule runs_bind)
    show "runs (replacement_step b (as, total_sizes lib as) rep) (sizes_within b (total_sizes lib (map (replace_atom rep) as)))
        (2 * length as + sum_list (map (atom_cost rep) as))
        (map (replace_atom rep) as, total_sizes lib (map (replace_atom rep) as))"
      by (rule replacement_runs [OF p Cons.prems(2,3)])
    show "runs (walkW (replacement_step b) (map (replace_atom rep) as, total_sizes lib (map (replace_atom rep) as)) prior)
        (within_all lib b prior (map (replace_atom rep) as)) (prior_cost prior (map (replace_atom rep) as))
        (replaced prior (map (replace_atom rep) as), total_sizes lib (replaced prior (map (replace_atom rep) as)))"
      if "sizes_within b (total_sizes lib (map (replace_atom rep) as))"
      using that Cons.prems by (intro Cons.IH) simp_all
  qed
  moreover have "within_all lib b prior as' \<Longrightarrow> sizes_within b (total_sizes lib as')" for as'
    by (cases prior) simp_all
  ultimately show ?case
    using Cons.prems(2) by (elim runs_cong) auto
qed

section \<open>Reserved work\<close>

lemma walk_runs:
  "(\<And>x. x \<in> set xs \<Longrightarrow> runs (g () x) (P x) (k x) ()) \<Longrightarrow> runs (walkW g () xs) (list_all P xs) (sum_list (map k xs)) ()"
proof (induction xs)
  case Nil
  then show ?case by (simp add: runs_return)
next
  case (Cons x xs)
  have "runs (walkW g () (x # xs)) (P x \<and> list_all P xs) (k x + sum_list (map k xs)) ()"
    unfolding walkW.simps
  proof (rule runs_bind)
    show "runs (g () x) (P x) (k x) ()"
      using Cons.prems by simp
    show "runs (walkW g () xs) (list_all P xs) (sum_list (map k xs)) ()"
      using Cons by simp
  qed
  then show ?case by simp
qed

definition part_bytes :: "WordPart \<Rightarrow> nat" where
  "part_bytes p = byte_length (part_text p)"

lemma reserve_part_runs: "runs (reserve_part k () p) (Suc k * part_bytes p < 2 ^ 64) (Suc k * part_bytes p) ()"
proof (cases p)
  case (PartText t)
  then show ?thesis
    using runs_charge [of "byte_length t" "k * byte_length t"] by (simp add: reserve_part_def part_bytes_def)
next
  case PartBreak
  then show ?thesis
    using runs_return [of "()"] by (simp add: reserve_part_def part_bytes_def)
qed

fun reserve_cost :: "SavedAtom \<Rightarrow> nat" where
  "reserve_cost (SText t) = byte_length t"
| "reserve_cost (SStatic q parts) = length parts + 2 * sum_list (map part_bytes parts)"
| "reserve_cost (SServer link parts) = byte_length link + length parts + sum_list (map part_bytes parts)"
| "reserve_cost _ = 0"

lemma part_le_sum: "p \<in> set parts \<Longrightarrow> part_bytes p \<le> sum_list (map part_bytes parts)"
  by (intro member_le_sum_list) simp_all

lemma reserve_parts_runs:
  assumes "Suc k * sum_list (map part_bytes parts) < 2 ^ 64"
  shows "runs (walkW (reserve_part k) () parts) True (Suc k * sum_list (map part_bytes parts)) ()"
proof -
  have "Suc k * part_bytes p < 2 ^ 64" if "p \<in> set parts" for p
    using mult_le_mono2 [OF part_le_sum [OF that], of "Suc k"] assms by linarith
  then have "list_all (\<lambda>p. Suc k * part_bytes p < 2 ^ 64) parts"
    by (simp add: list_all_iff)
  moreover have "sum_list (map (\<lambda>p. Suc k * part_bytes p) parts) = Suc k * sum_list (map part_bytes parts)"
    by (simp only: sum_list_const_mult)
  ultimately show ?thesis
    using walk_runs [of parts "reserve_part k" "\<lambda>p. Suc k * part_bytes p < 2 ^ 64" "\<lambda>p. Suc k * part_bytes p"] reserve_part_runs
    by simp
qed

lemma reserve_atom_runs:
  assumes "reserve_cost a < 2 ^ 64"
  shows "runs (reserve_atom () a) True (reserve_cost a) ()"
proof (cases a)
  case (SText t)
  then show ?thesis
    using runs_charge [of "byte_length t" 0] assms by (simp add: reserve_atom_def)
next
  case (SStatic q parts)
  have "runs (bindW (charge (length parts) 0) (\<lambda>_. walkW (reserve_part 1) () parts))
      (length parts + 0 < 2 ^ 64 \<and> True) (length parts + 0 + Suc 1 * sum_list (map part_bytes parts)) ()"
    by (rule runs_bind [OF runs_charge], rule reserve_parts_runs) (use assms SStatic in simp)
  then have "runs (reserve_atom () a) True (length parts + (sum_list (map part_bytes parts) + sum_list (map part_bytes parts))) ()"
    using assms by (simp add: SStatic reserve_atom_def)
  then show ?thesis
    by (simp add: SStatic mult_2)
next
  case (SServer link parts)
  have "runs (bindW (charge (byte_length link) (length parts)) (\<lambda>_. walkW (reserve_part 0) () parts))
      (byte_length link + length parts < 2 ^ 64 \<and> True) (byte_length link + length parts + Suc 0 * sum_list (map part_bytes parts)) ()"
    by (rule runs_bind [OF runs_charge], rule reserve_parts_runs) (use assms SServer in simp)
  then show ?thesis
    using assms by (simp add: SServer reserve_atom_def)
qed (use runs_return [of "()"] in \<open>simp_all add: reserve_atom_def\<close>)

definition pass_cost :: "SavedAtom list \<Rightarrow> nat" where
  "pass_cost as = length as + sum_list (map reserve_cost as)"

lemma concat_part_bytes: "sum_list (map part_bytes parts) = byte_length (concat (map part_text parts))"
  by (induction parts) (simp_all add: part_bytes_def)

lemma reserve_cost_bound:
  assumes "atom_valid lib filtering a" "length (atom_bytes a) \<le> 524288"
  shows "reserve_cost a < 2 ^ 64"
proof -
  have parts: "sum_list (map part_bytes parts) = byte_length label \<and> length parts \<le> length (put_parts parts)" if "parts_ok parts label" for parts label
  proof -
    have "utf8 (concat (map part_text parts)) = utf8 label"
      using that by (simp add: parts_ok_def)
    then have "byte_length (concat (map part_text parts)) = byte_length label"
      by (metis length_utf8)
    moreover have "length parts \<le> length (concat (map put_part parts))"
      by (rule length_concat_ge) (rule put_part_pos)
    ultimately show ?thesis
      by (simp add: concat_part_bytes put_parts_def)
  qed
  show ?thesis
  proof (cases a)
    case (SText t)
    with assms show ?thesis by (simp add: put_text_length)
  next
    case (SStatic q ps)
    then have "byte_length (quote_label q) + length (put_parts ps) \<le> 524288"
      using assms(2) by (simp add: put_text_length)
    with SStatic parts [of ps "quote_label q"] assms(1) show ?thesis by simp
  next
    case (SServer l ps)
    then have "byte_length l + length (put_parts ps) \<le> 524288"
      using assms(2) by (simp add: put_text_length)
    with SServer parts [of ps l] assms(1) show ?thesis by simp
  qed simp_all
qed

lemma reserve_runs:
  assumes "presentation_ok lib f"
  shows "runs (reserve_pass (fp_atoms f)) True (pass_cost (fp_atoms f)) ()"
proof -
  let ?as = "fp_atoms f"
  have "length ?as \<le> 131072"
    using assms limit_values(3) [of "fp_bounds f"] by (simp add: presentation_ok_def Let_def)
  moreover have "runs (walkW reserve_atom () ?as) (list_all (\<lambda>_. True) ?as) (sum_list (map reserve_cost ?as)) ()"
  proof (rule walk_runs)
    fix a
    assume a: "a \<in> set ?as"
    then have "atom_valid lib (fp_wordfiltered f) a"
      using assms by (auto simp: presentation_ok_def Let_def list_all_iff)
    then show "runs (reserve_atom () a) True (reserve_cost a) ()"
      using a assms by (intro reserve_atom_runs reserve_cost_bound atom_bytes_bound)
  qed
  ultimately have "runs (reserve_pass ?as) (length ?as + 0 < 2 ^ 64 \<and> list_all (\<lambda>_. True) ?as)
      (length ?as + 0 + sum_list (map reserve_cost ?as)) ()"
    unfolding reserve_pass_def by (intro runs_bind [OF runs_charge])
  then show ?thesis
    by (rule runs_cong) (use \<open>length ?as \<le> 131072\<close> in \<open>auto simp: list_all_iff pass_cost_def\<close>)
qed

section \<open>What replacing keeps\<close>

lemma replace_atom_keeps:
  "is_text_atom (replace_atom rep a) = is_text_atom a" "atom_quotes (replace_atom rep a) = atom_quotes a"
  "atom_mark (replace_atom rep a) = atom_mark a" "atom_units (replace_atom rep a) = atom_units a"
  by (cases a; simp add: is_text_atom_def)+

lemma map_keeps:
  "quotes (map (replace_atom rep) as) = quotes as" "tag_marks t (map (replace_atom rep) as) = tag_marks t as"
  "map atom_units (map (replace_atom rep) as) = map atom_units as"
  by (simp_all add: quotes_def tag_marks_def replace_atom_keeps comp_def)

lemma replace_atom_valid: "proper rep \<Longrightarrow> atom_valid lib filtering a \<Longrightarrow> atom_valid lib filtering (replace_atom rep a)"
  using new_text_nonempty by (cases a) (simp_all flip: new_text_def)

lemma replace_atom_typed: "proper rep \<Longrightarrow> atom_typed a \<Longrightarrow> atom_typed (replace_atom rep a)"
  using new_text_typed by (cases a) (simp_all flip: new_text_def)

lemma replaced_ok:
  assumes "list_all proper prior" "presentation_ok lib f" "typed f"
    "sizes_within (fp_bounds f) (total_sizes lib (replaced prior (fp_atoms f)))"
  shows "presentation_ok lib (f\<lparr>fp_atoms := replaced prior (fp_atoms f)\<rparr>) \<and> typed (f\<lparr>fp_atoms := replaced prior (fp_atoms f)\<rparr>)"
proof -
  have step: "list_all (atom_valid lib w) (map (replace_atom rep) as) \<and> list_all atom_typed (map (replace_atom rep) as)
      \<and> successively (\<lambda>x y. \<not> (is_text_atom x \<and> is_text_atom y)) (map (replace_atom rep) as)"
    if "proper rep" "list_all (atom_valid lib w) as \<and> list_all atom_typed as \<and> successively (\<lambda>x y. \<not> (is_text_atom x \<and> is_text_atom y)) as"
    for rep w as
    using that by (auto simp: list_all_iff successively_map replace_atom_keeps intro: replace_atom_valid replace_atom_typed)
  have "list_all (atom_valid lib w) (replaced prior as) \<and> list_all atom_typed (replaced prior as)
      \<and> successively (\<lambda>x y. \<not> (is_text_atom x \<and> is_text_atom y)) (replaced prior as)
      \<and> quotes (replaced prior as) = quotes as \<and> (\<forall>t. tag_marks t (replaced prior as) = tag_marks t as)
      \<and> map atom_units (replaced prior as) = map atom_units as"
    if "list_all (atom_valid lib w) as \<and> list_all atom_typed as \<and> successively (\<lambda>x y. \<not> (is_text_atom x \<and> is_text_atom y)) as" for w as
    using assms(1) that
  proof (induction prior arbitrary: as)
    case (Cons rep prior)
    then have "proper rep" "list_all proper prior"
      by simp_all
    from Cons.IH [OF this(2) step [OF this(1) Cons.prems(2)]] show ?case
      by (simp only: replaced_simps map_keeps simp_thms)
  qed simp
  from this [of "fp_wordfiltered f" "fp_atoms f"] show ?thesis
    using assms(2-4) by (simp add: presentation_ok_def typed_def Let_def split: if_splits)
qed

section \<open>The rewriting\<close>

lemma validate_runs: "typed f \<Longrightarrow> runs (liftW (validate lib f)) (presentation_ok lib f) 0 (total_sizes lib (fp_atoms f))"
  by (intro runs_lift) (simp add: validate_iff)

definition total_work :: "FrozenPresentation \<Rightarrow> PriorReplacement list \<Rightarrow> nat" where
  "total_work f prior =
     (if prior = [] then 0
      else 2 * pass_cost (fp_atoms f) + prior_cost prior (fp_atoms f) + pass_cost (replaced prior (fp_atoms f)))"

lemma within_all_last: "within_all lib b prior as \<Longrightarrow> sizes_within b (total_sizes lib (replaced prior as))"
  by (induction prior arbitrary: as) simp_all

lemma rewritten_only:
  assumes "rewritten lib f prior r = (r', Inr g)" "typed f" "prior \<noteq> []"
  shows "presentation_ok lib f"
  using assms runs_iff [OF validate_runs [OF assms(2), of lib]]
  by (auto simp: rewritten_def bindW_Inr liftW_def split: if_splits)

lemma rewritten_runs:
  assumes "typed f" "list_all proper prior" "prior \<noteq> []" "length prior \<le> MAX_PRIOR_REPLACEMENTS" "presentation_ok lib f"
  shows "runs (rewritten lib f prior) (within_all lib (fp_bounds f) prior (fp_atoms f)) (total_work f prior)
    (f\<lparr>fp_atoms := replaced prior (fp_atoms f)\<rparr>)"
proof -
  let ?as = "fp_atoms f" and ?b = "fp_bounds f"
  let ?g = "f\<lparr>fp_atoms := replaced prior ?as\<rparr>"
  have len: "length ?as \<le> 131072" and w: "sizes_within ?b (total_sizes lib ?as)"
    using assms(5) limit_values(3) [of ?b] by (simp_all add: presentation_ok_def Let_def)
  have tail: "runs (bindW (reserve_pass (replaced prior ?as)) (\<lambda>_. bindW (liftW (validate lib ?g)) (\<lambda>_. returnW ?g)))
      (True \<and> (presentation_ok lib ?g \<and> True)) (pass_cost (replaced prior ?as) + (0 + 0)) ?g"
    if "within_all lib ?b prior ?as"
  proof (rule runs_bind)
    have g: "presentation_ok lib ?g \<and> typed ?g"
      by (rule replaced_ok [OF assms(2,5,1) within_all_last [OF that]])
    then show "runs (reserve_pass (replaced prior ?as)) True (pass_cost (replaced prior ?as)) ()"
      using reserve_runs [of lib ?g] by simp
    show "runs (bindW (liftW (validate lib ?g)) (\<lambda>_. returnW ?g)) (presentation_ok lib ?g \<and> True) (0 + 0) ?g"
      using g by (intro runs_bind [OF validate_runs] runs_return) simp
  qed
  have "runs (rewritten lib f prior)
      (True \<and> (True \<and> (presentation_ok lib f \<and> (within_all lib ?b prior ?as \<and> (True \<and> (presentation_ok lib ?g \<and> True))))))
      (pass_cost ?as + (pass_cost ?as + (0 + (prior_cost prior ?as + (pass_cost (replaced prior ?as) + (0 + 0)))))) ?g"
    unfolding rewritten_def if_not_P [OF leD [OF assms(4)]] if_not_P [OF assms(3)]
  proof (rule runs_bind [OF reserve_runs [OF assms(5)]], rule runs_bind [OF reserve_runs [OF assms(5)]],
      rule runs_bind [OF validate_runs [OF assms(1)]], rule runs_bind [OF prior_runs [OF assms(2) w len]])
    show "runs (case (replaced prior ?as, total_sizes lib (replaced prior ?as)) of (as, _) \<Rightarrow>
        bindW (reserve_pass as) (\<lambda>_. bindW (liftW (validate lib (f\<lparr>fp_atoms := as\<rparr>))) (\<lambda>_. returnW (f\<lparr>fp_atoms := as\<rparr>))))
        (True \<and> (presentation_ok lib ?g \<and> True)) (pass_cost (replaced prior ?as) + (0 + 0)) ?g"
      if "within_all lib ?b prior ?as"
      using tail [OF that] by simp
  qed
  then show ?thesis
  proof (rule runs_cong)
    show "(True \<and> (True \<and> (presentation_ok lib f \<and> (within_all lib ?b prior ?as \<and> (True \<and> (presentation_ok lib ?g \<and> True))))))
        \<longleftrightarrow> within_all lib ?b prior ?as"
      using replaced_ok [OF assms(2,5,1)] within_all_last [of lib ?b prior ?as] assms(5) by blast
  qed (simp_all add: total_work_def assms(3))
qed

text \<open>When the rewriting succeeds, what it returns, and which work it uses.\<close>

theorem rewritten_iff:
  assumes "typed f" "list_all proper prior" "prior \<noteq> []"
  shows "rewritten lib f prior r = (r', Inr g) \<longleftrightarrow>
    length prior \<le> MAX_PRIOR_REPLACEMENTS \<and> presentation_ok lib f
    \<and> (\<forall>k\<le>length prior. sizes_within (fp_bounds f) (total_sizes lib (replaced (take k prior) (fp_atoms f))))
    \<and> total_work f prior \<le> r \<and> r' = r - total_work f prior \<and> g = f\<lparr>fp_atoms := replaced prior (fp_atoms f)\<rparr>"
proof (cases "length prior \<le> MAX_PRIOR_REPLACEMENTS \<and> presentation_ok lib f")
  case True
  then show ?thesis
    using runs_iff [OF rewritten_runs [OF assms]] by (simp add: within_all_iff)
next
  case False
  have "\<not> length prior \<le> MAX_PRIOR_REPLACEMENTS \<Longrightarrow> rewritten lib f prior r \<noteq> (r', Inr g)"
    by (simp add: rewritten_def liftW_def not_le)
  then show ?thesis
    using False rewritten_only [OF _ assms(1,3)] by blast
qed

section \<open>Failures\<close>

lemma calm_reserve_atom: "quiet (reserve_atom u a)"
proof -
  have "quiet (reserve_part k v p)" for k v p
    by (cases p) (simp_all add: reserve_part_def calm_charge calm_return)
  then have "quiet (walkW (reserve_part k) () parts)" for k parts
    by (rule calm_walk)
  then show ?thesis
    by (cases a) (simp_all add: reserve_atom_def calm_bind calm_charge calm_return)
qed

lemma calm_reserve: "quiet (reserve_pass as)"
  unfolding reserve_pass_def by (intro calm_bind calm_charge calm_walk calm_reserve_atom)

lemma sizes_no_panic:
  "length_mul m n \<noteq> Inl Panicked" "replaced_size m n l \<noteq> Inl Panicked"
  "replace_text m n z \<noteq> Inl Panicked" "check_sizes z b \<noteq> Inl Panicked"
  by (simp_all add: length_mul_def replaced_size_def replace_text_def check_sizes_def Let_def result_simps split: option.split)

lemma calm_scan: "quiet (scan_atom rep b st entry)"
  by (cases "snd entry") (simp_all add: scan_atom_def Let_def calm_bind calm_charge calm_return calm_lift sizes_no_panic)

lemma calm_replacement:
  assumes "proper rep" "sizes_within b (total_sizes lib as)"
  shows "quiet (replacement_step b (as, total_sizes lib as) rep)"
proof -
  let ?ch = "concat (map (atom_change rep) (enumerate 0 as))"
  have w: "runs (walkW (scan_atom rep b) (total_sizes lib as, []) (enumerate 0 as))
      (sizes_within b (total_sizes lib (map (replace_atom rep) as))) (sum_list (map (atom_cost rep) as))
      (total_sizes lib (map (replace_atom rep) as), ?ch)"
    using scan_atoms_runs [of rep b lib "[]" as "[]" 0] assms by simp
  have f: "foldE (apply_change rep) as ?ch = Inr (map (replace_atom rep) as)"
    using change_apply [OF assms(1), of "[]" as] by simp
  show ?thesis
    unfolding replacement_step_def fst_conv snd_conv
  proof (intro calm_bind calm_charge calm_walk calm_scan)
    fix r r' x
    assume "walkW (scan_atom rep b) (total_sizes lib as, []) (enumerate 0 as) r = (r', Inr x)"
    then have "x = (total_sizes lib (map (replace_atom rep) as), ?ch)"
      using runs_iff [OF w] by blast
    then show "quiet (case x of (z, changes) \<Rightarrow> bindW (liftW (foldE (apply_change rep) as changes)) (\<lambda>as. returnW (as, z)))"
      by (simp add: f calm_return)
  qed
qed

lemma calm_prior:
  assumes "list_all proper prior" "sizes_within b (total_sizes lib as)" "length as \<le> 131072"
  shows "quiet (walkW (replacement_step b) (as, total_sizes lib as) prior)"
  using assms
proof (induction prior arbitrary: as)
  case Nil
  then show ?case by (simp add: calm_return)
next
  case (Cons rep prior)
  then have p: "proper rep" by simp
  show ?case
    unfolding walkW.simps
  proof (rule calm_bind [OF calm_replacement [OF p Cons.prems(2)]])
    fix r r' x
    assume "replacement_step b (as, total_sizes lib as) rep r = (r', Inr x)"
    then have "sizes_within b (total_sizes lib (map (replace_atom rep) as))"
      "x = (map (replace_atom rep) as, total_sizes lib (map (replace_atom rep) as))"
      using runs_iff [OF replacement_runs [OF p Cons.prems(2,3)]] by blast+
    then show "quiet (walkW (replacement_step b) x prior)"
      using Cons by simp
  qed
qed

theorem rewritten_calm:
  assumes "typed f" "list_all proper prior"
  shows "quiet (rewritten lib f prior)"
proof (cases "MAX_PRIOR_REPLACEMENTS < length prior \<or> prior = []")
  case True
  then show ?thesis
    by (auto simp: rewritten_def intro!: calm_lift calm_return)
next
  case False
  let ?as = "fp_atoms f" and ?b = "fp_bounds f"
  have main: "quiet (bindW (walkW (replacement_step ?b) (?as, z) prior) (\<lambda>(as, _). bindW (reserve_pass as) (\<lambda>_.
      bindW (liftW (validate lib (f\<lparr>fp_atoms := as\<rparr>))) (\<lambda>_. returnW (f\<lparr>fp_atoms := as\<rparr>)))))"
    if "validate lib f = Inr z" for z
  proof -
    have z: "presentation_ok lib f" "z = total_sizes lib ?as"
      using validate_iff [OF assms(1)] that by blast+
    have len: "length ?as \<le> 131072" and w: "sizes_within ?b (total_sizes lib ?as)"
      using z(1) limit_values(3) [of ?b] by (simp_all add: presentation_ok_def Let_def)
    show ?thesis
      unfolding z(2)
    proof (rule calm_bind [OF calm_prior [OF assms(2) w len]])
      fix r r' x
      assume "walkW (replacement_step ?b) (?as, total_sizes lib ?as) prior r = (r', Inr x)"
      then have x: "within_all lib ?b prior ?as" "x = (replaced prior ?as, total_sizes lib (replaced prior ?as))"
        using runs_iff [OF prior_runs [OF assms(2) w len]] by blast+
      then have "typed (f\<lparr>fp_atoms := replaced prior ?as\<rparr>)"
        using replaced_ok [OF assms(2) z(1) assms(1) within_all_last] by blast
      then show "quiet (case x of (as, _) \<Rightarrow> bindW (reserve_pass as) (\<lambda>_.
          bindW (liftW (validate lib (f\<lparr>fp_atoms := as\<rparr>))) (\<lambda>_. returnW (f\<lparr>fp_atoms := as\<rparr>))))"
        unfolding x(2) prod.case by (intro calm_bind calm_reserve calm_lift calm_return validate_no_panic)
    qed
  qed
  have "quiet (bindW (liftW (validate lib f)) (\<lambda>z.
      bindW (walkW (replacement_step ?b) (?as, z) prior) (\<lambda>(as, _). bindW (reserve_pass as) (\<lambda>_.
      bindW (liftW (validate lib (f\<lparr>fp_atoms := as\<rparr>))) (\<lambda>_. returnW (f\<lparr>fp_atoms := as\<rparr>))))))"
    by (rule calm_bind [OF calm_lift [OF validate_no_panic [OF assms(1)]]], rule main) (auto simp: liftW_def)
  then show ?thesis
    using False unfolding rewritten_def by (auto intro!: calm_bind calm_reserve)
qed

end
