(* ===== verification/FreezeFacts.thy ===== *)
theory FreezeFacts
  imports RewriteFacts
begin

text \<open>
  Freezing a formatted comment (\<open>FrozenPresentation::freeze\<close>): the locale \<open>projection\<close> is what the HTML
  source and the visible text of a token have in common, and freezing keeps every such projection. What is
  frozen for a post can be encoded and is decoded to itself.
\<close>

section \<open>Projections of lines\<close>

locale projection =
  fixes project :: "Token \<Rightarrow> PresentationError stop + utext" and escape :: "utext \<Rightarrow> utext"
  assumes on_text: "project (TText t) = Inr (escape t)"
    and escape_empty: "escape [] = []"
    and escape_append: "escape (t @ u) = escape t @ escape u"
    and on_frozen: "frozen_atom tok = Some a \<Longrightarrow> project tok = project (atom_token a)"
begin

definition shown :: "utext \<Rightarrow> SavedAtom list \<Rightarrow> utext saved" where
  "shown s as = concatE (map (project_atom project s) as)"

lemma shown_append: "shown s (as @ bs) = bindE (shown s as) (\<lambda>x. bindE (shown s bs) (\<lambda>y. Inr (x @ y)))"
  by (simp add: shown_def concatE_append)

lemma shown_one: "shown s [a] = project_atom project s a"
  by (simp add: shown_def concatE_unit)

lemma shown_push: "shown s (push_atom as a) = bindE (shown s as) (\<lambda>x. bindE (project_atom project s a) (\<lambda>y. Inr (x @ y)))"
proof (cases a)
  case (SText t)
  show ?thesis
  proof (cases "as \<noteq> [] \<and> is_text_atom (last as) \<and> t \<noteq> []")
    case True
    then obtain p where l: "last as = SText p"
      by (auto simp: is_text_atom_def split: SavedAtom.splits)
    then have p: "as = butlast as @ [SText p]"
      using True by (metis append_butlast_last_id)
    have "push_atom as a = butlast as @ [SText (p @ t)]"
      using True l by (simp add: push_atom_def SText is_text_atom_def)
    then show ?thesis
      by (subst (2) p)
        (simp add: shown_append shown_one project_atom_def SText on_text escape_append bindE_assoc)
  next
    case False
    then show ?thesis
      by (auto simp: push_atom_def SText shown_append shown_one project_atom_def on_text escape_empty concatE_unit)
  qed
qed (simp_all add: push_atom_def shown_append shown_one)

lemma frozen_not_break: "frozen_atom tok = Some a \<Longrightarrow> a \<noteq> SLineBreak"
  by (cases tok) auto

lemma freeze_token_shown:
  assumes "freeze_token as tok = Inr bs"
  shows "shown s bs = bindE (shown s as) (\<lambda>x. bindE (project tok) (\<lambda>y. Inr (x @ y)))"
proof -
  obtain a where a: "frozen_atom tok = Some a" "bs = push_atom as a"
    using assms by (auto simp: freeze_token_def split: option.splits)
  then show ?thesis
    using frozen_not_break [OF a(1)] by (simp add: shown_push project_atom_def on_frozen [OF a(1)])
qed

lemma freeze_tokens_shown:
  assumes "foldE freeze_token as toks = Inr bs"
  shows "shown s bs = bindE (shown s as) (\<lambda>x. bindE (concatE (map project toks)) (\<lambda>y. Inr (x @ y)))"
  using assms
proof (induction toks arbitrary: as)
  case Nil
  then show ?case by (simp add: concatE_unit)
next
  case (Cons tok toks)
  then obtain cs where "freeze_token as tok = Inr cs" "foldE freeze_token cs toks = Inr bs"
    by (auto simp: bindE_eq_Inr)
  then show ?case
    using Cons.IH freeze_token_shown [of as tok cs] by (simp add: bindE_assoc)
qed

lemma freeze_line_shown:
  assumes "freeze_line as (n, l) = Inr bs"
  shows "shown s bs = bindE (shown s as) (\<lambda>x. bindE (line_text project l) (\<lambda>y. Inr (x @ (if 0 < n then s else []) @ y)))"
  using assms freeze_tokens_shown [of "if 0 < n then as @ [SLineBreak] else as" "tokens l" bs s]
  by (auto simp: freeze_line_def Let_def line_text_def shown_append shown_one project_atom_def bindE_assoc split: if_splits)

lemma freeze_lines_shown:
  assumes "foldE freeze_line as (enumerate n ls) = Inr bs"
  shows "shown s bs = bindE (shown s as) (\<lambda>x. bindE (mapE (line_text project) ls)
    (\<lambda>ts. Inr (x @ (if 0 < n then concat (map ((@) s) ts) else with_separator s ts))))"
  using assms
proof (induction ls arbitrary: as n)
  case Nil
  then show ?case by (simp add: concatE_unit)
next
  case (Cons l ls)
  then obtain cs where cs: "freeze_line as (n, l) = Inr cs" "foldE freeze_line cs (enumerate (Suc n) ls) = Inr bs"
    by (auto simp: bindE_eq_Inr)
  have sep: "with_separator s (t # ts) = t @ concat (map ((@) s) ts)" for t and ts :: "utext list"
    by (induction ts arbitrary: t) simp_all
  show ?case
    using Cons.IH [OF cs(2)] freeze_line_shown [OF cs(1), of s] by (simp add: bindE_assoc sep)
qed

theorem frozen_shown:
  assumes "freeze lib ls b filtering = Inr f"
  shows "shown s (fp_atoms f) = rendered project s ls"
  using assms freeze_lines_shown [of "[]" 0 ls "fp_atoms f" s]
  by (auto simp: freeze_def bindE_eq_Inr Let_def shown_def rendered_def)

end

lemma frozen_source: "frozen_atom tok = Some a \<Longrightarrow> token_source lib tok = token_source lib (atom_token a)"
  by (cases tok) auto

lemma frozen_text: "frozen_atom tok = Some a \<Longrightarrow> visible_text tok = visible_text (atom_token a)"
  by (cases tok) auto

interpretation html: projection "token_source lib" source_html_entities for lib
  by unfold_locales (auto simp: source_html_entities_def dest: frozen_source)

interpretation plain: projection visible_text "\<lambda>t. t"
  by unfold_locales (auto dest: frozen_text)

lemma freeze_projections:
  assumes "freeze lib ls b filtering = Inr f"
  shows "source_projection lib f = lines_source lib ls" "search_text f = plain_text ls"
  using html.frozen_shown [OF assms, of lib "lit ''<br>''"] plain.frozen_shown [OF assms, of "[10]"]
  by (simp_all add: source_projection_atoms search_text_atoms html.shown_def plain.shown_def lines_source_def plain_text_def rendered_def)

section \<open>Typed lines\<close>

text \<open>A token of the program: its strings are strings, its rolls were drawn.\<close>

definition token_typed :: "Token \<Rightarrow> bool" where
  "token_typed tok \<longleftrightarrow> (case frozen_atom tok of Some a \<Rightarrow> atom_typed a | None \<Rightarrow> True)"

definition lines_typed :: "Line list \<Rightarrow> bool" where
  "lines_typed ls \<longleftrightarrow> list_all (\<lambda>l. list_all token_typed (tokens l)) ls"

lemma push_typed: "list_all atom_typed as \<Longrightarrow> atom_typed a \<Longrightarrow> list_all atom_typed (push_atom as a)"
  by (cases "as = []"; cases as rule: rev_cases)
    (auto simp: push_atom_def text_typed_def is_text_atom_def split: SavedAtom.split)

lemma freeze_token_typed: "list_all atom_typed as \<Longrightarrow> token_typed tok \<Longrightarrow> freeze_token as tok = Inr bs \<Longrightarrow> list_all atom_typed bs"
  by (auto simp: freeze_token_def token_typed_def push_typed split: option.splits)

lemma freeze_tokens_typed:
  "foldE freeze_token as toks = Inr bs \<Longrightarrow> list_all atom_typed as \<Longrightarrow> list_all token_typed toks \<Longrightarrow> list_all atom_typed bs"
  by (induction toks arbitrary: as) (auto simp: bindE_eq_Inr dest: freeze_token_typed)

lemma freeze_lines_typed:
  "foldE freeze_line as (enumerate n ls) = Inr bs \<Longrightarrow> list_all atom_typed as \<Longrightarrow> lines_typed ls \<Longrightarrow> list_all atom_typed bs"
proof (induction ls arbitrary: as n)
  case (Cons l ls)
  then obtain cs where "freeze_line as (n, l) = Inr cs" "foldE freeze_line cs (enumerate (Suc n) ls) = Inr bs"
    by (auto simp: bindE_eq_Inr)
  moreover from this have "list_all atom_typed cs"
    using Cons.prems freeze_tokens_typed [of "if 0 < n then as @ [SLineBreak] else as" "tokens l" cs]
    by (auto simp: freeze_line_def Let_def lines_typed_def split: if_splits)
  ultimately show ?case
    using Cons by (simp add: lines_typed_def)
qed simp

lemma freeze_stored:
  assumes "freeze lib ls (for_post limits) filtering = Inr f" "lines_typed ls"
  shows "\<exists>out. encode_presentation lib f = Inr out \<and> decode_presentation lib out limits = Inr f"
proof -
  obtain z where f: "validate lib f = Inr z" "fp_bounds f = for_post limits"
    and "foldE freeze_line [] (enumerate 0 ls) = Inr (fp_atoms f)"
    using assms(1) by (auto simp: freeze_def bindE_eq_Inr Let_def)
  then have t: "typed f"
    using freeze_lines_typed [of "[]" 0 ls "fp_atoms f"] assms(2) by (simp add: typed_def)
  then show ?thesis
    using f presentation_decode_exact [of lib "presentation_bytes f" limits f] presentation_encode_iff [OF t] validate_iff [OF t] by blast
qed

end
