(* ===== verification/PresentationSamples.thy ===== *)
theory PresentationSamples
  imports FreezeFacts
begin

text \<open>
  A comment of two lines, one of them in bold with a post number, its frozen form, and the replacement of
  that number by another.
\<close>

definition sample_library :: UrlLibrary where
  "sample_library = \<lparr>url_accepts = \<lambda>_. False, byte_serialize = \<lambda>t. t\<rparr>"

definition sample_lines :: "Line list" where
  "sample_lines =
     [\<lparr>green = False, tokens = [TOpenMarkup Bold,
        TPostQuote \<lparr>pq_board = None, pq_id = 12, pq_label = lit ''>>12'', pq_presentation = PlainQuote\<rparr>,
        TText (lit '' hi''), TCloseMarkup Bold]\<rparr>,
      \<lparr>green = False, tokens = [TText (lit ''ok'')]\<rparr>]"

definition sample_frozen :: FrozenPresentation where
  "sample_frozen =
     \<lparr>fp_atoms = [SMarkup Bold True, SText (lit ''>>12 hi''), SMarkup Bold False, SLineBreak, SText (lit ''ok'')],
      fp_bounds = Ordinary, fp_wordfiltered = False\<rparr>"

definition sample_moved :: FrozenPresentation where
  "sample_moved =
     \<lparr>fp_atoms = [SMarkup Bold True, SText (lit ''>>345 hi''), SMarkup Bold False, SLineBreak, SText (lit ''ok'')],
      fp_bounds = Ordinary, fp_wordfiltered = False\<rparr>"

definition sample_prior :: PriorReplacement where
  "sample_prior = \<lparr>rep_from = lit ''>>12'', rep_to = lit ''>>345''\<rparr>"

lemma sample_frozen_typed: "typed sample_frozen"
  by (simp add: typed_def sample_frozen_def text_typed_def lit_def is_scalar_def)

lemma sample_lines_typed: "lines_typed sample_lines"
  by (simp add: lines_typed_def token_typed_def sample_lines_def text_typed_def lit_def is_scalar_def)

lemmas sizing = validate_def validate_step_def first_scanner_def lit_def len_utf8_def escaped_len_def
  escaped_char_len_def byte_length_def apply_mark_def max_depth_def add_amounts_def add_size_def
  checked_add64_def check_sizes_def is_text_atom_def Let_def

lemma cleared: "(replicate 8 x)[3 := x] = replicate 8 x" "\<not> list_ex (\<lambda>x. x \<noteq> []) (replicate 8 [])"
  by (simp_all add: eval_nat_numeral)

lemma sample_validated:
  "validate sample_library sample_frozen = Inr \<lparr>encoded_size = 35, source_size = 45, search_size = 10\<rparr>"
  by (simp add: sizing sample_frozen_def cleared)

lemma moved_validated:
  "validate sample_library sample_moved = Inr \<lparr>encoded_size = 36, source_size = 46, search_size = 11\<rparr>"
  by (simp add: sizing sample_moved_def cleared)

lemma sample_freeze: "freeze sample_library sample_lines (for_post (ordinary 2000)) False = Inr sample_frozen"
  using sample_validated
  by (simp add: sample_frozen_def freeze_def freeze_line_def freeze_token_def sample_lines_def push_atom_def
    is_text_atom_def for_post_def ordinary_def Let_def lit_def)

lemma sample_prior_proper: "proper sample_prior"
proof -
  have "prior_new 12 345 = Inr sample_prior"
    by code_simp
  then show ?thesis
    by (auto simp: proper_def)
qed

lemma sample_work:
  "map (replace_atom sample_prior) (fp_atoms sample_frozen) = fp_atoms sample_moved"
  "total_work sample_frozen [sample_prior] = 79"
  by code_simp+

lemma sample_replaced: "replaced [sample_prior] (fp_atoms sample_frozen) = fp_atoms sample_moved"
  by (simp add: sample_work)

lemma sample_sizes:
  "presentation_ok sample_library sample_frozen"
  "\<forall>k\<le>length [sample_prior]. sizes_within (fp_bounds sample_frozen)
     (total_sizes sample_library (replaced (take k [sample_prior]) (fp_atoms sample_frozen)))"
proof -
  have moved: "typed sample_moved"
    by (simp add: typed_def sample_moved_def text_typed_def lit_def is_scalar_def)
  show ok: "presentation_ok sample_library sample_frozen"
    using sample_validated validate_iff [OF sample_frozen_typed] by blast
  have s: "total_sizes sample_library (fp_atoms sample_frozen) = \<lparr>encoded_size = 35, source_size = 45, search_size = 10\<rparr>"
    using sample_validated validate_iff [OF sample_frozen_typed] by metis
  have m: "total_sizes sample_library (fp_atoms sample_moved) = \<lparr>encoded_size = 36, source_size = 46, search_size = 11\<rparr>"
    using moved_validated validate_iff [OF moved] by metis
  show "\<forall>k\<le>length [sample_prior]. sizes_within (fp_bounds sample_frozen)
     (total_sizes sample_library (replaced (take k [sample_prior]) (fp_atoms sample_frozen)))"
    by (auto simp: le_Suc_eq s m sample_work sizes_within_def sample_frozen_def [THEN arg_cong [where f = fp_bounds]])
qed

end
