(* ===== verification/Spec2Isabelle.thy ===== *)
theory Spec2Isabelle
  imports Foundations ReplayWire GuestReplay ReplayTransport ReplayEnvelope ReplayState ReplayStateInv ReplayHistory
    ReplayPolicy ReplayCost Streams DispatchFrames DispatchGateway PairedFrames PairedResults GuestPaired
    MediaFiles SourceDigest BlockDisk OutputFiles Thumbnail GifEncoding GifFrames GifOutput GuestGif GuestGifFacts GatewayClient Samples MediaSamples CommentText CommentMarkup MarkupFacts
    UnicodeClasses CommentPreparation RepeatedLines PreparationFacts PostContent PostFacts PostSamples PollVoting PollSamples ReportWeight SessionState SessionFacts RuleSamples
    Utf8 FilteredDelimiters LinkTargets SavedTokens SavedPresentation NestedMarks PresentationText PresentationValid
    PresentationCodec PresentationDecode PresentationRewrite RewriteFacts FreezeFacts PresentationSamples
begin

text \<open>
  26chan is an imageboard written in Rust. Untrusted media is never parsed by a host application:
  an upload is written to a block disk or sent as a frame to a media worker, parsed there by a
  disposable guest, and comes back as neutral data (pixels, frames, a canonical replay) which the
  host validates bit for bit before it encodes and publishes anything. This development models
  that pipeline, both ends of it, the drawing replays that travel through it, and the rules
  of the boards that are pure functions: the preparation of posts, the saved form of
  their formatted comments, poll credentials, report weights and the activity of sessions.

  The parts and their theories:

    \<^item> \<open>Foundations\<close>, \<open>Streams\<close>: bytes and words, results with an error (\<open>stop\<close> adds the panic of a
      slice, index, \<open>expect\<close> or assertion to a function's own errors), checked 64-bit arithmetic,
      IEEE bit patterns; readers (the bytes to come and how they end), sinks (what was sent, how much
      room is left), exact reads in chunks, zero padding. The interfaces \<open>record_codec\<close>, \<open>event_machine\<close>,
      \<open>stream_format\<close>, \<open>channel\<close> and \<open>field_reader\<close> are locales, interpreted on the formats of the components.
    \<^item> \<open>ReplayWire\<close>: \<open>crates/media/src/replay_wire.rs\<close>, the host's decoder of the replay wire, and
      its specification (\<open>wire_ok\<close>, \<open>wire_bytes\<close>). \<open>GuestReplay\<close>: \<open>apps/media-guest/src/replay.rs\<close> and
      \<open>replay_output.rs\<close>, the guest's parser of uploads and its encoder. \<open>ReplayTransport\<close>: what the
      guest sends is what the host receives.
    \<^item> \<open>ReplayEnvelope\<close> (\<open>replay_envelope.rs\<close>), \<open>ReplayState\<close>, \<open>ReplayStateInv\<close>, \<open>ReplayHistory\<close> (\<open>replay_state.rs\<close>),
      \<open>ReplayPolicy\<close> and \<open>ReplayCost\<close> (\<open>replay_cost.rs\<close>): the numeric envelope of a replay, its logical
      state with layers, strokes and an undo history that shares its actions, and the cost estimate
      of playing it. The state's \<open>Rc\<close> actions live in an explicit store.
    \<^item> \<open>DispatchFrames\<close> (\<open>crates/media-dispatch/src/protocol.rs\<close>), \<open>DispatchGateway\<close> (\<open>gateway.rs\<close> and the
      calls of \<open>tls.rs\<close>), \<open>GatewayClient\<close>: the seven kinds of request and their responses, one
      connection of the gateway with its three authorization checks, and the client composed with it.
    \<^item> \<open>PairedFrames\<close>, \<open>PairedResults\<close> (\<open>crates/media/src/paired.rs\<close>), \<open>GuestPaired\<close>
      (\<open>apps/media-guest/src/paired.rs\<close> and \<open>lib.rs\<close>): the paired job of an image and a replay, on the
      host and in the guest, with the guest's kernel argument and block disk.
    \<^item> \<open>MediaFiles\<close> (\<open>id.rs\<close>, the errors and limits of \<open>lib.rs\<close>), \<open>BlockDisk\<close> (\<open>block.rs\<close>), \<open>OutputFiles\<close>
      and \<open>Thumbnail\<close> (\<open>output.rs\<close>, \<open>canonical_replay.rs\<close>): object identifiers, the input disk, the pixel
      readers, the thumbnail and its specification in unbounded arithmetic.
    \<^item> \<open>GifEncoding\<close>, \<open>GifFrames\<close>, \<open>GifOutput\<close> (\<open>crates/media/src/animation.rs\<close>): the animation readers,
      the first frame, the GIF encoder, with an independent LZW decoder and GIF89a reader as
      specifications. \<open>GuestGif\<close>, \<open>GuestGifFacts\<close> (\<open>apps/media-guest/src/animation.rs\<close>): the guest's
      GIF job.
    \<^item> \<open>SourceDigest\<close> (\<open>source_digest.rs\<close>, \<open>retained\<close> of \<open>apps/media-guest/src/still/png.rs\<close>): the host's digest of
      an uploaded PNG and the guest's cleanup of it, both as functions of its chunks.
    \<^item> \<open>CommentText\<close>, \<open>CommentMarkup\<close>, \<open>MarkupFacts\<close> (\<open>crates/domain/src/post_limits.rs\<close>,
      \<open>comment_markup.rs\<close>): texts as scalar values, the bounds of posts, the passes that turn the
      markup of a comment into tags, and what they keep. The contract of a stage that rewrites text is
      the locale \<open>text_stage\<close>.
    \<^item> \<open>UnicodeClasses\<close>, \<open>CommentPreparation\<close>, \<open>RepeatedLines\<close>, \<open>PreparationFacts\<close> (\<open>comment_ascii.rs\<close>,
      \<open>comment_unicode.rs\<close>, \<open>comment_lines.rs\<close>, \<open>comment_quotes.rs\<close>, \<open>comment_spacing.rs\<close>, \<open>lib.rs\<close>),
      \<open>PostContent\<close>, \<open>PostFacts\<close> (\<open>subject.rs\<close>, \<open>post_content.rs\<close>): how a submitted subject and comment
      become stored text, stage by stage, and when a post is admitted.
    \<^item> \<open>Utf8\<close> (the strings of the program and their bytes), \<open>FilteredDelimiters\<close> (\<open>wordfilter_limits.rs\<close>, the saved
      choices and \<open>leet\<close> of \<open>wordfilter.rs\<close>, the delimiters of \<open>wordfiltered_comment.rs\<close>), \<open>LinkTargets\<close>
      (\<open>static_quote.rs\<close>, the parser of \<open>server_link.rs\<close>), \<open>SavedTokens\<close> (the tokens of \<open>formatting.rs\<close>, their text
      and HTML source, the wrappers of \<open>wordfiltered_comment/generated.rs\<close>), \<open>SavedPresentation\<close> and
      \<open>PresentationRewrite\<close> (\<open>saved_presentation.rs\<close>, \<open>saved_presentation/codec.rs\<close>): the frozen comment, its
      validation, encoding and decoding, and the rewriting of post numbers within a budget. Their facts:
      \<open>NestedMarks\<close> (the stack of open tags accepts a grammar), \<open>PresentationText\<close>, \<open>PresentationValid\<close>,
      \<open>PresentationCodec\<close> (the locale \<open>cursor_reader\<close>), \<open>PresentationDecode\<close>, \<open>RewriteFacts\<close>, \<open>FreezeFacts\<close> (the
      locale \<open>projection\<close>).
    \<^item> \<open>PollVoting\<close> (\<open>poll_voting.rs\<close>): the signed cookie of a poll voter and its form tokens.
    \<^item> \<open>ReportWeight\<close> (\<open>report_weight.rs\<close>): the weight of a report when facts are missing, and its
      completions. \<open>SessionState\<close>, \<open>SessionFacts\<close> (\<open>anonymous_session.rs\<close>, \<open>challenge_policy.rs\<close>): the
      activity of an anonymous session as a state machine, its waits, tickets and credits.
    \<^item> \<open>Samples\<close>, \<open>MediaSamples\<close>, \<open>PostSamples\<close>, \<open>PollSamples\<close>, \<open>RuleSamples\<close>, \<open>PresentationSamples\<close>: concrete
      worlds, files, comments and libraries for the witnesses. This theory: the properties.

  What the lemmas show. For every wire format there is a specification by bytes and the equivalence
  \<open>read r = Inr x \<longleftrightarrow> valid x \<and> r = bytes x\<close>; round trips, canonicity, error behaviour and the
  agreement of two ends follow from it. For every decoder that indexes, panic freedom on all inputs.
  For the replay state, an invariant kept by every operation, which makes the code's own assertions
  unreachable. For arithmetic on machine words (thumbnail, cost model, bit packer), equality with
  the formula in unbounded numbers. For loops, termination: all are total functions here; the
  measures are the bytes, rows, events or bits left.

  Parameters, which stand for code outside \<open>src/\<close>: allocation (\<open>mem\<close>, \<open>grants\<close>: whether a reservation
  of a size succeeds), the inflater, the size of an event in memory, SHA-256 and MD5 (\<open>digest\<close>), the
  PNG encoder (the list of its writes) and the PNG decoder (what the code reads of an image), the GIF
  container parser and the LZW decoder of the guest, and for the gateway what the operating system,
  TLS and the broker answer. Hypotheses on them are documented behaviour and are named:
  \<open>png_documented\<close>, \<open>gif_documented\<close>, \<open>lzw_documented\<close>, \<open>poll_crypto_ok\<close> (HMAC-SHA-256 and base64url of
  the poll credentials). \<open>UrlLibrary\<close> is the crate \<open>url\<close>, of which nothing is assumed. \<open>usize\<close> is 64 bits wide.

  Not modelled: the HTTP applications and their handlers, the database access (its meaning is in SQL),
  the file system protocol of publication and quarantine (a sequence of system calls), the guest's
  JPEG, PDF, still and video drivers (around external decoders), the formatting of a comment
  after the markup (\<open>from_saved\<close> and the late lexing of a frozen comment call it), identity, report
  categories, generated content of posts (dice, fortunes, EXIF tables), configuration, monitoring, and generated or vendored code. Deadlines are a Boolean outcome, not a clock.
\<close>

section \<open>The replay transport\<close>

text \<open>
  C1. The host's wire decoder (\<open>decode\<close>) accepts exactly the canonical encodings: it returns the
  replay \<open>r\<close> on the input \<open>bs\<close> if and only if \<open>r\<close> is structurally valid, \<open>bs\<close> is its one encoding
  and the allocator grants the events. So no two inputs decode to the same replay, no bit of the
  input is ignored, and every valid replay has an encoding.
\<close>

theorem wire_decode_exact:
  "ReplayWire.decode mem bs = Inr r \<longleftrightarrow>
     wire_ok r \<and> wire_bytes r = bs \<and> mem (length (UntrustedReplay.events r))"
  by (rule decode_iff)

text \<open>
  C2. What the guest encodes, the host decodes: when \<open>encode_untrusted_candidate\<close> produces bytes,
  the host's decoder accepts them and returns the same metadata, the same events in the same
  order, and the same tools in the order of their IDs.
\<close>

theorem guest_output_is_decoded:
  assumes "encode_untrusted_candidate mem c = Inr bs"
    and "host_mem (length (ReplayCandidate.events c))"
  shows "ReplayWire.decode host_mem bs = Inr (host_replay c)"
  using assms wire_ok_host [of c] by (simp add: encode_iff decode_iff host_replay_def)

theorem guest_output_is_decoded_witness:
  "encode_untrusted_candidate (\<lambda>_. True) sample_candidate = Inr (wire_bytes (host_replay sample_candidate))
     \<and> ReplayWire.decode (\<lambda>n. n \<le> 2) (wire_bytes (host_replay sample_candidate))
         = Inr (host_replay sample_candidate)"
  using guest_output_is_decoded [of "\<lambda>_. True" sample_candidate
      "wire_bytes (host_replay sample_candidate)" "\<lambda>n. n \<le> 2"]
  by (simp add: encode_iff sample_encodable) (simp add: sample_candidate_def)

text \<open>
  C3. The whole path of an upload: a candidate the guest parsed, with at most the wire's 16384
  events and memory granted, is always encodable (the encoder's own checks, the recomputed length
  of the inflated body included, never fail on a parsed candidate) and reaches the host unchanged.
\<close>

theorem parsed_upload_reaches_host:
  assumes "parse_candidate mem event_size inflate input = Inr c"
    and "length (ReplayCandidate.events c) \<le> 16384"
    and "out_mem (256 + 16 * length (ReplayCandidate.events c))"
    and "host_mem (length (ReplayCandidate.events c))"
  shows "\<exists>bs. encode_untrusted_candidate out_mem c = Inr bs
     \<and> length bs = 256 + 16 * length (ReplayCandidate.events c)
     \<and> ReplayWire.decode host_mem bs = Inr (host_replay c)"
  using parsed_encodable [OF assms(1,2)] assms(3,4) wire_ok_host [of c]
  by (auto simp: encode_iff decode_iff host_replay_def wire_ok_def length_wire_bytes)

theorem parsed_upload_reaches_host_witness:
  "\<exists>bs. encode_untrusted_candidate (\<lambda>_. True) sample_candidate = Inr bs \<and> length bs = 288
     \<and> ReplayWire.decode (\<lambda>_. True) bs = Inr (host_replay sample_candidate)"
proof -
  have "length (ReplayCandidate.events sample_candidate) = 2"
    by (simp add: sample_candidate_def)
  then show ?thesis
    using parsed_upload_reaches_host [OF sample_parsed, of "\<lambda>_. True" "\<lambda>_. True"] by simp
qed

text \<open>
  C4. The guest's parser accepts exactly the well-formed uploads: the 12 header bytes, then a
  deflate stream that ends with the upload and inflates to precisely the body of the candidate,
  with the declared size, and the candidate within its bounds (ranges of the canvas and the tool
  IDs, eight fresh tools, finite floats, markers only at the ends, at most 131072 events and 4 MiB
  of them). Every branch of \<open>parse_candidate\<close> and \<open>decode_body\<close> is in the equivalence.
\<close>

theorem upload_parse_exact:
  "parse_candidate mem event_size inflate input = Inr c \<longleftrightarrow>
     (\<exists>rest. input = upload_header (inflated_bytes (ReplayCandidate.header c)) @ rest
        \<and> 1 \<le> length rest \<and> length input \<le> 8388608
        \<and> inflate rest (length (body_source c) + 1) = Some (True, length rest, body_source c))
     \<and> tegaki_version (ReplayCandidate.header c) = (0, 9, 4)
     \<and> format_version (ReplayCandidate.header c) = 1
     \<and> unat (inflated_bytes (ReplayCandidate.header c)) = length (body_source c)
     \<and> length (body_source c) \<le> 18874368 \<and> candidate_ok event_size c
     \<and> mem (length (body_source c) + 1) \<and> mem 8 \<and> mem (length (ReplayCandidate.events c))"
  by (rule parse_candidate_iff)

section \<open>The replay policy checks\<close>

text \<open>
  C5. The numeric envelope check returns the replay exactly when it is in the envelope: the whole
  specification \<open>in_envelope\<close> (clock spans, tool map, sorted timestamps, markers, and for each
  event the range that depends on the tool selected at that point) is equivalent to success of
  the source's loops with their running variables.
\<close>

theorem envelope_exact:
  assumes "length (UntrustedReplay.tools r) = 8"
  shows "ReplayEnvelope.check r = Inr r' \<longleftrightarrow> r' = r \<and> in_envelope r"
  using assms by (rule check_iff)

theorem envelope_exact_witness:
  "ReplayEnvelope.check (core_replay sample_events) = Inr (core_replay sample_events)
     \<longleftrightarrow> in_envelope (core_replay sample_events)"
  using envelope_exact [of "core_replay sample_events" "core_replay sample_events"]
  by (simp add: core_replay_fields)

text \<open>
  A replay inside the envelope is structurally valid: it has a wire encoding, and the decoder
  returns it. The check re-establishes for publicly constructible values what the decoder
  guarantees for decoded ones.
\<close>

theorem envelope_implies_wire:
  assumes "ReplayEnvelope.check r = Inr r'" and "length (UntrustedReplay.tools r) = 8"
    and "mem (length (UntrustedReplay.events r))"
  shows "ReplayWire.decode mem (wire_bytes r) = Inr r'"
  using assms in_envelope_wire_ok [of r] by (simp add: check_iff decode_iff)

theorem envelope_implies_wire_witness:
  "ReplayWire.decode (\<lambda>_. True) (wire_bytes (core_replay sample_events)) = Inr (core_replay sample_events)"
proof (rule envelope_implies_wire)
  obtain s where "check_core_v1 (core_replay sample_events) = Inr s"
    using sample_checked by blast
  then show "ReplayEnvelope.check (core_replay sample_events) = Inr (core_replay sample_events)"
    using core_run_facts(1) by (simp add: check_iff core_replay_fields)
qed (simp_all add: core_replay_fields)

text \<open>
  C6. The state check never panics. For every input of the Rust type (eight tools), all the
  \<open>expect\<close>s, \<open>unreachable!\<close>s, \<open>Rc::get_mut\<close>s, indexes and debug assertions of
  \<open>replay_state.rs\<close> hold on every event list: the only outcomes are a checked state and a
  returned error.
\<close>

theorem state_check_never_panics:
  assumes "length (UntrustedReplay.tools r) = 8"
  shows "check_core_v1 r \<noteq> Inl Panicked"
  using assms by (rule check_core_v1_never_panics)

theorem state_check_never_panics_witness:
  "check_core_v1 (core_replay [ReplayWire.Prelude, ReplayWire.Undo, ReplayWire.Redo, ReplayWire.DrawCommit]) \<noteq> Inl Panicked"
  by (rule state_check_never_panics) (simp add: core_replay_fields)

text \<open>
  C7. What a checked replay ends with: no open stroke, between one and eight layers (one per
  \<open>AddLayer\<close> event besides the first) with distinct IDs, an active layer and a selection that
  exist, undo and redo stacks of at most 50 actions together without a shared action, and no
  layer creation on the redo stack.
\<close>

theorem checked_state:
  assumes "check_core_v1 r = Inr s" and "length (UntrustedReplay.tools r) = 8"
  shows "stroke s = None
     \<and> length (layers s) = 1 + length (filter (\<lambda>e. UntrustedReplayEvent.kind e = ReplayWire.AddLayer) (UntrustedReplay.events r))
     \<and> length (layers s) \<le> 8 \<and> distinct (map layer_id (layers s))
     \<and> active_layer s \<in> layer_ids (layers s) \<and> set (selected_layers s) \<subseteq> layer_ids (layers s)
     \<and> length (undo s) + length (redo s) \<le> 50 \<and> distinct (undo s @ redo s)
     \<and> (\<forall>a\<in>set (redo s). \<not> is_add (action_kind (actions s ! a)))"
  using check_core_v1_inv [OF assms] core_run_facts(2) [OF assms]
  by (simp add: state_inv_def layers_inv_def history_inv_def stacks_ok_def)

theorem checked_state_witness:
  "\<exists>s. check_core_v1 (core_replay sample_events) = Inr s \<and> stroke s = None
     \<and> length (undo s) + length (redo s) \<le> 50"
proof -
  obtain s where "check_core_v1 (core_replay sample_events) = Inr s"
    using sample_checked by blast
  then show ?thesis
    using checked_state [of "core_replay sample_events" s] by (auto simp: core_replay_fields)
qed

text \<open>
  C8. Undo and redo are inverse. In any state the check can reach, an accepted undo or redo changes
  exactly what its action recorded: the content of a drawing's layer, which becomes the active and
  only selected one, or the opacities of the action's layers. The opposite step is then always
  accepted and gives back the whole state: stacks, contents, tools, visibility and everything else.
  Only the opacities and the focus are those the action recorded rather than the old ones (merging
  an opacity change keeps the redo stack, so they can differ); when the old state had the recorded
  ones, it is restored exactly.
\<close>

theorem undo_redo_inverse:
  assumes "state_inv s" and "event r i k s = Inr s'"
    and "k = ReplayWire.Undo \<and> k' = ReplayWire.Redo \<or> k = ReplayWire.Redo \<and> k' = ReplayWire.Undo"
  shows "let b = (k = ReplayWire.Redo); act = action_kind (actions s ! last (if b then redo s else undo s)) in
     s' = moved b (focused act (s\<lparr>layers := map (recorded_content b act \<circ> recorded_alpha b act) (layers s)\<rparr>))
     \<and> event r j k' s' = Inr (focused act (s\<lparr>layers := map (recorded_alpha (\<not> b) act) (layers s)\<rparr>))
     \<and> (focused act s = s \<and> map (recorded_alpha (\<not> b) act) (layers s) = layers s \<longrightarrow> event r j k' s' = Inr s)"
proof -
  define b where "b \<longleftrightarrow> k = ReplayWire.Redo"
  define act where "act = action_kind (actions s ! last (stack_of b s))"
  have h: "stroke s = None" "history b s = Inr s'"
    using assms(2,3) by (auto simp: event_def b_def split: if_split_asm)
  then have "stroke s' = None"
    using history_cases [OF assms(1), of b] by (auto simp: history_result_def)
  then have "event r j k' s' = history (\<not> b) s'"
    using assms(3) by (auto simp: event_def b_def)
  moreover have "focused act (s\<lparr>layers := layers s\<rparr>) = focused act s"
    by simp
  ultimately show ?thesis
    using history_back [OF assms(1) h] history_exact [OF assms(1) h(2)]
    unfolding b_def [symmetric] Let_def stack_of_def [symmetric] act_def [symmetric] by metis
qed

theorem undo_redo_inverse_witness:
  "\<exists>s s' s''. check_core_v1 (core_replay sample_events) = Inr s
     \<and> event (core_replay sample_events) 9 ReplayWire.Undo s = Inr s'
     \<and> event (core_replay sample_events) 10 ReplayWire.Redo s' = Inr s'' \<and> undo s'' = undo s
     \<and> map content (layers s'') = map content (layers s)"
proof -
  have "\<exists>s s'. check_core_v1 (core_replay sample_events) = Inr s
      \<and> event (core_replay sample_events) 9 ReplayWire.Undo s = Inr s'"
    by (simp add: state_evaluation sample_events_def)
  then obtain s s' where s: "check_core_v1 (core_replay sample_events) = Inr s"
      "event (core_replay sample_events) 9 ReplayWire.Undo s = Inr s'"
    by blast
  then have "state_inv s"
    using check_core_v1_inv by (simp add: core_replay_fields)
  from undo_redo_inverse [OF this s(2), of ReplayWire.Redo 10] s show ?thesis
    by (auto simp: Let_def focused_def recorded_alpha_content split: HistoryActionKind.split)
qed

text \<open>
  Undo and redo fail for their two documented reasons only: outside a stroke, on any reachable
  state, the result is a state, an empty stack, or (undo only) a layer creation on top. In
  particular no remembered layer is ever missing.
\<close>

theorem history_refusals:
  assumes "state_inv s" and "stroke s = None"
  shows "((\<exists>s'. event r i ReplayWire.Undo s = Inr s')
         \<or> event r i ReplayWire.Undo s = Inl (Refused EmptyHistory) \<and> undo s = []
         \<or> event r i ReplayWire.Undo s = Inl (Refused AddHistoryBoundary)
             \<and> is_add (action_kind (actions s ! last (undo s))))
     \<and> ((\<exists>s'. event r i ReplayWire.Redo s = Inr s')
         \<or> event r i ReplayWire.Redo s = Inl (Refused EmptyHistory) \<and> redo s = [])"
proof
  show "(\<exists>s'. event r i ReplayWire.Undo s = Inr s')
      \<or> event r i ReplayWire.Undo s = Inl (Refused EmptyHistory) \<and> undo s = []
      \<or> event r i ReplayWire.Undo s = Inl (Refused AddHistoryBoundary)
          \<and> is_add (action_kind (actions s ! last (undo s)))"
    using history_cases [OF assms(1), of False] assms(2) by (auto simp: event_def stack_of_def)
  have "\<not> is_add (action_kind (actions s ! last (redo s)))" if "redo s \<noteq> []"
    using state_invD(3) [OF assms(1)] last_in_set [OF that] by (simp add: history_inv_def stacks_ok_def)
  then show "(\<exists>s'. event r i ReplayWire.Redo s = Inr s')
      \<or> event r i ReplayWire.Redo s = Inl (Refused EmptyHistory) \<and> redo s = []"
    using history_cases [OF assms(1), of True] assms(2) by (auto simp: event_def stack_of_def)
qed

theorem history_refusals_witness:
  "\<exists>s. check_core_v1 (core_replay sample_events) = Inr s
     \<and> ((\<exists>s'. event (core_replay sample_events) 9 ReplayWire.Redo s = Inr s')
         \<or> event (core_replay sample_events) 9 ReplayWire.Redo s = Inl (Refused EmptyHistory) \<and> redo s = [])"
proof -
  obtain s where s: "check_core_v1 (core_replay sample_events) = Inr s"
    using sample_checked by blast
  then have "state_inv s \<and> stroke s = None"
    using check_core_v1_inv by (simp add: core_replay_fields)
  then show ?thesis
    using history_refusals [of s "core_replay sample_events" 9] s by blast
qed

text \<open>
  The restricted state check implies the numeric envelope: what \<open>check_core_v1\<close> accepts,
  \<open>replay_envelope::check\<close> accepts too.
\<close>

theorem core_within_envelope:
  assumes "check_core_v1 r = Inr s" and "length (UntrustedReplay.tools r) = 8"
  shows "ReplayEnvelope.check r = Inr r"
  using core_run_facts(1) [OF assms] assms(2) by (simp add: check_iff)

theorem core_within_envelope_witness:
  "ReplayEnvelope.check (core_replay sample_events) = Inr (core_replay sample_events)"
proof -
  obtain s where "check_core_v1 (core_replay sample_events) = Inr s"
    using sample_checked by blast
  then show ?thesis
    by (rule core_within_envelope) (simp add: core_replay_fields)
qed

text \<open>
  C9. The cost model of a state-checked replay never overflows, never meets an unsupported event
  and never panics: \<open>estimate\<close> returns exactly the costs of the same formulas in unbounded
  arithmetic.
\<close>

theorem cost_estimate_exact:
  assumes "check_core_v1 r = Inr s" and "length (UntrustedReplay.tools r) = 8"
  shows "estimate (r, s) include_final_flatten = Inr (cost_spec r s include_final_flatten)"
  using checked_fine [OF assms] by (rule estimate_ok)

theorem cost_estimate_exact_witness:
  "\<exists>s. check_core_v1 (core_replay sample_events) = Inr s
     \<and> estimate (core_replay sample_events, s) True = Inr (cost_spec (core_replay sample_events) s True)"
proof -
  obtain s where "check_core_v1 (core_replay sample_events) = Inr s"
    using sample_checked by blast
  then show ?thesis
    using cost_estimate_exact [of "core_replay sample_events" s True] by (auto simp: core_replay_fields)
qed

text \<open>
  The scopes of an estimate fit together, for every metric: the total is the initialisation,
  plus every event, plus the final flatten; and no event's peak exceeds the total.
\<close>

theorem cost_scopes:
  assumes "check_core_v1 r = Inr s" and "length (UntrustedReplay.tools r) = 8"
    and "estimate (r, s) fl = Inr c"
  shows "counters Total c k = counters Initialization c k
       + sum_list (map (\<lambda>d. d k) (costs_of (map UntrustedReplayEvent.kind (UntrustedReplay.events r)) (fst (setup_spec r))))
       + counters FinalFlatten c k
     \<and> counters PeakEvent c k \<le> counters Total c k"
proof -
  have c: "c = cost_spec r s fl"
    using estimate_ok [OF checked_fine [OF assms(1,2)]] assms(3) by simp
  let ?ds = "costs_of (map UntrustedReplayEvent.kind (UntrustedReplay.events r)) (fst (setup_spec r))"
  have "max_costs no_cost ?ds k \<le> sum_list (map (\<lambda>d. d k) ?ds)"
    using max_costs_le_sum [of no_cost ?ds k] by (simp add: no_cost_def)
  then show ?thesis
    by (cases "setup_spec r")
      (simp add: c counters_def cost_spec_def Let_def plus_cost_def sum_costs_eq)
qed

theorem cost_scopes_witness:
  "\<exists>s c. check_core_v1 (core_replay sample_events) = Inr s
     \<and> estimate (core_replay sample_events, s) False = Inr c
     \<and> counters PeakEvent c BrushLoopUnits \<le> counters Total c BrushLoopUnits"
proof -
  obtain s where s: "check_core_v1 (core_replay sample_events) = Inr s"
    using sample_checked by blast
  obtain c where "estimate (core_replay sample_events, s) False = Inr c"
    using estimate_ok [OF checked_fine [OF s]] by (auto simp: core_replay_fields)
  moreover from cost_scopes [OF s core_replay_fields(2) this, of BrushLoopUnits]
  have "counters PeakEvent c BrushLoopUnits \<le> counters Total c BrushLoopUnits"
    by (rule conjunct2)
  ultimately show ?thesis
    using s by blast
qed

section \<open>The media dispatch\<close>

text \<open>
  C10. The gateway's request reader accepts exactly the wire forms of the seven kinds of request:
  it returns \<open>q\<close> if and only if \<open>q\<close> is within its bounds (still and GIF-source policies included)
  and the stream is its bytes and then ends. Nothing may be missing, added or reinterpreted.
\<close>

theorem dispatch_request_exact:
  "read_versioned_request r = Inr q \<longleftrightarrow> request_ok q \<and> r = (request_bytes q, False)"
  by (rule versioned_iff)

text \<open>
  C11. A gateway connection succeeds exactly when everything it depends on does: the client's
  certificate is authorized at each of the three reads of the authorization file, a work permit is
  free, both deadlines hold, the request is valid, the broker runs as root and answers with a
  response of the request's kind; what is then sent is that response and nothing else.
\<close>

theorem gateway_connection_exact:
  "connection digest g input stream = Inr stream' \<longleftrightarrow>
     (\<exists>cert q disk. handshake g = Inr (Some cert) \<and> permit g \<and> intake_in_time g \<and> processing_in_time g
        \<and> authorized g (digest cert) 0 \<and> authorized g (digest cert) 1 \<and> authorized g (digest cert) 2
        \<and> request_ok q \<and> input = (request_bytes q, False)
        \<and> broker_uid g = Inr 0 \<and> length (request_bytes q) \<le> broker_room g
        \<and> length disk = response_length q
        \<and> broker_answer g (request_bytes q) = (frame_bytes (response_magic q) disk, False)
        \<and> sends (frame_bytes (response_magic q) disk) stream stream')"
proof -
  have "(\<forall>i<3. authorized g (digest cert) i) \<longleftrightarrow>
      authorized g (digest cert) 0 \<and> authorized g (digest cert) 1 \<and> authorized g (digest cert) 2" for cert
    by (auto simp: less_Suc_eq eval_nat_numeral)
  then show ?thesis
    unfolding connection_iff by simp
qed

text \<open>
  C12. The client over the gateway is transparent: a valid request submitted over a connection
  whose peer is the gateway returns the disk the broker answered to exactly that request, and only
  when the gateway's own conditions hold. Client checks, gateway reader, forwarding, response
  reader and response writer agree on every kind of request.
\<close>

theorem client_through_gateway:
  assumes "request_ok q" and "connect net = Inr (wide n)" and "sent_in_time net" and "answered_in_time net"
    and "length (request_bytes q) \<le> n" and "peer net = through_gateway digest g limit"
  shows "submit net q = Inr disk \<longleftrightarrow>
     (\<exists>cert. handshake g = Inr (Some cert) \<and> authorized g (digest cert) 0 \<and> authorized g (digest cert) 1
        \<and> authorized g (digest cert) 2)
     \<and> permit g \<and> intake_in_time g \<and> processing_in_time g
     \<and> broker_uid g = Inr 0 \<and> length (request_bytes q) \<le> broker_room g
     \<and> length disk = response_length q \<and> length (frame_bytes (response_magic q) disk) \<le> limit
     \<and> broker_answer g (request_bytes q) = (frame_bytes (response_magic q) disk, False)"
  by (rule submit_through_gateway [OF assms])

theorem client_through_gateway_witness:
  "\<exists>disk. length disk = 4194816 \<and> submit sample_network (Request.ImageV1 [1]) = Inr disk"
proof -
  have "submit sample_network (Request.ImageV1 [1]) = Inr sample_disk"
    by (subst client_through_gateway [where n = 100 and g = sample_gateway and limit = 5000000 and digest = id])
      (simp_all add: sample_network_def sample_gateway_def sample_disk_def authorized_def bounded_def frame_bytes_def)
  then show ?thesis
    by (intro exI [of _ sample_disk]) (simp add: sample_disk_def)
qed

section \<open>The paired job\<close>

text \<open>
  C13. The paired input format round-trips: for a job, the decoder accepts exactly the frames the
  encoder produces for that job, and returns the image and the upload they were made from, with
  their digests.
\<close>

theorem paired_input_roundtrip:
  assumes "length job = 16"
  shows "decode_input digest InputKind.PairedV2 bs job = Inr c \<longleftrightarrow>
     (\<exists>img rep. encode_input (\<lambda>_. True) InputKind.PairedV2 job img rep = Inr bs
        \<and> c = pair_candidate digest job img rep)"
  using assms by (auto simp: decode_input_iff encode_input_iff)

theorem paired_input_roundtrip_witness:
  "\<exists>bs. encode_input (\<lambda>_. True) InputKind.PairedV2 (replicate 16 7) [1, 2] (Some [3]) = Inr bs
     \<and> decode_input id InputKind.PairedV2 bs (replicate 16 7)
         = Inr (pair_candidate id (replicate 16 7) [1, 2] (Some [3]))"
proof -
  have "encode_input (\<lambda>_. True) InputKind.PairedV2 (replicate 16 7) [1, 2] (Some [3])
      = Inr (pair_bytes (replicate 16 7) [1, 2] (Some [3]))"
    by (simp add: encode_input_iff pair_ok_def)
  then show ?thesis
    using paired_input_roundtrip [of "replicate 16 7" id] by auto
qed

text \<open>
  C14. The host's decoder of paired results accepts exactly the fixed-size results of the job's
  binding: a compact pixel block within 1024 by 1024, a canonical replay wire if and only if one
  was expected, and zeros to the end.
\<close>

theorem paired_result_exact:
  assumes "length bind = 32"
  shows "decode_result mem selection bs bind expected = Inr c \<longleftrightarrow>
     selection = InputKind.PairedV2 \<and> (\<exists>d px rep. result_ok mem d px rep \<and> expected = presence (rep \<noteq> None)
       \<and> bs = result_bytes bind d px rep \<and> c = result_candidate bind d px rep)"
  using assms by (rule decode_result_iff)

theorem paired_result_exact_witness:
  "decode_result (\<lambda>_. True) InputKind.PairedV2 (result_bytes (replicate 32 5) (1, 1) [1, 2, 3, 4] None) (replicate 32 5) Absent
     = Inr (result_candidate (replicate 32 5) (1, 1) [1, 2, 3, 4] None)"
  by (subst paired_result_exact)
    (auto simp: result_ok_def pixels_ok_def presence_def intro!: exI [of _ "1 :: u32"] exI [of _ "[1, 2, 3, 4] :: bytes"])

text \<open>
  Neither decoder of \<open>paired.rs\<close> panics: on every byte sequence, binding and selection, every
  slice they take is in range.
\<close>

theorem paired_decoders_never_panic:
  "decode_input digest selection bs job \<noteq> Inl Panicked
     \<and> decode_result mem selection bs' bind expected \<noteq> Inl Panicked"
  using decode_input_never_panics decode_result_never_panics by (simp add: fine_def)

text \<open>
  C15. What the guest writes for a paired job, the host accepts: if the guest's job succeeds, the
  host decodes the result for the same binding, with the pixels the guest decoded and the replay of
  the upload (present exactly when there was one). The PNG library's images are assumed to have the
  size they declare.
\<close>

theorem guest_result_accepted:
  assumes "length bind = 32" and "decode_frame g frame bind = Inr out"
    and "\<forall>bs info. png_library g bs = Some info \<longrightarrow> png_documented info" and "\<forall>n. mem n"
  shows "\<exists>job img upload d px c. frame = pair_bytes job img upload \<and> guest_made g img upload d px c
     \<and> decode_result mem InputKind.PairedV2 out bind (presence (upload \<noteq> None))
         = Inr (result_candidate bind d px (map_option host_replay c))"
proof -
  obtain job img upload d px c where p: "frame = pair_bytes job img upload" "guest_made g img upload d px c"
      "c \<noteq> None \<longleftrightarrow> upload \<noteq> None" "out = result_bytes bind d px (map_option host_replay c)"
    using guest_result [OF assms(1,2)] assms(3) by blast
  have "result_ok mem d px (map_option host_replay c)"
    using p(2,3) assms(4) by (auto simp: guest_made_def result_ok_def split: option.splits)
  note host = decode_result_complete [OF this assms(1)]
  have "map_option host_replay c \<noteq> None \<longleftrightarrow> upload \<noteq> None"
    using p(3) by simp
  with host p show ?thesis
    by (intro exI [of _ job] exI [of _ img] exI [of _ upload]) (simp only:, blast)
qed

theorem guest_result_accepted_witness:
  "\<exists>out d px. decode_frame sample_guest (pair_bytes (replicate 16 0) [1] None) (replicate 32 0) = Inr out
     \<and> decode_result (\<lambda>_. True) InputKind.PairedV2 out (replicate 32 0) Absent
         = Inr (result_candidate (replicate 32 0) d px None)"
proof -
  obtain out where out: "decode_frame sample_guest (pair_bytes (replicate 16 0) [1] None) (replicate 32 0) = Inr out"
    using sample_guest_runs by blast
  have "length (replicate 32 (0 :: u8)) = 32" by simp
  moreover have "\<forall>bs info. png_library sample_guest bs = Some info \<longrightarrow> png_documented info"
    using sample_guest_documented by blast
  ultimately have "\<exists>job img upload d px c. pair_bytes (replicate 16 0) [1] None = pair_bytes job img upload
      \<and> guest_made sample_guest img upload d px c
      \<and> decode_result (\<lambda>_. True) InputKind.PairedV2 out (replicate 32 0) (presence (upload \<noteq> None))
         = Inr (result_candidate (replicate 32 0) d px (map_option host_replay c))"
    using guest_result_accepted [OF _ out, where mem = "\<lambda>_. True"] by blast
  then obtain job img upload d px c where "pair_bytes (replicate 16 0) [1] None = pair_bytes job img upload"
      "guest_made sample_guest img upload d px c"
      "decode_result (\<lambda>_. True) InputKind.PairedV2 out (replicate 32 0) (presence (upload \<noteq> None))
         = Inr (result_candidate (replicate 32 0) d px (map_option host_replay c))"
    by blast
  moreover from this(1) have "upload = None"
    by (rule pair_bytes_without_upload)
  ultimately have "c = None" and "decode_result (\<lambda>_. True) InputKind.PairedV2 out (replicate 32 0) Absent
      = Inr (result_candidate (replicate 32 0) d px (map_option host_replay c))"
    by (simp_all add: guest_made_def presence_def)
  then show ?thesis
    using out by (intro exI [of _ out] exI [of _ d] exI [of _ px]) simp
qed

text \<open>
  C16. The guest's paired disk is the dispatch request on a block device: \<open>decode_disk\<close> succeeds
  exactly on the wire form of a valid paired request, padded with zeros to a whole sector, and then
  runs the job on its frame and binding.
\<close>

theorem guest_disk_is_dispatch_request:
  "decode_disk g r = Inr out \<longleftrightarrow>
     (\<exists>bind frame. request_ok (Request.PairedV2 bind frame) \<and> grants g (length frame)
        \<and> r = (request_bytes (Request.PairedV2 bind frame)
                @ replicate ((512 - (48 + length frame) mod 512) mod 512) 0, False)
        \<and> decode_frame g frame bind = Inr out)"
  by (simp add: decode_disk_iff disk_image_def bounded_def conj_ac)

section \<open>Identifiers, disks and pixels\<close>

text \<open>
  An object identifier is printed and parsed without loss: parsing accepts exactly the 32
  lower-case hexadecimal digits that some 16 bytes are displayed as, and returns those bytes.
\<close>

theorem object_id_roundtrip:
  "parse_id v = Inr i \<longleftrightarrow> length i = 16 \<and> v = display_id i"
  by (rule parse_id_iff)

text \<open>
  C17. The input block disk is written exactly when the source delivers the declared number of
  bytes (interruptions apart) and then ends, the number is between 1 and 8 MiB and the disk has
  room; what is written is the length, the bytes and zeros to a whole sector, however the source
  cuts its chunks.
\<close>

theorem input_disk_exact:
  "write_input_disk es n w = Inr w' \<longleftrightarrow>
     (\<exists>data. delivered es = Some data \<and> unat n = length data \<and> 1 \<le> length data \<and> length data \<le> 8388608
        \<and> length (input_disk data) \<le> room w \<and> w' = took (input_disk data) w)"
  by (rule write_input_disk_iff)

text \<open>
  C18. The host writes and the guest reads: on the disk the host wrote, the guest's GIF job succeeds
  exactly when it succeeds on the bytes the source delivered, with the same output.
\<close>

theorem guest_reads_input_disk:
  assumes "write_input_disk es n (wide limit) = Inr w"
  shows "\<exists>data. delivered es = Some data \<and> unat n = length data
     \<and> (decode_gif_disk lib (sent w, False) = Inr out \<longleftrightarrow> decode_gif lib data = Inr out)"
proof -
  obtain data where d: "delivered es = Some data" "unat n = length data" "1 \<le> length data" "length data \<le> 8388608"
      "sent w = input_disk data"
    using assms by (auto simp: write_input_disk_iff wide_def)
  moreover have "data' = data" if "input_disk data = input_disk data'" "length data' \<le> 8388608" for data'
    using input_disk_inj [OF that(1) d(4) that(2)] by simp
  ultimately show ?thesis
    by (intro exI [of _ data]) (auto simp: decode_gif_disk_iff)
qed

theorem guest_reads_input_disk_witness:
  "\<exists>w. write_input_disk [Chunk [1, 2], Interrupted, Chunk [3]] 3 (wide 1000) = Inr w
     \<and> (\<forall>out. decode_gif_disk (sample_gif_libraries None) (sent w, False) = Inr out
        \<longleftrightarrow> decode_gif (sample_gif_libraries None) [1, 2, 3] = Inr out)"
proof -
  obtain w where w: "write_input_disk [Chunk [1, 2], Interrupted, Chunk [3]] 3 (wide 1000) = Inr w"
    by (simp add: write_input_disk_iff wide_def input_disk_def)
  then show ?thesis
    using guest_reads_input_disk [OF w, of "sample_gif_libraries None"] by auto
qed

text \<open>
  C19. The pixel protocol is exact on both of its carriers: a stream is accepted if and only if it is
  the header and pixels of a valid output and ends there, a block disk if and only if it is those
  bytes with zeros up to its fixed size.
\<close>

theorem pixel_output_exact:
  "(read_output r = Inr p \<longleftrightarrow> valid_output p \<and> r = (output_bytes p, False))
     \<and> (OutputFiles.read_disk r = Inr p \<longleftrightarrow> valid_output p \<and> r = (output_disk p, False))"
  by (simp only: read_output_iff read_disk_iff simp_thms)

text \<open>
  C20. The thumbnail of an image with a side over 250 is computed without a panic, a wrap or a
  truncation: its sides are at most 250, it is valid, and every byte equals the specification in
  unbounded arithmetic, the alpha-weighted means over cells that partition the image.
\<close>

theorem thumbnail_exact:
  assumes "valid_output p" and "\<not> max (ValidatedOutput.width p) (ValidatedOutput.height p) \<le> 250"
  shows "\<exists>t. thumbnail_pixels p = Inr t \<and> valid_output t
     \<and> unat (ValidatedOutput.width t) \<le> 250 \<and> unat (ValidatedOutput.height t) \<le> 250
     \<and> map unat (pixels t) = thumbnail_spec p"
  using thumbnail_pixels_spec [OF assms] by blast

theorem thumbnail_exact_witness:
  "\<exists>t. thumbnail_pixels sample_output = Inr t \<and> map unat (pixels t) = thumbnail_spec sample_output"
  using thumbnail_exact [OF sample_output_valid] sample_output_large by blast

text \<open>
  C21. What the host hashes of an uploaded PNG is what the guest keeps of it. For any limit of at most
  8 MiB the host computes a digest exactly for the uploads within it that the guest's cleanup accepts,
  and it is the digest and the length of the file the guest retains; the host's scan never panics.
\<close>

theorem host_hashes_what_guest_keeps:
  assumes "digest_limits cap cap cap = Inr l"
  shows "(png_source_processed_digest hash_md5 source l = Inr d \<longleftrightarrow>
       length source \<le> cap \<and> (\<exists>out. png_retained source = Inr out \<and> d = kept_digest hash_md5 out))
     \<and> png_source_processed_digest hash_md5 source l \<noteq> Inl Panicked"
  using digest_is_retained [OF assms] digest_no_panic assms by (auto simp: digest_limits_iff)

theorem host_hashes_what_guest_keeps_witness:
  "\<exists>l. digest_limits 1024 1024 1024 = Inr l \<and> png_source_processed_digest id sample_png l = Inr (kept_digest id sample_retained)"
proof -
  obtain l where l: "digest_limits 1024 1024 1024 = Inr l"
    by (simp add: digest_limits_def)
  then show ?thesis
    using host_hashes_what_guest_keeps [OF l, of id sample_png] sample_png_retained sample_png_length by auto
qed

text \<open>
  C22. A canonical replay is accepted exactly when its bytes are the one wire encoding of a replay
  inside the numeric envelope (and memory is granted); it keeps the bytes, their digest in
  hexadecimal and the replay's canvas.
\<close>

theorem canonical_replay_exact:
  "check_canonical mem digest bs = Inr c \<longleftrightarrow>
     (\<exists>r. in_envelope r \<and> length (UntrustedReplay.tools r) = 8 \<and> bs = wire_bytes r
        \<and> mem (length (UntrustedReplay.events r))
        \<and> c = \<lparr>replay_wire_bytes = bs, replay_sha256 = concat (map hex2 (digest bs)),
            replay_dimensions = (UntrustedReplayMetadata.width (UntrustedReplay.metadata r),
                                 UntrustedReplayMetadata.height (UntrustedReplay.metadata r))\<rparr>)"
  by (rule check_canonical_iff)

section \<open>Animations\<close>

text \<open>
  C23. The GIF image data the encoder writes for any pixels is decoded back to exactly those pixels
  by a GIF89a LZW decoder with a growing dictionary and code width, and the decoder stops at the
  data's end: the clear codes keep every code at nine bits.
\<close>

theorem gif_literals_decoded:
  "\<exists>written. encode_literals px out = out @ written \<and> image_data (written @ rest) = Some (px, rest)"
  by (rule literals_decoded)

text \<open>
  C24. The animation protocol is exact: a stream is accepted if and only if it is the encoding of a
  valid animation and ends there, a block disk if and only if it is that encoding with zeros up to
  its fixed size. Every bound on the header, the frames, the palettes, the indices and the totals
  is in \<open>valid_animation\<close>.
\<close>

theorem animation_protocol_exact:
  "(read_animation r = Inr a \<longleftrightarrow> valid_animation a \<and> r = (animation_bytes a, False))
     \<and> (read_animation_disk r = Inr a \<longleftrightarrow> valid_animation a \<and> r = (animation_disk a, False))"
  by (simp only: read_animation_iff read_animation_disk_iff simp_thms)

text \<open>
  C25. The first frame of a valid animation is painted without a panic on a canvas of the
  animation's size: every pixel is the frame's color there, or transparent where the frame is or
  does not reach.
\<close>

theorem first_frame_exact:
  assumes "valid_animation a"
  shows "\<exists>p. first_frame a = Inr p \<and> dimensions p = animation_dimensions a
     \<and> (\<forall>x < unat (canvas_width a). \<forall>y < unat (canvas_height a).
          quad (pixels p) (y * unat (canvas_width a) + x) = shown_pixel (hd (frames a)) x y)"
  using first_frame_spec [OF assms] by blast

theorem first_frame_exact_witness:
  "\<exists>p. first_frame sample_animation = Inr p \<and> dimensions p = animation_dimensions sample_animation"
  using first_frame_exact [OF sample_animation_valid] by blast

text \<open>
  C26. The GIF file the encoder writes for a valid animation is at most 20 MiB and is read by a
  reader of the GIF89a grammar as that animation: canvas, global palette, repetition, and for every
  frame its place, timing, disposal, transparency, pixels and palette (padded to 256 colors).
\<close>

theorem gif_file_readable:
  assumes "valid_animation a" and "encode_gif digest md5_digest a = Inr g"
  shows "read_gif (gif_bytes g) = Some (canvas_width a, canvas_height a, global_palette a, repeat a, map padded (frames a))
     \<and> length (gif_bytes g) \<le> 20971520 \<and> gif_dimensions g = animation_dimensions a"
  using assms by (rule encode_gif_spec)

theorem gif_file_readable_witness:
  "\<exists>g. encode_gif id id sample_animation = Inr g
     \<and> read_gif (gif_bytes g) = Some (2, 1, [], Some 3, map padded (frames sample_animation))"
proof -
  obtain g where g: "encode_gif id id sample_animation = Inr g"
    using sample_animation_encodes by blast
  then show ?thesis
    using gif_file_readable [OF sample_animation_valid g] by (auto simp: sample_animation_def)
qed

text \<open>
  C27. What the guest's GIF job writes, and what the host makes of it. When the GIF has no background
  index, or one that names a color of its global palette, the host accepts the output: it is the
  encoding of a valid animation with the GIF's canvas, palette, background and repetition and one
  frame per GIF frame, in order, with its decompressed (and deinterlaced) pixels. Any other background
  index (one without a global palette, say) the guest passes on unchecked, and the host refuses the
  output. The GIF parser is assumed to keep frames on the canvas, to return palettes of a power of two
  of colors, and an index of one byte.
\<close>

theorem guest_gif_accepted:
  assumes "decode_gif lib input = Inr out" and "read_info lib input = Some g" and "gif_documented g"
  shows "if background_in_table g
     then \<exists>a. read_animation (out, False) = Inr a
       \<and> canvas_width a = gif_width g \<and> canvas_height a = gif_height g
       \<and> global_palette a = global_bytes g \<and> ValidatedAnimation.background a = map_option of_nat (gif_background g)
       \<and> scan_blocks input = Inr (repeat_word (repeat a))
       \<and> list_all2 (\<lambda>f fr. \<exists>px. fr = emitted (global_palette a) f px
           \<and> decode_indices (lzw_library lib) f (unat (gf_width f) * unat (gf_height f)) = Inr px) (gif_frames g) (frames a)
     else read_animation (out, False) = Inl InvalidOutput"
  using decode_gif_valid [OF assms] decode_gif_refused [OF assms] by (auto simp: read_animation_iff)

theorem guest_gif_accepted_witness:
  "(\<exists>out a. decode_gif (sample_gif_libraries (Some sample_gif)) sample_gif_bytes = Inr out
     \<and> read_animation (out, False) = Inr a \<and> length (frames a) = 1)
   \<and> (\<exists>out. decode_gif (sample_gif_libraries (Some background_gif)) sample_gif_bytes = Inr out
     \<and> read_animation (out, False) = Inl InvalidOutput)"
proof
  obtain out where out: "decode_gif (sample_gif_libraries (Some sample_gif)) sample_gif_bytes = Inr out"
    using sample_gif_decodes by blast
  from guest_gif_accepted [OF out sample_gif_info sample_gif_documented]
  obtain a where "read_animation (out, False) = Inr a"
      "list_all2 (\<lambda>f fr. \<exists>px. fr = emitted (global_palette a) f px
         \<and> decode_indices (lzw_library (sample_gif_libraries (Some sample_gif))) f (unat (gf_width f) * unat (gf_height f)) = Inr px)
       (gif_frames sample_gif) (frames a)"
    using sample_backgrounds(1) by auto
  then show "\<exists>out a. decode_gif (sample_gif_libraries (Some sample_gif)) sample_gif_bytes = Inr out
     \<and> read_animation (out, False) = Inr a \<and> length (frames a) = 1"
    using out list_all2_lengthD by (fastforce simp: sample_gif_def)
next
  obtain out where out: "decode_gif (sample_gif_libraries (Some background_gif)) sample_gif_bytes = Inr out"
    using background_gif_decodes by blast
  from guest_gif_accepted [OF out background_gif_info background_gif_documented]
  show "\<exists>out. decode_gif (sample_gif_libraries (Some background_gif)) sample_gif_bytes = Inr out
     \<and> read_animation (out, False) = Inl InvalidOutput"
    using out sample_backgrounds(2) by auto
qed

text \<open>
  C28. The guest's GIF job never panics, on any disk, when the LZW decoder stays within the buffers
  it is given: no slice of the input, of the indices or of the rows is out of range.
\<close>

theorem guest_gif_never_panics:
  assumes "lzw_documented (lzw_library lib)"
  shows "decode_gif_disk lib r \<noteq> Inl Panicked"
  using decode_gif_disk_fine [OF assms] by (simp add: fine_def)

theorem guest_gif_never_panics_witness:
  "decode_gif_disk (sample_gif_libraries (Some sample_gif)) (input_disk sample_gif_bytes, False) \<noteq> Inl Panicked"
  by (rule guest_gif_never_panics) (rule sample_lzw_documented)

text \<open>
  C29. The block scan terminates: every turn of its loop that goes on leaves the cursor further in
  the same input and not past its end, so there are at most as many turns as bytes.
\<close>

theorem gif_scan_terminates:
  assumes "scan_step dimension limit s = Inr (More s')"
  shows "block_bytes (cursor s') = block_bytes (cursor s)
     \<and> length (block_bytes (cursor s')) - block_offset (cursor s')
         < length (block_bytes (cursor s)) - block_offset (cursor s)"
  using scan_step_passes [OF assms] by (auto simp: passed_def)

theorem gif_scan_terminates_witness:
  "\<exists>s s'. scan_step 1024 100 s = Inr (More s') \<and> block_offset (cursor s) < 5
     \<and> length (block_bytes (cursor s')) - block_offset (cursor s') < length (block_bytes (cursor s)) - block_offset (cursor s)"
proof -
  obtain s' where s': "scan_step 1024 100 sample_scanner = Inr (More s')"
    using sample_scanner_steps by blast
  moreover have "block_offset (cursor sample_scanner) < 5"
    by (simp add: sample_scanner_def)
  ultimately show ?thesis
    using gif_scan_terminates [OF s', THEN conjunct2] by blast
qed

section \<open>Posts\<close>

text \<open>
  C30. The comment parser never panics. Its tokens have no empty and no adjacent texts; the tags of
  every kind open and close in order, at most \<open>depth_limit\<close> deep, and all are closed at the end; tags
  the policy does not allow do not occur; and no character is invented or moved.
\<close>

theorem markup_balanced:
  "\<exists>ts. parse_markup_with_limits input policy limits = Inr ts \<and> merged ts
     \<and> (\<forall>t. nest t (depth_limit t) 0 (atoms_of ts) = Some 0)
     \<and> (\<forall>t. \<not> enabled policy t \<longrightarrow> tags_of t (atoms_of ts) = [])
     \<and> subseq (chars_of (atoms_of ts)) (map input_atom (take (prepared_chars limits) input))"
  by (rule parse_markup_spec)

theorem markup_balanced_witness:
  "\<exists>ts. parse_markup (lit ''[spoiler][b]x'')
       \<lparr>allow_spoilers = True, allow_code = False, allow_sjis = False, allow_op = False\<rparr> = Inr ts
     \<and> nest Spoiler 2 0 (atoms_of ts) = Some 0 \<and> tags_of Bold (atoms_of ts) = []"
proof -
  let ?policy = "\<lparr>allow_spoilers = True, allow_code = False, allow_sjis = False, allow_op = False\<rparr>"
  obtain ts where "parse_markup (lit ''[spoiler][b]x'') ?policy = Inr ts"
      "\<forall>t. nest t (depth_limit t) 0 (atoms_of ts) = Some 0" "\<forall>t. \<not> enabled ?policy t \<longrightarrow> tags_of t (atoms_of ts) = []"
    using markup_balanced [of "lit ''[spoiler][b]x''" ?policy "ordinary MAX_COMMENT_CHARS"]
    by (auto simp: parse_markup_def)
  moreover have "\<not> enabled ?policy Bold" "depth_limit Spoiler = 2"
    by (simp_all add: depth_limit_def)
  ultimately show ?thesis
    by metis
qed

text \<open>
  C31. The sliding window over lines decides the regular expression it stands for: a text is refused
  exactly when it has more than six line feeds and, with its entities written out, contains six times
  the same text followed by the same number of line feeds.
\<close>

theorem repeated_lines_exact:
  "repeated_lines t \<longleftrightarrow> 6 < count_list t 10 \<and>
     (\<exists>before x k after. source_html_entities t = before @ concat (replicate 6 (x @ replicate k 10)) @ after
        \<and> x \<noteq> [] \<and> 10 \<notin> set x \<and> 0 < k)"
  unfolding repeated_lines_iff repeats_def by (rule refl)

text \<open>
  C32. Preparing a comment never panics: it refuses or returns text without control characters other
  than line feeds, without private characters, within the prepared lengths and the board's lines, not
  blank unless there is an attachment, and, under ordinary spacing, without three blank lines in a row.
\<close>

theorem prepared_comment_sound:
  "safe (prepare_post_comment_with_limits name subject comment limits has_attachment spacing) (\<lambda>text.
     (\<forall>c\<in>set text. (c = 10 \<or> \<not> is_control c) \<and> c \<le> max_scalar)
     \<and> byte_length text \<le> prepared_bytes limits \<and> length text \<le> prepared_chars limits
     \<and> (has_attachment \<or> trim_matches is_whitespace text \<noteq> [])
     \<and> (is_authorized limits \<or> count_list text 10 \<le> max_lines spacing)
     \<and> (code_spacing spacing \<or> sjis_spacing spacing \<or> calm text))"
  by (rule prepared_comment_spec)

theorem prepared_comment_sound_witness:
  "\<exists>text. prepare_post_comment_with_limits [] [] sample_comment (ordinary 100) False sample_spacing = Inr text
     \<and> count_list text 10 \<le> 70 \<and> calm text \<and> trim_matches is_whitespace text \<noteq> []"
  using prepared_comment_sound [of "[]" "[]" sample_comment "ordinary 100" False sample_spacing]
  unfolding sample_prepared by (simp add: sample_fields ordinary_def)

text \<open>
  C33. A post's subject and comment together: preparation never panics; what it returns carries no
  control characters and keeps its bounds, the formatter then reads the whole comment, and the post is
  admitted exactly when its kind allows what is visible of it, and refused with the kind's error
  otherwise. A comment shows nothing exactly when its HTML (entities and elements written out) is
  only ASCII whitespace and line breaks: even an empty element counts as content.
\<close>

theorem post_content_admission:
  "case prepare_post_content_input name subject comment max_chars has_attachment spacing pk of
     Inl e \<Rightarrow> e \<noteq> Panicked
   | Inr s \<Rightarrow> input_ok s \<and> (\<exists>tokens.
         parse_markup_with_limits (input_comment s) (markup_policy spacing) (ordinary max_chars) = Inr tokens
         \<and> subseq (chars_of (atoms_of tokens)) (map input_atom (input_comment s))
         \<and> (let shown = \<not> blank_html (comment_html tokens) in
            prepare_post_content name subject comment max_chars has_attachment spacing pk
              = (if kind_allows pk has_attachment (input_subject s \<noteq> []) shown
                 then Inr \<lparr>content_subject = input_subject s, content_comment = input_comment s\<rparr>
                 else Inl (Refused (refusal pk shown)))))"
proof (cases "prepare_post_content_input name subject comment max_chars has_attachment spacing pk")
  case (Inl e)
  then show ?thesis
    using prepare_input_spec [of name subject comment "ordinary max_chars" has_attachment spacing pk]
    by (cases e) (simp_all add: prepare_post_content_input_def)
next
  case (Inr s)
  then have s: "input_ok s" "input_attachment s = has_attachment" "input_kind s = pk" "input_limits s = ordinary max_chars"
      "input_markup s = markup_policy spacing"
    using prepare_input_spec [of name subject comment "ordinary max_chars" has_attachment spacing pk]
    by (simp_all add: prepare_post_content_input_def)
  show ?thesis
    using finish_spec [OF s(1)] s(1)
    unfolding Inr sum.case prepare_post_content_def bindE_Inr s(2-5) Let_def shows_content_def by metis
qed

theorem post_content_admission_witness:
  "prepare_post_content [] [] sample_comment 100 False sample_spacing Reply
     = Inr \<lparr>content_subject = [], content_comment = sample_comment\<rparr>
   \<and> prepare_post_content [] [] sample_comment 100 False sample_spacing (Thread False False True) = Inl (Refused SubjectRequired)"
  using post_content_admission [where name = "[]" and subject = "[]" and comment = sample_comment and max_chars = 100
      and has_attachment = False and spacing = sample_spacing and pk = Reply]
    post_content_admission [where name = "[]" and subject = "[]" and comment = sample_comment and max_chars = 100
      and has_attachment = False and spacing = sample_spacing and pk = "Thread False False True"]
    sample_post_input [of Reply] sample_post_input [of "Thread False False True"] sample_tokens sample_shown
  by (simp add: shows_content_def)

section \<open>Poll credentials\<close>

text \<open>
  C34. A poll voter's cookie is accepted exactly when it was issued with this key and is active, and a
  form token exactly when it was made for this voter and poll and has not expired, given that tags are
  verified by comparison and base64 decodes what it encoded.
\<close>

theorem poll_credentials_exact:
  assumes "poll_crypto_ok c"
  shows "(parse_voter c key token now = Some v \<longleftrightarrow>
       token = voter_credential v \<and> length (voter_nonce v) = 32
       \<and> issue_voter c key (voter_issued v) (voter_nonce v) = Inr v
       \<and> sint (voter_issued v) \<le> sint now \<and> sint now < sint (voter_expires v))
     \<and> (verify_form_token c key v poll form now \<longleftrightarrow>
       (\<exists>t limit. form_token c key v poll t = Inr form \<and> checked_add_i64 t FORM_LIFETIME = Some limit
          \<and> sint t \<le> sint now \<and> sint now < sint (min_i64 limit (voter_expires v))))"
  by (rule conjI [OF parse_voter_iff [OF assms] verify_form_token_iff [OF assms]])

theorem poll_credentials_exact_witness:
  "\<exists>v form. parse_voter sample_crypto sample_poll_key (voter_credential v) 60 = Some v
     \<and> form_token sample_crypto sample_poll_key v 42 60 = Inr form
     \<and> verify_form_token sample_crypto sample_poll_key v 42 form 61
     \<and> \<not> verify_form_token sample_crypto sample_poll_key v 0 form 61"
proof -
  obtain v where v: "issue_voter sample_crypto sample_poll_key 0 (replicate 32 0) = Inr v"
      "voter_issued v = 0" "voter_nonce v = replicate 32 0" "voter_expires v = 31536000"
    using sample_voter_issued by blast
  note exact = poll_credentials_exact [OF sample_crypto_ok, of sample_poll_key]
  have "parse_voter sample_crypto sample_poll_key (voter_credential v) 60 = Some v"
    using exact [THEN conjunct1, of "voter_credential v" 60 v] v by simp
  moreover have valid: "valid_voter sample_crypto sample_poll_key v 60"
    using v by (simp add: valid_voter_def active_def matches_voter_iff [OF sample_crypto_ok])
  moreover from valid obtain form where f: "form_token sample_crypto sample_poll_key v 42 60 = Inr form"
    by (simp add: form_token_def validate_poll_def checked_add_i64_def Let_def)
  moreover have "verify_form_token sample_crypto sample_poll_key v 42 form 61"
    by (subst exact [THEN conjunct2, of v 42 form 61])
      (intro exI [of _ 60] exI [of _ 1860], simp add: f v checked_add_i64_def min_i64_def)
  ultimately show ?thesis
    by (intro exI [of _ v] exI [of _ form]) (simp add: verify_form_token_def validate_poll_def)
qed

section \<open>Reports and sessions\<close>

text \<open>
  C35. A report's weight is decided exactly when every completion of the missing facts agrees on it:
  a decision is the weight of all of them and its reason, if any, the reason of all; without a
  decision two completions disagree.
\<close>

theorem report_weight_agreement:
  assumes "facts_ok facts"
  shows "case decide_weight facts of
      NoDecision \<Rightarrow> (\<exists>v w. completes facts v \<and> completes facts w \<and> \<not> f64_eq (world_weight v) (world_weight w))
    | Decided weight how reason \<Rightarrow>
        (\<forall>w. completes facts w \<longrightarrow> f64_eq (world_weight w) weight)
        \<and> (\<forall>r. reason = Some r \<longleftrightarrow> (\<forall>w. completes facts w \<longrightarrow> world_reason w = r))
        \<and> (how = AllBranchesKeepBase \<longleftrightarrow> (\<forall>w. completes facts w \<longrightarrow> \<not> uses_fallback (world_reason w)))
        \<and> (how = AllBranchesUseFallback \<longleftrightarrow> (\<forall>w. completes facts w \<longrightarrow> uses_fallback (world_reason w)))"
  by (rule decide_weight_spec [OF assms])

theorem report_weight_agreement_witness:
  "decide_weight sample_report = Decided f64_half AllBranchesUseFallback None
     \<and> completes sample_report sample_world \<and> f64_eq (world_weight sample_world) f64_half"
  using report_weight_agreement [OF sample_report_ok] sample_report_decided sample_report_completed by simp

text \<open>
  C36. In every state a session can reach under a clock that does not run backwards, the change score
  and the pending bits are within what the store accepts, the stamps are in order, every counter has
  cost four hours for each unit after the first, and no credit is granted before three days.
\<close>

theorem session_activity_earned:
  assumes "session_reach s now"
  shows "change_score s \<le> 32 \<and> take_bit 4 (pending_bits s) = pending_bits s \<and> stamps_ok s now
     \<and> list_all (\<lambda>n. 14400 * (unat n - 1) \<le> unat now - unat (created_at s))
         [post_count s, image_count s, thread_count s, report_count s]
     \<and> (\<forall>g. credit_grant s now = Some g \<longrightarrow> 259200 \<le> unat now - unat (created_at s))"
  using reach_ok [OF assms] session_counts_cost [OF assms] credit_age [OF assms] by (simp add: session_ok_def)

theorem session_activity_earned_witness:
  "\<exists>s. session_reach s 14500 \<and> post_count s = 1 \<and> created_at s = 100 \<and> change_score s \<le> 32 \<and> stamps_ok s 14500"
  using session_activity_earned [OF sample_session_reached] sample_session_counts by blast

section \<open>Saved presentations\<close>

text \<open>
  C37. The binary form of a frozen comment is exact: the decoder returns the presentation \<open>f\<close> under the
  limits of a post if and only if \<open>f\<close> is a value of the program's types, its bounds are those of the
  limits, and the input is what the encoder writes for it. So nothing in the input is ignored, an
  FP02 payload never decodes for an ordinary post, and no two inputs decode to the same value.
\<close>

theorem saved_presentation_roundtrip:
  "decode_presentation lib input limits = Inr f \<longleftrightarrow>
     typed f \<and> fp_bounds f = for_post limits \<and> encode_presentation lib f = Inr input"
  by (rule presentation_decode_exact)

text \<open>
  C38. Validation of a frozen comment never panics. It succeeds exactly when the atoms are valid, texts are not
  adjacent, quotes alternate, the tags of each kind nest with the same choices and in their depth, and
  the sizes and units are within the bounds; the three sizes it returns are then the lengths of what
  is encoded, of the HTML source and of the search text, which all exist.
\<close>

theorem saved_presentation_validated:
  assumes "typed f"
  shows "validate lib f \<noteq> Inl Panicked
    \<and> (validate lib f = Inr z \<longleftrightarrow> presentation_ok lib f \<and> z = total_sizes lib (fp_atoms f))
    \<and> (presentation_ok lib f \<longrightarrow>
        (\<exists>out src shown. encode_presentation lib f = Inr out \<and> source_projection lib f = Inr src \<and> search_text f = Inr shown
           \<and> total_sizes lib (fp_atoms f) =
               \<lparr>encoded_size = length out, source_size = byte_length src, search_size = byte_length shown\<rparr>))"
proof (intro conjI impI)
  assume ok: "presentation_ok lib f"
  then have out: "encode_presentation lib f = Inr (presentation_bytes f)"
    using presentation_encode_iff [OF assms] by blast
  show "\<exists>out src shown. encode_presentation lib f = Inr out \<and> source_projection lib f = Inr src \<and> search_text f = Inr shown
      \<and> total_sizes lib (fp_atoms f) =
          \<lparr>encoded_size = length out, source_size = byte_length src, search_size = byte_length shown\<rparr>"
    using projection_sizes [OF assms ok] presentation_bytes_length [of f lib] out by (auto intro!: Sizes.equality)
qed (use validate_no_panic [OF assms] validate_iff [OF assms] in blast)+

theorem saved_presentation_validated_witness:
  "\<exists>out src shown. encode_presentation sample_library sample_frozen = Inr out
     \<and> source_projection sample_library sample_frozen = Inr src \<and> search_text sample_frozen = Inr shown
     \<and> length out = 35 \<and> byte_length src = 45 \<and> byte_length shown = 10"
  using saved_presentation_validated [OF sample_frozen_typed, of sample_library "\<lparr>encoded_size = 35, source_size = 45, search_size = 10\<rparr>"]
    sample_validated by auto

text \<open>
  C39. Freezing a formatted comment loses nothing that is stored or shown: a comment that freezes is encoded, the
  encoding is decoded to the same presentation, and its HTML source and search text are those of the
  lines it was made from, although post references became text and adjacent texts were merged.
\<close>

theorem frozen_comment_stored:
  assumes "freeze lib ls (for_post limits) filtering = Inr f" "lines_typed ls"
  shows "\<exists>out. encode_presentation lib f = Inr out \<and> decode_presentation lib out limits = Inr f
    \<and> source_projection lib f = lines_source lib ls \<and> search_text f = plain_text ls"
  using freeze_stored [OF assms] freeze_projections [OF assms(1)] by blast

theorem frozen_comment_stored_witness:
  "\<exists>out. encode_presentation sample_library sample_frozen = Inr out
     \<and> decode_presentation sample_library out (ordinary 2000) = Inr sample_frozen
     \<and> source_projection sample_library sample_frozen = lines_source sample_library sample_lines
     \<and> search_text sample_frozen = plain_text sample_lines"
  using frozen_comment_stored [OF sample_freeze sample_lines_typed] .

text \<open>
  C40. Post numbers of moved threads: rewriting succeeds exactly when there are at most 1001 replacements, the
  presentation is valid, every intermediate result is within the bounds, and the budget covers the
  total work; the budget is then less by exactly that work and each text is the sequential
  replacement of all matches. On every error the presentation is unchanged, nothing panicked, and the
  budget did not grow.
\<close>

theorem post_numbers_rewritten:
  assumes "typed f" "list_all proper prior" "prior \<noteq> []"
  shows "(rewrite_prior lib f prior budget = (g, left, Inr ()) \<longleftrightarrow>
      length prior \<le> MAX_PRIOR_REPLACEMENTS \<and> presentation_ok lib f
      \<and> (\<forall>k\<le>length prior. sizes_within (fp_bounds f) (total_sizes lib (replaced (take k prior) (fp_atoms f))))
      \<and> total_work f prior \<le> budget \<and> left = budget - total_work f prior
      \<and> g = f\<lparr>fp_atoms := replaced prior (fp_atoms f)\<rparr>)
    \<and> (rewrite_prior lib f prior budget = (g, left, Inl e) \<longrightarrow> g = f \<and> left \<le> budget \<and> e \<noteq> Panicked)"
proof (intro conjI impI)
  show "rewrite_prior lib f prior budget = (g, left, Inr ()) \<longleftrightarrow>
      length prior \<le> MAX_PRIOR_REPLACEMENTS \<and> presentation_ok lib f
      \<and> (\<forall>k\<le>length prior. sizes_within (fp_bounds f) (total_sizes lib (replaced (take k prior) (fp_atoms f))))
      \<and> total_work f prior \<le> budget \<and> left = budget - total_work f prior
      \<and> g = f\<lparr>fp_atoms := replaced prior (fp_atoms f)\<rparr>"
    unfolding rewritten_iff [OF assms, of lib budget left g, symmetric]
    by (auto simp: rewrite_prior_def split: prod.split sum.split)
  assume "rewrite_prior lib f prior budget = (g, left, Inl e)"
  then have "rewritten lib f prior budget = (left, Inl e)" "g = f"
    by (auto simp: rewrite_prior_def split: prod.splits sum.splits)
  then show "g = f" "left \<le> budget" "e \<noteq> Panicked"
    using rewritten_calm [OF assms(1,2), of lib] by (auto simp: quiet_def dest: spec [of _ budget])
qed

theorem post_numbers_rewritten_witness:
  "rewrite_prior sample_library sample_frozen [sample_prior] 100 = (sample_moved, 21, Inr ())"
  using post_numbers_rewritten [OF sample_frozen_typed, of "[sample_prior]" sample_library 100 sample_moved 21]
    sample_prior_proper sample_sizes sample_work(2) sample_replaced
  by (simp add: MAX_PRIOR_REPLACEMENTS_def sample_frozen_def sample_moved_def)

end
